(* ===== verification/Prelude.thy ===== *)
theory Prelude
  imports Main "HOL-Library.Sublist" "HOL-Library.AList" "HOL-Library.Multiset" "HOL-Library.Char_ord" "HOL-Library.List_Lexorder"
begin

text \<open>
  What the components share. A Rust \<open>String\<close> or \<open>&str\<close> is a \<open>string\<close>, the list of
  its UTF-8 bytes; every separator and literal the source searches for is ASCII, so slicing at byte
  offsets and comparing bytes is what the source does. A \<open>HashMap\<close> or \<open>BTreeMap\<close> is
  an association list with distinct keys read by \<open>map_of\<close>: for a \<open>BTreeMap\<close> the list is
  sorted by key, for a \<open>HashMap\<close> its order stands for the iteration order, which Rust does not
  specify, so a lemma about every list is a lemma about every iteration order. A fallible function
  returns \<open>error + 'a\<close>. The string operations of Rust's standard library that the source
  calls are defined here once, with the lemmas the components use.
\<close>

named_theorems rust_str \<open>defining facts of the string operations\<close>
named_theorems result_simps \<open>facts about results and options\<close>

type_synonym ('e, 'a) result = "'e + 'a"
type_synonym ('k, 'v) hmap = "('k \<times> 'v) list"

section \<open>Results\<close>

definition bind_result :: "('e, 'a) result \<Rightarrow> ('a \<Rightarrow> ('e, 'b) result) \<Rightarrow> ('e, 'b) result" where
  "bind_result r f = (case r of Inl e \<Rightarrow> Inl e | Inr a \<Rightarrow> f a)"

definition ensure :: "bool \<Rightarrow> 'e \<Rightarrow> ('e, unit) result" where
  "ensure b e = (if b then Inr () else Inl e)"

definition ok_or :: "'a option \<Rightarrow> 'e \<Rightarrow> ('e, 'a) result" where
  "ok_or x e = (case x of None \<Rightarrow> Inl e | Some a \<Rightarrow> Inr a)"

definition is_ok :: "('e, 'a) result \<Rightarrow> bool" where
  "is_ok r = (case r of Inl e \<Rightarrow> False | Inr a \<Rightarrow> True)"

lemma bind_result_simps [simp, result_simps]:
  "bind_result (Inl e) f = Inl e" "bind_result (Inr a) f = f a"
  by (simp_all add: bind_result_def)

lemma bind_result_Inr_iff [result_simps]:
  "bind_result r f = Inr b \<longleftrightarrow> (\<exists>a. r = Inr a \<and> f a = Inr b)"
  by (cases r) auto

lemma case_result_Inr_iff [result_simps]:
  "(case r of Inl e \<Rightarrow> Inl (g e) | Inr a \<Rightarrow> f a) = Inr b \<longleftrightarrow> (\<exists>a. r = Inr a \<and> f a = Inr b)"
  by (cases r) auto

lemma ensure_Inr_iff [simp, result_simps]: "ensure b e = Inr u \<longleftrightarrow> b"
  by (simp add: ensure_def)

lemma ensure_simps [simp]: "ensure True e = Inr ()" "ensure False e = Inl e"
  by (simp_all add: ensure_def)

lemma ok_or_Inr_iff [simp, result_simps]: "ok_or x e = Inr a \<longleftrightarrow> x = Some a"
  by (cases x) (auto simp: ok_or_def)

lemma ok_or_simps [simp]: "ok_or None e = Inl e" "ok_or (Some a) e = Inr a"
  by (simp_all add: ok_or_def)

lemma is_ok_iff [simp, result_simps]: "is_ok r \<longleftrightarrow> (\<exists>a. r = Inr a)"
  by (cases r) (auto simp: is_ok_def)

fun map_result :: "('a \<Rightarrow> ('e, 'b) result) \<Rightarrow> 'a list \<Rightarrow> ('e, 'b list) result" where
  "map_result f [] = Inr []"
| "map_result f (x # xs) = bind_result (f x) (\<lambda>y. bind_result (map_result f xs) (\<lambda>ys. Inr (y # ys)))"

fun fold_result :: "('a \<Rightarrow> 's \<Rightarrow> ('e, 's) result) \<Rightarrow> 'a list \<Rightarrow> 's \<Rightarrow> ('e, 's) result" where
  "fold_result f [] s = Inr s"
| "fold_result f (x # xs) s = bind_result (f x s) (fold_result f xs)"

lemma fold_result_append:
  "fold_result f (xs @ ys) s = bind_result (fold_result f xs s) (fold_result f ys)"
  by (induction xs arbitrary: s) (auto simp: bind_result_def split: sum.splits)

lemma fold_result_invariant:
  assumes "fold_result f xs s = Inr s'" and "P s"
    and "\<And>x a b. x \<in> set xs \<Longrightarrow> P a \<Longrightarrow> f x a = Inr b \<Longrightarrow> P b"
  shows "P s'"
  using assms
proof (induction xs arbitrary: s)
  case (Cons x xs)
  then obtain b where b: "f x s = Inr b" "fold_result f xs b = Inr s'"
    by (auto simp: bind_result_Inr_iff)
  have "P b" using Cons.prems b(1) by (meson list.set_intros(1))
  then show ?case using Cons.IH[OF b(2)] Cons.prems by (meson list.set_intros(2))
qed simp

lemma fold_invariant:
  assumes "P s" "\<And>x s. x \<in> set xs \<Longrightarrow> P s \<Longrightarrow> P (f x s)" shows "P (fold f xs s)"
  using assms by (induction xs arbitrary: s) auto

lemma in_map_filter: "y \<in> set (List.map_filter f xs) \<longleftrightarrow> (\<exists>x\<in>set xs. f x = Some y)"
  by (induction xs) (auto simp: map_filter_simps split: option.splits)

section \<open>Strings\<close>

definition starts_with :: "'a list \<Rightarrow> 'a list \<Rightarrow> bool" where
  "starts_with s p \<longleftrightarrow> take (length p) s = p"

definition strip_prefix :: "'a list \<Rightarrow> 'a list \<Rightarrow> 'a list option" where
  "strip_prefix s p = (if starts_with s p then Some (drop (length p) s) else None)"

definition ends_with :: "'a list \<Rightarrow> 'a list \<Rightarrow> bool" where
  "ends_with s p \<longleftrightarrow> length p \<le> length s \<and> drop (length s - length p) s = p"

definition strip_suffix :: "'a list \<Rightarrow> 'a list \<Rightarrow> 'a list option" where
  "strip_suffix s p = (if ends_with s p then Some (take (length s - length p) s) else None)"

lemma starts_with_append [simp, rust_str]: "starts_with (p @ s) p"
  by (simp add: starts_with_def)

lemma starts_with_iff [rust_str]: "starts_with s p \<longleftrightarrow> (\<exists>t. s = p @ t)"
  by (metis append_eq_conv_conj append_take_drop_id starts_with_def)

lemma starts_with_Cons [simp]: "starts_with (a # s) (b # p) \<longleftrightarrow> a = b \<and> starts_with s p"
  by (simp add: starts_with_def)

lemma starts_with_Nil [simp]: "starts_with s []" "starts_with [] p \<longleftrightarrow> p = []"
  by (auto simp: starts_with_def)

lemma strip_prefix_Some_iff [rust_str]: "strip_prefix s p = Some t \<longleftrightarrow> s = p @ t"
  by (auto simp: strip_prefix_def starts_with_iff)

lemma strip_prefix_append [simp]: "strip_prefix (p @ t) p = Some t"
  by (simp add: strip_prefix_Some_iff)

lemma strip_prefix_None_iff [rust_str]: "strip_prefix s p = None \<longleftrightarrow> \<not> starts_with s p"
  by (simp add: strip_prefix_def)

lemma ends_with_iff [rust_str]: "ends_with s p \<longleftrightarrow> (\<exists>t. s = t @ p)"
proof
  assume "ends_with s p"
  then have "s = take (length s - length p) s @ p"
    by (metis append_take_drop_id ends_with_def)
  then show "\<exists>t. s = t @ p" ..
next
  assume "\<exists>t. s = t @ p"
  then show "ends_with s p" by (auto simp: ends_with_def)
qed

text \<open>\<open>find\<close> and \<open>rfind\<close> of one byte give the split around the first or last occurrence.\<close>

fun split_first :: "'a \<Rightarrow> 'a list \<Rightarrow> ('a list \<times> 'a list) option" where
  "split_first c [] = None"
| "split_first c (x # xs) =
     (if x = c then Some ([], xs) else map_option (\<lambda>(a, b). (x # a, b)) (split_first c xs))"

fun split_last :: "'a \<Rightarrow> 'a list \<Rightarrow> ('a list \<times> 'a list) option" where
  "split_last c [] = None"
| "split_last c (x # xs) =
     (case split_last c xs of
        Some (a, b) \<Rightarrow> Some (x # a, b)
      | None \<Rightarrow> if x = c then Some ([], xs) else None)"

lemma split_first_None [rust_str]: "split_first c s = None \<longleftrightarrow> c \<notin> set s"
  by (induction s) auto

lemma split_first_Some [rust_str]:
  "split_first c s = Some (a, b) \<longleftrightarrow> s = a @ c # b \<and> c \<notin> set a"
proof (induction s arbitrary: a)
  case (Cons x xs)
  then show ?case by (cases a) auto
qed simp

lemma split_last_None [rust_str]: "split_last c s = None \<longleftrightarrow> c \<notin> set s"
  by (induction s) (auto split: option.splits)

lemma split_last_Some [rust_str]:
  "split_last c s = Some (a, b) \<longleftrightarrow> s = a @ c # b \<and> c \<notin> set b"
proof (induction s arbitrary: a b)
  case Nil
  then show ?case by simp
next
  case (Cons x xs)
  show ?case
  proof (cases "split_last c xs")
    case None
    then have "c \<notin> set xs" by (simp add: split_last_None)
    then show ?thesis using None by (cases a) auto
  next
    case (Some p)
    obtain a' b' where p: "p = (a', b')" by (cases p)
    then have xs: "xs = a' @ c # b'" "c \<notin> set b'"
      using Some Cons.IH[of a' b'] by simp_all
    show ?thesis
    proof
      assume "split_last c (x # xs) = Some (a, b)"
      then have "a = x # a'" "b = b'" using Some p by auto
      then show "x # xs = a @ c # b \<and> c \<notin> set b" using xs by simp
    next
      assume h: "x # xs = a @ c # b \<and> c \<notin> set b"
      then have "a \<noteq> []" using xs by auto
      then obtain a'' where a'': "a = x # a''" "xs = a'' @ c # b"
        using h by (cases a) auto
      then have "split_last c xs = Some (a'', b)" using h Cons.IH[of a'' b] by simp
      then show "split_last c (x # xs) = Some (a, b)" using a'' by simp
    qed
  qed
qed

text \<open>\<open>find\<close> and \<open>rfind\<close> of a substring: the text before and after an occurrence.\<close>

fun find_str :: "'a list \<Rightarrow> 'a list \<Rightarrow> ('a list \<times> 'a list) option" where
  "find_str p s =
     (case strip_prefix s p of
        Some t \<Rightarrow> Some ([], t)
      | None \<Rightarrow> (case s of [] \<Rightarrow> None
               | x # xs \<Rightarrow> map_option (\<lambda>(a, b). (x # a, b)) (find_str p xs)))"

fun rfind_str :: "'a list \<Rightarrow> 'a list \<Rightarrow> ('a list \<times> 'a list) option" where
  "rfind_str p [] = map_option (Pair []) (strip_prefix [] p)"
| "rfind_str p (x # xs) =
     (case rfind_str p xs of
        Some (a, b) \<Rightarrow> Some (x # a, b)
      | None \<Rightarrow> map_option (Pair []) (strip_prefix (x # xs) p))"

declare find_str.simps [simp del]

definition contains_str :: "'a list \<Rightarrow> 'a list \<Rightarrow> bool" where
  "contains_str s p \<longleftrightarrow> find_str p s \<noteq> None"

lemma rfind_str_Some: "rfind_str p s = Some (a, b) \<Longrightarrow> s = a @ p @ b"
  by (induction s arbitrary: a) (auto simp: strip_prefix_Some_iff split: option.splits)

lemma find_str_Some: "find_str p s = Some (a, b) \<Longrightarrow> s = a @ p @ b"
proof (induction s arbitrary: a)
  case Nil
  then show ?case
    by (subst (asm) find_str.simps) (auto simp: strip_prefix_Some_iff split: option.splits)
next
  case (Cons x xs)
  then show ?case
    by (subst (asm) find_str.simps) (auto simp: strip_prefix_Some_iff split: option.splits)
qed

lemma rfind_str_append: "rfind_str p (a @ p @ b) \<noteq> None"
proof (induction a)
  case Nil
  have "strip_prefix (p @ b) p = Some b" by simp
  then show ?case by (cases "p @ b") (auto split: option.splits)
next
  case (Cons x xs)
  then show ?case by (auto split: option.splits)
qed

lemma find_str_None: "find_str p s = None \<longleftrightarrow> (\<nexists>a b. s = a @ p @ b)"
proof (induction s)
  case Nil
  show ?case by (subst find_str.simps) (auto simp: strip_prefix_def starts_with_iff split: option.splits)
next
  case (Cons x xs)
  show ?case
  proof (cases "strip_prefix (x # xs) p")
    case None
    then have np: "\<nexists>t. x # xs = p @ t" by (simp add: strip_prefix_None_iff starts_with_iff)
    have "(\<exists>a b. x # xs = a @ p @ b) \<longleftrightarrow> (\<exists>a b. xs = a @ p @ b)"
      by (metis np append_Cons append_Nil neq_Nil_conv list.inject)
    then show ?thesis using Cons None by (subst find_str.simps) simp
  next
    case (Some t)
    then have "x # xs = [] @ p @ t" by (simp add: strip_prefix_Some_iff)
    then show ?thesis using Some by (subst find_str.simps) (simp, metis append_Nil)
  qed
qed

lemma rfind_str_None: "rfind_str p s = None \<longleftrightarrow> (\<nexists>a b. s = a @ p @ b)"
proof
  assume "rfind_str p s = None"
  then show "\<nexists>a b. s = a @ p @ b" using rfind_str_append[of p] by metis
next
  assume "\<nexists>a b. s = a @ p @ b"
  then show "rfind_str p s = None" using rfind_str_Some[of p s] by (cases "rfind_str p s") auto
qed

lemma contains_str_iff [rust_str]: "contains_str s p \<longleftrightarrow> (\<exists>a b. s = a @ p @ b)"
  by (simp add: contains_str_def find_str_None)

text \<open>\<open>split(c)\<close> always yields at least one piece; \<open>splitn(2, c)\<close> at most two.\<close>

fun split_char :: "'a \<Rightarrow> 'a list \<Rightarrow> 'a list list" where
  "split_char c [] = [[]]"
| "split_char c (x # xs) =
     (if x = c then [] # split_char c xs
      else (case split_char c xs of [] \<Rightarrow> [[x]] | p # ps \<Rightarrow> (x # p) # ps))"

definition splitn2 :: "'a \<Rightarrow> 'a list \<Rightarrow> 'a list list" where
  "splitn2 c s = (case split_first c s of None \<Rightarrow> [s] | Some (a, b) \<Rightarrow> [a, b])"

fun intercalate :: "'a list \<Rightarrow> 'a list list \<Rightarrow> 'a list" where
  "intercalate sep [] = []"
| "intercalate sep [x] = x"
| "intercalate sep (x # y # ys) = x @ sep @ intercalate sep (y # ys)"

lemma split_char_nonempty [simp]: "split_char c s \<noteq> []"
  by (induction s) (auto split: list.splits)

lemma split_char_pieces: "p \<in> set (split_char c s) \<Longrightarrow> c \<notin> set p"
  by (induction s arbitrary: p) (auto split: if_splits list.splits)

lemma intercalate_split_char: "intercalate [c] (split_char c s) = s"
proof (induction s)
  case (Cons x xs)
  obtain p ps where s: "split_char c xs = p # ps" by (metis neq_Nil_conv split_char_nonempty)
  then show ?case using Cons by (cases ps) auto
qed simp

lemma split_char_notin: "c \<notin> set s \<Longrightarrow> split_char c s = [s]"
  by (induction s) auto

lemma split_char_append:
  "c \<notin> set a \<Longrightarrow> split_char c (a @ c # b) = a # split_char c b"
  by (induction a) auto

lemma split_char_intercalate:
  "ps \<noteq> [] \<Longrightarrow> \<forall>p\<in>set ps. c \<notin> set p \<Longrightarrow> split_char c (intercalate [c] ps) = ps"
  by (induction "[c]" ps rule: intercalate.induct) (auto simp: split_char_notin split_char_append)

definition replace_char :: "'a \<Rightarrow> 'a list \<Rightarrow> 'a list \<Rightarrow> 'a list" where
  "replace_char c r s = concat (map (\<lambda>x. if x = c then r else [x]) s)"

lemma replace_char_simps [simp]:
  "replace_char c r [] = []"
  "replace_char c r (x # xs) = (if x = c then r else [x]) @ replace_char c r xs"
  by (simp_all add: replace_char_def)

lemma set_replace_char: "set (replace_char c r s) \<subseteq> (set s - {c}) \<union> set r"
  by (auto simp: replace_char_def split: if_splits)

lemma replace_char_notin: "c \<notin> set s \<Longrightarrow> replace_char c r s = s"
  by (induction s) auto

section \<open>Bytes and letters\<close>

definition byte :: "char \<Rightarrow> nat" where
  "byte c = of_char c"

lemma byte_less [simp]: "byte c < 256"
  by (simp add: byte_def)

lemma char_of_byte [simp]: "char_of (byte c) = c"
  by (simp add: byte_def)

lemma byte_inj [simp]: "byte c = byte d \<longleftrightarrow> c = d"
  by (simp add: byte_def)

definition to_ascii_lowercase :: "char \<Rightarrow> char" where
  "to_ascii_lowercase c = (if 65 \<le> byte c \<and> byte c \<le> 90 then char_of (byte c + 32) else c)"

definition lowercase :: "string \<Rightarrow> string" where
  "lowercase s = map to_ascii_lowercase s"

definition eq_ignore_ascii_case :: "string \<Rightarrow> string \<Rightarrow> bool" where
  "eq_ignore_ascii_case a b \<longleftrightarrow> lowercase a = lowercase b"

section \<open>Maps\<close>

text \<open>
  \<open>hm_insert\<close> overwrites the value of a key in place or appends a new one, so keys stay
  distinct; \<open>BTreeMap\<close> contents are kept by sorting on the key.
\<close>

definition hm_insert :: "'k \<Rightarrow> 'v \<Rightarrow> ('k, 'v) hmap \<Rightarrow> ('k, 'v) hmap" where
  "hm_insert k v m = AList.update k v m"

definition hm_wf :: "('k, 'v) hmap \<Rightarrow> bool" where
  "hm_wf m \<longleftrightarrow> distinct (map fst m)"

definition hm_collect :: "('k \<times> 'v) list \<Rightarrow> ('k, 'v) hmap" where
  "hm_collect kvs = fold (\<lambda>(k, v). hm_insert k v) kvs []"

lemma map_of_hm_insert [simp]: "map_of (hm_insert k v m) = (map_of m)(k \<mapsto> v)"
  by (simp add: hm_insert_def update_conv')

lemma hm_wf_insert [simp, intro]: "hm_wf m \<Longrightarrow> hm_wf (hm_insert k v m)"
  by (simp add: hm_wf_def hm_insert_def distinct_update)

lemma hm_wf_Nil [simp]: "hm_wf []"
  by (simp add: hm_wf_def)

lemma fst_set_hm_insert: "fst ` set (hm_insert k v m) = insert k (fst ` set m)"
  by (metis dom_map_of_conv_image_fst dom_fun_upd map_of_hm_insert option.distinct(1))

lemma hm_insert_new: "k \<notin> fst ` set m \<Longrightarrow> hm_insert k v m = m @ [(k, v)]"
  unfolding hm_insert_def by (induction m) auto

lemma hm_collect_wf_aux: "hm_wf m \<Longrightarrow> hm_wf (fold (\<lambda>(k, v). hm_insert k v) kvs m)"
  by (induction kvs arbitrary: m) auto

lemma hm_wf_collect [simp]: "hm_wf (hm_collect kvs)"
  by (simp add: hm_collect_def hm_collect_wf_aux)

lemma hm_collect_aux:
  "distinct (map fst (m @ kvs)) \<Longrightarrow> fold (\<lambda>(k, v). hm_insert k v) kvs m = m @ kvs"
proof (induction kvs arbitrary: m)
  case (Cons kv kvs)
  obtain k v where kv: "kv = (k, v)" by (cases kv)
  have "k \<notin> fst ` set m" using Cons.prems kv by auto
  then have "hm_insert k v m = m @ [kv]" using kv by (simp add: hm_insert_new)
  then show ?case using Cons kv by simp
qed simp

lemma hm_collect_distinct: "hm_wf kvs \<Longrightarrow> hm_collect kvs = kvs"
  by (simp add: hm_collect_def hm_wf_def hm_collect_aux)

lemma map_of_fold_hm_insert:
  "map_of (fold (\<lambda>(k, v). hm_insert k v) kvs m) = map_of m ++ map_of (rev kvs)"
  by (induction kvs arbitrary: m) (auto simp: map_add_def fun_eq_iff split: option.splits)

lemma map_of_hm_collect: "map_of (hm_collect kvs) = map_of (rev kvs)"
  by (simp add: hm_collect_def map_of_fold_hm_insert)

definition btree :: "('k::linorder, 'v) hmap \<Rightarrow> ('k, 'v) hmap" where
  "btree m = sort_key fst (hm_collect m)"

lemma map_of_sort_key:
  assumes "hm_wf m" shows "map_of (sort_key fst m) = map_of m"
proof (rule map_of_inject_set [THEN iffD2])
  have "mset (map fst (sort_key fst m)) = mset (map fst m)" by simp
  then show "distinct (map fst (sort_key fst m))"
    using assms by (metis hm_wf_def mset_eq_imp_distinct_iff)
  show "distinct (map fst m)" using assms by (simp add: hm_wf_def)
qed simp

lemma hm_wf_sort_key: "hm_wf m \<Longrightarrow> hm_wf (sort_key fst m)"
  by (metis hm_wf_def mset_eq_imp_distinct_iff mset_map mset_sort)

lemma btree_wf [simp]: "hm_wf (btree m)"
  by (simp add: btree_def hm_wf_sort_key)

lemma map_of_btree: "map_of (btree m) = map_of (hm_collect m)"
  by (simp add: btree_def map_of_sort_key)

lemma map_of_btree_wf: "hm_wf m \<Longrightarrow> map_of (btree m) = map_of m"
  by (simp add: map_of_btree hm_collect_distinct)

lemma btree_sorted: "sorted (map fst (btree m))"
  by (simp add: btree_def)

text \<open>Two sorted maps with the same content are the same list: serialisation is deterministic.\<close>

lemma sorted_hmap_unique:
  assumes "hm_wf a" "hm_wf b" "sorted (map fst a)" "sorted (map fst b)" "map_of a = map_of b"
  shows "a = b"
proof -
  have s: "set a = set b"
    using assms by (metis hm_wf_def map_of_inject_set)
  have k: "map fst a = map fst b"
    using assms s by (intro sorted_distinct_set_unique) (auto simp: hm_wf_def)
  show ?thesis
  proof (rule nth_equalityI)
    show "length a = length b" using k by (metis length_map)
  next
    fix i assume i: "i < length a"
    then have j: "i < length b" using k by (metis length_map)
    have f: "fst (a ! i) = fst (b ! i)" using k i j by (metis nth_map)
    have "map_of a (fst (a ! i)) = Some (snd (a ! i))"
      using assms(1) i by (simp add: hm_wf_def)
    moreover have "map_of b (fst (b ! i)) = Some (snd (b ! i))"
      using assms(2) j by (simp add: hm_wf_def)
    ultimately show "a ! i = b ! i" using f assms(5) by (simp add: prod_eq_iff)
  qed
qed

lemma btree_cong: "map_of (hm_collect a) = map_of (hm_collect b) \<Longrightarrow> btree a = btree b"
  by (intro sorted_hmap_unique) (auto simp: map_of_btree btree_sorted)

section \<open>Numbers in text\<close>

text \<open>An unsigned integer in decimal digits.\<close>

fun decimal :: "nat \<Rightarrow> string" where
  "decimal n = (if n < 10 then [char_of (48 + n)] else decimal (n div 10) @ [char_of (48 + n mod 10)])"

declare decimal.simps [simp del]

lemma decimal_value: "foldl (\<lambda>n c. 10 * n + (of_char c - 48)) 0 (decimal n) = n"
proof (induction n rule: decimal.induct)
  case (1 n)
  show ?case
  proof (cases "n < 10")
    case False
    then show ?thesis using 1 by (subst decimal.simps) simp
  qed (subst decimal.simps, simp)
qed

end
