(* ===== verification/Registry_Merkle.thy ===== *)
theory Registry_Merkle
  imports Prelude
begin

text \<open>
  The registry's Merkle tree (\<open>crates/oath-registry/src/lib.rs\<close>): the root of a log, the
  inclusion proof of one entry, the consistency proof between two sizes of the log, and their
  verifiers. \<open>H\<close> is SHA-256 in lower-case hexadecimal, from the \<open>sha2\<close> crate, a parameter.
  A \<open>usize\<close> is a natural number below \<open>2 ^ 64\<close>: the only sum the source checks,
  \<open>checked_add\<close> in \<open>root_from_frontier\<close>, keeps its check here. The verifier's
  recursion on frontier nodes is written over an arbitrary pairing function, which the code takes to be
  \<open>hash_children\<close>; at the constructor \<open>Br\<close> it yields the term of hashes the verifier computed,
  and so the set of strings it hashed.
\<close>

section \<open>Roots and inclusion proofs\<close>

definition hash_leaf :: "(string \<Rightarrow> string) \<Rightarrow> string \<Rightarrow> string" where
  "hash_leaf H leaf = H (CHR 0x00 # leaf)"

definition hash_children :: "(string \<Rightarrow> string) \<Rightarrow> string \<Rightarrow> string \<Rightarrow> string" where
  "hash_children H left right = H (CHR 0x01 # left @ right)"

function split_loop :: "nat \<Rightarrow> nat \<Rightarrow> nat" where
  "split_loop pw n = (if 0 < pw \<and> pw * 2 < n then split_loop (pw * 2) n else pw)"
  by pat_completeness auto
termination by (relation "measure (\<lambda>(pw, n). n - pw)") auto

declare split_loop.simps [simp del]

definition split_point :: "nat \<Rightarrow> nat" where
  "split_point n = split_loop 1 n"

lemma split_loop_pow2:
  "\<exists>j. split_loop (2 ^ k) n = 2 ^ j \<and> k \<le> j \<and> n \<le> 2 ^ (j + 1) \<and> (2 ^ k < n \<longrightarrow> 2 ^ j < n)"
proof (induction "2 ^ k :: nat" n arbitrary: k rule: split_loop.induct)
  case (1 n k)
  show ?case
  proof (cases "(2::nat) ^ k * 2 < n")
    case True
    then obtain j where "split_loop (2 ^ k * 2) n = 2 ^ j" "k + 1 \<le> j" "n \<le> 2 ^ (j + 1)" "2 ^ j < n"
      using "1.hyps"[of "k + 1"] by (auto simp: mult.commute)
    with True show ?thesis by (subst split_loop.simps) (auto intro!: exI[of _ j])
  next
    case False
    then show ?thesis by (subst split_loop.simps) (auto intro!: exI[of _ k])
  qed
qed

lemma split_point_pow2: "1 < n \<Longrightarrow> \<exists>j. split_point n = 2 ^ j \<and> 2 ^ j < n \<and> n \<le> 2 ^ (j + 1)"
  using split_loop_pow2[of 0 n] by (auto simp: split_point_def)

lemma split_point_bounds:
  assumes "1 < n" shows "0 < split_point n" "split_point n < n"
  using split_point_pow2[OF assms] by auto

lemma split_point_pos [simp]: "0 < split_point n"
  using split_loop_pow2[of 0 n] by (auto simp: split_point_def)

lemma split_point_less [simp]: "\<not> n \<le> Suc 0 \<Longrightarrow> split_point n < n"
  using split_point_bounds[of n] by simp

lemma split_point_Suc_Suc [simp]:
  "split_point (Suc (Suc n)) < Suc (Suc n)" "\<not> Suc (Suc n) \<le> split_point (Suc (Suc n))"
  using split_point_bounds(2)[of "Suc (Suc n)"] by linarith+

lemma split_point_eq:
  assumes "2 ^ j < n" "n \<le> 2 ^ (j + 1)" shows "split_point n = 2 ^ j"
proof -
  have "1 < n" using assms(1) one_le_power[of "2::nat" j] by linarith
  then obtain i where i: "split_point n = 2 ^ i" "2 ^ i < n" "n \<le> 2 ^ (i + 1)"
    using split_point_pow2 by blast
  have "(2::nat) ^ i < 2 ^ (j + 1)" using i(2) assms(2) by linarith
  then have "i \<le> j" using power_less_imp_less_exp[of "2::nat" i "j + 1"] by simp
  have "(2::nat) ^ j < 2 ^ (i + 1)" using i(3) assms(1) by linarith
  then have "j \<le> i" using power_less_imp_less_exp[of "2::nat" j "i + 1"] by simp
  with \<open>i \<le> j\<close> i(1) show ?thesis by simp
qed

function subtree_root :: "(string \<Rightarrow> string) \<Rightarrow> string list \<Rightarrow> string" where
  "subtree_root H hashes =
     (case hashes of
        [] \<Rightarrow> H []
      | [x] \<Rightarrow> hash_leaf H x
      | _ \<Rightarrow> (let split = split_point (length hashes)
             in hash_children H (subtree_root H (take split hashes)) (subtree_root H (drop split hashes))))"
  by pat_completeness auto
termination
  by (relation "measure (\<lambda>(H, hashes). length hashes)")
     (auto simp: min_def not_le intro: diff_less)

declare subtree_root.simps [simp del]

definition merkle_root :: "(string \<Rightarrow> string) \<Rightarrow> string list \<Rightarrow> string" where
  "merkle_root H hashes = subtree_root H hashes"

lemma subtree_root_Nil [simp]: "subtree_root H [] = H []"
  by (simp add: subtree_root.simps)

lemma subtree_root_one [simp]: "subtree_root H [x] = hash_leaf H x"
  by (simp add: subtree_root.simps)

lemma subtree_root_split:
  "1 < length hs \<Longrightarrow> subtree_root H hs =
     hash_children H (subtree_root H (take (split_point (length hs)) hs))
                     (subtree_root H (drop (split_point (length hs)) hs))"
  by (subst subtree_root.simps) (auto simp: Let_def split: list.splits)

lemma subtree_root_append:
  assumes "length xs = 2 ^ j" "0 < length ys" "length ys \<le> 2 ^ j"
  shows "subtree_root H (xs @ ys) = hash_children H (subtree_root H xs) (subtree_root H ys)"
proof -
  have "split_point (length (xs @ ys)) = length xs"
    using assms by (simp add: split_point_eq)
  moreover have "0 < (2::nat) ^ j" by simp
  then have "1 < length (xs @ ys)" using assms(2) unfolding length_append assms(1) by linarith
  ultimately show ?thesis by (simp add: subtree_root_split[of "xs @ ys"])
qed

function inclusion_path :: "(string \<Rightarrow> string) \<Rightarrow> string list \<Rightarrow> nat \<Rightarrow> string list" where
  "inclusion_path H hashes index =
     (if length hashes \<le> 1 then []
      else let split = split_point (length hashes)
           in if index < split
              then inclusion_path H (take split hashes) index @ [subtree_root H (drop split hashes)]
              else inclusion_path H (drop split hashes) (index - split) @ [subtree_root H (take split hashes)])"
  by pat_completeness auto
termination
  by (relation "measure (\<lambda>(H, hashes, index). length hashes)")
     (auto simp: min_def not_le intro: diff_less)

declare inclusion_path.simps [simp del]

definition merkle_inclusion_proof :: "(string \<Rightarrow> string) \<Rightarrow> string list \<Rightarrow> nat \<Rightarrow> string list option" where
  "merkle_inclusion_proof H hashes index =
     (if hashes = [] \<or> length hashes \<le> index then None else Some (inclusion_path H hashes index))"

text \<open>
  The recursion returns the rebuilt hash and the new cursor. The caller excludes size zero, which
  the recursion never reaches either, so it shares the branch of size one.
\<close>

function reconstruct :: "(string \<Rightarrow> string) \<Rightarrow> string \<Rightarrow> nat \<Rightarrow> nat \<Rightarrow> string list \<Rightarrow> nat \<Rightarrow> (string \<times> nat) option" where
  "reconstruct H current index tree_size proof cursor =
     (if tree_size \<le> 1 then Some (current, cursor)
      else let split = split_point tree_size
           in case (if index < split then reconstruct H current index split proof cursor
                    else reconstruct H current (index - split) (tree_size - split) proof cursor) of
                None \<Rightarrow> None
              | Some (child, cursor') \<Rightarrow>
                  (if cursor' < length proof
                   then Some (if index < split then hash_children H child (proof ! cursor')
                              else hash_children H (proof ! cursor') child, cursor' + 1)
                   else None))"
  by pat_completeness auto
termination
  by (relation "measure (\<lambda>(H, current, index, tree_size, proof, cursor). tree_size)")
     (auto intro: diff_less)

declare reconstruct.simps [simp del]

definition verify_merkle_inclusion :: "(string \<Rightarrow> string) \<Rightarrow> string \<Rightarrow> nat \<Rightarrow> nat \<Rightarrow> string list \<Rightarrow> string \<Rightarrow> bool" where
  "verify_merkle_inclusion H leaf index tree_size proof root =
     (if tree_size = 0 \<or> tree_size \<le> index then False
      else case reconstruct H (hash_leaf H leaf) index tree_size proof 0 of
             None \<Rightarrow> False
           | Some (candidate, cursor) \<Rightarrow> candidate = root \<and> cursor = length proof)"

section \<open>Consistency proofs\<close>

record 'h merkle_range_node =
  rn_start :: nat
  rn_size :: nat
  rn_hash :: 'h

record merkle_consistency_proof =
  cp_from_size :: nat
  cp_to_size :: nat
  cp_prefix :: "string merkle_range_node list"
  cp_suffix :: "string merkle_range_node list"

text \<open>\<open>usize::trailing_zeros\<close> (of a non-zero value), \<open>usize::BITS - 1 - leading_zeros\<close> and
  \<open>is_power_of_two\<close>.\<close>

fun trailing_zeros :: "nat \<Rightarrow> nat" where
  "trailing_zeros n = (if n = 0 then 64 else if odd n then 0 else Suc (trailing_zeros (n div 2)))"

fun ilog2 :: "nat \<Rightarrow> nat" where
  "ilog2 n = (if n \<le> 1 then 0 else Suc (ilog2 (n div 2)))"

fun is_power_of_two :: "nat \<Rightarrow> bool" where
  "is_power_of_two n = (if n = 0 then False else n = 1 \<or> (even n \<and> is_power_of_two (n div 2)))"

declare trailing_zeros.simps [simp del] ilog2.simps [simp del] is_power_of_two.simps [simp del]

fun shrink_size :: "nat \<Rightarrow> nat \<Rightarrow> nat \<Rightarrow> nat" where
  "shrink_size cursor sz stop =
     (if 0 < sz \<and> stop < cursor + sz then shrink_size cursor (sz div 2) stop else sz)"

declare shrink_size.simps [simp del]

definition range_size :: "nat \<Rightarrow> nat \<Rightarrow> nat" where
  "range_size cursor stop =
     (let remaining = stop - cursor;
          alignment = (if cursor = 0 then 2 ^ ilog2 remaining else 2 ^ trailing_zeros cursor)
      in shrink_size cursor (min alignment (2 ^ ilog2 remaining)) stop)"

lemma ilog2_le: "0 < n \<Longrightarrow> 2 ^ ilog2 n \<le> n"
proof (induction n rule: ilog2.induct)
  case (1 n)
  show ?case
  proof (cases "n \<le> 1")
    case True
    then show ?thesis using "1.prems" by (simp add: ilog2.simps[of n])
  next
    case False
    then have "2 ^ ilog2 (n div 2) \<le> n div 2" using "1.IH" by simp
    then show ?thesis using False by (simp add: ilog2.simps[of n])
  qed
qed

lemma trailing_zeros_dvd: "0 < n \<Longrightarrow> 2 ^ trailing_zeros n dvd n"
proof (induction n rule: trailing_zeros.induct)
  case (1 n)
  show ?case
  proof (cases "odd n")
    case False
    then have "2 ^ trailing_zeros (n div 2) dvd n div 2" using 1 by auto
    then have "2 * 2 ^ trailing_zeros (n div 2) dvd 2 * (n div 2)" by (rule mult_dvd_mono[OF dvd_refl])
    then have "2 * 2 ^ trailing_zeros (n div 2) dvd n" using False by (metis dvd_mult_div_cancel)
    then show ?thesis using False "1.prems" by (simp add: trailing_zeros.simps[of n])
  qed (simp add: trailing_zeros.simps[of n])
qed

lemma shrink_size_id: "cursor + sz \<le> stop \<Longrightarrow> shrink_size cursor sz stop = sz"
  by (subst shrink_size.simps) simp

lemma range_size_props:
  assumes "cursor < stop"
  shows "\<exists>k. range_size cursor stop = 2 ^ k"
    and "cursor + range_size cursor stop \<le> stop"
    and "range_size cursor stop dvd cursor"
    and "0 < range_size cursor stop"
proof -
  let ?r = "stop - cursor"
  let ?t = "(if cursor = 0 then ilog2 ?r else trailing_zeros cursor)"
  have le: "2 ^ ilog2 ?r \<le> ?r" using assms by (simp add: ilog2_le)
  have "min (2 ^ ?t) (2 ^ ilog2 ?r) \<le> (2::nat) ^ ilog2 ?r" by (rule min.cobounded2)
  then have "cursor + min (2 ^ ?t) (2 ^ ilog2 ?r) \<le> stop" using le assms by linarith
  then have eq: "range_size cursor stop = min (2 ^ ?t) (2 ^ ilog2 ?r)"
    by (simp add: range_size_def Let_def shrink_size_id split: if_splits)
  then show pow: "\<exists>k. range_size cursor stop = 2 ^ k" by (metis min_def)
  show "cursor + range_size cursor stop \<le> stop" using eq \<open>cursor + min _ _ \<le> stop\<close> by simp
  show "0 < range_size cursor stop" using pow by auto
  show "range_size cursor stop dvd cursor"
  proof (cases "cursor = 0")
    case False
    then have "2 ^ trailing_zeros cursor dvd cursor" by (simp add: trailing_zeros_dvd)
    moreover have "range_size cursor stop dvd 2 ^ trailing_zeros cursor"
      using eq False by (simp add: min_def le_imp_power_dvd)
    ultimately show ?thesis by (rule dvd_trans[rotated])
  qed simp
qed

function compact_range :: "(string \<Rightarrow> string) \<Rightarrow> string list \<Rightarrow> nat \<Rightarrow> nat \<Rightarrow> string merkle_range_node list" where
  "compact_range H hashes cursor stop =
     (if cursor < stop
      then let sz = range_size cursor stop
           in \<lparr>rn_start = cursor, rn_size = sz, rn_hash = subtree_root H (take sz (drop cursor hashes))\<rparr>
              # compact_range H hashes (cursor + sz) stop
      else [])"
  by pat_completeness auto
termination
  by (relation "measure (\<lambda>(H, hashes, cursor, stop). stop - cursor)")
     (use range_size_props(4) in \<open>auto simp: diff_less_mono2\<close>)

declare compact_range.simps [simp del]

definition make_consistency_proof :: "(string \<Rightarrow> string) \<Rightarrow> string list \<Rightarrow> nat \<Rightarrow> merkle_consistency_proof option" where
  "make_consistency_proof H hashes from_size =
     (if length hashes < from_size then None
      else Some \<lparr>cp_from_size = from_size, cp_to_size = length hashes,
                 cp_prefix = compact_range H hashes 0 from_size,
                 cp_suffix = compact_range H hashes from_size (length hashes)\<rparr>)"

text \<open>The stack is kept with its top first. \<open>merge_stack\<close> is the inner \<open>loop\<close>.\<close>

fun merge_stack :: "('h \<Rightarrow> 'h \<Rightarrow> 'h) \<Rightarrow> 'h merkle_range_node list \<Rightarrow> 'h merkle_range_node list" where
  "merge_stack hc (right # left # stack) =
     (if rn_size left \<noteq> rn_size right \<or> rn_start left + rn_size left \<noteq> rn_start right
          \<or> \<not> (rn_size left * 2) dvd rn_start left
      then right # left # stack
      else merge_stack hc (\<lparr>rn_start = rn_start left, rn_size = rn_size left * 2,
                            rn_hash = hc (rn_hash left) (rn_hash right)\<rparr> # stack))"
| "merge_stack hc stack = stack"

fun frontier_loop :: "('h \<Rightarrow> 'h \<Rightarrow> 'h) \<Rightarrow> 'h merkle_range_node list \<Rightarrow> nat \<Rightarrow> 'h merkle_range_node list
    \<Rightarrow> (nat \<times> 'h merkle_range_node list) option" where
  "frontier_loop hc [] cursor stack = Some (cursor, stack)"
| "frontier_loop hc (node # nodes) cursor stack =
     (if rn_start node \<noteq> cursor \<or> rn_size node = 0 \<or> \<not> is_power_of_two (rn_size node) then None
      else if 2 ^ 64 \<le> cursor + rn_size node then None
      else frontier_loop hc nodes (cursor + rn_size node) (merge_stack hc (node # stack)))"

definition fold_frontier :: "('h \<Rightarrow> 'h \<Rightarrow> 'h) \<Rightarrow> 'h merkle_range_node list \<Rightarrow> 'h option" where
  "fold_frontier hc stack =
     (case stack of [] \<Rightarrow> None
      | first # rest \<Rightarrow> Some (fold (\<lambda>node root. hc (rn_hash node) root) rest (rn_hash first)))"

definition frontier_root :: "('h \<Rightarrow> 'h \<Rightarrow> 'h) \<Rightarrow> 'h merkle_range_node list \<Rightarrow> nat \<Rightarrow> 'h option" where
  "frontier_root hc nodes expected_size =
     (case frontier_loop hc nodes 0 [] of
        None \<Rightarrow> None
      | Some (cursor, stack) \<Rightarrow> if cursor \<noteq> expected_size then None else fold_frontier hc stack)"

definition root_from_frontier :: "(string \<Rightarrow> string) \<Rightarrow> string merkle_range_node list \<Rightarrow> nat \<Rightarrow> string option" where
  "root_from_frontier H nodes expected_size =
     (if expected_size = 0 then (if nodes = [] then Some (H []) else None)
      else frontier_root (hash_children H) nodes expected_size)"

definition verify_merkle_consistency :: "(string \<Rightarrow> string) \<Rightarrow> merkle_consistency_proof \<Rightarrow> string \<Rightarrow> string \<Rightarrow> bool" where
  "verify_merkle_consistency H proof from_root to_root =
     (if cp_to_size proof < cp_from_size proof then False
      else root_from_frontier H (cp_prefix proof) (cp_from_size proof) = Some from_root
           \<and> root_from_frontier H (cp_prefix proof @ cp_suffix proof) (cp_to_size proof) = Some to_root)"

section \<open>Completeness of inclusion proofs\<close>

lemma reconstruct_inclusion_path:
  assumes "i < length hs"
  shows "reconstruct H (hash_leaf H (hs ! i)) i (length hs)
           (pre @ inclusion_path H hs i @ post) (length pre)
         = Some (subtree_root H hs, length pre + length (inclusion_path H hs i))"
  using assms
proof (induction H hs i arbitrary: pre post rule: inclusion_path.induct)
  case (1 H hs i)
  show ?case
  proof (cases "length hs \<le> 1")
    case True
    then obtain x where "hs = [x]" using "1.prems" by (cases hs) auto
    then show ?thesis using "1.prems" by (simp add: reconstruct.simps inclusion_path.simps)
  next
    case False
    let ?s = "split_point (length hs)"
    have s: "?s < length hs" "0 < ?s" using False by simp_all
    have root: "subtree_root H hs = hash_children H (subtree_root H (take ?s hs)) (subtree_root H (drop ?s hs))"
      using False by (simp add: subtree_root_split)
    show ?thesis
    proof (cases "i < ?s")
      case True
      let ?p = "inclusion_path H (take ?s hs) i"
      let ?r = "subtree_root H (drop ?s hs)"
      have path: "inclusion_path H hs i = ?p @ [?r]"
        using False True by (simp add: inclusion_path.simps[of H hs] Let_def)
      have "reconstruct H (hash_leaf H (take ?s hs ! i)) i (length (take ?s hs))
              (pre @ ?p @ ([?r] @ post)) (length pre)
            = Some (subtree_root H (take ?s hs), length pre + length ?p)"
        using "1.IH"(1)[OF False refl True] s True by simp
      then show ?thesis using False True s path root
        by (simp add: reconstruct.simps[of H _ i "length hs"] Let_def min_def nth_append)
    next
      case right: False
      let ?p = "inclusion_path H (drop ?s hs) (i - ?s)"
      let ?r = "subtree_root H (take ?s hs)"
      have path: "inclusion_path H hs i = ?p @ [?r]"
        using False right by (simp add: inclusion_path.simps[of H hs] Let_def)
      have "reconstruct H (hash_leaf H (drop ?s hs ! (i - ?s))) (i - ?s) (length (drop ?s hs))
              (pre @ ?p @ ([?r] @ post)) (length pre)
            = Some (subtree_root H (drop ?s hs), length pre + length ?p)"
        using "1.IH"(2)[OF False refl right] s right "1.prems" by simp
      moreover have "\<not> length hs \<le> Suc 0" using s by linarith
      ultimately show ?thesis using right path root "1.prems"
        by (subst reconstruct.simps) (simp add: Let_def nth_append)
    qed
  qed
qed

text \<open>
  For every log and every index in it, the registry produces an inclusion proof and the verifier
  accepts it against the log's root, the entry at that index and the log's size.
\<close>

theorem inclusion_complete:
  assumes "i < length hs"
  shows "\<exists>proof. merkle_inclusion_proof H hs i = Some proof
    \<and> verify_merkle_inclusion H (hs ! i) i (length hs) proof (merkle_root H hs)"
proof -
  have "reconstruct H (hash_leaf H (hs ! i)) i (length hs) (inclusion_path H hs i) 0
      = Some (subtree_root H hs, length (inclusion_path H hs i))"
    using reconstruct_inclusion_path[OF assms, of H "[]" "[]"] by simp
  then show ?thesis using assms
    by (auto simp: merkle_inclusion_proof_def verify_merkle_inclusion_def merkle_root_def)
qed

theorem inclusion_complete_witness:
  "(1::nat) < length [''a'', ''b'', ''c''] \<and>
   (\<exists>proof. merkle_inclusion_proof (\<lambda>x. x) [''a'', ''b'', ''c''] 1 = Some proof
    \<and> verify_merkle_inclusion (\<lambda>x. x) ''b'' 1 3 proof (merkle_root (\<lambda>x. x) [''a'', ''b'', ''c'']))"
  using inclusion_complete[of 1 "[''a'', ''b'', ''c'']" "\<lambda>x. x"] by (simp add: numeral_3_eq_3)

section \<open>Completeness of consistency proofs\<close>

lemma is_power_of_two_pow [simp]: "is_power_of_two (2 ^ k)"
proof (induction k)
  case 0
  show ?case by (subst is_power_of_two.simps) simp
next
  case (Suc k)
  then show ?case by (subst is_power_of_two.simps) simp
qed

abbreviation slice :: "'a list \<Rightarrow> nat \<Rightarrow> nat \<Rightarrow> 'a list" where
  "slice hs a n \<equiv> take n (drop a hs)"

text \<open>
  \<open>tiles\<close>: aligned nodes of sizes that are powers of two cover the leaves from one position to another,
  each with the hash of its leaves. \<open>stack_ok\<close>: the verifier's stack, top first, holds the binary
  decomposition of the cursor.
\<close>

definition node_ok :: "(string \<Rightarrow> string) \<Rightarrow> string list \<Rightarrow> string merkle_range_node \<Rightarrow> bool" where
  "node_ok H hs n \<longleftrightarrow> (\<exists>k. rn_size n = 2 ^ k) \<and> rn_start n + rn_size n \<le> length hs
     \<and> rn_hash n = subtree_root H (slice hs (rn_start n) (rn_size n))"

fun tiles :: "(string \<Rightarrow> string) \<Rightarrow> string list \<Rightarrow> nat \<Rightarrow> string merkle_range_node list \<Rightarrow> nat \<Rightarrow> bool" where
  "tiles H hs a [] b \<longleftrightarrow> a = b"
| "tiles H hs a (n # ns) b \<longleftrightarrow>
     rn_start n = a \<and> node_ok H hs n \<and> rn_size n dvd a \<and> tiles H hs (a + rn_size n) ns b"

fun stack_ok :: "(string \<Rightarrow> string) \<Rightarrow> string list \<Rightarrow> nat \<Rightarrow> string merkle_range_node list \<Rightarrow> bool" where
  "stack_ok H hs c [] \<longleftrightarrow> c = 0"
| "stack_ok H hs c (n # st) \<longleftrightarrow>
     rn_start n + rn_size n = c \<and> node_ok H hs n \<and> (rn_size n * 2) dvd rn_start n \<and> stack_ok H hs (rn_start n) st"

lemma tiles_append: "tiles H hs a ms b \<Longrightarrow> tiles H hs b ns c \<Longrightarrow> tiles H hs a (ms @ ns) c"
  by (induction ms arbitrary: a) auto

lemma tiles_less: "tiles H hs a ns b \<Longrightarrow> ns \<noteq> [] \<Longrightarrow> a < b"
proof (induction ns arbitrary: a)
  case (Cons n ns)
  then have "0 < rn_size n" "tiles H hs (a + rn_size n) ns b" by (auto simp: node_ok_def)
  then show ?case using Cons.IH[of "a + rn_size n"] by (cases ns) auto
qed simp

lemma tiles_compact_range: "a \<le> b \<Longrightarrow> b \<le> length hs \<Longrightarrow> tiles H hs a (compact_range H hs a b) b"
proof (induction H hs a b rule: compact_range.induct)
  case (1 H hs a b)
  show ?case
  proof (cases "a < b")
    case True
    note p = range_size_props[OF True]
    have "tiles H hs (a + range_size a b) (compact_range H hs (a + range_size a b) b) b"
      using "1.IH"[OF True refl] p(2) "1.prems"(2) by simp
    then show ?thesis using True p "1.prems"
      by (subst compact_range.simps) (auto simp: Let_def node_ok_def)
  next
    case False
    then show ?thesis using "1.prems" by (subst compact_range.simps) simp
  qed
qed

lemma slice_split: "slice hs a (n + m) = slice hs a n @ slice hs (a + n) m"
  by (metis take_add drop_drop add.commute)

lemma low_bit_le:
  fixes a b :: nat
  assumes "2 ^ k dvd a + 2 ^ j" "2 ^ (j + 1) dvd a" shows "k \<le> j"
proof (rule ccontr)
  assume "\<not> k \<le> j"
  then have "(2::nat) ^ (j + 1) dvd 2 ^ k" using le_imp_power_dvd[of "j + 1" k "2::nat"] by simp
  then have "(2::nat) ^ (j + 1) dvd a + 2 ^ j" using assms(1) dvd_trans by blast
  then have "(2::nat) ^ (j + 1) dvd 2 ^ j" using assms(2) by (simp add: dvd_add_right_iff)
  then have "(2::nat) ^ (j + 1) \<le> 2 ^ j" by (rule dvd_imp_le) simp
  then show False by simp
qed

lemma merge_node_ok:
  assumes "node_ok H hs l" "node_ok H hs r" "rn_size l = rn_size r" "rn_start l + rn_size l = rn_start r"
  shows "node_ok H hs \<lparr>rn_start = rn_start l, rn_size = rn_size l * 2,
                      rn_hash = hash_children H (rn_hash l) (rn_hash r)\<rparr>"
proof -
  obtain k where k: "rn_size l = 2 ^ k" using assms(1) by (auto simp: node_ok_def)
  let ?l = "slice hs (rn_start l) (rn_size l)" and ?r = "slice hs (rn_start r) (rn_size r)"
  have len: "length ?l = 2 ^ k" "length ?r = 2 ^ k"
    using assms k by (auto simp: node_ok_def)
  have "slice hs (rn_start l) (rn_size l * 2) = ?l @ ?r"
    using assms(3,4) by (simp add: mult_2_right slice_split)
  moreover have "subtree_root H (?l @ ?r) = hash_children H (subtree_root H ?l) (subtree_root H ?r)"
    by (rule subtree_root_append) (use len in auto)
  ultimately show ?thesis using assms k
    by (auto simp: node_ok_def intro!: exI[of _ "k + 1"])
qed

lemma merge_stack_ok:
  "stack_ok H hs (rn_start n) st \<Longrightarrow> node_ok H hs n \<Longrightarrow> rn_size n dvd rn_start n
   \<Longrightarrow> stack_ok H hs (rn_start n + rn_size n) (merge_stack (hash_children H) (n # st))"
proof (induction st arbitrary: n)
  case Nil
  then show ?case by auto
next
  case (Cons l st)
  obtain j where j: "rn_size l = 2 ^ j" using Cons.prems by (auto simp: node_ok_def)
  obtain k where k: "rn_size n = 2 ^ k" using Cons.prems by (auto simp: node_ok_def)
  have l: "rn_start l + 2 ^ j = rn_start n" "2 ^ (j + 1) dvd rn_start l" "stack_ok H hs (rn_start l) st" "node_ok H hs l"
    using Cons.prems j by (auto simp: mult.commute)
  have "k \<le> j" using low_bit_le[of k "rn_start l" j] Cons.prems(3) l k by simp
  show ?case
  proof (cases "k = j")
    case True
    let ?m = "\<lparr>rn_start = rn_start l, rn_size = rn_size l * 2,
               rn_hash = hash_children H (rn_hash l) (rn_hash n)\<rparr>"
    have "node_ok H hs ?m" using merge_node_ok[OF l(4) Cons.prems(2)] l(1) j k True by simp
    then have "stack_ok H hs (rn_start ?m + rn_size ?m) (merge_stack (hash_children H) (?m # st))"
      using l j by (intro Cons.IH) (auto simp: mult.commute)
    then show ?thesis using l j k True by (simp add: mult.commute mult_2 add.assoc[symmetric])
  next
    case False
    then have lt: "k < j" using \<open>k \<le> j\<close> by simp
    then have "(2::nat) ^ k \<noteq> 2 ^ j" by simp
    have "(2::nat) ^ (k + 1) dvd 2 ^ j" using lt by (simp add: le_imp_power_dvd del: power_Suc power_add)
    moreover have "(2::nat) ^ (k + 1) dvd rn_start l"
      using l(2) lt by (meson dvd_trans le_imp_power_dvd less_imp_le_nat add_le_mono1)
    ultimately have "2 ^ (k + 1) dvd rn_start n" using l(1) by (metis dvd_add)
    then show ?thesis using Cons.prems j k \<open>(2::nat) ^ k \<noteq> 2 ^ j\<close> by (simp add: mult.commute)
  qed
qed

lemma frontier_loop_tiles:
  "tiles H hs c ns d \<Longrightarrow> stack_ok H hs c st \<Longrightarrow> length hs < 2 ^ 64
   \<Longrightarrow> \<exists>st'. frontier_loop (hash_children H) ns c st = Some (d, st') \<and> stack_ok H hs d st'"
proof (induction ns arbitrary: c st)
  case Nil
  then show ?case by auto
next
  case (Cons n ns)
  then obtain k where k: "rn_size n = 2 ^ k" by (auto simp: node_ok_def)
  have "stack_ok H hs (c + rn_size n) (merge_stack (hash_children H) (n # st))"
    using merge_stack_ok[of H hs n st] Cons.prems by auto
  then obtain st' where "frontier_loop (hash_children H) ns (c + rn_size n) (merge_stack (hash_children H) (n # st)) = Some (d, st')"
    "stack_ok H hs d st'" using Cons.IH[of "c + rn_size n"] Cons.prems by auto
  moreover have "c + rn_size n < 2 ^ 64" using Cons.prems by (auto simp: node_ok_def)
  ultimately show ?case using Cons.prems k by auto
qed

lemma fold_frontier_ok:
  assumes "stack_ok H hs a st" "0 < m" "m < 2 * 2 ^ i" "2 * 2 ^ i dvd a" "a + m \<le> length hs"
  shows "fold (\<lambda>n r. hash_children H (rn_hash n) r) st (subtree_root H (slice hs a m)) = subtree_root H (take (a + m) hs)"
  using assms
proof (induction st arbitrary: a m i)
  case Nil
  then show ?case by simp
next
  case (Cons n st)
  obtain j where j: "rn_size n = 2 ^ j" using Cons.prems by (auto simp: node_ok_def)
  have n: "rn_start n + 2 ^ j = a" "2 ^ (j + 1) dvd rn_start n" "stack_ok H hs (rn_start n) st"
    "rn_hash n = subtree_root H (slice hs (rn_start n) (2 ^ j))"
    using Cons.prems j by (auto simp: mult.commute node_ok_def)
  have "i + 1 \<le> j" using low_bit_le[of "i + 1" "rn_start n" j] n Cons.prems(4) by simp
  then have "(2::nat) ^ (i + 1) \<le> 2 ^ j" by (rule power_increasing) simp
  then have m: "m < 2 ^ j" using Cons.prems(3) by simp
  let ?l = "slice hs (rn_start n) (2 ^ j)" and ?r = "slice hs a m"
  have "length ?l = 2 ^ j" "length ?r = m" using n(1) Cons.prems(5) by auto
  then have "subtree_root H (?l @ ?r) = hash_children H (subtree_root H ?l) (subtree_root H ?r)"
    using m Cons.prems(2) by (intro subtree_root_append) auto
  moreover have "?l @ ?r = slice hs (rn_start n) (2 ^ j + m)" using n(1) by (simp add: slice_split)
  ultimately have "hash_children H (rn_hash n) (subtree_root H ?r) = subtree_root H (slice hs (rn_start n) (2 ^ j + m))"
    using n(4) by simp
  moreover have "fold (\<lambda>n r. hash_children H (rn_hash n) r) st (subtree_root H (slice hs (rn_start n) (2 ^ j + m)))
      = subtree_root H (take (rn_start n + (2 ^ j + m)) hs)"
    using n m Cons.prems by (intro Cons.IH[of _ _ j]) (auto simp: add.assoc)
  ultimately show ?case by (simp add: n(1)[symmetric] add.assoc)
qed

lemma frontier_root_tiles:
  assumes "tiles H hs 0 ns d" "0 < d" "d \<le> length hs" "length hs < 2 ^ 64"
  shows "frontier_root (hash_children H) ns d = Some (subtree_root H (take d hs))"
proof -
  obtain st where st: "frontier_loop (hash_children H) ns 0 [] = Some (d, st)" "stack_ok H hs d st"
    using frontier_loop_tiles[OF assms(1), of "[]"] assms(4) by auto
  then obtain n rest where s: "st = n # rest" using assms(2) by (cases st) auto
  obtain k where k: "rn_size n = 2 ^ k" using st s by (auto simp: node_ok_def)
  have n: "rn_start n + 2 ^ k = d" "rn_hash n = subtree_root H (slice hs (rn_start n) (2 ^ k))"
    "2 * 2 ^ k dvd rn_start n" "stack_ok H hs (rn_start n) rest"
    using st s k by (auto simp: node_ok_def mult.commute)
  have "fold (\<lambda>n r. hash_children H (rn_hash n) r) rest (rn_hash n) = subtree_root H (take d hs)"
    using fold_frontier_ok[OF n(4), of "2 ^ k" k] n assms(3) by simp
  then show ?thesis using st s by (simp add: frontier_root_def fold_frontier_def)
qed

lemma root_from_frontier_tiles:
  assumes "tiles H hs 0 ns d" "d \<le> length hs" "length hs < 2 ^ 64"
  shows "root_from_frontier H ns d = Some (subtree_root H (take d hs))"
proof (cases "d = 0")
  case True
  then have "ns = []" using tiles_less[OF assms(1)] by blast
  then show ?thesis using assms True by (simp add: root_from_frontier_def)
next
  case False
  then show ?thesis using frontier_root_tiles assms by (simp add: root_from_frontier_def)
qed

lemma consistency_proof_verifies:
  assumes "from_size \<le> length hs" and "length hs < 2 ^ 64"
  shows "\<exists>proof. make_consistency_proof H hs from_size = Some proof
    \<and> verify_merkle_consistency H proof (merkle_root H (take from_size hs)) (merkle_root H hs)"
proof -
  let ?p = "compact_range H hs 0 from_size" and ?s = "compact_range H hs from_size (length hs)"
  have p: "tiles H hs 0 ?p from_size" using assms(1) by (simp add: tiles_compact_range)
  have s: "tiles H hs 0 (?p @ ?s) (length hs)"
    using tiles_append[OF p] assms(1) by (simp add: tiles_compact_range)
  show ?thesis
    using root_from_frontier_tiles[OF p] root_from_frontier_tiles[OF s] assms
    by (simp add: make_consistency_proof_def verify_merkle_consistency_def merkle_root_def)
qed

text \<open>
  For every log and every earlier size of it, the registry produces a consistency proof, and the
  verifier accepts it against the root at the earlier size and the root of the whole log. The bound
  says that the length of the log is a \<open>usize\<close>.
\<close>

theorem consistency_complete:
  assumes "from_size \<le> length hs" and "length hs < 2 ^ 64"
  shows "\<exists>proof. make_consistency_proof H hs from_size = Some proof
    \<and> verify_merkle_consistency H proof (merkle_root H (take from_size hs)) (merkle_root H hs)"
  by (rule consistency_proof_verifies[OF assms])

theorem consistency_complete_witness:
  "(2::nat) \<le> length [''a'', ''b'', ''c''] \<and> length [''a'', ''b'', ''c''] < 2 ^ 64 \<and>
   (\<exists>proof. make_consistency_proof (\<lambda>x. x) [''a'', ''b'', ''c''] 2 = Some proof
    \<and> verify_merkle_consistency (\<lambda>x. x) proof (merkle_root (\<lambda>x. x) [''a'', ''b''])
        (merkle_root (\<lambda>x. x) [''a'', ''b'', ''c'']))"
  using consistency_complete[of 2 "[''a'', ''b'', ''c'']" "\<lambda>x. x"] by simp

end
