(* ===== verification/Registry_Merkle_Security.thy ===== *)
theory Registry_Merkle_Security
  imports Registry_Merkle
begin

text \<open>
  What the registry's Merkle proofs commit to. SHA-256 is not assumed injective, which no function
  into 64-character digests is: the theorems assume that no two of the finitely many strings that were
  actually hashed (to build the two logs and to run the verifier) collide, so each of them can be read as
  ``the claim holds or this run exhibits a SHA-256 collision''. \<open>tree_queries\<close> and
  \<open>proof_queries\<close> name these strings.
\<close>

definition digest_64 :: "(string \<Rightarrow> string) \<Rightarrow> bool" where
  "digest_64 H \<longleftrightarrow> (\<forall>x. length (H x) = 64)"

function tree_queries :: "(string \<Rightarrow> string) \<Rightarrow> string list \<Rightarrow> string set" where
  "tree_queries H hashes =
     (case hashes of
        [] \<Rightarrow> {[]}
      | [x] \<Rightarrow> {CHR 0x00 # x}
      | _ \<Rightarrow> (let split = split_point (length hashes); l = take split hashes; r = drop split hashes
             in insert (CHR 0x01 # subtree_root H l @ subtree_root H r) (tree_queries H l \<union> tree_queries H r)))"
  by pat_completeness auto
termination
  by (relation "measure (\<lambda>(H, hashes). length hashes)") (auto simp: min_def not_le intro: diff_less)

declare tree_queries.simps [simp del]

lemma tree_queries_Nil [simp]: "tree_queries H [] = {[]}"
  by (simp add: tree_queries.simps)

lemma tree_queries_one [simp]: "tree_queries H [x] = {CHR 0x00 # x}"
  by (simp add: tree_queries.simps)

lemma list_cases3:
  obtains "xs = []" | x where "xs = [x]" | "1 < length xs"
  by (metis length_0_conv length_Suc_conv less_one nat_neq_iff One_nat_def)

lemma tree_split:
  assumes "1 < length hs"
  obtains l r where "hs = l @ r" "l \<noteq> []" "r \<noteq> []" "length l < length hs" "length r < length hs"
    "length l = split_point (length hs)"
    "subtree_root H hs = H (CHR 0x01 # subtree_root H l @ subtree_root H r)"
    "tree_queries H hs = insert (CHR 0x01 # subtree_root H l @ subtree_root H r) (tree_queries H l \<union> tree_queries H r)"
proof -
  let ?s = "split_point (length hs)"
  have s: "0 < ?s" "?s < length hs" using assms by simp_all
  have "tree_queries H hs = insert (CHR 0x01 # subtree_root H (take ?s hs) @ subtree_root H (drop ?s hs))
      (tree_queries H (take ?s hs) \<union> tree_queries H (drop ?s hs))"
    using assms by (subst tree_queries.simps) (auto simp: Let_def split: list.splits)
  moreover have "subtree_root H hs = H (CHR 0x01 # subtree_root H (take ?s hs) @ subtree_root H (drop ?s hs))"
    using assms by (simp add: subtree_root_split hash_children_def)
  ultimately show thesis using s
    by (intro that[of "take ?s hs" "drop ?s hs"]) (auto simp: min_def intro!: diff_less)
qed

text \<open>The string hashed last. Its first byte tells the three shapes of a log apart.\<close>

definition root_input :: "(string \<Rightarrow> string) \<Rightarrow> string list \<Rightarrow> string" where
  "root_input H hs =
     (if hs = [] then [] else if length hs = 1 then CHR 0x00 # hd hs
      else let split = split_point (length hs)
           in CHR 0x01 # subtree_root H (take split hs) @ subtree_root H (drop split hs))"

lemma root_input_simps [simp]: "root_input H [] = []" "root_input H [x] = CHR 0x00 # x"
  by (simp_all add: root_input_def)

lemma subtree_root_input: "subtree_root H hs = H (root_input H hs)"
  by (cases hs rule: list_cases3)
     (auto simp: root_input_def hash_leaf_def subtree_root_split hash_children_def Let_def)

lemma root_input_query: "root_input H hs \<in> tree_queries H hs"
  by (cases hs rule: list_cases3)
     (auto simp: root_input_def Let_def tree_queries.simps[of H hs] split: list.splits)

lemma root_input_long:
  "1 < length hs \<Longrightarrow> \<exists>t. root_input H hs = CHR 0x01 # t"
  by (auto simp: root_input_def Let_def)

lemma root_input_eq_cases:
  assumes "root_input H A = root_input H B"
  shows "(A = [] \<and> B = []) \<or> (\<exists>x. A = [x] \<and> B = [x]) \<or> (1 < length A \<and> 1 < length B)"
  using assms root_input_long[of A H] root_input_long[of B H]
  by (cases A rule: list_cases3; cases B rule: list_cases3) auto

lemma subtree_root_length: "digest_64 H \<Longrightarrow> length (subtree_root H hs) = 64"
  by (simp add: digest_64_def subtree_root_input)

lemma inj_on_sub: "inj_on H Q \<Longrightarrow> H x = H y \<Longrightarrow> x \<in> S \<Longrightarrow> y \<in> T \<Longrightarrow> S \<subseteq> Q \<Longrightarrow> T \<subseteq> Q \<Longrightarrow> x = y"
  by (auto dest: inj_onD)

lemma subtree_root_inj:
  assumes "digest_64 H" "inj_on H Q" "tree_queries H A \<subseteq> Q" "tree_queries H B \<subseteq> Q"
    and "subtree_root H A = subtree_root H B"
  shows "A = B"
  using assms(3-)
proof (induction "length A" arbitrary: A B rule: less_induct)
  case less
  have eq: "root_input H A = root_input H B"
    using less.prems(3) unfolding subtree_root_input
    by (rule inj_on_sub[OF assms(2) _ root_input_query root_input_query less.prems(1,2)])
  consider "A = [] \<and> B = []" | x where "A = [x] \<and> B = [x]" | "1 < length A" "1 < length B"
    using root_input_eq_cases[OF eq] by blast
  then show ?case
  proof cases
    case 3
    obtain l r where A': "A = l @ r" "length l < length A" "length r < length A"
      "subtree_root H A = H (CHR 0x01 # subtree_root H l @ subtree_root H r)"
      "tree_queries H A = insert (CHR 0x01 # subtree_root H l @ subtree_root H r) (tree_queries H l \<union> tree_queries H r)"
      by (rule tree_split[OF 3(1)])
    obtain l' r' where B': "B = l' @ r'"
      "subtree_root H B = H (CHR 0x01 # subtree_root H l' @ subtree_root H r')"
      "tree_queries H B = insert (CHR 0x01 # subtree_root H l' @ subtree_root H r') (tree_queries H l' \<union> tree_queries H r')"
      by (rule tree_split[OF 3(2)])
    have "CHR 0x01 # subtree_root H l @ subtree_root H r = CHR 0x01 # subtree_root H l' @ subtree_root H r'"
      by (rule inj_on_sub[OF assms(2) _ _ _ less.prems(1,2)]) (use A' B' less.prems(3) in auto)
    then have roots: "subtree_root H l = subtree_root H l'" "subtree_root H r = subtree_root H r'"
      using subtree_root_length[OF assms(1)] by auto
    have "l = l'" using less.hyps[OF A'(2) _ _ roots(1)] A'(5) B'(3) less.prems by auto
    moreover have "r = r'" using less.hyps[OF A'(3) _ _ roots(2)] A'(5) B'(3) less.prems by auto
    ultimately show ?thesis using A' B' by simp
  qed auto
qed

text \<open>A digest function for the examples: pad or cut to 64 characters.\<close>

definition pad64 :: "string \<Rightarrow> string" where
  "pad64 x = take 64 (x @ replicate 64 CHR ''0'')"

lemma digest_64_pad64: "digest_64 pad64"
  by (auto simp: digest_64_def pad64_def min_def)

lemma inj_on_pad64: "(\<forall>x\<in>S. \<forall>y\<in>S. take 2 x = take 2 y \<longrightarrow> x = y) \<Longrightarrow> (\<forall>x\<in>S. 2 \<le> length x) \<Longrightarrow> inj_on pad64 S"
proof (rule inj_onI)
  fix x y assume h: "\<forall>x\<in>S. \<forall>y\<in>S. take 2 x = take 2 y \<longrightarrow> x = y" "\<forall>x\<in>S. 2 \<le> length x"
    "x \<in> S" "y \<in> S" "pad64 x = pad64 y"
  have "take 2 (pad64 z) = take 2 z" if "2 \<le> length z" for z
    using that by (simp add: pad64_def)
  then have "take 2 x = take 2 y" using h by metis
  then show "x = y" using h by blast
qed

lemma split_point_2 [simp]: "split_point 2 = 1" "split_point (Suc (Suc 0)) = 1"
  using split_point_eq[of 0 2] by (simp_all add: numeral_2_eq_2)

lemma two_leaves [simp]:
  "subtree_root H [a, b] = H (CHR 0x01 # H (CHR 0x00 # a) @ H (CHR 0x00 # b))"
  "tree_queries H [a, b] = {CHR 0x01 # H (CHR 0x00 # a) @ H (CHR 0x00 # b), CHR 0x00 # a, CHR 0x00 # b}"
  by (auto simp: subtree_root.simps[of H "[a, b]"] tree_queries.simps[of H "[a, b]"] Let_def
      hash_children_def hash_leaf_def)

lemma pad64_example: "inj_on pad64 (tree_queries pad64 [''a'', ''b''] \<union> {CHR 0x00 # ''a''})"
  by (rule inj_on_pad64) (auto simp: pad64_def)

text \<open>
  The root of a log commits to every entry and to its length: two logs with the same root are
  the same, as long as no two strings hashed to compute the two roots collide.
\<close>

theorem merkle_root_binding:
  assumes "digest_64 H" and "inj_on H (tree_queries H A \<union> tree_queries H B)"
    and "merkle_root H A = merkle_root H B"
  shows "A = B"
  using subtree_root_inj[OF assms(1,2)] assms(3) by (simp add: merkle_root_def)

theorem merkle_root_binding_witness:
  "digest_64 pad64 \<and> inj_on pad64 (tree_queries pad64 [''a'', ''b''] \<union> tree_queries pad64 [''a'', ''b''])
   \<and> [''a'', ''b''] = [''a'', ''b'']"
proof -
  have "inj_on pad64 (tree_queries pad64 [''a'', ''b''] \<union> tree_queries pad64 [''a'', ''b''])"
    by (rule inj_on_subset[OF pad64_example]) auto
  then show ?thesis using merkle_root_binding[OF digest_64_pad64 _ refl] digest_64_pad64 by blast
qed

section \<open>Soundness of inclusion proofs\<close>

function reconstruct_queries :: "(string \<Rightarrow> string) \<Rightarrow> string \<Rightarrow> nat \<Rightarrow> nat \<Rightarrow> string list \<Rightarrow> nat \<Rightarrow> string set" where
  "reconstruct_queries H current i tree_size proof cursor =
     (if tree_size \<le> 1 then {}
      else let split = split_point tree_size
           in (if i < split then reconstruct_queries H current i split proof cursor
               else reconstruct_queries H current (i - split) (tree_size - split) proof cursor)
            \<union> (case (if i < split then reconstruct H current i split proof cursor
                     else reconstruct H current (i - split) (tree_size - split) proof cursor) of
                None \<Rightarrow> {}
              | Some (child, cursor') \<Rightarrow>
                  (if cursor' < length proof
                   then {if i < split then CHR 0x01 # child @ proof ! cursor'
                         else CHR 0x01 # proof ! cursor' @ child}
                   else {})))"
  by pat_completeness auto
termination
  by (relation "measure (\<lambda>(H, current, i, tree_size, proof, cursor). tree_size)") (auto intro: diff_less)

declare reconstruct_queries.simps [simp del]

definition inclusion_queries :: "(string \<Rightarrow> string) \<Rightarrow> string \<Rightarrow> nat \<Rightarrow> nat \<Rightarrow> string list \<Rightarrow> string set" where
  "inclusion_queries H leaf i tree_size proof =
     insert (CHR 0x00 # leaf) (reconstruct_queries H (hash_leaf H leaf) i tree_size proof 0)"

lemma reconstruct_digest:
  "digest_64 H \<Longrightarrow> length current = 64 \<Longrightarrow> reconstruct H current i n pf c = Some (h, c') \<Longrightarrow> length h = 64"
  by (subst (asm) reconstruct.simps)
     (auto simp: digest_64_def hash_children_def Let_def split: if_splits option.splits)

lemma reconstruct_sound:
  assumes H: "digest_64 H" and inj: "inj_on H Q" and leaf: "CHR 0x00 # leaf \<in> Q"
  shows "reconstruct H (hash_leaf H leaf) i n pf c = Some (subtree_root H A, c')
    \<Longrightarrow> n = length A \<Longrightarrow> i < n \<Longrightarrow> tree_queries H A \<subseteq> Q
    \<Longrightarrow> reconstruct_queries H (hash_leaf H leaf) i n pf c \<subseteq> Q \<Longrightarrow> A ! i = leaf"
proof (induction n arbitrary: i A c' rule: less_induct)
  case (less n)
  show ?case
  proof (cases "n \<le> 1")
    case True
    then obtain x where x: "A = [x]" using less.prems(2,3) by (cases A rule: list_cases3) auto
    then have "H (CHR 0x00 # leaf) = H (CHR 0x00 # x)"
      using less.prems(1) True by (subst (asm) reconstruct.simps) (simp add: hash_leaf_def)
    then have "CHR 0x00 # leaf = CHR 0x00 # x"
      by (rule inj_onD[OF inj]) (use leaf less.prems(4) x in auto)
    then show ?thesis using x less.prems by simp
  next
    case False
    then have "1 < length A" using less.prems(2) by simp
    then obtain l r where A': "A = l @ r" "l \<noteq> []" "r \<noteq> []" "length l = split_point (length A)"
      "subtree_root H A = H (CHR 0x01 # subtree_root H l @ subtree_root H r)"
      "tree_queries H A = insert (CHR 0x01 # subtree_root H l @ subtree_root H r) (tree_queries H l \<union> tree_queries H r)"
      by (rule tree_split)
    let ?s = "split_point n"
    let ?i = "if i < ?s then i else i - ?s" and ?n = "if i < ?s then ?s else n - ?s"
    let ?B = "if i < ?s then l else r"
    have len: "length l < n" "length r < n" "length r = n - ?s" "?n = length ?B" "?n < n" "?i < ?n"
      using A'(1-4) less.prems(2,3) by (auto simp del: split_point_less)
    obtain child c1 where rec: "reconstruct H (hash_leaf H leaf) ?i ?n pf c = Some (child, c1)"
      "c1 < length pf" "subtree_root H A = H (CHR 0x01 # (if i < ?s then child @ pf ! c1 else pf ! c1 @ child))"
      using less.prems(1) False
      by (subst (asm) reconstruct.simps)
         (auto simp: Let_def hash_children_def split: if_splits option.splits)
    have "reconstruct_queries H (hash_leaf H leaf) i n pf c = reconstruct_queries H (hash_leaf H leaf) ?i ?n pf c
        \<union> {CHR 0x01 # (if i < ?s then child @ pf ! c1 else pf ! c1 @ child)}"
      using False rec(1,2) by (subst reconstruct_queries.simps) (cases "i < ?s"; simp add: Let_def)
    then have q: "reconstruct_queries H (hash_leaf H leaf) ?i ?n pf c \<subseteq> Q"
      "CHR 0x01 # (if i < ?s then child @ pf ! c1 else pf ! c1 @ child) \<in> Q"
      using less.prems(5) by auto
    have "CHR 0x01 # subtree_root H l @ subtree_root H r \<in> Q" using A'(6) less.prems(4) by blast
    with q(2) have "CHR 0x01 # (if i < ?s then child @ pf ! c1 else pf ! c1 @ child) = CHR 0x01 # subtree_root H l @ subtree_root H r"
      by (rule inj_onD[OF inj trans[OF rec(3)[symmetric] A'(5)]])
    moreover have "length child = 64"
      by (rule reconstruct_digest[OF H _ rec(1)]) (use H in \<open>simp add: digest_64_def hash_leaf_def\<close>)
    ultimately have "child = subtree_root H ?B"
      using subtree_root_length[OF H] by (auto split: if_splits)
    with rec(1) have r: "reconstruct H (hash_leaf H leaf) ?i ?n pf c = Some (subtree_root H ?B, c1)" by simp
    have "tree_queries H ?B \<subseteq> Q" using less.prems(4) A'(6) by (cases "i < ?s") auto
    from less.IH[OF len(5) r len(4) len(6) this q(1)] have b: "?B ! ?i = leaf" .
    have ll: "length l = ?s" using A'(4) unfolding less.prems(2) .
    show ?thesis unfolding A'(1) nth_append ll using b by (cases "i < ?s") simp_all
  qed
qed

text \<open>
  C23: an inclusion proof the verifier accepts against the root of a log is about an entry of that log:
  the leaf claimed at the index is the log's entry there, unless two of the strings hashed by the
  verifier or in building the root collide.
\<close>

theorem inclusion_sound:
  assumes "digest_64 H"
    and "verify_merkle_inclusion H leaf i (length hs) pf (merkle_root H hs)"
    and "inj_on H (tree_queries H hs \<union> inclusion_queries H leaf i (length hs) pf)"
  shows "i < length hs \<and> hs ! i = leaf"
proof -
  obtain c where i: "i < length hs" and
    "reconstruct H (hash_leaf H leaf) i (length hs) pf 0 = Some (subtree_root H hs, c)"
    using assms(2) by (auto simp: verify_merkle_inclusion_def merkle_root_def split: if_splits option.splits)
  then have "hs ! i = leaf"
    by (intro reconstruct_sound[OF assms(1,3)]) (auto simp: inclusion_queries_def)
  then show ?thesis using i by simp
qed

lemma reconstruct_two:
  "reconstruct H current 0 2 [sibling] 0 = Some (hash_children H current sibling, 1)"
  by (subst reconstruct.simps) (simp add: Let_def reconstruct.simps[of H _ _ 1] reconstruct.simps[of H _ _ "Suc 0"])

lemma reconstruct_queries_two:
  "reconstruct_queries H current 0 2 [sibling] 0 = {CHR 0x01 # current @ sibling}"
  by (subst reconstruct_queries.simps)
     (simp add: Let_def reconstruct.simps[of H _ _ "Suc 0"] reconstruct_queries.simps[of H _ _ "Suc 0"])

theorem inclusion_sound_witness:
  "verify_merkle_inclusion pad64 ''a'' 0 2 [hash_leaf pad64 ''b''] (merkle_root pad64 [''a'', ''b''])
   \<and> [''a'', ''b''] ! 0 = ''a''"
proof -
  have v: "verify_merkle_inclusion pad64 ''a'' 0 (length [''a'', ''b'']) [hash_leaf pad64 ''b'']
      (merkle_root pad64 [''a'', ''b''])"
    using reconstruct_two[of pad64 "hash_leaf pad64 ''a''" "hash_leaf pad64 ''b''"]
    by (simp add: verify_merkle_inclusion_def merkle_root_def hash_leaf_def hash_children_def numeral_2_eq_2)
  have "inj_on pad64 (tree_queries pad64 [''a'', ''b'']
      \<union> inclusion_queries pad64 ''a'' 0 (length [''a'', ''b'']) [hash_leaf pad64 ''b''])"
    using reconstruct_queries_two[of pad64 "hash_leaf pad64 ''a''" "hash_leaf pad64 ''b''"]
    by (intro inj_on_subset[OF pad64_example]) (auto simp: inclusion_queries_def hash_leaf_def numeral_2_eq_2)
  then show ?thesis using inclusion_sound[OF digest_64_pad64 v] v by (simp add: numeral_2_eq_2)
qed

section \<open>Soundness of consistency proofs\<close>

text \<open>
  Running the frontier fold with \<open>Br\<close> for the pairing function yields the term of hashes the
  verifier computed. Its fringe is the list of hashes in the proof and its value the root.
\<close>

datatype hash_term = Tip string | Br hash_term hash_term

primrec term_value :: "(string \<Rightarrow> string) \<Rightarrow> hash_term \<Rightarrow> string" where
  "term_value H (Tip h) = h"
| "term_value H (Br l r) = hash_children H (term_value H l) (term_value H r)"

primrec fringe :: "hash_term \<Rightarrow> string list" where
  "fringe (Tip h) = [h]"
| "fringe (Br l r) = fringe l @ fringe r"

primrec term_queries :: "(string \<Rightarrow> string) \<Rightarrow> hash_term \<Rightarrow> string set" where
  "term_queries H (Tip h) = {}"
| "term_queries H (Br l r) =
     insert (CHR 0x01 # term_value H l @ term_value H r) (term_queries H l \<union> term_queries H r)"

definition map_node :: "('a \<Rightarrow> 'b) \<Rightarrow> 'a merkle_range_node \<Rightarrow> 'b merkle_range_node" where
  "map_node f n = \<lparr>rn_start = rn_start n, rn_size = rn_size n, rn_hash = f (rn_hash n)\<rparr>"

lemma map_node_simps [simp]:
  "rn_start (map_node f n) = rn_start n" "rn_size (map_node f n) = rn_size n" "rn_hash (map_node f n) = f (rn_hash n)"
  "map_node f (map_node g n) = map_node (\<lambda>x. f (g x)) n" "map_node (\<lambda>x. x) n = n"
  by (simp_all add: map_node_def)

definition frontier_queries :: "(string \<Rightarrow> string) \<Rightarrow> string merkle_range_node list \<Rightarrow> nat \<Rightarrow> string set" where
  "frontier_queries H nodes n =
     (if n = 0 then {[]}
      else case frontier_root Br (map (map_node Tip) nodes) n of None \<Rightarrow> {} | Some t \<Rightarrow> term_queries H t)"

definition proof_queries :: "(string \<Rightarrow> string) \<Rightarrow> merkle_consistency_proof \<Rightarrow> string set" where
  "proof_queries H proof = frontier_queries H (cp_prefix proof) (cp_from_size proof)
     \<union> frontier_queries H (cp_prefix proof @ cp_suffix proof) (cp_to_size proof)"

lemma merge_stack_map:
  assumes "\<And>a b. f (hc a b) = hc' (f a) (f b)"
  shows "merge_stack hc' (map (map_node f) st) = map (map_node f) (merge_stack hc st)"
  using assms by (induction hc st rule: merge_stack.induct) (simp_all add: map_node_def)

lemma frontier_loop_map:
  assumes "\<And>a b. f (hc a b) = hc' (f a) (f b)"
  shows "frontier_loop hc' (map (map_node f) ns) c (map (map_node f) st)
    = map_option (map_prod id (map (map_node f))) (frontier_loop hc ns c st)"
proof (induction ns arbitrary: c st)
  case (Cons n ns)
  then show ?case using merge_stack_map[of f hc hc' "n # st", OF assms] by simp
qed simp

lemma fold_frontier_map:
  assumes "\<And>a b. f (hc a b) = hc' (f a) (f b)"
  shows "fold_frontier hc' (map (map_node f) st) = map_option f (fold_frontier hc st)"
proof -
  have "fold (\<lambda>n r. hc' (rn_hash n) r) (map (map_node f) rest) (f x) = f (fold (\<lambda>n r. hc (rn_hash n) r) rest x)" for rest x
    by (induction rest arbitrary: x) (simp_all add: assms[symmetric])
  then show ?thesis by (simp add: fold_frontier_def split: list.splits)
qed

lemma frontier_root_map:
  assumes "\<And>a b. f (hc a b) = hc' (f a) (f b)"
  shows "frontier_root hc' (map (map_node f) ns) n = map_option f (frontier_root hc ns n)"
  using frontier_loop_map[of f hc hc' ns 0 "[]", OF assms] fold_frontier_map[of f hc hc', OF assms]
  by (auto simp: frontier_root_def split: option.splits)

lemma frontier_root_term:
  assumes "frontier_root (hash_children H) ns n = Some r"
  obtains t where "frontier_root Br (map (map_node Tip) ns) n = Some t" "term_value H t = r"
proof -
  have id: "map (map_node (term_value H)) (map (map_node Tip) ns) = ns"
    by (simp add: map_idI)
  have "frontier_root (hash_children H) (map (map_node (term_value H)) (map (map_node Tip) ns)) n
      = map_option (term_value H) (frontier_root Br (map (map_node Tip) ns) n)"
    by (rule frontier_root_map) simp
  with assms have "map_option (term_value H) (frontier_root Br (map (map_node Tip) ns) n) = Some r"
    unfolding id by simp
  then show thesis using that by auto
qed

lemma merge_stack_fringe:
  "concat (map (fringe \<circ> rn_hash) (rev (merge_stack Br st))) = concat (map (fringe \<circ> rn_hash) (rev st))"
  by (induction Br st rule: merge_stack.induct) simp_all

lemma frontier_loop_fringe:
  "frontier_loop Br ns c st = Some (d, st')
   \<Longrightarrow> concat (map (fringe \<circ> rn_hash) (rev st')) = concat (map (fringe \<circ> rn_hash) (rev st @ ns))"
proof (induction ns arbitrary: c st)
  case (Cons n ns)
  then have "frontier_loop Br ns (c + rn_size n) (merge_stack Br (n # st)) = Some (d, st')"
    by (auto split: if_splits)
  from Cons.IH[OF this] merge_stack_fringe[of "n # st"] show ?case by (simp add: comp_def)
qed simp

lemma fold_frontier_fringe:
  "fold_frontier Br st = Some t \<Longrightarrow> fringe t = concat (map (fringe \<circ> rn_hash) (rev st))"
proof -
  have "fringe (fold (\<lambda>n r. Br (rn_hash n) r) rest x) = concat (map (fringe \<circ> rn_hash) (rev rest)) @ fringe x" for rest x
    by (induction rest arbitrary: x) simp_all
  then show "fold_frontier Br st = Some t \<Longrightarrow> fringe t = concat (map (fringe \<circ> rn_hash) (rev st))"
    by (auto simp: fold_frontier_def split: list.splits)
qed

lemma frontier_root_fringe:
  "frontier_root Br (map (map_node Tip) ns) n = Some t \<Longrightarrow> fringe t = map rn_hash ns"
proof -
  assume "frontier_root Br (map (map_node Tip) ns) n = Some t"
  then have "fringe t = concat (map (fringe \<circ> rn_hash) (map (map_node Tip) ns))"
    using frontier_loop_fringe[of "map (map_node Tip) ns" 0 "[]"] fold_frontier_fringe
    by (fastforce simp: frontier_root_def split: option.splits if_splits)
  then show ?thesis by (simp add: comp_def concat_map_singleton)
qed

text \<open>
  A term with the value of a log's root cuts the log into consecutive pieces, one for each hash of its
  fringe.
\<close>

lemma term_cut:
  assumes H: "digest_64 H" and inj: "inj_on H Q"
  shows "term_value H t = subtree_root H A \<Longrightarrow> \<forall>h\<in>set (fringe t). length h = 64
    \<Longrightarrow> term_queries H t \<subseteq> Q \<Longrightarrow> tree_queries H A \<subseteq> Q
    \<Longrightarrow> \<exists>Ls. concat Ls = A \<and> fringe t = map (subtree_root H) Ls \<and> (\<forall>L\<in>set Ls. tree_queries H L \<subseteq> Q)"
proof (induction t arbitrary: A)
  case (Tip h)
  then show ?case by (intro exI[of _ "[A]"]) simp
next
  case (Br x y)
  have len: "length (term_value H t) = 64" if "\<forall>h\<in>set (fringe t). length h = 64" for t
    using that H by (cases t) (auto simp: digest_64_def hash_children_def)
  have "H (CHR 0x01 # term_value H x @ term_value H y) = H (root_input H A)"
    using Br.prems(1) by (simp add: hash_children_def subtree_root_input)
  then have eq: "CHR 0x01 # term_value H x @ term_value H y = root_input H A"
    by (rule inj_onD[OF inj]) (use Br.prems(3,4) root_input_query[of H A] in auto)
  then have "1 < length A" by (cases A rule: list_cases3) auto
  then obtain l r where A': "A = l @ r" "l \<noteq> []" "r \<noteq> []"
      "subtree_root H A = H (CHR 0x01 # subtree_root H l @ subtree_root H r)"
      "tree_queries H A = insert (CHR 0x01 # subtree_root H l @ subtree_root H r) (tree_queries H l \<union> tree_queries H r)"
    by (rule tree_split)
  have "root_input H A = CHR 0x01 # subtree_root H l @ subtree_root H r"
    by (rule inj_onD[OF inj]) (use A' Br.prems(4) root_input_query[of H A] in \<open>auto simp: subtree_root_input[symmetric]\<close>)
  then have vals: "term_value H x = subtree_root H l" "term_value H y = subtree_root H r"
    using eq len[of x] subtree_root_length[OF H, of l] Br.prems(2) by auto
  obtain Ls where "concat Ls = l" "fringe x = map (subtree_root H) Ls" "\<forall>L\<in>set Ls. tree_queries H L \<subseteq> Q"
    using Br.IH(1)[OF vals(1)] A' Br.prems by auto
  moreover obtain Rs where "concat Rs = r" "fringe y = map (subtree_root H) Rs" "\<forall>L\<in>set Rs. tree_queries H L \<subseteq> Q"
    using Br.IH(2)[OF vals(2)] A' Br.prems by auto
  ultimately show ?case using A'(1) by (intro exI[of _ "Ls @ Rs"]) auto
qed

lemma cut_unique:
  assumes "digest_64 H" "inj_on H Q"
    and "map (subtree_root H) Ls = map (subtree_root H) Ms"
    and "\<forall>L\<in>set Ls. tree_queries H L \<subseteq> Q" "\<forall>M\<in>set Ms. tree_queries H M \<subseteq> Q"
  shows "Ls = Ms"
  using assms(3-) by (induction Ls Ms rule: list_induct2') (auto dest: subtree_root_inj[OF assms(1,2)])

text \<open>
  C8: a consistency proof the verifier accepts between the roots of two logs shows that the earlier log
  is a prefix of the later one, so the registry's log is append-only for every client that checks
  checkpoints. The sizes written in the proof's nodes are not trusted; its hashes have to be 64
  characters long, and no two of the strings hashed by the verifier or in building the two roots collide.
\<close>

theorem consistency_sound:
  assumes "digest_64 H"
    and "\<forall>n\<in>set (cp_prefix p @ cp_suffix p). length (rn_hash n) = 64"
    and "verify_merkle_consistency H p (merkle_root H A) (merkle_root H B)"
    and "inj_on H (tree_queries H A \<union> tree_queries H B \<union> proof_queries H p)"
  shows "prefix A B"
proof (cases "cp_from_size p = 0")
  case True
  then have h: "H [] = H (root_input H A)" "[] \<in> proof_queries H p"
    using assms(3) by (auto simp: verify_merkle_consistency_def root_from_frontier_def merkle_root_def
        subtree_root_input proof_queries_def frontier_queries_def split: if_splits)
  have "[] = root_input H A"
    by (rule inj_onD[OF assms(4) h(1)]) (use h(2) root_input_query[of H A] in blast)+
  then have "A = []" using root_input_long[of A H] by (cases A rule: list_cases3) auto
  then show ?thesis by simp
next
  case False
  let ?Q = "tree_queries H A \<union> tree_queries H B \<union> proof_queries H p"
  have sz: "cp_from_size p \<le> cp_to_size p" "cp_to_size p \<noteq> 0" and
    r: "frontier_root (hash_children H) (cp_prefix p) (cp_from_size p) = Some (subtree_root H A)"
       "frontier_root (hash_children H) (cp_prefix p @ cp_suffix p) (cp_to_size p) = Some (subtree_root H B)"
    using assms(3) False
    by (auto simp: verify_merkle_consistency_def root_from_frontier_def merkle_root_def split: if_splits)
  obtain t where t: "frontier_root Br (map (map_node Tip) (cp_prefix p)) (cp_from_size p) = Some t"
    "term_value H t = subtree_root H A" by (rule frontier_root_term[OF r(1)])
  obtain u where u: "frontier_root Br (map (map_node Tip) (cp_prefix p @ cp_suffix p)) (cp_to_size p) = Some u"
    "term_value H u = subtree_root H B" by (rule frontier_root_term[OF r(2)])
  note ft = frontier_root_fringe[OF t(1)] and fu = frontier_root_fringe[OF u(1)]
  have "term_queries H t \<subseteq> proof_queries H p" "term_queries H u \<subseteq> proof_queries H p"
    using t(1) u(1) False sz(2) by (simp_all add: proof_queries_def frontier_queries_def)
  then have q: "term_queries H t \<subseteq> ?Q" "term_queries H u \<subseteq> ?Q" "tree_queries H A \<subseteq> ?Q" "tree_queries H B \<subseteq> ?Q"
    by blast+
  have d: "\<forall>h\<in>set (fringe t). length h = 64" "\<forall>h\<in>set (fringe u). length h = 64"
    unfolding ft fu using assms(2) by auto
  obtain Ls where Ls: "concat Ls = A" "fringe t = map (subtree_root H) Ls" "\<forall>L\<in>set Ls. tree_queries H L \<subseteq> ?Q"
    using term_cut[OF assms(1,4) t(2) d(1) q(1,3)] by blast
  obtain Ms where Ms: "concat Ms = B" "fringe u = map (subtree_root H) Ms" "\<forall>L\<in>set Ms. tree_queries H L \<subseteq> ?Q"
    using term_cut[OF assms(1,4) u(2) d(2) q(2,4)] by blast
  let ?k = "length (cp_prefix p)"
  have "take ?k (map (subtree_root H) Ms) = map (subtree_root H) Ls"
    unfolding Ms(2)[symmetric] Ls(2)[symmetric] ft fu by simp
  then have "map (subtree_root H) Ls = map (subtree_root H) (take ?k Ms)"
    by (simp add: take_map)
  then have "Ls = take ?k Ms"
    using Ls(3) Ms(3) by (intro cut_unique[OF assms(1,4)]) (auto dest: in_set_takeD)
  then have "B = A @ concat (drop ?k Ms)"
    using Ls(1) Ms(1) by (metis append_take_drop_id concat_append)
  then show ?thesis by simp
qed

definition sample_proof :: merkle_consistency_proof where
  "sample_proof = \<lparr>cp_from_size = 1, cp_to_size = 2,
     cp_prefix = [\<lparr>rn_start = 0, rn_size = 1, rn_hash = pad64 (CHR 0x00 # ''a'')\<rparr>],
     cp_suffix = [\<lparr>rn_start = 1, rn_size = 1, rn_hash = pad64 (CHR 0x00 # ''b'')\<rparr>]\<rparr>"

lemma is_power_of_two_1 [simp]: "is_power_of_two (Suc 0)"
  using is_power_of_two_pow[of 0] by simp

lemma frontier_root_pair:
  "frontier_root hc [\<lparr>rn_start = 0, rn_size = Suc 0, rn_hash = x\<rparr>, \<lparr>rn_start = Suc 0, rn_size = Suc 0, rn_hash = y\<rparr>] 2
     = Some (hc x y)"
  "frontier_root hc [\<lparr>rn_start = 0, rn_size = Suc 0, rn_hash = x\<rparr>] (Suc 0) = Some x"
  by (simp_all add: frontier_root_def fold_frontier_def)

theorem consistency_sound_witness:
  "verify_merkle_consistency pad64 sample_proof (merkle_root pad64 [''a'']) (merkle_root pad64 [''a'', ''b''])
   \<and> prefix [''a''] [''a'', ''b'']"
proof -
  have v: "verify_merkle_consistency pad64 sample_proof (merkle_root pad64 [''a'']) (merkle_root pad64 [''a'', ''b''])"
    by (simp add: verify_merkle_consistency_def sample_proof_def root_from_frontier_def frontier_root_pair
        merkle_root_def hash_leaf_def hash_children_def)
  have len: "\<forall>n\<in>set (cp_prefix sample_proof @ cp_suffix sample_proof). length (rn_hash n) = 64"
    using digest_64_pad64 by (simp add: sample_proof_def digest_64_def)
  have "inj_on pad64 (tree_queries pad64 [''a''] \<union> tree_queries pad64 [''a'', ''b''] \<union> proof_queries pad64 sample_proof)"
    by (rule inj_on_subset[OF pad64_example])
       (auto simp: proof_queries_def frontier_queries_def sample_proof_def frontier_root_pair map_node_def)
  then show ?thesis using v consistency_sound[OF digest_64_pad64 len v] by simp
qed

end
