(* ===== verification/Core_Integrity.thy ===== *)
theory Core_Integrity
  imports Prelude "HOL-Library.Word"
begin

text \<open>
  Content hashes as text (\<open>crates/oath-core/src/integrity.rs\<close>). SHA-256 and BLAKE3 come from crates and are
  parameters, functions from bytes to digest bytes. The base64 encoder is the source's own; its shifts
  and masks are on \<open>u32\<close>, here \<open>32 word\<close>.
\<close>

unbundle bit_operations_syntax

type_synonym u32 = "32 word"

section \<open>Hexadecimal\<close>

definition hex_digit :: "nat \<Rightarrow> char" where
  "hex_digit n = char_of (if n < 10 then 48 + n else 87 + n)"

definition hex_byte :: "char \<Rightarrow> string" where
  "hex_byte c = [hex_digit (byte c div 16), hex_digit (byte c mod 16)]"

definition hex_encode :: "string \<Rightarrow> string" where
  "hex_encode s = concat (map hex_byte s)"

definition sha256_hex :: "(string \<Rightarrow> string) \<Rightarrow> string \<Rightarrow> string" where
  "sha256_hex sha256 data = hex_encode (sha256 data)"

definition blake3_hex :: "(string \<Rightarrow> string) \<Rightarrow> string \<Rightarrow> string" where
  "blake3_hex blake3 data = hex_encode (blake3 data)"

lemma hex_digit_inj: "m < 16 \<Longrightarrow> n < 16 \<Longrightarrow> hex_digit m = hex_digit n \<Longrightarrow> m = n"
proof -
  assume h: "m < 16" "n < 16" "hex_digit m = hex_digit n"
  have "of_char (hex_digit k) = (if k < 10 then 48 + k else 87 + k)" if "k < 16" for k :: nat
    using that by (simp add: hex_digit_def)
  with h have "(if m < 10 then 48 + m else 87 + m) = (if n < 10 then 48 + n else 87 + n)" by metis
  then show "m = n" using h by (simp split: if_splits)
qed

lemma hex_byte_inj [simp]: "hex_byte c = hex_byte d \<longleftrightarrow> c = d"
proof
  assume "hex_byte c = hex_byte d"
  then have "byte c div 16 = byte d div 16" "byte c mod 16 = byte d mod 16"
    using hex_digit_inj[of "byte c div 16" "byte d div 16"] hex_digit_inj[of "byte c mod 16" "byte d mod 16"]
    by (simp_all add: hex_byte_def less_mult_imp_div_less)
  then have "byte c = byte d" by (metis div_mult_mod_eq)
  then show "c = d" by simp
qed simp

lemma hex_encode_simps [simp]: "hex_encode [] = []" "hex_encode (c # s) = hex_byte c @ hex_encode s"
  by (simp_all add: hex_encode_def)

lemma length_hex_encode [simp]: "length (hex_encode s) = 2 * length s"
  by (induction s) (simp_all add: hex_byte_def)

lemma hex_encode_inj: "hex_encode s = hex_encode t \<Longrightarrow> s = t"
proof (induction s arbitrary: t)
  case Nil
  then show ?case by (cases t) (simp_all add: hex_byte_def)
next
  case (Cons c s)
  then obtain d t' where t: "t = d # t'" by (cases t) (simp_all add: hex_byte_def)
  have "length (hex_byte c) = length (hex_byte d)" by (simp add: hex_byte_def)
  then show ?case using Cons t by simp
qed

section \<open>Base64\<close>

definition base64_chars :: string where
  "base64_chars = ''ABCDEFGHIJKLMNOPQRSTUVWXYZabcdefghijklmnopqrstuvwxyz0123456789+/''"

definition base64_char :: "u32 \<Rightarrow> char" where
  "base64_char w = base64_chars ! unat w"

text \<open>One round of the loop: the chunk has one to three bytes, absent bytes count as zero.\<close>

definition base64_triple :: "char \<Rightarrow> char option \<Rightarrow> char option \<Rightarrow> u32" where
  "base64_triple c0 c1 c2 =
     (let b0 = of_nat (byte c0); b1 = (case c1 of None \<Rightarrow> 0 | Some c \<Rightarrow> of_nat (byte c));
          b2 = (case c2 of None \<Rightarrow> 0 | Some c \<Rightarrow> of_nat (byte c))
      in (push_bit 16 b0 OR push_bit 8 b1) OR b2)"

definition base64_chunk :: "char \<Rightarrow> char option \<Rightarrow> char option \<Rightarrow> string" where
  "base64_chunk c0 c1 c2 =
     (let triple = base64_triple c0 c1 c2
      in [base64_char (drop_bit 18 triple AND 0x3F), base64_char (drop_bit 12 triple AND 0x3F),
          (if c1 \<noteq> None then base64_char (drop_bit 6 triple AND 0x3F) else CHR ''=''),
          (if c2 \<noteq> None then base64_char (triple AND 0x3F) else CHR ''='')])"

fun base64_encode :: "string \<Rightarrow> string" where
  "base64_encode [] = []"
| "base64_encode [a] = base64_chunk a None None"
| "base64_encode [a, b] = base64_chunk a (Some b) None"
| "base64_encode (a # b # c # rest) = base64_chunk a (Some b) (Some c) @ base64_encode rest"

definition sri_sha256 :: "(string \<Rightarrow> string) \<Rightarrow> string \<Rightarrow> string" where
  "sri_sha256 sha256 data = ''sha256-'' @ base64_encode (sha256 data)"

text \<open>The four indices are the base-64 digits of the triple.\<close>

lemma sextet: "unat (drop_bit n w AND 0x3F :: u32) = unat w div 2 ^ n mod 64"
proof -
  have "drop_bit n w AND 0x3F = take_bit 6 (drop_bit n w)"
    by (simp add: take_bit_eq_mask mask_eq_exp_minus_1)
  then have "unat (drop_bit n w AND 0x3F) = take_bit 6 (unat (drop_bit n w))"
    by (simp add: unsigned_take_bit_eq)
  also have "unat (drop_bit n w) = drop_bit n (unat w)" by (rule unat_drop_bit_eq)
  finally show ?thesis by (simp only: drop_bit_eq_div take_bit_eq_mod) simp
qed

lemma sextet0: "unat (w AND 0x3F :: u32) = unat w mod 64"
  using sextet[of 0 w] by simp

lemma or_shifted:
  assumes "b < 2 ^ n" shows "push_bit n a OR b = a * 2 ^ n + (b :: nat)"
proof -
  have "\<not> bit b m" if "n \<le> m" for m
    using assms that by (metis bit_take_bit_iff not_le take_bit_nat_eq_self)
  then have "push_bit n a AND b = 0"
    by (intro bit_eqI) (auto simp: bit_simps not_le)
  then show ?thesis by (simp add: disjunctive_add_eq_or[symmetric] push_bit_eq_mult)
qed

lemma triple_unat:
  assumes "a < 256" "b < 256" "c < 256"
  shows "unat ((push_bit 16 (of_nat a) OR push_bit 8 (of_nat b)) OR of_nat c :: u32) = a * 65536 + b * 256 + c"
proof -
  have small: "take_bit 32 (push_bit 16 a) = push_bit 16 a" "take_bit 32 (push_bit 8 b) = push_bit 8 b"
    using assms by (simp_all add: take_bit_nat_eq_self_iff push_bit_eq_mult)
  have mods: "a mod 4294967296 = a" "b mod 4294967296 = b" "c mod 4294967296 = c"
    using assms by simp_all
  have "unat ((push_bit 16 (of_nat a) OR push_bit 8 (of_nat b)) OR of_nat c :: u32) = push_bit 16 a OR (push_bit 8 b OR c)"
    using small mods by (simp add: unsigned_or_eq unsigned_push_bit_eq unat_of_nat or.assoc)
  also have "push_bit 8 b OR c = b * 256 + c" using or_shifted[of c 8 b] assms by simp
  also have "push_bit 16 a OR (b * 256 + c) = a * 65536 + (b * 256 + c)"
    using or_shifted[of "b * 256 + c" 16 a] assms by simp
  finally show ?thesis by simp
qed

text \<open>An absent byte counts as zero.\<close>

definition byte_or_zero :: "char option \<Rightarrow> nat" where
  "byte_or_zero x = (case x of None \<Rightarrow> 0 | Some c \<Rightarrow> byte c)"

lemma byte_or_zero_less [simp]: "byte_or_zero x < 256"
  by (simp add: byte_or_zero_def split: option.splits)

lemma byte_or_zero_Some [simp]: "byte_or_zero (Some c) = byte c"
  by (simp add: byte_or_zero_def)

lemma base64_triple_unat:
  "unat (base64_triple c0 c1 c2) = byte c0 * 65536 + byte_or_zero c1 * 256 + byte_or_zero c2"
proof -
  have "base64_triple c0 c1 c2
      = (push_bit 16 (of_nat (byte c0)) OR push_bit 8 (of_nat (byte_or_zero c1))) OR of_nat (byte_or_zero c2)"
    by (simp add: base64_triple_def byte_or_zero_def Let_def split: option.splits)
  then show ?thesis by (simp only: triple_unat byte_less byte_or_zero_less)
qed

definition base64_symbol :: "nat \<Rightarrow> char" where
  "base64_symbol n = base64_chars ! (n mod 64)"

lemma base64_symbol_inj:
  assumes "base64_symbol m = base64_symbol n" shows "m mod 64 = n mod 64"
proof -
  have "distinct base64_chars" "length base64_chars = 64" by code_simp+
  then show ?thesis using assms nth_eq_iff_index_eq[of base64_chars "m mod 64" "n mod 64"]
    by (simp add: base64_symbol_def)
qed

lemma base64_symbol_alphabet: "base64_symbol n \<in> set base64_chars"
proof -
  have "length base64_chars = 64" by code_simp
  then show ?thesis by (simp add: base64_symbol_def)
qed

lemma pad_not_symbol: "CHR ''='' \<noteq> base64_symbol n"
proof -
  have "CHR ''='' \<notin> set base64_chars" by code_simp
  then show ?thesis using base64_symbol_alphabet by metis
qed

text \<open>What a round appends, over the natural numbers.\<close>

lemma base64_chunk_eq:
  "base64_chunk c0 c1 c2 =
     (let t = byte c0 * 65536 + byte_or_zero c1 * 256 + byte_or_zero c2
      in [base64_symbol (t div 2 ^ 18), base64_symbol (t div 2 ^ 12),
          (if c1 \<noteq> None then base64_symbol (t div 2 ^ 6) else CHR ''=''),
          (if c2 \<noteq> None then base64_symbol t else CHR ''='')])"
  unfolding base64_chunk_def Let_def base64_char_def base64_symbol_def sextet
  unfolding sextet0 base64_triple_unat ..

lemma sextet_step: "x div 64 = y div 64 \<Longrightarrow> x mod 64 = y mod 64 \<Longrightarrow> x = (y :: nat)"
  by (metis div_mult_mod_eq)

lemma triple_bytes:
  fixes a b c :: nat
  assumes "a < 256" "b < 256" "c < 256" "t = a * 65536 + b * 256 + c"
  shows "t div 2 ^ 18 < 64" "a = t div 2 ^ 12 div 16" "b = t div 2 ^ 6 div 4 mod 256" "c = t mod 256"
proof -
  have "t div 2 ^ 12 div 16 = t div 65536" "t div 2 ^ 6 div 4 = t div 256"
    by (simp_all flip: div_mult2_eq)
  moreover have "t div 256 = a * 256 + b" "t div 65536 = a" using assms by simp_all
  moreover have "t mod 256 = c"
    using assms(3) mod_mult_self1[of c "a * 256 + b" 256] unfolding assms(4) by (simp add: algebra_simps)
  moreover have "t < 64 * 2 ^ 18" using assms by simp
  ultimately show "t div 2 ^ 18 < 64" "a = t div 2 ^ 12 div 16" "b = t div 2 ^ 6 div 4 mod 256" "c = t mod 256"
    using assms by (simp_all add: less_mult_imp_div_less)
qed

lemma triple_digits:
  fixes a b c a' b' c' :: nat
  assumes "a < 256" "b < 256" "c < 256" "a' < 256" "b' < 256" "c' < 256"
    and "t = a * 65536 + b * 256 + c" "t' = a' * 65536 + b' * 256 + c'"
    and "t div 2 ^ 18 mod 64 = t' div 2 ^ 18 mod 64" "t div 2 ^ 12 mod 64 = t' div 2 ^ 12 mod 64"
  shows "a = a'"
    and "t div 2 ^ 6 mod 64 = t' div 2 ^ 6 mod 64 \<Longrightarrow> b = b'"
    and "t div 2 ^ 6 mod 64 = t' div 2 ^ 6 mod 64 \<Longrightarrow> t mod 64 = t' mod 64 \<Longrightarrow> c = c'"
proof -
  note B = triple_bytes[OF assms(1-3) assms(7)] and B' = triple_bytes[OF assms(4-6) assms(8)]
  have steps: "x div 2 ^ 12 div 64 = x div 2 ^ 18" "x div 2 ^ 6 div 64 = x div 2 ^ 12" for x :: nat
    by (simp_all flip: div_mult2_eq)
  have d: "t div 2 ^ 12 = t' div 2 ^ 12"
    by (rule sextet_step) (use assms(9,10) B(1) B'(1) in \<open>simp_all only: steps mod_less\<close>)
  then show "a = a'" using B(2) B'(2) by metis
  assume h: "t div 2 ^ 6 mod 64 = t' div 2 ^ 6 mod 64"
  have e: "t div 2 ^ 6 = t' div 2 ^ 6"
    by (rule sextet_step) (use h d in \<open>simp_all only: steps\<close>)
  then show "b = b'" using B(3) B'(3) by metis
  assume m: "t mod 64 = t' mod 64"
  have "t = t'"
    by (rule sextet_step) (use m e in simp_all)
  then show "c = c'" using B(4) B'(4) by metis
qed

lemma base64_chunk_inj:
  assumes eq: "base64_chunk c0 c1 c2 = base64_chunk d0 d1 d2"
    and ok: "c2 = None \<or> c1 \<noteq> None" "d2 = None \<or> d1 \<noteq> None"
  shows "c0 = d0 \<and> c1 = d1 \<and> c2 = d2"
proof -
  define t where "t = byte c0 * 65536 + byte_or_zero c1 * 256 + byte_or_zero c2"
  define t' where "t' = byte d0 * 65536 + byte_or_zero d1 * 256 + byte_or_zero d2"
  have s: "base64_symbol (t div 2 ^ 18) = base64_symbol (t' div 2 ^ 18)"
    "base64_symbol (t div 2 ^ 12) = base64_symbol (t' div 2 ^ 12)"
    "(if c1 \<noteq> None then base64_symbol (t div 2 ^ 6) else CHR ''='')
     = (if d1 \<noteq> None then base64_symbol (t' div 2 ^ 6) else CHR ''='')"
    "(if c2 \<noteq> None then base64_symbol t else CHR ''='')
     = (if d2 \<noteq> None then base64_symbol t' else CHR ''='')"
    using eq unfolding base64_chunk_eq Let_def t_def[symmetric] t'_def[symmetric] by blast+
  have n: "c1 = None \<longleftrightarrow> d1 = None" "c2 = None \<longleftrightarrow> d2 = None"
    using s(3,4) pad_not_symbol by (metis)+
  note D = triple_digits[OF byte_less byte_or_zero_less byte_or_zero_less byte_less byte_or_zero_less byte_or_zero_less
      t_def t'_def base64_symbol_inj[OF s(1)] base64_symbol_inj[OF s(2)]]
  have "c0 = d0" using D(1) by simp
  moreover have "c1 = d1"
  proof (cases c1)
    case (Some x)
    then obtain y where y: "d1 = Some y" using n by (cases d1) auto
    have "byte_or_zero c1 = byte_or_zero d1" using s(3) Some y by (intro D(2) base64_symbol_inj) simp
    then show ?thesis using Some y by simp
  qed (use n in simp)
  moreover have "c2 = d2"
  proof (cases c2)
    case (Some x)
    then obtain y where y: "d2 = Some y" using n by (cases d2) auto
    have "byte_or_zero c2 = byte_or_zero d2"
      using s(3,4) Some y ok n by (intro D(3) base64_symbol_inj) auto
    then show ?thesis using Some y by simp
  qed (use n in simp)
  ultimately show ?thesis by blast
qed

lemma length_base64_chunk [simp]: "length (base64_chunk a b c) = 4"
  by (simp add: base64_chunk_def Let_def)

lemma base64_chunk_nonempty [simp]: "base64_chunk a b c \<noteq> []" "[] \<noteq> base64_chunk a b c"
  by (simp_all add: base64_chunk_def Let_def)

lemma length_base64_encode: "length (base64_encode s) = 4 * ((length s + 2) div 3)"
proof (induction s rule: base64_encode.induct)
  case (4 a b c rest)
  have "(5 + length rest) div 3 = (length rest + 2) div 3 + 1" by presburger
  then show ?case using 4 by simp
qed simp_all

text \<open>Every encoding is a first chunk followed by the encoding of the rest.\<close>

fun base64_head :: "string \<Rightarrow> char \<times> char option \<times> char option" where
  "base64_head [a] = (a, None, None)"
| "base64_head [a, b] = (a, Some b, None)"
| "base64_head (a # b # c # rest) = (a, Some b, Some c)"

lemma base64_encode_split:
  "s \<noteq> [] \<Longrightarrow> base64_encode s
     = base64_chunk (fst (base64_head s)) (fst (snd (base64_head s))) (snd (snd (base64_head s))) @ base64_encode (drop 3 s)"
  by (induction s rule: base64_encode.induct) simp_all

lemma base64_head_ok: "s \<noteq> [] \<Longrightarrow> snd (snd (base64_head s)) = None \<or> fst (snd (base64_head s)) \<noteq> None"
  by (induction s rule: base64_encode.induct) simp_all

lemma base64_head_eq: "s \<noteq> [] \<Longrightarrow> t \<noteq> [] \<Longrightarrow> base64_head s = base64_head t \<Longrightarrow> take 3 s = take 3 t"
  by (cases s rule: base64_encode.cases; cases t rule: base64_encode.cases) auto

lemma base64_encode_inj: "base64_encode s = base64_encode t \<Longrightarrow> s = t"
proof (induction "length s" arbitrary: s t rule: less_induct)
  case less
  show ?case
  proof (cases "s = [] \<or> t = []")
    case True
    have "(length s + 2) div 3 = (length t + 2) div 3"
      using less.prems by (metis length_base64_encode mult_left_cancel zero_neq_numeral)
    then show ?thesis using True by (cases s; cases t) auto
  next
    case False
    then have ne: "s \<noteq> []" "t \<noteq> []" by auto
    note S = base64_encode_split[OF ne(1)] base64_encode_split[OF ne(2)]
    have "base64_chunk (fst (base64_head s)) (fst (snd (base64_head s))) (snd (snd (base64_head s)))
        = base64_chunk (fst (base64_head t)) (fst (snd (base64_head t))) (snd (snd (base64_head t)))
      \<and> base64_encode (drop 3 s) = base64_encode (drop 3 t)"
      using less.prems unfolding S by (subst (asm) append_eq_append_conv) simp_all
    then have chunks: "base64_chunk (fst (base64_head s)) (fst (snd (base64_head s))) (snd (snd (base64_head s)))
        = base64_chunk (fst (base64_head t)) (fst (snd (base64_head t))) (snd (snd (base64_head t)))"
      and rest: "base64_encode (drop 3 s) = base64_encode (drop 3 t)" by blast+
    have heads: "base64_head s = base64_head t"
      using base64_chunk_inj[OF chunks base64_head_ok[OF ne(1)] base64_head_ok[OF ne(2)]]
      by (simp add: prod_eq_iff)
    then have "drop 3 s = drop 3 t" using less.hyps[of "drop 3 s"] rest ne by simp
    then show ?thesis using base64_head_eq[OF ne heads] by (metis append_take_drop_id)
  qed
qed

lemma base64_encode_pads: "length s mod 3 \<noteq> 0 \<Longrightarrow> last (base64_encode s) = CHR ''=''"
proof (induction s rule: base64_encode.induct)
  case (4 a b c rest)
  then have m: "length rest mod 3 \<noteq> 0" by auto
  then have "base64_encode rest \<noteq> []" using length_base64_encode[of rest] by (cases rest) auto
  then show ?case using 4(1)[OF m] by simp
qed (simp_all add: base64_chunk_def Let_def)

text \<open>
  The integrity string of a package, with a hash of 32 bytes, always has the 51 bytes of an SRI
  sha256 value with one padding character at the end, and two packages get the same integrity string, or the same
  hexadecimal digest, exactly when their digests are equal: the encodings lose nothing.
\<close>

theorem sri_sha256_faithful:
  assumes "\<And>d. length (sha256 d) = 32"
  shows "length (sri_sha256 sha256 x) = 51 \<and> last (sri_sha256 sha256 x) = CHR ''=''
    \<and> (sri_sha256 sha256 x = sri_sha256 sha256 y \<longleftrightarrow> sha256 x = sha256 y)
    \<and> length (sha256_hex sha256 x) = 64
    \<and> (sha256_hex sha256 x = sha256_hex sha256 y \<longleftrightarrow> sha256 x = sha256 y)"
proof -
  have len: "length (sha256 x) = 32" by (rule assms)
  have l64: "length (base64_encode (sha256 x)) = 44" using length_base64_encode[of "sha256 x"] len by simp
  then have ne: "base64_encode (sha256 x) \<noteq> []" by (metis list.size(3) zero_neq_numeral)
  have "last (base64_encode (sha256 x)) = CHR ''=''" using base64_encode_pads[of "sha256 x"] len by simp
  then have "length (sri_sha256 sha256 x) = 51 \<and> last (sri_sha256 sha256 x) = CHR ''=''"
    using l64 ne by (simp add: sri_sha256_def)
  moreover have "sri_sha256 sha256 x = sri_sha256 sha256 y \<longleftrightarrow> sha256 x = sha256 y"
    using base64_encode_inj[of "sha256 x" "sha256 y"] by (auto simp: sri_sha256_def)
  moreover have "length (sha256_hex sha256 x) = 64 \<and> (sha256_hex sha256 x = sha256_hex sha256 y \<longleftrightarrow> sha256 x = sha256 y)"
    using hex_encode_inj[of "sha256 x" "sha256 y"] len by (auto simp: sha256_hex_def)
  ultimately show ?thesis by blast
qed

theorem sri_sha256_faithful_witness:
  "length (sri_sha256 (\<lambda>d. replicate 32 (CHR ''M'')) ''ab'') = 51
   \<and> sri_sha256 (\<lambda>d. replicate 32 (CHR ''M'')) ''ab'' = sri_sha256 (\<lambda>d. replicate 32 (CHR ''M'')) ''cd''"
  using sri_sha256_faithful[of "\<lambda>d. replicate 32 (CHR ''M'')" "''ab''" "''cd''", OF length_replicate] by blast

end
