(* ===== verification/Core_Policy.thy ===== *)
theory Core_Policy
  imports Prelude
begin

text \<open>
  Permissions and policy (\<open>crates/oath-core/src/permissions.rs\<close>, \<open>policy.rs\<close>,
  \<open>config.rs\<close>, \<open>manifest.rs\<close> and \<open>home_dir\<close> of \<open>lib.rs\<close>). The TOML parser is a
  parameter, a partial function from file contents to the raw layer; the file system is a partial
  function from paths, as lists of components, to contents. \<open>str::to_lowercase\<close> in
  \<open>max_risk\<close> is compared with ASCII words only, none of which is the lower case of a
  non-ASCII letter, so the ASCII fold decides the same comparison.
\<close>

section \<open>Permissions\<close>

record permissions =
  perm_net :: "string list"
  perm_fs_read :: "string list"
  perm_fs_write :: "string list"
  perm_env :: "string list"
  perm_run :: "string list"
  perm_ffi :: bool
  perm_install_scripts :: bool

definition default_permissions :: permissions where
  "default_permissions = \<lparr>perm_net = [], perm_fs_read = [], perm_fs_write = [], perm_env = [],
     perm_run = [], perm_ffi = False, perm_install_scripts = False\<rparr>"

definition is_sandboxed :: "permissions \<Rightarrow> bool" where
  "is_sandboxed p \<longleftrightarrow> perm_net p = [] \<and> perm_fs_read p = [] \<and> perm_fs_write p = [] \<and> perm_env p = []
     \<and> perm_run p = [] \<and> \<not> perm_ffi p \<and> \<not> perm_install_scripts p"

definition summary :: "permissions \<Rightarrow> string list" where
  "summary p =
     (let lines = (if perm_net p \<noteq> [] then [''network: '' @ intercalate '', '' (perm_net p)] else [])
         @ (if perm_fs_read p \<noteq> [] then [''read: '' @ intercalate '', '' (perm_fs_read p)] else [])
         @ (if perm_fs_write p \<noteq> [] then [''write: '' @ intercalate '', '' (perm_fs_write p)] else [])
         @ (if perm_env p \<noteq> [] then [''env: '' @ intercalate '', '' (perm_env p)] else [])
         @ (if perm_run p \<noteq> [] then [''exec: '' @ intercalate '', '' (perm_run p)] else [])
         @ (if perm_ffi p then [''ffi: YES (native code)''] else [])
         @ (if perm_install_scripts p then [''install scripts: YES''] else [])
      in if lines = [] then [''pure (no system access)''] else lines)"

datatype perm_risk = PNone | PLow | PMedium | PHigh | PCritical

fun perm_risk_rank :: "perm_risk \<Rightarrow> nat" where
  "perm_risk_rank PNone = 0"
| "perm_risk_rank PLow = 1"
| "perm_risk_rank PMedium = 2"
| "perm_risk_rank PHigh = 3"
| "perm_risk_rank PCritical = 4"

lemma perm_risk_rank_inj: "perm_risk_rank a = perm_risk_rank b \<longleftrightarrow> a = b"
  by (cases a; cases b) simp_all

instantiation perm_risk :: linorder
begin

definition less_eq_perm_risk :: "perm_risk \<Rightarrow> perm_risk \<Rightarrow> bool" where
  "less_eq_perm_risk a b \<longleftrightarrow> perm_risk_rank a \<le> perm_risk_rank b"

definition less_perm_risk :: "perm_risk \<Rightarrow> perm_risk \<Rightarrow> bool" where
  "less_perm_risk a b \<longleftrightarrow> perm_risk_rank a < perm_risk_rank b"

instance
  by standard (auto simp: less_eq_perm_risk_def less_perm_risk_def perm_risk_rank_inj)

end

definition perm_risk_level :: "permissions \<Rightarrow> perm_risk" where
  "perm_risk_level p =
     (if perm_ffi p \<or> perm_install_scripts p then PHigh
      else if perm_net p \<noteq> [] \<or> perm_fs_write p \<noteq> [] \<or> perm_run p \<noteq> [] then PMedium
      else if perm_fs_read p \<noteq> [] \<or> perm_env p \<noteq> [] then PLow
      else PNone)"

definition perm_subset :: "permissions \<Rightarrow> permissions \<Rightarrow> bool" where
  "perm_subset p q \<longleftrightarrow> set (perm_net p) \<subseteq> set (perm_net q) \<and> set (perm_fs_read p) \<subseteq> set (perm_fs_read q)
     \<and> set (perm_fs_write p) \<subseteq> set (perm_fs_write q) \<and> set (perm_env p) \<subseteq> set (perm_env q)
     \<and> set (perm_run p) \<subseteq> set (perm_run q) \<and> (perm_ffi p \<longrightarrow> perm_ffi q)
     \<and> (perm_install_scripts p \<longrightarrow> perm_install_scripts q)"

lemma summary_pure_iff: "summary p = [''pure (no system access)''] \<longleftrightarrow> is_sandboxed p"
  by (auto simp: summary_def is_sandboxed_def Let_def)

lemma perm_risk_none_iff: "perm_risk_level p = PNone \<longleftrightarrow> is_sandboxed p"
  by (auto simp: perm_risk_level_def is_sandboxed_def)

lemma perm_risk_mono: "perm_subset p q \<Longrightarrow> perm_risk_level p \<le> perm_risk_level q"
  by (auto simp: perm_subset_def perm_risk_level_def less_eq_perm_risk_def)

text \<open>
  The three views of a permission set agree: a package is rated without risk exactly when it is
  fully sandboxed, exactly when the summary shown to the user says that it is pure, and asking for more
  never lowers the rating.
\<close>

theorem permissions_views_agree:
  "(perm_risk_level p = PNone \<longleftrightarrow> is_sandboxed p)
   \<and> (summary p = [''pure (no system access)''] \<longleftrightarrow> is_sandboxed p)
   \<and> (perm_subset p q \<longrightarrow> perm_risk_level p \<le> perm_risk_level q)"
  using perm_risk_none_iff summary_pure_iff perm_risk_mono by blast

theorem permissions_views_agree_witness:
  "perm_subset default_permissions (default_permissions\<lparr>perm_env := [''HOME'']\<rparr>)
   \<and> perm_risk_level default_permissions \<le> perm_risk_level (default_permissions\<lparr>perm_env := [''HOME'']\<rparr>)"
  using permissions_views_agree[of default_permissions "default_permissions\<lparr>perm_env := [''HOME'']\<rparr>"]
  by (simp add: perm_subset_def default_permissions_def)

section \<open>Policy\<close>

datatype risk_level = Clean | Info | Low | Medium | High | Critical

fun risk_rank :: "risk_level \<Rightarrow> nat" where
  "risk_rank Clean = 0"
| "risk_rank Info = 1"
| "risk_rank Low = 2"
| "risk_rank Medium = 3"
| "risk_rank High = 4"
| "risk_rank Critical = 5"

lemma risk_rank_inj: "risk_rank a = risk_rank b \<longleftrightarrow> a = b"
  by (cases a; cases b) simp_all

instantiation risk_level :: linorder
begin

definition less_eq_risk_level :: "risk_level \<Rightarrow> risk_level \<Rightarrow> bool" where
  "less_eq_risk_level a b \<longleftrightarrow> risk_rank a \<le> risk_rank b"

definition less_risk_level :: "risk_level \<Rightarrow> risk_level \<Rightarrow> bool" where
  "less_risk_level a b \<longleftrightarrow> risk_rank a < risk_rank b"

instance
  by standard (auto simp: less_eq_risk_level_def less_risk_level_def risk_rank_inj)

end

fun display_risk :: "risk_level \<Rightarrow> string" where
  "display_risk Clean = ''clean''"
| "display_risk Info = ''info''"
| "display_risk Low = ''low''"
| "display_risk Medium = ''medium''"
| "display_risk High = ''high''"
| "display_risk Critical = ''critical''"

record raw_policy =
  raw_banned_packages :: "string list"
  raw_banned_licenses :: "string list"
  raw_require_approval :: "string list"
  raw_allow_install_scripts :: "string list"
  raw_block_install_scripts :: "bool option"
  raw_max_risk_level :: "string option"

record oath_policy =
  banned_packages :: "string list"
  banned_licenses :: "string list"
  require_approval :: "string list"
  allow_install_scripts :: "string list"
  block_install_scripts :: bool
  max_risk_level :: string

definition default_policy :: oath_policy where
  "default_policy = \<lparr>banned_packages = [], banned_licenses = [], require_approval = [],
     allow_install_scripts = [], block_install_scripts = False, max_risk_level = ''critical''\<rparr>"

definition push_new :: "'a \<Rightarrow> 'a list \<Rightarrow> 'a list" where
  "push_new x xs = (if x \<in> set xs then xs else xs @ [x])"

definition policy_merge :: "raw_policy \<Rightarrow> oath_policy \<Rightarrow> oath_policy" where
  "policy_merge raw p = p\<lparr>
     banned_packages := fold push_new (raw_banned_packages raw) (banned_packages p),
     banned_licenses := fold push_new (raw_banned_licenses raw) (banned_licenses p),
     require_approval := fold push_new (raw_require_approval raw) (require_approval p),
     allow_install_scripts := fold push_new (raw_allow_install_scripts raw) (allow_install_scripts p),
     block_install_scripts := (case raw_block_install_scripts raw of Some v \<Rightarrow> v | None \<Rightarrow> block_install_scripts p),
     max_risk_level := (case raw_max_risk_level raw of Some v \<Rightarrow> v | None \<Rightarrow> max_risk_level p)\<rparr>"

definition home_dir :: "(string \<Rightarrow> string option) \<Rightarrow> string option" where
  "home_dir env = (case env ''HOME'' of Some h \<Rightarrow> Some h | None \<Rightarrow> env ''USERPROFILE'')"

definition policy_layer :: "(string list \<Rightarrow> string option) \<Rightarrow> (string \<Rightarrow> raw_policy option) \<Rightarrow> string list \<Rightarrow> oath_policy \<Rightarrow> oath_policy" where
  "policy_layer read_to_string toml path p =
     (case read_to_string path of
        None \<Rightarrow> p
      | Some text \<Rightarrow> (case toml text of None \<Rightarrow> p | Some raw \<Rightarrow> policy_merge raw p))"

definition policy_load :: "(string \<Rightarrow> string option) \<Rightarrow> (string list \<Rightarrow> string option) \<Rightarrow> (string \<Rightarrow> raw_policy option) \<Rightarrow> oath_policy" where
  "policy_load env read_to_string toml =
     (let policy = default_policy;
          policy = (case home_dir env of
                      None \<Rightarrow> policy
                    | Some home \<Rightarrow> policy_layer read_to_string toml [home, ''.oath'', ''policy.toml''] policy)
      in policy_layer read_to_string toml [''oath-policy.toml''] policy)"

definition is_package_banned :: "oath_policy \<Rightarrow> string \<Rightarrow> bool" where
  "is_package_banned p name \<longleftrightarrow> list_ex (\<lambda>b. eq_ignore_ascii_case b name) (banned_packages p)"

definition is_license_banned :: "oath_policy \<Rightarrow> string \<Rightarrow> bool" where
  "is_license_banned p license \<longleftrightarrow> list_ex (\<lambda>b. eq_ignore_ascii_case b license) (banned_licenses p)"

definition allows_install_script :: "oath_policy \<Rightarrow> string \<Rightarrow> bool" where
  "allows_install_script p name =
     (if list_ex (\<lambda>a. eq_ignore_ascii_case a name) (allow_install_scripts p) then True
      else \<not> block_install_scripts p)"

definition max_risk :: "oath_policy \<Rightarrow> risk_level" where
  "max_risk p =
     (let s = lowercase (max_risk_level p)
      in if s = ''clean'' then Clean
         else if s = ''info'' then Info
         else if s = ''low'' then Low
         else if s = ''medium'' then Medium
         else if s = ''high'' then High
         else if s = ''critical'' then Critical
         else Critical)"

lemma set_push_new [simp]: "set (push_new x xs) = insert x (set xs)"
  by (auto simp: push_new_def)

lemma set_fold_push_new [simp]: "set (fold push_new ys xs) = set xs \<union> set ys"
  by (induction ys arbitrary: xs) auto

lemma distinct_fold_push_new: "distinct xs \<Longrightarrow> distinct (fold push_new ys xs)"
  by (induction ys arbitrary: xs) (auto simp: push_new_def)

text \<open>The layers a load reads, in order: the global file, then the project file.\<close>

definition policy_layers :: "(string \<Rightarrow> string option) \<Rightarrow> (string list \<Rightarrow> string option) \<Rightarrow> (string \<Rightarrow> raw_policy option) \<Rightarrow> raw_policy list" where
  "policy_layers env read_to_string toml =
     List.map_filter (\<lambda>path. Option.bind (read_to_string path) toml)
       ((case home_dir env of None \<Rightarrow> [] | Some home \<Rightarrow> [[home, ''.oath'', ''policy.toml'']]) @ [[''oath-policy.toml'']])"

fun last_some :: "'a option list \<Rightarrow> 'a \<Rightarrow> 'a" where
  "last_some [] d = d"
| "last_some (x # xs) d = last_some xs (case x of None \<Rightarrow> d | Some v \<Rightarrow> v)"

lemma policy_layer_fold:
  "policy_layer rd toml path p = fold policy_merge (List.map_filter (\<lambda>path. Option.bind (rd path) toml) [path]) p"
  by (simp add: policy_layer_def map_filter_simps split: option.splits)

lemma policy_load_fold: "policy_load env rd toml = fold policy_merge (policy_layers env rd toml) default_policy"
  by (auto simp: policy_load_def policy_layers_def Let_def policy_layer_fold map_filter_simps split: option.splits)

lemma fold_merge_fields:
  "set (banned_packages (fold policy_merge ls p)) = set (banned_packages p) \<union> (\<Union>l\<in>set ls. set (raw_banned_packages l))"
  "set (banned_licenses (fold policy_merge ls p)) = set (banned_licenses p) \<union> (\<Union>l\<in>set ls. set (raw_banned_licenses l))"
  "set (require_approval (fold policy_merge ls p)) = set (require_approval p) \<union> (\<Union>l\<in>set ls. set (raw_require_approval l))"
  "set (allow_install_scripts (fold policy_merge ls p)) = set (allow_install_scripts p) \<union> (\<Union>l\<in>set ls. set (raw_allow_install_scripts l))"
  "block_install_scripts (fold policy_merge ls p) = last_some (map raw_block_install_scripts ls) (block_install_scripts p)"
  "max_risk_level (fold policy_merge ls p) = last_some (map raw_max_risk_level ls) (max_risk_level p)"
  by (induction ls arbitrary: p) (auto simp: policy_merge_def)

text \<open>
  C24: what the loaded policy decides in terms of the layers that could be read and parsed: a name
  is banned, under any letter case, exactly when one of the layers bans it, so no layer can lift
  the other's ban; an install script passes exactly when a layer allows the package or the last layer that
  sets the block, project over global, leaves it off.
\<close>

theorem policy_load_decides:
  "(is_package_banned (policy_load env rd toml) name
     = (\<exists>l\<in>set (policy_layers env rd toml). \<exists>b\<in>set (raw_banned_packages l). eq_ignore_ascii_case b name))
   \<and> (is_license_banned (policy_load env rd toml) license
     = (\<exists>l\<in>set (policy_layers env rd toml). \<exists>b\<in>set (raw_banned_licenses l). eq_ignore_ascii_case b license))
   \<and> (allows_install_script (policy_load env rd toml) name
     = ((\<exists>l\<in>set (policy_layers env rd toml). \<exists>a\<in>set (raw_allow_install_scripts l). eq_ignore_ascii_case a name)
        \<or> last_some (map raw_block_install_scripts (policy_layers env rd toml)) False = False))
   \<and> max_risk_level (policy_load env rd toml)
     = last_some (map raw_max_risk_level (policy_layers env rd toml)) ''critical''"
  by (auto simp: policy_load_fold is_package_banned_def is_license_banned_def allows_install_script_def
      fold_merge_fields list_ex_iff default_policy_def)

lemma lowercase_risk: "lowercase (display_risk r) = display_risk r"
  by (cases r) (simp_all add: lowercase_def to_ascii_lowercase_def byte_def)

lemma max_risk_cases:
  "max_risk p = r \<longleftrightarrow> lowercase (max_risk_level p) = display_risk r
     \<or> (r = Critical \<and> lowercase (max_risk_level p) \<notin> range display_risk)"
proof -
  have "UNIV = {Clean, Info, Low, Medium, High, Critical}"
    using risk_level.exhaust by blast
  then have "range display_risk = {''clean'', ''info'', ''low'', ''medium'', ''high'', ''critical''}"
    by (metis (no_types) display_risk.simps image_empty image_insert)
  then show ?thesis by (cases r) (auto simp: max_risk_def Let_def)
qed

text \<open>
  The risk limit a policy file spells is the one it means: a level printed and read back as the
  limit, in any letter case, is that level, and a word that names no level gives the most permissive one.
\<close>

theorem max_risk_parses:
  "(eq_ignore_ascii_case (max_risk_level p) (display_risk r) \<longrightarrow> max_risk p = r)
   \<and> ((\<forall>r'. \<not> eq_ignore_ascii_case (max_risk_level p) (display_risk r')) \<longrightarrow> max_risk p = Critical)"
  by (auto simp: max_risk_cases eq_ignore_ascii_case_def lowercase_risk)

theorem max_risk_parses_witness:
  "max_risk (default_policy\<lparr>max_risk_level := ''HIGH''\<rparr>) = High"
proof -
  have "eq_ignore_ascii_case ''HIGH'' ''high''" by code_simp
  then show ?thesis using max_risk_parses[of "default_policy\<lparr>max_risk_level := ''HIGH''\<rparr>" High] by simp
qed

end
