(* ===== verification/Transparency.thy ===== *)
theory Transparency
  imports Core_Integrity
begin

text \<open>
  The local install log (\<open>crates/oath-transparency/src/lib.rs\<close>): a JSONL file of hash-chained
  entries, its verifier and its checkpoints. The state is the content of the log file and of the checkpoint
  file, absent or UTF-8 text; the clock is an argument. The JSON encoders and the decoder are those of
  serde and are parameters, collected in a record; SHA-256 is a parameter as in \<open>Core_Integrity\<close>.
  File operations succeed in the model: what is modelled is what they read and write.
\<close>

section \<open>Data\<close>

definition GENESIS_HASH :: string where
  "GENESIS_HASH = ''GENESIS''"

record package_entry =
  pe_name :: string
  pe_version :: string
  pe_integrity :: "string option"

record hash_payload =
  hp_ts :: nat
  hp_project :: string
  hp_pkg_count :: nat
  hp_packages :: "package_entry list"
  hp_duration_ms :: nat

record transparency_entry =
  te_ts :: nat
  te_project :: string
  te_pkg_count :: nat
  te_packages :: "package_entry list"
  te_duration_ms :: nat
  te_previous_hash :: "string option"
  te_entry_hash :: "string option"

record transparency_checkpoint =
  cp_version :: nat
  cp_entry_count :: nat
  cp_merkle_root :: string
  cp_latest_entry_hash :: "string option"

record serde_json =
  payload_json :: "hash_payload \<Rightarrow> string"
  entry_json :: "transparency_entry \<Rightarrow> string"
  entry_parse :: "string \<Rightarrow> transparency_entry option"
  checkpoint_json :: "transparency_checkpoint \<Rightarrow> string"

record log_files =
  log_content :: "string option"
  checkpoint_content :: "string option"

datatype chain_error = Previous_hash_mismatch | Entry_hash_mismatch

section \<open>Operations\<close>

definition hash_entry :: "serde_json \<Rightarrow> (string \<Rightarrow> string) \<Rightarrow> string \<Rightarrow> hash_payload \<Rightarrow> string" where
  "hash_entry js sha256 previous payload = sha256_hex sha256 (previous @ payload_json js payload)"

text \<open>One turn of the loop of \<open>merkle_root\<close>; an odd level repeats its last hash.\<close>

fun hash_pairs :: "(string \<Rightarrow> string) \<Rightarrow> string list \<Rightarrow> string list" where
  "hash_pairs sha256 (a # b # rest) = sha256_hex sha256 (a @ b) # hash_pairs sha256 rest"
| "hash_pairs sha256 [a] = [sha256_hex sha256 (a @ a)]"
| "hash_pairs sha256 [] = []"

definition merkle_level :: "(string \<Rightarrow> string) \<Rightarrow> string list \<Rightarrow> string list" where
  "merkle_level sha256 hashes =
     hash_pairs sha256 (if length hashes mod 2 = 1 then hashes @ [last hashes] else hashes)"

lemma length_hash_pairs: "length (hash_pairs sha256 hs) = (length hs + 1) div 2"
  by (induction sha256 hs rule: hash_pairs.induct) auto

lemma length_merkle_level [simp]: "length (merkle_level sha256 hs) = (length hs + 1) div 2"
proof (cases "length hs mod 2 = 1")
  case True
  then have "(length hs + 2) div 2 = (length hs + 1) div 2" by presburger
  then show ?thesis using True by (simp add: merkle_level_def length_hash_pairs)
qed (simp add: merkle_level_def length_hash_pairs)

function log_merkle_loop :: "(string \<Rightarrow> string) \<Rightarrow> string list \<Rightarrow> string list" where
  "log_merkle_loop sha256 hashes =
     (if length hashes > 1 then log_merkle_loop sha256 (merkle_level sha256 hashes) else hashes)"
  by pat_completeness auto
termination by (relation "measure (\<lambda>(_, hs). length hs)") auto

declare log_merkle_loop.simps [simp del]

definition log_merkle_root :: "(string \<Rightarrow> string) \<Rightarrow> string list \<Rightarrow> string" where
  "log_merkle_root sha256 hashes =
     (if hashes = [] then sha256_hex sha256 [] else log_merkle_loop sha256 hashes ! 0)"

text \<open>
  \<open>str::lines\<close>: pieces between line feeds, a final empty piece dropped, a carriage return before the line
  feed dropped. A line of white space only is skipped before it is parsed.
\<close>

definition strip_cr :: "string \<Rightarrow> string" where
  "strip_cr l = (if l \<noteq> [] \<and> last l = CHR 0x0D then butlast l else l)"

definition str_lines :: "string \<Rightarrow> string list" where
  "str_lines s =
     (let ps = split_char (CHR 0x0A) s
      in map strip_cr (butlast ps) @ (if last ps = [] then [] else [last ps]))"

definition is_white :: "char \<Rightarrow> bool" where
  "is_white c \<longleftrightarrow> byte c = 32 \<or> (9 \<le> byte c \<and> byte c \<le> 13)"

definition log_read_all :: "serde_json \<Rightarrow> log_files \<Rightarrow> transparency_entry list" where
  "log_read_all js fs =
     (case log_content fs of
        None \<Rightarrow> []
      | Some content \<Rightarrow> List.map_filter (entry_parse js) (filter (\<lambda>l. \<not> list_all is_white l) (str_lines content)))"

definition log_read_recent :: "serde_json \<Rightarrow> log_files \<Rightarrow> nat \<Rightarrow> transparency_entry list" where
  "log_read_recent js fs tail_len =
     (let entries = log_read_all js fs; len = length entries
      in if len \<le> tail_len then entries else drop (len - tail_len) entries)"

definition find_map_last_hash :: "transparency_entry list \<Rightarrow> string option" where
  "find_map_last_hash entries =
     (case List.map_filter te_entry_hash (rev entries) of [] \<Rightarrow> None | h # _ \<Rightarrow> Some h)"

definition make_entry ::
  "serde_json \<Rightarrow> (string \<Rightarrow> string) \<Rightarrow> nat \<Rightarrow> string \<Rightarrow> (string \<times> string \<times> string option) list \<Rightarrow> nat \<Rightarrow>
   transparency_entry list \<Rightarrow> transparency_entry" where
  "make_entry js sha256 ts project packages duration_ms existing =
     (let pkg_entries = map (\<lambda>(name, version, integrity).
            \<lparr>pe_name = name, pe_version = version, pe_integrity = integrity\<rparr>) packages;
          previous_hash = (case find_map_last_hash existing of None \<Rightarrow> GENESIS_HASH | Some h \<Rightarrow> h);
          payload = \<lparr>hp_ts = ts, hp_project = project, hp_pkg_count = length pkg_entries,
                      hp_packages = pkg_entries, hp_duration_ms = duration_ms\<rparr>
      in \<lparr>te_ts = ts, te_project = project, te_pkg_count = length pkg_entries, te_packages = pkg_entries,
           te_duration_ms = duration_ms, te_previous_hash = Some previous_hash,
           te_entry_hash = Some (hash_entry js sha256 previous_hash payload)\<rparr>)"

definition log_append ::
  "serde_json \<Rightarrow> (string \<Rightarrow> string) \<Rightarrow> nat \<Rightarrow> string \<Rightarrow> (string \<times> string \<times> string option) list \<Rightarrow> nat \<Rightarrow>
   log_files \<Rightarrow> log_files" where
  "log_append js sha256 now project packages duration_ms fs =
     (let existing = log_read_all js fs;
          line = entry_json js (make_entry js sha256 now project packages duration_ms existing);
          before = (case log_content fs of None \<Rightarrow> [] | Some c \<Rightarrow> c)
      in fs\<lparr>log_content := Some (before @ line @ [CHR 0x0A])\<rparr>)"

definition entry_payload :: "transparency_entry \<Rightarrow> hash_payload" where
  "entry_payload e = \<lparr>hp_ts = te_ts e, hp_project = te_project e, hp_pkg_count = te_pkg_count e,
     hp_packages = te_packages e, hp_duration_ms = te_duration_ms e\<rparr>"

fun verify_entries ::
  "serde_json \<Rightarrow> (string \<Rightarrow> string) \<Rightarrow> string \<Rightarrow> transparency_entry list \<Rightarrow> (chain_error, string) result" where
  "verify_entries js sha256 previous [] = Inr previous"
| "verify_entries js sha256 previous (e # es) =
     bind_result (ensure (te_previous_hash e = Some previous) Previous_hash_mismatch) (\<lambda>_.
       let expected = hash_entry js sha256 previous (entry_payload e)
       in bind_result (ensure (te_entry_hash e = Some expected) Entry_hash_mismatch) (\<lambda>_.
            verify_entries js sha256 expected es))"

definition chained_entries :: "serde_json \<Rightarrow> log_files \<Rightarrow> transparency_entry list" where
  "chained_entries js fs = filter (\<lambda>e. te_entry_hash e \<noteq> None) (log_read_all js fs)"

definition verify_chain :: "serde_json \<Rightarrow> (string \<Rightarrow> string) \<Rightarrow> log_files \<Rightarrow> (chain_error, unit) result" where
  "verify_chain js sha256 fs =
     bind_result (verify_entries js sha256 GENESIS_HASH (chained_entries js fs)) (\<lambda>_. Inr ())"

definition checkpoint ::
  "serde_json \<Rightarrow> (string \<Rightarrow> string) \<Rightarrow> log_files \<Rightarrow> (chain_error, transparency_checkpoint \<times> log_files) result" where
  "checkpoint js sha256 fs =
     bind_result (verify_chain js sha256 fs) (\<lambda>_.
       let hashes = List.map_filter te_entry_hash (log_read_all js fs);
           cp = \<lparr>cp_version = 1, cp_entry_count = length hashes, cp_merkle_root = log_merkle_root sha256 hashes,
                  cp_latest_entry_hash = (if hashes = [] then None else Some (last hashes))\<rparr>
       in Inr (cp, fs\<lparr>checkpoint_content := Some (checkpoint_json js cp)\<rparr>))"

section \<open>The chain\<close>

lemma map_filter_hash_chained:
  "List.map_filter te_entry_hash es = map (\<lambda>e. the (te_entry_hash e)) (filter (\<lambda>e. te_entry_hash e \<noteq> None) es)"
  by (induction es) (auto simp: map_filter_simps split: option.splits)

lemma find_map_last_hash_chained:
  "(case find_map_last_hash es of None \<Rightarrow> g | Some h \<Rightarrow> h)
   = (let cs = filter (\<lambda>e. te_entry_hash e \<noteq> None) es in if cs = [] then g else the (te_entry_hash (last cs)))"
  unfolding find_map_last_hash_def map_filter_hash_chained Let_def rev_filter[symmetric]
  by (cases "filter (\<lambda>e. te_entry_hash e \<noteq> None) es" rule: rev_cases) auto

lemma verify_entries_append:
  "verify_entries js sha p (xs @ ys) = bind_result (verify_entries js sha p xs) (\<lambda>q. verify_entries js sha q ys)"
  by (induction xs arbitrary: p) (auto simp: bind_result_def ensure_def Let_def split: sum.splits)

lemma verify_entries_last:
  "verify_entries js sha p es = Inr q \<Longrightarrow> q = (if es = [] then p else the (te_entry_hash (last es)))"
  by (induction es arbitrary: p) (auto simp: bind_result_Inr_iff Let_def)

lemma verify_chain_iff:
  "verify_chain js sha fs = Inr () \<longleftrightarrow> (\<exists>q. verify_entries js sha GENESIS_HASH (chained_entries js fs) = Inr q)"
  by (auto simp: verify_chain_def bind_result_Inr_iff)

text \<open>A line appended to text that ends in a line feed is read as one more line.\<close>

definition complete_lines :: "string \<Rightarrow> bool" where
  "complete_lines s \<longleftrightarrow> s = [] \<or> last s = CHR 0x0A"

lemma split_char_last_nl: "split_char c (s @ [c]) = split_char c s @ [[]]"
  by (induction s) (auto split: list.splits)

lemma split_char_mid: "split_char c (a @ c # b) = split_char c a @ split_char c b"
  by (induction a) (auto split: list.splits)

lemma str_lines_append:
  assumes "complete_lines s" and "CHR 0x0A \<notin> set l" and "l \<noteq> []" and "last l \<noteq> CHR 0x0D"
  shows "str_lines (s @ l @ [CHR 0x0A]) = str_lines s @ [l]"
proof (cases "s = []")
  case True
  then show ?thesis using assms by (simp add: str_lines_def Let_def split_char_last_nl split_char_notin strip_cr_def)
next
  case False
  then obtain t where s: "s = t @ [CHR 0x0A]" using assms(1) by (metis append_butlast_last_id complete_lines_def)
  have "split_char (CHR 0x0A) (s @ l @ [CHR 0x0A]) = split_char (CHR 0x0A) t @ [l, []]"
    using assms(2) by (simp add: s split_char_mid split_char_last_nl split_char_notin)
  then show ?thesis
    using assms by (simp add: s str_lines_def Let_def split_char_last_nl strip_cr_def butlast_append)
qed

text \<open>What serde promises of the entries it prints: one line, not blank, and read back as it was.\<close>

definition entry_json_ok :: "serde_json \<Rightarrow> transparency_entry \<Rightarrow> bool" where
  "entry_json_ok js e \<longleftrightarrow> entry_parse js (entry_json js e) = Some e \<and> CHR 0x0A \<notin> set (entry_json js e)
     \<and> \<not> list_all is_white (entry_json js e) \<and> last (entry_json js e) = CHR ''}''"

lemma log_read_all_append:
  assumes "complete_lines (case log_content fs of None \<Rightarrow> [] | Some c \<Rightarrow> c)" and "entry_json_ok js e"
  shows "log_read_all js (fs\<lparr>log_content := Some ((case log_content fs of None \<Rightarrow> [] | Some c \<Rightarrow> c) @ entry_json js e @ [CHR 0x0A])\<rparr>)
    = log_read_all js fs @ [e]"
proof -
  have l: "CHR 0x0A \<notin> set (entry_json js e)" "entry_json js e \<noteq> []" "last (entry_json js e) \<noteq> CHR 0x0D"
    using assms(2) by (auto simp: entry_json_ok_def)
  have e0: "str_lines [] = []" by (simp add: str_lines_def)
  show ?thesis
    using assms str_lines_append[OF assms(1) l] e0
    by (cases "log_content fs") (auto simp: log_read_all_def entry_json_ok_def map_filter_def)
qed

lemma make_entry_hash: "te_entry_hash (make_entry js sha now project pkgs d es) \<noteq> None"
  by (simp add: make_entry_def Let_def)

text \<open>A small serde and hash the conditions hold for.\<close>

definition pad32 :: "string \<Rightarrow> string" where
  "pad32 d = take 32 (d @ replicate 32 (CHR ''M''))"

definition sample_json0 :: serde_json where
  "sample_json0 = \<lparr>payload_json = (\<lambda>p. ''{'' @ hp_project p @ ''}''), entry_json = (\<lambda>e. ''{'' @ te_project e @ ''}''),
     entry_parse = (\<lambda>l. None), checkpoint_json = (\<lambda>c. ''{}'')\<rparr>"

definition sample_entry :: transparency_entry where
  "sample_entry = make_entry sample_json0 pad32 7 ''p'' [(''a'', ''1.0.0'', None)] 10 []"

definition sample_json :: serde_json where
  "sample_json = sample_json0\<lparr>entry_parse := (\<lambda>l. if l = ''{p}'' then Some sample_entry else None)\<rparr>"

lemma sample_entry_make: "make_entry sample_json pad32 7 ''p'' [(''a'', ''1.0.0'', None)] 10 [] = sample_entry"
  by (simp add: sample_entry_def make_entry_def sample_json_def hash_entry_def Let_def)

lemma length_pad32 [simp]: "length (pad32 d) = 32"
  by (simp add: pad32_def)

lemma sample_white: "\<not> list_all is_white ''{p}''" "strip_cr ''{p}'' = ''{p}''"
  by (simp_all add: is_white_def byte_def strip_cr_def)

lemma sample_read:
  "log_read_all sample_json \<lparr>log_content = Some (''{p}'' @ [CHR 0x0A]), checkpoint_content = None\<rparr> = [sample_entry]"
  "log_read_all sample_json \<lparr>log_content = Some (''{p}'' @ [CHR 0x0A, CHR 0x0A]), checkpoint_content = None\<rparr> = [sample_entry]"
  by (simp_all add: log_read_all_def str_lines_def Let_def sample_white strip_cr_def map_filter_simps sample_json_def is_white_def byte_def)

text \<open>
  C25: logging an install keeps the chain valid and only appends: when the log verifies and its last
  line is complete, the entries read back afterwards are the earlier ones followed by the new
  one, the chain verifies again, and the new entry's previous hash is the last hash before. The conditions on
  serde are about the entry that is written: it occupies one non-blank line and parses back to itself.
\<close>

theorem log_append_extends_chain:
  assumes "verify_chain js sha fs = Inr ()"
    and "complete_lines (case log_content fs of None \<Rightarrow> [] | Some c \<Rightarrow> c)"
    and "entry_json_ok js (make_entry js sha now project pkgs d (log_read_all js fs))"
  shows "verify_chain js sha (log_append js sha now project pkgs d fs) = Inr ()
    \<and> log_read_all js (log_append js sha now project pkgs d fs)
        = log_read_all js fs @ [make_entry js sha now project pkgs d (log_read_all js fs)]
    \<and> complete_lines (the (log_content (log_append js sha now project pkgs d fs)))"
proof -
  define e where "e = make_entry js sha now project pkgs d (log_read_all js fs)"
  have app: "log_append js sha now project pkgs d fs
      = fs\<lparr>log_content := Some ((case log_content fs of None \<Rightarrow> [] | Some c \<Rightarrow> c) @ entry_json js e @ [CHR 0x0A])\<rparr>"
    by (simp add: log_append_def e_def Let_def)
  have ok: "entry_json_ok js e" using assms(3) by (simp add: e_def)
  have r: "log_read_all js (log_append js sha now project pkgs d fs) = log_read_all js fs @ [e]"
    unfolding app by (rule log_read_all_append[OF assms(2) ok])
  then have c: "chained_entries js (log_append js sha now project pkgs d fs) = chained_entries js fs @ [e]"
    using make_entry_hash by (simp add: chained_entries_def e_def)
  obtain q where q: "verify_entries js sha GENESIS_HASH (chained_entries js fs) = Inr q"
    using assms(1) by (auto simp: verify_chain_iff)
  have "q = (case find_map_last_hash (log_read_all js fs) of None \<Rightarrow> GENESIS_HASH | Some h \<Rightarrow> h)"
    using verify_entries_last[OF q] unfolding find_map_last_hash_chained chained_entries_def Let_def by simp
  then have "verify_entries js sha q [e] = Inr (the (te_entry_hash e))"
    by (simp add: e_def make_entry_def Let_def entry_payload_def)
  then have "verify_chain js sha (log_append js sha now project pkgs d fs) = Inr ()"
    using q unfolding verify_chain_iff c verify_entries_append by simp
  then show ?thesis using r unfolding e_def[symmetric] by (simp add: app complete_lines_def)
qed

theorem log_append_extends_chain_witness:
  "verify_chain sample_json pad32
     (log_append sample_json pad32 7 ''p'' [(''a'', ''1.0.0'', None)] 10 \<lparr>log_content = None, checkpoint_content = None\<rparr>) = Inr ()"
proof -
  have r: "log_read_all sample_json \<lparr>log_content = None, checkpoint_content = None\<rparr> = []"
    by (simp add: log_read_all_def)
  have "verify_chain sample_json pad32 \<lparr>log_content = None, checkpoint_content = None\<rparr> = Inr ()"
    by (simp add: verify_chain_def chained_entries_def r)
  moreover have "entry_json_ok sample_json sample_entry"
    by (simp add: entry_json_ok_def sample_json_def sample_json0_def sample_entry_def make_entry_def Let_def is_white_def byte_def)
  ultimately show ?thesis
    using log_append_extends_chain[of sample_json pad32 "\<lparr>log_content = None, checkpoint_content = None\<rparr>" 7 "''p''"
        "[(''a'', ''1.0.0'', None)]" 10]
    by (simp add: complete_lines_def r sample_entry_make)
qed

section \<open>Tamper evidence\<close>

text \<open>The strings the verifier hashes for a chain.\<close>

fun chain_queries :: "serde_json \<Rightarrow> (string \<Rightarrow> string) \<Rightarrow> string \<Rightarrow> transparency_entry list \<Rightarrow> string set" where
  "chain_queries js sha p [] = {}"
| "chain_queries js sha p (e # es) = insert (p @ payload_json js (entry_payload e))
     (chain_queries js sha (hash_entry js sha p (entry_payload e)) es)"

lemma chain_queries_append:
  "verify_entries js sha p xs = Inr q \<Longrightarrow>
   chain_queries js sha p (xs @ ys) = chain_queries js sha p xs \<union> chain_queries js sha q ys"
  by (induction xs arbitrary: p) (auto simp: bind_result_Inr_iff Let_def)

lemma hex_not_G: "CHR ''G'' \<notin> set (hex_encode s)"
proof -
  have h: "hex_digit n \<noteq> CHR ''G''" if "n < 16" for n
  proof
    assume "hex_digit n = CHR ''G''"
    then have "of_char (hex_digit n) = (71 :: nat)" by simp
    then show False using that by (simp add: hex_digit_def split: if_splits)
  qed
  have "CHR ''G'' \<notin> set (hex_byte c)" for c
    using h[of "byte c div 16"] h[of "byte c mod 16"] by (auto simp: hex_byte_def less_mult_imp_div_less)
  then show ?thesis by (induction s) auto
qed

lemma hash_entry_shape:
  assumes "\<And>d. length (sha d) = 32"
  shows "length (hash_entry js sha p x) = 64" "hash_entry js sha p x \<noteq> GENESIS_HASH @ s"
proof -
  show "length (hash_entry js sha p x) = 64" by (simp add: hash_entry_def sha256_hex_def assms)
  have "CHR ''G'' \<notin> set (hash_entry js sha p x)" unfolding hash_entry_def sha256_hex_def by (rule hex_not_G)
  then show "hash_entry js sha p x \<noteq> GENESIS_HASH @ s" by (auto simp: GENESIS_HASH_def)
qed

text \<open>The value a verified chain ends with is the genesis word or a digest.\<close>

lemma verify_entries_result:
  "verify_entries js sha p es = Inr q \<Longrightarrow> (es = [] \<and> q = p) \<or> (\<exists>r x. q = hash_entry js sha r x)"
proof (induction es arbitrary: p)
  case (Cons e es)
  then show ?case by (cases es) (auto simp: bind_result_Inr_iff Let_def)
qed simp

lemma link_inputs_differ:
  assumes "\<And>d. length (sha d) = 32"
  shows "hash_entry js sha r x @ s \<noteq> GENESIS_HASH @ t"
proof
  assume "hash_entry js sha r x @ s = GENESIS_HASH @ t"
  then have "take 64 (hash_entry js sha r x @ s) = take 64 (GENESIS_HASH @ t)" by simp
  then have "hash_entry js sha r x = GENESIS_HASH @ take 57 t"
    using hash_entry_shape(1)[of sha, OF assms] by (simp add: GENESIS_HASH_def)
  then show False using hash_entry_shape(2)[of sha, OF assms] by metis
qed

text \<open>Two chains that end with the same value have the same links.\<close>

lemma chain_unique:
  assumes len: "\<And>d. length (sha d) = 32"
    and "verify_entries js sha GENESIS_HASH es = Inr q" "verify_entries js sha GENESIS_HASH fs = Inr q"
    and inj: "inj_on sha (chain_queries js sha GENESIS_HASH es \<union> chain_queries js sha GENESIS_HASH fs)"
    and injp: "inj_on (payload_json js) (entry_payload ` (set es \<union> set fs))"
  shows "map entry_payload es = map entry_payload fs \<and> map te_previous_hash es = map te_previous_hash fs
    \<and> map te_entry_hash es = map te_entry_hash fs"
  using assms(2-5)
proof (induction es arbitrary: fs q rule: rev_induct)
  case Nil
  then have "q = GENESIS_HASH" by simp
  then have "fs = []"
    using verify_entries_result[OF Nil.prems(2)] hash_entry_shape(2)[of sha _ _ _ "[]", OF len] by (metis append_Nil2)
  then show ?case by simp
next
  case (snoc e es)
  obtain p where p: "verify_entries js sha GENESIS_HASH es = Inr p" "te_previous_hash e = Some p"
    "te_entry_hash e = Some q" "q = hash_entry js sha p (entry_payload e)"
    using snoc.prems(1) by (auto simp: verify_entries_append bind_result_Inr_iff Let_def)
  have "fs \<noteq> []" using snoc.prems(2) p(4) hash_entry_shape(2)[of sha _ _ _ "[]", OF len]
    by (metis append_Nil2 sum.inject(2) verify_entries.simps(1))
  then obtain f gs where fs: "fs = gs @ [f]" by (metis rev_exhaust)
  obtain r where r: "verify_entries js sha GENESIS_HASH gs = Inr r" "te_previous_hash f = Some r"
    "te_entry_hash f = Some q" "q = hash_entry js sha r (entry_payload f)"
    using snoc.prems(2) fs by (auto simp: verify_entries_append bind_result_Inr_iff Let_def)
  have in1: "p @ payload_json js (entry_payload e) \<in> chain_queries js sha GENESIS_HASH (es @ [e])"
    using chain_queries_append[OF p(1), of "[e]"] by simp
  have in2: "r @ payload_json js (entry_payload f) \<in> chain_queries js sha GENESIS_HASH fs"
    using chain_queries_append[OF r(1), of "[f]"] fs by simp
  have "sha256_hex sha (p @ payload_json js (entry_payload e)) = sha256_hex sha (r @ payload_json js (entry_payload f))"
    using p(4) r(4) by (simp add: hash_entry_def)
  then have "sha (p @ payload_json js (entry_payload e)) = sha (r @ payload_json js (entry_payload f))"
    unfolding sha256_hex_def by (rule hex_encode_inj)
  then have eq: "p @ payload_json js (entry_payload e) = r @ payload_json js (entry_payload f)"
    by (rule inj_onD[OF snoc.prems(3)]) (use in1 in2 in blast)+
  have shapes: "p = GENESIS_HASH \<or> (\<exists>s x. p = hash_entry js sha s x)" "r = GENESIS_HASH \<or> (\<exists>s x. r = hash_entry js sha s x)"
    using verify_entries_result[OF p(1)] verify_entries_result[OF r(1)] by blast+
  have "length p = length r"
    using shapes eq link_inputs_differ[of sha, OF len] hash_entry_shape(1)[of sha, OF len] by metis
  then have pr: "p = r" "payload_json js (entry_payload e) = payload_json js (entry_payload f)" using eq by simp_all
  have pay: "entry_payload e = entry_payload f"
    by (rule inj_onD[OF snoc.prems(4) pr(2)]) (simp_all add: fs)
  have "inj_on sha (chain_queries js sha GENESIS_HASH es \<union> chain_queries js sha GENESIS_HASH gs)"
    by (rule inj_on_subset[OF snoc.prems(3)])
      (use chain_queries_append[OF p(1), of "[e]"] chain_queries_append[OF r(1), of "[f]"] fs in auto)
  moreover have "inj_on (payload_json js) (entry_payload ` (set es \<union> set gs))"
    by (rule inj_on_subset[OF snoc.prems(4)]) (auto simp: fs)
  ultimately show ?case
    using snoc.IH[OF p(1), of gs] r(1) pr(1) pay fs p r by simp
qed

lemma entry_eqI:
  "entry_payload e = entry_payload f \<Longrightarrow> te_previous_hash e = te_previous_hash f \<Longrightarrow> te_entry_hash e = te_entry_hash f
   \<Longrightarrow> e = (f :: transparency_entry)"
  by (simp add: entry_payload_def)

lemma entries_eqI:
  assumes "map entry_payload es = map entry_payload fs" "map te_previous_hash es = map te_previous_hash fs"
    "map te_entry_hash es = map te_entry_hash fs"
  shows "es = fs"
  using assms
proof (induction es arbitrary: fs)
  case (Cons e es)
  then obtain f gs where "fs = f # gs" by (cases fs) auto
  then show ?case using Cons entry_eqI[of e f] by auto
qed simp

lemma checkpoint_latest:
  assumes "checkpoint js sha fs = Inr (cp, fs')"
  shows "\<exists>q. verify_entries js sha GENESIS_HASH (chained_entries js fs) = Inr q
    \<and> cp_latest_entry_hash cp = (if chained_entries js fs = [] then None else Some q)"
proof -
  obtain q where q: "verify_entries js sha GENESIS_HASH (chained_entries js fs) = Inr q"
    using assms by (auto simp: checkpoint_def bind_result_Inr_iff verify_chain_iff)
  have "List.map_filter te_entry_hash (log_read_all js fs) = map (\<lambda>e. the (te_entry_hash e)) (chained_entries js fs)"
    unfolding chained_entries_def by (rule map_filter_hash_chained)
  then show ?thesis
    using assms q verify_entries_last[OF q] by (auto simp: checkpoint_def bind_result_Inr_iff Let_def last_map)
qed

text \<open>
  C26: the latest hash of a checkpoint commits to the whole chain: two logs whose checkpoints name
  the same latest entry hash have the same chained entries, all fields included, whatever their lengths, unless SHA-256
  collides on two of the strings the verifier hashed or serde prints two of the payloads alike.
\<close>

theorem checkpoint_binds_chain:
  assumes "\<And>d. length (sha d) = 32"
    and "checkpoint js sha fs = Inr (cp, fs')" and "checkpoint js sha gs = Inr (cp', gs')"
    and "inj_on sha (chain_queries js sha GENESIS_HASH (chained_entries js fs)
                     \<union> chain_queries js sha GENESIS_HASH (chained_entries js gs))"
    and "inj_on (payload_json js) (entry_payload ` (set (chained_entries js fs) \<union> set (chained_entries js gs)))"
    and "cp_latest_entry_hash cp = cp_latest_entry_hash cp'"
  shows "chained_entries js fs = chained_entries js gs"
proof -
  obtain q r where q: "verify_entries js sha GENESIS_HASH (chained_entries js fs) = Inr q"
      "cp_latest_entry_hash cp = (if chained_entries js fs = [] then None else Some q)"
    and r: "verify_entries js sha GENESIS_HASH (chained_entries js gs) = Inr r"
      "cp_latest_entry_hash cp' = (if chained_entries js gs = [] then None else Some r)"
    using checkpoint_latest[OF assms(2)] checkpoint_latest[OF assms(3)] by blast
  show ?thesis
  proof (cases "chained_entries js fs = []")
    case True
    then show ?thesis using q(2) r(2) assms(6) by (simp split: if_splits)
  next
    case False
    then have "r = q" using q(2) r(2) assms(6) by (simp split: if_splits)
    then show ?thesis using chain_unique[OF assms(1) q(1) _ assms(4,5)] r(1) entries_eqI by blast
  qed
qed

theorem checkpoint_binds_chain_witness:
  "chained_entries sample_json \<lparr>log_content = Some (''{p}'' @ [CHR 0x0A]), checkpoint_content = None\<rparr>
   = chained_entries sample_json \<lparr>log_content = Some (''{p}'' @ [CHR 0x0A, CHR 0x0A]), checkpoint_content = None\<rparr>"
proof -
  let ?f = "\<lparr>log_content = Some (''{p}'' @ [CHR 0x0A]), checkpoint_content = None\<rparr>"
  let ?g = "\<lparr>log_content = Some (''{p}'' @ [CHR 0x0A, CHR 0x0A]), checkpoint_content = None\<rparr>"
  have h: "te_entry_hash sample_entry = Some (hash_entry sample_json pad32 GENESIS_HASH (entry_payload sample_entry))"
    "te_previous_hash sample_entry = Some GENESIS_HASH"
    by (simp_all add: sample_entry_def make_entry_def Let_def entry_payload_def hash_entry_def sample_json_def
        find_map_last_hash_def map_filter_simps)
  have c: "chained_entries sample_json ?f = [sample_entry]" "chained_entries sample_json ?g = [sample_entry]"
    using h by (simp_all only: chained_entries_def sample_read) simp_all
  have cp: "\<exists>cp fs'. checkpoint sample_json pad32 fs = Inr (cp, fs')
      \<and> cp_latest_entry_hash cp = te_entry_hash sample_entry"
    if "chained_entries sample_json fs = [sample_entry]" "log_read_all sample_json fs = [sample_entry]" for fs
    using h that by (simp add: checkpoint_def verify_chain_def map_filter_simps Let_def)
  obtain cp cp' f' g' where v: "checkpoint sample_json pad32 ?f = Inr (cp, f')" "checkpoint sample_json pad32 ?g = Inr (cp', g')"
    "cp_latest_entry_hash cp = cp_latest_entry_hash cp'"
    using cp[OF c(1) sample_read(1)] cp[OF c(2) sample_read(2)] by metis
  show ?thesis
    by (rule checkpoint_binds_chain[OF length_pad32 v(1,2) _ _ v(3)]) (simp_all only: c, simp_all)
qed

section \<open>The checkpoint's root\<close>

definition pad_level :: "string list \<Rightarrow> string list" where
  "pad_level hs = (if length hs mod 2 = 1 then hs @ [last hs] else hs)"

fun pair_inputs :: "string list \<Rightarrow> string list" where
  "pair_inputs (a # b # rest) = (a @ b) # pair_inputs rest"
| "pair_inputs [a] = [a @ a]"
| "pair_inputs [] = []"

lemma hash_pairs_map: "hash_pairs sha hs = map (sha256_hex sha) (pair_inputs hs)"
  by (induction hs rule: pair_inputs.induct) simp_all

text \<open>The strings hashed on the way to the root.\<close>

function root_queries :: "(string \<Rightarrow> string) \<Rightarrow> string list \<Rightarrow> string set" where
  "root_queries sha hs =
     (if length hs > 1 then set (pair_inputs (pad_level hs)) \<union> root_queries sha (merkle_level sha hs) else {})"
  by pat_completeness auto
termination by (relation "measure (\<lambda>(_, hs). length hs)") auto

declare root_queries.simps [simp del]

lemma pair_inputs_inj:
  assumes "length hs = length ks" "\<forall>h\<in>set hs \<union> set ks. length h = n" "pair_inputs hs = pair_inputs ks"
  shows "hs = ks"
  using assms
proof (induction hs arbitrary: ks rule: pair_inputs.induct)
  case (1 a b rest)
  then obtain c d rest' where "ks = c # d # rest'" by (cases ks rule: pair_inputs.cases) auto
  then show ?case using 1 by auto
next
  case (2 a)
  then obtain c where "ks = [c]" by (cases ks rule: pair_inputs.cases) auto
  then show ?case using 2 by auto
qed simp

lemma pad_level_inj: "length hs = length ks \<Longrightarrow> pad_level hs = pad_level ks \<Longrightarrow> hs = ks"
  by (auto simp: pad_level_def split: if_splits)

lemma merkle_level_inj:
  assumes "length hs = length ks" and n: "\<forall>h\<in>set hs \<union> set ks. length h = n"
    and inj: "inj_on sha (set (pair_inputs (pad_level hs)) \<union> set (pair_inputs (pad_level ks)))"
    and eq: "merkle_level sha hs = merkle_level sha ks"
  shows "hs = ks"
proof -
  have set_pad: "set (pad_level xs) = set xs" for xs :: "string list" by (cases xs rule: rev_cases) (auto simp: pad_level_def)
  have m: "map (sha256_hex sha) (pair_inputs (pad_level hs)) = map (sha256_hex sha) (pair_inputs (pad_level ks))"
    using eq by (simp add: merkle_level_def hash_pairs_map pad_level_def)
  have "inj_on (sha256_hex sha) (set (pair_inputs (pad_level hs)) \<union> set (pair_inputs (pad_level ks)))"
    using inj hex_encode_inj unfolding inj_on_def sha256_hex_def by blast
  then have p: "pair_inputs (pad_level hs) = pair_inputs (pad_level ks)"
    by (rule map_inj_on[OF m])
  have l: "length (pad_level hs) = length (pad_level ks)" using assms(1) by (simp add: pad_level_def)
  have "pad_level hs = pad_level ks"
    by (rule pair_inputs_inj[OF l _ p, of n]) (simp only: set_pad, rule n)
  then show ?thesis by (rule pad_level_inj[OF assms(1)])
qed

lemma merkle_level_digests: "\<forall>d. length (sha d) = 32 \<Longrightarrow> h \<in> set (merkle_level sha hs) \<Longrightarrow> length h = 64"
  by (auto simp: merkle_level_def hash_pairs_map sha256_hex_def)

lemma log_merkle_loop_inj:
  assumes "\<forall>d. length (sha d) = 32" "length hs = length ks" "hs \<noteq> []"
    and "\<forall>h\<in>set hs \<union> set ks. length h = 64"
    and "inj_on sha (root_queries sha hs \<union> root_queries sha ks)"
    and "log_merkle_loop sha hs ! 0 = log_merkle_loop sha ks ! 0"
  shows "hs = ks"
  using assms
proof (induction sha hs arbitrary: ks rule: log_merkle_loop.induct)
  case (1 sha hs)
  show ?case
  proof (cases "length hs > 1")
    case True
    note qs = root_queries.simps[of sha hs] root_queries.simps[of sha ks]
    have "length (merkle_level sha hs) \<noteq> 0" using True by simp
    then have ne: "merkle_level sha hs \<noteq> []" by (metis list.size(3))
    have "merkle_level sha hs = merkle_level sha ks"
    proof (rule "1.IH"[OF True _ _ ne])
      show "inj_on sha (root_queries sha (merkle_level sha hs) \<union> root_queries sha (merkle_level sha ks))"
        by (rule inj_on_subset[OF "1.prems"(5)]) (use True "1.prems"(2) qs in auto)
      show "log_merkle_loop sha (merkle_level sha hs) ! 0 = log_merkle_loop sha (merkle_level sha ks) ! 0"
        using "1.prems"(2,6) True log_merkle_loop.simps[of sha hs] log_merkle_loop.simps[of sha ks] by simp
      show "\<forall>h\<in>set (merkle_level sha hs) \<union> set (merkle_level sha ks). length h = 64"
        using merkle_level_digests[OF "1.prems"(1)] by blast
    qed (use "1.prems"(1,2) in simp_all)
    then show ?thesis
      by (rule merkle_level_inj[OF "1.prems"(2,4), rotated])
        (rule inj_on_subset[OF "1.prems"(5)], use True "1.prems"(2) qs in auto)
  next
    case False
    then obtain h k where "hs = [h]" "ks = [k]"
      using "1.prems"(2,3) by (cases hs; cases ks) auto
    then show ?thesis using "1.prems"(6) log_merkle_loop.simps[of sha hs] log_merkle_loop.simps[of sha ks] by simp
  qed
qed

text \<open>
  The Merkle root of a checkpoint together with its entry count commits to the list of entry
  hashes: equally many digests with the same root are the same digests in the same order, unless SHA-256 collides.
\<close>

theorem log_merkle_root_binding:
  assumes "\<forall>d. length (sha d) = 32" "length hs = length ks"
    and "\<forall>h\<in>set hs \<union> set ks. length h = 64"
    and "inj_on sha (root_queries sha hs \<union> root_queries sha ks)"
    and "log_merkle_root sha hs = log_merkle_root sha ks"
  shows "hs = ks"
proof (cases "hs = []")
  case False
  then have "ks \<noteq> []" using assms(2) by auto
  then show ?thesis
    using log_merkle_loop_inj[OF assms(1,2) False assms(3,4)] assms(5) False by (simp add: log_merkle_root_def)
qed (use assms(2) in simp)

theorem log_merkle_root_binding_witness:
  "root_queries pad32 [replicate 64 (CHR ''a''), replicate 64 (CHR ''b'')]
     = {replicate 64 (CHR ''a'') @ replicate 64 (CHR ''b'')}
   \<and> [replicate 64 (CHR ''a''), replicate 64 (CHR ''b'')] = [replicate 64 (CHR ''a''), replicate 64 (CHR ''b'')]"
proof -
  have q: "root_queries pad32 [x, y] = {x @ y}" for x y
    by (subst root_queries.simps, subst root_queries.simps) (simp add: pad_level_def merkle_level_def)
  have "[replicate 64 (CHR ''a''), replicate 64 (CHR ''b'')] = [replicate 64 (CHR ''a''), replicate 64 (CHR ''b'')]"
    by (rule log_merkle_root_binding[of pad32]) (simp_all add: q)
  then show ?thesis using q by blast
qed

text \<open>
  The count is needed: an odd level is completed with a copy of its last hash, so the root
  alone does not tell a log of three entries from one that repeats the third.
\<close>

lemma log_merkle_root_odd: "log_merkle_root sha [a, b, c] = log_merkle_root sha [a, b, c, c]"
proof -
  have "merkle_level sha [a, b, c] = merkle_level sha [a, b, c, c]" by (simp add: merkle_level_def)
  then show ?thesis
    using log_merkle_loop.simps[of sha "[a, b, c]"] log_merkle_loop.simps[of sha "[a, b, c, c]"]
    by (simp add: log_merkle_root_def)
qed

end
