(* ===== verification/Dep_Graph.thy ===== *)
theory Dep_Graph
  imports Prelude
begin

text \<open>
  The resolved dependency graph (\<open>crates/oath-resolve/src/graph.rs\<close>), shared by the planner, the lockfile,
  the importer and the resolver. \<open>graph_equal\<close> compares two graphs as Rust's map equality does,
  without regard to iteration order.
\<close>

record dep_node =
  dn_name :: string
  dn_alias :: "string option"
  dn_version :: string
  dn_resolved :: string
  dn_integrity :: "string option"
  dn_dependencies :: "(string, string) hmap"
  dn_has_install_script :: bool
  dn_dev :: bool
  dn_optional :: bool
  dn_peer_dependencies :: "(string, string) hmap"
  dn_optional_peers :: "string set"
  dn_resolved_peers :: "(string, string) hmap"

datatype peer_resolution =
    Satisfied (res_required_by: string) (res_peer_name: string) (res_peer_key: string)
  | Missing (res_required_by: string) (res_peer_name: string) (res_range: string)
  | Conflict (res_required_by: string) (res_peer_name: string) (res_range: string) (res_found_version: string)

record peer_report =
  pr_satisfied :: "peer_resolution list"
  pr_missing :: "peer_resolution list"
  pr_conflicts :: "peer_resolution list"
  pr_optional_missing :: "string list"

record dep_graph =
  dg_nodes :: "(string, dep_node) hmap"
  dg_roots :: "string list"
  dg_peer_report :: peer_report

definition default_peer_report :: peer_report where
  "default_peer_report = \<lparr>pr_satisfied = [], pr_missing = [], pr_conflicts = [], pr_optional_missing = []\<rparr>"

definition new_graph :: dep_graph where
  "new_graph = \<lparr>dg_nodes = [], dg_roots = [], dg_peer_report = default_peer_report\<rparr>"

definition graph_get :: "dep_graph \<Rightarrow> string \<Rightarrow> dep_node option" where
  "graph_get g key = map_of (dg_nodes g) key"

definition graph_package_count :: "dep_graph \<Rightarrow> nat" where
  "graph_package_count g = length (dg_nodes g)"

definition packages_with_install_scripts :: "dep_graph \<Rightarrow> dep_node list" where
  "packages_with_install_scripts g = filter dn_has_install_script (map snd (dg_nodes g))"

definition graph_key :: "string \<Rightarrow> string \<Rightarrow> string" where
  "graph_key name version = name @ ''@'' @ version"

text \<open>
  A graph is well formed when its maps have one value per key and its roots are nodes.
\<close>

definition node_wf :: "dep_node \<Rightarrow> bool" where
  "node_wf n \<longleftrightarrow> hm_wf (dn_dependencies n) \<and> hm_wf (dn_peer_dependencies n) \<and> hm_wf (dn_resolved_peers n)"

definition graph_wf :: "dep_graph \<Rightarrow> bool" where
  "graph_wf g \<longleftrightarrow> hm_wf (dg_nodes g) \<and> list_all (\<lambda>(k, n). node_wf n) (dg_nodes g)"

definition roots_present :: "dep_graph \<Rightarrow> bool" where
  "roots_present g \<longleftrightarrow> list_all (\<lambda>r. r \<in> fst ` set (dg_nodes g)) (dg_roots g)"

lemma graph_wf_node: "graph_wf g \<Longrightarrow> map_of (dg_nodes g) k = Some n \<Longrightarrow> node_wf n"
  by (auto simp: graph_wf_def list_all_iff dest!: map_of_SomeD)

text \<open>Names and versions can be read back from a key when the version has no at sign.\<close>

lemma graph_key_inj:
  assumes "CHR ''@'' \<notin> set v" "CHR ''@'' \<notin> set w" "graph_key n v = graph_key m w"
  shows "n = m \<and> v = w"
proof -
  have s: "split_last (CHR ''@'') (graph_key n v) = Some (n, v)" "split_last (CHR ''@'') (graph_key m w) = Some (m, w)"
    unfolding graph_key_def split_last_Some using assms(1,2) by simp_all
  show ?thesis using s(1)[unfolded assms(3) s(2)] by simp
qed

end
