(* ===== verification/Paths.thy ===== *)
theory Paths
  imports Prelude
begin

text \<open>
  File paths, as \<open>std::path\<close> reads them on Unix: the components of a path, joining, and where a path
  leads from a base directory when it is followed lexically. The percent escape that makes one path component
  out of any text occurs three times in the source (\<open>safe_path_component\<close> of the store,
  \<open>safe_cache_component\<close> of the git cache, \<open>safe_fs_component\<close> of the linker). The locale
  \<open>safe_component\<close> is what its users rely on; every copy is an interpretation.
\<close>

section \<open>Components\<close>

datatype path_component = RootDir | CurDir | ParentDir | Normal string

definition is_absolute :: "string \<Rightarrow> bool" where
  "is_absolute s \<longleftrightarrow> starts_with s ''/''"

definition plain_component :: "string \<Rightarrow> path_component" where
  "plain_component p = (if p = ''..'' then ParentDir else Normal p)"

definition body_components :: "string list \<Rightarrow> path_component list" where
  "body_components ps = map plain_component (filter (\<lambda>p. p \<noteq> [] \<and> p \<noteq> ''.'') ps)"

definition path_components :: "string \<Rightarrow> path_component list" where
  "path_components s =
     (let ps = split_char (CHR ''/'') s
      in if is_absolute s then RootDir # body_components ps
         else if hd ps = ''.'' then CurDir # body_components (tl ps)
         else body_components ps)"

text \<open>Following a path from a directory, both given by their component names.\<close>

fun walk :: "string list \<Rightarrow> path_component list \<Rightarrow> string list" where
  "walk d [] = d"
| "walk d (RootDir # cs) = walk [] cs"
| "walk d (CurDir # cs) = walk d cs"
| "walk d (ParentDir # cs) = walk (butlast d) cs"
| "walk d (Normal n # cs) = walk (d @ [n]) cs"

definition is_normal :: "path_component \<Rightarrow> bool" where
  "is_normal c = (case c of Normal n \<Rightarrow> True | _ \<Rightarrow> False)"

definition safe_name :: "string \<Rightarrow> bool" where
  "safe_name n \<longleftrightarrow> n \<noteq> [] \<and> n \<noteq> ''.'' \<and> n \<noteq> ''..'' \<and> CHR ''/'' \<notin> set n"

lemma walk_append: "walk d (cs @ ds) = walk (walk d cs) ds"
  by (induction d cs rule: walk.induct) simp_all

lemma RootDir_iff: "RootDir \<in> set (path_components s) \<longleftrightarrow> is_absolute s"
  by (auto simp: path_components_def body_components_def plain_component_def Let_def split: if_splits)

lemma component_name:
  assumes "Normal n \<in> set (path_components s)"
  shows "CHR ''/'' \<notin> set n" "n \<noteq> []" "n \<noteq> ''.''" "n \<noteq> ''..''"
proof -
  have "set (tl (split_char (CHR ''/'') s)) \<subseteq> set (split_char (CHR ''/'') s)"
    by (meson list.set_sel(2) split_char_nonempty subsetI)
  then have "n \<in> set (split_char (CHR ''/'') s) \<and> n \<noteq> [] \<and> n \<noteq> ''.'' \<and> n \<noteq> ''..''"
    using assms by (auto simp: path_components_def body_components_def plain_component_def Let_def split: if_splits)
  then show "CHR ''/'' \<notin> set n" "n \<noteq> []" "n \<noteq> ''.''" "n \<noteq> ''..''"
    using split_char_pieces[of n "CHR ''/''" s] by simp_all
qed

text \<open>A relative path without parent components stays below the directory it is followed from.\<close>

lemma walk_below:
  "RootDir \<notin> set cs \<Longrightarrow> ParentDir \<notin> set cs \<Longrightarrow> prefix d (walk d cs)"
proof (induction d cs rule: walk.induct)
  case (5 d n cs)
  then have "prefix (d @ [n]) (walk (d @ [n]) cs)" by simp
  then show ?case by (simp add: append_prefixD)
qed simp_all

lemma walk_normals: "\<forall>c\<in>set cs. is_normal c \<Longrightarrow> prefix d (walk d cs)"
  by (intro walk_below) (auto simp: is_normal_def)

lemma path_components_prefix:
  assumes "c \<noteq> []" "c \<noteq> ''.''" "c \<noteq> ''..''" "CHR ''/'' \<notin> set c"
  shows "path_components (c @ ''/'' @ s) = Normal c # body_components (split_char (CHR ''/'') s)"
proof -
  have "\<not> is_absolute (c @ ''/'' @ s)"
    using assms(1,4) by (cases c) (auto simp: is_absolute_def)
  moreover have "split_char (CHR ''/'') (c @ ''/'' @ s) = c # split_char (CHR ''/'') s"
    using split_char_append[OF assms(4), of s] by simp
  ultimately show ?thesis using assms
    by (simp add: path_components_def body_components_def plain_component_def)
qed

lemma walk_below_prefix:
  assumes "c \<noteq> []" "c \<noteq> ''.''" "c \<noteq> ''..''" "CHR ''/'' \<notin> set c"
    and "starts_with s (c @ ''/'')" "ParentDir \<notin> set (path_components s)"
  shows "prefix (d @ [c]) (walk d (path_components s))"
proof -
  obtain t where "s = c @ ''/'' @ t" using assms(5) by (auto simp: starts_with_iff)
  then have p: "path_components s = Normal c # body_components (split_char (CHR ''/'') t)"
    using path_components_prefix[OF assms(1-4)] by simp
  then have "ParentDir \<notin> set (body_components (split_char (CHR ''/'') t))" using assms(6) by auto
  moreover have "RootDir \<notin> set (body_components (split_char (CHR ''/'') t))"
    by (auto simp: body_components_def plain_component_def split: if_splits)
  ultimately show ?thesis unfolding p by (simp add: walk_below)
qed

section \<open>One component out of any text\<close>

definition upper_hex_digit :: "nat \<Rightarrow> char" where
  "upper_hex_digit n = char_of (if n < 10 then 48 + n else 55 + n)"

definition upper_hex :: "char \<Rightarrow> string" where
  "upper_hex c = [upper_hex_digit (byte c div 16), upper_hex_digit (byte c mod 16)]"

definition is_alnum :: "char \<Rightarrow> bool" where
  "is_alnum c \<longleftrightarrow> (65 \<le> byte c \<and> byte c \<le> 90) \<or> (97 \<le> byte c \<and> byte c \<le> 122) \<or> (48 \<le> byte c \<and> byte c \<le> 57)"

definition is_kept :: "char \<Rightarrow> bool" where
  "is_kept c \<longleftrightarrow> is_alnum c \<or> c \<in> set ''._-@+''"

definition escape_byte :: "char \<Rightarrow> string" where
  "escape_byte c = (if is_kept c then [c] else ''%'' @ upper_hex c)"

definition escape_component :: "string \<Rightarrow> string" where
  "escape_component input =
     (if input = [] then ''_''
      else let out = concat (map escape_byte input)
           in if out = ''.'' then ''%2E'' else if out = ''..'' then ''%2E%2E'' else out)"

lemma upper_hex_digit_byte: "n < 16 \<Longrightarrow> byte (upper_hex_digit n) = (if n < 10 then 48 + n else 55 + n)"
  by (simp add: upper_hex_digit_def byte_def)

lemma upper_hex_inj [simp]: "upper_hex c = upper_hex d \<longleftrightarrow> c = d"
proof
  assume h: "upper_hex c = upper_hex d"
  have i: "m = n" if "m < 16" "n < 16" "upper_hex_digit m = upper_hex_digit n" for m n
  proof -
    have "(if m < 10 then 48 + m else 55 + m) = (if n < 10 then 48 + n else 55 + n)"
      using that upper_hex_digit_byte by metis
    then show "m = n" using that by (simp split: if_splits)
  qed
  have "byte c div 16 = byte d div 16" "byte c mod 16 = byte d mod 16"
    using h i[of "byte c div 16" "byte d div 16"] i[of "byte c mod 16" "byte d mod 16"]
    by (simp_all add: upper_hex_def less_mult_imp_div_less)
  then have "byte c = byte d" by (metis div_mult_mod_eq)
  then show "c = d" by simp
qed simp

lemma upper_hex_digit_alnum: "n < 16 \<Longrightarrow> is_alnum (upper_hex_digit n)"
  unfolding is_alnum_def by (simp add: upper_hex_digit_byte)

lemma upper_hex_alnum: "x \<in> set (upper_hex c) \<Longrightarrow> is_alnum x"
  using upper_hex_digit_alnum[of "byte c div 16"] upper_hex_digit_alnum[of "byte c mod 16"]
  by (auto simp: upper_hex_def less_mult_imp_div_less)

lemma length_upper_hex [simp]: "length (upper_hex c) = 2"
  by (simp add: upper_hex_def)

lemma not_kept: "\<not> is_kept (CHR ''%'')" "\<not> is_kept (CHR ''/'')"
  by (simp_all add: is_kept_def is_alnum_def byte_def)

lemma escape_byte_nonempty [simp]: "escape_byte c \<noteq> []"
  by (simp add: escape_byte_def)

lemma escape_byte_prefix:
  assumes "escape_byte c @ x = escape_byte d @ y" shows "c = d \<and> x = y"
proof (cases "is_kept c \<or> is_kept d")
  case True
  then show ?thesis using assms not_kept(1) by (auto simp: escape_byte_def split: if_splits)
next
  case False
  then have "upper_hex c @ x = upper_hex d @ y" using assms by (simp add: escape_byte_def)
  then have "upper_hex c = upper_hex d \<and> x = y" by (subst (asm) append_eq_append_conv) simp_all
  then show ?thesis by simp
qed

lemma escape_bytes_inj: "concat (map escape_byte s) = concat (map escape_byte t) \<Longrightarrow> s = t"
proof (induction s arbitrary: t)
  case Nil
  then show ?case by (cases t) simp_all
next
  case (Cons c s)
  then obtain d t' where t: "t = d # t'" by (cases t) simp_all
  have "escape_byte c @ concat (map escape_byte s) = escape_byte d @ concat (map escape_byte t')"
    using Cons.prems t by simp
  then have "c = d \<and> concat (map escape_byte s) = concat (map escape_byte t')" by (rule escape_byte_prefix)
  then show ?case using Cons.IH t by blast
qed

lemma escape_bytes_safe: "x \<in> set (concat (map escape_byte s)) \<Longrightarrow> is_kept x \<or> x = CHR ''%''"
  using upper_hex_alnum by (auto simp: escape_byte_def is_kept_def split: if_splits)

lemma kept_dot: "is_kept (CHR ''.'')"
  by (simp add: is_kept_def)

lemma escape_bytes_dots:
  "concat (map escape_byte s) = ''.'' \<longleftrightarrow> s = ''.''" "concat (map escape_byte s) = ''..'' \<longleftrightarrow> s = ''..''"
  using escape_bytes_inj[of s "''.''"] escape_bytes_inj[of s "''..''"] kept_dot
  by (auto simp: escape_byte_def)

lemma escape_bytes_percent:
  "concat (map escape_byte s) \<noteq> ''%2E''" "concat (map escape_byte s) \<noteq> ''%2E%2E''"
proof -
  have two: "''%2E'' = ''%'' @ upper_hex (CHR ''.'')"
    by code_simp
  have "s = []" if "concat (map escape_byte s) = ''%2E'' @ r" for r
  proof (rule ccontr)
    assume "s \<noteq> []"
    then obtain c s' where s: "s = c # s'" by (cases s) simp_all
    have e: "escape_byte c @ concat (map escape_byte s') = ''%'' @ upper_hex (CHR ''.'') @ r"
      using that s two by simp
    then have "\<not> is_kept c" using not_kept by (auto simp: escape_byte_def split: if_splits)
    then have "upper_hex c @ concat (map escape_byte s') = upper_hex (CHR ''.'') @ r"
      using e by (simp add: escape_byte_def)
    then have "upper_hex c = upper_hex (CHR ''.'')" by (subst (asm) append_eq_append_conv) simp_all
    then show False using kept_dot \<open>\<not> is_kept c\<close> by simp
  qed
  from this[of "[]"] this[of "''%2E''"]
  show "concat (map escape_byte s) \<noteq> ''%2E''" "concat (map escape_byte s) \<noteq> ''%2E%2E''" by auto
qed

lemma escape_component_inj:
  assumes "s \<noteq> []" "t \<noteq> []" "escape_component s = escape_component t"
  shows "s = t"
proof -
  note e = escape_bytes_dots[of s] escape_bytes_dots[of t] escape_bytes_percent[of s] escape_bytes_percent[of t]
  have "concat (map escape_byte s) = concat (map escape_byte t) \<or> s = t"
    using assms e unfolding escape_component_def Let_def by (auto split: if_splits)
  then show ?thesis using escape_bytes_inj by blast
qed

lemma escape_component_chars: "x \<in> set (escape_component s) \<Longrightarrow> is_kept x \<or> x = CHR ''%''"
proof -
  have lit: "\<forall>x\<in>set ''_%2E''. is_kept x \<or> x = CHR ''%''" by code_simp
  assume "x \<in> set (escape_component s)"
  then have "x \<in> set (concat (map escape_byte s)) \<or> x \<in> set ''_%2E''"
    unfolding escape_component_def Let_def by (auto split: if_splits)
  then show ?thesis using escape_bytes_safe lit by blast
qed

lemma escape_component_nonempty: "escape_component s \<noteq> []"
  by (cases s) (simp_all add: escape_component_def Let_def)

lemma escape_component_not_dots: "escape_component s \<noteq> ''.''" "escape_component s \<noteq> ''..''"
  by (auto simp: escape_component_def Let_def)

lemma escape_component_no_slash: "CHR ''/'' \<notin> set (escape_component s)"
  using escape_component_chars not_kept by blast

text \<open>What the users of the escape rely on.\<close>

locale safe_component =
  fixes enc :: "string \<Rightarrow> string"
  assumes enc_nonempty: "enc s \<noteq> []"
    and enc_no_slash: "CHR ''/'' \<notin> set (enc s)"
    and enc_not_dot: "enc s \<noteq> ''.''"
    and enc_not_dotdot: "enc s \<noteq> ''..''"
    and enc_inj: "s \<noteq> [] \<Longrightarrow> t \<noteq> [] \<Longrightarrow> enc s = enc t \<Longrightarrow> s = t"
begin

lemma components_enc: "path_components (enc s) = [Normal (enc s)]"
proof -
  have "\<not> is_absolute (enc s)"
    using enc_nonempty[of s] enc_no_slash[of s] by (cases "enc s") (auto simp: is_absolute_def)
  then show ?thesis
    using enc_nonempty[of s] enc_not_dot[of s] enc_not_dotdot[of s]
    by (simp add: path_components_def split_char_notin[OF enc_no_slash] body_components_def plain_component_def)
qed

text \<open>An encoded name is a direct child of the directory it is joined to.\<close>

lemma walk_enc: "walk d (path_components (enc s)) = d @ [enc s]"
  by (simp add: components_enc)

lemma walk_enc_inj:
  "s \<noteq> [] \<Longrightarrow> t \<noteq> [] \<Longrightarrow> walk d (path_components (enc s)) = walk d (path_components (enc t)) \<Longrightarrow> s = t"
  using enc_inj by (simp add: walk_enc)

text \<open>Joining two encoded names with a slash keeps them apart: the pair can be read back.\<close>

lemma pair_inj:
  assumes "a \<noteq> []" "b \<noteq> []" "c \<noteq> []" "d \<noteq> []" "enc a @ ''/'' @ enc b = enc c @ ''/'' @ enc d"
  shows "a = c \<and> b = d"
proof -
  have e: "enc a @ CHR ''/'' # enc b = enc c @ CHR ''/'' # enc d" using assms(5) by (simp only: append.simps)
  have s: "split_first (CHR ''/'') (enc a @ CHR ''/'' # enc b) = Some (enc a, enc b)"
    "split_first (CHR ''/'') (enc c @ CHR ''/'' # enc d) = Some (enc c, enc d)"
    unfolding split_first_Some using enc_no_slash by blast+
  have "enc c = enc a \<and> enc d = enc b" using s(1)[unfolded e s(2)] by (simp only: option.inject prod.inject)
  then show ?thesis using enc_inj[OF assms(3,1)] enc_inj[OF assms(4,2)] by blast
qed

end

lemma escape_is_safe_component: "safe_component escape_component"
  by unfold_locales
    (rule escape_component_nonempty escape_component_no_slash escape_component_not_dots escape_component_inj; assumption?)+

end
