(* ===== verification/Placement.thy ===== *)
theory Placement
  imports Dep_Graph Paths Core_Integrity
begin

text \<open>
  Placement plans (\<open>crates/oath-resolve/src/placement.rs\<close>): the plan npm's Arborist computes, the checks on
  it and its conversion to the dependency graph. Arborist, the bundled npm tarball, tar and gzip, and the JSON decoder are
  not part of the source and are parameters: \<open>run\<close> is what the child process prints,
  \<open>decode\<close> reads a plan from JSON, \<open>unpack\<close> gives the \<open>name\<close> and \<open>version\<close>
  members of a \<open>package.json\<close> in the unpacked runtime.
\<close>

section \<open>Data\<close>

definition PLACEMENT_PLAN_VERSION :: nat where "PLACEMENT_PLAN_VERSION = 2"
definition ARBORIST_VERSION :: string where "ARBORIST_VERSION = ''9.4.2''"
definition INSTALL_CHECKS_VERSION :: string where "INSTALL_CHECKS_VERSION = ''8.0.0''"
definition PACKLIST_VERSION :: string where "PACKLIST_VERSION = ''10.0.4''"
definition NPM_RUNTIME_SHA256 :: string where
  "NPM_RUNTIME_SHA256 = ''e679850e663b16f5f146ee425d0eb0e3442c1d2bda3d513bbfd7c81f5ee5db38''"

record planner_identity =
  planner_name :: string
  planner_npm :: string

record placement_edge =
  ed_name :: string
  ed_spec :: string
  ed_dependency_type :: string
  ed_target_location :: "string option"
  ed_valid :: bool

record placement_node =
  pn_location :: string
  pn_install_name :: string
  pn_name :: string
  pn_version :: string
  pn_resolved :: "string option"
  pn_integrity :: "string option"
  pn_dev :: bool
  pn_optional :: bool
  pn_has_install_script :: bool
  pn_reuse_existing :: bool
  pn_link :: bool
  pn_target :: "string option"
  pn_edges :: "placement_edge list"

record placement_plan =
  pp_schema_version :: nat
  pp_planner :: planner_identity
  pp_project :: string
  pp_nodes :: "placement_node list"
  pp_removed_locations :: "string list"
  pp_invalid_edges :: "placement_edge list"

datatype update_value = Update_all | Update_names "string list"

record placement_request =
  rq_add :: "string list"
  rq_rm :: "string list"
  rq_update :: "update_value option"
  rq_save_type :: "string option"

datatype placement_error =
    Resolved_omitted string
  | Absolute_placement string | Placement_traversal string | Placement_outside string
  | Absolute_removal string | Removal_traversal string | Removal_outside string
  | Unsupported_plan_version nat
  | Plan_unreadable | Plan_undecodable
  | Planner_failed
  | Runtime_checksum_mismatch | Runtime_unreadable | Runtime_package_mismatch | Runtime_version_mismatch string
  | Packlist_absolute | Packlist_unsafe string

section \<open>Plan to graph\<close>







section \<open>Requests\<close>

definition default_request :: placement_request where
  "default_request = \<lparr>rq_add = [], rq_rm = [], rq_update = None, rq_save_type = None\<rparr>"

definition request_add :: "string list \<Rightarrow> bool \<Rightarrow> placement_request" where
  "request_add specs dev = default_request\<lparr>rq_add := specs, rq_save_type := (if dev then Some ''dev'' else None)\<rparr>"

definition request_remove :: "string list \<Rightarrow> placement_request" where
  "request_remove names = default_request\<lparr>rq_rm := names\<rparr>"

definition request_update :: "string list \<Rightarrow> placement_request" where
  "request_update names =
     default_request\<lparr>rq_update := Some (if names = [] then Update_all else Update_names names)\<rparr>"

section \<open>Checks\<close>

definition check_location ::
  "(string \<Rightarrow> placement_error) \<Rightarrow> (string \<Rightarrow> placement_error) \<Rightarrow> (string \<Rightarrow> placement_error) \<Rightarrow> string \<Rightarrow> (placement_error, unit) result" where
  "check_location absolute traversal outside location =
     bind_result (ensure (\<not> is_absolute location) (absolute location)) (\<lambda>_.
     bind_result (ensure (list_all (\<lambda>c. c \<noteq> ParentDir) (path_components location)) (traversal location)) (\<lambda>_.
     ensure (starts_with location ''node_modules/'') (outside location)))"

definition validate_locations :: "placement_plan \<Rightarrow> (placement_error, unit) result" where
  "validate_locations plan =
     bind_result (fold_result (\<lambda>n _. check_location Absolute_placement Placement_traversal Placement_outside (pn_location n))
                    (pp_nodes plan) ()) (\<lambda>_.
     fold_result (\<lambda>r _. check_location Absolute_removal Removal_traversal Removal_outside r) (pp_removed_locations plan) ())"

text \<open>\<open>PlacementPlan::read\<close>: a readable file that decodes, of this version, with valid locations.\<close>

definition read_plan :: "('b \<Rightarrow> placement_plan option) \<Rightarrow> 'b option \<Rightarrow> (placement_error, placement_plan) result" where
  "read_plan decode content =
     bind_result (ok_or content Plan_unreadable) (\<lambda>data.
     bind_result (ok_or (decode data) Plan_undecodable) (\<lambda>plan.
     bind_result (ensure (pp_schema_version plan = PLACEMENT_PLAN_VERSION) (Unsupported_plan_version (pp_schema_version plan))) (\<lambda>_.
     bind_result (validate_locations plan) (\<lambda>_. Inr plan))))"

definition hydrate_node :: "(string, placement_node) hmap \<Rightarrow> placement_node \<Rightarrow> placement_node" where
  "hydrate_node previous_by_location node =
     (case map_of previous_by_location (pn_location node) of
        None \<Rightarrow> node
      | Some old \<Rightarrow>
          if pn_name old \<noteq> pn_name node \<or> pn_version old \<noteq> pn_version node then node
          else let node = (if pn_resolved node = None then node\<lparr>pn_resolved := pn_resolved old\<rparr> else node)
               in if pn_integrity node = None then node\<lparr>pn_integrity := pn_integrity old\<rparr> else node)"

definition hydrate_from_persisted_plan ::
  "('b \<Rightarrow> placement_plan option) \<Rightarrow> 'b option \<Rightarrow> placement_plan \<Rightarrow> placement_plan" where
  "hydrate_from_persisted_plan decode persisted plan =
     (case read_plan decode persisted of
        Inl _ \<Rightarrow> plan
      | Inr previous \<Rightarrow>
          let previous_by_location = hm_collect (map (\<lambda>n. (pn_location n, n)) (pp_nodes previous))
          in plan\<lparr>pp_nodes := map (hydrate_node previous_by_location) (pp_nodes plan)\<rparr>)"

section \<open>The bundled runtime and the planner\<close>

definition verify_runtime_package ::
  "(string \<Rightarrow> (string option \<times> string option) option) \<Rightarrow> string \<Rightarrow> string \<Rightarrow> string \<Rightarrow> (placement_error, unit) result" where
  "verify_runtime_package unpack path name expected_version =
     bind_result (ok_or (unpack path) Runtime_unreadable) (\<lambda>package.
     bind_result (ensure (fst package = Some name) Runtime_package_mismatch) (\<lambda>_.
     ensure (snd package = Some expected_version) (Runtime_version_mismatch name)))"

definition runtime_extract ::
  "(string \<Rightarrow> string) \<Rightarrow> string \<Rightarrow> (string \<Rightarrow> (string option \<times> string option) option) \<Rightarrow> (placement_error, unit) result" where
  "runtime_extract sha256 npm_runtime unpack =
     bind_result (ensure (hex_encode (sha256 npm_runtime) = NPM_RUNTIME_SHA256) Runtime_checksum_mismatch) (\<lambda>_.
     bind_result (verify_runtime_package unpack ''package/node_modules/@npmcli/arborist/package.json'' ''@npmcli/arborist'' ARBORIST_VERSION) (\<lambda>_.
     bind_result (verify_runtime_package unpack ''package/node_modules/npm-install-checks/package.json'' ''npm-install-checks'' INSTALL_CHECKS_VERSION) (\<lambda>_.
     verify_runtime_package unpack ''package/node_modules/npm-packlist/package.json'' ''npm-packlist'' PACKLIST_VERSION)))"

text \<open>
  \<open>plan_with\<close>: \<open>runtime\<close> is the outcome of \<open>runtime_extract\<close>, \<open>run\<close> the standard output of the
  planner for the request, absent when the process fails.
\<close>

definition plan_with ::
  "(placement_error, unit) result \<Rightarrow> (placement_request \<Rightarrow> 'b option) \<Rightarrow> ('b \<Rightarrow> placement_plan option) \<Rightarrow> 'b option \<Rightarrow>
   placement_request \<Rightarrow> (placement_error, placement_plan) result" where
  "plan_with runtime run decode persisted request =
     bind_result runtime (\<lambda>_.
     bind_result (ok_or (run request) Planner_failed) (\<lambda>output.
     bind_result (ok_or (decode output) Plan_undecodable) (\<lambda>plan.
     bind_result (ensure (pp_schema_version plan = PLACEMENT_PLAN_VERSION) (Unsupported_plan_version (pp_schema_version plan))) (\<lambda>_.
     let plan = hydrate_from_persisted_plan decode persisted plan
     in bind_result (validate_locations plan) (\<lambda>_. Inr plan)))))"

definition make_plan ::
  "(placement_error, unit) result \<Rightarrow> (placement_request \<Rightarrow> 'b option) \<Rightarrow> ('b \<Rightarrow> placement_plan option) \<Rightarrow> 'b option \<Rightarrow>
   (placement_error, placement_plan) result" where
  "make_plan runtime run decode persisted = plan_with runtime run decode persisted default_request"

definition check_packlist_file :: "string \<Rightarrow> (placement_error, unit) result" where
  "check_packlist_file file =
     bind_result (ensure (\<not> is_absolute file) Packlist_absolute) (\<lambda>_.
     ensure (list_all is_normal (path_components file)) (Packlist_unsafe file))"

definition npm_packlist ::
  "(placement_error, unit) result \<Rightarrow> 'b option \<Rightarrow> ('b \<Rightarrow> string list option) \<Rightarrow> (placement_error, string list) result" where
  "npm_packlist runtime output decode_list =
     bind_result runtime (\<lambda>_.
     bind_result (ok_or output Planner_failed) (\<lambda>out.
     bind_result (ok_or (decode_list out) Plan_undecodable) (\<lambda>files.
     bind_result (fold_result (\<lambda>f _. check_packlist_file f) files ()) (\<lambda>_. Inr files))))"

section \<open>Locations stay below node\_modules\<close>

lemma fold_result_unit_iff:
  "fold_result (\<lambda>x _. f x) xs () = Inr () \<longleftrightarrow> (\<forall>x\<in>set xs. f x = Inr ())"
  by (induction xs) (auto simp: bind_result_Inr_iff)

lemma check_location_iff:
  "check_location ea et eo l = Inr () \<longleftrightarrow>
     \<not> is_absolute l \<and> ParentDir \<notin> set (path_components l) \<and> starts_with l ''node_modules/''"
  by (auto simp: check_location_def bind_result_Inr_iff list_all_iff)

lemma check_location_below:
  assumes "check_location ea et eo l = Inr ()"
  shows "prefix (d @ [''node_modules'']) (walk d (path_components l))"
proof (rule walk_below_prefix)
  show "starts_with l (''node_modules'' @ ''/'')" "ParentDir \<notin> set (path_components l)"
    using assms by (simp_all add: check_location_iff)
qed simp_all

lemma validate_locations_iff:
  "validate_locations plan = Inr () \<longleftrightarrow>
     (\<forall>n\<in>set (pp_nodes plan). check_location Absolute_placement Placement_traversal Placement_outside (pn_location n) = Inr ())
     \<and> (\<forall>r\<in>set (pp_removed_locations plan). check_location Absolute_removal Removal_traversal Removal_outside r = Inr ())"
  unfolding validate_locations_def by (auto simp: bind_result_Inr_iff fold_result_unit_iff)

lemma hydrate_node_keeps [simp]:
  "pn_location (hydrate_node m n) = pn_location n" "pn_name (hydrate_node m n) = pn_name n"
  "pn_version (hydrate_node m n) = pn_version n" "pn_link (hydrate_node m n) = pn_link n"
  "pn_edges (hydrate_node m n) = pn_edges n"
  by (auto simp: hydrate_node_def Let_def split: option.splits)

lemma hydrate_plan_keeps [simp]:
  "pp_schema_version (hydrate_from_persisted_plan dec p plan) = pp_schema_version plan"
  "pp_removed_locations (hydrate_from_persisted_plan dec p plan) = pp_removed_locations plan"
  by (simp_all add: hydrate_from_persisted_plan_def Let_def split: sum.splits)

text \<open>A plan of one package, for the examples.\<close>

definition sample_node :: placement_node where
  "sample_node = \<lparr>pn_location = ''node_modules/a'', pn_install_name = ''a'', pn_name = ''a'', pn_version = ''1.0.0'',
     pn_resolved = Some ''https://r/a/-/a-1.0.0.tgz'', pn_integrity = None, pn_dev = False, pn_optional = False,
     pn_has_install_script = False, pn_reuse_existing = False, pn_link = False, pn_target = None, pn_edges = []\<rparr>"

definition sample_plan :: placement_plan where
  "sample_plan = \<lparr>pp_schema_version = 2, pp_planner = \<lparr>planner_name = ''arborist'', planner_npm = ''11.12.1''\<rparr>,
     pp_project = ''/app'', pp_nodes = [sample_node], pp_removed_locations = [], pp_invalid_edges = []\<rparr>"

text \<open>
  The directory itself passes: the test is for the prefix \<open>node_modules/\<close>, with nothing asked of what follows. A plan that lists it for removal removes the
  whole tree.
\<close>

lemma whole_tree_accepted:
  "check_location Absolute_removal Removal_traversal Removal_outside ''node_modules/'' = Inr ()"
  "walk [''app''] (path_components ''node_modules/'') = [''app'', ''node_modules'']"
  by code_simp+

text \<open>
  C27: a plan the planner returns is of the supported version and installs and removes only at or below
  \<open>node_modules\<close>: from any project directory, following the location of any of its nodes, or any location to
  remove, leads to \<open>node_modules\<close> of that directory or a path below it, whatever Arborist printed.
\<close>

theorem plan_with_contained:
  assumes "plan_with runtime run decode persisted request = Inr plan"
  shows "pp_schema_version plan = PLACEMENT_PLAN_VERSION
    \<and> (\<forall>n\<in>set (pp_nodes plan). prefix (d @ [''node_modules'']) (walk d (path_components (pn_location n))))
    \<and> (\<forall>r\<in>set (pp_removed_locations plan). prefix (d @ [''node_modules'']) (walk d (path_components r)))"
proof -
  have "validate_locations plan = Inr ()" "pp_schema_version plan = PLACEMENT_PLAN_VERSION"
    using assms by (auto simp: plan_with_def bind_result_Inr_iff Let_def)
  then show ?thesis using check_location_below unfolding validate_locations_iff by blast
qed

theorem plan_with_contained_witness:
  "prefix ([''app''] @ [''node_modules'']) (walk [''app''] (path_components ''node_modules/a''))"
proof -
  have "plan_with (Inr ()) (\<lambda>r. Some ()) (\<lambda>_. Some sample_plan) None default_request = Inr sample_plan"
  proof -
    have "check_location Absolute_placement Placement_traversal Placement_outside ''node_modules/a'' = Inr ()"
      by code_simp
    then have "validate_locations sample_plan = Inr ()"
      by (simp add: validate_locations_def sample_plan_def sample_node_def)
    then show ?thesis
      by (simp add: plan_with_def hydrate_from_persisted_plan_def read_plan_def sample_plan_def PLACEMENT_PLAN_VERSION_def)
  qed
  from plan_with_contained[OF this, of "[''app'']"]
  show ?thesis by (simp add: sample_plan_def sample_node_def)
qed

text \<open>
  C28: the files npm lists for a git dependency are packed only when each of them names a place below
  the checkout: a list that is accepted leads from any directory to paths below that directory.
\<close>

theorem npm_packlist_contained:
  assumes "npm_packlist runtime output decode_list = Inr files" and "f \<in> set files"
  shows "prefix d (walk d (path_components f))"
proof -
  have "check_packlist_file f = Inr ()"
    using assms by (auto simp: npm_packlist_def bind_result_Inr_iff fold_result_unit_iff)
  then show ?thesis by (auto simp: check_packlist_file_def bind_result_Inr_iff list_all_iff intro: walk_normals)
qed

theorem npm_packlist_contained_witness:
  "prefix [''co''] (walk [''co''] (path_components ''lib/a.js''))"
proof (rule npm_packlist_contained[of "Inr ()" "Some ()" "\<lambda>_. Some [''lib/a.js'']"])
  have "check_packlist_file ''lib/a.js'' = Inr ()" by code_simp
  then show "npm_packlist (Inr ()) (Some ()) (\<lambda>_. Some [''lib/a.js'']) = Inr [''lib/a.js'']"
    by (simp add: npm_packlist_def)
qed simp

section \<open>Hydration\<close>

lemma hydrate_node_fields:
  "pn_resolved (hydrate_node m n) =
     (if pn_resolved n \<noteq> None then pn_resolved n
      else case map_of m (pn_location n) of
        Some old \<Rightarrow> if pn_name old = pn_name n \<and> pn_version old = pn_version n then pn_resolved old else None
      | None \<Rightarrow> None)"
  "pn_integrity (hydrate_node m n) =
     (if pn_integrity n \<noteq> None then pn_integrity n
      else case map_of m (pn_location n) of
        Some old \<Rightarrow> if pn_name old = pn_name n \<and> pn_version old = pn_version n then pn_integrity old else None
      | None \<Rightarrow> None)"
  by (auto simp: hydrate_node_def Let_def split: option.splits)

lemma hydrate_node_idem: "hydrate_node m (hydrate_node m n) = hydrate_node m n"
proof (cases "map_of m (pn_location n)")
  case (Some old)
  show ?thesis
  proof (cases "pn_name old = pn_name n \<and> pn_version old = pn_version n")
    case True
    then show ?thesis
      using Some by (cases "pn_resolved n"; cases "pn_integrity n") (simp_all add: hydrate_node_def Let_def)
  next
    case False
    then have "hydrate_node m n = n" using Some by (auto simp: hydrate_node_def)
    then show ?thesis by simp
  qed
qed (simp add: hydrate_node_def)

lemma hm_collect_from: "map_of (hm_collect (map (\<lambda>n. (f n, n)) ns)) k = Some v \<Longrightarrow> v \<in> set ns \<and> f v = k"
  by (auto simp: map_of_hm_collect dest!: map_of_SomeD)

text \<open>What may become of one node, given the nodes of the persisted plan.\<close>

definition same_package :: "placement_node \<Rightarrow> placement_node \<Rightarrow> bool" where
  "same_package a b \<longleftrightarrow> pn_location a = pn_location b \<and> pn_name a = pn_name b \<and> pn_version a = pn_version b"

definition gap_filled :: "placement_node list \<Rightarrow> placement_node \<Rightarrow> placement_node \<Rightarrow> bool" where
  "gap_filled olds n n' \<longleftrightarrow> same_package n n' \<and> pn_edges n' = pn_edges n \<and> pn_link n' = pn_link n
     \<and> (pn_integrity n' = pn_integrity n
        \<or> pn_integrity n = None \<and> (\<exists>old\<in>set olds. same_package old n \<and> pn_integrity n' = pn_integrity old))
     \<and> (pn_resolved n' = pn_resolved n
        \<or> pn_resolved n = None \<and> (\<exists>old\<in>set olds. same_package old n \<and> pn_resolved n' = pn_resolved old))"

definition persisted_nodes :: "('b \<Rightarrow> placement_plan option) \<Rightarrow> 'b option \<Rightarrow> placement_node list" where
  "persisted_nodes decode persisted =
     (case read_plan decode persisted of Inl _ \<Rightarrow> [] | Inr previous \<Rightarrow> pp_nodes previous)"

lemma hydrate_node_gap_filled:
  assumes "\<And>k old. map_of m k = Some old \<Longrightarrow> old \<in> set olds \<and> pn_location old = k"
  shows "gap_filled olds n (hydrate_node m n)"
proof (cases "map_of m (pn_location n)")
  case (Some old)
  then have old: "old \<in> set olds" "pn_location old = pn_location n" using assms by auto
  show ?thesis
  proof (cases "pn_name old = pn_name n \<and> pn_version old = pn_version n")
    case True
    then have "same_package old n" using old by (simp add: same_package_def)
    then show ?thesis
      using Some True old(1) unfolding gap_filled_def same_package_def[of n] hydrate_node_fields by auto
  next
    case False
    then have "hydrate_node m n = n" using Some by (auto simp: hydrate_node_def)
    then show ?thesis by (simp add: gap_filled_def same_package_def)
  qed
qed (simp add: hydrate_node_def gap_filled_def same_package_def)

text \<open>
  Hydration fills gaps and nothing else: it changes neither the locations, names, versions nor
  edges of a plan, a source or an integrity the planner gave is kept, one that it supplies comes from a node of the
  persisted plan with the same location, name and version, and doing it twice is doing it once.
\<close>

theorem hydrate_only_fills_gaps:
  "list_all2 (gap_filled (persisted_nodes decode persisted)) (pp_nodes plan)
     (pp_nodes (hydrate_from_persisted_plan decode persisted plan))
   \<and> hydrate_from_persisted_plan decode persisted (hydrate_from_persisted_plan decode persisted plan)
     = hydrate_from_persisted_plan decode persisted plan"
proof (cases "read_plan decode persisted")
  case (Inl e)
  then show ?thesis
    by (simp add: hydrate_from_persisted_plan_def gap_filled_def same_package_def list_all2_same)
next
  case (Inr previous)
  define m where "m = hm_collect (map (\<lambda>n. (pn_location n, n)) (pp_nodes previous))"
  have h: "hydrate_from_persisted_plan decode persisted p = p\<lparr>pp_nodes := map (hydrate_node m) (pp_nodes p)\<rparr>" for p
    using Inr by (simp add: hydrate_from_persisted_plan_def m_def)
  have g: "gap_filled (pp_nodes previous) n (hydrate_node m n)" for n
    by (rule hydrate_node_gap_filled) (use hm_collect_from in \<open>force simp: m_def\<close>)
  have "persisted_nodes decode persisted = pp_nodes previous" using Inr by (simp add: persisted_nodes_def)
  then show ?thesis by (simp add: h g list_all2_map2 list_all2_same hydrate_node_idem comp_def)
qed

section \<open>The graph of a plan\<close>












end
