(* ===== verification/Json.thy ===== *)
theory Json
  imports Prelude
begin

text \<open>
  JSON values, as \<open>serde_json::Value\<close> has them: an object is a \<open>Map\<close>, which without the
  \<open>preserve_order\<close> feature is a \<open>BTreeMap\<close>, so its members are a list of pairs sorted by key. A number is kept as
  its literal: the modelled code reads no number from a value.
\<close>

datatype json =
    JNull
  | JBool bool
  | JNum string
  | JStr string
  | JArr "json list"
  | JObj "(string \<times> json) list"

type_synonym json_map = "(string, json) hmap"

fun as_object :: "json \<Rightarrow> json_map option" where
  "as_object (JObj m) = Some m"
| "as_object _ = None"

fun as_str :: "json \<Rightarrow> string option" where
  "as_str (JStr s) = Some s"
| "as_str _ = None"

fun as_bool :: "json \<Rightarrow> bool option" where
  "as_bool (JBool b) = Some b"
| "as_bool _ = None"

fun as_array :: "json \<Rightarrow> json list option" where
  "as_array (JArr xs) = Some xs"
| "as_array _ = None"

definition json_get :: "json \<Rightarrow> string \<Rightarrow> json option" where
  "json_get v k = (case v of JObj m \<Rightarrow> map_of m k | _ \<Rightarrow> None)"

definition get_str :: "json_map \<Rightarrow> string \<Rightarrow> string option" where
  "get_str m k = Option.bind (map_of m k) as_str"

definition get_bool :: "json_map \<Rightarrow> string \<Rightarrow> bool" where
  "get_bool m k = (case Option.bind (map_of m k) as_bool of Some b \<Rightarrow> b | None \<Rightarrow> False)"

definition get_object :: "json_map \<Rightarrow> string \<Rightarrow> json_map option" where
  "get_object m k = Option.bind (map_of m k) as_object"

definition object_keys :: "json_map \<Rightarrow> string list" where
  "object_keys m = map fst m"

text \<open>Members whose value is a string, as a map: \<open>range_map\<close> and its copies.\<close>

definition string_members :: "json_map \<Rightarrow> (string \<times> string) list" where
  "string_members m = List.map_filter (\<lambda>(k, v). map_option (Pair k) (as_str v)) m"

fun json_wf :: "json \<Rightarrow> bool" where
  "json_wf (JObj m) \<longleftrightarrow> distinct (map fst m) \<and> sorted (map fst m) \<and> list_all (\<lambda>(k, v). json_wf v) m"
| "json_wf (JArr xs) \<longleftrightarrow> list_all json_wf xs"
| "json_wf _ \<longleftrightarrow> True"

lemma as_object_Some: "as_object v = Some m \<longleftrightarrow> v = JObj m"
  by (cases v) auto

lemma as_str_Some: "as_str v = Some s \<longleftrightarrow> v = JStr s"
  by (cases v) auto

lemma as_array_Some: "as_array v = Some xs \<longleftrightarrow> v = JArr xs"
  by (cases v) auto

lemma string_members_keys: "fst ` set (string_members m) \<subseteq> fst ` set m"
  by (force simp: string_members_def map_filter_def)

lemma string_members_wf: "hm_wf m \<Longrightarrow> hm_wf (string_members m)"
proof (induction m)
  case (Cons kv m)
  then show ?case
    using string_members_keys[of m]
    by (cases kv) (auto simp: hm_wf_def string_members_def map_filter_simps split: option.splits)
qed (simp add: hm_wf_def string_members_def map_filter_simps)

end
