(* ===== verification/Lockfile.thy ===== *)
theory Lockfile
  imports Dep_Graph Json
begin

text \<open>
  The lockfile (\<open>crates/oath-resolve/src/lockfile.rs\<close>): from the graph to \<open>oath-lock.json\<close> and back.
  Its maps are \<open>BTreeMap\<close>s, so a lockfile is a value with sorted association lists. Its JSON form follows the serde attributes of the structs: names of
  the members, members left out when they are empty, defaults for absent ones, an error for a member that is required or given twice. The text of a JSON value, with the members of an
  object in the order of the text, is serde's and a parameter of \<open>lock_write\<close> and \<open>lock_read\<close>.
\<close>

section \<open>Data\<close>

definition LOCKFILE_VERSION :: nat where "LOCKFILE_VERSION = 2"

record lock_entry =
  le_name :: "string option"
  le_version :: string
  le_resolved :: string
  le_integrity :: "string option"
  le_dependencies :: "(string, string) hmap"
  le_dev :: bool
  le_optional :: bool
  le_has_install_script :: bool
  le_alias :: "string option"
  le_peer_dependencies :: "(string, string) hmap"
  le_resolved_peers :: "(string, string) hmap"

record lockfile =
  lf_lockfile_version :: nat
  lf_name :: string
  lf_version :: string
  lf_roots :: "string list"
  lf_root_dependencies :: "(string, string) hmap"
  lf_root_dev_dependencies :: "(string, string) hmap"
  lf_packages :: "(string, lock_entry) hmap"

datatype lock_error = Lock_unreadable | Lock_unparsable

section \<open>Package names from keys and sources\<close>

definition lock_key_package_name :: "string \<Rightarrow> string" where
  "lock_key_package_name key =
     (case rfind_str ''node_modules/'' key of
        Some (_, rest) \<Rightarrow>
          (let first = hd (split_char (CHR ''/'') rest)
           in case strip_prefix rest ''@'' of
                None \<Rightarrow> first
              | Some scope_rest \<Rightarrow>
                  (case split_char (CHR ''/'') scope_rest of
                     scope # package # _ \<Rightarrow> take (length scope + 1 + length package) rest
                   | _ \<Rightarrow> first))
      | None \<Rightarrow>
          (case split_last (CHR ''@'') key of
             Some (name, _) \<Rightarrow> if name \<noteq> [] then name else key
           | None \<Rightarrow> key))"

fun replace_str :: "string \<Rightarrow> string \<Rightarrow> nat \<Rightarrow> string \<Rightarrow> string" where
  "replace_str pat rep 0 s = s"
| "replace_str pat rep (Suc fuel) s =
     (case find_str pat s of None \<Rightarrow> s | Some (a, b) \<Rightarrow> a @ rep @ replace_str pat rep fuel b)"

definition str_replace :: "string \<Rightarrow> string \<Rightarrow> string \<Rightarrow> string" where
  "str_replace pat rep s = replace_str pat rep (length s) s"

definition npm_tarball_package_name :: "string \<Rightarrow> string option" where
  "npm_tarball_package_name resolved =
     (let path = takeWhile (\<lambda>c. c \<noteq> CHR ''?'' \<and> c \<noteq> CHR ''#'') resolved;
          before_tarball = (case find_str ''/-/'' path of None \<Rightarrow> path | Some (a, _) \<Rightarrow> a)
      in if before_tarball = path then None
         else let segments = rev (split_char (CHR ''/'') before_tarball);
                  last_seg = str_replace ''%2F'' ''/'' (str_replace ''%2f'' ''/'' (hd segments))
              in if starts_with last_seg ''@'' \<and> CHR ''/'' \<in> set last_seg then Some last_seg
                 else let previous = (case tl segments of [] \<Rightarrow> [] | p # _ \<Rightarrow> p)
                      in if starts_with previous ''@'' then Some (previous @ ''/'' @ last_seg)
                         else Some last_seg)"

definition package_name_for_key :: "lock_entry \<Rightarrow> string \<Rightarrow> string" where
  "package_name_for_key e key =
     (case le_name e of
        Some name \<Rightarrow> name
      | None \<Rightarrow> (case npm_tarball_package_name (le_resolved e) of
                  Some name \<Rightarrow> name
                | None \<Rightarrow> lock_key_package_name key))"

section \<open>Graph to lockfile\<close>

definition lock_entry_of :: "string \<Rightarrow> dep_node \<Rightarrow> lock_entry" where
  "lock_entry_of key node =
     (let canonical_key = dn_name node @ ''@'' @ dn_version node
      in \<lparr>le_name = (if key \<noteq> canonical_key then Some (dn_name node) else None),
          le_version = dn_version node,
          le_resolved = dn_resolved node,
          le_integrity = dn_integrity node,
          le_dependencies = btree (dn_dependencies node),
          le_dev = dn_dev node,
          le_optional = dn_optional node,
          le_has_install_script = dn_has_install_script node,
          le_alias = dn_alias node,
          le_peer_dependencies = btree (dn_peer_dependencies node),
          le_resolved_peers = btree (dn_resolved_peers node)\<rparr>)"

definition from_graph_with_manifest ::
  "dep_graph \<Rightarrow> string \<Rightarrow> string \<Rightarrow> (string, string) hmap \<Rightarrow> (string, string) hmap \<Rightarrow> lockfile" where
  "from_graph_with_manifest graph project_name project_version root_dependencies root_dev_dependencies =
     \<lparr>lf_lockfile_version = LOCKFILE_VERSION,
      lf_name = project_name,
      lf_version = project_version,
      lf_roots = remdups_adj (sort (dg_roots graph)),
      lf_root_dependencies = btree root_dependencies,
      lf_root_dev_dependencies = btree root_dev_dependencies,
      lf_packages = btree (map (\<lambda>(key, node). (key, lock_entry_of key node)) (dg_nodes graph))\<rparr>"

definition from_graph :: "dep_graph \<Rightarrow> string \<Rightarrow> string \<Rightarrow> lockfile" where
  "from_graph graph project_name project_version =
     from_graph_with_manifest graph project_name project_version [] []"

section \<open>The JSON form\<close>

definition member_if :: "bool \<Rightarrow> string \<Rightarrow> json \<Rightarrow> json_map" where
  "member_if b k v = (if b then [(k, v)] else [])"

definition strings_json :: "(string, string) hmap \<Rightarrow> json" where
  "strings_json m = JObj (map (\<lambda>(k, v). (k, JStr v)) m)"

definition lock_entry_json :: "lock_entry \<Rightarrow> json" where
  "lock_entry_json e = JObj
     (member_if (le_name e \<noteq> None) ''name'' (JStr (the (le_name e)))
      @ member_if True ''version'' (JStr (le_version e))
      @ member_if True ''resolved'' (JStr (le_resolved e))
      @ member_if (le_integrity e \<noteq> None) ''integrity'' (JStr (the (le_integrity e)))
      @ member_if (le_dependencies e \<noteq> []) ''dependencies'' (strings_json (le_dependencies e))
      @ member_if (le_dev e) ''dev'' (JBool True)
      @ member_if (le_optional e) ''optional'' (JBool True)
      @ member_if (le_has_install_script e) ''hasInstallScript'' (JBool True)
      @ member_if (le_alias e \<noteq> None) ''alias'' (JStr (the (le_alias e)))
      @ member_if (le_peer_dependencies e \<noteq> []) ''peerDependencies'' (strings_json (le_peer_dependencies e))
      @ member_if (le_resolved_peers e \<noteq> []) ''resolvedPeers'' (strings_json (le_resolved_peers e)))"

definition lockfile_json :: "lockfile \<Rightarrow> json" where
  "lockfile_json lf = JObj
     (member_if True ''lockfileVersion'' (JNum (decimal (lf_lockfile_version lf)))
      @ member_if True ''name'' (JStr (lf_name lf))
      @ member_if True ''version'' (JStr (lf_version lf))
      @ member_if (lf_roots lf \<noteq> []) ''roots'' (JArr (map JStr (lf_roots lf)))
      @ member_if (lf_root_dependencies lf \<noteq> []) ''rootDependencies'' (strings_json (lf_root_dependencies lf))
      @ member_if (lf_root_dev_dependencies lf \<noteq> []) ''rootDevDependencies'' (strings_json (lf_root_dev_dependencies lf))
      @ member_if True ''packages'' (JObj (map (\<lambda>(k, e). (k, lock_entry_json e)) (lf_packages lf))))"

text \<open>Reading: a struct's own members may not be repeated, others are ignored; a map keeps the last of equal keys.\<close>

definition struct_members :: "string list \<Rightarrow> json \<Rightarrow> json_map option" where
  "struct_members known j =
     (case j of JObj m \<Rightarrow> if distinct (filter (\<lambda>k. k \<in> set known) (map fst m)) then Some m else None | _ \<Rightarrow> None)"

fun decode_members :: "(json \<Rightarrow> 'a option) \<Rightarrow> json_map \<Rightarrow> (string \<times> 'a) list option" where
  "decode_members f [] = Some []"
| "decode_members f ((k, j) # m) = Option.bind (f j) (\<lambda>v. map_option ((#) (k, v)) (decode_members f m))"

fun decode_strings :: "json list \<Rightarrow> string list option" where
  "decode_strings [] = Some []"
| "decode_strings (j # js) = Option.bind (as_str j) (\<lambda>s. map_option ((#) s) (decode_strings js))"

definition btree_member :: "(json \<Rightarrow> 'a option) \<Rightarrow> json \<Rightarrow> (string, 'a) hmap option" where
  "btree_member f j = Option.bind (as_object j) (\<lambda>m. map_option btree (decode_members f m))"

definition required :: "json_map \<Rightarrow> string \<Rightarrow> (json \<Rightarrow> 'a option) \<Rightarrow> 'a option" where
  "required m k f = Option.bind (map_of m k) f"

definition defaulted :: "json_map \<Rightarrow> string \<Rightarrow> 'a \<Rightarrow> (json \<Rightarrow> 'a option) \<Rightarrow> 'a option" where
  "defaulted m k d f = (case map_of m k of None \<Rightarrow> Some d | Some j \<Rightarrow> f j)"

definition option_member :: "json \<Rightarrow> string option option" where
  "option_member j = (if j = JNull then Some None else map_option Some (as_str j))"

definition u32_member :: "json \<Rightarrow> nat option" where
  "u32_member j =
     (case j of
        JNum s \<Rightarrow> let n = foldl (\<lambda>n c. 10 * n + (of_char c - 48)) 0 s
                  in if s \<noteq> [] \<and> list_all (\<lambda>c. c \<in> set ''0123456789'') s \<and> n < 2 ^ 32 then Some n else None
      | _ \<Rightarrow> None)"

definition LOCK_ENTRY_MEMBERS :: "string list" where
  "LOCK_ENTRY_MEMBERS = [''name'', ''version'', ''resolved'', ''integrity'', ''dependencies'', ''dev'', ''optional'', ''hasInstallScript'', ''alias'',
     ''peerDependencies'', ''resolvedPeers'']"

definition LOCKFILE_MEMBERS :: "string list" where
  "LOCKFILE_MEMBERS = [''lockfileVersion'', ''name'', ''version'', ''roots'', ''rootDependencies'', ''rootDevDependencies'', ''packages'']"

definition lock_entry_of_json :: "json \<Rightarrow> lock_entry option" where
  "lock_entry_of_json j =
     Option.bind (struct_members LOCK_ENTRY_MEMBERS j) (\<lambda>m.
     Option.bind (defaulted m ''name'' None option_member) (\<lambda>nm.
     Option.bind (required m ''version'' as_str) (\<lambda>version.
     Option.bind (required m ''resolved'' as_str) (\<lambda>resolved.
     Option.bind (defaulted m ''integrity'' None option_member) (\<lambda>integrity.
     Option.bind (defaulted m ''dependencies'' [] (btree_member as_str)) (\<lambda>dependencies.
     Option.bind (defaulted m ''dev'' False as_bool) (\<lambda>dev.
     Option.bind (defaulted m ''optional'' False as_bool) (\<lambda>optional.
     Option.bind (defaulted m ''hasInstallScript'' False as_bool) (\<lambda>has_install_script.
     Option.bind (defaulted m ''alias'' None option_member) (\<lambda>alias.
     Option.bind (defaulted m ''peerDependencies'' [] (btree_member as_str)) (\<lambda>peer_dependencies.
     Option.bind (defaulted m ''resolvedPeers'' [] (btree_member as_str)) (\<lambda>resolved_peers.
     Some \<lparr>le_name = nm, le_version = version, le_resolved = resolved, le_integrity = integrity, le_dependencies = dependencies,
       le_dev = dev, le_optional = optional, le_has_install_script = has_install_script, le_alias = alias,
       le_peer_dependencies = peer_dependencies, le_resolved_peers = resolved_peers\<rparr>))))))))))))"

definition lockfile_of_json :: "json \<Rightarrow> lockfile option" where
  "lockfile_of_json j =
     Option.bind (struct_members LOCKFILE_MEMBERS j) (\<lambda>m.
     Option.bind (required m ''lockfileVersion'' u32_member) (\<lambda>lockfile_version.
     Option.bind (required m ''name'' as_str) (\<lambda>nm.
     Option.bind (required m ''version'' as_str) (\<lambda>version.
     Option.bind (defaulted m ''roots'' [] (\<lambda>j. Option.bind (as_array j) decode_strings)) (\<lambda>roots.
     Option.bind (defaulted m ''rootDependencies'' [] (btree_member as_str)) (\<lambda>root_dependencies.
     Option.bind (defaulted m ''rootDevDependencies'' [] (btree_member as_str)) (\<lambda>root_dev_dependencies.
     Option.bind (required m ''packages'' (btree_member lock_entry_of_json)) (\<lambda>packages.
     Some \<lparr>lf_lockfile_version = lockfile_version, lf_name = nm, lf_version = version, lf_roots = roots,
       lf_root_dependencies = root_dependencies, lf_root_dev_dependencies = root_dev_dependencies, lf_packages = packages\<rparr>))))))))"

definition lock_write :: "(json \<Rightarrow> 'b) \<Rightarrow> lockfile \<Rightarrow> 'b" where
  "lock_write to_string_pretty lf = to_string_pretty (lockfile_json lf)"

definition lock_read :: "('b \<Rightarrow> json option) \<Rightarrow> 'b option \<Rightarrow> (lock_error, lockfile) result" where
  "lock_read from_str content =
     bind_result (ok_or content Lock_unreadable) (\<lambda>data. ok_or (Option.bind (from_str data) lockfile_of_json) Lock_unparsable)"

section \<open>Questions to a lockfile\<close>

definition is_locked :: "lockfile \<Rightarrow> string \<Rightarrow> string \<Rightarrow> bool" where
  "is_locked lf name version \<longleftrightarrow> map_of (lf_packages lf) (name @ ''@'' @ version) \<noteq> None"

definition lock_package_count :: "lockfile \<Rightarrow> nat" where
  "lock_package_count lf = length (lf_packages lf)"

definition matches_manifest :: "lockfile \<Rightarrow> (string, string) hmap \<Rightarrow> (string, string) hmap \<Rightarrow> bool" where
  "matches_manifest lf dependencies dev_dependencies \<longleftrightarrow>
     lf_root_dependencies lf = btree dependencies \<and> lf_root_dev_dependencies lf = btree dev_dependencies"

section \<open>Lockfile to graph\<close>

definition node_of_entry :: "string \<Rightarrow> lock_entry \<Rightarrow> dep_node" where
  "node_of_entry key entry =
     \<lparr>dn_name = package_name_for_key entry key,
      dn_alias = le_alias entry,
      dn_version = le_version entry,
      dn_resolved = le_resolved entry,
      dn_integrity = le_integrity entry,
      dn_dependencies = hm_collect (le_dependencies entry),
      dn_has_install_script = le_has_install_script entry,
      dn_dev = le_dev entry,
      dn_optional = le_optional entry,
      dn_peer_dependencies = hm_collect (le_peer_dependencies entry),
      dn_optional_peers = {},
      dn_resolved_peers = hm_collect (le_resolved_peers entry)\<rparr>"

definition to_graph :: "lockfile \<Rightarrow> dep_graph" where
  "to_graph lf = new_graph\<lparr>dg_roots := lf_roots lf,
     dg_nodes := fold (\<lambda>(key, entry) nodes. hm_insert key (node_of_entry key entry) nodes) (lf_packages lf) (dg_nodes new_graph)\<rparr>"

section \<open>Lookups\<close>

lemma map_of_map_key: "map_of (map (\<lambda>(k, v). (k, f k v)) m) k = map_option (f k) (map_of m k)"
  by (induction m) auto

lemma hm_wf_map_key: "hm_wf (map (\<lambda>(k, v). (k, f k v)) m) \<longleftrightarrow> hm_wf m"
  by (simp add: hm_wf_def comp_def case_prod_beta)

lemma fold_hm_insert_map:
  "fold (\<lambda>(k, v) m. hm_insert k (f k v) m) kvs m = fold (\<lambda>(k, v). hm_insert k v) (map (\<lambda>(k, v). (k, f k v)) kvs) m"
  by (induction kvs arbitrary: m) auto

lemma packages_lookup:
  "graph_wf g \<Longrightarrow> map_of (lf_packages (from_graph_with_manifest g pn pv rd rdd)) k
     = map_option (lock_entry_of k) (map_of (dg_nodes g) k)"
  by (simp add: from_graph_with_manifest_def map_of_btree_wf hm_wf_map_key graph_wf_def map_of_map_key)

lemma to_graph_nodes:
  "hm_wf (lf_packages lf) \<Longrightarrow> dg_nodes (to_graph lf) = map (\<lambda>(k, e). (k, node_of_entry k e)) (lf_packages lf)"
proof -
  assume "hm_wf (lf_packages lf)"
  then have "hm_collect (map (\<lambda>(k, e). (k, node_of_entry k e)) (lf_packages lf))
      = map (\<lambda>(k, e). (k, node_of_entry k e)) (lf_packages lf)"
    by (intro hm_collect_distinct) (simp add: hm_wf_map_key)
  moreover have "dg_nodes (to_graph lf) = hm_collect (map (\<lambda>(k, e). (k, node_of_entry k e)) (lf_packages lf))"
    unfolding hm_collect_def fold_hm_insert_map[of node_of_entry, symmetric] by (simp add: to_graph_def new_graph_def)
  ultimately show ?thesis by simp
qed

lemma from_graph_wf [simp]: "hm_wf (lf_packages (from_graph_with_manifest g pn pv rd rdd))"
  by (simp add: from_graph_with_manifest_def)

lemma round_trip_lookup:
  assumes "graph_wf g"
  shows "map_of (dg_nodes (to_graph (from_graph_with_manifest g pn pv rd rdd))) k
    = map_option (\<lambda>n. node_of_entry k (lock_entry_of k n)) (map_of (dg_nodes g) k)"
  by (simp add: to_graph_nodes map_of_map_key packages_lookup[OF assms] option.map_comp comp_def)

section \<open>Names can be recovered\<close>

text \<open>A substring is always found, and what follows its last occurrence does not contain it.\<close>

lemma lock_key_canonical:
  assumes "name \<noteq> []" "CHR ''@'' \<notin> set version" "\<not> contains_str (name @ ''@'' @ version) ''node_modules/''"
  shows "lock_key_package_name (name @ ''@'' @ version) = name"
proof -
  have "rfind_str ''node_modules/'' (name @ ''@'' @ version) = None"
    using assms(3) unfolding contains_str_iff rfind_str_None by simp
  moreover have "split_last (CHR ''@'') (name @ ''@'' @ version) = Some (name, version)"
    unfolding split_last_Some using assms(2) by simp
  ultimately show ?thesis using assms(1) by (simp add: lock_key_package_name_def)
qed

text \<open>
  The entry of a node gives its name back: it is stored unless the key is canonical, and then the source
  must not name another package and the key must read as \<open>name@version\<close>.
\<close>

definition name_recoverable :: "string \<Rightarrow> dep_node \<Rightarrow> bool" where
  "name_recoverable key n \<longleftrightarrow> key \<noteq> graph_key (dn_name n) (dn_version n)
     \<or> npm_tarball_package_name (dn_resolved n) = Some (dn_name n)
     \<or> npm_tarball_package_name (dn_resolved n) = None \<and> dn_name n \<noteq> [] \<and> CHR ''@'' \<notin> set (dn_version n)
        \<and> \<not> contains_str key ''node_modules/''"

lemma package_name_recovered:
  assumes "name_recoverable key n"
  shows "package_name_for_key (lock_entry_of key n) key = dn_name n"
proof (cases "key = graph_key (dn_name n) (dn_version n)")
  case True
  then have "npm_tarball_package_name (dn_resolved n) = Some (dn_name n) \<or>
      npm_tarball_package_name (dn_resolved n) = None \<and> lock_key_package_name key = dn_name n"
    using assms lock_key_canonical[of "dn_name n" "dn_version n"] unfolding name_recoverable_def graph_key_def by blast
  then show ?thesis using True
    by (auto simp: package_name_for_key_def lock_entry_of_def Let_def graph_key_def)
next
  case False
  then show ?thesis by (simp add: package_name_for_key_def lock_entry_of_def Let_def graph_key_def)
qed

text \<open>Two nodes as Rust's equality on the fields compares them, the optional peers left out.\<close>

definition node_same :: "dep_node \<Rightarrow> dep_node \<Rightarrow> bool" where
  "node_same a b \<longleftrightarrow> dn_name a = dn_name b \<and> dn_alias a = dn_alias b \<and> dn_version a = dn_version b
     \<and> dn_resolved a = dn_resolved b \<and> dn_integrity a = dn_integrity b
     \<and> map_of (dn_dependencies a) = map_of (dn_dependencies b)
     \<and> dn_has_install_script a = dn_has_install_script b \<and> dn_dev a = dn_dev b \<and> dn_optional a = dn_optional b
     \<and> map_of (dn_peer_dependencies a) = map_of (dn_peer_dependencies b)
     \<and> map_of (dn_resolved_peers a) = map_of (dn_resolved_peers b)"

lemma node_round_trip:
  assumes "node_wf n" "name_recoverable k n"
  shows "node_same n (node_of_entry k (lock_entry_of k n))"
proof -
  have "map_of (hm_collect (btree m)) = map_of m" if "hm_wf m" for m :: "(string, string) hmap"
    by (simp add: hm_collect_distinct map_of_btree_wf that)
  then show ?thesis
    using assms package_name_recovered[OF assms(2)]
    by (simp add: node_same_def node_of_entry_def node_wf_def) (simp add: lock_entry_of_def Let_def)
qed

lemma graph_wf_wrap: "graph_wf g \<Longrightarrow> graph_get g k = Some n \<Longrightarrow> node_wf n"
  by (simp add: graph_get_def graph_wf_node)

section \<open>Writing and reading back\<close>

lemma map_of_member_if [simp]: "map_of (member_if b k v @ m) x = (if b \<and> x = k then Some v else map_of m x)"
  "map_of (member_if b k v) x = (if b \<and> x = k then Some v else None)"
  by (auto simp: member_if_def)

lemma subseq_member_if: "subseq (map fst m) ks \<Longrightarrow> subseq (map fst (member_if b k v @ m)) (k # ks)" "subseq (map fst (member_if b k v)) [k]"
  by (auto simp: member_if_def)

lemma subseq_set: "subseq xs ys \<Longrightarrow> set xs \<subseteq> set ys"
  by (induction rule: list_emb.induct) auto

lemma subseq_keeps_distinct: "subseq xs ys \<Longrightarrow> distinct ys \<Longrightarrow> distinct xs"
  by (induction rule: list_emb.induct) (auto dest: subseq_set)

lemma struct_members_subseq: "subseq (map fst m) known \<Longrightarrow> distinct known \<Longrightarrow> struct_members known (JObj m) = Some m"
  by (auto simp: struct_members_def dest: subseq_keeps_distinct intro: distinct_filter)

lemma decode_members_map: "(\<And>k v. (k, v) \<in> set m \<Longrightarrow> f (g v) = Some v) \<Longrightarrow> decode_members f (map (\<lambda>(k, v). (k, g v)) m) = Some m"
  by (induction m) force+

lemma decode_strings_map: "decode_strings (map JStr xs) = Some xs"
  by (induction xs) simp_all

lemma btree_btree [simp]: "btree (btree m) = btree m"
  by (rule btree_cong) (simp add: hm_collect_distinct map_of_btree)

lemma btree_member_strings: "btree m = m \<Longrightarrow> btree_member as_str (strings_json m) = Some m"
  using decode_members_map[of m as_str JStr] by (simp add: btree_member_def strings_json_def)

lemma lock_entry_json_round_trip:
  assumes "btree (le_dependencies e) = le_dependencies e" "btree (le_peer_dependencies e) = le_peer_dependencies e" "btree (le_resolved_peers e) = le_resolved_peers e"
  shows "lock_entry_of_json (lock_entry_json e) = Some e"
proof -
  obtain m where m: "lock_entry_json e = JObj m" by (simp add: lock_entry_json_def)
  have d: "distinct LOCK_ENTRY_MEMBERS" by (simp add: LOCK_ENTRY_MEMBERS_def)
  have s: "struct_members LOCK_ENTRY_MEMBERS (lock_entry_json e) = Some m"
    unfolding m by (rule struct_members_subseq[OF _ d])
      (use m in \<open>auto simp: lock_entry_json_def LOCK_ENTRY_MEMBERS_def simp del: map_append intro!: subseq_member_if\<close>)
  have "defaulted m ''name'' None option_member = Some (le_name e)" "required m ''version'' as_str = Some (le_version e)"
    "required m ''resolved'' as_str = Some (le_resolved e)" "defaulted m ''integrity'' None option_member = Some (le_integrity e)"
    "defaulted m ''dependencies'' [] (btree_member as_str) = Some (le_dependencies e)" "defaulted m ''dev'' False as_bool = Some (le_dev e)"
    "defaulted m ''optional'' False as_bool = Some (le_optional e)" "defaulted m ''hasInstallScript'' False as_bool = Some (le_has_install_script e)"
    "defaulted m ''alias'' None option_member = Some (le_alias e)" "defaulted m ''peerDependencies'' [] (btree_member as_str) = Some (le_peer_dependencies e)"
    "defaulted m ''resolvedPeers'' [] (btree_member as_str) = Some (le_resolved_peers e)"
    using m[symmetric] assms
    by (auto simp: lock_entry_json_def defaulted_def required_def option_member_def btree_member_strings simp del: map_of_append)
  then show ?thesis unfolding lock_entry_of_json_def s by simp
qed

definition lockfile_sorted :: "lockfile \<Rightarrow> bool" where
  "lockfile_sorted lf \<longleftrightarrow> btree (lf_root_dependencies lf) = lf_root_dependencies lf \<and> btree (lf_root_dev_dependencies lf) = lf_root_dev_dependencies lf
     \<and> btree (lf_packages lf) = lf_packages lf
     \<and> (\<forall>(k, e)\<in>set (lf_packages lf). btree (le_dependencies e) = le_dependencies e \<and> btree (le_peer_dependencies e) = le_peer_dependencies e
          \<and> btree (le_resolved_peers e) = le_resolved_peers e)"

lemma lockfile_json_round_trip:
  assumes "lockfile_sorted lf" "lf_lockfile_version lf = LOCKFILE_VERSION"
  shows "lockfile_of_json (lockfile_json lf) = Some lf"
proof -
  obtain m where m: "lockfile_json lf = JObj m" by (simp add: lockfile_json_def)
  have d: "distinct LOCKFILE_MEMBERS" by (simp add: LOCKFILE_MEMBERS_def)
  have s: "struct_members LOCKFILE_MEMBERS (lockfile_json lf) = Some m"
    unfolding m by (rule struct_members_subseq[OF _ d])
      (use m in \<open>auto simp: lockfile_json_def LOCKFILE_MEMBERS_def simp del: map_append intro!: subseq_member_if\<close>)
  have v: "u32_member (JNum (decimal (lf_lockfile_version lf))) = Some (lf_lockfile_version lf)"
  proof -
    have "decimal 2 = ''2''" by code_simp
    moreover have "u32_member (JNum ''2'') = Some 2" by (simp add: u32_member_def)
    ultimately show ?thesis by (simp add: assms(2) LOCKFILE_VERSION_def)
  qed
  have "decode_members lock_entry_of_json (map (\<lambda>(k, e). (k, lock_entry_json e)) (lf_packages lf)) = Some (lf_packages lf)"
    by (rule decode_members_map, rule lock_entry_json_round_trip) (use assms(1) in \<open>auto simp: lockfile_sorted_def\<close>)
  then have p: "btree_member lock_entry_of_json (JObj (map (\<lambda>(k, e). (k, lock_entry_json e)) (lf_packages lf))) = Some (lf_packages lf)"
    using assms(1) by (simp add: btree_member_def lockfile_sorted_def)
  have roots: "btree (lf_root_dependencies lf) = lf_root_dependencies lf" "btree (lf_root_dev_dependencies lf) = lf_root_dev_dependencies lf"
    using assms(1) by (simp_all add: lockfile_sorted_def)
  note mm = m[unfolded lockfile_json_def json.inject, symmetric]
  have "required m ''lockfileVersion'' u32_member = Some (lf_lockfile_version lf)" "required m ''name'' as_str = Some (lf_name lf)"
    "required m ''version'' as_str = Some (lf_version lf)" "defaulted m ''roots'' [] (\<lambda>j. Option.bind (as_array j) decode_strings) = Some (lf_roots lf)"
    "defaulted m ''rootDependencies'' [] (btree_member as_str) = Some (lf_root_dependencies lf)"
    "defaulted m ''rootDevDependencies'' [] (btree_member as_str) = Some (lf_root_dev_dependencies lf)"
    "required m ''packages'' (btree_member lock_entry_of_json) = Some (lf_packages lf)"
    unfolding mm defaulted_def required_def
    by (simp_all add: v p btree_member_strings[OF roots(1)] btree_member_strings[OF roots(2)] decode_strings_map del: map_of_append)
  then show ?thesis unfolding lockfile_of_json_def s by simp
qed

lemma from_graph_sorted: "lockfile_sorted (from_graph_with_manifest g pn pv rd rdd)"
proof -
  have "\<exists>k n. (k, n) \<in> set (dg_nodes g) \<and> e = lock_entry_of k n"
    if "(key, e) \<in> set (btree (map (\<lambda>(key, node). (key, lock_entry_of key node)) (dg_nodes g)))" for key e
  proof -
    have "map_of (btree (map (\<lambda>(key, node). (key, lock_entry_of key node)) (dg_nodes g))) key = Some e"
      by (rule map_of_is_SomeI[OF _ that]) (use btree_wf in \<open>auto simp: hm_wf_def\<close>)
    then have "(key, e) \<in> (\<lambda>(key, node). (key, lock_entry_of key node)) ` set (dg_nodes g)"
      unfolding map_of_btree map_of_hm_collect by (auto dest!: map_of_SomeD)
    then show ?thesis by auto
  qed
  then show ?thesis by (fastforce simp: lockfile_sorted_def from_graph_with_manifest_def lock_entry_of_def Let_def)
qed

text \<open>
  C30: locking a graph, writing the lockfile and reading it back gives the same packages: reading succeeds, with the same keys, under each
  key the same name, version, source, integrity, flags, dependencies and peers, and the same roots. The
  name of a node is read back where its key is a location, or its source or key names it; the set of optional
  peers is the one part that is not kept. The condition on serde is that it parses the text it prints for this lockfile to the same JSON value.
\<close>

theorem lockfile_round_trip:
  assumes "graph_wf g" and "\<forall>(k, n)\<in>set (dg_nodes g). name_recoverable k n"
    and lf: "lf = from_graph_with_manifest g pn pv rd rdd"
    and serde: "from_str (to_string_pretty (lockfile_json lf)) = Some (lockfile_json lf)"
  shows "\<exists>lf'. lock_read from_str (Some (lock_write to_string_pretty lf)) = Inr lf'
    \<and> (\<forall>k. rel_option node_same (graph_get g k) (graph_get (to_graph lf') k))
    \<and> set (dg_roots (to_graph lf')) = set (dg_roots g)"
proof (intro exI conjI allI)
  have "lockfile_of_json (lockfile_json lf) = Some lf"
    using lockfile_json_round_trip[OF from_graph_sorted] unfolding lf by (simp add: from_graph_with_manifest_def)
  then show "lock_read from_str (Some (lock_write to_string_pretty lf)) = Inr lf"
    by (simp add: lock_read_def lock_write_def serde)
  fix k
  show "rel_option node_same (graph_get g k) (graph_get (to_graph lf) k)"
  proof (cases "map_of (dg_nodes g) k")
    case (Some n)
    then have "name_recoverable k n" using assms(2) by (auto dest: map_of_SomeD)
    then show ?thesis
      using node_round_trip graph_wf_node[OF assms(1) Some] Some by (simp add: lf graph_get_def round_trip_lookup[OF assms(1)])
  qed (simp add: lf graph_get_def round_trip_lookup[OF assms(1)])
qed (simp add: lf to_graph_def new_graph_def from_graph_with_manifest_def)

definition sample_dep :: dep_node where
  "sample_dep = \<lparr>dn_name = ''a'', dn_alias = None, dn_version = ''1'', dn_resolved = ''u'', dn_integrity = None,
     dn_dependencies = [(''b'', ''b@1'')], dn_has_install_script = False, dn_dev = False, dn_optional = False,
     dn_peer_dependencies = [], dn_optional_peers = {}, dn_resolved_peers = []\<rparr>"

definition sample_graph :: dep_graph where
  "sample_graph = new_graph\<lparr>dg_nodes := [(''node_modules/a'', sample_dep), (''a@1'', sample_dep)], dg_roots := [''a@1'']\<rparr>"

lemma sample_names: "npm_tarball_package_name ''u'' = None" "\<not> contains_str ''a@1'' ''node_modules/''"
  by code_simp+

lemma sample_graph_ok: "graph_wf sample_graph" "\<forall>(k, n)\<in>set (dg_nodes sample_graph). name_recoverable k n"
  using sample_names by (simp_all add: sample_graph_def graph_wf_def hm_wf_def node_wf_def sample_dep_def name_recoverable_def graph_key_def)

theorem lockfile_round_trip_witness:
  "\<exists>lf'. lock_read Some (Some (lock_write (\<lambda>j. j) (from_graph_with_manifest sample_graph ''p'' ''1'' [] []))) = Inr lf'
     \<and> set (dg_roots (to_graph lf')) = {''a@1''}"
  using lockfile_round_trip[OF sample_graph_ok refl, of Some "\<lambda>j. j" "''p''" "''1''" "[]" "[]"] by (auto simp: sample_graph_def)

section \<open>Lockfiles do not depend on iteration order\<close>

definition graph_permuted :: "dep_graph \<Rightarrow> dep_graph \<Rightarrow> bool" where
  "graph_permuted g h \<longleftrightarrow> (\<forall>k. rel_option node_same (graph_get g k) (graph_get h k)) \<and> set (dg_roots g) = set (dg_roots h)"

lemma btree_eqI: "hm_wf a \<Longrightarrow> hm_wf b \<Longrightarrow> map_of a = map_of b \<Longrightarrow> btree a = btree b"
  by (rule btree_cong) (simp add: hm_collect_distinct)

lemma sorted_distinct_remdups_adj: "sorted xs \<Longrightarrow> distinct (remdups_adj (xs :: 'a :: linorder list))"
proof (induction xs rule: remdups_adj.induct)
  case (3 x y xs)
  then show ?case by (cases "x = y") force+
qed simp_all

lemma sorted_roots_unique:
  assumes "set a = set (b :: string list)" shows "remdups_adj (sort a) = remdups_adj (sort b)"
  by (rule sorted_distinct_set_unique)
    (use assms in \<open>simp_all add: sorted_remdups_adj sorted_distinct_remdups_adj\<close>)

lemma lock_entry_of_same:
  assumes "node_same a b" "node_wf a" "node_wf b" shows "lock_entry_of k a = lock_entry_of k b"
proof -
  have "btree (dn_dependencies a) = btree (dn_dependencies b)"
    "btree (dn_peer_dependencies a) = btree (dn_peer_dependencies b)"
    "btree (dn_resolved_peers a) = btree (dn_resolved_peers b)"
    using assms by (auto simp: node_same_def node_wf_def intro: btree_eqI)
  then show ?thesis using assms(1) by (simp add: lock_entry_of_def Let_def node_same_def)
qed

text \<open>
  The lockfile is a function of the content of the graph alone: graphs that hold the same packages
  and roots, whatever the iteration order of their hash maps and the order and repetition of their roots, give the same lockfile.
\<close>

theorem lockfile_deterministic:
  assumes "graph_wf g" "graph_wf h" "graph_permuted g h"
    and "hm_wf rd" "hm_wf rd'" "map_of rd = map_of rd'" "hm_wf rdd" "hm_wf rdd'" "map_of rdd = map_of rdd'"
  shows "from_graph_with_manifest g pn pv rd rdd = from_graph_with_manifest h pn pv rd' rdd'"
proof -
  let ?e = "\<lambda>g. map (\<lambda>(key, node). (key, lock_entry_of key node)) (dg_nodes g)"
  have "map_of (?e g) k = map_of (?e h) k" for k
  proof (cases "map_of (dg_nodes g) k")
    case None
    then show ?thesis using assms(3) by (auto simp: graph_permuted_def graph_get_def map_of_map_key elim!: allE[of _ k])
  next
    case (Some n)
    then obtain m where m: "map_of (dg_nodes h) k = Some m" "node_same n m"
      using assms(3) unfolding graph_permuted_def graph_get_def by (metis option_rel_Some1)
    then have "lock_entry_of k n = lock_entry_of k m"
      using lock_entry_of_same graph_wf_node[OF assms(1) Some] graph_wf_node[OF assms(2) m(1)] by blast
    then show ?thesis using Some m by (simp add: map_of_map_key)
  qed
  then have "btree (?e g) = btree (?e h)"
    using assms(1,2) by (intro btree_eqI) (auto simp: hm_wf_map_key graph_wf_def)
  moreover have "remdups_adj (sort (dg_roots g)) = remdups_adj (sort (dg_roots h))"
    using assms(3) by (intro sorted_roots_unique) (simp add: graph_permuted_def)
  ultimately show ?thesis
    using btree_eqI[OF assms(4-6)] btree_eqI[OF assms(7-9)] by (simp add: from_graph_with_manifest_def)
qed

theorem lockfile_deterministic_witness:
  "from_graph_with_manifest sample_graph ''p'' ''1'' [(''b'', ''1''), (''a'', ''2'')] []
   = from_graph_with_manifest (sample_graph\<lparr>dg_roots := [''a@1'', ''a@1'']\<rparr>) ''p'' ''1'' [(''a'', ''2''), (''b'', ''1'')] []"
proof -
  have same: "rel_option node_same x x" for x by (cases x) (simp_all add: node_same_def)
  have "graph_permuted sample_graph (sample_graph\<lparr>dg_roots := [''a@1'', ''a@1'']\<rparr>)"
    by (simp add: graph_permuted_def graph_get_def same) (simp add: sample_graph_def)
  moreover have "graph_wf (sample_graph\<lparr>dg_roots := [''a@1'', ''a@1'']\<rparr>)"
    using sample_graph_ok(1) by (simp add: graph_wf_def)
  moreover have "map_of [(''b'', ''1''), (''a'', ''2'')] = map_of [(''a'', ''2''), (''b'', ''1'')]" by auto
  ultimately show ?thesis
    using lockfile_deterministic[OF sample_graph_ok(1)] by (simp add: hm_wf_def)
qed

lemma btree_eq_iff: "hm_wf a \<Longrightarrow> hm_wf b \<Longrightarrow> btree a = btree b \<longleftrightarrow> map_of a = map_of b"
  using btree_eqI map_of_btree_wf by metis

text \<open>
  The freshness test is exact: a lockfile written for one manifest matches another manifest exactly
  when both ask for the same ranges in both dependency tables, in any order.
\<close>

theorem matches_manifest_exact:
  assumes "hm_wf rd" "hm_wf rdd" "hm_wf d" "hm_wf dd"
  shows "matches_manifest (from_graph_with_manifest g pn pv rd rdd) d dd
    \<longleftrightarrow> map_of rd = map_of d \<and> map_of rdd = map_of dd"
  by (simp add: matches_manifest_def from_graph_with_manifest_def btree_eq_iff assms)

theorem matches_manifest_exact_witness:
  "\<not> matches_manifest (from_graph_with_manifest new_graph ''p'' ''1'' [(''a'', ''^1'')] []) [(''a'', ''^2'')] []"
  using matches_manifest_exact[of "[(''a'', ''^1'')]" "[]" "[(''a'', ''^2'')]" "[]" new_graph "''p''" "''1''"]
  by (simp add: hm_wf_def fun_eq_iff)

section \<open>Names from registry sources\<close>

lemma find_str_first:
  assumes "\<And>k. k < length a \<Longrightarrow> \<not> starts_with (drop k (a @ p @ b)) p"
  shows "find_str p (a @ p @ b) = Some (a, b)"
  using assms
proof (induction a)
  case Nil
  then show ?case by (subst find_str.simps) simp
next
  case (Cons x xs)
  have "\<not> starts_with (x # xs @ p @ b) p" using Cons.prems[of 0] by simp
  moreover have "find_str p (xs @ p @ b) = Some (xs, b)"
    by (rule Cons.IH) (use Cons.prems[of "Suc k" for k] in auto)
  ultimately show ?case by (subst find_str.simps) (simp add: strip_prefix_def)
qed

lemma replace_str_absent: "\<not> contains_str s pat \<Longrightarrow> str_replace pat rep s = s"
  by (cases "length s"; cases "find_str pat s") (auto simp: str_replace_def contains_str_def)

lemma contains_str_member: "contains_str s (c # p) \<Longrightarrow> c \<in> set s"
  by (auto simp: contains_str_iff)

lemma split_char_last: "c \<notin> set b \<Longrightarrow> split_char c (a @ c # b) = split_char c a @ [b]"
  by (induction a) (auto simp: split_char_notin split: list.splits)

text \<open>
  The slash that opens \<open>/-/\<close> is the first one with a dash after it: no earlier one, neither
  in the registry URL nor in the package name, which cannot be a lone dash.
\<close>

definition registry_url :: "string \<Rightarrow> string \<Rightarrow> string \<Rightarrow> bool" where
  "registry_url base name file \<longleftrightarrow> \<not> contains_str (base @ ''/'' @ name) ''/-/'' \<and> name \<noteq> [] \<and> name \<noteq> ''-''
     \<and> \<not> ends_with (base @ ''/'' @ name) ''/-'' \<and> name \<noteq> []
     \<and> CHR ''%'' \<notin> set name \<and> CHR ''?'' \<notin> set (base @ name @ file) \<and> CHR ''#'' \<notin> set (base @ name @ file)"

lemma registry_split:
  assumes "registry_url base name file"
  shows "find_str ''/-/'' ((base @ ''/'' @ name) @ ''/-/'' @ file) = Some (base @ ''/'' @ name, file)"
proof (rule find_str_first)
  fix k
  define a where "a = base @ ''/'' @ name"
  assume "k < length (base @ ''/'' @ name)"
  then have k: "k < length a" by (simp only: a_def)
  have no: "\<nexists>x y. a = x @ ''/-/'' @ y" "\<nexists>x. a = x @ ''/-''"
    using assms unfolding registry_url_def ends_with_iff contains_str_iff a_def by blast+
  define b where "b = drop k a"
  have ab: "a = take k a @ b" "b \<noteq> []" using k by (simp_all add: b_def)
  have "\<not> starts_with (b @ ''/-/'' @ file) ''/-/''"
  proof
    assume s: "starts_with (b @ ''/-/'' @ file) ''/-/''"
    show False
    proof (cases b rule: remdups_adj.cases)
      case (3 x y c)
      show False
      proof (cases c)
        case Nil
        then have "b = ''/-''" using s 3 by simp
        then show False using ab(1) no(2) by metis
      next
        case (Cons z d)
        then have "b = ''/-/'' @ d" using s 3 by simp
        then show False using ab(1) no(1) by metis
      qed
    qed (use s ab in simp_all)
  qed
  then have "\<not> starts_with (drop k (a @ ''/-/'' @ file)) ''/-/''"
    using k unfolding b_def by (simp only: drop_append) simp
  then show "\<not> starts_with (drop k ((base @ ''/'' @ name) @ ''/-/'' @ file)) ''/-/''" unfolding a_def .
qed

text \<open>
  The package name is read off a registry's tarball URL: for \<open>base/name/-/file\<close> with an unscoped
  name below a segment that is not a scope it is the name, and with a scoped name it is the scope and the name.
\<close>

theorem npm_tarball_name_correct:
  assumes "registry_url base name file" and "CHR ''/'' \<notin> set name" and "CHR ''@'' \<notin> set name"
  shows "(\<not> starts_with (last (split_char (CHR ''/'') base)) ''@''
            \<longrightarrow> npm_tarball_package_name (base @ ''/'' @ name @ ''/-/'' @ file) = Some name)
    \<and> (base = host @ ''/@'' @ scope \<and> CHR ''/'' \<notin> set scope
            \<longrightarrow> npm_tarball_package_name (base @ ''/'' @ name @ ''/-/'' @ file) = Some (''@'' @ scope @ ''/'' @ name))"
proof -
  let ?p = "(base @ ''/'' @ name) @ ''/-/'' @ file"
  have path: "takeWhile (\<lambda>c. c \<noteq> CHR ''?'' \<and> c \<noteq> CHR ''#'') ?p = ?p"
    using assms(1) by (subst takeWhile_eq_all_conv) (auto simp: registry_url_def)
  have ne: "base @ ''/'' @ name \<noteq> ?p" by simp
  have seg: "rev (split_char (CHR ''/'') (base @ ''/'' @ name)) = name # rev (split_char (CHR ''/'') base)"
    using split_char_last[OF assms(2), of base] by simp
  have "CHR ''%'' \<notin> set name" using assms(1) by (simp add: registry_url_def)
  then have rep: "str_replace ''%2F'' ''/'' (str_replace ''%2f'' ''/'' name) = name"
    using contains_str_member[of name "CHR ''%''" "''2f''"] contains_str_member[of name "CHR ''%''" "''2F''"]
    by (subst replace_str_absent; subst replace_str_absent; auto)
  have prev: "(case tl (name # rev (split_char (CHR ''/'') base)) of [] \<Rightarrow> [] | p # _ \<Rightarrow> p) = last (split_char (CHR ''/'') base)"
    by (cases "split_char (CHR ''/'') base" rule: rev_cases) simp_all
  have res: "npm_tarball_package_name ?p =
      (if starts_with (last (split_char (CHR ''/'') base)) ''@''
       then Some (last (split_char (CHR ''/'') base) @ ''/'' @ name) else Some name)"
    unfolding npm_tarball_package_name_def Let_def path registry_split[OF assms(1)] option.case prod.case seg list.sel(1) rep prev
    using ne assms(2) by simp
  have scoped: "last (split_char (CHR ''/'') base) = ''@'' @ scope" if "base = host @ ''/@'' @ scope" "CHR ''/'' \<notin> set scope"
    using split_char_last[of "CHR ''/''" "CHR ''@'' # scope" host] that by simp
  have eq: "base @ ''/'' @ name @ ''/-/'' @ file = ?p" by simp
  show ?thesis unfolding eq res
  proof (intro conjI impI)
    assume "base = host @ ''/@'' @ scope \<and> CHR ''/'' \<notin> set scope"
    then have "last (split_char (CHR ''/'') base) = ''@'' @ scope" using scoped by blast
    then show "(if starts_with (last (split_char (CHR ''/'') base)) ''@''
       then Some (last (split_char (CHR ''/'') base) @ ''/'' @ name) else Some name) = Some (''@'' @ scope @ ''/'' @ name)"
      by simp
  qed simp
qed

theorem npm_tarball_name_correct_witness:
  "npm_tarball_package_name ''https://r.io/lodash/-/lodash-4.tgz'' = Some ''lodash''"
proof -
  have "registry_url ''https://r.io'' ''lodash'' ''lodash-4.tgz''" by code_simp
  moreover have "\<not> starts_with (last (split_char (CHR ''/'') ''https://r.io'')) ''@''" by code_simp
  ultimately show ?thesis
    using npm_tarball_name_correct[of "''https://r.io''" "''lodash''" "''lodash-4.tgz''"] by simp
qed

text \<open>
  For a scoped package placed by location the name read from the key alone lacks its last
  letter: the slice is taken on the text with the at sign, its length is computed without it.
\<close>

lemma lock_key_scoped_location: "lock_key_package_name ''node_modules/@scope/pkg'' = ''@scope/pk''"
  by code_simp

end
