(* ===== verification/Npm_Import.thy ===== *)
theory Npm_Import
  imports Dep_Graph Json
begin

text \<open>
  Importing npm's \<open>package-lock.json\<close> (\<open>crates/oath-resolve/src/import.rs\<close>). The JSON decoder is a parameter
  and the operating system and architecture of the build, \<open>std::env::consts\<close>, are arguments.
\<close>

section \<open>Platform\<close>

fun match_items :: "string \<Rightarrow> string list \<Rightarrow> bool \<Rightarrow> bool \<Rightarrow> bool" where
  "match_items current [] has_positive included = (\<not> has_positive \<or> included)"
| "match_items current (item # items) has_positive included =
     (case strip_prefix item ''!'' of
        Some neg \<Rightarrow> if neg = current then False else match_items current items has_positive included
      | None \<Rightarrow> match_items current items True (if item = current then True else included))"

definition matches_list :: "json option \<Rightarrow> string \<Rightarrow> bool" where
  "matches_list field current =
     (case Option.bind field as_array of
        Some (x # xs) \<Rightarrow> match_items current (List.map_filter as_str (x # xs)) False False
      | _ \<Rightarrow> True)"

definition current_npm_os :: "string \<Rightarrow> string" where
  "current_npm_os os = (if os = ''macos'' then ''darwin'' else if os = ''windows'' then ''win32'' else os)"

definition current_npm_cpu :: "string \<Rightarrow> string" where
  "current_npm_cpu arch = (if arch = ''x86_64'' then ''x64'' else if arch = ''aarch64'' then ''arm64''
     else if arch = ''x86'' then ''ia32'' else arch)"

definition platform_matches :: "string \<Rightarrow> string \<Rightarrow> json_map \<Rightarrow> bool" where
  "platform_matches os arch entry \<longleftrightarrow>
     matches_list (map_of entry ''os'') (current_npm_os os) \<and> matches_list (map_of entry ''cpu'') (current_npm_cpu arch)"

section \<open>Paths of the lockfile\<close>

definition name_from_path :: "string \<Rightarrow> string" where
  "name_from_path pkg_path =
     (case rfind_str ''node_modules/'' pkg_path of Some (_, rest) \<Rightarrow> rest | None \<Rightarrow> pkg_path)"

definition dep_candidate :: "string \<Rightarrow> string \<Rightarrow> string" where
  "dep_candidate prefix_path dep =
     (if prefix_path = [] then ''node_modules/'' @ dep else prefix_path @ ''/node_modules/'' @ dep)"

definition parent_prefix :: "string \<Rightarrow> string" where
  "parent_prefix prefix_path =
     (case rfind_str ''/node_modules/'' prefix_path of Some (before, _) \<Rightarrow> before | None \<Rightarrow> [])"

lemma parent_prefix_shorter: "p \<noteq> [] \<Longrightarrow> length (parent_prefix p) < length p"
  unfolding parent_prefix_def by (auto split: option.splits dest: rfind_str_Some)

function resolve_dep_path :: "json_map \<Rightarrow> string \<Rightarrow> string \<Rightarrow> string option" where
  "resolve_dep_path packages prefix_path dep =
     (let cand = dep_candidate prefix_path dep
      in if map_of packages cand \<noteq> None then Some cand
         else if prefix_path = [] then None
         else resolve_dep_path packages (parent_prefix prefix_path) dep)"
  by pat_completeness auto
termination
  by (relation "measure (\<lambda>(_, p, _). length p)") (auto simp: parent_prefix_shorter)

declare resolve_dep_path.simps [simp del]

section \<open>Import\<close>

datatype import_error = Import_unreadable | Import_unparsable | Import_no_packages | Import_empty

definition range_map :: "json option \<Rightarrow> (string, string) hmap" where
  "range_map v = (case Option.bind v as_object of Some m \<Rightarrow> hm_collect (string_members m) | None \<Rightarrow> [])"

text \<open>The node of an entry, absent when the loop continues with the next one.\<close>

definition import_node :: "string \<Rightarrow> string \<Rightarrow> string \<Rightarrow> json \<Rightarrow> dep_node option" where
  "import_node os arch pkg_path value =
     (if pkg_path = [] then None
      else case as_object value of
        None \<Rightarrow> None
      | Some entry \<Rightarrow>
          if get_bool entry ''link'' then None
          else case get_str entry ''version'' of
            None \<Rightarrow> None
          | Some version \<Rightarrow>
              if \<not> platform_matches os arch entry then None
              else let dev_optional = get_bool entry ''devOptional''
                   in Some \<lparr>dn_name = name_from_path pkg_path, dn_alias = None, dn_version = version,
                        dn_resolved = (case get_str entry ''resolved'' of Some r \<Rightarrow> r | None \<Rightarrow> []),
                        dn_integrity = get_str entry ''integrity'',
                        dn_dependencies = [],
                        dn_has_install_script = get_bool entry ''hasInstallScript'',
                        dn_dev = (get_bool entry ''dev'' \<or> dev_optional),
                        dn_optional = (get_bool entry ''optional'' \<or> dev_optional),
                        dn_peer_dependencies = range_map (map_of entry ''peerDependencies''),
                        dn_optional_peers = {},
                        dn_resolved_peers = []\<rparr>)"

type_synonym import_state = "(string, string) hmap \<times> (string, dep_node) hmap"

definition import_first :: "string \<Rightarrow> string \<Rightarrow> string \<times> json \<Rightarrow> import_state \<Rightarrow> import_state" where
  "import_first os arch kv st =
     (case import_node os arch (fst kv) (snd kv) of
        None \<Rightarrow> st
      | Some node \<Rightarrow> let key = graph_key (dn_name node) (dn_version node)
                    in (hm_insert (fst kv) key (fst st), hm_insert key node (snd st)))"

definition resolve_names ::
  "json_map \<Rightarrow> (string, string) hmap \<Rightarrow> string \<Rightarrow> json_map \<Rightarrow> string list \<Rightarrow> (string \<times> string) list" where
  "resolve_names packages path_to_key from_path entry flds =
     List.map_filter (\<lambda>dep_name.
         map_option (Pair dep_name)
           (Option.bind (resolve_dep_path packages from_path dep_name) (map_of path_to_key)))
       (concat (map (\<lambda>field. case get_object entry field of None \<Rightarrow> [] | Some deps \<Rightarrow> object_keys deps) flds))"

definition import_second ::
  "json_map \<Rightarrow> (string, string) hmap \<Rightarrow> string \<times> json \<Rightarrow> (string, dep_node) hmap \<Rightarrow> (string, dep_node) hmap" where
  "import_second packages path_to_key kv nodes =
     (case as_object (snd kv) of
        None \<Rightarrow> nodes
      | Some entry \<Rightarrow>
          (case (if fst kv = [] then None else map_of path_to_key (fst kv)) of
             None \<Rightarrow> nodes
           | Some self_key \<Rightarrow>
               let resolved = hm_collect (resolve_names packages path_to_key (fst kv) entry [''dependencies'', ''optionalDependencies''])
               in case map_of nodes self_key of
                    None \<Rightarrow> nodes
                  | Some node \<Rightarrow> hm_insert self_key (node\<lparr>dn_dependencies := resolved\<rparr>) nodes))"

definition push_unique :: "'a \<Rightarrow> 'a list \<Rightarrow> 'a list" where
  "push_unique x xs = (if x \<in> set xs then xs else xs @ [x])"

definition import_roots :: "json_map \<Rightarrow> (string, string) hmap \<Rightarrow> string list" where
  "import_roots packages path_to_key =
     (case get_object packages '''' of
        None \<Rightarrow> []
      | Some root_entry \<Rightarrow>
          fold push_unique
            (map snd (resolve_names packages path_to_key [] root_entry
               [''dependencies'', ''devDependencies'', ''optionalDependencies''])) [])"

definition import_npm_lockfile ::
  "('b \<Rightarrow> json option) \<Rightarrow> string \<Rightarrow> string \<Rightarrow> 'b option \<Rightarrow> (import_error, dep_graph) result" where
  "import_npm_lockfile from_str os arch content =
     bind_result (ok_or content Import_unreadable) (\<lambda>data.
     bind_result (ok_or (from_str data) Import_unparsable) (\<lambda>root.
     bind_result (ok_or (Option.bind (json_get root ''packages'') as_object) Import_no_packages) (\<lambda>packages.
       let (path_to_key, nodes) = fold (import_first os arch) packages ([], []);
           nodes = fold (import_second packages path_to_key) packages nodes;
           roots = import_roots packages path_to_key
       in if nodes = [] then Inl Import_empty
          else Inr \<lparr>dg_nodes = nodes, dg_roots = roots, dg_peer_report = default_peer_report\<rparr>)))"

section \<open>Platform lists\<close>

lemma match_items_spec:
  assumes "\<not> starts_with current ''!''"
  shows "match_items current items pos inc \<longleftrightarrow>
     ''!'' @ current \<notin> set items \<and> (inc \<or> current \<in> set items \<or> (\<not> pos \<and> (\<forall>i\<in>set items. starts_with i ''!'')))"
proof (induction items arbitrary: pos inc)
  case (Cons i items)
  show ?case
  proof (cases "strip_prefix i ''!''")
    case None
    then have f: "\<not> starts_with i ''!''" "''!'' @ current \<noteq> i" by (auto simp: strip_prefix_None_iff)
    have m: "match_items current (i # items) pos inc = match_items current items True (if i = current then True else inc)"
      using None by simp
    show ?thesis unfolding m Cons.IH using f by (simp only: list.set if_True if_False split: if_split) blast
  next
    case (Some neg)
    then have i: "i = ''!'' @ neg" by (simp add: strip_prefix_Some_iff)
    have f: "current \<noteq> i" "starts_with i ''!''" "neg = current \<longleftrightarrow> ''!'' @ current = i" using i assms by auto
    have m: "match_items current (i # items) pos inc = (neg \<noteq> current \<and> match_items current items pos inc)"
      using Some by simp
    show ?thesis unfolding m Cons.IH f(3) using f(1,2) by (simp only: list.set) blast
  qed
qed auto

text \<open>
  A platform list admits the current platform as npm documents it: an absent or empty list admits
  everything, and otherwise the platform must not be negated, and must be named unless every item is a negation.
\<close>

theorem matches_list_spec:
  assumes "\<not> starts_with current ''!''"
  shows "matches_list field current \<longleftrightarrow>
     (case Option.bind field as_array of
        None \<Rightarrow> True
      | Some xs \<Rightarrow> let items = List.map_filter as_str xs
                  in xs = [] \<or> ''!'' @ current \<notin> set items
                       \<and> (current \<in> set items \<or> (\<forall>i\<in>set items. starts_with i ''!'')))"
  by (auto simp: matches_list_def match_items_spec[OF assms] Let_def split: option.splits list.splits)

theorem matches_list_spec_witness:
  "matches_list (Some (JArr [JStr ''!win32''])) ''linux'' \<and> \<not> matches_list (Some (JArr [JStr ''win32''])) ''linux''"
  using matches_list_spec[of "''linux''" "Some (JArr [JStr ''!win32''])"]
    matches_list_spec[of "''linux''" "Some (JArr [JStr ''win32''])"]
  by (simp add: map_filter_simps)

section \<open>Nearest ancestor\<close>

text \<open>The lockfile path of a package nested below others, outermost first.\<close>

fun npm_path :: "string list \<Rightarrow> string" where
  "npm_path [] = []"
| "npm_path [n] = ''node_modules/'' @ n"
| "npm_path (n # m # ns) = ''node_modules/'' @ n @ ''/'' @ npm_path (m # ns)"

lemma npm_path_snoc:
  "npm_path (ns @ [n]) = (if ns = [] then ''node_modules/'' @ n else npm_path ns @ ''/node_modules/'' @ n)"
  by (induction ns rule: npm_path.induct) auto

lemma npm_path_nonempty: "npm_path ns = [] \<longleftrightarrow> ns = []"
  by (cases ns rule: npm_path.cases) auto

lemma dep_candidate_npm_path: "dep_candidate (npm_path ns) d = npm_path (ns @ [d])"
  by (simp add: dep_candidate_def npm_path_snoc npm_path_nonempty)

lemma no_later_marker:
  assumes "\<not> contains_str n ''node_modules/''" and "''node_modules/'' @ n = x @ ''/node_modules/'' @ y"
  shows False
proof -
  have first: "split_first (CHR ''/'') (''node_modules'' @ CHR ''/'' # n) = Some (''node_modules'', n)"
    unfolding split_first_Some by simp
  have e: "''node_modules'' @ CHR ''/'' # n = x @ CHR ''/'' # ''node_modules/'' @ y" using assms(2) by simp
  show False
  proof (cases "CHR ''/'' \<in> set x")
    case False
    then have "split_first (CHR ''/'') (x @ CHR ''/'' # ''node_modules/'' @ y) = Some (x, ''node_modules/'' @ y)"
      unfolding split_first_Some by blast
    then have "n = ''node_modules/'' @ y" using first[unfolded e] by simp
    then show False using assms(1) unfolding contains_str_iff by (metis append_Nil)
  next
    case True
    then obtain x1 x2 where x: "x = x1 @ CHR ''/'' # x2" "CHR ''/'' \<notin> set x1" by (meson split_list_first)
    then have "split_first (CHR ''/'') (x @ CHR ''/'' # ''node_modules/'' @ y) = Some (x1, x2 @ CHR ''/'' # ''node_modules/'' @ y)"
      unfolding split_first_Some by simp
    then have "n = x2 @ CHR ''/'' # ''node_modules/'' @ y" using first[unfolded e] by simp
    then have "n = (x2 @ ''/'') @ ''node_modules/'' @ y" by simp
    then show False using assms(1) unfolding contains_str_iff by blast
  qed
qed

lemma rfind_str_last:
  assumes "\<nexists>x y. drop 1 (p @ b) = x @ p @ y" "p \<noteq> []"
  shows "rfind_str p (a @ p @ b) = Some (a, b)"
proof (induction a)
  case Nil
  obtain c q where pq: "p = c # q" using assms(2) by (cases p) auto
  have "rfind_str p (q @ b) = None" using assms(1) pq by (simp add: rfind_str_None)
  moreover have "strip_prefix (c # q @ b) p = Some b" by (simp add: pq strip_prefix_Some_iff)
  ultimately show ?case by (simp add: pq)
qed simp

lemma parent_prefix_npm_path:
  assumes "\<not> contains_str n ''node_modules/''"
  shows "parent_prefix (npm_path (ns @ [n])) = npm_path ns"
proof (cases "ns = []")
  case True
  have "rfind_str ''/node_modules/'' (''node_modules/'' @ n) = None"
    unfolding rfind_str_None using no_later_marker[OF assms] by blast
  then show ?thesis using True by (simp add: parent_prefix_def)
next
  case False
  have "rfind_str ''/node_modules/'' (npm_path ns @ ''/node_modules/'' @ n) = Some (npm_path ns, n)"
    by (rule rfind_str_last) (use no_later_marker[OF assms] in auto)
  then show ?thesis using False unfolding parent_prefix_def npm_path_snoc by simp
qed

text \<open>
  A dependency is resolved as node does it: from a package nested below others the search tries
  the package's own \<open>node_modules\<close>, then that of each enclosing package from the inside out, and last the
  project's, and returns the first path the lockfile has, or nothing when it has none of them.
\<close>

theorem resolve_dep_path_nearest:
  assumes "\<forall>n\<in>set ns. \<not> contains_str n ''node_modules/''"
  shows "resolve_dep_path packages (npm_path ns) dep =
     map_option (\<lambda>i. npm_path (take i ns @ [dep]))
       (find (\<lambda>i. map_of packages (npm_path (take i ns @ [dep])) \<noteq> None) (rev [0..<Suc (length ns)]))"
  using assms
proof (induction ns rule: rev_induct)
  case Nil
  then show ?case using dep_candidate_npm_path[of "[]" dep]
    by (subst resolve_dep_path.simps) (simp add: Let_def)
next
  case (snoc n ns)
  have p: "parent_prefix (npm_path (ns @ [n])) = npm_path ns"
    using snoc.prems by (intro parent_prefix_npm_path) simp
  have same: "find (\<lambda>i. map_of packages (npm_path (take i (ns @ [n]) @ [dep])) \<noteq> None) (rev [0..<Suc (length ns)])
      = find (\<lambda>i. map_of packages (npm_path (take i ns @ [dep])) \<noteq> None) (rev [0..<Suc (length ns)])"
    by (rule find_cong) auto
  have small: "i < Suc (length ns)" if "find P (rev [0..<Suc (length ns)]) = Some i" for P i
    using that by (metis atLeastLessThan_iff find_Some_iff nth_mem set_rev set_upt)
  have IH: "resolve_dep_path packages (npm_path ns) dep = map_option (\<lambda>i. npm_path (take i (ns @ [n]) @ [dep]))
      (find (\<lambda>i. map_of packages (npm_path (take i (ns @ [n]) @ [dep])) \<noteq> None) (rev [0..<Suc (length ns)]))"
  proof (cases "find (\<lambda>i. map_of packages (npm_path (take i ns @ [dep])) \<noteq> None) (rev [0..<Suc (length ns)])")
    case None
    then show ?thesis unfolding same using snoc.IH snoc.prems by simp
  next
    case (Some i)
    then have "i \<le> length ns" using small[OF Some] by linarith
    then show ?thesis unfolding same using snoc.IH snoc.prems Some by simp
  qed
  have step: "rev [0..<Suc (length (ns @ [n]))] = Suc (length ns) # rev [0..<Suc (length ns)]" by simp
  have ne: "npm_path (ns @ [n]) \<noteq> []" by (simp add: npm_path_nonempty)
  show ?case
    unfolding step resolve_dep_path.simps[of packages "npm_path (ns @ [n])"] dep_candidate_npm_path p Let_def
    using IH ne by (simp del: upt_Suc)
qed

theorem resolve_dep_path_nearest_witness:
  "resolve_dep_path [(''node_modules/c'', JNull), (''node_modules/b/node_modules/c'', JNull)] ''node_modules/b'' ''c''
     = Some ''node_modules/b/node_modules/c''"
proof -
  have "\<not> contains_str ''b'' ''node_modules/''" by code_simp
  then show ?thesis
    using resolve_dep_path_nearest[of "[''b'']" "[(''node_modules/c'', JNull), (''node_modules/b/node_modules/c'', JNull)]" "''c''"]
    by simp
qed

section \<open>What an import keeps\<close>

text \<open>Where a node comes from: an entry of the lockfile, under some path, read without its dependencies.\<close>

definition import_origin :: "string \<Rightarrow> string \<Rightarrow> json_map \<Rightarrow> string \<Rightarrow> dep_node \<Rightarrow> bool" where
  "import_origin os arch packages k n \<longleftrightarrow> k = graph_key (dn_name n) (dn_version n)
     \<and> (\<exists>p v n0 deps. (p, v) \<in> set packages \<and> import_node os arch p v = Some n0
          \<and> n = n0\<lparr>dn_dependencies := deps\<rparr> \<and> hm_wf deps)"

definition first_inv :: "string \<Rightarrow> string \<Rightarrow> json_map \<Rightarrow> import_state \<Rightarrow> bool" where
  "first_inv os arch packages st \<longleftrightarrow> hm_wf (fst st) \<and> hm_wf (snd st)
     \<and> (\<forall>p k. map_of (fst st) p = Some k \<longrightarrow> map_of (snd st) k \<noteq> None)
     \<and> (\<forall>k n. map_of (snd st) k = Some n \<longrightarrow> import_origin os arch packages k n)"

lemma import_node_name: "import_node os arch p v = Some n \<Longrightarrow> dn_dependencies n = [] \<and> dn_name n = name_from_path p"
  by (auto simp: import_node_def Let_def split: if_splits option.splits)

lemma import_first_inv:
  assumes "kv \<in> set packages" "first_inv os arch packages st"
  shows "first_inv os arch packages (import_first os arch kv st)"
proof (cases "import_node os arch (fst kv) (snd kv)")
  case None
  then show ?thesis using assms by (simp add: import_first_def)
next
  case (Some n)
  then have "import_origin os arch packages (graph_key (dn_name n) (dn_version n)) n"
    using assms(1) import_node_name[OF Some] unfolding import_origin_def
    by (intro conjI refl exI[of _ "fst kv"] exI[of _ "snd kv"] exI[of _ n] exI[of _ "[]"]) simp_all
  then show ?thesis using assms(2) Some by (auto simp: import_first_def first_inv_def Let_def)
qed

lemma first_pass_inv: "first_inv os arch packages (fold (import_first os arch) packages ([], []))"
proof (rule fold_invariant)
  show "first_inv os arch packages ([], [])" by (simp add: first_inv_def)
qed (rule import_first_inv)

lemma resolve_names_targets: "(d, k) \<in> set (resolve_names packages ptk p e fs) \<Longrightarrow> k \<in> ran (map_of ptk)"
  by (auto simp: resolve_names_def map_filter_def ran_def bind_eq_Some_conv)

definition second_inv :: "string \<Rightarrow> string \<Rightarrow> json_map \<Rightarrow> (string, string) hmap \<Rightarrow> (string, dep_node) hmap \<Rightarrow> bool" where
  "second_inv os arch packages ptk nodes \<longleftrightarrow> hm_wf nodes \<and> ran (map_of ptk) \<subseteq> dom (map_of nodes)
     \<and> (\<forall>k n. map_of nodes k = Some n \<longrightarrow> import_origin os arch packages k n
          \<and> ran (map_of (dn_dependencies n)) \<subseteq> ran (map_of ptk))"

lemma ran_hm_collect: "ran (map_of (hm_collect kvs)) \<subseteq> snd ` set kvs"
  by (force simp: map_of_hm_collect ran_def dest: map_of_SomeD)

lemma import_origin_deps:
  assumes "import_origin os arch packages k n" "hm_wf r"
  shows "import_origin os arch packages k (n\<lparr>dn_dependencies := r\<rparr>)"
proof -
  obtain p v n0 deps where o: "k = graph_key (dn_name n) (dn_version n)" "(p, v) \<in> set packages"
    "import_node os arch p v = Some n0" "n = n0\<lparr>dn_dependencies := deps\<rparr>"
    using assms(1) unfolding import_origin_def by blast
  then have "n\<lparr>dn_dependencies := r\<rparr> = n0\<lparr>dn_dependencies := r\<rparr>" by simp
  moreover have "k = graph_key (dn_name (n\<lparr>dn_dependencies := r\<rparr>)) (dn_version (n\<lparr>dn_dependencies := r\<rparr>))"
    using o(1) by simp
  ultimately show ?thesis using o(2,3) assms(2) unfolding import_origin_def by blast
qed

lemma import_second_inv:
  assumes "second_inv os arch packages ptk nodes"
  shows "second_inv os arch packages ptk (import_second packages ptk kv nodes)"
proof (cases "import_second packages ptk kv nodes = nodes")
  case False
  then obtain k n where k: "map_of nodes k = Some n"
    and eq: "import_second packages ptk kv nodes = hm_insert k (n\<lparr>dn_dependencies := hm_collect
       (resolve_names packages ptk (fst kv) (the (as_object (snd kv))) [''dependencies'', ''optionalDependencies''])\<rparr>) nodes"
    unfolding import_second_def Let_def by (auto split: option.splits if_splits)
  define r where "r = hm_collect (resolve_names packages ptk (fst kv) (the (as_object (snd kv))) [''dependencies'', ''optionalDependencies''])"
  have r: "ran (map_of r) \<subseteq> ran (map_of ptk)"
  proof
    fix x assume "x \<in> ran (map_of r)"
    then obtain d where "(d, x) \<in> set (resolve_names packages ptk (fst kv) (the (as_object (snd kv))) [''dependencies'', ''optionalDependencies''])"
      using ran_hm_collect unfolding r_def by fastforce
    then show "x \<in> ran (map_of ptk)" by (rule resolve_names_targets)
  qed
  have "import_origin os arch packages k n" using assms k by (simp add: second_inv_def)
  then have "import_origin os arch packages k (n\<lparr>dn_dependencies := r\<rparr>)"
    by (rule import_origin_deps) (simp add: r_def)
  then show ?thesis using assms k r unfolding eq r_def[symmetric] by (auto simp: second_inv_def)
qed (use assms in simp)

lemma node_wf_origin: "import_origin os arch packages k n \<Longrightarrow> node_wf n"
proof -
  assume "import_origin os arch packages k n"
  then obtain p v n0 deps where o: "import_node os arch p v = Some n0" "n = n0\<lparr>dn_dependencies := deps\<rparr>" "hm_wf deps"
    unfolding import_origin_def by blast
  have "hm_wf (dn_peer_dependencies n0)" "hm_wf (dn_resolved_peers n0)"
    using o(1) by (auto simp: import_node_def Let_def range_map_def split: if_splits option.splits)
  then show "node_wf n" using o(2,3) by (simp add: node_wf_def)
qed

lemma set_fold_push_unique: "set (fold push_unique xs ys) = set xs \<union> set ys"
  by (induction xs arbitrary: ys) (auto simp: push_unique_def)

lemma import_roots_targets: "set (import_roots packages ptk) \<subseteq> ran (map_of ptk)"
  using resolve_names_targets by (fastforce simp: import_roots_def set_fold_push_unique split: option.splits)

text \<open>
  What an entry of the lockfile has to be and what the node keeps of it, member by member. \<open>admits\<close> is npm's rule for a list of platforms: an absent or empty
  list admits every platform; otherwise the platform must not be negated, and must be named unless every item is a negation.
\<close>

definition admits :: "json option \<Rightarrow> string \<Rightarrow> bool" where
  "admits field platform \<longleftrightarrow>
     (case field of
        Some (JArr xs) \<Rightarrow> xs = [] \<or> JStr (''!'' @ platform) \<notin> set xs
          \<and> (JStr platform \<in> set xs \<or> (\<forall>i. JStr i \<in> set xs \<longrightarrow> starts_with i ''!''))
      | _ \<Rightarrow> True)"

definition locked_as :: "string \<Rightarrow> string \<Rightarrow> string \<Rightarrow> json_map \<Rightarrow> dep_node \<Rightarrow> bool" where
  "locked_as os cpu path entry n \<longleftrightarrow>
     map_of entry ''link'' \<noteq> Some (JBool True) \<and> admits (map_of entry ''os'') os \<and> admits (map_of entry ''cpu'') cpu
     \<and> (\<exists>dir. path = dir @ dn_name n \<and> (dir = [] \<or> (\<exists>before. dir = before @ ''node_modules/''))) \<and> \<not> contains_str (dn_name n) ''node_modules/''
     \<and> dn_alias n = None \<and> map_of entry ''version'' = Some (JStr (dn_version n))
     \<and> dn_resolved n = (case map_of entry ''resolved'' of Some (JStr r) \<Rightarrow> r | _ \<Rightarrow> [])
     \<and> dn_integrity n = (case map_of entry ''integrity'' of Some (JStr i) \<Rightarrow> Some i | _ \<Rightarrow> None)
     \<and> (dn_has_install_script n \<longleftrightarrow> map_of entry ''hasInstallScript'' = Some (JBool True))
     \<and> (dn_dev n \<longleftrightarrow> map_of entry ''dev'' = Some (JBool True) \<or> map_of entry ''devOptional'' = Some (JBool True))
     \<and> (dn_optional n \<longleftrightarrow> map_of entry ''optional'' = Some (JBool True) \<or> map_of entry ''devOptional'' = Some (JBool True))"

lemma rfind_str_rest: "rfind_str p s = Some (a, b) \<Longrightarrow> p \<noteq> [] \<Longrightarrow> \<not> contains_str b p"
proof (induction s arbitrary: a)
  case (Cons x xs)
  show ?case
  proof (cases "rfind_str p xs")
    case None
    then have "x # xs = p @ b" using Cons.prems by (auto simp: strip_prefix_Some_iff)
    then obtain q where q: "xs = q @ b" using Cons.prems(2) by (cases p) auto
    show ?thesis using None unfolding rfind_str_None contains_str_iff q by (metis append_assoc)
  next
    case (Some ab)
    then show ?thesis using Cons by (cases ab) simp
  qed
qed (auto simp: strip_prefix_Some_iff)

lemma name_from_path_spec:
  "\<exists>dir. path = dir @ name_from_path path \<and> (dir = [] \<or> (\<exists>before. dir = before @ ''node_modules/''))"
  "\<not> contains_str (name_from_path path) ''node_modules/''"
proof -
  show "\<exists>dir. path = dir @ name_from_path path \<and> (dir = [] \<or> (\<exists>before. dir = before @ ''node_modules/''))"
  proof (cases "rfind_str ''node_modules/'' path")
    case None
    then show ?thesis by (intro exI[of _ "[]"]) (simp add: name_from_path_def)
  next
    case (Some ab)
    obtain a b where ab: "ab = (a, b)" by (cases ab)
    show ?thesis by (rule exI[of _ "a @ ''node_modules/''"]) (use rfind_str_Some[of "''node_modules/''" path a b] Some ab in \<open>simp add: name_from_path_def\<close>)
  qed
  show "\<not> contains_str (name_from_path path) ''node_modules/''"
  proof (cases "rfind_str ''node_modules/'' path")
    case None
    then have "\<not> contains_str path ''node_modules/''" unfolding rfind_str_None contains_str_iff by blast
    then show ?thesis using None by (simp add: name_from_path_def)
  next
    case (Some ab)
    obtain a b where ab: "ab = (a, b)" by (cases ab)
    have "\<not> contains_str b ''node_modules/''" by (rule rfind_str_rest[of _ path a]) (use Some ab in simp_all)
    then show ?thesis using Some ab by (simp add: name_from_path_def)
  qed
qed

lemma as_str_iff: "as_str j = Some s \<longleftrightarrow> j = JStr s"
  by (cases j) auto

lemma matches_list_admits:
  assumes "\<not> starts_with platform ''!''" "matches_list field platform" shows "admits field platform"
proof (cases field)
  case (Some j)
  have mem: "i \<in> set (List.map_filter as_str xs) \<longleftrightarrow> JStr i \<in> set xs" for i xs
    unfolding in_map_filter by (auto simp: as_str_iff)
  show ?thesis using assms(2) Some unfolding matches_list_spec[OF assms(1)] admits_def Let_def Ball_def mem by (cases j) auto
qed (simp add: admits_def)

lemma get_bool_iff: "get_bool m k \<longleftrightarrow> map_of m k = Some (JBool True)"
  by (cases "map_of m k"; simp add: get_bool_def; rename_tac j; case_tac j) auto

lemma get_str_case: "get_str m k = (case map_of m k of Some (JStr s) \<Rightarrow> Some s | _ \<Rightarrow> None)"
  by (cases "map_of m k"; simp add: get_str_def; rename_tac j; case_tac j) auto

lemma import_node_locked:
  assumes "import_node os arch path v = Some n" "\<not> starts_with os ''!''" "\<not> starts_with arch ''!''"
  shows "\<exists>entry. v = JObj entry \<and> path \<noteq> [] \<and> locked_as (current_npm_os os) (current_npm_cpu arch) path entry n"
proof -
  obtain entry where e: "v = JObj entry" "path \<noteq> []" "\<not> get_bool entry ''link''" "get_str entry ''version'' = Some (dn_version n)"
    "platform_matches os arch entry" "dn_name n = name_from_path path" "dn_alias n = None"
    "dn_resolved n = (case get_str entry ''resolved'' of Some r \<Rightarrow> r | None \<Rightarrow> [])" "dn_integrity n = get_str entry ''integrity''"
    "dn_has_install_script n = get_bool entry ''hasInstallScript''" "dn_dev n = (get_bool entry ''dev'' \<or> get_bool entry ''devOptional'')"
    "dn_optional n = (get_bool entry ''optional'' \<or> get_bool entry ''devOptional'')"
    using assms(1) by (auto simp: import_node_def Let_def as_object_Some split: if_splits option.splits)
  have "\<not> starts_with (current_npm_os os) ''!''" "\<not> starts_with (current_npm_cpu arch) ''!''"
    using assms(2,3) by (auto simp: current_npm_os_def current_npm_cpu_def)
  then have p: "admits (map_of entry ''os'') (current_npm_os os)" "admits (map_of entry ''cpu'') (current_npm_cpu arch)"
    using e(5) matches_list_admits unfolding platform_matches_def by blast+
  have "map_of entry ''version'' = Some (JStr (dn_version n))"
    using e(4) by (auto simp: get_str_def bind_eq_Some_conv as_str_iff)
  then have "locked_as (current_npm_os os) (current_npm_cpu arch) path entry n"
    using e p name_from_path_spec[of path] unfolding locked_as_def get_bool_iff
    by (simp add: get_str_case split: option.splits json.splits)
  then show ?thesis using e(1,2) by blast
qed

text \<open>
  C31: an imported graph honours the lock and is closed: it has at least one package; every package in it
  is an entry of the lockfile other than the project's own, is no link, is admitted on this system and processor under the names npm gives them, and has exactly the
  version, source, integrity, install script and dev and optional flags of that entry, under the name that follows the last \<open>node_modules/\<close> of its path; and
  every dependency edge and every root leads to a package of the graph. The names of the system and the processor do not start with an exclamation mark.
\<close>

theorem import_honours_lock:
  assumes "import_npm_lockfile from_str os arch content = Inr g" and "\<not> starts_with os ''!''" "\<not> starts_with arch ''!''"
  shows "\<exists>data root packages. content = Some data \<and> from_str data = Some root
    \<and> json_get root ''packages'' = Some (JObj packages)
    \<and> dg_nodes g \<noteq> [] \<and> graph_wf g \<and> roots_present g
    \<and> (\<forall>k n. graph_get g k = Some n \<longrightarrow> k = dn_name n @ ''@'' @ dn_version n
         \<and> (\<exists>path entry. (path, JObj entry) \<in> set packages \<and> path \<noteq> []
              \<and> locked_as (if os = ''macos'' then ''darwin'' else if os = ''windows'' then ''win32'' else os)
                  (if arch = ''x86_64'' then ''x64'' else if arch = ''aarch64'' then ''arm64'' else if arch = ''x86'' then ''ia32'' else arch) path entry n)
         \<and> (\<forall>d t. map_of (dn_dependencies n) d = Some t \<longrightarrow> graph_get g t \<noteq> None))"
proof -
  obtain data root packages where in_file: "content = Some data" "from_str data = Some root"
      "Option.bind (json_get root ''packages'') as_object = Some packages"
    and g: "(let (path_to_key, nodes) = fold (import_first os arch) packages ([], []);
           nodes = fold (import_second packages path_to_key) packages nodes;
           roots = import_roots packages path_to_key
       in if nodes = [] then Inl Import_empty
          else Inr \<lparr>dg_nodes = nodes, dg_roots = roots, dg_peer_report = default_peer_report\<rparr>) = Inr g"
    using assms unfolding import_npm_lockfile_def by (auto simp: bind_result_Inr_iff)
  obtain ptk ns where f: "fold (import_first os arch) packages ([], []) = (ptk, ns)" by fastforce
  define nodes where "nodes = fold (import_second packages ptk) packages ns"
  have gg: "g = \<lparr>dg_nodes = nodes, dg_roots = import_roots packages ptk, dg_peer_report = default_peer_report\<rparr>" "nodes \<noteq> []"
    using g by (simp_all add: f nodes_def Let_def split: if_splits)
  have fi: "first_inv os arch packages (ptk, ns)" using first_pass_inv[of os arch packages] f by simp
  have "dn_dependencies n = []" if "map_of ns k = Some n" for k n
  proof -
    have "\<forall>k n. map_of (snd (fold (import_first os arch) packages ([], []))) k = Some n \<longrightarrow> dn_dependencies n = []"
      by (rule fold_invariant) (auto simp: import_first_def Let_def import_node_name split: option.splits if_splits)
    then show ?thesis using that f by simp
  qed
  then have "second_inv os arch packages ptk ns"
    using fi by (auto simp: second_inv_def first_inv_def ran_def)
  then have si: "second_inv os arch packages ptk nodes"
    unfolding nodes_def by (rule fold_invariant) (simp add: import_second_inv)
  have lookup: "graph_get g k = map_of nodes k" for k by (simp add: graph_get_def gg)
  have "graph_wf g"
    using si node_wf_origin by (force simp: graph_wf_def gg second_inv_def list_all_iff hm_wf_def)
  moreover have "roots_present g"
    using si import_roots_targets[of packages ptk]
    by (auto simp: roots_present_def gg second_inv_def list_all_iff dom_map_of_conv_image_fst)
  moreover have "k = dn_name n @ ''@'' @ dn_version n
      \<and> (\<exists>path entry. (path, JObj entry) \<in> set packages \<and> path \<noteq> [] \<and> locked_as (current_npm_os os) (current_npm_cpu arch) path entry n)
      \<and> (\<forall>d t. map_of (dn_dependencies n) d = Some t \<longrightarrow> graph_get g t \<noteq> None)"
    if "graph_get g k = Some n" for k n
  proof -
    have o: "import_origin os arch packages k n" "\<forall>d t. map_of (dn_dependencies n) d = Some t \<longrightarrow> graph_get g t \<noteq> None"
      using si that unfolding lookup second_inv_def by (blast intro: ranI)+
    obtain p v n0 deps where n0: "(p, v) \<in> set packages" "import_node os arch p v = Some n0" "n = n0\<lparr>dn_dependencies := deps\<rparr>"
      using o(1) unfolding import_origin_def by blast
    obtain entry where "v = JObj entry" "p \<noteq> []" "locked_as (current_npm_os os) (current_npm_cpu arch) p entry n0"
      using import_node_locked[OF n0(2) assms(2,3)] by blast
    moreover from this(3) have "locked_as (current_npm_os os) (current_npm_cpu arch) p entry n" by (simp add: n0(3) locked_as_def)
    moreover have "k = dn_name n @ ''@'' @ dn_version n" using o(1) by (simp add: import_origin_def graph_key_def)
    ultimately show ?thesis using n0(1) o(2) by blast
  qed
  note this[unfolded current_npm_os_def current_npm_cpu_def]
  ultimately show ?thesis using in_file gg by (auto simp: bind_eq_Some_conv as_object_Some)
qed

theorem import_honours_lock_witness:
  "\<exists>g. import_npm_lockfile (\<lambda>_. Some (JObj [(''packages'', JObj [(''node_modules/a'', JObj [(''version'', JStr ''1'')])])]))
        ''linux'' ''x86_64'' (Some ()) = Inr g
      \<and> graph_get g ''a@1'' \<noteq> None \<and> roots_present g"
proof -
  have nm: "name_from_path ''node_modules/a'' = ''a''" by code_simp
  obtain g where g: "import_npm_lockfile (\<lambda>_. Some (JObj [(''packages'', JObj [(''node_modules/a'', JObj [(''version'', JStr ''1'')])])]))
        ''linux'' ''x86_64'' (Some ()) = Inr g \<and> graph_get g ''a@1'' \<noteq> None"
    by (simp add: import_npm_lockfile_def json_get_def import_first_def import_node_def get_bool_def get_str_def
        platform_matches_def matches_list_def nm graph_key_def import_second_def hm_insert_def graph_get_def Let_def)
  then show ?thesis using import_honours_lock[of "\<lambda>_. Some (JObj [(''packages'', JObj [(''node_modules/a'', JObj [(''version'', JStr ''1'')])])])" "''linux''" "''x86_64''" "Some ()" g]
    by (auto simp: starts_with_def)
qed

end
