(* ===== verification/File_Tree.thy ===== *)
theory File_Tree
  imports Paths
begin

text \<open>
  A directory tree and the operations on it that the store uses. A directory lists its entries in the
  order \<open>read_dir\<close> would give them, which is unspecified, so nothing may depend on it; \<open>Special\<close> is anything that is neither a directory
  nor a regular file, with its text when it is a symbolic link. A path is the list of its component names below the root of the tree. The locale \<open>path_store\<close> holds
  the laws a user of such a tree relies on, and is interpreted on the tree.
\<close>

datatype ftree = File string | Dir "(string \<times> ftree) list" | Special "string option"

fun tree_lookup :: "string list \<Rightarrow> ftree \<Rightarrow> ftree option" where
  "tree_lookup [] t = Some t"
| "tree_lookup (n # ns) (Dir es) = (case map_of es n of None \<Rightarrow> None | Some t \<Rightarrow> tree_lookup ns t)"
| "tree_lookup (n # ns) _ = None"

text \<open>
  \<open>tree_put\<close> creates missing directories on the way and replaces what is at the path; it fails when
  something other than a directory is in the way. \<open>tree_remove\<close> takes away what is at a path, if it exists.
\<close>

fun tree_put :: "string list \<Rightarrow> ftree \<Rightarrow> ftree \<Rightarrow> ftree option" where
  "tree_put [] v t = Some v"
| "tree_put (n # ns) v (Dir es) =
     map_option (\<lambda>t'. Dir (hm_insert n t' es))
       (tree_put ns v (case map_of es n of None \<Rightarrow> Dir [] | Some t \<Rightarrow> t))"
| "tree_put (n # ns) v _ = None"

fun tree_remove :: "string list \<Rightarrow> ftree \<Rightarrow> ftree" where
  "tree_remove [] t = t"
| "tree_remove [n] (Dir es) = Dir (filter (\<lambda>e. fst e \<noteq> n) es)"
| "tree_remove (n # m # ns) (Dir es) =
     (case map_of es n of None \<Rightarrow> Dir es | Some t \<Rightarrow> Dir (hm_insert n (tree_remove (m # ns) t) es))"
| "tree_remove (n # ns) t = t"

text \<open>A tree as a file system keeps it: names are distinct, not empty and have no slash.\<close>

fun tree_wf :: "ftree \<Rightarrow> bool" where
  "tree_wf (Dir es) \<longleftrightarrow> distinct (map fst es)
     \<and> list_all (\<lambda>(n, t). n \<noteq> [] \<and> CHR ''/'' \<notin> set n \<and> tree_wf t) es"
| "tree_wf _ \<longleftrightarrow> True"

definition disjoint_paths :: "'a list \<Rightarrow> 'a list \<Rightarrow> bool" where
  "disjoint_paths p q \<longleftrightarrow> \<not> prefix p q \<and> \<not> prefix q p"

lemma disjoint_paths_Cons: "disjoint_paths (a # p) (b # q) \<longleftrightarrow> a \<noteq> b \<or> disjoint_paths p q"
  by (auto simp: disjoint_paths_def)

lemma disjoint_paths_Nil [simp]: "\<not> disjoint_paths [] q" "\<not> disjoint_paths q []"
  by (simp_all add: disjoint_paths_def)

lemma disjoint_paths_sym: "disjoint_paths p q \<longleftrightarrow> disjoint_paths q p"
  by (auto simp: disjoint_paths_def)

lemma lookup_put: "tree_put p v t = Some t' \<Longrightarrow> tree_lookup p t' = Some v"
  by (induction p v t arbitrary: t' rule: tree_put.induct) auto

lemma lookup_empty_dir: "p \<noteq> [] \<Longrightarrow> tree_lookup p (Dir []) = None"
  by (cases p) simp_all

lemma lookup_put_disjoint:
  "tree_put p v t = Some t' \<Longrightarrow> disjoint_paths p q \<Longrightarrow> tree_lookup q t' = tree_lookup q t"
proof (induction p v t arbitrary: t' q rule: tree_put.induct)
  case (2 n ns v es)
  obtain s where s: "tree_put ns v (case map_of es n of None \<Rightarrow> Dir [] | Some t \<Rightarrow> t) = Some s"
    and t': "t' = Dir (hm_insert n s es)" using "2.prems"(1) by auto
  obtain m ms where q: "q = m # ms" using "2.prems"(2) by (cases q) auto
  show ?case
  proof (cases "m = n")
    case True
    then have d: "disjoint_paths ns ms" using "2.prems"(2) q by (simp add: disjoint_paths_Cons)
    then have "tree_lookup ms s = tree_lookup ms (case map_of es n of None \<Rightarrow> Dir [] | Some t \<Rightarrow> t)"
      using "2.IH"[OF s] by blast
    moreover have "ms \<noteq> []" using d by auto
    ultimately show ?thesis using q t' True by (auto simp: lookup_empty_dir split: option.splits)
  qed (use q t' in simp)
qed auto

lemma map_of_filter_neq: "map_of (filter (\<lambda>e. fst e \<noteq> n) es) m = (if m = n then None else map_of es m)"
  by (induction es) auto

lemma lookup_remove: "p \<noteq> [] \<Longrightarrow> tree_lookup p (tree_remove p t) = None"
  by (induction p t rule: tree_remove.induct) (auto simp: map_of_filter_neq split: option.splits)

lemma lookup_remove_below: "p \<noteq> [] \<Longrightarrow> prefix p q \<Longrightarrow> tree_lookup q (tree_remove p t) = None"
proof (induction p t arbitrary: q rule: tree_remove.induct)
  case (2 n es)
  then obtain ms where "q = n # ms" by (auto simp: prefix_def)
  then show ?case by (simp add: map_of_filter_neq)
next
  case (3 n m ns es)
  then obtain ms where q: "q = n # ms" "prefix (m # ns) ms" by (cases q) auto
  show ?case
  proof (cases "map_of es n")
    case (Some t)
    then show ?thesis using 3(1)[OF Some, of ms] q by simp
  qed (use q in simp)
qed (auto simp: prefix_def)

lemma lookup_remove_disjoint: "disjoint_paths p q \<Longrightarrow> tree_lookup q (tree_remove p t) = tree_lookup q t"
proof (induction p t arbitrary: q rule: tree_remove.induct)
  case (2 n es)
  then obtain m ms where "q = m # ms" "m \<noteq> n" by (cases q) (auto simp: disjoint_paths_Cons)
  then show ?case by (simp add: map_of_filter_neq)
next
  case (3 n m ns es)
  then obtain k ks where q: "q = k # ks" by (cases q) auto
  show ?case
  proof (cases "map_of es n")
    case (Some t)
    then show ?thesis using 3(1)[OF Some, of ks] 3(2) q by (cases "k = n") (auto simp: disjoint_paths_Cons)
  qed (use q in simp)
qed auto

section \<open>The interface\<close>

locale path_store =
  fixes look :: "string list \<Rightarrow> 's \<Rightarrow> 'v option"
    and put :: "string list \<Rightarrow> 'v \<Rightarrow> 's \<Rightarrow> 's option"
    and del :: "string list \<Rightarrow> 's \<Rightarrow> 's"
  assumes look_put: "put p v s = Some s' \<Longrightarrow> look p s' = Some v"
    and look_put_other: "put p v s = Some s' \<Longrightarrow> disjoint_paths p q \<Longrightarrow> look q s' = look q s"
    and look_del: "p \<noteq> [] \<Longrightarrow> prefix p q \<Longrightarrow> look q (del p s) = None"
    and look_del_other: "disjoint_paths p q \<Longrightarrow> look q (del p s) = look q s"
begin

text \<open>Writing beside the target, removing the source and writing the target: what a rename leaves.\<close>

lemma look_rename:
  assumes "put dst v (del src s) = Some s'" "disjoint_paths src dst" "src \<noteq> []"
  shows "look dst s' = Some v" "look src s' = None"
    and "\<And>q. disjoint_paths src q \<Longrightarrow> disjoint_paths dst q \<Longrightarrow> look q s' = look q s"
proof -
  show "look dst s' = Some v" by (rule look_put[OF assms(1)])
  have "look src s' = look src (del src s)"
    using look_put_other[OF assms(1)] assms(2) disjoint_paths_sym by blast
  then show "look src s' = None" using look_del[OF assms(3)] by simp
  show "\<And>q. disjoint_paths src q \<Longrightarrow> disjoint_paths dst q \<Longrightarrow> look q s' = look q s"
    using look_put_other[OF assms(1)] look_del_other by simp
qed

text \<open>A scratch entry that is written and removed again leaves everything else as it was.\<close>

lemma look_scratch:
  assumes "put tmp v s = Some s'" "disjoint_paths tmp q"
  shows "look q (del tmp s') = look q s"
  using look_put_other[OF assms] look_del_other[OF assms(2)] by simp

end

interpretation tree: path_store tree_lookup tree_put tree_remove
  by unfold_locales
    (rule lookup_put lookup_put_disjoint lookup_remove_below lookup_remove_disjoint; assumption)+

section \<open>Operations of the standard library\<close>

text \<open>
  A path is looked up without following symbolic links: where a link is on the way or at the end of the path, the operations
  below are refused, while the real calls would follow it. What is said of extraction and of
  the store is about directories without links, which is what their callers make; that extraction stays inside its directory assumes so and shows that it makes none.
\<close>

definition create_dir_all :: "string list \<Rightarrow> ftree \<Rightarrow> ftree option" where
  "create_dir_all p t =
     (case tree_lookup p t of Some (Dir _) \<Rightarrow> Some t | Some _ \<Rightarrow> None | None \<Rightarrow> tree_put p (Dir []) t)"

text \<open>
  \<open>rename\<close> of a directory succeeds when the source exists, the target's parent is a directory and the target is
  free or an empty directory.
\<close>

definition rename_dir :: "string list \<Rightarrow> string list \<Rightarrow> ftree \<Rightarrow> ftree option" where
  "rename_dir src dst t =
     (case (tree_lookup src t, tree_lookup (butlast dst) t) of
        (Some v, Some (Dir _)) \<Rightarrow>
          if tree_lookup dst t = None \<or> tree_lookup dst t = Some (Dir []) then tree_put dst v (tree_remove src t) else None
      | _ \<Rightarrow> None)"

text \<open>
  \<open>File::create\<close> and writing: missing parents are not created, a directory of that name is an error, a file is replaced
  (and a link refused, where the real call writes to the file it leads to).
\<close>

definition create_file :: "string list \<Rightarrow> string \<Rightarrow> ftree \<Rightarrow> ftree option" where
  "create_file p data t =
     (case (tree_lookup (butlast p) t, tree_lookup p t) of
        (Some (Dir _), None) \<Rightarrow> tree_put p (File data) t
      | (Some (Dir _), Some (File _)) \<Rightarrow> tree_put p (File data) t
      | _ \<Rightarrow> None)"

fun no_special :: "ftree \<Rightarrow> bool" where
  "no_special (Dir es) \<longleftrightarrow> list_all (\<lambda>(n, t). no_special t) es"
| "no_special (File d) \<longleftrightarrow> True"
| "no_special (Special l) \<longleftrightarrow> False"

lemma tree_lookup_append:
  "tree_lookup (p @ q) t = (case tree_lookup p t of None \<Rightarrow> None | Some s \<Rightarrow> tree_lookup q s)"
  by (induction p t rule: tree_lookup.induct) (auto split: option.splits)

lemma create_dir_all_other:
  assumes "create_dir_all p t = Some t'" "\<not> prefix q p"
  shows "tree_lookup q t' = tree_lookup q t"
proof (cases "tree_lookup p t")
  case None
  then have put: "tree_put p (Dir []) t = Some t'" using assms(1) by (simp add: create_dir_all_def)
  show ?thesis
  proof (cases "prefix p q")
    case True
    then obtain r where q: "q = p @ r" "r \<noteq> []" using assms(2) by (auto simp: prefix_def)
    then show ?thesis
      using None tree.look_put[OF put] lookup_empty_dir[OF q(2)] by (simp add: tree_lookup_append)
  next
    case False
    then show ?thesis using tree.look_put_other[OF put] assms(2) by (simp add: disjoint_paths_def)
  qed
next
  case (Some s)
  then show ?thesis using assms(1) by (cases s) (simp_all add: create_dir_all_def)
qed

lemma rename_dir_effect:
  assumes "rename_dir src dst t = Some t'" "disjoint_paths src dst"
  shows "tree_lookup dst t' = tree_lookup src t"
    and "\<And>q. disjoint_paths src q \<Longrightarrow> disjoint_paths dst q \<Longrightarrow> tree_lookup q t' = tree_lookup q t"
proof -
  obtain v where v: "tree_lookup src t = Some v" "tree_put dst v (tree_remove src t) = Some t'"
    using assms(1) by (auto simp: rename_dir_def split: option.splits ftree.splits if_splits)
  have "src \<noteq> []" using assms(2) by auto
  note r = tree.look_rename[OF v(2) assms(2) this]
  show "tree_lookup dst t' = tree_lookup src t" using r(1) v(1) by simp
  show "\<And>q. disjoint_paths src q \<Longrightarrow> disjoint_paths dst q \<Longrightarrow> tree_lookup q t' = tree_lookup q t" using r(3) by blast
qed

text \<open>What is seen of a tree through its regular files.\<close>

lemma put_file_files:
  assumes "tree_put p (File v) t = Some t'" and "\<forall>es. tree_lookup p t \<noteq> Some (Dir es)"
  shows "tree_lookup q t' = Some (File d) \<longleftrightarrow> (if q = p then d = v else tree_lookup q t = Some (File d))"
  using assms
proof (induction p "File v" t arbitrary: t' q rule: tree_put.induct)
  case (1 t)
  then show ?case by (cases q; cases t) auto
next
  case (2 n ns es)
  let ?s = "case map_of es n of None \<Rightarrow> Dir [] | Some t \<Rightarrow> t"
  obtain s where s: "tree_put ns (File v) ?s = Some s" and t': "t' = Dir (hm_insert n s es)" using "2.prems"(1) by auto
  show ?case
  proof (cases q)
    case (Cons m ms)
    show ?thesis
    proof (cases "m = n")
      case True
      have old: "tree_lookup ms ?s = Some (File d) \<longleftrightarrow> tree_lookup (n # ms) (Dir es) = Some (File d)"
        by (cases "map_of es n"; cases ms) simp_all
      show ?thesis
      proof (cases "ns = [] \<and> map_of es n = None")
        case True
        then have "s = File v" using s by simp
        then show ?thesis using Cons \<open>m = n\<close> t' True by (cases ms) auto
      next
        case False
        have "\<forall>es'. tree_lookup ns ?s \<noteq> Some (Dir es')"
          using False "2.prems"(2) by (cases "map_of es n"; cases ns) auto
        from "2.hyps"[OF s this, of ms] show ?thesis using Cons True t' old by simp
      qed
    qed (use Cons t' in simp)
  qed (use t' in simp)
qed simp_all

lemma create_file_files:
  "create_file p v t = Some t' \<Longrightarrow>
   tree_lookup q t' = Some (File d) \<longleftrightarrow> (if q = p then d = v else tree_lookup q t = Some (File d))"
  by (rule put_file_files) (auto simp: create_file_def split: option.splits ftree.splits)

lemma create_file_other: "create_file p v t = Some t' \<Longrightarrow> disjoint_paths p q \<Longrightarrow> tree_lookup q t' = tree_lookup q t"
  by (rule tree.look_put_other[where v = "File v"]) (auto simp: create_file_def split: option.splits ftree.splits)

lemma put_through_file: "tree_lookup q t = Some (File d) \<Longrightarrow> tree_put (q @ a # r) v t = None"
  by (induction q t rule: tree_lookup.induct) (auto split: option.splits)

lemma create_dir_all_files:
  assumes "create_dir_all p t = Some t'"
  shows "tree_lookup q t' = Some (File d) \<longleftrightarrow> tree_lookup q t = Some (File d)"
proof (cases "prefix q p")
  case True
  then obtain r where r: "p = q @ r" by (auto simp: prefix_def)
  have "tree_lookup q t' \<noteq> Some (File d)"
  proof
    assume "tree_lookup q t' = Some (File d)"
    moreover have "\<exists>es. tree_lookup p t' = Some (Dir es)"
      using assms lookup_put by (auto simp: create_dir_all_def split: option.splits ftree.splits)
    ultimately show False using r by (cases r) (auto simp: tree_lookup_append)
  qed
  moreover have "tree_lookup q t \<noteq> Some (File d)"
  proof
    assume q: "tree_lookup q t = Some (File d)"
    show False
    proof (cases r)
      case Nil
      then show ?thesis using q r assms by (simp add: create_dir_all_def)
    next
      case (Cons a r')
      then have "tree_lookup p t = None" using q r by (simp add: tree_lookup_append)
      then have "tree_put (q @ a # r') (Dir []) t = Some t'" using assms r Cons by (simp add: create_dir_all_def)
      then show False using q put_through_file by fastforce
    qed
  qed
  ultimately show ?thesis by simp
next
  case False
  then show ?thesis using create_dir_all_other[OF assms] by simp
qed

definition tree_files :: "ftree \<Rightarrow> string list \<Rightarrow> string option" where
  "tree_files t q = (case tree_lookup q t of Some (File d) \<Rightarrow> Some d | _ \<Rightarrow> None)"

lemma tree_files_Some: "tree_files t q = Some d \<longleftrightarrow> tree_lookup q t = Some (File d)"
  by (auto simp: tree_files_def split: option.splits ftree.splits)

lemma tree_files_eqI: "(\<And>q d. tree_lookup q t = Some (File d) \<longleftrightarrow> m q = Some d) \<Longrightarrow> tree_files t = m"
  by (rule ext) (metis not_Some_eq tree_files_Some)

lemma tree_files_create_file: "create_file p v t = Some t' \<Longrightarrow> tree_files t' = (tree_files t)(p \<mapsto> v)"
  by (rule tree_files_eqI) (auto simp: create_file_files tree_files_Some)

lemma tree_files_create_dir_all: "create_dir_all p t = Some t' \<Longrightarrow> tree_files t' = tree_files t"
  by (rule tree_files_eqI) (simp add: create_dir_all_files tree_files_Some)

end
