(* ===== verification/Cas.thy ===== *)
theory Cas
  imports File_Tree Core_Integrity Json
begin

text \<open>
  The content store (\<open>crates/oath-store/src/cas.rs\<close>). The state is the directory tree of the store's root;
  every operation reads or returns that tree. BLAKE3, the decoder for \<open>package.json\<close> and the encoder and
  decoder of the store's manifest are parameters. Another process may change the tree between the
  check of an entry and the rename that installs it: that is the argument \<open>others\<close>, any function on trees. Device
  errors (a full disk, missing permissions) are not modelled; every refusal the code itself makes is.
\<close>

section \<open>Data\<close>

definition STORE_MANIFEST_FILE :: string where "STORE_MANIFEST_FILE = ''.oath-store-manifest.json''"
definition STORE_MANIFEST_SCHEMA_VERSION :: nat where "STORE_MANIFEST_SCHEMA_VERSION = 1"

record store_manifest_file =
  smf_path :: string
  smf_bytes :: nat
  smf_blake3 :: string

record store_manifest =
  sm_schema_version :: nat
  sm_name :: string
  sm_version :: string
  sm_lock_integrity :: "string option"
  sm_resolved_url :: "string option"
  sm_package_json_name :: string
  sm_package_json_version :: string
  sm_file_count :: nat
  sm_byte_count :: nat
  sm_blake3_tree :: "store_manifest_file list"

datatype build_error =
    Package_json_missing | Package_json_invalid | Package_json_mismatch
  | Special_file string | Not_a_directory

datatype corruption =
    Manifest_missing | Manifest_unreadable | Manifest_malformed | Schema_unsupported nat | Package_mismatch
  | Integrity_mismatch | Resolved_mismatch | Rebuild_failed build_error
  | Package_json_changed | Tree_mismatch

datatype store_validation_error = Missing_entry | Corrupt_entry corruption

datatype package_verification = Verified store_manifest | Missing_package | Corrupt corruption

datatype store_error =
    Copy_non_regular string | Build_failed build_error | New_entry_missing | New_entry_corrupt corruption
  | Create_dir_failed | Manifest_write_failed | Rename_failed

record store_codecs =
  package_json_parse :: "string \<Rightarrow> json option"
  manifest_to_json :: "store_manifest \<Rightarrow> string"
  manifest_of_json :: "string \<Rightarrow> store_manifest option"

fun is_verified :: "package_verification \<Rightarrow> bool" where
  "is_verified (Verified _) = True"
| "is_verified _ = False"

section \<open>Paths of entries\<close>

definition safe_path_component :: "string \<Rightarrow> string" where
  "safe_path_component input =
     (if input = [] then ''_''
      else let out = concat (map (\<lambda>b. if is_kept b then [b] else ''%'' @ upper_hex b) input)
           in if out = ''.'' then ''%2E'' else if out = ''..'' then ''%2E%2E'' else out)"

definition name_component :: "string \<Rightarrow> string" where
  "name_component name = safe_path_component (replace_char (CHR ''/'') ''+'' name)"

definition package_name_dir :: "string \<Rightarrow> string list" where
  "package_name_dir name = [name_component name]"

definition package_dir :: "string \<Rightarrow> string \<Rightarrow> string list" where
  "package_dir name version = package_name_dir name @ [safe_path_component version]"

definition unwrap_or_default :: "string option \<Rightarrow> string" where
  "unwrap_or_default x = (case x of None \<Rightarrow> [] | Some s \<Rightarrow> s)"

definition variant_identity :: "string option \<Rightarrow> string option \<Rightarrow> string" where
  "variant_identity resolved_url lock_integrity =
     ''resolved='' @ unwrap_or_default resolved_url @ [CHR 0x0A] @ ''integrity='' @ unwrap_or_default lock_integrity"

definition package_dir_for ::
  "(string \<Rightarrow> string) \<Rightarrow> string \<Rightarrow> string \<Rightarrow> string option \<Rightarrow> string option \<Rightarrow> string list" where
  "package_dir_for blake3 name version resolved_url lock_integrity =
     (if resolved_url = None \<and> lock_integrity = None then package_dir name version
      else [''.variants'', name_component name, safe_path_component version,
            blake3_hex blake3 (variant_identity resolved_url lock_integrity)])"

section \<open>File trees and manifests\<close>

fun copy_dir_recursive :: "string \<Rightarrow> ftree \<Rightarrow> (store_error, ftree) result" where
  "copy_dir_recursive path (File data) = Inr (File data)"
| "copy_dir_recursive path (Dir es) =
     bind_result (map_result (\<lambda>(n, r). bind_result r (\<lambda>t. Inr (n, t)))
                    (map (\<lambda>(n, t). (n, copy_dir_recursive n t)) es)) (\<lambda>es'. Inr (Dir es'))"
| "copy_dir_recursive path (Special l) = Inl (Copy_non_regular path)"

definition manifest_relative_path :: "string list \<Rightarrow> string" where
  "manifest_relative_path parts = intercalate ''/'' parts"

text \<open>\<open>parts\<close> is the path below the entry's root; entries of a directory are visited in name order.\<close>

fun collect_file_tree ::
  "(string \<Rightarrow> string) \<Rightarrow> string list \<Rightarrow> ftree \<Rightarrow> (build_error, store_manifest_file list) result" where
  "collect_file_tree blake3 parts (Dir es) =
     bind_result (map_result snd (sort_key fst (map (\<lambda>(n, t). (n, collect_file_tree blake3 (parts @ [n]) t)) es)))
       (\<lambda>ls. Inr (concat ls))"
| "collect_file_tree blake3 parts (File data) =
     (if last parts = STORE_MANIFEST_FILE then Inr []
      else Inr [\<lparr>smf_path = manifest_relative_path parts, smf_bytes = length data, smf_blake3 = blake3_hex blake3 data\<rparr>])"
| "collect_file_tree blake3 parts (Special l) = Inl (Special_file (manifest_relative_path parts))"

definition build_file_tree :: "(string \<Rightarrow> string) \<Rightarrow> ftree \<Rightarrow> (build_error, store_manifest_file list) result" where
  "build_file_tree blake3 root =
     (case root of
        Dir es \<Rightarrow> bind_result (collect_file_tree blake3 [] (Dir es)) (\<lambda>files. Inr (sort_key smf_path files))
      | _ \<Rightarrow> Inl Not_a_directory)"

definition read_file :: "string list \<Rightarrow> ftree \<Rightarrow> string option" where
  "read_file p t = (case tree_lookup p t of Some (File data) \<Rightarrow> Some data | _ \<Rightarrow> None)"

definition member_str :: "json \<Rightarrow> string \<Rightarrow> string" where
  "member_str v k = unwrap_or_default (Option.bind (json_get v k) as_str)"

definition version_matches :: "string \<Rightarrow> string \<Rightarrow> bool" where
  "version_matches package_json_version version =
     (let package_version = (case strip_prefix package_json_version ''v'' of Some r \<Rightarrow> r | None \<Rightarrow> package_json_version)
      in package_version = version
         \<or> (case strip_prefix package_version version of
              Some rest \<Rightarrow> starts_with rest ''+'' \<and> length rest > 1
            | None \<Rightarrow> False))"

definition build_manifest ::
  "store_codecs \<Rightarrow> (string \<Rightarrow> string) \<Rightarrow> string \<Rightarrow> string \<Rightarrow> string option \<Rightarrow> string option \<Rightarrow> ftree \<Rightarrow> (build_error, store_manifest) result" where
  "build_manifest cs blake3 name version resolved_url lock_integrity dir =
     bind_result (ok_or (read_file [''package.json''] dir) Package_json_missing) (\<lambda>text.
     bind_result (ok_or (package_json_parse cs text) Package_json_invalid) (\<lambda>package_json.
     let package_json_name = member_str package_json ''name'';
         package_json_version = member_str package_json ''version''
     in bind_result (ensure (package_json_name = name \<and> version_matches package_json_version version) Package_json_mismatch) (\<lambda>_.
        bind_result (build_file_tree blake3 dir) (\<lambda>blake3_tree.
        Inr \<lparr>sm_schema_version = STORE_MANIFEST_SCHEMA_VERSION, sm_name = name, sm_version = version,
             sm_lock_integrity = lock_integrity, sm_resolved_url = resolved_url,
             sm_package_json_name = package_json_name, sm_package_json_version = package_json_version,
             sm_file_count = length blake3_tree, sm_byte_count = sum_list (map smf_bytes blake3_tree),
             sm_blake3_tree = blake3_tree\<rparr>))))"

definition corrupt :: "bool \<Rightarrow> corruption \<Rightarrow> (store_validation_error, unit) result" where
  "corrupt b reason = ensure (\<not> b) (Corrupt_entry reason)"

definition validate_manifest ::
  "store_codecs \<Rightarrow> (string \<Rightarrow> string) \<Rightarrow> string \<Rightarrow> string \<Rightarrow> string option \<Rightarrow> string option \<Rightarrow> ftree option \<Rightarrow>
   (store_validation_error, store_manifest) result" where
  "validate_manifest cs blake3 name version resolved_url lock_integrity entry =
     bind_result (ok_or entry Missing_entry) (\<lambda>dir.
     bind_result (corrupt (tree_lookup [STORE_MANIFEST_FILE] dir = None) Manifest_missing) (\<lambda>_.
     bind_result (ok_or (read_file [STORE_MANIFEST_FILE] dir) (Corrupt_entry Manifest_unreadable)) (\<lambda>data.
     bind_result (ok_or (manifest_of_json cs data) (Corrupt_entry Manifest_malformed)) (\<lambda>manifest.
     bind_result (corrupt (sm_schema_version manifest \<noteq> STORE_MANIFEST_SCHEMA_VERSION) (Schema_unsupported (sm_schema_version manifest))) (\<lambda>_.
     bind_result (corrupt (sm_name manifest \<noteq> name \<or> sm_version manifest \<noteq> version) Package_mismatch) (\<lambda>_.
     bind_result (corrupt (lock_integrity \<noteq> None \<and> sm_lock_integrity manifest \<noteq> lock_integrity) Integrity_mismatch) (\<lambda>_.
     bind_result (corrupt (resolved_url \<noteq> None \<and> sm_resolved_url manifest \<noteq> resolved_url) Resolved_mismatch) (\<lambda>_.
     case build_manifest cs blake3 name version (sm_resolved_url manifest) (sm_lock_integrity manifest) dir of
       Inl e \<Rightarrow> Inl (Corrupt_entry (Rebuild_failed e))
     | Inr rebuilt \<Rightarrow>
         bind_result (corrupt (sm_package_json_name rebuilt \<noteq> sm_package_json_name manifest
                               \<or> sm_package_json_version rebuilt \<noteq> sm_package_json_version manifest) Package_json_changed) (\<lambda>_.
         bind_result (corrupt (sm_file_count rebuilt \<noteq> sm_file_count manifest \<or> sm_byte_count rebuilt \<noteq> sm_byte_count manifest
                               \<or> sm_blake3_tree rebuilt \<noteq> sm_blake3_tree manifest) Tree_mismatch) (\<lambda>_.
         Inr manifest))))))))))"

definition verify_package_at ::
  "store_codecs \<Rightarrow> (string \<Rightarrow> string) \<Rightarrow> string \<Rightarrow> string \<Rightarrow> string option \<Rightarrow> string option \<Rightarrow> ftree \<Rightarrow> string list \<Rightarrow>
   package_verification" where
  "verify_package_at cs blake3 name version resolved_url lock_integrity root dir =
     (case validate_manifest cs blake3 name version resolved_url lock_integrity (tree_lookup dir root) of
        Inr manifest \<Rightarrow> Verified manifest
      | Inl Missing_entry \<Rightarrow> Missing_package
      | Inl (Corrupt_entry reason) \<Rightarrow> Corrupt reason)"

section \<open>The store's operations\<close>

text \<open>The text \<open>stamp\<close> is the process id and the clock in the name of the scratch directory.\<close>

definition temp_path :: "string \<Rightarrow> string \<Rightarrow> string \<Rightarrow> string list" where
  "temp_path name version stamp =
     [''.tmp'', name_component name @ ''-'' @ safe_path_component version @ ''-'' @ stamp]"

text \<open>\<open>fs::write\<close> of a file in a directory replaces a file of that name, and fails on a directory.\<close>

definition write_file :: "string \<Rightarrow> string \<Rightarrow> ftree \<Rightarrow> ftree option" where
  "write_file n data t =
     (case tree_lookup [n] t of Some (Dir _) \<Rightarrow> None | _ \<Rightarrow> tree_put [n] (File data) t)"

text \<open>What is built in the scratch directory: the copy, with the manifest written, accepted by the validator.\<close>

definition stage_entry ::
  "store_codecs \<Rightarrow> (string \<Rightarrow> string) \<Rightarrow> string \<Rightarrow> string \<Rightarrow> string option \<Rightarrow> string option \<Rightarrow> ftree \<Rightarrow> (store_error, ftree) result" where
  "stage_entry cs blake3 name version resolved_url lock_integrity extracted_dir =
     bind_result (copy_dir_recursive [] extracted_dir) (\<lambda>temp.
     case build_manifest cs blake3 name version resolved_url lock_integrity temp of
       Inl e \<Rightarrow> Inl (Build_failed e)
     | Inr manifest \<Rightarrow>
         bind_result (ok_or (write_file STORE_MANIFEST_FILE (manifest_to_json cs manifest) temp) Manifest_write_failed) (\<lambda>temp.
         case validate_manifest cs blake3 name version resolved_url lock_integrity (Some temp) of
           Inr _ \<Rightarrow> Inr temp
         | Inl Missing_entry \<Rightarrow> Inl New_entry_missing
         | Inl (Corrupt_entry reason) \<Rightarrow> Inl (New_entry_corrupt reason)))"

text \<open>
  The scratch directory holds the staged tree when the other processes act; a failed rename accepts only an entry that
  verifies, and the scratch directory is removed in every case.
\<close>

definition store_package_at ::
  "store_codecs \<Rightarrow> (string \<Rightarrow> string) \<Rightarrow> (ftree \<Rightarrow> ftree) \<Rightarrow> string \<Rightarrow> string \<Rightarrow> string \<Rightarrow> string option \<Rightarrow> string option \<Rightarrow>
   ftree \<Rightarrow> string list \<Rightarrow> ftree \<Rightarrow> (store_error, string list) result \<times> ftree" where
  "store_package_at cs blake3 others stamp name version resolved_url lock_integrity extracted_dir pkg_store_dir root =
     (case verify_package_at cs blake3 name version resolved_url lock_integrity root pkg_store_dir of
        Verified _ \<Rightarrow> (Inr pkg_store_dir, root)
      | v \<Rightarrow>
          let root = (case v of Corrupt _ \<Rightarrow> tree_remove pkg_store_dir root | _ \<Rightarrow> root);
              temp_dir = temp_path name version stamp
          in case create_dir_all (butlast pkg_store_dir) root of
               None \<Rightarrow> (Inl Create_dir_failed, root)
             | Some root \<Rightarrow>
          (case create_dir_all temp_dir (tree_remove temp_dir root) of
               None \<Rightarrow> (Inl Create_dir_failed, root)
             | Some root \<Rightarrow>
          (case stage_entry cs blake3 name version resolved_url lock_integrity extracted_dir of
               Inl e \<Rightarrow> (Inl e, tree_remove temp_dir root)
             | Inr temp \<Rightarrow>
          (case tree_put temp_dir temp root of
               None \<Rightarrow> (Inl Create_dir_failed, root)
             | Some root \<Rightarrow>
          let root = others root
          in case rename_dir temp_dir pkg_store_dir root of
               Some root' \<Rightarrow> (Inr pkg_store_dir, root')
             | None \<Rightarrow>
                 if is_verified (verify_package_at cs blake3 name version resolved_url lock_integrity root pkg_store_dir)
                 then (Inr pkg_store_dir, tree_remove temp_dir root)
                 else (Inl Rename_failed, tree_remove temp_dir root)))))"

definition store_package_with_manifest ::
  "store_codecs \<Rightarrow> (string \<Rightarrow> string) \<Rightarrow> (ftree \<Rightarrow> ftree) \<Rightarrow> string \<Rightarrow> string \<Rightarrow> string \<Rightarrow> string option \<Rightarrow> string option \<Rightarrow>
   ftree \<Rightarrow> ftree \<Rightarrow> (store_error, string list) result \<times> ftree" where
  "store_package_with_manifest cs blake3 others stamp name version resolved_url lock_integrity extracted_dir root =
     store_package_at cs blake3 others stamp name version resolved_url lock_integrity extracted_dir (package_dir name version) root"

definition store_package ::
  "store_codecs \<Rightarrow> (string \<Rightarrow> string) \<Rightarrow> (ftree \<Rightarrow> ftree) \<Rightarrow> string \<Rightarrow> string \<Rightarrow> string \<Rightarrow> ftree \<Rightarrow> ftree \<Rightarrow> (store_error, string list) result \<times> ftree" where
  "store_package cs blake3 others stamp name version extracted_dir root =
     store_package_with_manifest cs blake3 others stamp name version None None extracted_dir root"

definition store_package_variant_with_manifest ::
  "store_codecs \<Rightarrow> (string \<Rightarrow> string) \<Rightarrow> (ftree \<Rightarrow> ftree) \<Rightarrow> string \<Rightarrow> string \<Rightarrow> string \<Rightarrow> string option \<Rightarrow> string option \<Rightarrow>
   ftree \<Rightarrow> ftree \<Rightarrow> (store_error, string list) result \<times> ftree" where
  "store_package_variant_with_manifest cs blake3 others stamp name version resolved_url lock_integrity extracted_dir root =
     store_package_at cs blake3 others stamp name version resolved_url lock_integrity extracted_dir
       (package_dir_for blake3 name version resolved_url lock_integrity) root"

definition verify_package ::
  "store_codecs \<Rightarrow> (string \<Rightarrow> string) \<Rightarrow> string \<Rightarrow> string \<Rightarrow> string option \<Rightarrow> ftree \<Rightarrow> package_verification" where
  "verify_package cs blake3 name version lock_integrity root =
     verify_package_at cs blake3 name version None lock_integrity root (package_dir name version)"

definition has_package :: "store_codecs \<Rightarrow> (string \<Rightarrow> string) \<Rightarrow> string \<Rightarrow> string \<Rightarrow> ftree \<Rightarrow> bool" where
  "has_package cs blake3 name version root \<longleftrightarrow> is_verified (verify_package cs blake3 name version None root)"

definition verify_package_variant ::
  "store_codecs \<Rightarrow> (string \<Rightarrow> string) \<Rightarrow> string \<Rightarrow> string \<Rightarrow> string option \<Rightarrow> string option \<Rightarrow> ftree \<Rightarrow> package_verification" where
  "verify_package_variant cs blake3 name version resolved_url lock_integrity root =
     verify_package_at cs blake3 name version resolved_url lock_integrity root
       (package_dir_for blake3 name version resolved_url lock_integrity)"

definition remove_package :: "string \<Rightarrow> string \<Rightarrow> ftree \<Rightarrow> ftree" where
  "remove_package name version root =
     tree_remove [''.variants'', name_component name, safe_path_component version]
       (tree_remove (package_dir name version) root)"

definition dir_entries :: "ftree \<Rightarrow> (string \<times> ftree) list" where
  "dir_entries t = (case t of Dir es \<Rightarrow> es | _ \<Rightarrow> [])"

definition list_packages :: "ftree \<Rightarrow> (string \<times> string) list" where
  "list_packages root =
     concat (map (\<lambda>(file_name, t).
         let name = replace_char (CHR ''+'') ''/'' file_name
         in if starts_with name ''.'' then []
            else map (Pair name) (filter (\<lambda>v. \<not> starts_with v ''.'') (map fst (dir_entries t))))
       (dir_entries root))"

end
