(* ===== verification/Cas_Safety.thy ===== *)
theory Cas_Safety
  imports Cas
begin

text \<open>
  What the store guarantees: a successful call leaves a verified entry at the returned path whatever
  other processes do meanwhile, other entries are left alone, a verified entry determines the
  content of every file it tracks, different packages and sources have different directories, and removal removes all
  variants. The path laws come from the locale \<open>path_store\<close>, the escape laws from \<open>safe_component\<close>.
\<close>

lemma safe_path_component_escape: "safe_path_component = escape_component"
  unfolding safe_path_component_def escape_component_def escape_byte_def by (rule ext) (simp add: comp_def)

interpretation cas: safe_component safe_path_component
  unfolding safe_path_component_escape by (rule escape_is_safe_component)

section \<open>Lookups through the operations\<close>

lemma verify_missing: "tree_lookup dir root = None \<Longrightarrow> verify_package_at cs b n v u i root dir = Missing_package"
  by (simp add: verify_package_at_def validate_manifest_def)

lemma is_verified_iff:
  "is_verified (verify_package_at cs b n v u i root dir)
     \<longleftrightarrow> (\<exists>m. validate_manifest cs b n v u i (tree_lookup dir root) = Inr m)"
  by (auto simp: verify_package_at_def split: sum.splits store_validation_error.splits)

lemma stage_entry_steps:
  assumes "stage_entry cs b n v u i ex = Inr temp"
  obtains a m m' where "copy_dir_recursive [] ex = Inr a" "build_manifest cs b n v u i a = Inr m"
    "write_file STORE_MANIFEST_FILE (manifest_to_json cs m) a = Some temp" "validate_manifest cs b n v u i (Some temp) = Inr m'"
proof -
  obtain a where a: "copy_dir_recursive [] ex = Inr a"
    using assms by (auto simp: stage_entry_def bind_result_Inr_iff)
  show thesis
  proof (cases "build_manifest cs b n v u i a")
    case (Inr m)
    obtain t where t: "write_file STORE_MANIFEST_FILE (manifest_to_json cs m) a = Some t"
      using assms a Inr by (auto simp: stage_entry_def bind_result_Inr_iff)
    show thesis
    proof (cases "validate_manifest cs b n v u i (Some t)")
      case (Inl e)
      then show thesis using assms a Inr t by (cases e) (simp_all add: stage_entry_def)
    next
      case (Inr m')
      then have "t = temp" using assms a t \<open>build_manifest cs b n v u i a = Inr m\<close> by (simp add: stage_entry_def)
      then show thesis using that a t Inr \<open>build_manifest cs b n v u i a = Inr m\<close> by blast
    qed
  qed (use assms a in \<open>simp add: stage_entry_def\<close>)
qed

lemma stage_entry_valid:
  "stage_entry cs b n v u i ex = Inr temp \<Longrightarrow> \<exists>m. validate_manifest cs b n v u i (Some temp) = Inr m"
  by (erule stage_entry_steps) blast

text \<open>The result of a store call, without the cases that fail.\<close>

lemma store_package_at_cases:
  assumes "store_package_at cs b others stamp n v u i ex dir root = (Inr p, root')"
  obtains (present) m where "p = dir" "root' = root" "verify_package_at cs b n v u i root dir = Verified m"
  | (renamed) temp r where "p = dir" "stage_entry cs b n v u i ex = Inr temp" "tree_lookup (temp_path n v stamp) r = Some temp"
      "rename_dir (temp_path n v stamp) dir (others r) = Some root'"
  | (lost_race) r where "p = dir" "root' = tree_remove (temp_path n v stamp) r"
      "is_verified (verify_package_at cs b n v u i r dir)"
proof (cases "verify_package_at cs b n v u i root dir")
  case (Verified m)
  then show thesis using assms present by (simp add: store_package_at_def)
next
  case Missing_package
  then show thesis
    using assms renamed lost_race
    by (auto simp: store_package_at_def Let_def split: option.splits sum.splits if_splits dest: tree.look_put)
next
  case (Corrupt c)
  then show thesis
    using assms renamed lost_race
    by (auto simp: store_package_at_def Let_def split: option.splits sum.splits if_splits dest: tree.look_put)
qed

lemma store_package_at_verified:
  assumes "\<And>r. tree_lookup (temp_path n v stamp) (others r) = tree_lookup (temp_path n v stamp) r"
    and "disjoint_paths (temp_path n v stamp) dir"
    and "store_package_at cs b others stamp n v u i ex dir root = (Inr p, root')"
  shows "p = dir \<and> is_verified (verify_package_at cs b n v u i root' dir)"
  using assms(3)
proof (cases rule: store_package_at_cases)
  case (renamed temp r)
  have "tree_lookup dir root' = Some temp"
    using rename_dir_effect(1)[OF renamed(4) assms(2)] renamed(3) assms(1) by simp
  then show ?thesis using stage_entry_valid[OF renamed(2)] renamed(1) by (simp add: is_verified_iff)
next
  case (lost_race r)
  have "tree_lookup dir root' = tree_lookup dir r"
    unfolding lost_race(2) by (rule tree.look_del_other[OF assms(2)])
  then show ?thesis using lost_race(1,3) by (simp add: is_verified_iff)
qed simp

lemma temp_disjoint: "dir \<noteq> [] \<Longrightarrow> hd dir \<noteq> ''.tmp'' \<Longrightarrow> disjoint_paths (temp_path n v stamp) dir"
  by (cases dir) (auto simp: temp_path_def disjoint_paths_Cons)

lemma package_dir_for_shape:
  "package_dir_for b n v u i \<noteq> []" "name_component n \<noteq> ''.tmp'' \<Longrightarrow> hd (package_dir_for b n v u i) \<noteq> ''.tmp''"
  by (auto simp: package_dir_for_def package_dir_def package_name_dir_def)

section \<open>A package for the examples\<close>

definition sample_codecs :: store_codecs where
  "sample_codecs = \<lparr>package_json_parse = (\<lambda>s. Some (JObj [(''name'', JStr ''a''), (''version'', JStr ''1'')])),
     manifest_to_json = (\<lambda>m. ''m''), manifest_of_json = (\<lambda>s. None)\<rparr>"

definition sample_package :: ftree where
  "sample_package = Dir [(''package.json'', File ''{}'')]"

definition sample_manifest :: store_manifest where
  "sample_manifest = projr (build_manifest sample_codecs (\<lambda>x. x) ''a'' ''1'' None None sample_package)"

definition sample_codecs1 :: store_codecs where
  "sample_codecs1 = sample_codecs\<lparr>manifest_of_json := (\<lambda>s. Some sample_manifest)\<rparr>"

definition sample_entry :: ftree where
  "sample_entry = Dir [(''package.json'', File ''{}''), (STORE_MANIFEST_FILE, File ''m'')]"

lemma sample_build:
  "build_manifest sample_codecs1 (\<lambda>x. x) ''a'' ''1'' None None sample_package = Inr sample_manifest"
  "build_manifest sample_codecs1 (\<lambda>x. x) ''a'' ''1'' None None sample_entry = Inr sample_manifest"
proof -
  have vm: "version_matches ''1'' ''1''" by code_simp
  have b: "build_manifest cs (\<lambda>x. x) ''a'' ''1'' None None t = Inr sample_manifest"
    if "package_json_parse cs = package_json_parse sample_codecs" "t = sample_package \<or> t = sample_entry" for cs t
    using that vm unfolding sample_manifest_def
    by (auto simp: build_manifest_def sample_codecs_def sample_package_def sample_entry_def read_file_def member_str_def
        json_get_def unwrap_or_default_def build_file_tree_def STORE_MANIFEST_FILE_def Let_def)
  show "build_manifest sample_codecs1 (\<lambda>x. x) ''a'' ''1'' None None sample_package = Inr sample_manifest"
    "build_manifest sample_codecs1 (\<lambda>x. x) ''a'' ''1'' None None sample_entry = Inr sample_manifest"
    by (simp_all add: b sample_codecs1_def)
qed

lemma build_manifest_fields:
  "build_manifest cs b n v u i dir = Inr m \<Longrightarrow> sm_schema_version m = STORE_MANIFEST_SCHEMA_VERSION \<and> sm_name m = n
     \<and> sm_version m = v \<and> sm_resolved_url m = u \<and> sm_lock_integrity m = i"
  by (auto simp: build_manifest_def bind_result_Inr_iff Let_def)

lemma sample_manifest_fields:
  "sm_schema_version sample_manifest = STORE_MANIFEST_SCHEMA_VERSION" "sm_name sample_manifest = ''a''"
  "sm_version sample_manifest = ''1''" "sm_resolved_url sample_manifest = None" "sm_lock_integrity sample_manifest = None"
  using build_manifest_fields[OF sample_build(1)] by simp_all

lemma sample_valid: "validate_manifest sample_codecs1 (\<lambda>x. x) ''a'' ''1'' None None (Some sample_entry) = Inr sample_manifest"
proof -
  have "tree_lookup [STORE_MANIFEST_FILE] sample_entry = Some (File ''m'')"
    by (simp add: sample_entry_def STORE_MANIFEST_FILE_def)
  moreover have "manifest_of_json sample_codecs1 ''m'' = Some sample_manifest" by (simp add: sample_codecs1_def)
  ultimately show ?thesis
    using sample_build(2) sample_manifest_fields by (simp add: validate_manifest_def corrupt_def read_file_def)
qed

lemma sample_stage: "stage_entry sample_codecs1 (\<lambda>x. x) ''a'' ''1'' None None sample_package = Inr sample_entry"
proof -
  have "copy_dir_recursive [] sample_package = Inr sample_package" by (simp add: sample_package_def)
  moreover have "write_file STORE_MANIFEST_FILE (manifest_to_json sample_codecs1 sample_manifest) sample_package = Some sample_entry"
    by (simp add: write_file_def sample_package_def sample_entry_def sample_codecs1_def sample_codecs_def STORE_MANIFEST_FILE_def hm_insert_def)
  ultimately show ?thesis using sample_build(1) sample_valid by (simp add: stage_entry_def)
qed

lemma sample_dirs: "package_dir_for b ''a'' ''1'' None None = [''a'', ''1'']" "name_component ''a'' = ''a''"
  "temp_path ''a'' ''1'' ''9'' = [''.tmp'', ''a-1-9'']"
proof -
  have c: "safe_path_component ''1'' = ''1''" "name_component ''a'' = ''a''" by code_simp+
  show "package_dir_for b ''a'' ''1'' None None = [''a'', ''1'']" "name_component ''a'' = ''a''"
    "temp_path ''a'' ''1'' ''9'' = [''.tmp'', ''a-1-9'']"
    by (simp_all add: package_dir_for_def package_dir_def package_name_dir_def temp_path_def c)
qed

lemma sample_store:
  "\<exists>root'. store_package_variant_with_manifest sample_codecs1 (\<lambda>x. x) (\<lambda>r. r) ''9'' ''a'' ''1'' None None sample_package (Dir [])
     = (Inr [''a'', ''1''], root')"
  unfolding store_package_variant_with_manifest_def store_package_at_def Let_def sample_dirs sample_stage
  by (simp add: verify_missing create_dir_all_def rename_dir_def hm_insert_def)

text \<open>
  Storing a package never returns an unverified entry: when the call succeeds, the entry for that
  name, version, source and integrity verifies in the resulting store, whether it was there already, was installed by this
  call, or was installed by another process that won the race. Other processes may change the store
  in any way except inside this call's scratch directory.
\<close>

theorem store_returns_verified:
  assumes "\<And>r. tree_lookup (temp_path name version stamp) (others r) = tree_lookup (temp_path name version stamp) r"
    and "name_component name \<noteq> ''.tmp''"
    and "store_package_variant_with_manifest cs blake3 others stamp name version url integrity extracted root = (Inr p, root')"
  shows "p = package_dir_for blake3 name version url integrity
    \<and> is_verified (verify_package_variant cs blake3 name version url integrity root')"
  using store_package_at_verified[OF assms(1)
      temp_disjoint[OF package_dir_for_shape(1) package_dir_for_shape(2)[OF assms(2)]]
      assms(3)[unfolded store_package_variant_with_manifest_def]]
  by (simp add: verify_package_variant_def)

theorem store_returns_verified_witness:
  "\<exists>root'. is_verified (verify_package_variant sample_codecs1 (\<lambda>x. x) ''a'' ''1'' None None root')"
proof -
  obtain root' where "store_package_variant_with_manifest sample_codecs1 (\<lambda>x. x) (\<lambda>r. r) ''9'' ''a'' ''1'' None None sample_package (Dir [])
     = (Inr [''a'', ''1''], root')" using sample_store by blast
  from store_returns_verified[OF refl _ this] show ?thesis by (auto simp: sample_dirs)
qed

text \<open>
  Storing a package leaves the rest of the store alone, on success and on every error: what is at
  a path that is disjoint from the package's own directory and from the scratch directory, and that other processes leave
  alone, is what was there before.
\<close>

theorem store_keeps_others:
  assumes "\<And>r. tree_lookup q (others r) = tree_lookup q r"
    and "disjoint_paths (temp_path name version stamp) q" and "disjoint_paths dir q"
    and "disjoint_paths (temp_path name version stamp) dir"
    and "store_package_at cs blake3 others stamp name version url integrity extracted dir root = (result, root')"
  shows "tree_lookup q root' = tree_lookup q root"
proof -
  let ?tmp = "temp_path name version stamp"
  have rem: "tree_lookup q (tree_remove ?tmp t) = tree_lookup q t" "tree_lookup q (tree_remove dir t) = tree_lookup q t" for t
    using tree.look_del_other assms(2,3) by blast+
  have np: "\<not> prefix q ?tmp" "\<not> prefix q (butlast dir)"
    using assms(2,3) prefix_order.trans[OF _ prefixeq_butlast] by (auto simp: disjoint_paths_def)
  have mk: "tree_lookup q t' = tree_lookup q t" if "create_dir_all ?tmp t = Some t' \<or> create_dir_all (butlast dir) t = Some t'" for t t'
    using that create_dir_all_other np by blast
  have put: "tree_lookup q t' = tree_lookup q t" if "tree_put ?tmp v t = Some t'" for v t t'
    using tree.look_put_other[OF that assms(2)] .
  have ren: "tree_lookup q t' = tree_lookup q t" if "rename_dir ?tmp dir t = Some t'" for t t'
    using rename_dir_effect(2)[OF that assms(4)] assms(2,3) by blast
  show ?thesis
    using assms(5) unfolding store_package_at_def Let_def
    by (auto split: package_verification.splits option.splits sum.splits if_splits
        simp: rem assms(1) dest!: mk[OF disjI1] mk[OF disjI2] put ren)
qed

theorem store_keeps_others_witness:
  "\<exists>result root'. store_package_at sample_codecs1 (\<lambda>x. x) (\<lambda>r. r) ''9'' ''a'' ''1'' None None sample_package [''a'', ''1'']
      (Dir [(''b'', File ''x'')]) = (result, root') \<and> tree_lookup [''b''] root' = Some (File ''x'')"
proof -
  obtain result root' where s: "store_package_at sample_codecs1 (\<lambda>x. x) (\<lambda>r. r) ''9'' ''a'' ''1'' None None sample_package [''a'', ''1'']
      (Dir [(''b'', File ''x'')]) = (result, root')" by fastforce
  have "tree_lookup [''b''] root' = tree_lookup [''b''] (Dir [(''b'', File ''x'')])"
    by (rule store_keeps_others[OF refl _ _ _ s]) (simp_all add: sample_dirs disjoint_paths_Cons)
  then show ?thesis using s by simp
qed

section \<open>Tracked files\<close>

text \<open>The files of an entry that its manifest covers: those not named like the manifest itself.\<close>

definition tracked :: "string list \<Rightarrow> bool" where
  "tracked ps \<longleftrightarrow> ps \<noteq> [] \<and> last ps \<noteq> STORE_MANIFEST_FILE"

definition file_record :: "(string \<Rightarrow> string) \<Rightarrow> string list \<Rightarrow> string \<Rightarrow> store_manifest_file" where
  "file_record b ps data = \<lparr>smf_path = manifest_relative_path ps, smf_bytes = length data, smf_blake3 = blake3_hex b data\<rparr>"

lemma map_result_snd_Inr:
  "map_result snd xs = Inr ls \<longleftrightarrow> (\<forall>x\<in>set xs. is_ok (snd x)) \<and> ls = map (\<lambda>x. projr (snd x)) xs"
  by (induction xs arbitrary: ls) (auto simp: bind_result_Inr_iff)

lemma collect_Dir:
  "collect_file_tree b ps (Dir es) = Inr fs \<Longrightarrow>
     set fs = (\<Union>(n, t)\<in>set es. {f. \<exists>gs. collect_file_tree b (ps @ [n]) t = Inr gs \<and> f \<in> set gs})"
proof -
  assume h: "collect_file_tree b ps (Dir es) = Inr fs"
  define xs where "xs = map (\<lambda>(n, t). (n, collect_file_tree b (ps @ [n]) t)) es"
  have ok: "\<forall>x\<in>set xs. is_ok (snd x)" and fs: "fs = concat (map (\<lambda>x. projr (snd x)) (sort_key fst xs))"
    using h by (auto simp: bind_result_Inr_iff map_result_snd_Inr xs_def[symmetric])
  have "set fs = (\<Union>x\<in>set xs. set (projr (snd x)))" by (simp add: fs)
  also have "\<dots> = (\<Union>(n, t)\<in>set es. {f. \<exists>gs. collect_file_tree b (ps @ [n]) t = Inr gs \<and> f \<in> set gs})"
  proof -
    have "set (projr (collect_file_tree b (ps @ [n]) t)) = {f. \<exists>gs. collect_file_tree b (ps @ [n]) t = Inr gs \<and> f \<in> set gs}"
      if "(n, t) \<in> set es" for n t
    proof -
      have "(n, collect_file_tree b (ps @ [n]) t) \<in> set xs" using that by (force simp: xs_def)
      then obtain gs where "collect_file_tree b (ps @ [n]) t = Inr gs" using ok by fastforce
      then show ?thesis by simp
    qed
    moreover have "(\<Union>x\<in>set xs. set (projr (snd x))) = (\<Union>(n, t)\<in>set es. set (projr (collect_file_tree b (ps @ [n]) t)))"
      by (simp add: xs_def case_prod_beta)
    ultimately show ?thesis by auto
  qed
  finally show ?thesis .
qed

lemma tree_wf_child: "tree_wf (Dir es) \<Longrightarrow> (n, t) \<in> set es \<Longrightarrow> tree_wf t \<and> n \<noteq> [] \<and> CHR ''/'' \<notin> set n \<and> map_of es n = Some t"
  by (auto simp: list_all_iff)

lemma collect_children:
  assumes "collect_file_tree b ps (Dir es) = Inr fs" "(n, t) \<in> set es"
  obtains gs where "collect_file_tree b (ps @ [n]) t = Inr gs"
  using assms by (force simp: bind_result_Inr_iff map_result_snd_Inr)

text \<open>The collected records are exactly those of the tracked files.\<close>

lemma collect_tracked:
  assumes "tree_wf t" "collect_file_tree b ps t = Inr fs" "ps \<noteq> [] \<or> (\<exists>es. t = Dir es)"
  shows "set fs = {file_record b (ps @ qs) d | qs d. tracked (ps @ qs) \<and> tree_lookup qs t = Some (File d)}"
  using assms
proof (induction b ps t arbitrary: fs rule: collect_file_tree.induct)
  case (1 b ps es)
  have "f \<in> set fs \<longleftrightarrow> (\<exists>qs d. f = file_record b (ps @ qs) d \<and> tracked (ps @ qs) \<and> tree_lookup qs (Dir es) = Some (File d))" for f
  proof
    assume "f \<in> set fs"
    then obtain n t gs where n: "(n, t) \<in> set es" "collect_file_tree b (ps @ [n]) t = Inr gs" "f \<in> set gs"
      using collect_Dir[OF "1.prems"(2)] by auto
    then obtain qs d where "f = file_record b ((ps @ [n]) @ qs) d" "tracked ((ps @ [n]) @ qs)" "tree_lookup qs t = Some (File d)"
      using "1.IH"[of "(n, t)" n t gs] tree_wf_child[OF "1.prems"(1) n(1)] by auto
    then show "\<exists>qs d. f = file_record b (ps @ qs) d \<and> tracked (ps @ qs) \<and> tree_lookup qs (Dir es) = Some (File d)"
      using tree_wf_child[OF "1.prems"(1) n(1)] by (intro exI[of _ "n # qs"] exI[of _ d]) simp
  next
    assume "\<exists>qs d. f = file_record b (ps @ qs) d \<and> tracked (ps @ qs) \<and> tree_lookup qs (Dir es) = Some (File d)"
    then obtain qs d where f: "f = file_record b (ps @ qs) d" "tracked (ps @ qs)" "tree_lookup qs (Dir es) = Some (File d)" by blast
    then obtain n ms t where q: "qs = n # ms" "map_of es n = Some t" "tree_lookup ms t = Some (File d)"
      by (cases qs) (auto split: option.splits)
    then have mem: "(n, t) \<in> set es" by (simp add: map_of_SomeD)
    obtain gs where gs: "collect_file_tree b (ps @ [n]) t = Inr gs" using collect_children[OF "1.prems"(2) mem] .
    have "f \<in> set gs"
      using "1.IH"[of "(n, t)" n t gs] tree_wf_child[OF "1.prems"(1) mem] mem gs f q by auto
    then show "f \<in> set fs" using collect_Dir[OF "1.prems"(2)] mem gs by auto
  qed
  then show ?case by blast
next
  case (2 b ps data)
  have "tree_lookup qs (File data) = Some (File d) \<longleftrightarrow> qs = [] \<and> d = data" for qs d by (cases qs) auto
  then show ?case using 2 by (auto simp: tracked_def file_record_def split: if_splits)
qed simp

lemma component_of_path:
  assumes "tree_wf t" "tree_lookup ps t \<noteq> None" shows "\<forall>n\<in>set ps. CHR ''/'' \<notin> set n"
  using assms
proof (induction ps t rule: tree_lookup.induct)
  case (2 n ns es)
  then obtain t where t: "map_of es n = Some t" "tree_lookup ns t \<noteq> None" by (auto split: option.splits)
  then show ?case using 2 tree_wf_child[OF 2(2) map_of_SomeD[OF t(1)]] by auto
qed auto

lemma file_record_inj:
  assumes "ps \<noteq> []" "qs \<noteq> []" "\<forall>n\<in>set ps. CHR ''/'' \<notin> set n" "\<forall>n\<in>set qs. CHR ''/'' \<notin> set n"
    and inj: "inj_on b S" "c \<in> S" "d \<in> S" and eq: "file_record b ps c = file_record b qs d"
  shows "ps = qs \<and> c = d"
proof -
  have "split_char (CHR ''/'') (intercalate ''/'' ps) = split_char (CHR ''/'') (intercalate ''/'' qs)"
    using eq by (simp add: file_record_def manifest_relative_path_def)
  then have "ps = qs" using split_char_intercalate assms(1-4) by metis
  moreover have "hex_encode (b c) = hex_encode (b d)" using eq by (simp add: file_record_def blake3_hex_def)
  then have "c = d" using hex_encode_inj inj_onD[OF inj(1) _ inj(2,3)] by blast
  ultimately show ?thesis by blast
qed

lemma build_file_tree_tracked:
  assumes "tree_wf t" "build_file_tree b t = Inr fs"
  shows "set fs = {file_record b qs d | qs d. tracked qs \<and> tree_lookup qs t = Some (File d)}"
proof -
  obtain es gs where t: "t = Dir es" "collect_file_tree b [] (Dir es) = Inr gs" "fs = sort_key smf_path gs"
    using assms(2) by (cases t) (auto simp: build_file_tree_def bind_result_Inr_iff)
  then show ?thesis using collect_tracked[OF assms(1), of b "[]" gs] by auto
qed

text \<open>What a successful validation says.\<close>

lemma validate_manifest_ok:
  assumes "validate_manifest cs b n v u i (Some dir) = Inr m"
  shows "sm_name m = n" "sm_version m = v" "i \<noteq> None \<Longrightarrow> sm_lock_integrity m = i" "u \<noteq> None \<Longrightarrow> sm_resolved_url m = u"
    "build_file_tree b dir = Inr (sm_blake3_tree m)"
proof -
  obtain r where r: "build_manifest cs b n v (sm_resolved_url m) (sm_lock_integrity m) dir = Inr r"
      "sm_blake3_tree r = sm_blake3_tree m"
    and f: "sm_name m = n" "sm_version m = v" "i \<noteq> None \<longrightarrow> sm_lock_integrity m = i" "u \<noteq> None \<longrightarrow> sm_resolved_url m = u"
    using assms unfolding validate_manifest_def corrupt_def
    by (auto simp: bind_result_Inr_iff case_result_Inr_iff)
  show "sm_name m = n" "sm_version m = v" "i \<noteq> None \<Longrightarrow> sm_lock_integrity m = i" "u \<noteq> None \<Longrightarrow> sm_resolved_url m = u"
    using f by simp_all
  show "build_file_tree b dir = Inr (sm_blake3_tree m)"
    using r by (auto simp: build_manifest_def bind_result_Inr_iff Let_def)
qed

text \<open>
  C21: a verified entry determines its content: two trees that verify with the same manifest have the
  same tracked files with the same bytes, at every path and however deep, unless BLAKE3 collides on two of the file contents. The files
  the manifest does not track are those called like the manifest.
\<close>

theorem verified_content_unique:
  assumes "tree_wf s" "tree_wf t"
    and "validate_manifest cs blake3 name version url integrity (Some s) = Inr m"
    and "validate_manifest cs blake3 name version url integrity (Some t) = Inr m"
    and "inj_on blake3 {d. \<exists>ps. tree_lookup ps s = Some (File d) \<or> tree_lookup ps t = Some (File d)}"
    and "tracked ps"
  shows "tree_lookup ps s = Some (File d) \<longleftrightarrow> tree_lookup ps t = Some (File d)"
proof -
  have go: "tree_lookup ps y = Some (File d)"
    if w: "tree_wf x" "tree_wf y" and v: "build_file_tree blake3 x = Inr fs" "build_file_tree blake3 y = Inr fs"
      and inj: "inj_on blake3 {d. \<exists>ps. tree_lookup ps x = Some (File d) \<or> tree_lookup ps y = Some (File d)}"
      and l: "tree_lookup ps x = Some (File d)" for x y fs
  proof -
    have "file_record blake3 ps d \<in> set fs"
      unfolding build_file_tree_tracked[OF w(1) v(1)] using assms(6) l by blast
    then obtain qs c where q: "file_record blake3 ps d = file_record blake3 qs c" "tracked qs" "tree_lookup qs y = Some (File c)"
      unfolding build_file_tree_tracked[OF w(2) v(2)] by blast
    have "ps = qs \<and> d = c"
      by (rule file_record_inj[OF _ _ component_of_path[OF w(1)] component_of_path[OF w(2)] inj _ _ q(1)])
        (use assms(6) q l in \<open>auto simp: tracked_def\<close>)
    then show ?thesis using q by simp
  qed
  note B = validate_manifest_ok(5)[OF assms(3)] validate_manifest_ok(5)[OF assms(4)]
  have inj': "inj_on blake3 {d. \<exists>ps. tree_lookup ps t = Some (File d) \<or> tree_lookup ps s = Some (File d)}"
    using assms(5) by (simp add: disj_commute)
  show ?thesis using go[OF assms(1,2) B assms(5)] go[OF assms(2,1) B(2,1) inj'] by blast
qed

theorem verified_content_unique_witness:
  "tree_lookup [''package.json''] sample_entry = Some (File ''{}'') \<longleftrightarrow> tree_lookup [''package.json''] sample_entry = Some (File ''{}'')"
proof (rule verified_content_unique[OF _ _ sample_valid sample_valid])
  show "tree_wf sample_entry" by (simp add: sample_entry_def STORE_MANIFEST_FILE_def)
qed (simp_all add: tracked_def STORE_MANIFEST_FILE_def sample_entry_def)

section \<open>What the manifest does not cover\<close>

text \<open>
  The collector skips every file called like the manifest, at any depth, so the content of such a file
  below the root of an entry is not part of what is verified.
\<close>

lemma nested_manifest_untracked:
  "collect_file_tree b [] (Dir [(''lib'', Dir [(STORE_MANIFEST_FILE, File x)])])
   = collect_file_tree b [] (Dir [(''lib'', Dir [(STORE_MANIFEST_FILE, File y)])])"
  by simp

section \<open>Accepting a package\<close>

lemma map_result_pairs:
  assumes "\<And>n t. (n, t) \<in> set es \<Longrightarrow> f n t = Inr t"
  shows "map_result (\<lambda>(n, r). bind_result r (\<lambda>t. Inr (n, t))) (map (\<lambda>(n, t). (n, f n t)) es) = Inr es"
  using assms by (induction es) auto

lemma copy_regular: "no_special t \<Longrightarrow> copy_dir_recursive p t = Inr t"
proof (induction p t rule: copy_dir_recursive.induct)
  case (2 path es)
  have "map_result (\<lambda>(n, r). bind_result r (\<lambda>t. Inr (n, t))) (map (\<lambda>(n, t). (n, copy_dir_recursive n t)) es) = Inr es"
    by (rule map_result_pairs) (use 2 in \<open>auto simp: list_all_iff\<close>)
  then show ?case by simp
qed simp_all

lemma collect_regular: "no_special t \<Longrightarrow> is_ok (collect_file_tree b ps t)"
proof (induction b ps t rule: collect_file_tree.induct)
  case (1 b ps es)
  then have "\<forall>x\<in>set (map (\<lambda>(n, t). (n, collect_file_tree b (ps @ [n]) t)) es). is_ok (snd x)"
    by (auto simp: list_all_iff)
  then show ?case by (simp add: bind_result_Inr_iff map_result_snd_Inr)
qed simp_all

text \<open>Entries that contribute nothing can be left out.\<close>

lemma collect_results_filter:
  assumes "\<forall>x\<in>set xs. \<not> P x \<longrightarrow> snd x = Inr []"
  shows "bind_result (map_result snd xs) (\<lambda>ls. Inr (concat ls))
       = (bind_result (map_result snd (filter P xs)) (\<lambda>ls. Inr (concat ls)) :: (build_error, store_manifest_file list) result)"
  using assms by (induction xs) (auto simp: bind_result_def split: sum.splits)

lemma collect_without_manifest:
  assumes "\<And>t. (STORE_MANIFEST_FILE, t) \<in> set es \<Longrightarrow> (\<exists>d. t = File d)"
  shows "collect_file_tree b ps (Dir es) = collect_file_tree b ps (Dir (filter (\<lambda>e. fst e \<noteq> STORE_MANIFEST_FILE) es))"
proof -
  let ?f = "map (\<lambda>(n, t). (n, collect_file_tree b (ps @ [n]) t))"
  have "\<forall>x\<in>set (sort_key fst (?f es)). \<not> fst x \<noteq> STORE_MANIFEST_FILE \<longrightarrow> snd x = Inr []"
    using assms by force
  then have "collect_file_tree b ps (Dir es)
      = bind_result (map_result snd (filter (\<lambda>x. fst x \<noteq> STORE_MANIFEST_FILE) (sort_key fst (?f es)))) (\<lambda>ls. Inr (concat ls))"
    unfolding collect_file_tree.simps(1) by (rule collect_results_filter)
  also have "filter (\<lambda>x. fst x \<noteq> STORE_MANIFEST_FILE) (sort_key fst (?f es))
      = sort_key fst (?f (filter (\<lambda>e. fst e \<noteq> STORE_MANIFEST_FILE) es))"
    by (simp add: filter_sort filter_map comp_def case_prod_beta)
  finally show ?thesis by simp
qed

lemma filter_hm_insert: "filter (\<lambda>e. fst e \<noteq> k) (hm_insert k v m) = filter (\<lambda>e. fst e \<noteq> k) m"
  unfolding hm_insert_def by (induction m) auto

lemma set_hm_insert_key: "distinct (map fst m) \<Longrightarrow> (k, t) \<in> set (hm_insert k v m) \<Longrightarrow> t = v"
  using map_of_is_SomeI[of "hm_insert k v m" k t] hm_wf_insert[of m k v] by (simp add: hm_wf_def)

lemma write_manifest_tree:
  assumes "distinct (map fst es)" "write_file STORE_MANIFEST_FILE data (Dir es) = Some temp" "no_special (Dir es)"
  shows "temp = Dir (hm_insert STORE_MANIFEST_FILE (File data) es)"
    and "build_file_tree b temp = build_file_tree b (Dir es)"
proof -
  show temp: "temp = Dir (hm_insert STORE_MANIFEST_FILE (File data) es)"
    using assms(2) by (auto simp: write_file_def split: option.splits ftree.splits)
  have "\<exists>d. t = File d" if "(STORE_MANIFEST_FILE, t) \<in> set es" for t
  proof -
    have "tree_lookup [STORE_MANIFEST_FILE] (Dir es) = Some t" using that assms(1) by simp
    moreover have "no_special t" using that assms(3) by (auto simp: list_all_iff)
    ultimately show ?thesis using assms(2) by (cases t) (auto simp: write_file_def)
  qed
  then have "collect_file_tree b [] (Dir es) = collect_file_tree b [] (Dir (filter (\<lambda>e. fst e \<noteq> STORE_MANIFEST_FILE) es))"
    by (rule collect_without_manifest)
  moreover have "collect_file_tree b [] temp = collect_file_tree b [] (Dir (filter (\<lambda>e. fst e \<noteq> STORE_MANIFEST_FILE) es))"
    unfolding temp using set_hm_insert_key[OF assms(1)]
    by (subst collect_without_manifest) (blast, simp only: filter_hm_insert)
  ultimately show "build_file_tree b temp = build_file_tree b (Dir es)" by (simp add: build_file_tree_def temp del: collect_file_tree.simps)
qed

text \<open>
  C34: a well-formed package is accepted: when the extracted directory has only regular files and
  directories, its \<open>package.json\<close> parses and carries the expected name and version, no directory at its root has
  the name of the store's own manifest, and the manifest's encoding reads back as it was written, staging succeeds, and the staged tree has every tracked file of the package with the same bytes.
\<close>

theorem stage_entry_accepts:
  assumes "tree_wf (Dir es)" "no_special (Dir es)"
    and "read_file [''package.json''] (Dir es) = Some text" "package_json_parse cs text = Some pj"
    and "member_str pj ''name'' = name" "version_matches (member_str pj ''version'') version"
    and "\<forall>m. build_manifest cs blake3 name version url integrity (Dir es) = Inr m
           \<longrightarrow> manifest_of_json cs (manifest_to_json cs m) = Some m"
    and "\<forall>fs. tree_lookup [STORE_MANIFEST_FILE] (Dir es) \<noteq> Some (Dir fs)"
  shows "\<exists>temp. stage_entry cs blake3 name version url integrity (Dir es) = Inr temp
    \<and> (\<forall>ps. tracked ps \<longrightarrow> hd ps \<noteq> STORE_MANIFEST_FILE \<longrightarrow> tree_lookup ps temp = tree_lookup ps (Dir es))"
proof -
  obtain fs where fs: "build_file_tree blake3 (Dir es) = Inr fs"
    using collect_regular[OF assms(2), of blake3 "[]"] by (auto simp: build_file_tree_def)
  define m where "m = \<lparr>sm_schema_version = STORE_MANIFEST_SCHEMA_VERSION, sm_name = name, sm_version = version,
             sm_lock_integrity = integrity, sm_resolved_url = url,
             sm_package_json_name = member_str pj ''name'', sm_package_json_version = member_str pj ''version'',
             sm_file_count = length fs, sm_byte_count = sum_list (map smf_bytes fs), sm_blake3_tree = fs\<rparr>"
  have build: "build_manifest cs blake3 name version url integrity (Dir es) = Inr m"
    using assms(3-6) fs by (simp add: build_manifest_def m_def)
  obtain temp where w: "write_file STORE_MANIFEST_FILE (manifest_to_json cs m) (Dir es) = Some temp"
  proof (cases "tree_lookup [STORE_MANIFEST_FILE] (Dir es)")
    case (Some x)
    then show thesis using assms(8) that by (cases x) (auto simp: write_file_def split: option.splits)
  qed (use that in \<open>simp add: write_file_def split: option.splits\<close>)
  have d: "distinct (map fst es)" using assms(1) by simp
  note T = write_manifest_tree[OF d w assms(2)]
  have pj: "read_file [''package.json''] temp = Some text"
    using assms(3) by (simp add: T(1) read_file_def STORE_MANIFEST_FILE_def)
  have build': "build_manifest cs blake3 name version url integrity temp = Inr m"
    using assms(4-6) fs pj T(2) by (simp add: build_manifest_def m_def)
  have mf: "tree_lookup [STORE_MANIFEST_FILE] temp = Some (File (manifest_to_json cs m))" by (simp add: T(1))
  have "validate_manifest cs blake3 name version url integrity (Some temp) = Inr m"
    using build' mf assms(7) build by (simp add: validate_manifest_def corrupt_def read_file_def m_def)
  then have "stage_entry cs blake3 name version url integrity (Dir es) = Inr temp"
    using copy_regular[OF assms(2)] build w by (simp add: stage_entry_def)
  moreover have "tree_lookup ps temp = tree_lookup ps (Dir es)" if "tracked ps" "hd ps \<noteq> STORE_MANIFEST_FILE" for ps
    using that by (cases ps) (simp_all add: T(1) tracked_def)
  ultimately show ?thesis by blast
qed

theorem stage_entry_accepts_witness:
  "\<exists>temp. stage_entry sample_codecs1 (\<lambda>x. x) ''a'' ''1'' None None sample_package = Inr temp"
proof -
  have "version_matches ''1'' ''1''" by code_simp
  then show ?thesis
    using stage_entry_accepts[of "[(''package.json'', File ''{}'')]" "''{}''" sample_codecs1
        "JObj [(''name'', JStr ''a''), (''version'', JStr ''1'')]" "''a''" "''1''" "\<lambda>x. x" None None] sample_build(1)
    by (auto simp: sample_package_def read_file_def sample_codecs1_def sample_codecs_def member_str_def json_get_def
        unwrap_or_default_def STORE_MANIFEST_FILE_def)
qed

section \<open>Removal\<close>

lemma remove_keeps_absent: "tree_lookup q t = None \<Longrightarrow> tree_lookup q (tree_remove p t) = None"
proof (induction p t arbitrary: q rule: tree_remove.induct)
  case (2 n es)
  then show ?case by (cases q) (auto simp: map_of_filter_neq split: option.splits)
next
  case (3 n m ns es)
  show ?case
  proof (cases "map_of es n")
    case (Some t)
    show ?thesis
    proof (cases q)
      case (Cons k ks)
      then show ?thesis using 3(1)[OF Some, of ks] 3(2) Some by (auto split: option.splits)
    qed (use 3(2) in simp)
  qed (use 3(2) in simp)
qed auto

text \<open>
  After a package is removed no entry of that name and version is left, neither the plain one nor a
  variant of any source or integrity, and entries in other directories are untouched.
\<close>

theorem remove_package_complete:
  "verify_package cs blake3 name version integrity (remove_package name version root) = Missing_package
   \<and> verify_package_variant cs blake3 name version url integrity (remove_package name version root) = Missing_package
   \<and> (\<forall>q. disjoint_paths (package_dir name version) q \<and> disjoint_paths [''.variants'', name_component name, safe_path_component version] q
        \<longrightarrow> tree_lookup q (remove_package name version root) = tree_lookup q root)"
proof -
  have ne: "package_dir name version \<noteq> []" by (simp add: package_dir_def)
  have plain: "tree_lookup (package_dir name version) (remove_package name version root) = None"
    unfolding remove_package_def by (rule remove_keeps_absent) (simp add: lookup_remove ne)
  have "tree_lookup (package_dir_for blake3 name version url integrity) (remove_package name version root) = None"
  proof (cases "url = None \<and> integrity = None")
    case False
    then have "prefix [''.variants'', name_component name, safe_path_component version] (package_dir_for blake3 name version url integrity)"
      by (auto simp: package_dir_for_def)
    then show ?thesis unfolding remove_package_def by (intro tree.look_del) simp_all
  qed (use plain in \<open>simp add: package_dir_for_def\<close>)
  then show ?thesis
    using plain by (simp add: verify_package_def verify_package_variant_def verify_missing remove_package_def tree.look_del_other)
qed

theorem remove_package_complete_witness:
  "tree_lookup [''b''] (remove_package ''a'' ''1'' (Dir [(''a'', Dir [(''1'', Dir [])]), (''b'', File [])])) = Some (File [])"
proof -
  have "package_dir ''a'' ''1'' = [''a'', ''1'']" "name_component ''a'' = ''a''" by code_simp+
  then have "disjoint_paths (package_dir ''a'' ''1'') [''b'']"
    "disjoint_paths [''.variants'', name_component ''a'', safe_path_component ''1''] [''b'']"
    by (simp_all add: disjoint_paths_def)
  then show ?thesis
    using remove_package_complete[of _ _ "''a''" "''1''" _ "Dir [(''a'', Dir [(''1'', Dir [])]), (''b'', File [])]"] by force
qed

section \<open>Directories of different packages\<close>

lemma replace_slash_inj: "CHR ''+'' \<notin> set s \<Longrightarrow> CHR ''+'' \<notin> set t \<Longrightarrow> replace_char (CHR ''/'') ''+'' s = replace_char (CHR ''/'') ''+'' t \<Longrightarrow> s = t"
proof (induction s arbitrary: t)
  case Nil
  then show ?case by (cases t) (auto split: if_splits)
next
  case (Cons c s)
  then obtain d t' where t: "t = d # t'" by (cases t) (auto split: if_splits)
  have "c = d" using Cons.prems t by (auto split: if_splits)
  then show ?case using Cons t by (auto split: if_splits)
qed

lemma replace_slash_nonempty: "s \<noteq> [] \<Longrightarrow> replace_char (CHR ''/'') ''+'' s \<noteq> []"
  by (cases s) auto

lemma name_component_inj:
  assumes "n \<noteq> []" "m \<noteq> []" "CHR ''+'' \<notin> set n" "CHR ''+'' \<notin> set m" "name_component n = name_component m"
  shows "n = m"
  using cas.enc_inj[OF replace_slash_nonempty[OF assms(1)] replace_slash_nonempty[OF assms(2)]] assms(3-5)
    replace_slash_inj by (simp add: name_component_def)

lemma variant_identity_inj:
  assumes "variant_identity u i = variant_identity u' i'"
    and "CHR 0x0A \<notin> set (unwrap_or_default u)" "CHR 0x0A \<notin> set (unwrap_or_default u')"
    and "u \<noteq> Some []" "u' \<noteq> Some []" "i \<noteq> Some []" "i' \<noteq> Some []"
  shows "u = u' \<and> i = i'"
proof -
  have e: "unwrap_or_default u @ CHR 0x0A # ''integrity='' @ unwrap_or_default i
      = unwrap_or_default u' @ CHR 0x0A # ''integrity='' @ unwrap_or_default i'"
    using assms(1) by (simp add: variant_identity_def)
  have s: "split_first (CHR 0x0A) (unwrap_or_default x @ CHR 0x0A # y) = Some (unwrap_or_default x, y)"
    if "CHR 0x0A \<notin> set (unwrap_or_default x)" for x y
    unfolding split_first_Some using that by blast
  have "Some (unwrap_or_default u, ''integrity='' @ unwrap_or_default i) = Some (unwrap_or_default u', ''integrity='' @ unwrap_or_default i')"
    unfolding s[OF assms(2), symmetric] s[OF assms(3), symmetric] e ..
  then have "unwrap_or_default u = unwrap_or_default u'" "unwrap_or_default i = unwrap_or_default i'" by simp_all
  then show ?thesis using assms(4-7) by (auto simp: unwrap_or_default_def split: option.splits)
qed

text \<open>The packages and sources the store keeps apart.\<close>

definition storable :: "string \<Rightarrow> string \<Rightarrow> string option \<Rightarrow> string option \<Rightarrow> bool" where
  "storable name version url integrity \<longleftrightarrow> name \<noteq> [] \<and> version \<noteq> [] \<and> CHR ''+'' \<notin> set name
     \<and> name_component name \<noteq> ''.variants'' \<and> url \<noteq> Some [] \<and> integrity \<noteq> Some []
     \<and> CHR 0x0A \<notin> set (unwrap_or_default url)"

text \<open>
  Different packages never share or nest their directories: for names without a plus sign and
  non-empty versions and sources, the directories of two entries that differ in name, version, source
  or integrity are disjoint paths, unless BLAKE3 collides on the two source descriptions.
\<close>

theorem package_dirs_disjoint:
  assumes "storable n v u i" "storable n' v' u' i'" "(n, v, u, i) \<noteq> (n', v', u', i')"
    and "inj_on blake3 {variant_identity u i, variant_identity u' i'}"
  shows "disjoint_paths (package_dir_for blake3 n v u i) (package_dir_for blake3 n' v' u' i')"
proof -
  have nv: "name_component n = name_component n' \<Longrightarrow> safe_path_component v = safe_path_component v' \<Longrightarrow> n = n' \<and> v = v'"
    using assms(1,2) name_component_inj[of n n'] cas.enc_inj[of v v'] unfolding storable_def by blast
  have h: "blake3_hex blake3 (variant_identity u i) = blake3_hex blake3 (variant_identity u' i') \<Longrightarrow> u = u' \<and> i = i'"
  proof -
    assume "blake3_hex blake3 (variant_identity u i) = blake3_hex blake3 (variant_identity u' i')"
    then have "blake3 (variant_identity u i) = blake3 (variant_identity u' i')"
      unfolding blake3_hex_def by (rule hex_encode_inj)
    then have "variant_identity u i = variant_identity u' i'" by (rule inj_onD[OF assms(4)]) simp_all
    then show "u = u' \<and> i = i'" by (rule variant_identity_inj) (use assms(1,2) in \<open>simp_all add: storable_def\<close>)
  qed
  have nvar: "name_component n \<noteq> ''.variants''" "name_component n' \<noteq> ''.variants''"
    using assms(1,2) by (simp_all add: storable_def)
  have differ: "name_component n \<noteq> name_component n' \<or> safe_path_component v \<noteq> safe_path_component v'
      \<or> blake3_hex blake3 (variant_identity u i) \<noteq> blake3_hex blake3 (variant_identity u' i')"
    using assms(3) nv h by blast
  show ?thesis
  proof (cases "u = None \<and> i = None"; cases "u' = None \<and> i' = None")
    assume "u = None \<and> i = None" "u' = None \<and> i' = None"
    then show ?thesis using differ
      by (simp add: package_dir_for_def package_dir_def package_name_dir_def disjoint_paths_Cons)
  next
    assume a: "\<not> (u = None \<and> i = None)" "\<not> (u' = None \<and> i' = None)"
    then have "package_dir_for blake3 n v u i = [''.variants'', name_component n, safe_path_component v, blake3_hex blake3 (variant_identity u i)]"
      "package_dir_for blake3 n' v' u' i' = [''.variants'', name_component n', safe_path_component v', blake3_hex blake3 (variant_identity u' i')]"
      unfolding package_dir_for_def by (simp_all only: if_False)
    then show ?thesis using differ by (simp add: disjoint_paths_Cons)
  qed (use nvar in \<open>auto simp: package_dir_for_def package_dir_def package_name_dir_def disjoint_paths_Cons\<close>)
qed

theorem package_dirs_disjoint_witness:
  "disjoint_paths (package_dir_for (\<lambda>x. x) ''@s/a'' ''1'' (Some ''u'') None) (package_dir_for (\<lambda>x. x) ''@s/a'' ''1'' (Some ''w'') None)"
proof (rule package_dirs_disjoint)
  have n: "name_component ''@s/a'' = ''@s+a''" by code_simp
  show "storable ''@s/a'' ''1'' (Some ''u'') None" "storable ''@s/a'' ''1'' (Some ''w'') None"
    by (simp_all add: storable_def n unwrap_or_default_def)
qed simp_all

end
