(* ===== verification/Git_Deps.thy ===== *)
theory Git_Deps
  imports Placement File_Tree Json
begin

text \<open>
  Git dependencies (\<open>crates/oath-resolve/src/git.rs\<close>): parsing the specs, the names of cached tarballs and
  the steps from a spec to a packed package. The network, the \<open>git\<close> program, tar and gzip, Node's packlist and the JSON
  decoder are parameters, the fields of \<open>git_env\<close>; a checkout or an unpacked tarball is a directory tree.
\<close>

section \<open>Specs\<close>

record git_spec =
  gs_url :: string
  gs_git_ref :: "string option"
  gs_github_repo :: "(string \<times> string) option"

definition is_git_spec :: "string \<Rightarrow> bool" where
  "is_git_spec spec \<longleftrightarrow> starts_with spec ''github:'' \<or> starts_with spec ''gitlab:'' \<or> starts_with spec ''bitbucket:''
     \<or> starts_with spec ''git+https://'' \<or> starts_with spec ''git+ssh://'' \<or> starts_with spec ''ssh://'' \<or> starts_with spec ''git://''"

definition split_ref :: "string \<Rightarrow> string \<times> string option" where
  "split_ref s = (case split_first (CHR ''#'') s of Some (a, b) \<Rightarrow> (a, Some b) | None \<Rightarrow> (s, None))"

text \<open>\<open>trim_end_matches\<close> removes the suffix as often as it occurs.\<close>

function trim_end_matches :: "string \<Rightarrow> string \<Rightarrow> string" where
  "trim_end_matches s p =
     (case strip_suffix s p of Some t \<Rightarrow> if length t < length s then trim_end_matches t p else s | None \<Rightarrow> s)"
  by pat_completeness auto
termination by (relation "measure (\<lambda>(s, _). length s)") auto

declare trim_end_matches.simps [simp del]

definition parse_github_url :: "string \<Rightarrow> (string \<times> string) option" where
  "parse_github_url url =
     (let url = trim_end_matches url ''.git''
      in case strip_prefix url ''https://github.com/'' of
           None \<Rightarrow> None
         | Some rest \<Rightarrow> (case splitn2 (CHR ''/'') rest of [a, b] \<Rightarrow> Some (a, b) | _ \<Rightarrow> None))"

text \<open>The three shorthands differ in the host and in whether the repository is kept for the API.\<close>

definition parse_shorthand :: "string \<Rightarrow> bool \<Rightarrow> string \<Rightarrow> git_spec option" where
  "parse_shorthand host api rest =
     (let (repo_path, git_ref) = split_ref rest
      in case splitn2 (CHR ''/'') repo_path of
           [user, r] \<Rightarrow>
             (let repo = trim_end_matches r ''.git''
              in Some \<lparr>gs_url = ''https://'' @ host @ ''/'' @ user @ ''/'' @ repo @ ''.git'', gs_git_ref = git_ref,
                      gs_github_repo = (if api then Some (user, repo) else None)\<rparr>)
         | _ \<Rightarrow> None)"

definition parse_git_spec :: "string \<Rightarrow> git_spec option" where
  "parse_git_spec spec =
     (case strip_prefix spec ''github:'' of Some rest \<Rightarrow> parse_shorthand ''github.com'' True rest
      | None \<Rightarrow>
     (case strip_prefix spec ''gitlab:'' of Some rest \<Rightarrow> parse_shorthand ''gitlab.com'' False rest
      | None \<Rightarrow>
     (case strip_prefix spec ''bitbucket:'' of Some rest \<Rightarrow> parse_shorthand ''bitbucket.org'' False rest
      | None \<Rightarrow>
     if starts_with spec ''git+https://'' then
       (let (url_no_ref, git_ref) = split_ref (drop 4 spec)
        in Some \<lparr>gs_url = url_no_ref, gs_git_ref = git_ref, gs_github_repo = parse_github_url url_no_ref\<rparr>)
     else
     (case (case strip_prefix spec ''git+ssh://'' of Some r \<Rightarrow> Some r | None \<Rightarrow> strip_prefix spec ''ssh://'') of
        Some url_part \<Rightarrow>
          (let (url_no_ref, git_ref) = split_ref url_part;
               https_url = (case (case strip_prefix url_no_ref ''git@github.com:'' of Some r \<Rightarrow> Some r
                                  | None \<Rightarrow> strip_prefix url_no_ref ''git@github.com/'') of
                              Some repo \<Rightarrow> ''https://github.com/'' @ repo
                            | None \<Rightarrow> ''https://'' @ url_no_ref)
           in Some \<lparr>gs_url = https_url, gs_git_ref = git_ref, gs_github_repo = parse_github_url https_url\<rparr>)
      | None \<Rightarrow>
     (case strip_prefix spec ''git://'' of
        Some url_part \<Rightarrow>
          (let (url_no_ref, git_ref) = split_ref url_part;
               https_url = ''https://'' @ url_no_ref
           in Some \<lparr>gs_url = https_url, gs_git_ref = git_ref, gs_github_repo = parse_github_url https_url\<rparr>)
      | None \<Rightarrow> None)))))"

section \<open>Cache names\<close>

definition safe_cache_component :: "string \<Rightarrow> string" where
  "safe_cache_component input =
     (if input = [] then ''_''
      else let out = concat (map (\<lambda>b. if is_kept b then [b] else ''%'' @ upper_hex b) input)
           in if out = ''.'' then ''%2E'' else if out = ''..'' then ''%2E%2E'' else out)"

definition git_cache_file_name :: "(string \<Rightarrow> string) \<Rightarrow> string \<Rightarrow> string \<Rightarrow> string \<Rightarrow> string" where
  "git_cache_file_name sha256 name version resolved_url =
     safe_cache_component (replace_char (CHR ''/'') ''+'' name) @ ''-'' @ safe_cache_component version @ ''-''
       @ hex_encode (sha256 resolved_url) @ ''.tgz''"

section \<open>From a spec to a package\<close>

record git_resolved =
  gr_name :: string
  gr_version :: string
  gr_resolved_url :: string
  gr_tarball_data :: string
  gr_dependencies :: "(string, string) hmap"
  gr_optional_dependencies :: "(string, string) hmap"
  gr_has_install_script :: bool

record git_env =
  env_http :: "string \<Rightarrow> (bool \<times> string) option"
  env_clone :: "string list \<Rightarrow> ftree option"
  env_extract :: "string \<Rightarrow> ftree option"
  env_runtime :: "(placement_error, unit) result"
  env_packlist :: "ftree \<Rightarrow> string option"
  env_packlist_decode :: "string \<Rightarrow> string list option"
  env_tar :: "(string \<times> ftree) list \<Rightarrow> string"
  env_json :: "string \<Rightarrow> json option"

datatype git_error =
    Semver_selector string | Github_request_failed | Github_status | Clone_failed | Extract_failed
  | No_package_json | Packlist_failed placement_error | Git_json_invalid | Git_no_name

definition extract_deps_from_json :: "json \<Rightarrow> string \<Rightarrow> (string, string) hmap" where
  "extract_deps_from_json pkg key =
     (case Option.bind (json_get pkg key) as_object of Some obj \<Rightarrow> hm_collect (string_members obj) | None \<Rightarrow> [])"

definition parse_git_tarball_from_json ::
  "git_env \<Rightarrow> string \<Rightarrow> string \<Rightarrow> string \<Rightarrow> string \<Rightarrow> (git_error, git_resolved) result" where
  "parse_git_tarball_from_json env tarball_data pkg_json_data resolved_url git_ref =
     bind_result (ok_or (env_json env pkg_json_data) Git_json_invalid) (\<lambda>pkg_json.
     bind_result (ok_or (Option.bind (json_get pkg_json ''name'') as_str) Git_no_name) (\<lambda>name.
     Inr \<lparr>gr_name = name,
          gr_version = (case Option.bind (json_get pkg_json ''version'') as_str of Some v \<Rightarrow> v | None \<Rightarrow> ''0.0.0''),
          gr_resolved_url = resolved_url,
          gr_tarball_data = tarball_data,
          gr_dependencies = extract_deps_from_json pkg_json ''dependencies'',
          gr_optional_dependencies = extract_deps_from_json pkg_json ''optionalDependencies'',
          gr_has_install_script =
            (case Option.bind (json_get pkg_json ''scripts'') as_object of
               Some scripts \<Rightarrow> map_of scripts ''install'' \<noteq> None \<or> map_of scripts ''preinstall'' \<noteq> None
                              \<or> map_of scripts ''postinstall'' \<noteq> None
             | None \<Rightarrow> False)\<rparr>))"

definition pruned_names :: "string list" where
  "pruned_names = [''.git'', ''.gitignore'', ''.npmignore'', ''package-lock.json'', ''npm-shrinkwrap.json'',
     ''pnpm-lock.yaml'', ''yarn.lock'']"

definition prune_git_package_metadata :: "ftree \<Rightarrow> ftree" where
  "prune_git_package_metadata root = fold (\<lambda>name t. tree_remove [name] t) pruned_names root"

definition component_names :: "string \<Rightarrow> string list" where
  "component_names p = List.map_filter (\<lambda>c. case c of Normal n \<Rightarrow> Some n | _ \<Rightarrow> None) (path_components p)"

definition repack_git_package :: "git_env \<Rightarrow> ftree \<Rightarrow> string list \<Rightarrow> string" where
  "repack_git_package env root files =
     env_tar env (List.map_filter (\<lambda>relative.
        map_option (Pair (''package/'' @ relative)) (tree_lookup (component_names relative) root)) files)"

definition git_packlist :: "git_env \<Rightarrow> ftree \<Rightarrow> (git_error, string list) result" where
  "git_packlist env root =
     (case npm_packlist (env_runtime env) (env_packlist env root) (env_packlist_decode env) of
        Inl e \<Rightarrow> Inl (Packlist_failed e) | Inr files \<Rightarrow> Inr files)"

definition read_package_json :: "ftree \<Rightarrow> string option" where
  "read_package_json root = (case tree_lookup [''package.json''] root of Some (File data) \<Rightarrow> Some data | _ \<Rightarrow> None)"

definition pack_local_package :: "git_env \<Rightarrow> ftree \<Rightarrow> (git_error, string) result" where
  "pack_local_package env root =
     bind_result (ensure (read_package_json root \<noteq> None) No_package_json) (\<lambda>_.
     bind_result (git_packlist env root) (\<lambda>files. Inr (repack_git_package env root files)))"

definition parse_git_tarball :: "git_env \<Rightarrow> string \<Rightarrow> string \<Rightarrow> string \<Rightarrow> (git_error, git_resolved) result" where
  "parse_git_tarball env data resolved_url git_ref =
     bind_result (ok_or (env_extract env data) Extract_failed) (\<lambda>tmp.
     bind_result (ok_or (read_package_json tmp) No_package_json) (\<lambda>pkg_json_data.
     bind_result (git_packlist env tmp) (\<lambda>packlist.
     let tmp = prune_git_package_metadata tmp;
         normalized = repack_git_package env tmp packlist
     in parse_git_tarball_from_json env normalized pkg_json_data resolved_url git_ref)))"

definition resolve_via_git_clone :: "git_env \<Rightarrow> string \<Rightarrow> string \<Rightarrow> (git_error, git_resolved) result" where
  "resolve_via_git_clone env url git_ref =
     (let args = (if git_ref = ''HEAD'' then [''clone'', ''--depth'', ''1'', url]
                  else [''clone'', ''--depth'', ''1'', ''--branch'', git_ref, url])
      in bind_result (ok_or (env_clone env args) Clone_failed) (\<lambda>clone_dir.
         bind_result (ok_or (read_package_json clone_dir) No_package_json) (\<lambda>pkg_json_data.
         bind_result (git_packlist env clone_dir) (\<lambda>packlist.
         let clone_dir = prune_git_package_metadata clone_dir;
             tar_data = repack_git_package env clone_dir packlist
         in parse_git_tarball_from_json env tar_data pkg_json_data url git_ref))))"

definition resolve_github_tarball :: "git_env \<Rightarrow> string \<Rightarrow> string \<Rightarrow> string \<Rightarrow> (git_error, git_resolved) result" where
  "resolve_github_tarball env user repo git_ref =
     (let api_url = (if git_ref = ''HEAD'' then ''https://api.github.com/repos/'' @ user @ ''/'' @ repo @ ''/tarball''
                     else ''https://api.github.com/repos/'' @ user @ ''/'' @ repo @ ''/tarball/'' @ git_ref)
      in bind_result (ok_or (env_http env api_url) Github_request_failed) (\<lambda>(success, data).
         bind_result (ensure success Github_status) (\<lambda>_.
         parse_git_tarball env data (''git+https://github.com/'' @ user @ ''/'' @ repo @ ''.git'') git_ref)))"

definition resolve_git_spec :: "git_env \<Rightarrow> git_spec \<Rightarrow> (git_error, git_resolved) result" where
  "resolve_git_spec env spec =
     (case Option.bind (gs_git_ref spec) (\<lambda>value. strip_prefix value ''semver:'') of
        Some rng \<Rightarrow> Inl (Semver_selector rng)
      | None \<Rightarrow>
          let git_ref = (case gs_git_ref spec of Some r \<Rightarrow> r | None \<Rightarrow> ''HEAD'')
          in case gs_github_repo spec of
               Some (user, repo) \<Rightarrow> resolve_github_tarball env user repo git_ref
             | None \<Rightarrow> resolve_via_git_clone env (gs_url spec) git_ref)"

section \<open>Properties of specs\<close>

lemma split_ref_no_hash: "CHR ''#'' \<notin> set (fst (split_ref s))"
  by (auto simp: split_ref_def split_first_Some split_first_None split: option.splits prod.splits)

lemma trim_end_prefix: "prefix (trim_end_matches s p) s"
proof (induction s p rule: trim_end_matches.induct)
  case (1 s p)
  show ?case
  proof (cases "strip_suffix s p")
    case (Some t)
    then have "prefix t s" by (auto simp: strip_suffix_def take_is_prefix split: if_splits)
    then show ?thesis using 1[OF Some] Some by (subst trim_end_matches.simps) (auto intro: prefix_order.trans)
  qed (subst trim_end_matches.simps, simp)
qed

lemma splitn2_split: "splitn2 c s = [a, b] \<longleftrightarrow> split_first c s = Some (a, b)"
  by (auto simp: splitn2_def split: option.splits)

lemma splitn2_cases: "(\<exists>a b. splitn2 c s = [a, b]) \<longleftrightarrow> c \<in> set s"
  using split_first_None[of c s] unfolding splitn2_split by auto

lemma parse_shorthand_Some:
  "parse_shorthand host api rest = Some g \<longleftrightarrow>
     (\<exists>user r. fst (split_ref rest) = user @ ''/'' @ r \<and> CHR ''/'' \<notin> set user
        \<and> g = \<lparr>gs_url = ''https://'' @ host @ ''/'' @ user @ ''/'' @ trim_end_matches r ''.git'' @ ''.git'',
               gs_git_ref = snd (split_ref rest),
               gs_github_repo = (if api then Some (user, trim_end_matches r ''.git'') else None)\<rparr>)"
proof -
  obtain p gref where s: "split_ref rest = (p, gref)" by (cases "split_ref rest")
  show ?thesis
  proof (cases "split_first (CHR ''/'') p")
    case None
    then have "CHR ''/'' \<notin> set p" by (simp add: split_first_None)
    then show ?thesis using None by (auto simp: parse_shorthand_def s splitn2_def)
  next
    case (Some ab)
    obtain a b where ab: "ab = (a, b)" by (cases ab)
    have p: "p = a @ ''/'' @ b" "CHR ''/'' \<notin> set a" using Some ab by (simp_all add: split_first_Some)
    have uniq: "user = a \<and> r = b" if "p = user @ ''/'' @ r" "CHR ''/'' \<notin> set user" for user r
    proof -
      have "split_first (CHR ''/'') p = Some (user, r)" unfolding split_first_Some using that by simp
      then show ?thesis using Some ab by simp
    qed
    define X where "X = \<lparr>gs_url = ''https://'' @ host @ ''/'' @ a @ ''/'' @ trim_end_matches b ''.git'' @ ''.git'',
      gs_git_ref = gref, gs_github_repo = (if api then Some (a, trim_end_matches b ''.git'') else None)\<rparr>"
    have X: "parse_shorthand host api rest = Some X"
      by (simp add: parse_shorthand_def s splitn2_def Some ab Let_def X_def)
    show ?thesis unfolding X s fst_conv snd_conv using p uniq X_def by blast
  qed
qed

text \<open>The URL forms, each with what it becomes.\<close>

definition ssh_to_https :: "string \<Rightarrow> string" where
  "ssh_to_https u =
     (case (case strip_prefix u ''git@github.com:'' of Some r \<Rightarrow> Some r | None \<Rightarrow> strip_prefix u ''git@github.com/'') of
        Some repo \<Rightarrow> ''https://github.com/'' @ repo | None \<Rightarrow> ''https://'' @ u)"

lemma ssh_to_https_shape:
  "starts_with (ssh_to_https u) ''https://'' \<and> (CHR ''#'' \<notin> set u \<longrightarrow> CHR ''#'' \<notin> set (ssh_to_https u))"
  by (auto simp: ssh_to_https_def strip_prefix_Some_iff split: option.splits)

lemma parse_git_spec_url_forms:
  assumes "\<not> starts_with s ''github:''" "\<not> starts_with s ''gitlab:''" "\<not> starts_with s ''bitbucket:''"
  shows "parse_git_spec s =
    (case List.map_filter id
        [map_option (\<lambda>r. (''https://'' @ fst (split_ref r), snd (split_ref r))) (strip_prefix s ''git+https://''),
         map_option (\<lambda>r. (ssh_to_https (fst (split_ref r)), snd (split_ref r))) (strip_prefix s ''git+ssh://''),
         map_option (\<lambda>r. (ssh_to_https (fst (split_ref r)), snd (split_ref r))) (strip_prefix s ''ssh://''),
         map_option (\<lambda>r. (''https://'' @ fst (split_ref r), snd (split_ref r))) (strip_prefix s ''git://'')] of
       (url, gref) # _ \<Rightarrow> Some \<lparr>gs_url = url, gs_git_ref = gref, gs_github_repo = parse_github_url url\<rparr>
     | [] \<Rightarrow> None)"
proof -
  have no: "strip_prefix s ''github:'' = None" "strip_prefix s ''gitlab:'' = None" "strip_prefix s ''bitbucket:'' = None"
    using assms by (simp_all add: strip_prefix_def)
  show ?thesis
  proof (cases "strip_prefix s ''git+https://''")
    case (Some r)
    then have s: "s = ''git+https://'' @ r" by (simp add: strip_prefix_Some_iff)
    have sp: "split_ref (''https://'' @ r) = (''https://'' @ fst (split_ref r), snd (split_ref r))"
      by (auto simp: split_ref_def split: option.splits prod.splits)
    show ?thesis using Some no sp unfolding parse_git_spec_def
      by (simp add: s map_filter_simps Let_def)
  next
    case None
    then have n: "\<not> starts_with s ''git+https://''" by (simp add: strip_prefix_None_iff)
    show ?thesis unfolding parse_git_spec_def no using n None
      by (auto simp: map_filter_simps Let_def ssh_to_https_def split: option.splits prod.splits)
  qed
qed

lemma parse_git_spec_shorthand:
  "parse_git_spec (''github:'' @ r) = parse_shorthand ''github.com'' True r"
  "parse_git_spec (''gitlab:'' @ r) = parse_shorthand ''gitlab.com'' False r"
  "parse_git_spec (''bitbucket:'' @ r) = parse_shorthand ''bitbucket.org'' False r"
proof -
  have "strip_prefix (''gitlab:'' @ r) ''github:'' = None" "strip_prefix (''bitbucket:'' @ r) ''github:'' = None"
    "strip_prefix (''bitbucket:'' @ r) ''gitlab:'' = None"
    by (simp_all add: strip_prefix_def)
  then show "parse_git_spec (''github:'' @ r) = parse_shorthand ''github.com'' True r"
    "parse_git_spec (''gitlab:'' @ r) = parse_shorthand ''gitlab.com'' False r"
    "parse_git_spec (''bitbucket:'' @ r) = parse_shorthand ''bitbucket.org'' False r"
    unfolding parse_git_spec_def by (simp_all only: strip_prefix_append option.case)
qed

lemma spec_form_cases:
  obtains (github) r where "s = ''github:'' @ r" | (gitlab) r where "s = ''gitlab:'' @ r"
  | (bitbucket) r where "s = ''bitbucket:'' @ r"
  | (url) "\<not> starts_with s ''github:''" "\<not> starts_with s ''gitlab:''" "\<not> starts_with s ''bitbucket:''"
  unfolding starts_with_iff by blast

lemma parse_shorthand_https:
  assumes "parse_shorthand host api r = Some g" "CHR ''#'' \<notin> set host"
  shows "starts_with (gs_url g) ''https://'' \<and> CHR ''#'' \<notin> set (gs_url g)"
proof -
  obtain user q where u: "fst (split_ref r) = user @ ''/'' @ q"
    "gs_url g = ''https://'' @ host @ ''/'' @ user @ ''/'' @ trim_end_matches q ''.git'' @ ''.git''"
    using assms(1) unfolding parse_shorthand_Some by auto
  have "CHR ''#'' \<notin> set user" "CHR ''#'' \<notin> set q" using split_ref_no_hash[of r] u(1) by auto
  then have "CHR ''#'' \<notin> set (trim_end_matches q ''.git'')" using set_mono_prefix[OF trim_end_prefix] by blast
  then show ?thesis using u(2) assms(2) \<open>CHR ''#'' \<notin> set user\<close> by simp
qed

text \<open>
  Whatever protocol a git spec names, the package is fetched over HTTPS: a spec that parses is one
  the resolver recognises as a git spec, and its URL starts with \<open>https://\<close> and carries no fragment. The other way round, a
  recognised spec fails to parse only when it is a shorthand without a slash before its ref.
\<close>

theorem parse_git_spec_https:
  "(parse_git_spec s = Some g \<longrightarrow> is_git_spec s \<and> starts_with (gs_url g) ''https://'' \<and> CHR ''#'' \<notin> set (gs_url g))
   \<and> (is_git_spec s \<and> parse_git_spec s = None \<longrightarrow>
        (\<exists>p r. p \<in> {''github:'', ''gitlab:'', ''bitbucket:''} \<and> s = p @ r \<and> CHR ''/'' \<notin> set (fst (split_ref r))))"
proof (cases s rule: spec_form_cases)
  case url
  have sp: "(\<exists>r. strip_prefix s p = Some r) \<longleftrightarrow> starts_with s p" for p
    by (simp add: strip_prefix_def)
  show ?thesis
    using url split_ref_no_hash ssh_to_https_shape sp[of "''git+https://''"] sp[of "''git+ssh://''"] sp[of "''ssh://''"] sp[of "''git://''"]
    unfolding parse_git_spec_url_forms[OF url] is_git_spec_def
    by (cases "strip_prefix s ''git+https://''"; cases "strip_prefix s ''git+ssh://''"; cases "strip_prefix s ''ssh://''";
        cases "strip_prefix s ''git://''") (auto simp: map_filter_simps)
next
  case (github r)
  have "parse_shorthand ''github.com'' True r = None \<Longrightarrow> CHR ''/'' \<notin> set (fst (split_ref r))"
    using splitn2_cases by (force simp: parse_shorthand_def Let_def split: prod.splits)
  then show ?thesis using parse_shorthand_https[of "''github.com''" True r g]
    unfolding github parse_git_spec_shorthand is_git_spec_def by auto
next
  case (gitlab r)
  have "parse_shorthand ''gitlab.com'' False r = None \<Longrightarrow> CHR ''/'' \<notin> set (fst (split_ref r))"
    using splitn2_cases by (force simp: parse_shorthand_def Let_def split: prod.splits)
  then show ?thesis using parse_shorthand_https[of "''gitlab.com''" False r g]
    unfolding gitlab parse_git_spec_shorthand is_git_spec_def by auto
next
  case (bitbucket r)
  have "parse_shorthand ''bitbucket.org'' False r = None \<Longrightarrow> CHR ''/'' \<notin> set (fst (split_ref r))"
    using splitn2_cases by (force simp: parse_shorthand_def Let_def split: prod.splits)
  then show ?thesis using parse_shorthand_https[of "''bitbucket.org''" False r g]
    unfolding bitbucket parse_git_spec_shorthand is_git_spec_def by auto
qed

theorem parse_git_spec_https_witness:
  "\<exists>g. parse_git_spec ''git+ssh://git@github.com/u/r.git#v1'' = Some g \<and> starts_with (gs_url g) ''https://''"
proof -
  have "parse_git_spec ''git+ssh://git@github.com/u/r.git#v1'' \<noteq> None" by code_simp
  then obtain g where "parse_git_spec ''git+ssh://git@github.com/u/r.git#v1'' = Some g" by auto
  then show ?thesis using parse_git_spec_https[of "''git+ssh://git@github.com/u/r.git#v1''" g] by blast
qed

section \<open>Properties of cache names\<close>

lemma safe_cache_component_escape: "safe_cache_component = escape_component"
  unfolding safe_cache_component_def escape_component_def escape_byte_def by (rule ext) (simp add: comp_def)

interpretation git_cache: safe_component safe_cache_component
  unfolding safe_cache_component_escape by (rule escape_is_safe_component)

lemma hex_encode_no_slash: "CHR ''/'' \<notin> set (hex_encode s)"
proof -
  have h: "hex_digit n \<noteq> CHR ''/''" if "n < 16" for n
  proof
    assume "hex_digit n = CHR ''/''"
    then have "of_char (hex_digit n) = (47 :: nat)" by simp
    then show False using that by (simp add: hex_digit_def split: if_splits)
  qed
  have "CHR ''/'' \<notin> set (hex_byte c)" for c
    using h[of "byte c div 16"] h[of "byte c mod 16"] by (auto simp: hex_byte_def less_mult_imp_div_less)
  then show ?thesis by (induction s) auto
qed

text \<open>
  The name of a cached git tarball is one path component, whatever the package is called and
  wherever it comes from, so the cache never writes outside its directory; and packages from two
  sources never share a cache file, whatever their names and versions, unless SHA-256 collides on the two source URLs.
\<close>

theorem git_cache_file_name_safe:
  assumes "\<And>d. length (sha256 d) = 32"
  shows "walk d (path_components (git_cache_file_name sha256 name version url)) = d @ [git_cache_file_name sha256 name version url]
    \<and> (git_cache_file_name sha256 name version url = git_cache_file_name sha256 name' version' url' \<longrightarrow> sha256 url = sha256 url')"
proof
  let ?f = "git_cache_file_name sha256 name version url"
  have ns: "CHR ''/'' \<notin> set ?f"
    using git_cache.enc_no_slash hex_encode_no_slash by (simp add: git_cache_file_name_def)
  have long: "length ?f > 2" by (simp add: git_cache_file_name_def assms)
  then have "?f \<noteq> []" "?f \<noteq> ''.''" "?f \<noteq> ''..''" by auto
  moreover have "\<not> is_absolute ?f"
    using ns long by (cases ?f) (auto simp: is_absolute_def)
  ultimately show "walk d (path_components ?f) = d @ [?f]"
    by (simp add: path_components_def split_char_notin[OF ns] body_components_def plain_component_def)
  show "?f = git_cache_file_name sha256 name' version' url' \<longrightarrow> sha256 url = sha256 url'"
  proof
    assume "?f = git_cache_file_name sha256 name' version' url'"
    then have "rev ?f = rev (git_cache_file_name sha256 name' version' url')" by simp
    then have "take 68 (rev ?f) = take 68 (rev (git_cache_file_name sha256 name' version' url'))" by simp
    then have "hex_encode (sha256 url) = hex_encode (sha256 url')"
      by (simp add: git_cache_file_name_def assms)
    then show "sha256 url = sha256 url'" by (rule hex_encode_inj)
  qed
qed

theorem git_cache_file_name_safe_witness:
  "walk [''cache''] (path_components (git_cache_file_name (\<lambda>d. replicate 32 (CHR ''M'')) ''../x'' ''1'' ''u''))
     = [''cache''] @ [git_cache_file_name (\<lambda>d. replicate 32 (CHR ''M'')) ''../x'' ''1'' ''u'']"
  using git_cache_file_name_safe[of "\<lambda>d. replicate 32 (CHR ''M'')" "[''cache'']" "''../x''" "''1''" "''u''", OF length_replicate] by blast

section \<open>Properties of resolution\<close>

text \<open>
  The ref of a spec selects what is downloaded but is not part of what is returned: the source of the
  package is the repository alone, so two refs of one repository give the same source and, at the same version, the same cache file.
\<close>

lemma resolved_url_ignores_ref:
  "parse_git_tarball env data url ref1 = parse_git_tarball env data url ref2"
  by (simp add: parse_git_tarball_def parse_git_tarball_from_json_def)

lemma component_names_tar:
  "tree_lookup (component_names f) root = Some t \<Longrightarrow> f \<in> set files \<Longrightarrow>
   (''package/'' @ f, t) \<in> set (List.map_filter (\<lambda>relative.
        map_option (Pair (''package/'' @ relative)) (tree_lookup (component_names relative) root)) files)"
  by (force simp: map_filter_def)

lemma prune_lookup:
  "p \<noteq> [] \<Longrightarrow> tree_lookup p (fold (\<lambda>name t. tree_remove [name] t) ns root) = (if hd p \<in> set ns then None else tree_lookup p root)"
proof (induction ns arbitrary: root)
  case (Cons n ns)
  have "tree_lookup p (tree_remove [n] root) = (if hd p = n then None else tree_lookup p root)"
  proof (cases "hd p = n")
    case True
    then have "prefix [n] p" using Cons.prems by (cases p) auto
    then show ?thesis using True tree.look_del[of "[n]" p root] by simp
  next
    case False
    then have "disjoint_paths [n] p" using Cons.prems by (cases p) (auto simp: disjoint_paths_Cons)
    then show ?thesis using False tree.look_del_other by simp
  qed
  then show ?case using Cons by simp
qed simp

text \<open>
  A package packed from a GitHub tarball contains only files npm lists for it, each a path below
  the checkout, none of them lockfile, ignore file or git metadata at its root, and its version is \<open>0.0.0\<close> when it names none.
\<close>

theorem git_package_content:
  assumes "parse_git_tarball env data url gref = Inr g"
  shows "\<exists>tmp files entries. env_extract env data = Some tmp \<and> gr_tarball_data g = env_tar env entries
    \<and> gr_resolved_url g = url
    \<and> git_packlist env tmp = Inr files
    \<and> (\<forall>(a, t)\<in>set entries. \<exists>f\<in>set files. a = ''package/'' @ f \<and> prefix d (walk d (path_components f))
         \<and> tree_lookup (component_names f) (prune_git_package_metadata tmp) = Some t
         \<and> (component_names f \<noteq> [] \<longrightarrow> hd (component_names f) \<notin> set pruned_names))"
proof -
  obtain tmp pj files where t: "env_extract env data = Some tmp" "git_packlist env tmp = Inr files"
    and g: "parse_git_tarball_from_json env (repack_git_package env (prune_git_package_metadata tmp) files) pj url gref = Inr g"
    using assms by (auto simp: parse_git_tarball_def bind_result_Inr_iff Let_def)
  define entries where "entries = List.map_filter (\<lambda>relative.
        map_option (Pair (''package/'' @ relative)) (tree_lookup (component_names relative) (prune_git_package_metadata tmp))) files"
  have fields: "gr_tarball_data g = env_tar env entries" "gr_resolved_url g = url"
    using g by (auto simp: parse_git_tarball_from_json_def bind_result_Inr_iff repack_git_package_def entries_def)
  have chk: "check_packlist_file f = Inr ()" if "f \<in> set files" for f
    using t(2) that by (auto simp: git_packlist_def npm_packlist_def bind_result_Inr_iff fold_result_unit_iff split: sum.splits)
  have "\<exists>f\<in>set files. a = ''package/'' @ f \<and> prefix d (walk d (path_components f))
         \<and> tree_lookup (component_names f) (prune_git_package_metadata tmp) = Some t
         \<and> (component_names f \<noteq> [] \<longrightarrow> hd (component_names f) \<notin> set pruned_names)" if mem: "(a, t) \<in> set entries" for a t
  proof -
    obtain f where f: "f \<in> set files" "a = ''package/'' @ f" "tree_lookup (component_names f) (prune_git_package_metadata tmp) = Some t"
      using mem by (auto simp: entries_def map_filter_def)
    have "prefix d (walk d (path_components f))"
      using chk[OF f(1)] by (auto simp: check_packlist_file_def bind_result_Inr_iff list_all_iff intro: walk_normals)
    moreover have "component_names f \<noteq> [] \<longrightarrow> hd (component_names f) \<notin> set pruned_names"
      using f(3) prune_lookup[of "component_names f" pruned_names tmp] by (auto simp: prune_git_package_metadata_def)
    ultimately show ?thesis using f by blast
  qed
  then show ?thesis using t fields by blast
qed

definition sample_git_env :: git_env where
  "sample_git_env = \<lparr>env_http = (\<lambda>_. None), env_clone = (\<lambda>_. None),
     env_extract = (\<lambda>_. Some (Dir [(''package.json'', File ''{}'')])), env_runtime = Inr (),
     env_packlist = (\<lambda>_. Some ''l''), env_packlist_decode = (\<lambda>_. Some [''package.json'']), env_tar = (\<lambda>_. ''t''),
     env_json = (\<lambda>_. Some (JObj [(''name'', JStr ''a'')]))\<rparr>"

theorem git_package_content_witness:
  "\<exists>g. parse_git_tarball sample_git_env ''d'' ''u'' ''HEAD'' = Inr g \<and> gr_resolved_url g = ''u''"
proof -
  have "check_packlist_file ''package.json'' = Inr ()" by code_simp
  then have "\<exists>g. parse_git_tarball sample_git_env ''d'' ''u'' ''HEAD'' = Inr g"
    by (simp add: parse_git_tarball_def sample_git_env_def read_package_json_def git_packlist_def npm_packlist_def
        parse_git_tarball_from_json_def json_get_def Let_def)
  then show ?thesis using git_package_content[of sample_git_env "''d''" "''u''" "''HEAD''"] by blast
qed

end
