(* ===== verification/Version_Resolve.thy ===== *)
theory Version_Resolve
  imports Prelude
begin

text \<open>
  Choosing a version from the registry's metadata (\<open>crates/oath-fetch/src/packument.rs\<close>,
  \<open>resolve.rs\<close>). Semantic versions come from the crate \<open>node_semver\<close>: its parsers and its
  \<open>satisfies\<close> are parameters, the fields of \<open>semver\<close>, and its order on versions is that of the type variable. The
  locale \<open>version_choice\<close> says what a choice of version owes its caller and is interpreted on the code's.
\<close>

section \<open>Data\<close>

record ('v, 'r) semver =
  parse_version :: "string \<Rightarrow> 'v option"
  parse_range :: "string \<Rightarrow> 'r option"
  satisfies :: "'r \<Rightarrow> 'v \<Rightarrow> bool"

record dist_info =
  di_tarball :: string
  di_shasum :: "string option"
  di_integrity :: "string option"

record version_info =
  vi_name :: string
  vi_version :: string
  vi_dependencies :: "(string, string) hmap"
  vi_dev_dependencies :: "(string, string) hmap"
  vi_optional_dependencies :: "(string, string) hmap"
  vi_peer_dependencies :: "(string, string) hmap"
  vi_peer_dependencies_meta :: "(string, bool) hmap"
  vi_os :: "string list"
  vi_cpu :: "string list"
  vi_dist :: dist_info
  vi_has_install_script :: bool

record packument =
  pk_name :: string
  pk_dist_tags :: "(string, string) hmap"
  pk_versions :: "(string, version_info) hmap"

datatype version_error = Invalid_range string | No_version_satisfies string

section \<open>Resolution\<close>

definition strip_npm_alias :: "string \<Rightarrow> string" where
  "strip_npm_alias specifier =
     (case strip_prefix specifier ''npm:'' of
        None \<Rightarrow> specifier
      | Some rest \<Rightarrow>
          (case strip_prefix rest ''@'' of
             Some stripped \<Rightarrow>
               (case split_first (CHR ''@'') stripped of Some (_, version) \<Rightarrow> version | None \<Rightarrow> ''latest'')
           | None \<Rightarrow>
               (case split_last (CHR ''@'') rest of
                  Some (name, version) \<Rightarrow> if name \<noteq> [] then version else ''latest''
                | None \<Rightarrow> ''latest'')))"

definition range_candidates ::
  "('v, 'r) semver \<Rightarrow> 'r list \<Rightarrow> (string, version_info) hmap \<Rightarrow> (string \<times> version_info \<times> 'v) list" where
  "range_candidates sv ranges versions =
     List.map_filter (\<lambda>(ver_str, info).
         case parse_version sv ver_str of
           None \<Rightarrow> None
         | Some ver \<Rightarrow> if list_all (\<lambda>r. satisfies sv r ver) ranges then Some (ver_str, info, ver) else None) versions"

definition highest :: "(string \<times> version_info \<times> 'v::linorder) list \<Rightarrow> (string \<times> version_info) option" where
  "highest candidates =
     (let sorted_candidates = sort_key (\<lambda>(_, _, ver). ver) candidates
      in if sorted_candidates = [] then None
         else case last sorted_candidates of (ver_str, info, _) \<Rightarrow> Some (ver_str, info))"

definition resolve_version ::
  "('v::linorder, 'r) semver \<Rightarrow> packument \<Rightarrow> string \<Rightarrow> (version_error, string \<times> version_info) result" where
  "resolve_version sv p specifier0 =
     (let specifier = strip_npm_alias specifier0
      in case Option.bind (map_of (pk_dist_tags p) specifier)
                (\<lambda>version. map_option (Pair version) (map_of (pk_versions p) version)) of
           Some found \<Rightarrow> Inr found
         | None \<Rightarrow>
             (case map_of (pk_versions p) specifier of
                Some info \<Rightarrow> Inr (specifier, info)
              | None \<Rightarrow>
                  bind_result (ok_or (parse_range sv specifier) (Invalid_range specifier)) (\<lambda>range.
                    ok_or (highest (range_candidates sv [range] (pk_versions p))) (No_version_satisfies specifier))))"

definition resolve_intersection ::
  "('v::linorder, 'r) semver \<Rightarrow> packument \<Rightarrow> string list \<Rightarrow> (version_error, string \<times> version_info) result" where
  "resolve_intersection sv p specifiers =
     bind_result (map_result (\<lambda>s. ok_or (parse_range sv s) (Invalid_range s)) specifiers) (\<lambda>ranges.
       ok_or (highest (range_candidates sv ranges (pk_versions p))) (No_version_satisfies (intercalate '', '' specifiers)))"

section \<open>The highest candidate\<close>

lemma last_sort_key_max:
  fixes f :: "'a \<Rightarrow> 'k::linorder"
  assumes "xs \<noteq> []" "x \<in> set xs" shows "f x \<le> f (last (sort_key f xs))"
proof -
  have "sort_key f xs \<noteq> []" using assms(1) by (metis set_empty set_sort)
  then obtain ys y where s: "sort_key f xs = ys @ [y]" by (metis rev_exhaust)
  have "sorted (map f (ys @ [y]))" using sorted_sort_key[of f xs] s by simp
  then have "\<forall>z\<in>set (ys @ [y]). f z \<le> f y" by (auto simp: sorted_append)
  then show ?thesis using assms(2) s by (metis last_snoc set_sort)
qed

lemma highest_None: "highest cs = None \<longleftrightarrow> cs = []"
proof -
  have "sort_key (\<lambda>(_, _, ver). ver) cs = [] \<longleftrightarrow> cs = []" by (metis set_empty set_sort)
  then show ?thesis by (simp add: highest_def Let_def split: prod.splits)
qed

lemma highest_Some:
  assumes "highest cs = Some (v, info)"
  shows "\<exists>ver. (v, info, ver) \<in> set cs \<and> (\<forall>v' i' ver'. (v', i', ver') \<in> set cs \<longrightarrow> ver' \<le> ver)"
proof -
  let ?k = "\<lambda>(_, _, ver). ver"
  have ne: "cs \<noteq> []" using assms highest_None[of cs] by auto
  then have sne: "sort_key ?k cs \<noteq> []" by (metis set_empty set_sort)
  obtain ver where l: "last (sort_key ?k cs) = (v, info, ver)"
    using assms sne by (auto simp: highest_def Let_def split: prod.splits)
  have "(v, info, ver) \<in> set cs" using last_in_set[OF sne] l by simp
  moreover have "ver' \<le> ver" if "(v', i', ver') \<in> set cs" for v' i' ver'
    using last_sort_key_max[OF ne that, of ?k] l by simp
  ultimately show ?thesis by blast
qed

lemma range_candidates_iff:
  assumes "hm_wf vs"
  shows "(v, info, ver) \<in> set (range_candidates sv rs vs) \<longleftrightarrow>
     map_of vs v = Some info \<and> parse_version sv v = Some ver \<and> (\<forall>r\<in>set rs. satisfies sv r ver)"
proof -
  have mem: "(v, info) \<in> set vs \<longleftrightarrow> map_of vs v = Some info" using assms by (simp add: hm_wf_def)
  have "(v, info, ver) \<in> set (range_candidates sv rs vs) \<longleftrightarrow> (v, info) \<in> set vs \<and> parse_version sv v = Some ver
      \<and> list_all (\<lambda>r. satisfies sv r ver) rs"
    unfolding range_candidates_def in_map_filter
    by (auto split: option.splits if_splits intro!: bexI[of _ "(v, info)"])
  then show ?thesis unfolding mem list_all_iff .
qed

text \<open>
  What a choice among published versions promises: it is a published version, and it satisfies the given
  ranges and is the highest published version that does.
\<close>

definition best_of :: "('v::linorder, 'r) semver \<Rightarrow> (string, version_info) hmap \<Rightarrow> 'r list \<Rightarrow> string \<times> version_info \<Rightarrow> bool" where
  "best_of sv vs rs choice \<longleftrightarrow> map_of vs (fst choice) = Some (snd choice)
     \<and> (\<exists>ver. parse_version sv (fst choice) = Some ver \<and> (\<forall>r\<in>set rs. satisfies sv r ver)
          \<and> (\<forall>v ver'. map_of vs v \<noteq> None \<and> parse_version sv v = Some ver' \<and> (\<forall>r\<in>set rs. satisfies sv r ver') \<longrightarrow> ver' \<le> ver))"

locale version_choice =
  fixes pick :: "(string \<times> version_info \<times> 'v::linorder) list \<Rightarrow> (string \<times> version_info) option"
  assumes pick_None: "pick cs = None \<longleftrightarrow> cs = []"
    and pick_Some: "pick cs = Some (v, info) \<Longrightarrow>
      \<exists>ver. (v, info, ver) \<in> set cs \<and> (\<forall>v' i' ver'. (v', i', ver') \<in> set cs \<longrightarrow> ver' \<le> ver)"
begin

lemma best:
  assumes "hm_wf vs" "pick (range_candidates sv rs vs) = Some (v, info)"
  shows "best_of sv vs rs (v, info)"
proof -
  note C = range_candidates_iff[OF assms(1), of _ _ _ sv rs]
  obtain ver where m: "(v, info, ver) \<in> set (range_candidates sv rs vs)"
    and max: "\<forall>v' i' ver'. (v', i', ver') \<in> set (range_candidates sv rs vs) \<longrightarrow> ver' \<le> ver"
    using pick_Some[OF assms(2)] by blast
  have le: "ver' \<le> ver" if p: "map_of vs v' \<noteq> None \<and> parse_version sv v' = Some ver' \<and> (\<forall>r\<in>set rs. satisfies sv r ver')" for v' ver'
  proof -
    obtain i' where "map_of vs v' = Some i'" using p by auto
    then have "(v', i', ver') \<in> set (range_candidates sv rs vs)" using p C[of v' i' ver'] by simp
    then show ?thesis using max by simp
  qed
  have "map_of vs v = Some info \<and> parse_version sv v = Some ver \<and> (\<forall>r\<in>set rs. satisfies sv r ver)"
    using m C[of v info ver] by simp
  then show ?thesis unfolding best_of_def fst_conv snd_conv using le by blast
qed

lemma none_fits:
  assumes "hm_wf vs" "pick (range_candidates sv rs vs) = None" "map_of vs v \<noteq> None" "parse_version sv v = Some ver"
  shows "\<exists>r\<in>set rs. \<not> satisfies sv r ver"
proof -
  obtain info where "map_of vs v = Some info" using assms(3) by auto
  moreover have "(v, info, ver) \<notin> set (range_candidates sv rs vs)" using assms(2) by (simp add: pick_None)
  ultimately show ?thesis using assms(4) range_candidates_iff[OF assms(1), of v info ver sv rs] by simp
qed

end

interpretation highest: version_choice highest
  by unfold_locales (rule highest_None highest_Some; assumption?)+

text \<open>The published version that a tag of this name names.\<close>

definition tagged_version :: "packument \<Rightarrow> string \<Rightarrow> string option" where
  "tagged_version p spec =
     (case map_of (pk_dist_tags p) spec of None \<Rightarrow> None | Some v \<Rightarrow> if map_of (pk_versions p) v = None then None else Some v)"

text \<open>
  C32: version resolution returns a published version, with its record, in a fixed order of preference. When a dist-tag of the specifier's name names a published version, it is that
  version; otherwise, when a version is spelled exactly like the specifier, it is that one; otherwise it is the highest published version in the
  range. It fails only when there is neither such a tag nor such a version and the specifier is no range, or no published version is in it, and the
  error says which and names the specifier.
\<close>

theorem resolve_version_correct:
  assumes "hm_wf (pk_versions p)" and "spec = strip_npm_alias s"
  shows "case resolve_version sv p s of
      Inr (v, info) \<Rightarrow> map_of (pk_versions p) v = Some info
        \<and> (case tagged_version p spec of
             Some w \<Rightarrow> v = w
           | None \<Rightarrow> if map_of (pk_versions p) spec \<noteq> None then v = spec
                     else \<exists>r. parse_range sv spec = Some r \<and> best_of sv (pk_versions p) [r] (v, info))
    | Inl e \<Rightarrow> tagged_version p spec = None \<and> map_of (pk_versions p) spec = None
        \<and> (case parse_range sv spec of
             None \<Rightarrow> e = Invalid_range spec
           | Some r \<Rightarrow> e = No_version_satisfies spec
               \<and> (\<forall>v ver. map_of (pk_versions p) v \<noteq> None \<longrightarrow> parse_version sv v = Some ver \<longrightarrow> \<not> satisfies sv r ver))"
proof -
  have tag: "Option.bind (map_of (pk_dist_tags p) spec) (\<lambda>version. map_option (Pair version) (map_of (pk_versions p) version))
      = (case tagged_version p spec of None \<Rightarrow> None | Some w \<Rightarrow> Some (w, the (map_of (pk_versions p) w)))"
    and pub: "tagged_version p spec = Some w \<Longrightarrow> map_of (pk_versions p) w \<noteq> None" for w
    by (auto simp: tagged_version_def split: option.splits if_splits)
  note def = resolve_version_def[of sv p s, unfolded Let_def assms(2)[symmetric] tag]
  show ?thesis
  proof (cases "tagged_version p spec")
    case (Some w)
    then show ?thesis using pub[of w] by (auto simp: def)
  next
    case no_tag: None
    show ?thesis
    proof (cases "map_of (pk_versions p) spec")
      case (Some info)
      then show ?thesis using no_tag by (simp add: def)
    next
      case no_exact: None
      show ?thesis
      proof (cases "parse_range sv spec")
        case None
        then show ?thesis using no_tag no_exact by (simp add: def)
      next
        case r: (Some r)
        show ?thesis
        proof (cases "highest (range_candidates sv [r] (pk_versions p))")
          case None
          then show ?thesis using no_tag no_exact r highest.none_fits[OF assms(1) None] by (auto simp: def)
        next
          case (Some c)
          then show ?thesis
            using no_tag no_exact r highest.best[OF assms(1), of sv "[r]" "fst c" "snd c"] by (cases c) (auto simp: def best_of_def)
        qed
      qed
    qed
  qed
qed

text \<open>
  A toy semver for the examples: versions and ranges are digit strings, ordered by length.
\<close>

definition sample_semver :: "(nat, nat) semver" where
  "sample_semver = \<lparr>parse_version = (\<lambda>s. Some (length s)), parse_range = (\<lambda>s. Some (length s)), satisfies = (\<lambda>r v. v \<le> r)\<rparr>"

definition sample_info :: version_info where
  "sample_info = \<lparr>vi_name = ''a'', vi_version = ''1'', vi_dependencies = [], vi_dev_dependencies = [], vi_optional_dependencies = [],
     vi_peer_dependencies = [], vi_peer_dependencies_meta = [], vi_os = [], vi_cpu = [],
     vi_dist = \<lparr>di_tarball = ''t'', di_shasum = None, di_integrity = None\<rparr>, vi_has_install_script = False\<rparr>"

definition sample_packument :: packument where
  "sample_packument = \<lparr>pk_name = ''a'', pk_dist_tags = [(''latest'', ''11'')], pk_versions = [(''1'', sample_info), (''11'', sample_info)]\<rparr>"

theorem resolve_version_correct_witness:
  "resolve_version sample_semver sample_packument ''latest'' = Inr (''11'', sample_info)
   \<and> map_of (pk_versions sample_packument) ''11'' = Some sample_info"
proof -
  have s: "strip_npm_alias ''latest'' = ''latest''" by code_simp
  have r: "resolve_version sample_semver sample_packument ''latest'' = Inr (''11'', sample_info)"
    by (simp add: resolve_version_def s sample_packument_def)
  have "hm_wf (pk_versions sample_packument)" by (simp add: sample_packument_def hm_wf_def)
  then show ?thesis using resolve_version_correct[of sample_packument "''latest''" "''latest''" sample_semver] s r by simp
qed

text \<open>
  Resolving several ranges at once gives the highest published version that satisfies all of
  them, and with ranges that parse it fails only when no published version does.
\<close>

theorem resolve_intersection_correct:
  assumes "hm_wf (pk_versions p)" and "map (parse_range sv) specs = map Some rs"
  shows "(resolve_intersection sv p specs = Inr (v, info) \<longrightarrow> best_of sv (pk_versions p) rs (v, info))
    \<and> (\<not> is_ok (resolve_intersection sv p specs) \<longrightarrow>
        (\<forall>v ver. map_of (pk_versions p) v \<noteq> None \<longrightarrow> parse_version sv v = Some ver \<longrightarrow> (\<exists>r\<in>set rs. \<not> satisfies sv r ver)))"
proof -
  have "map_result (\<lambda>s. ok_or (parse_range sv s) (Invalid_range s)) specs = Inr rs"
    using assms(2) by (induction specs arbitrary: rs) (auto simp: map_eq_Cons_conv)
  then have "resolve_intersection sv p specs
      = ok_or (highest (range_candidates sv rs (pk_versions p))) (No_version_satisfies (intercalate '', '' specs))"
    by (simp add: resolve_intersection_def)
  then show ?thesis
    using highest.best[OF assms(1), of sv rs v info] highest.none_fits[OF assms(1), of sv rs]
    by (cases "highest (range_candidates sv rs (pk_versions p))") auto
qed

theorem resolve_intersection_correct_witness:
  "\<not> is_ok (resolve_intersection sample_semver (sample_packument\<lparr>pk_versions := []\<rparr>) [''1''])
   \<and> map (parse_range sample_semver) [''1''] = map Some [1]"
proof -
  have "map (parse_range sample_semver) [''1''] = map Some [1]" by (simp add: sample_semver_def)
  moreover have "hm_wf (pk_versions (sample_packument\<lparr>pk_versions := []\<rparr>))" by simp
  ultimately show ?thesis
    using resolve_intersection_correct[of "sample_packument\<lparr>pk_versions := []\<rparr>" sample_semver "[''1'']" "[1]"]
    by (auto simp: best_of_def)
qed

end
