(* ===== verification/Resolver.thy ===== *)
theory Resolver
  imports Git_Deps Version_Resolve
begin

text \<open>
  The dependency resolver (\<open>crates/oath-resolve/src/resolver.rs\<close>): the level-by-level search, the pass that turns
  ranges into keys, and the pass that resolves peers. The registry is a parameter, what \<open>fetch_packument\<close> returns
  for a name, and a failed request is \<open>None\<close>; requests made concurrently do not interact, so a level's fetches
  are a map over the names. The search is a function of its fuel, the number of levels; \<open>resolve_terminates\<close>
  shows that three more than the depth limit are enough.
\<close>

section \<open>Data\<close>

record resolve_options =
  ro_include_dev :: bool
  ro_include_optional :: bool
  ro_max_depth :: nat

definition default_options :: resolve_options where
  "default_options = \<lparr>ro_include_dev = True, ro_include_optional = True, ro_max_depth = 256\<rparr>"

record pending_dep =
  pd_name :: string
  pd_specifier :: string
  pd_depth :: nat
  pd_dev :: bool
  pd_optional :: bool
  pd_alias :: "string option"

datatype resolve_error =
    Fetch_failed string | Version_failed version_error | Git_spec_unparsable string | Git_failed git_error

record ('v, 'r) resolver_env =
  rv_semver :: "('v, 'r) semver"
  rv_fetch_packument :: "string \<Rightarrow> packument option"
  rv_git :: git_env
  rv_sha256 :: "string \<Rightarrow> string"
  rv_os :: string
  rv_cpu :: string

text \<open>
  The state of the search: the graph under construction, the keys already resolved, the next level, the cache of packuments
  and the directory of cached git tarballs.
\<close>

record resolve_state =
  rs_nodes :: "(string, dep_node) hmap"
  rs_roots :: "string list"
  rs_resolved :: "string list"
  rs_next :: "pending_dep list"
  rs_cache :: "(string, packument) hmap"
  rs_git_cache :: "(string, string) hmap"

section \<open>Platform, aliases and edges\<close>

definition platform_list_ok :: "string \<Rightarrow> string list \<Rightarrow> bool" where
  "platform_list_ok current xs =
     (if xs = [] then True
      else if list_ex (\<lambda>s. starts_with s ''!'') xs then \<not> list_ex (\<lambda>s. s = ''!'' @ current) xs
      else list_ex (\<lambda>s. s = current) xs)"

definition is_platform_compatible :: "string \<Rightarrow> string \<Rightarrow> string list \<Rightarrow> string list \<Rightarrow> bool" where
  "is_platform_compatible current_os current_cpu os cpu \<longleftrightarrow> platform_list_ok current_os os \<and> platform_list_ok current_cpu cpu"

definition parse_alias_spec :: "string \<Rightarrow> (string \<times> string) option" where
  "parse_alias_spec specifier =
     (case strip_prefix specifier ''npm:'' of
        None \<Rightarrow> None
      | Some rest \<Rightarrow>
          (case strip_prefix rest ''@'' of
             Some stripped \<Rightarrow>
               (case split_first (CHR ''@'') stripped of
                  Some (n, version) \<Rightarrow> Some (''@'' @ n, version)
                | None \<Rightarrow> Some (rest, ''latest''))
           | None \<Rightarrow>
               (case split_last (CHR ''@'') rest of
                  Some (n, version) \<Rightarrow> if n \<noteq> [] then Some (n, version) else Some (rest, ''latest'')
                | None \<Rightarrow> Some (rest, ''latest''))))"

definition match_candidate ::
  "('v, 'r) semver \<Rightarrow> 'r option \<Rightarrow> string \<Rightarrow> string \<times> dep_node \<Rightarrow> (string \<times> 'v) option" where
  "match_candidate sv rng dep_name kn =
     (if \<not> (dn_alias (snd kn) = Some dep_name \<or> dn_name (snd kn) = dep_name) then None
      else case parse_version sv (dn_version (snd kn)) of
        None \<Rightarrow> None
      | Some version \<Rightarrow>
          if (case rng of Some r \<Rightarrow> \<not> satisfies sv r version | None \<Rightarrow> False) then None
          else Some (fst kn, version))"

definition find_matching_key ::
  "('v::linorder, 'r) semver \<Rightarrow> (string, dep_node) hmap \<Rightarrow> string \<Rightarrow> string \<Rightarrow> string option" where
  "find_matching_key sv nodes dep_name dep_spec =
     (let version_spec = (case parse_alias_spec dep_spec of Some (_, spec) \<Rightarrow> spec | None \<Rightarrow> dep_spec);
          rng = parse_range sv version_spec;
          candidates = sort_key snd (sort_key fst (List.map_filter (match_candidate sv rng dep_name) nodes))
      in if candidates = [] then None else Some (fst (last candidates)))"

section \<open>The search\<close>

definition make_pending :: "nat \<Rightarrow> bool \<Rightarrow> bool \<Rightarrow> string \<times> string \<Rightarrow> pending_dep" where
  "make_pending depth dev optional ns =
     (case parse_alias_spec (snd ns) of
        Some (real, ver) \<Rightarrow> \<lparr>pd_name = real, pd_specifier = ver, pd_depth = depth, pd_dev = dev, pd_optional = optional,
                             pd_alias = Some (fst ns)\<rparr>
      | None \<Rightarrow> \<lparr>pd_name = fst ns, pd_specifier = snd ns, pd_depth = depth, pd_dev = dev, pd_optional = optional,
                  pd_alias = None\<rparr>)"

definition seed_level :: "resolve_options \<Rightarrow> (string, string) hmap \<Rightarrow> (string, string) hmap \<Rightarrow> pending_dep list" where
  "seed_level opts dependencies dev_dependencies =
     map (make_pending 0 False False) dependencies
     @ (if ro_include_dev opts then map (make_pending 0 True False) dev_dependencies else [])"

definition names_to_fetch :: "resolve_options \<Rightarrow> (string, packument) hmap \<Rightarrow> pending_dep list \<Rightarrow> string list" where
  "names_to_fetch opts cache level =
     rev (remdups (rev (map pd_name (filter (\<lambda>d. \<not> pd_depth d > ro_max_depth opts \<and> \<not> is_git_spec (pd_specifier d)
        \<and> map_of cache (pd_name d) = None) level))))"

definition fetch_level ::
  "('v, 'r) resolver_env \<Rightarrow> resolve_options \<Rightarrow> pending_dep list \<Rightarrow> (string, packument) hmap \<Rightarrow> (string, packument) hmap" where
  "fetch_level env opts level cache =
     fold (\<lambda>name c. case rv_fetch_packument env name of Some p \<Rightarrow> hm_insert name p c | None \<Rightarrow> c)
       (names_to_fetch opts cache level) cache"

definition install_name :: "pending_dep \<Rightarrow> string" where
  "install_name pending = (case pd_alias pending of Some a \<Rightarrow> a | None \<Rightarrow> pd_name pending)"

text \<open>Marking a key resolved and, for a direct dependency, as a root.\<close>

definition mark_resolved :: "pending_dep \<Rightarrow> string \<Rightarrow> resolve_state \<Rightarrow> resolve_state" where
  "mark_resolved pending key st =
     st\<lparr>rs_resolved := key # rs_resolved st,
        rs_roots := (if pd_depth pending = 0 then rs_roots st @ [key] else rs_roots st)\<rparr>"

definition queue_deps ::
  "resolve_options \<Rightarrow> pending_dep \<Rightarrow> (string, string) hmap \<Rightarrow> (string, string) hmap \<Rightarrow> pending_dep list" where
  "queue_deps opts pending deps optional_deps =
     map (make_pending (pd_depth pending + 1) (pd_dev pending) False) deps
     @ (if ro_include_optional opts then map (make_pending (pd_depth pending + 1) (pd_dev pending) True) optional_deps else [])"

definition node_dep_specs ::
  "resolve_options \<Rightarrow> (string, string) hmap \<Rightarrow> (string, string) hmap \<Rightarrow> (string, string) hmap" where
  "node_dep_specs opts deps optional_deps =
     hm_collect (deps @ (if ro_include_optional opts then optional_deps else []))"

definition registry_node :: "resolve_options \<Rightarrow> pending_dep \<Rightarrow> string \<Rightarrow> version_info \<Rightarrow> dep_node" where
  "registry_node opts pending version info =
     \<lparr>dn_name = pd_name pending, dn_alias = pd_alias pending, dn_version = version,
      dn_resolved = di_tarball (vi_dist info), dn_integrity = di_integrity (vi_dist info),
      dn_dependencies = node_dep_specs opts (vi_dependencies info) (vi_optional_dependencies info),
      dn_has_install_script = vi_has_install_script info, dn_dev = pd_dev pending, dn_optional = pd_optional pending,
      dn_peer_dependencies = vi_peer_dependencies info,
      dn_optional_peers = set (map fst (filter snd (vi_peer_dependencies_meta info))),
      dn_resolved_peers = []\<rparr>"

definition resolve_registry_dep ::
  "('v::linorder, 'r) resolver_env \<Rightarrow> resolve_options \<Rightarrow> pending_dep \<Rightarrow> resolve_state \<Rightarrow> (resolve_error, resolve_state) result" where
  "resolve_registry_dep env opts pending st =
     (case map_of (rs_cache st) (pd_name pending) of
        None \<Rightarrow> if pd_optional pending then Inr st else Inl (Fetch_failed (pd_name pending))
      | Some pk \<Rightarrow>
          (case resolve_version (rv_semver env) pk (pd_specifier pending) of
             Inl e \<Rightarrow> if pd_optional pending then Inr st else Inl (Version_failed e)
           | Inr (version, info) \<Rightarrow>
               let key = graph_key (install_name pending) version
               in if key \<in> set (rs_resolved st) then Inr st
                  else let st = mark_resolved pending key st
                       in if pd_optional pending \<and> \<not> is_platform_compatible (rv_os env) (rv_cpu env) (vi_os info) (vi_cpu info)
                          then Inr st
                          else Inr (st\<lparr>rs_next := rs_next st @ queue_deps opts pending (vi_dependencies info) (vi_optional_dependencies info),
                                      rs_nodes := hm_insert key (registry_node opts pending version info) (rs_nodes st)\<rparr>)))"

definition git_node :: "resolve_options \<Rightarrow> pending_dep \<Rightarrow> git_resolved \<Rightarrow> dep_node" where
  "git_node opts pending g =
     \<lparr>dn_name = gr_name g, dn_alias = pd_alias pending, dn_version = gr_version g, dn_resolved = gr_resolved_url g,
      dn_integrity = None, dn_dependencies = node_dep_specs opts (gr_dependencies g) (gr_optional_dependencies g),
      dn_has_install_script = gr_has_install_script g, dn_dev = pd_dev pending, dn_optional = pd_optional pending,
      dn_peer_dependencies = [], dn_optional_peers = {}, dn_resolved_peers = []\<rparr>"

definition resolve_git_dep ::
  "('v, 'r) resolver_env \<Rightarrow> resolve_options \<Rightarrow> pending_dep \<Rightarrow> resolve_state \<Rightarrow> (resolve_error, resolve_state) result" where
  "resolve_git_dep env opts pending st =
     bind_result (ok_or (parse_git_spec (pd_specifier pending)) (Git_spec_unparsable (pd_specifier pending))) (\<lambda>spec.
     case resolve_git_spec (rv_git env) spec of
       Inl e \<Rightarrow> Inl (Git_failed e)
     | Inr g \<Rightarrow>
         let key = graph_key (install_name pending) (gr_version g)
         in if key \<in> set (rs_resolved st) then Inr st
            else let st = mark_resolved pending key st;
                     cache_file = git_cache_file_name (rv_sha256 env) (gr_name g) (gr_version g) (gr_resolved_url g)
                 in Inr (st\<lparr>rs_next := rs_next st @ queue_deps opts pending (gr_dependencies g) (gr_optional_dependencies g),
                            rs_nodes := hm_insert key (git_node opts pending g) (rs_nodes st),
                            rs_git_cache := (if map_of (rs_git_cache st) cache_file = None
                                             then hm_insert cache_file (gr_tarball_data g) (rs_git_cache st)
                                             else rs_git_cache st)\<rparr>))"

definition resolve_pending ::
  "('v::linorder, 'r) resolver_env \<Rightarrow> resolve_options \<Rightarrow> pending_dep \<Rightarrow> resolve_state \<Rightarrow> (resolve_error, resolve_state) result" where
  "resolve_pending env opts pending st =
     (if pd_depth pending > ro_max_depth opts then Inr st
      else if is_git_spec (pd_specifier pending) then
        (case resolve_git_dep env opts pending st of
           Inr st' \<Rightarrow> Inr st'
         | Inl e \<Rightarrow> if pd_optional pending then Inr st else Inl e)
      else resolve_registry_dep env opts pending st)"

fun resolve_levels ::
  "('v::linorder, 'r) resolver_env \<Rightarrow> resolve_options \<Rightarrow> nat \<Rightarrow> pending_dep list \<Rightarrow> resolve_state \<Rightarrow>
   (resolve_error, resolve_state) result option" where
  "resolve_levels env opts 0 level st = None"
| "resolve_levels env opts (Suc fuel) level st =
     (if level = [] then Some (Inr st)
      else let st = st\<lparr>rs_cache := fetch_level env opts level (rs_cache st), rs_next := []\<rparr>
           in case fold_result (resolve_pending env opts) level st of
                Inl e \<Rightarrow> Some (Inl e)
              | Inr st' \<Rightarrow> resolve_levels env opts fuel (rs_next st') st')"

section \<open>Edges and peers\<close>

definition fix_dependencies ::
  "('v::linorder, 'r) semver \<Rightarrow> (string, dep_node) hmap \<Rightarrow> dep_node \<Rightarrow> dep_node" where
  "fix_dependencies sv nodes node =
     node\<lparr>dn_dependencies := hm_collect (List.map_filter (\<lambda>(dep_name, dep_spec).
        map_option (Pair dep_name) (find_matching_key sv nodes dep_name dep_spec)) (dn_dependencies node))\<rparr>"

definition apply_fixups :: "('v::linorder, 'r) semver \<Rightarrow> (string, dep_node) hmap \<Rightarrow> (string, dep_node) hmap" where
  "apply_fixups sv nodes = map (\<lambda>(key, node). (key, fix_dependencies sv nodes node)) nodes"

definition semver_satisfies :: "('v, 'r) semver \<Rightarrow> string \<Rightarrow> string \<Rightarrow> bool" where
  "semver_satisfies sv version rng =
     (case parse_version sv (hd (split_char (CHR ''+'') version)) of
        None \<Rightarrow> True
      | Some v \<Rightarrow> (case parse_range sv rng of None \<Rightarrow> True | Some r \<Rightarrow> satisfies sv r v))"

definition push_parent :: "string \<Rightarrow> string \<Rightarrow> (string, string list) hmap \<Rightarrow> (string, string list) hmap" where
  "push_parent dep_key parent_key parents =
     hm_insert dep_key ((case map_of parents dep_key of Some ps \<Rightarrow> ps | None \<Rightarrow> []) @ [parent_key]) parents"

definition build_parent_map :: "(string, dep_node) hmap \<Rightarrow> (string, string list) hmap" where
  "build_parent_map nodes =
     fold (\<lambda>(parent_key, dep_key). push_parent dep_key parent_key)
       (concat (map (\<lambda>(parent_key, node). map (Pair parent_key) (map snd (dn_dependencies node))) nodes)) []"

datatype peer_lookup_result = Peer_found string | Peer_conflict string | Peer_missing

definition extract_version_from_key :: "string \<Rightarrow> string" where
  "extract_version_from_key key =
     (case split_last (CHR ''@'') key of Some (n, version) \<Rightarrow> if n \<noteq> [] then version else key | None \<Rightarrow> key)"

definition judge_peer :: "('v, 'r) semver \<Rightarrow> string \<Rightarrow> string \<Rightarrow> string \<Rightarrow> peer_lookup_result" where
  "judge_peer sv version rng key =
     (if semver_satisfies sv version rng then Peer_found key else Peer_conflict version)"

definition parents_of :: "(string, string list) hmap \<Rightarrow> string \<Rightarrow> string list" where
  "parents_of parents key = (case map_of parents key of Some ps \<Rightarrow> ps | None \<Rightarrow> [])"

definition all_parents :: "(string, string list) hmap \<Rightarrow> string set" where
  "all_parents parents = (\<Union>ps\<in>set (map snd parents). set ps)"

lemma parents_of_subset: "set (parents_of parents key) \<subseteq> all_parents parents"
proof (cases "map_of parents key")
  case (Some ps)
  then have "ps \<in> set (map snd parents)" by (force dest: map_of_SomeD)
  then show ?thesis using Some by (auto simp: parents_of_def all_parents_def)
qed (simp add: parents_of_def)

lemma finite_all_parents [simp]: "finite (all_parents parents)"
  by (simp add: all_parents_def)

text \<open>The walk up the dependency chain; \<open>None\<close> when the queue runs empty.\<close>

function walk_ancestors ::
  "('v, 'r) semver \<Rightarrow> (string, dep_node) hmap \<Rightarrow> (string, string list) hmap \<Rightarrow> string \<Rightarrow> string \<Rightarrow> string list \<Rightarrow> string list \<Rightarrow>
   peer_lookup_result option" where
  "walk_ancestors sv nodes parents peer_name peer_range visited [] = None"
| "walk_ancestors sv nodes parents peer_name peer_range visited (ancestor_key # queue) =
     (if ancestor_key \<in> set visited then walk_ancestors sv nodes parents peer_name peer_range visited queue
      else let visited = ancestor_key # visited
           in case map_of nodes ancestor_key of
                None \<Rightarrow> walk_ancestors sv nodes parents peer_name peer_range visited queue
              | Some ancestor \<Rightarrow>
                  (case map_of (dn_dependencies ancestor) peer_name of
                     Some resolved_key \<Rightarrow> Some (judge_peer sv (extract_version_from_key resolved_key) peer_range resolved_key)
                   | None \<Rightarrow> walk_ancestors sv nodes parents peer_name peer_range visited
                       (queue @ filter (\<lambda>gp. gp \<notin> set visited) (parents_of parents ancestor_key))))"
  by pat_completeness auto
termination
proof (relation "inv_image (less_than <*lex*> less_than) (\<lambda>(sv, nodes, parents, pn, pr, visited, queue).
      (card ((all_parents parents \<union> set queue) - set visited), length queue))", goal_cases)
  case (2 sv nodes parents pn pr visited k queue)
  then have "(all_parents parents \<union> set queue) - set visited = (all_parents parents \<union> set (k # queue)) - set visited" by auto
  then show ?case by simp
next
  case (3 sv nodes parents pn pr visited k queue)
  have "card ((all_parents parents \<union> set queue) - set (k # visited)) < card ((all_parents parents \<union> set (k # queue)) - set visited)"
    by (rule psubset_card_mono) (use 3 in auto)
  then show ?case using 3 by simp
next
  case (4 sv nodes parents pn pr visited k queue v a)
  have "card ((all_parents parents \<union> set (queue @ filter (\<lambda>gp. gp \<notin> set v) (parents_of parents k))) - set v)
      < card ((all_parents parents \<union> set (k # queue)) - set visited)"
    by (rule psubset_card_mono) (use 4 parents_of_subset[of parents k] in auto)
  then show ?case using 4 by simp
next
  case 1
  show ?case by (rule wf_inv_image[OF wf_lex_prod[OF wf_less_than wf_less_than]])
qed

fun check_roots ::
  "('v, 'r) semver \<Rightarrow> (string, dep_node) hmap \<Rightarrow> string \<Rightarrow> string \<Rightarrow> string list \<Rightarrow> peer_lookup_result" where
  "check_roots sv nodes peer_name peer_range [] = Peer_missing"
| "check_roots sv nodes peer_name peer_range (root_key # roots) =
     (case map_of nodes root_key of
        None \<Rightarrow> check_roots sv nodes peer_name peer_range roots
      | Some root_node \<Rightarrow>
          let install = (case dn_alias root_node of Some a \<Rightarrow> a | None \<Rightarrow> dn_name root_node)
          in if install = peer_name \<or> dn_name root_node = peer_name
             then judge_peer sv (dn_version root_node) peer_range root_key
             else check_roots sv nodes peer_name peer_range roots)"

definition find_peer_in_context ::
  "('v, 'r) semver \<Rightarrow> dep_graph \<Rightarrow> (string, string list) hmap \<Rightarrow> string \<Rightarrow> string \<Rightarrow> string \<Rightarrow> peer_lookup_result" where
  "find_peer_in_context sv graph parents pkg_key peer_name peer_range =
     (case walk_ancestors sv (dg_nodes graph) parents peer_name peer_range [] (parents_of parents pkg_key @ dg_roots graph) of
        Some r \<Rightarrow> r
      | None \<Rightarrow> check_roots sv (dg_nodes graph) peer_name peer_range (dg_roots graph))"

type_synonym peer_work = "string \<times> string \<times> string \<times> bool"

definition peer_work_list :: "(string, dep_node) hmap \<Rightarrow> peer_work list" where
  "peer_work_list nodes =
     concat (map (\<lambda>(key, node). map (\<lambda>(pname, prange). (key, pname, prange, pname \<in> dn_optional_peers node))
       (dn_peer_dependencies node)) nodes)"

definition record_peer :: "peer_work \<Rightarrow> peer_lookup_result \<Rightarrow> dep_graph \<times> peer_report \<Rightarrow> dep_graph \<times> peer_report" where
  "record_peer w result gr =
     (case w of (pkg_key, pname, prange, is_optional) \<Rightarrow>
     (case gr of (graph, report) \<Rightarrow>
     (case result of
        Peer_found key \<Rightarrow>
          ((case map_of (dg_nodes graph) pkg_key of
              Some node \<Rightarrow> graph\<lparr>dg_nodes := hm_insert pkg_key (node\<lparr>dn_resolved_peers := hm_insert pname key (dn_resolved_peers node)\<rparr>) (dg_nodes graph)\<rparr>
            | None \<Rightarrow> graph),
           report\<lparr>pr_satisfied := pr_satisfied report @ [Satisfied pkg_key pname key]\<rparr>)
      | Peer_missing \<Rightarrow>
          (graph, if is_optional then report\<lparr>pr_optional_missing := pr_optional_missing report @ [pname]\<rparr>
                  else report\<lparr>pr_missing := pr_missing report @ [Missing pkg_key pname prange]\<rparr>)
      | Peer_conflict found \<Rightarrow>
          (graph, report\<lparr>pr_conflicts := pr_conflicts report @ [Conflict pkg_key pname prange found]\<rparr>))))"

definition resolve_peers :: "('v, 'r) semver \<Rightarrow> dep_graph \<Rightarrow> dep_graph \<times> peer_report" where
  "resolve_peers sv graph =
     (let parents = build_parent_map (dg_nodes graph)
      in fold (\<lambda>w gr. case w of (pkg_key, pname, prange, _) \<Rightarrow>
             record_peer w (find_peer_in_context sv (fst gr) parents pkg_key pname prange) gr)
           (peer_work_list (dg_nodes graph)) (graph, default_peer_report))"

section \<open>The whole resolution\<close>

definition initial_state :: "(string, packument) hmap \<Rightarrow> (string, string) hmap \<Rightarrow> resolve_state" where
  "initial_state cache git_cache = \<lparr>rs_nodes = [], rs_roots = [], rs_resolved = [], rs_next = [], rs_cache = cache, rs_git_cache = git_cache\<rparr>"

definition finish_graph :: "('v::linorder, 'r) semver \<Rightarrow> resolve_state \<Rightarrow> dep_graph" where
  "finish_graph sv st =
     (let graph = new_graph\<lparr>dg_nodes := apply_fixups sv (rs_nodes st), dg_roots := rs_roots st\<rparr>;
          (graph, report) = resolve_peers sv graph
      in graph\<lparr>dg_peer_report := report\<rparr>)"

definition resolve ::
  "('v::linorder, 'r) resolver_env \<Rightarrow> resolve_options \<Rightarrow> nat \<Rightarrow> (string, packument) hmap \<Rightarrow> (string, string) hmap \<Rightarrow>
   (string, string) hmap \<Rightarrow> (string, string) hmap \<Rightarrow> (resolve_error, dep_graph) result option" where
  "resolve env opts fuel cache git_cache dependencies dev_dependencies =
     map_option (\<lambda>r. bind_result r (\<lambda>st. Inr (finish_graph (rv_semver env) st)))
       (resolve_levels env opts fuel (seed_level opts dependencies dev_dependencies) (initial_state cache git_cache))"

section \<open>Termination of the search\<close>

lemma make_pending_depth [simp]: "pd_depth (make_pending d dev opt ns) = d"
  by (simp add: make_pending_def split: option.splits)

lemma queue_deps_depth: "q \<in> set (queue_deps opts p deps odeps) \<Longrightarrow> pd_depth q = pd_depth p + 1"
  by (auto simp: queue_deps_def split: if_splits)

lemma mark_resolved_simps [simp]:
  "rs_next (mark_resolved p k st) = rs_next st" "rs_nodes (mark_resolved p k st) = rs_nodes st"
  "rs_cache (mark_resolved p k st) = rs_cache st" "rs_git_cache (mark_resolved p k st) = rs_git_cache st"
  by (simp_all add: mark_resolved_def)

text \<open>What one pending dependency can do to the state.\<close>

lemma resolve_pending_cases:
  assumes "resolve_pending env opts p st = Inr st'"
  obtains (skip) "st' = st"
  | (platform) v where "st' = mark_resolved p (graph_key (install_name p) v) st" "pd_optional p"
      "graph_key (install_name p) v \<notin> set (rs_resolved st)"
  | (registry) pk v info where "map_of (rs_cache st) (pd_name p) = Some pk"
      "resolve_version (rv_semver env) pk (pd_specifier p) = Inr (v, info)"
      "graph_key (install_name p) v \<notin> set (rs_resolved st)"
      "st' = (mark_resolved p (graph_key (install_name p) v) st)\<lparr>
         rs_next := rs_next st @ queue_deps opts p (vi_dependencies info) (vi_optional_dependencies info),
         rs_nodes := hm_insert (graph_key (install_name p) v) (registry_node opts p v info) (rs_nodes st)\<rparr>"
      "pd_depth p \<le> ro_max_depth opts"
  | (git) spec g gc where "parse_git_spec (pd_specifier p) = Some spec" "resolve_git_spec (rv_git env) spec = Inr g"
      "graph_key (install_name p) (gr_version g) \<notin> set (rs_resolved st)"
      "st' = (mark_resolved p (graph_key (install_name p) (gr_version g)) st)\<lparr>
         rs_next := rs_next st @ queue_deps opts p (gr_dependencies g) (gr_optional_dependencies g),
         rs_nodes := hm_insert (graph_key (install_name p) (gr_version g)) (git_node opts p g) (rs_nodes st),
         rs_git_cache := gc\<rparr>"
      "pd_depth p \<le> ro_max_depth opts"
proof (cases "pd_depth p > ro_max_depth opts")
  case True
  then show thesis using assms skip by (simp add: resolve_pending_def)
next
  case shallow: False
  show thesis
  proof (cases "is_git_spec (pd_specifier p)")
    case True
    show thesis
    proof (cases "resolve_git_dep env opts p st")
      case (Inl e)
      then show thesis using assms shallow True skip by (simp add: resolve_pending_def split: if_splits)
    next
      case (Inr s)
      then have s: "resolve_git_dep env opts p st = Inr st'" using assms shallow True by (simp add: resolve_pending_def)
      obtain spec where spec: "parse_git_spec (pd_specifier p) = Some spec"
        using s by (auto simp: resolve_git_dep_def bind_result_Inr_iff)
      obtain g where g: "resolve_git_spec (rv_git env) spec = Inr g"
        using s spec by (cases "resolve_git_spec (rv_git env) spec") (simp_all add: resolve_git_dep_def)
      show thesis
      proof (cases "graph_key (install_name p) (gr_version g) \<in> set (rs_resolved st)")
        case True
        then show thesis using s spec g skip by (simp add: resolve_git_dep_def)
      next
        case False
        have "\<exists>gc. st' = (mark_resolved p (graph_key (install_name p) (gr_version g)) st)\<lparr>
           rs_next := rs_next st @ queue_deps opts p (gr_dependencies g) (gr_optional_dependencies g),
           rs_nodes := hm_insert (graph_key (install_name p) (gr_version g)) (git_node opts p g) (rs_nodes st),
           rs_git_cache := gc\<rparr>"
          using s False by (simp add: resolve_git_dep_def Let_def spec g) (rule exI, erule sym)
        then show thesis using git[OF spec g False] shallow by auto
      qed
    qed
  next
    case False
    then have s: "resolve_registry_dep env opts p st = Inr st'" using assms shallow by (simp add: resolve_pending_def)
    show thesis
    proof (cases "map_of (rs_cache st) (pd_name p)")
      case None
      then show thesis using s skip by (simp add: resolve_registry_dep_def split: if_splits)
    next
      case pk: (Some pk)
      show thesis
      proof (cases "resolve_version (rv_semver env) pk (pd_specifier p)")
        case (Inl e)
        then show thesis using s pk skip by (simp add: resolve_registry_dep_def split: if_splits)
      next
        case (Inr vi)
        obtain v info where vi: "vi = (v, info)" by (cases vi)
        show thesis
        proof (cases "graph_key (install_name p) v \<in> set (rs_resolved st)")
          case True
          then show thesis using s pk Inr vi skip by (simp add: resolve_registry_dep_def)
        next
          case new: False
          show thesis
          proof (cases "pd_optional p \<and> \<not> is_platform_compatible (rv_os env) (rv_cpu env) (vi_os info) (vi_cpu info)")
            case True
            then have "st' = mark_resolved p (graph_key (install_name p) v) st"
              using s pk Inr vi new by (simp add: resolve_registry_dep_def Let_def)
            then show thesis using platform True new by blast
          next
            case False
            then show thesis using registry[OF pk _ new] s pk Inr vi new shallow
              by (auto simp: resolve_registry_dep_def Let_def split: if_splits)
          qed
        qed
      qed
    qed
  qed
qed

lemma resolve_pending_next:
  assumes "resolve_pending env opts p st = Inr st'"
  shows "\<exists>qs. rs_next st' = rs_next st @ qs
    \<and> (\<forall>q\<in>set qs. pd_depth q = pd_depth p + 1 \<and> pd_depth p \<le> ro_max_depth opts)"
  using assms by (cases rule: resolve_pending_cases) (auto dest: queue_deps_depth)

lemma level_next:
  assumes "fold_result (resolve_pending env opts) level st = Inr st'" "\<forall>p\<in>set level. pd_depth p = d"
    and "\<forall>q\<in>set (rs_next st). pd_depth q = d + 1 \<and> d \<le> ro_max_depth opts"
  shows "\<forall>q\<in>set (rs_next st'). pd_depth q = d + 1 \<and> d \<le> ro_max_depth opts"
  by (rule fold_result_invariant[where P = "\<lambda>s. \<forall>q\<in>set (rs_next s). pd_depth q = d + 1 \<and> d \<le> ro_max_depth opts", OF assms(1,3)])
    (use assms(2) resolve_pending_next in fastforce)

lemma resolve_levels_enough:
  assumes "\<forall>p\<in>set level. pd_depth p = d" "level \<noteq> [] \<longrightarrow> d \<le> ro_max_depth opts + 1" "ro_max_depth opts + 3 \<le> d + fuel" "0 < fuel"
  shows "resolve_levels env opts fuel level st \<noteq> None"
  using assms
proof (induction fuel arbitrary: level st d)
  case (Suc fuel)
  show ?case
  proof (cases "level = []")
    case ne: False
    let ?st = "st\<lparr>rs_cache := fetch_level env opts level (rs_cache st), rs_next := []\<rparr>"
    show ?thesis
    proof (cases "fold_result (resolve_pending env opts) level ?st")
      case (Inr st')
      have nx: "\<forall>q\<in>set (rs_next st'). pd_depth q = d + 1 \<and> d \<le> ro_max_depth opts"
        by (rule level_next[OF Inr Suc.prems(1)]) simp
      have "resolve_levels env opts fuel (rs_next st') st' \<noteq> None"
      proof (rule Suc.IH[of "rs_next st'" "d + 1"])
        show "\<forall>p\<in>set (rs_next st'). pd_depth p = d + 1" using nx by blast
        show "rs_next st' \<noteq> [] \<longrightarrow> d + 1 \<le> ro_max_depth opts + 1" using nx by (cases "rs_next st'") auto
        show "ro_max_depth opts + 3 \<le> d + 1 + fuel" using Suc.prems(3) by simp
        show "0 < fuel" using Suc.prems(2,3) ne by simp
      qed
      then show ?thesis using Inr ne by (simp add: Let_def)
    qed (use ne in \<open>simp add: Let_def\<close>)
  qed simp
qed simp

text \<open>
  C33: resolution always ends: with three levels more than the depth limit the search has an answer, a graph
  or an error, whatever the registry and git return, cycles and unbounded dependency chains included.
\<close>

theorem resolve_terminates:
  "\<exists>r. resolve env opts (ro_max_depth opts + 3) cache git_cache deps dev_deps = Some r"
proof -
  have "\<forall>p\<in>set (seed_level opts deps dev_deps). pd_depth p = 0" by (auto simp: seed_level_def split: if_splits)
  then have "resolve_levels env opts (ro_max_depth opts + 3) (seed_level opts deps dev_deps) (initial_state cache git_cache) \<noteq> None"
    by (rule resolve_levels_enough) simp_all
  then show ?thesis by (auto simp: resolve_def)
qed

section \<open>What the search finds\<close>

text \<open>
  The invariant of the search: keys are distinct and resolved, roots are nodes, the cache holds what the
  registry gave, and every node is either a published version of its package, under its install name and with the
  registry's source and integrity, or a git package.
\<close>

definition node_origin ::
  "('v::linorder, 'r) resolver_env \<Rightarrow> resolve_options \<Rightarrow> string \<Rightarrow> dep_node \<Rightarrow> bool" where
  "node_origin env opts k n \<longleftrightarrow>
     (\<exists>p pk v info. rv_fetch_packument env (pd_name p) = Some pk \<and> resolve_version (rv_semver env) pk (pd_specifier p) = Inr (v, info)
        \<and> k = graph_key (install_name p) v \<and> n = registry_node opts p v info)
     \<or> (\<exists>p spec g. parse_git_spec (pd_specifier p) = Some spec \<and> resolve_git_spec (rv_git env) spec = Inr g
        \<and> k = graph_key (install_name p) (gr_version g) \<and> n = git_node opts p g)"

definition cache_sound :: "('v, 'r) resolver_env \<Rightarrow> (string, packument) hmap \<Rightarrow> bool" where
  "cache_sound env cache \<longleftrightarrow> (\<forall>name pk. map_of cache name = Some pk \<longrightarrow> rv_fetch_packument env name = Some pk)"

definition search_inv :: "('v::linorder, 'r) resolver_env \<Rightarrow> resolve_options \<Rightarrow> resolve_state \<Rightarrow> bool" where
  "search_inv env opts st \<longleftrightarrow> hm_wf (rs_nodes st)
     \<and> fst ` set (rs_nodes st) \<subseteq> set (rs_resolved st)
     \<and> set (rs_roots st) \<subseteq> fst ` set (rs_nodes st)
     \<and> cache_sound env (rs_cache st)
     \<and> (\<forall>k n. map_of (rs_nodes st) k = Some n \<longrightarrow> node_origin env opts k n)
     \<and> (\<forall>q\<in>set (rs_next st). pd_optional q \<longrightarrow> pd_depth q > 0)"

lemma queue_deps_optional: "q \<in> set (queue_deps opts p deps odeps) \<Longrightarrow> pd_depth q > 0"
  by (auto simp: queue_deps_def split: if_splits)

lemma search_inv_insert:
  assumes "search_inv env opts st" "node_origin env opts k n" "\<forall>q\<in>set qs. pd_depth q > 0"
  shows "search_inv env opts ((mark_resolved p k st)\<lparr>rs_next := rs_next st @ qs, rs_nodes := hm_insert k n (rs_nodes st)\<rparr>)"
    and "search_inv env opts ((mark_resolved p k st)\<lparr>rs_next := rs_next st @ qs, rs_nodes := hm_insert k n (rs_nodes st), rs_git_cache := gc\<rparr>)"
  using assms unfolding search_inv_def by (auto simp: mark_resolved_def fst_set_hm_insert)

lemma resolve_pending_inv:
  assumes "resolve_pending env opts p st = Inr st'" "search_inv env opts st" "pd_optional p \<longrightarrow> pd_depth p > 0"
  shows "search_inv env opts st'"
  using assms(1)
proof (cases rule: resolve_pending_cases)
  case (platform v)
  then show ?thesis using assms(2,3) by (auto simp: search_inv_def mark_resolved_def)
next
  case (registry pk v info)
  have "rv_fetch_packument env (pd_name p) = Some pk" using registry(1) assms(2) by (simp add: search_inv_def cache_sound_def)
  then have "node_origin env opts (graph_key (install_name p) v) (registry_node opts p v info)"
    using registry(2) unfolding node_origin_def by blast
  then show ?thesis unfolding registry(4) using assms(2) queue_deps_optional by (intro search_inv_insert(1)) blast+
next
  case (git spec g gc)
  then have "node_origin env opts (graph_key (install_name p) (gr_version g)) (git_node opts p g)"
    unfolding node_origin_def by blast
  then show ?thesis unfolding git(4) using assms(2) queue_deps_optional by (intro search_inv_insert(2)) blast+
qed (use assms(2) in simp)

lemma fetch_level_sound: "cache_sound env cache \<Longrightarrow> cache_sound env (fetch_level env opts level cache)"
  unfolding fetch_level_def
proof (rule fold_invariant, assumption)
  fix name c
  assume c: "cache_sound env c"
  show "cache_sound env (case rv_fetch_packument env name of Some p \<Rightarrow> hm_insert name p c | None \<Rightarrow> c)"
    using c by (cases "rv_fetch_packument env name") (simp_all add: cache_sound_def)
qed

lemma resolve_levels_inv:
  assumes "resolve_levels env opts fuel level st = Some (Inr st')" "search_inv env opts st"
    and "\<forall>q\<in>set level. pd_optional q \<longrightarrow> pd_depth q > 0"
  shows "search_inv env opts st'"
  using assms
proof (induction fuel arbitrary: level st)
  case (Suc fuel)
  show ?case
  proof (cases "level = []")
    case ne: False
    let ?st = "st\<lparr>rs_cache := fetch_level env opts level (rs_cache st), rs_next := []\<rparr>"
    have step: "resolve_levels env opts (Suc fuel) level st = (case fold_result (resolve_pending env opts) level ?st of
        Inl e \<Rightarrow> Some (Inl e) | Inr s \<Rightarrow> resolve_levels env opts fuel (rs_next s) s)"
      using ne by (simp add: Let_def)
    obtain s where s: "fold_result (resolve_pending env opts) level ?st = Inr s" "resolve_levels env opts fuel (rs_next s) s = Some (Inr st')"
      using Suc.prems(1) unfolding step by (cases "fold_result (resolve_pending env opts) level ?st") simp_all
    have "search_inv env opts ?st" using Suc.prems(2) fetch_level_sound[of env "rs_cache st" opts level] by (simp add: search_inv_def)
    then have si: "search_inv env opts s"
      by (rule fold_result_invariant[OF s(1)]) (use Suc.prems(3) resolve_pending_inv in blast)
    then have "\<forall>q\<in>set (rs_next s). pd_optional q \<longrightarrow> pd_depth q > 0" by (simp add: search_inv_def)
    then show ?thesis using Suc.IH[OF s(2) si] by blast
  qed (use Suc.prems in simp)
qed simp

end
