(* ===== verification/Tarball.thy ===== *)
theory Tarball
  imports File_Tree "HOL-Library.Word"
begin

text \<open>
  Package archives (\<open>crates/oath-fetch/src/tarball.rs\<close>): the limits, the verification of a download against its
  integrity string, and extraction. The digests and the base64 encoder come from crates and are
  parameters, as are gzip and tar: an archive is the list of what the tar reader yields, \<open>None\<close> for an
  entry it cannot read. An entry carries the path bytes, the type, size and mode of its header, the bytes its
  body yields, and whether reading the body ends without an error. The file system is a tree in which \<open>dest\<close> is the
  extraction directory; beside it the state has the paths made executable.
\<close>

unbundle bit_operations_syntax

section \<open>Limits\<close>

record tarball_limits =
  max_archive_bytes :: nat
  max_unpacked_bytes :: nat
  max_entries :: nat
  max_path_bytes :: nat
  max_path_components :: nat

definition default_limits :: tarball_limits where
  "default_limits = \<lparr>max_archive_bytes = 512 * 1024 * 1024, max_unpacked_bytes = 2 * 1024 * 1024 * 1024,
     max_entries = 200000, max_path_bytes = 4096, max_path_components = 64\<rparr>"

datatype entry_type = Directory | Regular | Other_type string

record tar_entry =
  en_path :: "string option"
  en_type :: entry_type
  en_size :: nat
  en_mode :: "32 word option"
  en_data :: string
  en_complete :: bool

datatype tar_error =
    Env_not_integer string | Env_unreadable string | Archive_too_large nat
  | Invalid_sri string | No_supported_digest string | Integrity_check_failed
  | Stat_failed | Dest_failed | Entries_unreadable
  | Entry_count_overflow | Too_many_entries nat | Corrupt_tar_entry | Invalid_tar_path
  | Path_not_utf8 | Path_too_long | Path_empty_component | Unsafe_tar_path string | Too_many_components
  | Unpacked_overflow | Unpacked_too_large nat | Parent_dir_failed | File_create_failed | File_write_failed
  | Unsupported_entry_type

datatype env_var = Env_absent | Env_not_unicode | Env_value string

text \<open>\<open>str::parse::<u64>\<close>: an optional plus sign, at least one digit, and a value that fits.\<close>

definition is_digit :: "char \<Rightarrow> bool" where
  "is_digit c \<longleftrightarrow> 48 \<le> byte c \<and> byte c \<le> 57"

definition digits_value :: "string \<Rightarrow> nat" where
  "digits_value ds = foldl (\<lambda>n c. 10 * n + (byte c - 48)) 0 ds"

definition parse_u64 :: "string \<Rightarrow> nat option" where
  "parse_u64 s =
     (let ds = (case s of c # r \<Rightarrow> if c = CHR ''+'' then r else s | [] \<Rightarrow> [])
      in if ds \<noteq> [] \<and> list_all is_digit ds \<and> digits_value ds < 2 ^ 64 then Some (digits_value ds) else None)"

definition env_u64 :: "(string \<Rightarrow> env_var) \<Rightarrow> string \<Rightarrow> nat \<Rightarrow> (tar_error, nat) result" where
  "env_u64 env name dflt =
     (case env name of
        Env_value v \<Rightarrow> ok_or (parse_u64 v) (Env_not_integer name)
      | Env_absent \<Rightarrow> Inr dflt
      | Env_not_unicode \<Rightarrow> Inl (Env_unreadable name))"

definition limits_from_env :: "(string \<Rightarrow> env_var) \<Rightarrow> (tar_error, tarball_limits) result" where
  "limits_from_env env =
     (let lim = default_limits
      in bind_result (env_u64 env ''OATH_MAX_TARBALL_BYTES'' (max_archive_bytes lim)) (\<lambda>a.
         bind_result (env_u64 env ''OATH_MAX_UNPACKED_BYTES'' (max_unpacked_bytes lim)) (\<lambda>u.
         bind_result (env_u64 env ''OATH_MAX_TARBALL_ENTRIES'' (max_entries lim)) (\<lambda>n.
         Inr (lim\<lparr>max_archive_bytes := a, max_unpacked_bytes := u, max_entries := n\<rparr>)))))"

definition check_archive_size :: "tarball_limits \<Rightarrow> nat \<Rightarrow> (tar_error, unit) result" where
  "check_archive_size lim bytes = ensure (bytes \<le> max_archive_bytes lim) (Archive_too_large bytes)"

section \<open>Integrity\<close>

datatype sri_algo = Sha512 | Sha256 | Sha1

record integrity_verifier =
  iv_algo :: sri_algo
  iv_data :: string
  iv_expected :: "string list"

fun algo_name :: "sri_algo \<Rightarrow> string" where
  "algo_name Sha512 = ''sha512''"
| "algo_name Sha256 = ''sha256''"
| "algo_name Sha1 = ''sha1''"

text \<open>
  \<open>split_whitespace\<close>, on the ASCII white space that separates the digests of an SRI string; the white space outside ASCII that Rust
  also splits at stays in its token here.
\<close>

definition is_space :: "char \<Rightarrow> bool" where
  "is_space c \<longleftrightarrow> byte c = 32 \<or> (9 \<le> byte c \<and> byte c \<le> 13)"

definition split_whitespace :: "string \<Rightarrow> string list" where
  "split_whitespace s =
     filter (\<lambda>p. p \<noteq> []) (split_char (CHR '' '') (map (\<lambda>c. if is_space c then CHR '' '' else c) s))"

text \<open>The three found of expected digests, one per algorithm, as a function of the algorithm.\<close>

definition collect_token :: "string \<Rightarrow> (sri_algo \<Rightarrow> string list) \<Rightarrow> (tar_error, sri_algo \<Rightarrow> string list) result" where
  "collect_token token found =
     (case split_first (CHR ''-'') token of
        None \<Rightarrow> Inl (Invalid_sri token)
      | Some (algo, expected) \<Rightarrow>
          if expected = [] then Inl (Invalid_sri token)
          else if algo = ''sha512'' then Inr (found(Sha512 := found Sha512 @ [expected]))
          else if algo = ''sha256'' then Inr (found(Sha256 := found Sha256 @ [expected]))
          else if algo = ''sha1'' then Inr (found(Sha1 := found Sha1 @ [expected]))
          else Inr found)"

definition verifier_new :: "string \<Rightarrow> (tar_error, integrity_verifier) result" where
  "verifier_new sri =
     bind_result (fold_result collect_token (split_whitespace sri) (\<lambda>_. [])) (\<lambda>found.
       if found Sha512 \<noteq> [] then Inr \<lparr>iv_algo = Sha512, iv_data = [], iv_expected = found Sha512\<rparr>
       else if found Sha256 \<noteq> [] then Inr \<lparr>iv_algo = Sha256, iv_data = [], iv_expected = found Sha256\<rparr>
       else if found Sha1 \<noteq> [] then Inr \<lparr>iv_algo = Sha1, iv_data = [], iv_expected = found Sha1\<rparr>
       else Inl (No_supported_digest sri))"

text \<open>A hasher is the bytes it was fed.\<close>

definition verifier_update :: "string \<Rightarrow> integrity_verifier \<Rightarrow> integrity_verifier" where
  "verifier_update data v = v\<lparr>iv_data := iv_data v @ data\<rparr>"

definition verifier_finish ::
  "(sri_algo \<Rightarrow> string \<Rightarrow> string) \<Rightarrow> (string \<Rightarrow> string) \<Rightarrow> integrity_verifier \<Rightarrow> (tar_error, unit) result" where
  "verifier_finish digest b64 v =
     (let computed = b64 (digest (iv_algo v) (iv_data v))
      in ensure (computed \<in> set (iv_expected v)) Integrity_check_failed)"

definition verify_integrity ::
  "(sri_algo \<Rightarrow> string \<Rightarrow> string) \<Rightarrow> (string \<Rightarrow> string) \<Rightarrow> string \<Rightarrow> string \<Rightarrow> (tar_error, unit) result" where
  "verify_integrity digest b64 data sri =
     bind_result (verifier_new sri) (\<lambda>v. verifier_finish digest b64 (verifier_update data v))"

section \<open>Entry paths\<close>

text \<open>\<open>to_str\<close> of a path is its bytes when they are well-formed UTF-8.\<close>

definition utf8_cont :: "char \<Rightarrow> bool" where
  "utf8_cont c \<longleftrightarrow> 128 \<le> byte c \<and> byte c \<le> 191"

definition utf8_second :: "char \<Rightarrow> char \<Rightarrow> bool" where
  "utf8_second a b \<longleftrightarrow> utf8_cont b
     \<and> (byte a = 224 \<longrightarrow> 160 \<le> byte b) \<and> (byte a = 237 \<longrightarrow> byte b \<le> 159)
     \<and> (byte a = 240 \<longrightarrow> 144 \<le> byte b) \<and> (byte a = 244 \<longrightarrow> byte b \<le> 143)"

fun valid_utf8 :: "string \<Rightarrow> bool" where
  "valid_utf8 [] \<longleftrightarrow> True"
| "valid_utf8 (a # s) \<longleftrightarrow>
     (if byte a < 128 then valid_utf8 s
      else if 194 \<le> byte a \<and> byte a \<le> 223 then
        (case s of b # r \<Rightarrow> utf8_second a b \<and> valid_utf8 r | _ \<Rightarrow> False)
      else if 224 \<le> byte a \<and> byte a \<le> 239 then
        (case s of b # c # r \<Rightarrow> utf8_second a b \<and> utf8_cont c \<and> valid_utf8 r | _ \<Rightarrow> False)
      else if 240 \<le> byte a \<and> byte a \<le> 244 then
        (case s of b # c # d # r \<Rightarrow> utf8_second a b \<and> utf8_cont c \<and> utf8_cont d \<and> valid_utf8 r | _ \<Rightarrow> False)
      else False)"

definition collect_part :: "string \<Rightarrow> path_component \<Rightarrow> string list \<Rightarrow> (tar_error, string list) result" where
  "collect_part path c parts =
     (case c of
        Normal part \<Rightarrow>
          if \<not> valid_utf8 part then Inl Path_not_utf8
          else if part = [] then Inl Path_empty_component
          else Inr (parts @ [part])
      | CurDir \<Rightarrow> Inr parts
      | _ \<Rightarrow> Inl (Unsafe_tar_path path))"

definition sanitize_tar_path :: "string \<Rightarrow> tarball_limits \<Rightarrow> (tar_error, string list option) result" where
  "sanitize_tar_path path lim =
     bind_result (ensure (valid_utf8 path) Path_not_utf8) (\<lambda>_.
     bind_result (ensure (length path \<le> max_path_bytes lim) Path_too_long) (\<lambda>_.
     bind_result (fold_result (collect_part path) (path_components path) []) (\<lambda>parts.
     let relative_parts = drop 1 parts
     in if relative_parts = [] then Inr None
        else bind_result (ensure (length relative_parts \<le> max_path_components lim) Too_many_components) (\<lambda>_.
             Inr (Some relative_parts)))))"

definition npmignore :: "string list \<Rightarrow> string list" where
  "npmignore relative = (if last relative = ''.gitignore'' then butlast relative @ [''.npmignore''] else relative)"

section \<open>Extraction\<close>

record extract_state =
  xs_count :: nat
  xs_unpacked :: nat
  xs_root :: ftree
  xs_exec :: "string list list"

definition checked_add :: "nat \<Rightarrow> nat \<Rightarrow> nat option" where
  "checked_add a b = (if a + b < 2 ^ 64 then Some (a + b) else None)"

definition is_executable :: "tar_entry \<Rightarrow> bool" where
  "is_executable entry \<longleftrightarrow> (case en_mode entry of None \<Rightarrow> 420 | Some m \<Rightarrow> m) AND 73 \<noteq> 0"

definition write_entry ::
  "tarball_limits \<Rightarrow> string list \<Rightarrow> tar_entry \<Rightarrow> extract_state \<Rightarrow> (tar_error, unit) result \<times> extract_state" where
  "write_entry lim full_path entry st =
     (case checked_add (xs_unpacked st) (en_size entry) of
        None \<Rightarrow> (Inl Unpacked_overflow, st)
      | Some unpacked \<Rightarrow>
          let st = st\<lparr>xs_unpacked := unpacked\<rparr>
          in if max_unpacked_bytes lim < unpacked then (Inl (Unpacked_too_large unpacked), st)
             else case create_dir_all (butlast full_path) (xs_root st) of
               None \<Rightarrow> (Inl Parent_dir_failed, st)
             | Some root \<Rightarrow>
          (case create_file full_path (en_data entry) root of
               None \<Rightarrow> (Inl File_create_failed, st\<lparr>xs_root := root\<rparr>)
             | Some root \<Rightarrow>
                 let st = st\<lparr>xs_root := root\<rparr>
                 in if \<not> en_complete entry then (Inl File_write_failed, st)
                    else (Inr (), if is_executable entry then st\<lparr>xs_exec := xs_exec st @ [full_path]\<rparr> else st)))"

definition extract_entry ::
  "tarball_limits \<Rightarrow> string list \<Rightarrow> tar_entry option \<Rightarrow> extract_state \<Rightarrow> (tar_error, unit) result \<times> extract_state" where
  "extract_entry lim dest item st =
     (case checked_add (xs_count st) 1 of
        None \<Rightarrow> (Inl Entry_count_overflow, st)
      | Some n \<Rightarrow>
          let st = st\<lparr>xs_count := n\<rparr>
          in if max_entries lim < n then (Inl (Too_many_entries n), st)
             else case item of None \<Rightarrow> (Inl Corrupt_tar_entry, st)
             | Some entry \<Rightarrow>
          (case en_path entry of
               None \<Rightarrow> (Inl Invalid_tar_path, st)
             | Some path \<Rightarrow>
          (case sanitize_tar_path path lim of
               Inl e \<Rightarrow> (Inl e, st)
             | Inr None \<Rightarrow> (Inr (), st)
             | Inr (Some relative) \<Rightarrow>
          (case en_type entry of
               Directory \<Rightarrow> (Inr (), st)
             | Regular \<Rightarrow> write_entry lim (dest @ npmignore relative) entry st
             | Other_type _ \<Rightarrow> (Inl Unsupported_entry_type, st)))))"

fun extract_entries ::
  "tarball_limits \<Rightarrow> string list \<Rightarrow> tar_entry option list \<Rightarrow> extract_state \<Rightarrow> (tar_error, unit) result \<times> extract_state" where
  "extract_entries lim dest [] st = (Inr (), st)"
| "extract_entries lim dest (item # items) st =
     (case extract_entry lim dest item st of
        (Inl e, st') \<Rightarrow> (Inl e, st')
      | (Inr _, st') \<Rightarrow> extract_entries lim dest items st')"

definition extract_archive ::
  "tarball_limits \<Rightarrow> string list \<Rightarrow> tar_entry option list option \<Rightarrow> ftree \<times> string list list \<Rightarrow>
   (tar_error, unit) result \<times> (ftree \<times> string list list)" where
  "extract_archive lim dest archive fs =
     (case create_dir_all dest (fst fs) of
        None \<Rightarrow> (Inl Dest_failed, fs)
      | Some root \<Rightarrow>
          (case archive of
             None \<Rightarrow> (Inl Entries_unreadable, (root, snd fs))
           | Some items \<Rightarrow>
               (case extract_entries lim dest items \<lparr>xs_count = 0, xs_unpacked = 0, xs_root = root, xs_exec = snd fs\<rparr> of
                  (r, st) \<Rightarrow> (r, (xs_root st, xs_exec st)))))"

definition extract_tarball_limited ::
  "(string \<Rightarrow> tar_entry option list option) \<Rightarrow> string \<Rightarrow> string list \<Rightarrow> tarball_limits \<Rightarrow> ftree \<times> string list list \<Rightarrow>
   (tar_error, unit) result \<times> (ftree \<times> string list list)" where
  "extract_tarball_limited untar data dest lim fs =
     (case check_archive_size lim (length data) of
        Inl e \<Rightarrow> (Inl e, fs)
      | Inr _ \<Rightarrow> extract_archive lim dest (untar data) fs)"

definition extract_tarball ::
  "(string \<Rightarrow> env_var) \<Rightarrow> (string \<Rightarrow> tar_entry option list option) \<Rightarrow> string \<Rightarrow> string list \<Rightarrow> ftree \<times> string list list \<Rightarrow>
   (tar_error, unit) result \<times> (ftree \<times> string list list)" where
  "extract_tarball env untar data dest fs =
     (case limits_from_env env of
        Inl e \<Rightarrow> (Inl e, fs)
      | Inr lim \<Rightarrow> extract_tarball_limited untar data dest lim fs)"

text \<open>A tarball file is what stating and opening it gives: its length and what the tar reader yields.\<close>

definition extract_tarball_file_limited ::
  "(nat \<times> tar_entry option list option) option \<Rightarrow> string list \<Rightarrow> tarball_limits \<Rightarrow> ftree \<times> string list list \<Rightarrow>
   (tar_error, unit) result \<times> (ftree \<times> string list list)" where
  "extract_tarball_file_limited file dest lim fs =
     (case file of
        None \<Rightarrow> (Inl Stat_failed, fs)
      | Some (len, archive) \<Rightarrow>
          (case check_archive_size lim len of
             Inl e \<Rightarrow> (Inl e, fs)
           | Inr _ \<Rightarrow> extract_archive lim dest archive fs))"

definition extract_tarball_file ::
  "(string \<Rightarrow> env_var) \<Rightarrow> (nat \<times> tar_entry option list option) option \<Rightarrow> string list \<Rightarrow> ftree \<times> string list list \<Rightarrow>
   (tar_error, unit) result \<times> (ftree \<times> string list list)" where
  "extract_tarball_file env file dest fs =
     (case limits_from_env env of
        Inl e \<Rightarrow> (Inl e, fs)
      | Inr lim \<Rightarrow> extract_tarball_file_limited file dest lim fs)"

text \<open>The sum is a 64-bit one and wraps.\<close>

definition tarball_unpacked_size :: "(string \<Rightarrow> tar_entry option list option) \<Rightarrow> string \<Rightarrow> 64 word option" where
  "tarball_unpacked_size untar data =
     Option.bind (untar data) (\<lambda>items.
       if None \<in> set items then None
       else Some (fold (\<lambda>item total. total + word_of_nat (en_size (the item))) items 0))"

definition list_tarball :: "(string \<Rightarrow> tar_entry option list option) \<Rightarrow> string \<Rightarrow> string list list option" where
  "list_tarball untar data =
     Option.bind (untar data) (\<lambda>items.
       if None \<in> set items then None
       else Some (List.map_filter (\<lambda>entry.
              case en_path entry of
                None \<Rightarrow> None
              | Some path \<Rightarrow> (case sanitize_tar_path path default_limits of Inr (Some r) \<Rightarrow> Some r | _ \<Rightarrow> None))
            (map the items)))"

section \<open>What verification accepts\<close>

definition wellformed_token :: "string \<Rightarrow> bool" where
  "wellformed_token t \<longleftrightarrow> (\<exists>a e. t = a @ ''-'' @ e \<and> CHR ''-'' \<notin> set a \<and> e \<noteq> [])"

definition sri_token :: "sri_algo \<Rightarrow> string \<Rightarrow> string" where
  "sri_token a e = algo_name a @ ''-'' @ e"

fun strength :: "sri_algo \<Rightarrow> nat" where
  "strength Sha512 = 2"
| "strength Sha256 = 1"
| "strength Sha1 = 0"

lemma algo_name_no_dash [simp]: "CHR ''-'' \<notin> set (algo_name a)"
  by (cases a) simp_all

lemma algo_name_inj [simp]: "algo_name a = algo_name b \<longleftrightarrow> a = b"
  by (cases a; cases b) simp_all

lemma all_algo: "(\<forall>a. P a) \<longleftrightarrow> P Sha512 \<and> P Sha256 \<and> P Sha1"
  by (metis sri_algo.exhaust)

lemma wellformed_token_iff: "wellformed_token t \<longleftrightarrow> (\<exists>a e. split_first (CHR ''-'') t = Some (a, e) \<and> e \<noteq> [])"
  by (auto simp: wellformed_token_def split_first_Some)

lemma collect_token_Inr:
  "collect_token t f = Inr g \<longleftrightarrow> wellformed_token t
     \<and> g = (\<lambda>a. f a @ (if \<exists>e. t = sri_token a e then [drop (length (algo_name a) + 1) t] else []))"
proof (cases "split_first (CHR ''-'') t")
  case None
  moreover have "CHR ''-'' \<notin> set t" using None by (simp add: split_first_None)
  ultimately show ?thesis by (auto simp: collect_token_def wellformed_token_def)
next
  case (Some p)
  obtain a e where p: "p = (a, e)" by (cases p)
  then have t: "t = a @ ''-'' @ e" "CHR ''-'' \<notin> set a" using Some by (simp_all add: split_first_Some)
  have "wellformed_token t \<longleftrightarrow> e \<noteq> []" using Some p by (simp add: wellformed_token_iff)
  moreover have "(\<exists>e'. t = sri_token b e') \<longleftrightarrow> a = algo_name b" for b
  proof
    assume "\<exists>e'. t = sri_token b e'"
    then obtain e' where "split_first (CHR ''-'') t = Some (algo_name b, e')"
      by (auto simp: sri_token_def split_first_Some)
    then show "a = algo_name b" using Some p by simp
  qed (use t in \<open>auto simp: sri_token_def\<close>)
  moreover have "drop (length (algo_name b) + 1) t = e" if "a = algo_name b" for b using t that by simp
  ultimately have "(\<lambda>b. f b @ (if \<exists>e. t = sri_token b e then [drop (length (algo_name b) + 1) t] else []))
      = (\<lambda>b. f b @ (if a = algo_name b then [e] else []))" "wellformed_token t \<longleftrightarrow> e \<noteq> []" by auto
  moreover have "collect_token t f = (if e = [] then Inl (Invalid_sri t) else Inr (\<lambda>b. f b @ (if a = algo_name b then [e] else [])))"
    using Some p by (auto simp: collect_token_def fun_eq_iff all_algo)
  ultimately show ?thesis by auto
qed

definition expected_of :: "sri_algo \<Rightarrow> string list \<Rightarrow> string list" where
  "expected_of a ts = List.map_filter (\<lambda>t. if \<exists>e. t = sri_token a e then Some (drop (length (algo_name a) + 1) t) else None) ts"

lemma collect_tokens_Inr:
  "fold_result collect_token ts f = Inr g \<longleftrightarrow>
     (\<forall>t\<in>set ts. wellformed_token t) \<and> g = (\<lambda>a. f a @ expected_of a ts)"
proof (induction ts arbitrary: f)
  case Nil
  then show ?case by (auto simp: expected_of_def map_filter_simps)
next
  case (Cons t ts)
  have "f a @ expected_of a (t # ts)
      = (f a @ (if \<exists>e. t = sri_token a e then [drop (length (algo_name a) + 1) t] else [])) @ expected_of a ts" for a
    by (simp add: expected_of_def map_filter_simps)
  then show ?case by (auto simp: bind_result_Inr_iff collect_token_Inr Cons)
qed

lemma in_expected_of: "x \<in> set (expected_of a ts) \<longleftrightarrow> sri_token a x \<in> set ts"
proof
  assume "sri_token a x \<in> set ts"
  then show "x \<in> set (expected_of a ts)"
    unfolding expected_of_def in_map_filter by (rule bexI[rotated]) (auto simp: sri_token_def)
qed (auto simp: expected_of_def in_map_filter sri_token_def split: if_splits)

lemma expected_of_Nil: "expected_of a ts = [] \<longleftrightarrow> (\<nexists>e. sri_token a e \<in> set ts)"
  using in_expected_of by (metis all_not_in_conv set_empty)

lemma verifier_new_Inr:
  "verifier_new sri = Inr v \<longleftrightarrow> (\<forall>t\<in>set (split_whitespace sri). wellformed_token t)
     \<and> v = \<lparr>iv_algo = iv_algo v, iv_data = [], iv_expected = expected_of (iv_algo v) (split_whitespace sri)\<rparr>
     \<and> expected_of (iv_algo v) (split_whitespace sri) \<noteq> []
     \<and> (\<forall>a. strength (iv_algo v) < strength a \<longrightarrow> expected_of a (split_whitespace sri) = [])"
proof -
  let ?e = "\<lambda>a. expected_of a (split_whitespace sri)"
  have all: "(\<forall>a. strength b < strength a \<longrightarrow> ?e a = []) \<longleftrightarrow>
      (b = Sha512 \<or> ?e Sha512 = []) \<and> (b = Sha1 \<longrightarrow> ?e Sha256 = [])" for b
    unfolding all_algo by (cases b) simp_all
  show ?thesis
    unfolding all by (cases "iv_algo v"; cases v) (auto simp: verifier_new_def bind_result_Inr_iff collect_tokens_Inr)
qed

text \<open>
  C20: a download passes exactly when every digest of its integrity string is well formed and the strongest supported
  algorithm the string names lists the digest of the bytes; a matching digest of a weaker
  algorithm never lets a mismatch of a stronger one pass. Hashing the download in chunks decides the same.
\<close>

theorem verify_integrity_strongest:
  "(verify_integrity digest b64 data sri = Inr () \<longleftrightarrow>
      (\<forall>t\<in>set (split_whitespace sri). wellformed_token t)
      \<and> (\<exists>a. sri_token a (b64 (digest a data)) \<in> set (split_whitespace sri)
           \<and> (\<forall>a' e. strength a < strength a' \<longrightarrow> sri_token a' e \<notin> set (split_whitespace sri))))
   \<and> bind_result (verifier_new sri) (\<lambda>v. verifier_finish digest b64 (fold verifier_update chunks v))
     = verify_integrity digest b64 (concat chunks) sri"
proof -
  have "verify_integrity digest b64 data sri = Inr () \<longleftrightarrow>
      (\<exists>v. verifier_new sri = Inr v \<and> b64 (digest (iv_algo v) (iv_data v @ data)) \<in> set (iv_expected v))"
    by (auto simp: verify_integrity_def bind_result_Inr_iff verifier_finish_def verifier_update_def Let_def)
  also have "\<dots> \<longleftrightarrow> (\<forall>t\<in>set (split_whitespace sri). wellformed_token t)
      \<and> (\<exists>a. sri_token a (b64 (digest a data)) \<in> set (split_whitespace sri)
           \<and> (\<forall>a'. strength a < strength a' \<longrightarrow> expected_of a' (split_whitespace sri) = []))" (is "?l \<longleftrightarrow> ?r")
  proof
    assume ?l
    then obtain v where v: "verifier_new sri = Inr v" "b64 (digest (iv_algo v) (iv_data v @ data)) \<in> set (iv_expected v)" by blast
    from v(1) have s: "iv_data v = []" "iv_expected v = expected_of (iv_algo v) (split_whitespace sri)"
      unfolding verifier_new_Inr by (metis integrity_verifier.select_convs(2,3))+
    then have "sri_token (iv_algo v) (b64 (digest (iv_algo v) data)) \<in> set (split_whitespace sri)"
      using v(2) in_expected_of by simp
    then show ?r using v(1) unfolding verifier_new_Inr by blast
  next
    assume r: ?r
    then obtain a where a: "sri_token a (b64 (digest a data)) \<in> set (split_whitespace sri)"
      "\<forall>a'. strength a < strength a' \<longrightarrow> expected_of a' (split_whitespace sri) = []" by blast
    let ?v = "\<lparr>iv_algo = a, iv_data = [], iv_expected = expected_of a (split_whitespace sri)\<rparr>"
    have "expected_of a (split_whitespace sri) \<noteq> []" using a(1) expected_of_Nil by blast
    then have "verifier_new sri = Inr ?v" using r a(2) by (simp add: verifier_new_Inr)
    moreover have "b64 (digest (iv_algo ?v) (iv_data ?v @ data)) \<in> set (iv_expected ?v)" using a(1) in_expected_of by simp
    ultimately show ?l by blast
  qed
  finally have "verify_integrity digest b64 data sri = Inr () \<longleftrightarrow>
      (\<forall>t\<in>set (split_whitespace sri). wellformed_token t)
      \<and> (\<exists>a. sri_token a (b64 (digest a data)) \<in> set (split_whitespace sri)
           \<and> (\<forall>a' e. strength a < strength a' \<longrightarrow> sri_token a' e \<notin> set (split_whitespace sri)))"
    by (simp add: expected_of_Nil)
  moreover have "fold verifier_update chunks v = verifier_update (concat chunks) v" for v
    by (induction chunks arbitrary: v) (simp_all add: verifier_update_def)
  then have "bind_result (verifier_new sri) (\<lambda>v. verifier_finish digest b64 (fold verifier_update chunks v))
     = verify_integrity digest b64 (concat chunks) sri" by (simp add: verify_integrity_def)
  ultimately show ?thesis by blast
qed

theorem verify_integrity_strongest_witness:
  "verify_integrity (\<lambda>a d. d) (\<lambda>d. d) ''x'' ''sha1-x sha512-x'' = Inr ()
   \<and> verify_integrity (\<lambda>a d. d) (\<lambda>d. d) ''x'' ''sha1-x sha512-y'' \<noteq> Inr ()"
proof -
  have s: "split_whitespace ''sha1-x sha512-x'' = [''sha1-x'', ''sha512-x'']"
    "split_whitespace ''sha1-x sha512-y'' = [''sha1-x'', ''sha512-y'']" by code_simp+
  have w: "wellformed_token ''sha1-x''" "wellformed_token ''sha512-x''"
    by (simp_all add: wellformed_token_iff)
  have t: "sri_token Sha512 ''x'' = ''sha512-x''" "sri_token Sha512 ''y'' = ''sha512-y''" by (simp_all add: sri_token_def)
  have "\<not> strength Sha512 < strength a" for a by (cases a) simp_all
  then have "verify_integrity (\<lambda>a d. d) (\<lambda>d. d) ''x'' ''sha1-x sha512-x'' = Inr ()"
    using verify_integrity_strongest[of "\<lambda>a d. d" "\<lambda>d. d" "''x''" "''sha1-x sha512-x''" "[]"] w t(1) by (auto simp: s)
  moreover have "\<not> (sri_token a ''x'' \<in> {''sha1-x'', ''sha512-y''}
      \<and> (\<forall>a' e. strength a < strength a' \<longrightarrow> sri_token a' e \<notin> {''sha1-x'', ''sha512-y''}))" for a
  proof (cases a)
    case Sha1
    have "strength Sha1 < strength Sha512" by simp
    then show ?thesis using t(2) Sha1 by (metis insertI1 insertI2 singletonI)
  qed (simp_all add: sri_token_def)
  then have "verify_integrity (\<lambda>a d. d) (\<lambda>d. d) ''x'' ''sha1-x sha512-y'' \<noteq> Inr ()"
    using verify_integrity_strongest[of "\<lambda>a d. d" "\<lambda>d. d" "''x''" "''sha1-x sha512-y''" "[]"] by (auto simp: s)
  ultimately show ?thesis by blast
qed

section \<open>What extraction writes\<close>

definition entry_target :: "tarball_limits \<Rightarrow> tar_entry option \<Rightarrow> (string list \<times> string) option" where
  "entry_target lim item =
     Option.bind item (\<lambda>e. Option.bind (en_path e) (\<lambda>path.
       case sanitize_tar_path path lim of
         Inr (Some r) \<Rightarrow> if en_type e = Regular then Some (npmignore r, en_data e) else None
       | _ \<Rightarrow> None))"

definition targets :: "tarball_limits \<Rightarrow> tar_entry option list \<Rightarrow> (string list \<times> string) list" where
  "targets lim items = List.map_filter (entry_target lim) items"

lemma targets_Cons:
  "targets lim (item # items) = (case entry_target lim item of None \<Rightarrow> [] | Some x \<Rightarrow> [x]) @ targets lim items"
  by (simp add: targets_def map_filter_simps split: option.splits)

lemma targets_Nil [simp]: "targets lim [] = []"
  by (simp add: targets_def map_filter_simps)

lemma collect_parts_names:
  "fold_result (collect_part path) cs acc = Inr ps \<Longrightarrow> set ps \<subseteq> set acc \<union> {n. Normal n \<in> set cs}"
proof (induction cs arbitrary: acc)
  case (Cons c cs)
  then obtain b where b: "collect_part path c acc = Inr b" "fold_result (collect_part path) cs b = Inr ps"
    by (auto simp: bind_result_Inr_iff)
  have "set b \<subseteq> set acc \<union> {n. Normal n = c}"
    using b(1) by (auto simp: collect_part_def split: path_component.splits if_splits)
  then show ?case using Cons.IH[OF b(2)] by auto
qed simp

lemma sanitize_Some:
  assumes "sanitize_tar_path path lim = Inr (Some r)"
  shows "r \<noteq> []" "length r \<le> max_path_components lim" "\<forall>n\<in>set r. safe_name n"
proof -
  obtain parts where p: "fold_result (collect_part path) (path_components path) [] = Inr parts"
    and r: "r = drop 1 parts" "r \<noteq> []" "length r \<le> max_path_components lim"
    using assms by (auto simp: sanitize_tar_path_def bind_result_Inr_iff Let_def split: if_splits)
  show "r \<noteq> []" "length r \<le> max_path_components lim" using r by simp_all
  have "set r \<subseteq> {n. Normal n \<in> set (path_components path)}"
    using collect_parts_names[OF p] r(1) set_drop_subset[of 1 parts] by auto
  then show "\<forall>n\<in>set r. safe_name n" using component_name by (fastforce simp: safe_name_def)
qed

lemma npmignore_props:
  assumes "r \<noteq> []" "\<forall>n\<in>set r. safe_name n"
  shows "npmignore r \<noteq> []" "length (npmignore r) = length r" "\<forall>n\<in>set (npmignore r). safe_name n"
  using assms by (auto simp: npmignore_def safe_name_def dest: in_set_butlastD)

lemma entry_target_Some:
  "entry_target lim item = Some (p, d) \<longleftrightarrow>
     (\<exists>e path r. item = Some e \<and> en_path e = Some path \<and> sanitize_tar_path path lim = Inr (Some r)
        \<and> en_type e = Regular \<and> p = npmignore r \<and> d = en_data e)"
proof (cases item)
  case (Some e)
  show ?thesis
  proof (cases "en_path e")
    case p: (Some path)
    show ?thesis
    proof (cases "sanitize_tar_path path lim")
      case (Inr r)
      then show ?thesis using Some p by (cases r) (auto simp: entry_target_def)
    qed (use Some p in \<open>simp add: entry_target_def\<close>)
  qed (use Some in \<open>simp add: entry_target_def\<close>)
qed (simp add: entry_target_def)

lemma entry_target_safe:
  assumes "entry_target lim item = Some (p, d)"
  shows "p \<noteq> [] \<and> length p \<le> max_path_components lim \<and> (\<forall>n\<in>set p. safe_name n)"
proof -
  obtain path r where s: "sanitize_tar_path path lim = Inr (Some r)" and p: "p = npmignore r"
    using assms by (auto simp: entry_target_Some)
  show ?thesis using npmignore_props[OF sanitize_Some(1,3)[OF s]] sanitize_Some(2)[OF s] p by simp
qed

lemma write_entry_cases:
  assumes "write_entry lim q e st = (res, st')"
  obtains (skip) "tree_files (xs_root st') = tree_files (xs_root st)" "res \<noteq> Inr ()"
  | (wrote) "tree_files (xs_root st') = (tree_files (xs_root st))(q \<mapsto> en_data e)"
      "xs_unpacked st' = xs_unpacked st + en_size e" "xs_unpacked st' \<le> max_unpacked_bytes lim" "xs_count st' = xs_count st"
proof (cases "checked_add (xs_unpacked st) (en_size e)")
  case None
  then show ?thesis using assms skip by (auto simp: write_entry_def)
next
  case (Some n)
  then have n: "n = xs_unpacked st + en_size e" by (simp add: checked_add_def split: if_splits)
  show ?thesis
  proof (cases "max_unpacked_bytes lim < n")
    case True
    then show ?thesis using assms Some skip by (auto simp: write_entry_def Let_def)
  next
    case le: False
    show ?thesis
    proof (cases "create_dir_all (butlast q) (xs_root st)")
      case None
      then show ?thesis using assms Some le skip by (auto simp: write_entry_def Let_def)
    next
      case r: (Some root)
      show ?thesis
      proof (cases "create_file q (en_data e) root")
        case None
        then show ?thesis using assms Some le r skip tree_files_create_dir_all[OF r] by (auto simp: write_entry_def Let_def)
      next
        case w: (Some root2)
        then have "xs_root st' = root2 \<and> xs_unpacked st' = n \<and> xs_count st' = xs_count st"
          using assms Some le r by (auto simp: write_entry_def Let_def split: if_splits)
        then show ?thesis using wrote n le tree_files_create_file[OF w] tree_files_create_dir_all[OF r] by simp
      qed
    qed
  qed
qed

lemma extract_entry_cases:
  assumes "extract_entry lim dest item st = (res, st')"
  obtains (skip) "tree_files (xs_root st') = tree_files (xs_root st)"
      "res = Inr () \<Longrightarrow> entry_target lim item = None \<and> xs_unpacked st' = xs_unpacked st
         \<and> xs_count st' = xs_count st + 1 \<and> xs_count st' \<le> max_entries lim"
  | (wrote) e p where "item = Some e" "entry_target lim item = Some (p, en_data e)"
      "tree_files (xs_root st') = (tree_files (xs_root st))(dest @ p \<mapsto> en_data e)"
      "xs_unpacked st' = xs_unpacked st + en_size e" "xs_unpacked st' \<le> max_unpacked_bytes lim"
      "xs_count st' = xs_count st + 1" "xs_count st' \<le> max_entries lim"
proof (cases "checked_add (xs_count st) 1")
  case None
  then show ?thesis using assms skip by (auto simp: extract_entry_def)
next
  case (Some n)
  then have n: "n = xs_count st + 1" by (simp add: checked_add_def split: if_splits)
  let ?st = "st\<lparr>xs_count := n\<rparr>"
  consider (none) "res \<noteq> Inr ()" "xs_root st' = xs_root st"
    | (keep) "res = Inr ()" "st' = ?st" "entry_target lim item = None" "n \<le> max_entries lim"
    | (put) e p where "item = Some e" "entry_target lim item = Some (p, en_data e)"
        "write_entry lim (dest @ p) e ?st = (res, st')" "n \<le> max_entries lim"
  proof (cases "max_entries lim < n")
    case True
    then show ?thesis using assms Some none by (auto simp: extract_entry_def Let_def)
  next
    case le: False
    show ?thesis
    proof (cases item)
      case i: (Some e)
      show ?thesis
      proof (cases "en_path e")
        case p: (Some path)
        show ?thesis
        proof (cases "sanitize_tar_path path lim")
          case (Inr r)
          show ?thesis
          proof (cases r)
            case None
            then show ?thesis using assms Some le i p Inr keep by (auto simp: extract_entry_def Let_def entry_target_def)
          next
            case rr: (Some rel)
            show ?thesis
            proof (cases "en_type e")
              case Regular
              have "entry_target lim item = Some (npmignore rel, en_data e)"
                unfolding entry_target_Some using i p Inr rr Regular by blast
              then show ?thesis using assms Some le i p Inr rr Regular put by (auto simp: extract_entry_def Let_def)
            qed (use assms Some le i p Inr rr keep none in \<open>auto simp: extract_entry_def Let_def entry_target_def\<close>)
          qed
        qed (use assms Some le i p none in \<open>auto simp: extract_entry_def Let_def\<close>)
      qed (use assms Some le i none in \<open>auto simp: extract_entry_def Let_def\<close>)
    qed (use assms Some le none in \<open>auto simp: extract_entry_def Let_def\<close>)
  qed
  then show ?thesis
  proof cases
    case (put e p)
    from put(3) show ?thesis
    proof (cases rule: write_entry_cases)
      case skip
      then show ?thesis using that(1) by simp
    next
      case wrote
      then show ?thesis using that(2)[OF put(1,2)] put(4) n by simp
    qed
  qed (use skip n in simp_all)
qed

lemma extract_entries_spec:
  assumes "extract_entries lim dest items st = (res, st')"
    and "\<forall>e. Some e \<in> set items \<longrightarrow> length (en_data e) \<le> en_size e"
  shows "\<exists>n \<le> length items. (res = Inr () \<longrightarrow> n = length items) \<and> (n = 0 \<or> xs_count st + n \<le> max_entries lim)
    \<and> tree_files (xs_root st') = tree_files (xs_root st) ++ map_of (rev (map (\<lambda>(p, d). (dest @ p, d)) (targets lim (take n items))))
    \<and> (targets lim (take n items) = [] \<or>
        xs_unpacked st + sum_list (map (length \<circ> snd) (targets lim (take n items))) \<le> max_unpacked_bytes lim)"
  using assms
proof (induction items arbitrary: st)
  case (Cons item items)
  obtain r1 st1 where e: "extract_entry lim dest item st = (r1, st1)" by fastforce
  have sz: "\<forall>e. Some e \<in> set items \<longrightarrow> length (en_data e) \<le> en_size e" using Cons.prems(2) by simp
  from e show ?case
  proof (cases rule: extract_entry_cases)
    case skip
    show ?thesis
    proof (cases r1)
      case (Inl err)
      then show ?thesis using Cons.prems(1) e skip(1) by (intro exI[of _ 0]) auto
    next
      case (Inr u)
      then have s: "entry_target lim item = None" "xs_unpacked st1 = xs_unpacked st" "xs_count st1 = xs_count st + 1"
        "xs_count st1 \<le> max_entries lim" using skip(2) by simp_all
      have "extract_entries lim dest items st1 = (res, st')" using Cons.prems(1) e Inr by simp
      from Cons.IH[OF this sz] obtain n where "n \<le> length items" "res = Inr () \<longrightarrow> n = length items"
        "n = 0 \<or> xs_count st1 + n \<le> max_entries lim"
        "tree_files (xs_root st') = tree_files (xs_root st) ++ map_of (rev (map (\<lambda>(p, d). (dest @ p, d)) (targets lim (take n items))))"
        "targets lim (take n items) = [] \<or>
          xs_unpacked st + sum_list (map (length \<circ> snd) (targets lim (take n items))) \<le> max_unpacked_bytes lim"
        unfolding skip(1) s(2) by blast
      then show ?thesis using s by (intro exI[of _ "Suc n"]) (auto simp: targets_Cons comp_def)
    qed
  next
    case (wrote e0 p)
    have le: "length (en_data e0) \<le> en_size e0" using Cons.prems(2) wrote(1) by simp
    show ?thesis
    proof (cases r1)
      case (Inl err)
      then have "res = Inl err" "st' = st1" using Cons.prems(1) e by simp_all
      then show ?thesis using wrote le
        by (intro exI[of _ "Suc 0"]) (auto simp: targets_Cons map_add_def fun_eq_iff split: option.splits)
    next
      case (Inr u)
      then have "extract_entries lim dest items st1 = (res, st')" using Cons.prems(1) e by simp
      from Cons.IH[OF this sz] obtain n where n: "n \<le> length items" "res = Inr () \<longrightarrow> n = length items"
        "n = 0 \<or> xs_count st1 + n \<le> max_entries lim"
        "tree_files (xs_root st') = tree_files (xs_root st1) ++ map_of (rev (map (\<lambda>(p, d). (dest @ p, d)) (targets lim (take n items))))"
        "targets lim (take n items) = [] \<or>
          xs_unpacked st1 + sum_list (map (length \<circ> snd) (targets lim (take n items))) \<le> max_unpacked_bytes lim" by blast
      have "tree_files (xs_root st') = tree_files (xs_root st)
          ++ map_of (rev (map (\<lambda>(p, d). (dest @ p, d)) (targets lim (take (Suc n) (item # items)))))"
        using n(4) wrote(2,3) by (auto simp: targets_Cons map_add_def fun_eq_iff split: option.splits)
      then show ?thesis using n wrote le by (intro exI[of _ "Suc n"]) (auto simp: targets_Cons comp_def)
    qed
  qed
qed simp

lemma extract_entry_outside:
  assumes "extract_entry lim dest item st = (res, st')" "disjoint_paths dest q" "dest \<noteq> []"
  shows "tree_lookup q (xs_root st') = tree_lookup q (xs_root st)"
proof -
  have d: "disjoint_paths (dest @ p) q" "\<not> prefix q (butlast (dest @ p))" for p
  proof -
    show "disjoint_paths (dest @ p) q" using assms(2) by (auto simp: disjoint_paths_def prefix_append dest: append_prefixD)
    then show "\<not> prefix q (butlast (dest @ p))"
      by (metis disjoint_paths_def prefix_order.trans prefixeq_butlast)
  qed
  have w: "tree_lookup q (xs_root s') = tree_lookup q (xs_root s)" if "write_entry lim (dest @ p) e s = (r, s')" for p e s r s'
    using that create_dir_all_other[OF _ d(2)] create_file_other[OF _ d(1)]
    by (auto simp: write_entry_def Let_def split: option.splits if_splits)
  show ?thesis using assms(1) w
    by (auto simp: extract_entry_def Let_def split: option.splits if_splits sum.splits entry_type.splits)
qed

lemma extract_entries_outside:
  assumes "extract_entries lim dest items st = (res, st')" "disjoint_paths dest q" "dest \<noteq> []"
  shows "tree_lookup q (xs_root st') = tree_lookup q (xs_root st)"
  using assms(1)
proof (induction items arbitrary: st)
  case (Cons item items)
  obtain r1 st1 where e: "extract_entry lim dest item st = (r1, st1)" by fastforce
  have "tree_lookup q (xs_root st') = tree_lookup q (xs_root st1)" using Cons e by (cases r1) auto
  then show ?case using extract_entry_outside[OF e assms(2,3)] by simp
qed simp

text \<open>Extraction makes files and directories only: what is neither afterwards was there before.\<close>

lemma put_no_special:
  assumes "tree_put p v t = Some t'" "\<And>q x. tree_lookup q v \<noteq> Some (Special x)" "tree_lookup q t' = Some (Special x)"
  shows "tree_lookup q t = Some (Special x)"
  using assms
proof (induction p v t arbitrary: t' q rule: tree_put.induct)
  case (2 n ns v es)
  let ?s = "case map_of es n of None \<Rightarrow> Dir [] | Some t \<Rightarrow> t"
  obtain s where s: "tree_put ns v ?s = Some s" and t': "t' = Dir (hm_insert n s es)" using "2.prems"(1) by auto
  obtain m ms where q: "q = m # ms" using "2.prems"(3) t' by (cases q) auto
  show ?case
  proof (cases "m = n")
    case True
    then have "tree_lookup ms ?s = Some (Special x)" using "2.IH"[OF s "2.prems"(2)] "2.prems"(3) q t' by simp
    then show ?thesis using q True by (cases "map_of es n"; cases ms) simp_all
  qed (use "2.prems"(3) q t' in simp)
qed auto

lemma lookup_leaf_special: "tree_lookup q (File d) \<noteq> Some (Special x)" "tree_lookup q (Dir []) \<noteq> Some (Special x)"
  by (cases q; simp)+

lemma create_no_special:
  "create_dir_all p t = Some t' \<Longrightarrow> tree_lookup q t' = Some (Special x) \<Longrightarrow> tree_lookup q t = Some (Special x)"
  "create_file p d t = Some t' \<Longrightarrow> tree_lookup q t' = Some (Special x) \<Longrightarrow> tree_lookup q t = Some (Special x)"
  by (auto simp: create_dir_all_def create_file_def lookup_leaf_special split: option.splits ftree.splits
      elim!: put_no_special[of p "Dir []"] put_no_special[of p "File d"])

lemma extract_no_special:
  assumes "extract_entries lim dest items st = (res, st')" "tree_lookup q (xs_root st') = Some (Special x)"
  shows "tree_lookup q (xs_root st) = Some (Special x)"
  using assms(1)
proof (induction items arbitrary: st)
  case (Cons item items)
  obtain r1 st1 where e: "extract_entry lim dest item st = (r1, st1)" by fastforce
  have l: "tree_lookup q (xs_root st1) = Some (Special x)" using Cons e assms(2) by (cases r1) auto
  have w: "tree_lookup q (xs_root s) = Some (Special x)"
    if "write_entry lim p y s = (r, s')" "tree_lookup q (xs_root s') = Some (Special x)" for p y s r s'
    using that create_no_special by (auto simp: write_entry_def Let_def split: option.splits if_splits)
  show ?case using e l
    by (auto simp: extract_entry_def Let_def split: option.splits if_splits sum.splits entry_type.splits dest!: w)
qed (use assms(2) in simp)

lemma targets_safe:
  "(p, d) \<in> set (targets lim items) \<Longrightarrow> p \<noteq> [] \<and> length p \<le> max_path_components lim \<and> (\<forall>n\<in>set p. safe_name n)"
  unfolding targets_def in_map_filter using entry_target_safe by blast

text \<open>
  C19: extraction into a directory without symbolic links never leaves it, whatever paths, types and links the archive has and however it ends: nothing outside the directory
  changes, and a file that is new or different afterwards is below it, under names that are neither
  empty, nor a dot or a double dot, nor contain a slash, and not deeper than the limit. Nor does it make a link: the directory has none afterwards. The conditions are that
  before the call neither the directory nor a place on the way to it or below it is a link or another special file, because creating a file there would follow it, and
  that the tar reader yields at most the size in an entry's header.
\<close>

theorem extract_archive_contained:
  assumes "extract_archive lim dest archive (root, ex) = (res, (root', ex'))" and "dest \<noteq> []"
    and "\<forall>items e. archive = Some items \<and> Some e \<in> set items \<longrightarrow> length (en_data e) \<le> en_size e"
    and links: "\<forall>q x. tree_lookup q root = Some (Special x) \<longrightarrow> disjoint_paths dest q"
  shows "(\<forall>q x. tree_lookup q root' = Some (Special x) \<longrightarrow> disjoint_paths dest q)
    \<and> (\<forall>q. disjoint_paths dest q \<longrightarrow> tree_lookup q root' = tree_lookup q root)
    \<and> (\<forall>q. tree_files root' q \<noteq> tree_files root q \<longrightarrow>
         (\<exists>p. q = dest @ p \<and> p \<noteq> [] \<and> length p \<le> max_path_components lim \<and> (\<forall>n\<in>set p. safe_name n)))"
proof (cases "create_dir_all dest root")
  case None
  then show ?thesis using assms(1) links by (simp add: extract_archive_def)
next
  case (Some r0)
  have links0: "\<forall>q x. tree_lookup q r0 = Some (Special x) \<longrightarrow> disjoint_paths dest q"
    using links create_no_special(1)[OF Some] by blast
  have out: "tree_lookup q r0 = tree_lookup q root" if "disjoint_paths dest q" for q
    using create_dir_all_other[OF Some] that by (simp add: disjoint_paths_def)
  show ?thesis
  proof (cases archive)
    case None
    then have "root' = r0" using assms(1) Some by (simp add: extract_archive_def)
    then show ?thesis using out links0 tree_files_create_dir_all[OF Some] by simp
  next
    case a: (Some items)
    let ?st = "\<lparr>xs_count = 0, xs_unpacked = 0, xs_root = r0, xs_exec = ex\<rparr>"
    obtain st where st: "extract_entries lim dest items ?st = (res, st)" "root' = xs_root st"
      using assms(1) Some a by (auto simp: extract_archive_def split: prod.splits)
    have "tree_lookup q root' = tree_lookup q root" if "disjoint_paths dest q" for q
      using extract_entries_outside[OF st(1) that assms(2)] out[OF that] st(2) by simp
    moreover have "\<exists>p. q = dest @ p \<and> p \<noteq> [] \<and> length p \<le> max_path_components lim \<and> (\<forall>n\<in>set p. safe_name n)"
      if diff: "tree_files root' q \<noteq> tree_files root q" for q
    proof -
      have sz: "\<forall>e. Some e \<in> set items \<longrightarrow> length (en_data e) \<le> en_size e" using assms(3) a by blast
      obtain n where "tree_files root' = tree_files root ++ map_of (rev (map (\<lambda>(p, d). (dest @ p, d)) (targets lim (take n items))))"
        using extract_entries_spec[OF st(1) sz] st(2) tree_files_create_dir_all[OF Some] by auto
      then have "map_of (rev (map (\<lambda>(p, d). (dest @ p, d)) (targets lim (take n items)))) q \<noteq> None"
        using diff by (auto simp: map_add_def split: option.splits)
      then obtain p d where "(p, d) \<in> set (targets lim (take n items))" "q = dest @ p"
        by (auto simp: map_of_eq_None_iff)
      then show ?thesis using targets_safe by blast
    qed
    moreover have "\<forall>q x. tree_lookup q root' = Some (Special x) \<longrightarrow> disjoint_paths dest q"
      using extract_no_special[OF st(1)] st(2) links0 by auto
    ultimately show ?thesis by blast
  qed
qed

definition sample_tar_entry :: "string \<Rightarrow> tar_entry" where
  "sample_tar_entry path = \<lparr>en_path = Some path, en_type = Regular, en_size = 2, en_mode = None, en_data = ''ok'', en_complete = True\<rparr>"

lemma sample_paths:
  "sanitize_tar_path ''package/a'' default_limits = Inr (Some [''a''])"
  "sanitize_tar_path ''package/../b'' default_limits = Inl (Unsafe_tar_path ''package/../b'')"
  by (simp_all add: sanitize_tar_path_def default_limits_def path_components_def is_absolute_def body_components_def
      plain_component_def collect_part_def byte_def Let_def)

lemma sample_extract:
  "extract_archive default_limits [''d''] (Some [Some (sample_tar_entry ''package/a''), Some (sample_tar_entry ''package/../b'')]) (Dir [], [])
   = (Inl (Unsafe_tar_path ''package/../b''), (Dir [(''d'', Dir [(''a'', File ''ok'')])], []))"
  by (simp add: extract_archive_def create_dir_all_def extract_entry_def checked_add_def sample_tar_entry_def sample_paths
      write_entry_def npmignore_def create_file_def hm_insert_def is_executable_def default_limits_def[THEN arg_cong, of max_entries]
      default_limits_def[THEN arg_cong, of max_unpacked_bytes] Let_def)

theorem extract_archive_contained_witness:
  "tree_files (Dir [(''d'', Dir [(''a'', File ''ok'')])]) [''d'', ''a''] = Some ''ok''
   \<and> (\<exists>p. [''d'', ''a''] = [''d''] @ p \<and> length p \<le> max_path_components default_limits)"
proof -
  have t: "tree_files (Dir [(''d'', Dir [(''a'', File ''ok'')])]) [''d'', ''a''] = Some ''ok''" "tree_files (Dir []) [''d'', ''a''] = None"
    by (simp_all add: tree_files_def)
  have sz: "\<forall>items e. Some [Some (sample_tar_entry ''package/a''), Some (sample_tar_entry ''package/../b'')] = Some items
      \<and> Some e \<in> set items \<longrightarrow> length (en_data e) \<le> en_size e" by (auto simp: sample_tar_entry_def)
  have nl: "\<forall>q x. tree_lookup q (Dir []) = Some (Special x) \<longrightarrow> disjoint_paths [''d''] q" by (simp add: lookup_leaf_special)
  note c = extract_archive_contained[OF sample_extract not_Cons_self2 sz nl, THEN conjunct2, THEN conjunct2, THEN spec[of _ "[''d'', ''a'']"]]
  have "\<exists>p. [''d'', ''a''] = [''d''] @ p \<and> p \<noteq> [] \<and> length p \<le> max_path_components default_limits \<and> (\<forall>n\<in>set p. safe_name n)"
    by (rule c[THEN mp]) (use t in simp)
  then show ?thesis using t by blast
qed

text \<open>
  C35: what is extracted is what the archive says, within the limits, also when extraction stops at an error: it has processed
  the first \<open>n\<close> entries, all of them on success, never more than the entry limit; the files are those that were
  there before, overridden by the regular entries in order, a later one replacing an earlier one of the same path, and their
  bytes together are within the size limit. The condition on the archive is that the tar reader yields at most the size in the header.
\<close>

theorem extract_archive_exact:
  assumes "extract_archive lim dest (Some items) (root, ex) = (res, (root', ex'))"
    and "\<forall>e. Some e \<in> set items \<longrightarrow> length (en_data e) \<le> en_size e"
  shows "\<exists>n \<le> length items. n \<le> max_entries lim \<and> (res = Inr () \<longrightarrow> n = length items)
    \<and> tree_files root' = tree_files root ++ map_of (rev (map (\<lambda>(p, d). (dest @ p, d)) (targets lim (take n items))))
    \<and> sum_list (map (length \<circ> snd) (targets lim (take n items))) \<le> max_unpacked_bytes lim"
proof (cases "create_dir_all dest root")
  case None
  then show ?thesis using assms(1) by (intro exI[of _ 0]) (auto simp: extract_archive_def)
next
  case (Some r0)
  let ?st = "\<lparr>xs_count = 0, xs_unpacked = 0, xs_root = r0, xs_exec = ex\<rparr>"
  obtain st where st: "extract_entries lim dest items ?st = (res, st)" "root' = xs_root st"
    using assms(1) Some by (auto simp: extract_archive_def split: prod.splits)
  from extract_entries_spec[OF st(1) assms(2)] show ?thesis
    unfolding st(2) by (auto simp: tree_files_create_dir_all[OF Some])
qed

theorem extract_archive_exact_witness:
  "\<exists>n \<le> 2. tree_files (Dir [(''d'', Dir [(''a'', File ''ok'')])])
     = tree_files (Dir []) ++ map_of (rev (map (\<lambda>(p, d). ([''d''] @ p, d))
         (targets default_limits (take n [Some (sample_tar_entry ''package/a''), Some (sample_tar_entry ''package/../b'')]))))"
proof -
  have "\<forall>e. Some e \<in> set [Some (sample_tar_entry ''package/a''), Some (sample_tar_entry ''package/../b'')] \<longrightarrow> length (en_data e) \<le> en_size e"
    by (auto simp: sample_tar_entry_def)
  from extract_archive_exact[OF sample_extract this] obtain n
    where "n \<le> length [Some (sample_tar_entry ''package/a''), Some (sample_tar_entry ''package/../b'')]"
    and n: "tree_files (Dir [(''d'', Dir [(''a'', File ''ok'')])])
     = tree_files (Dir []) ++ map_of (rev (map (\<lambda>(p, d). ([''d''] @ p, d))
         (targets default_limits (take n [Some (sample_tar_entry ''package/a''), Some (sample_tar_entry ''package/../b'')]))))" by blast
  then have "n \<le> 2" by simp
  then show ?thesis using n by blast
qed

end
