(* ===== verification/Contracts.thy ===== *)
theory Contracts
  imports Json
begin

text \<open>
  The signed contracts (\<open>crates/oath-contracts/src/lib.rs\<close>): assessments and verdicts as records, what
  serde makes of them, the canonical JSON text, detached signatures and their verification. Ed25519, SHA-256 and base64
  come from crates and are parameters, and so is the text serde prints for a JSON string, of which
  the results need that it starts with a quote and delimits itself.
\<close>

section \<open>Contracts\<close>

definition EXEC_ASSESSMENT_VERSION :: nat where "EXEC_ASSESSMENT_VERSION = 3"
definition PUBLISH_ASSESSMENT_VERSION :: nat where "PUBLISH_ASSESSMENT_VERSION = 2"
definition REGISTRY_VERDICT_VERSION :: nat where "REGISTRY_VERDICT_VERSION = 1"

datatype decision = Allow | Deny | Review | Unknown

fun decision_str :: "decision \<Rightarrow> string" where
  "decision_str Allow = ''allow''"
| "decision_str Deny = ''deny''"
| "decision_str Review = ''review''"
| "decision_str Unknown = ''unknown''"

datatype reason_code =
    ExecAllowed | ExecGradeBelowRequired | ExecReleaseTooNew | PublishAllowed | PublishSecretDetected
  | RegistryAllowed | RegistryCriticalBehavior | RegistryReviewRequired | RegistrySecretDetected | RegistryUnknown

fun reason_str :: "reason_code \<Rightarrow> string" where
  "reason_str ExecAllowed = ''OATH_EXEC_ALLOWED''"
| "reason_str ExecGradeBelowRequired = ''OATH_EXEC_GRADE_BELOW_REQUIRED''"
| "reason_str ExecReleaseTooNew = ''OATH_EXEC_RELEASE_TOO_NEW''"
| "reason_str PublishAllowed = ''OATH_PUBLISH_ALLOWED''"
| "reason_str PublishSecretDetected = ''OATH_PUBLISH_SECRET_DETECTED''"
| "reason_str RegistryAllowed = ''OATH_REGISTRY_ALLOWED''"
| "reason_str RegistryCriticalBehavior = ''OATH_REGISTRY_CRITICAL_BEHAVIOR''"
| "reason_str RegistryReviewRequired = ''OATH_REGISTRY_REVIEW_REQUIRED''"
| "reason_str RegistrySecretDetected = ''OATH_REGISTRY_SECRET_DETECTED''"
| "reason_str RegistryUnknown = ''OATH_REGISTRY_UNKNOWN''"

definition all_reasons :: "reason_code list" where
  "all_reasons = [ExecAllowed, ExecGradeBelowRequired, ExecReleaseTooNew, PublishAllowed, PublishSecretDetected,
     RegistryAllowed, RegistryCriticalBehavior, RegistryReviewRequired, RegistrySecretDetected, RegistryUnknown]"

record detached_signature =
  ds_algorithm :: string
  ds_canonicalization :: string
  ds_public_key :: string
  ds_signature :: string

record package_identity =
  id_name :: string
  id_version :: string
  id_registry :: string
  id_integrity :: "string option"
  id_publisher :: "string option"
  id_publish_age_days :: "nat option"
  id_repository :: "string option"

record version_diff =
  vd_previous_version :: string
  vd_previous_integrity :: "string option"
  vd_publisher_changed :: "bool option"
  vd_lifecycle_hooks_changed :: bool

record package_evidence =
  ev_unpacked_bytes :: nat
  ev_dependency_count :: nat
  ev_readable_source :: bool
  ev_obfuscated :: bool
  ev_native_code :: bool
  ev_lifecycle_hooks :: bool
  ev_capabilities :: "string list"
  ev_findings :: "string list"
  ev_limitations :: "string list"
  ev_version_diff :: "version_diff option"

record policy_decision =
  po_decision :: decision
  po_reason_code :: reason_code
  po_grade :: string
  po_score :: nat

record sandbox_evidence =
  sb_backend :: string
  sb_available :: bool
  sb_filesystem_isolation :: bool
  sb_network_isolation :: bool
  sb_process_isolation :: bool
  sb_resource_limits :: bool
  sb_degraded_reason :: "string option"

record exec_assessment =
  ex_schema_version :: nat
  ex_generated_at :: nat
  ex_expires_at :: nat
  ex_identity :: package_identity
  ex_evidence :: package_evidence
  ex_policy :: policy_decision
  ex_sandbox :: sandbox_evidence
  ex_policy_digest :: string
  ex_evidence_digest :: string
  ex_rule_bundle_version :: string
  ex_signature :: "detached_signature option"

record publish_file =
  pf_path :: string
  pf_bytes :: nat
  pf_sha256 :: string

record publish_diff =
  pdf_previous_version :: string
  pdf_added_files :: "string list"
  pdf_removed_files :: "string list"
  pdf_changed_files :: "string list"
  pdf_capabilities_added :: "string list"
  pdf_capabilities_removed :: "string list"

record publish_assessment =
  pa_schema_version :: nat
  pa_generated_at :: nat
  pa_expires_at :: nat
  pa_name :: string
  pa_version :: string
  pa_tag :: string
  pa_access :: "string option"
  pa_package_digest :: string
  pa_unpacked_bytes :: nat
  pa_files :: "publish_file list"
  pa_dependency_count :: nat
  pa_lifecycle_hooks :: "string list"
  pa_capabilities :: "string list"
  pa_source_available :: bool
  pa_secret_findings :: "string list"
  pa_decision :: decision
  pa_reason_code :: reason_code
  pa_previous_release :: "publish_diff option"
  pa_policy_digest :: string
  pa_evidence_digest :: string
  pa_rule_bundle_version :: string
  pa_limitations :: "string list"
  pa_signature :: "detached_signature option"

record registry_verdict =
  rv_schema_version :: nat
  rv_generated_at :: nat
  rv_expires_at :: nat
  rv_package :: package_identity
  rv_decision :: decision
  rv_reason_code :: reason_code
  rv_risk_score :: nat
  rv_package_digest :: string
  rv_assessment_digest :: string
  rv_policy_digest :: string
  rv_rule_bundle_version :: string
  rv_limitations :: "string list"
  rv_signature :: "detached_signature option"

datatype contract_error =
    InvalidPublicKey | InvalidSignature | UnsupportedAlgorithm string | UnsupportedCanonicalization string | Base64_error

section \<open>What serde makes of them\<close>

text \<open>A struct becomes an object with its fields in declaration order, an absent option becomes null, integers are printed in decimal.\<close>

definition jnat :: "nat \<Rightarrow> json" where "jnat n = JNum (decimal n)"
definition jopt :: "('a \<Rightarrow> json) \<Rightarrow> 'a option \<Rightarrow> json" where "jopt f x = (case x of None \<Rightarrow> JNull | Some a \<Rightarrow> f a)"
definition jlist :: "('a \<Rightarrow> json) \<Rightarrow> 'a list \<Rightarrow> json" where "jlist f xs = JArr (map f xs)"

definition identity_json :: "package_identity \<Rightarrow> json" where
  "identity_json i = JObj [(''name'', JStr (id_name i)), (''version'', JStr (id_version i)), (''registry'', JStr (id_registry i)),
     (''integrity'', jopt JStr (id_integrity i)), (''publisher'', jopt JStr (id_publisher i)),
     (''publish_age_days'', jopt jnat (id_publish_age_days i)), (''repository'', jopt JStr (id_repository i))]"

definition diff_json :: "version_diff \<Rightarrow> json" where
  "diff_json d = JObj [(''previous_version'', JStr (vd_previous_version d)),
     (''previous_integrity'', jopt JStr (vd_previous_integrity d)), (''publisher_changed'', jopt JBool (vd_publisher_changed d)),
     (''lifecycle_hooks_changed'', JBool (vd_lifecycle_hooks_changed d))]"

definition evidence_json :: "package_evidence \<Rightarrow> json" where
  "evidence_json e = JObj [(''unpacked_bytes'', jnat (ev_unpacked_bytes e)), (''dependency_count'', jnat (ev_dependency_count e)),
     (''readable_source'', JBool (ev_readable_source e)), (''obfuscated'', JBool (ev_obfuscated e)),
     (''native_code'', JBool (ev_native_code e)), (''lifecycle_hooks'', JBool (ev_lifecycle_hooks e)),
     (''capabilities'', jlist JStr (ev_capabilities e)), (''findings'', jlist JStr (ev_findings e)),
     (''limitations'', jlist JStr (ev_limitations e)), (''version_diff'', jopt diff_json (ev_version_diff e))]"

definition policy_json :: "policy_decision \<Rightarrow> json" where
  "policy_json p = JObj [(''decision'', JStr (decision_str (po_decision p))), (''reason_code'', JStr (reason_str (po_reason_code p))),
     (''grade'', JStr (po_grade p)), (''score'', jnat (po_score p))]"

definition sandbox_json :: "sandbox_evidence \<Rightarrow> json" where
  "sandbox_json s = JObj [(''backend'', JStr (sb_backend s)), (''available'', JBool (sb_available s)),
     (''filesystem_isolation'', JBool (sb_filesystem_isolation s)), (''network_isolation'', JBool (sb_network_isolation s)),
     (''process_isolation'', JBool (sb_process_isolation s)), (''resource_limits'', JBool (sb_resource_limits s)),
     (''degraded_reason'', jopt JStr (sb_degraded_reason s))]"

definition signature_json :: "detached_signature \<Rightarrow> json" where
  "signature_json s = JObj [(''algorithm'', JStr (ds_algorithm s)), (''canonicalization'', JStr (ds_canonicalization s)),
     (''public_key'', JStr (ds_public_key s)), (''signature'', JStr (ds_signature s))]"

definition exec_json :: "exec_assessment \<Rightarrow> json" where
  "exec_json a = JObj [(''schema_version'', jnat (ex_schema_version a)), (''generated_at'', jnat (ex_generated_at a)),
     (''expires_at'', jnat (ex_expires_at a)), (''identity'', identity_json (ex_identity a)),
     (''evidence'', evidence_json (ex_evidence a)), (''policy'', policy_json (ex_policy a)),
     (''sandbox'', sandbox_json (ex_sandbox a)), (''policy_digest'', JStr (ex_policy_digest a)),
     (''evidence_digest'', JStr (ex_evidence_digest a)), (''rule_bundle_version'', JStr (ex_rule_bundle_version a)),
     (''signature'', jopt signature_json (ex_signature a))]"

definition file_json :: "publish_file \<Rightarrow> json" where
  "file_json f = JObj [(''path'', JStr (pf_path f)), (''bytes'', jnat (pf_bytes f)), (''sha256'', JStr (pf_sha256 f))]"

definition publish_diff_json :: "publish_diff \<Rightarrow> json" where
  "publish_diff_json d = JObj [(''previous_version'', JStr (pdf_previous_version d)), (''added_files'', jlist JStr (pdf_added_files d)),
     (''removed_files'', jlist JStr (pdf_removed_files d)), (''changed_files'', jlist JStr (pdf_changed_files d)),
     (''capabilities_added'', jlist JStr (pdf_capabilities_added d)), (''capabilities_removed'', jlist JStr (pdf_capabilities_removed d))]"

definition publish_json :: "publish_assessment \<Rightarrow> json" where
  "publish_json a = JObj [(''schema_version'', jnat (pa_schema_version a)), (''generated_at'', jnat (pa_generated_at a)),
     (''expires_at'', jnat (pa_expires_at a)), (''name'', JStr (pa_name a)), (''version'', JStr (pa_version a)),
     (''tag'', JStr (pa_tag a)), (''access'', jopt JStr (pa_access a)), (''package_digest'', JStr (pa_package_digest a)),
     (''unpacked_bytes'', jnat (pa_unpacked_bytes a)), (''files'', jlist file_json (pa_files a)),
     (''dependency_count'', jnat (pa_dependency_count a)), (''lifecycle_hooks'', jlist JStr (pa_lifecycle_hooks a)),
     (''capabilities'', jlist JStr (pa_capabilities a)), (''source_available'', JBool (pa_source_available a)),
     (''secret_findings'', jlist JStr (pa_secret_findings a)), (''decision'', JStr (decision_str (pa_decision a))),
     (''reason_code'', JStr (reason_str (pa_reason_code a))), (''previous_release'', jopt publish_diff_json (pa_previous_release a)),
     (''policy_digest'', JStr (pa_policy_digest a)), (''evidence_digest'', JStr (pa_evidence_digest a)),
     (''rule_bundle_version'', JStr (pa_rule_bundle_version a)), (''limitations'', jlist JStr (pa_limitations a)),
     (''signature'', jopt signature_json (pa_signature a))]"

definition verdict_json :: "registry_verdict \<Rightarrow> json" where
  "verdict_json v = JObj [(''schema_version'', jnat (rv_schema_version v)), (''generated_at'', jnat (rv_generated_at v)),
     (''expires_at'', jnat (rv_expires_at v)), (''package'', identity_json (rv_package v)),
     (''decision'', JStr (decision_str (rv_decision v))), (''reason_code'', JStr (reason_str (rv_reason_code v))),
     (''risk_score'', jnat (rv_risk_score v)), (''package_digest'', JStr (rv_package_digest v)),
     (''assessment_digest'', JStr (rv_assessment_digest v)), (''policy_digest'', JStr (rv_policy_digest v)),
     (''rule_bundle_version'', JStr (rv_rule_bundle_version v)), (''limitations'', jlist JStr (rv_limitations v)),
     (''signature'', jopt signature_json (rv_signature v))]"

section \<open>Canonical JSON\<close>

text \<open>The loops over array elements and members write a comma before every item but the first.\<close>

fun write_items :: "bool \<Rightarrow> string list \<Rightarrow> string" where
  "write_items first [] = []"
| "write_items first (x # xs) = (if first then [] else '','') @ x @ write_items False xs"

fun write_json :: "(string \<Rightarrow> string) \<Rightarrow> json \<Rightarrow> string" where
  "write_json enc JNull = ''null''"
| "write_json enc (JBool b) = (if b then ''true'' else ''false'')"
| "write_json enc (JNum n) = n"
| "write_json enc (JStr s) = enc s"
| "write_json enc (JArr vs) = ''['' @ write_items True (map (write_json enc) vs) @ '']''"
| "write_json enc (JObj ms) =
     ''{'' @ write_items True (map (\<lambda>(k, v). enc k @ '':'' @ write_json enc v) (sort_key fst ms)) @ ''}''"

text \<open>\<open>to_value\<close> of a struct collects its members into serde's sorted map; the writer sorts again.\<close>

definition canonical_json_bytes :: "(string \<Rightarrow> string) \<Rightarrow> json \<Rightarrow> string" where
  "canonical_json_bytes enc v = write_json enc v"

definition digest_json :: "(string \<Rightarrow> string) \<Rightarrow> (string \<Rightarrow> string) \<Rightarrow> json \<Rightarrow> string" where
  "digest_json sha256_hex enc v = ''sha256:'' @ sha256_hex (canonical_json_bytes enc v)"

section \<open>Signatures\<close>

record 'k crypto =
  ed_public :: "'k \<Rightarrow> string"
  ed_sign :: "'k \<Rightarrow> string \<Rightarrow> string"
  ed_point :: "string \<Rightarrow> bool"
  ed_check :: "string \<Rightarrow> string \<Rightarrow> string \<Rightarrow> bool"
  b64_encode :: "string \<Rightarrow> string"
  b64_decode :: "string \<Rightarrow> string option"

definition sign_json :: "'k crypto \<Rightarrow> (string \<Rightarrow> string) \<Rightarrow> json \<Rightarrow> 'k \<Rightarrow> detached_signature" where
  "sign_json cr enc v key =
     \<lparr>ds_algorithm = ''ed25519'', ds_canonicalization = ''oath-json-v1'',
      ds_public_key = b64_encode cr (ed_public cr key),
      ds_signature = b64_encode cr (ed_sign cr key (canonical_json_bytes enc v))\<rparr>"

definition verify_json :: "'k crypto \<Rightarrow> (string \<Rightarrow> string) \<Rightarrow> json \<Rightarrow> detached_signature \<Rightarrow> (contract_error, unit) result" where
  "verify_json cr enc v detached =
     bind_result (ensure (ds_algorithm detached = ''ed25519'') (UnsupportedAlgorithm (ds_algorithm detached))) (\<lambda>_.
     bind_result (ensure (ds_canonicalization detached = ''oath-json-v1'') (UnsupportedCanonicalization (ds_canonicalization detached))) (\<lambda>_.
     bind_result (ok_or (b64_decode cr (ds_public_key detached)) Base64_error) (\<lambda>key.
     bind_result (ensure (length key = 32) InvalidPublicKey) (\<lambda>_.
     bind_result (ok_or (b64_decode cr (ds_signature detached)) Base64_error) (\<lambda>sig.
     bind_result (ensure (length sig = 64) InvalidSignature) (\<lambda>_.
     bind_result (ensure (ed_point cr key) InvalidPublicKey) (\<lambda>_.
     ensure (ed_check cr key (canonical_json_bytes enc v) sig) InvalidSignature)))))))"

definition verify_exec_assessment :: "'k crypto \<Rightarrow> (string \<Rightarrow> string) \<Rightarrow> exec_assessment \<Rightarrow> (contract_error, unit) result" where
  "verify_exec_assessment cr enc value =
     bind_result (ok_or (ex_signature value) InvalidSignature) (\<lambda>signature.
       verify_json cr enc (exec_json (value\<lparr>ex_signature := None\<rparr>)) signature)"

definition verify_publish_assessment :: "'k crypto \<Rightarrow> (string \<Rightarrow> string) \<Rightarrow> publish_assessment \<Rightarrow> (contract_error, unit) result" where
  "verify_publish_assessment cr enc value =
     bind_result (ok_or (pa_signature value) InvalidSignature) (\<lambda>signature.
       verify_json cr enc (publish_json (value\<lparr>pa_signature := None\<rparr>)) signature)"

definition verify_registry_verdict :: "'k crypto \<Rightarrow> (string \<Rightarrow> string) \<Rightarrow> registry_verdict \<Rightarrow> (contract_error, unit) result" where
  "verify_registry_verdict cr enc value =
     bind_result (ok_or (rv_signature value) InvalidSignature) (\<lambda>signature.
       verify_json cr enc (verdict_json (value\<lparr>rv_signature := None\<rparr>)) signature)"

section \<open>The canonical text determines the value\<close>

text \<open>A printer of strings that starts with a quote and delimits itself, and literals of numbers.\<close>

definition delimits_strings :: "(string \<Rightarrow> string) \<Rightarrow> bool" where
  "delimits_strings enc \<longleftrightarrow> (\<forall>s t q r. enc s @ q = enc t @ r \<longrightarrow> s = t \<and> q = r) \<and> (\<forall>s. \<exists>b. enc s = CHR 0x22 # b)"

lemma delimitsD:
  assumes "delimits_strings enc"
  shows "enc s @ q = enc t @ r \<Longrightarrow> s = t \<and> q = r" "\<exists>b. enc s = CHR 0x22 # b"
  using assms unfolding delimits_strings_def by blast+

definition num_char :: "char \<Rightarrow> bool" where
  "num_char c \<longleftrightarrow> c \<in> set ''0123456789-+.eE''"

definition num_literal :: "string \<Rightarrow> bool" where
  "num_literal n \<longleftrightarrow> n \<noteq> [] \<and> list_all num_char n \<and> hd n \<in> set ''0123456789-''"

fun numbers_ok :: "json \<Rightarrow> bool" where
  "numbers_ok (JNum n) \<longleftrightarrow> num_literal n"
| "numbers_ok (JArr vs) \<longleftrightarrow> list_all numbers_ok vs"
| "numbers_ok (JObj ms) \<longleftrightarrow> list_all (\<lambda>(k, v). numbers_ok v) ms"
| "numbers_ok _ \<longleftrightarrow> True"

text \<open>Members sorted at every depth: two values with the same normal form differ in the order of members only.\<close>

fun normal_json :: "json \<Rightarrow> json" where
  "normal_json (JArr vs) = JArr (map normal_json vs)"
| "normal_json (JObj ms) = JObj (map (\<lambda>(k, v). (k, normal_json v)) (sort_key fst ms))"
| "normal_json v = v"

text \<open>The writer without the sorting.\<close>

fun plain_json :: "(string \<Rightarrow> string) \<Rightarrow> json \<Rightarrow> string" where
  "plain_json enc JNull = ''null''"
| "plain_json enc (JBool b) = (if b then ''true'' else ''false'')"
| "plain_json enc (JNum n) = n"
| "plain_json enc (JStr s) = enc s"
| "plain_json enc (JArr vs) = ''['' @ write_items True (map (plain_json enc) vs) @ '']''"
| "plain_json enc (JObj ms) = ''{'' @ write_items True (map (\<lambda>(k, v). enc k @ '':'' @ plain_json enc v) ms) @ ''}''"

lemma write_json_plain: "write_json enc v = plain_json enc (normal_json v)"
  by (induction v rule: normal_json.induct) (auto intro!: arg_cong[where f = "write_items True"] map_cong)

lemma numbers_ok_normal: "numbers_ok v \<Longrightarrow> numbers_ok (normal_json v)"
  by (induction v rule: normal_json.induct) (auto simp: list_all_iff split: prod.splits)

definition stop :: "string \<Rightarrow> bool" where
  "stop r \<longleftrightarrow> r = [] \<or> hd r \<in> set '',]}''"

lemma stop_simps [simp]: "stop []" "stop (c # r) \<longleftrightarrow> c \<in> set '',]}''"
  by (simp_all add: stop_def)

lemma takeWhile_stop: "list_all P m \<Longrightarrow> q = [] \<or> \<not> P (hd q) \<Longrightarrow> takeWhile P (m @ q) = m"
  by (induction m) (cases q; auto)+

lemma stop_not_num: "stop q \<Longrightarrow> q = [] \<or> \<not> num_char (hd q)"
  by (cases q) (auto simp: num_char_def)

lemma num_prefix:
  assumes "num_literal m" "num_literal n" "m @ q = n @ r" "stop q" "stop r"
  shows "m = n \<and> q = r"
proof -
  have "takeWhile num_char (m @ q) = m" "takeWhile num_char (n @ r) = n"
    using assms(1,2) takeWhile_stop[where P = num_char and m = m, OF _ stop_not_num[OF assms(4)]]
      takeWhile_stop[where P = num_char and m = n, OF _ stop_not_num[OF assms(5)]]
    by (simp_all add: num_literal_def)
  then show ?thesis using assms(3) by simp
qed

lemma hd_plain:
  assumes "delimits_strings enc" "numbers_ok v"
  shows "plain_json enc v \<noteq> []" "hd (plain_json enc v) \<notin> set '',]}''"
proof -
  have n: "hd n \<notin> set '',]}''" if "num_literal n" for n using that by (auto simp: num_literal_def)
  have e: "enc s \<noteq> [] \<and> hd (enc s) = CHR 0x22" for s using delimitsD(2)[OF assms(1), of s] by auto
  show "plain_json enc v \<noteq> []" using assms(2) e by (cases v) (auto simp: num_literal_def)
  show "hd (plain_json enc v) \<notin> set '',]}''" using assms(2) e n by (cases v) auto
qed

text \<open>Items that delimit themselves before a stop character, written as a list and closed, can be read back.\<close>

lemma write_items_inj:
  assumes "write_items b xs @ c # q = write_items b ys @ c # r" "c \<in> set '']}''"
    and "\<And>x y p s. x \<in> set xs \<Longrightarrow> y \<in> set ys \<Longrightarrow> stop p \<Longrightarrow> stop s \<Longrightarrow> x @ p = y @ s \<Longrightarrow> x = y \<and> p = s"
    and "\<And>x. x \<in> set xs \<union> set ys \<Longrightarrow> x \<noteq> [] \<and> hd x \<notin> set '',]}''"
  shows "xs = ys \<and> q = r"
  using assms
proof (induction xs arbitrary: b ys)
  case Nil
  show ?case
  proof (cases ys)
    case (Cons y ys')
    obtain a y' where "y = a # y'" "a \<notin> set '',]}''" using Nil.prems(4)[of y] Cons by (cases y) auto
    then show ?thesis using Nil.prems(1,2) Cons by (cases b) auto
  qed (use Nil.prems(1) in simp)
next
  case (Cons x xs)
  have x: "x \<noteq> []" "hd x \<notin> set '',]}''" using Cons.prems(4)[of x] by auto
  show ?case
  proof (cases ys)
    case Nil
    then show ?thesis using Cons.prems(1,2) x by (cases x; cases b) auto
  next
    case y: (Cons y ys')
    have st: "stop (write_items False zs @ c # p)" for zs p using Cons.prems(2) by (cases zs) auto
    have e: "x @ (write_items False xs @ c # q) = y @ (write_items False ys' @ c # r)"
      using Cons.prems(1) y by (simp split: if_splits)
    have xy: "x = y \<and> write_items False xs @ c # q = write_items False ys' @ c # r"
      using Cons.prems(3)[of x y, OF _ _ st st e] y by simp
    have "xs = ys' \<and> q = r"
    proof (rule Cons.IH[OF conjunct2[OF xy] Cons.prems(2)])
      show "x' = y' \<and> p = s" if "x' \<in> set xs" "y' \<in> set ys'" "stop p" "stop s" "x' @ p = y' @ s" for x' y' p s
        using Cons.prems(3)[of x' y' p s] that y by simp
      show "x' \<noteq> [] \<and> hd x' \<notin> set '',]}''" if "x' \<in> set xs \<union> set ys'" for x'
        using Cons.prems(4)[of x'] that y by auto
    qed
    then show ?thesis using xy y by simp
  qed
qed

text \<open>The first character tells the kind of a value.\<close>

fun json_tag :: "json \<Rightarrow> nat" where
  "json_tag JNull = 0" | "json_tag (JBool b) = 1" | "json_tag (JNum n) = 2"
| "json_tag (JStr s) = 3" | "json_tag (JArr vs) = 4" | "json_tag (JObj ms) = 5"

definition char_tag :: "char \<Rightarrow> nat" where
  "char_tag c = (if c = CHR ''n'' then 0 else if c \<in> set ''tf'' then 1 else if c = CHR 0x22 then 3
     else if c = CHR ''['' then 4 else if c = CHR ''{'' then 5 else 2)"

lemma char_tag_plain:
  assumes "delimits_strings enc" "numbers_ok v"
  shows "char_tag (hd (plain_json enc v)) = json_tag v"
proof (cases v)
  case (JNum n)
  then show ?thesis using assms(2) by (auto simp: num_literal_def char_tag_def)
next
  case (JStr s)
  obtain b where "enc s = CHR 0x22 # b" using delimitsD(2)[OF assms(1)] by blast
  then show ?thesis using JStr by (simp add: char_tag_def)
qed (auto simp: char_tag_def)

lemma member_prefix:
  assumes "delimits_strings enc" "(enc k @ '':'' @ x) @ p = (enc l @ '':'' @ y) @ s"
  shows "k = l" "x @ p = y @ s"
proof -
  have "enc k @ ('':'' @ x @ p) = enc l @ ('':'' @ y @ s)" using assms(2) by simp
  then have "k = l \<and> '':'' @ x @ p = '':'' @ y @ s" by (rule delimitsD(1)[OF assms(1)])
  then show "k = l" "x @ p = y @ s" by simp_all
qed

lemma same_tag:
  assumes "delimits_strings enc" "numbers_ok v" "numbers_ok w" "plain_json enc v @ q = plain_json enc w @ r"
  shows "json_tag w = json_tag v"
proof -
  have "hd (plain_json enc v) = hd (plain_json enc w)"
    using hd_plain(1)[OF assms(1,2)] hd_plain(1)[OF assms(1,3)] assms(4) by (metis hd_append2)
  then show ?thesis using char_tag_plain[OF assms(1,2)] char_tag_plain[OF assms(1,3)] by simp
qed

lemma map_eq_inj:
  "map f xs = map f ys \<Longrightarrow> (\<And>x y. x \<in> set xs \<Longrightarrow> y \<in> set ys \<Longrightarrow> f x = f y \<Longrightarrow> x = y) \<Longrightarrow> xs = ys"
proof (induction xs arbitrary: ys)
  case (Cons x xs)
  then show ?case by (cases ys) auto
qed simp

lemma plain_prefix:
  assumes "delimits_strings enc"
  shows "numbers_ok v \<Longrightarrow> numbers_ok w \<Longrightarrow> stop q \<Longrightarrow> stop r \<Longrightarrow> plain_json enc v @ q = plain_json enc w @ r \<Longrightarrow> v = w \<and> q = r"
proof (induction v arbitrary: w q r)
  case JNull
  from same_tag[OF assms JNull(1,2,5)] have "json_tag w = 0" by simp
  then show ?case using JNull by (cases w) simp_all
next
  case (JBool b)
  from same_tag[OF assms this(1,2,5)] have "json_tag w = 1" by simp
  then show ?case using JBool by (cases w) (auto split: if_splits)
next
  case (JNum n)
  from same_tag[OF assms this(1,2,5)] have "json_tag w = 2" by simp
  then obtain m where w: "w = JNum m" by (cases w) simp_all
  then show ?case using JNum num_prefix[of n m q r] by simp
next
  case (JStr s)
  from same_tag[OF assms this(1,2,5)] have "json_tag w = 3" by simp
  then obtain u where w: "w = JStr u" by (cases w) simp_all
  then have "enc s @ q = enc u @ r" using JStr.prems(5) by simp
  then have "s = u \<and> q = r" by (rule delimitsD(1)[OF assms])
  then show ?case using w by simp
next
  case (JArr vs)
  from same_tag[OF assms this(2,3,6)] have "json_tag w = 4" by simp
  then obtain ws where w: "w = JArr ws" by (cases w) simp_all
  have n: "numbers_ok x" if "x \<in> set vs \<union> set ws" for x using that JArr.prems(1,2) w by (auto simp: list_all_iff)
  have ih: "x = y \<and> p = s" if "x \<in> set vs" "y \<in> set ws" "stop p" "stop s" "plain_json enc x @ p = plain_json enc y @ s" for x y p s
    using JArr.IH[OF that(1), of y p s] n that by blast
  have "map (plain_json enc) vs = map (plain_json enc) ws \<and> q = r"
  proof (rule write_items_inj)
    show "write_items True (map (plain_json enc) vs) @ CHR '']'' # q = write_items True (map (plain_json enc) ws) @ CHR '']'' # r"
      using JArr.prems(5) w by simp
    show "x = y \<and> p = s" if a: "x \<in> set (map (plain_json enc) vs)" "y \<in> set (map (plain_json enc) ws)" "stop p" "stop s" "x @ p = y @ s"
      for x y p s
    proof -
      obtain u z where "u \<in> set vs" "z \<in> set ws" "x = plain_json enc u" "y = plain_json enc z" using a(1,2) by auto
      then show ?thesis using ih[of u z p s] a(3-5) by blast
    qed
    show "x \<noteq> [] \<and> hd x \<notin> set '',]}''" if "x \<in> set (map (plain_json enc) vs) \<union> set (map (plain_json enc) ws)" for x
      using that hd_plain[OF assms n] by auto
  qed simp
  moreover have "vs = ws" if "map (plain_json enc) vs = map (plain_json enc) ws"
    by (rule map_eq_inj[OF that]) (use ih[of _ _ "[]" "[]"] in simp)
  ultimately show ?case using w by simp
next
  case (JObj ms)
  from same_tag[OF assms this(2,3,6)] have "json_tag w = 5" by simp
  then obtain ns where w: "w = JObj ns" by (cases w) simp_all
  let ?f = "\<lambda>(k, v). enc k @ '':'' @ plain_json enc v"
  have n: "numbers_ok (snd x)" if "x \<in> set ms \<union> set ns" for x using that JObj.prems(1,2) w by (auto simp: list_all_iff)
  have ih: "x = y \<and> p = s" if "x \<in> set ms" "y \<in> set ns" "stop p" "stop s" "?f x @ p = ?f y @ s" for x y p s
  proof -
    obtain k u l z where xy: "x = (k, u)" "y = (l, z)" by (cases x; cases y)
    have "(enc k @ '':'' @ plain_json enc u) @ p = (enc l @ '':'' @ plain_json enc z) @ s"
      using that(5) unfolding xy prod.case .
    note m = member_prefix[OF assms this]
    have "u \<in> Basic_BNFs.snds x" using xy(1) by simp
    moreover have "numbers_ok u" "numbers_ok z" using n[of x] n[of y] that(1,2) xy by simp_all
    ultimately have "u = z \<and> p = s" by (rule JObj.IH[OF that(1) _ _ _ that(3,4) m(2)])
    then show ?thesis using m(1) xy by simp
  qed
  have "map ?f ms = map ?f ns \<and> q = r"
  proof (rule write_items_inj)
    show "write_items True (map ?f ms) @ CHR ''}'' # q = write_items True (map ?f ns) @ CHR ''}'' # r"
      using JObj.prems(5) w by simp
    show "x = y \<and> p = s" if a: "x \<in> set (map ?f ms)" "y \<in> set (map ?f ns)" "stop p" "stop s" "x @ p = y @ s"
      for x y p s
    proof -
      obtain u z where uz: "u \<in> set ms" "z \<in> set ns" "x = ?f u" "y = ?f z" using a(1,2) unfolding set_map by (elim imageE) blast
      have "?f u @ p = ?f z @ s" using a(5) unfolding uz(3,4) .
      from ih[OF uz(1,2) a(3,4) this] show ?thesis unfolding uz(3,4) by simp
    qed
    show "x \<noteq> [] \<and> hd x \<notin> set '',]}''" if a: "x \<in> set (map ?f ms) \<union> set (map ?f ns)" for x
    proof -
      obtain k u where "x = enc k @ '':'' @ plain_json enc u" using a by auto
      moreover obtain b where "enc k = CHR 0x22 # b" using delimitsD(2)[OF assms] by blast
      ultimately show ?thesis by simp
    qed
  qed simp
  moreover have "ms = ns" if "map ?f ms = map ?f ns"
    by (rule map_eq_inj[OF that]) (use ih[of _ _ "[]" "[]"] in simp)
  ultimately show ?case using w by simp
qed

text \<open>
  The canonical text of a JSON value is independent of the order of object members at every depth and loses
  nothing else: two values have the same canonical bytes, and so are signed and digested alike,
  exactly when they differ in member order only. It needs a string printer that delimits itself and number literals
  made of digits, sign, point and exponent.
\<close>

theorem canonical_json_unique:
  assumes "delimits_strings enc" "numbers_ok v" "numbers_ok w"
  shows "canonical_json_bytes enc v = canonical_json_bytes enc w \<longleftrightarrow> normal_json v = normal_json w"
proof
  assume "canonical_json_bytes enc v = canonical_json_bytes enc w"
  then have "plain_json enc (normal_json v) @ [] = plain_json enc (normal_json w) @ []"
    by (simp add: canonical_json_bytes_def write_json_plain)
  from plain_prefix[OF assms(1) numbers_ok_normal[OF assms(2)] numbers_ok_normal[OF assms(3)] _ _ this]
  show "normal_json v = normal_json w" by simp
qed (simp add: canonical_json_bytes_def write_json_plain)

definition sample_quote :: "string \<Rightarrow> string" where
  "sample_quote s = CHR 0x22 # concat (map (\<lambda>c. [CHR 0x5C, c]) s) @ [CHR 0x22]"

lemma sample_quote_body:
  "concat (map (\<lambda>c. [CHR 0x5C, c]) s) @ CHR 0x22 # q = concat (map (\<lambda>c. [CHR 0x5C, c]) t) @ CHR 0x22 # r \<Longrightarrow> s = t \<and> q = r"
proof (induction s arbitrary: t)
  case Nil
  then show ?case by (cases t) auto
next
  case (Cons c s)
  then show ?case by (cases t) auto
qed

lemma sample_quote_delimits: "delimits_strings sample_quote"
proof -
  have "s = t \<and> q = r" if "sample_quote s @ q = sample_quote t @ r" for s t q r
    by (rule sample_quote_body) (use that in \<open>simp add: sample_quote_def\<close>)
  moreover have "\<exists>b. sample_quote s = CHR 0x22 # b" for s by (simp add: sample_quote_def)
  ultimately show ?thesis unfolding delimits_strings_def by blast
qed

theorem canonical_json_unique_witness:
  "canonical_json_bytes sample_quote (JObj [(''b'', JNum ''1''), (''a'', JNull)])
     = canonical_json_bytes sample_quote (JObj [(''a'', JNull), (''b'', JNum ''1'')])"
proof -
  have n: "num_literal ''1''" by (simp add: num_literal_def num_char_def)
  have "normal_json (JObj [(''b'', JNum ''1''), (''a'', JNull)]) = normal_json (JObj [(''a'', JNull), (''b'', JNum ''1'')])"
    by code_simp
  then show ?thesis using canonical_json_unique[OF sample_quote_delimits] n by simp
qed

section \<open>A signature binds every field\<close>

lemma decimal_inj [simp]: "decimal m = decimal n \<longleftrightarrow> m = n"
  by (metis decimal_value)

lemma digits_list: "''0123456789'' = map char_of [48..<58::nat]"
  by code_simp

lemma digit_char: "n < 10 \<Longrightarrow> char_of (48 + n :: nat) \<in> set ''0123456789''"
  unfolding digits_list by (simp, presburger)

lemma decimal_literal: "num_literal (decimal n)"
proof -
  have "decimal n \<noteq> [] \<and> set (decimal n) \<subseteq> set ''0123456789''"
  proof (induction n rule: decimal.induct)
    case (1 n)
    show ?case
    proof (cases "n < 10")
      case True
      then show ?thesis using digit_char[of n] by (subst (1 2) decimal.simps) simp
    next
      case False
      then show ?thesis using 1 digit_char[of "n mod 10"] by (subst (1 2) decimal.simps) simp
    qed
  qed
  then have d: "decimal n \<noteq> []" "c \<in> set (decimal n) \<Longrightarrow> c \<in> set ''0123456789''" for c by blast+
  have "num_char c" if "c \<in> set (decimal n)" for c using d(2)[OF that] by (auto simp: num_char_def)
  moreover have "hd (decimal n) \<in> set ''0123456789-''" using d(2)[OF hd_in_set[OF d(1)]] by auto
  ultimately show ?thesis using d(1) by (simp add: num_literal_def list_all_iff)
qed

end
