(* ===== verification/Contract_Signatures.thy ===== *)
theory Contract_Signatures
  imports Contracts
begin

text \<open>
  What a signature on a contract guarantees. The JSON form of a contract determines all its fields and which contract it is, and the canonical
  text determines the JSON form, so a signature that verifies is for exactly this assessment or verdict.
\<close>

section \<open>The JSON form determines the contract\<close>

named_theorems json_form \<open>normal forms of the members of contracts\<close>

text \<open>Values that are their own normal form, and members of objects with the same keys.\<close>

lemma normal_jnat [json_form]: "normal_json (jnat m) = normal_json (jnat n) \<longleftrightarrow> m = n"
  by (simp add: jnat_def)

lemma normal_jopt:
  assumes "\<And>a. normal_json (f a) \<noteq> JNull" "\<And>a b. normal_json (f a) = normal_json (f b) \<longleftrightarrow> a = b"
  shows "normal_json (jopt f x) = normal_json (jopt f y) \<longleftrightarrow> x = y"
  using assms(1)[THEN not_sym] assms by (cases x; cases y) (auto simp: jopt_def)

lemma normal_jlist:
  assumes "\<And>a b. normal_json (f a) = normal_json (f b) \<longleftrightarrow> a = b"
  shows "normal_json (jlist f xs) = normal_json (jlist f ys) \<longleftrightarrow> xs = ys"
proof
  assume "normal_json (jlist f xs) = normal_json (jlist f ys)"
  then have "map (normal_json \<circ> f) xs = map (normal_json \<circ> f) ys" by (simp add: jlist_def)
  then show "xs = ys" by (rule map_eq_inj) (use assms in simp)
qed simp

lemma normal_jopt_base [json_form]:
  "normal_json (jopt JStr x) = normal_json (jopt JStr y) \<longleftrightarrow> x = y"
  "normal_json (jopt jnat m) = normal_json (jopt jnat n) \<longleftrightarrow> m = n"
  "normal_json (jopt JBool b) = normal_json (jopt JBool c) \<longleftrightarrow> b = c"
  by (rule normal_jopt; simp add: jnat_def)+

lemma normal_jlist_base [json_form]: "normal_json (jlist JStr xs) = normal_json (jlist JStr ys) \<longleftrightarrow> xs = ys"
  by (rule normal_jlist) simp

lemma normal_obj_members:
  assumes "normal_json (JObj a) = normal_json (JObj b)" "distinct (map fst a)" "map fst a = map fst b"
  shows "map (\<lambda>x. normal_json (snd x)) a = map (\<lambda>x. normal_json (snd x)) b"
proof -
  let ?g = "\<lambda>(k, v). (k, normal_json v)"
  have d: "distinct (map fst b)" using assms(2,3) by simp
  have eq: "map ?g (sort_key fst a) = map ?g (sort_key fst b)" using assms(1) by simp
  have "map_of (map ?g xs) = map_option normal_json \<circ> map_of xs" for xs
    by (rule map_of_map)
  then have "map_option normal_json \<circ> map_of (sort_key fst a) = map_option normal_json \<circ> map_of (sort_key fst b)"
    using eq by metis
  then have m: "map_option normal_json (map_of a k) = map_option normal_json (map_of b k)" for k
    using assms(2) d by (simp add: map_of_sort_key hm_wf_def fun_eq_iff)
  show ?thesis
  proof (rule nth_equalityI)
    show l: "length (map (\<lambda>x. normal_json (snd x)) a) = length (map (\<lambda>x. normal_json (snd x)) b)"
      using assms(3) by (metis length_map)
    fix i assume "i < length (map (\<lambda>x. normal_json (snd x)) a)"
    then have i: "i < length a" "i < length b" using l by simp_all
    have k: "fst (a ! i) = fst (b ! i)" using assms(3) i by (metis nth_map)
    have "map_of a (fst (a ! i)) = Some (snd (a ! i))" "map_of b (fst (b ! i)) = Some (snd (b ! i))"
      using assms(2) d i by simp_all
    then have "normal_json (snd (a ! i)) = normal_json (snd (b ! i))" using m[of "fst (a ! i)"] k by simp
    then show "map (\<lambda>x. normal_json (snd x)) a ! i = map (\<lambda>x. normal_json (snd x)) b ! i" using i by simp
  qed
qed

lemma normal_obj_keys:
  assumes "normal_json (JObj a) = normal_json (JObj b)" shows "fst ` set a = fst ` set b"
proof -
  let ?g = "\<lambda>(k, v). (k, normal_json v)"
  have eq: "map ?g (sort_key fst a) = map ?g (sort_key fst b)" using assms by simp
  have "map fst (map ?g xs) = map fst xs" for xs by (induction xs) auto
  then have "map fst (sort_key fst a) = map fst (sort_key fst b)" using eq by metis
  then have "set (map fst (sort_key fst a)) = set (map fst (sort_key fst b))" by simp
  then show ?thesis by simp
qed

lemma decision_str_inj [json_form]: "decision_str a = decision_str b \<longleftrightarrow> a = b"
  by (cases a; cases b) simp_all

lemma reason_str_inj [json_form]: "reason_str a = reason_str b \<longleftrightarrow> a = b"
  by (cases a; cases b) simp_all

lemma identity_inj [json_form]: "normal_json (identity_json i) = normal_json (identity_json j) \<longleftrightarrow> i = j"
proof
  assume "normal_json (identity_json i) = normal_json (identity_json j)"
  from normal_obj_members[OF this[unfolded identity_json_def]] show "i = j"
    by (cases i; cases j) (simp add: json_form)
qed simp

lemma diff_inj: "normal_json (diff_json i) = normal_json (diff_json j) \<longleftrightarrow> i = j"
proof
  assume "normal_json (diff_json i) = normal_json (diff_json j)"
  from normal_obj_members[OF this[unfolded diff_json_def]] show "i = j"
    by (cases i; cases j) (simp add: json_form)
qed simp

lemma normal_obj_not_null: "normal_json (JObj m) \<noteq> JNull"
  by simp

lemma normal_jopt_diff [json_form]: "normal_json (jopt diff_json x) = normal_json (jopt diff_json y) \<longleftrightarrow> x = y"
  by (rule normal_jopt) (simp add: diff_json_def normal_obj_not_null del: normal_json.simps, rule diff_inj)

lemma evidence_inj [json_form]: "normal_json (evidence_json i) = normal_json (evidence_json j) \<longleftrightarrow> i = j"
proof
  assume "normal_json (evidence_json i) = normal_json (evidence_json j)"
  from normal_obj_members[OF this[unfolded evidence_json_def]] show "i = j"
    by (cases i; cases j) (simp add: json_form)
qed simp

lemma policy_inj [json_form]: "normal_json (policy_json i) = normal_json (policy_json j) \<longleftrightarrow> i = j"
proof
  assume "normal_json (policy_json i) = normal_json (policy_json j)"
  from normal_obj_members[OF this[unfolded policy_json_def]] show "i = j"
    by (cases i; cases j) (simp add: json_form)
qed simp

lemma sandbox_inj [json_form]: "normal_json (sandbox_json i) = normal_json (sandbox_json j) \<longleftrightarrow> i = j"
proof
  assume "normal_json (sandbox_json i) = normal_json (sandbox_json j)"
  from normal_obj_members[OF this[unfolded sandbox_json_def]] show "i = j"
    by (cases i; cases j) (simp add: json_form)
qed simp

lemma signature_inj: "normal_json (signature_json i) = normal_json (signature_json j) \<longleftrightarrow> i = j"
proof
  assume "normal_json (signature_json i) = normal_json (signature_json j)"
  from normal_obj_members[OF this[unfolded signature_json_def]] show "i = j"
    by (cases i; cases j) (simp add: json_form)
qed simp

lemma normal_jopt_signature [json_form]: "normal_json (jopt signature_json x) = normal_json (jopt signature_json y) \<longleftrightarrow> x = y"
  by (rule normal_jopt) (simp add: signature_json_def normal_obj_not_null del: normal_json.simps, rule signature_inj)

lemma exec_inj: "normal_json (exec_json i) = normal_json (exec_json j) \<longleftrightarrow> i = j"
proof
  assume "normal_json (exec_json i) = normal_json (exec_json j)"
  from normal_obj_members[OF this[unfolded exec_json_def]] show "i = j"
    by (cases i; cases j) (simp add: json_form)
qed simp

lemma file_inj: "normal_json (file_json i) = normal_json (file_json j) \<longleftrightarrow> i = j"
proof
  assume "normal_json (file_json i) = normal_json (file_json j)"
  from normal_obj_members[OF this[unfolded file_json_def]] show "i = j"
    by (cases i; cases j) (simp add: json_form)
qed simp

lemma publish_diff_inj: "normal_json (publish_diff_json i) = normal_json (publish_diff_json j) \<longleftrightarrow> i = j"
proof
  assume "normal_json (publish_diff_json i) = normal_json (publish_diff_json j)"
  from normal_obj_members[OF this[unfolded publish_diff_json_def]] show "i = j"
    by (cases i; cases j) (simp add: json_form)
qed simp

lemma normal_publish_parts [json_form]:
  "normal_json (jlist file_json xs) = normal_json (jlist file_json ys) \<longleftrightarrow> xs = ys"
  "normal_json (jopt publish_diff_json x) = normal_json (jopt publish_diff_json y) \<longleftrightarrow> x = y"
proof -
  show "normal_json (jlist file_json xs) = normal_json (jlist file_json ys) \<longleftrightarrow> xs = ys"
    by (rule normal_jlist) (rule file_inj)
  show "normal_json (jopt publish_diff_json x) = normal_json (jopt publish_diff_json y) \<longleftrightarrow> x = y"
    by (rule normal_jopt) (simp add: publish_diff_json_def normal_obj_not_null del: normal_json.simps, rule publish_diff_inj)
qed

lemma publish_inj: "normal_json (publish_json i) = normal_json (publish_json j) \<longleftrightarrow> i = j"
proof
  assume "normal_json (publish_json i) = normal_json (publish_json j)"
  from normal_obj_members[OF this[unfolded publish_json_def]] show "i = j"
    by (cases i; cases j) (simp add: json_form)
qed simp

lemma verdict_inj: "normal_json (verdict_json i) = normal_json (verdict_json j) \<longleftrightarrow> i = j"
proof
  assume "normal_json (verdict_json i) = normal_json (verdict_json j)"
  from normal_obj_members[OF this[unfolded verdict_json_def]] show "i = j"
    by (cases i; cases j) (simp add: json_form)
qed simp

text \<open>The three kinds of contract have different members.\<close>

lemma kinds_differ:
  "normal_json (exec_json a) \<noteq> normal_json (publish_json p)"
  "normal_json (exec_json a) \<noteq> normal_json (verdict_json v)"
  "normal_json (publish_json p) \<noteq> normal_json (verdict_json v)"
proof -
  show "normal_json (exec_json a) \<noteq> normal_json (publish_json p)"
  proof
    assume "normal_json (exec_json a) = normal_json (publish_json p)"
    from arg_cong[OF normal_obj_keys[OF this[unfolded exec_json_def publish_json_def]], of "\<lambda>S. ''tag'' \<in> S"] show False by simp
  qed
  show "normal_json (exec_json a) \<noteq> normal_json (verdict_json v)"
  proof
    assume "normal_json (exec_json a) = normal_json (verdict_json v)"
    from arg_cong[OF normal_obj_keys[OF this[unfolded exec_json_def verdict_json_def]], of "\<lambda>S. ''sandbox'' \<in> S"] show False by simp
  qed
  show "normal_json (publish_json p) \<noteq> normal_json (verdict_json v)"
  proof
    assume "normal_json (publish_json p) = normal_json (verdict_json v)"
    from arg_cong[OF normal_obj_keys[OF this[unfolded publish_json_def verdict_json_def]], of "\<lambda>S. ''tag'' \<in> S"] show False by simp
  qed
qed

lemma numbers_ok_parts [simp]:
  "numbers_ok (jnat n)" "numbers_ok (jopt JStr s)" "numbers_ok (jopt jnat m)" "numbers_ok (jopt JBool b)" "numbers_ok (jlist JStr ss)"
  "numbers_ok (identity_json i)" "numbers_ok (jopt diff_json d)" "numbers_ok (jopt signature_json s')"
  "numbers_ok (jlist file_json fs)" "numbers_ok (jopt publish_diff_json pd)"
  by (auto simp: jnat_def decimal_literal jopt_def jlist_def identity_json_def diff_json_def signature_json_def file_json_def
      publish_diff_json_def list_all_iff split: option.splits)

lemma numbers_ok_contracts: "numbers_ok (exec_json a)" "numbers_ok (publish_json p)" "numbers_ok (verdict_json v)"
  by (simp_all add: exec_json_def publish_json_def verdict_json_def evidence_json_def policy_json_def sandbox_json_def)

section \<open>Verification\<close>

definition signing_key :: "'k crypto \<Rightarrow> detached_signature option \<Rightarrow> string \<Rightarrow> bool" where
  "signing_key cr sig key \<longleftrightarrow> (\<exists>s. sig = Some s \<and> b64_decode cr (ds_public_key s) = Some key)"

text \<open>The signature \<open>s\<close> would be a forgery for the contract \<open>x\<close>: it checks under the key, and the key has signed no contract with this text.\<close>

definition forgery :: "'k crypto \<Rightarrow> (string \<Rightarrow> string) \<Rightarrow> string \<Rightarrow> json set \<Rightarrow> detached_signature option \<Rightarrow> json \<Rightarrow> bool" where
  "forgery cr enc key issued s x \<longleftrightarrow>
     (\<exists>d sig. s = Some d \<and> b64_decode cr (ds_signature d) = Some sig \<and> ed_check cr key (canonical_json_bytes enc x) sig)
     \<and> canonical_json_bytes enc x \<notin> canonical_json_bytes enc ` issued"

lemma verify_json_Inr:
  assumes "verify_json cr enc v s = Inr ()" "b64_decode cr (ds_public_key s) = Some key"
  shows "\<exists>sig. b64_decode cr (ds_signature s) = Some sig \<and> ed_check cr key (canonical_json_bytes enc v) sig"
  using assms by (auto simp: verify_json_def bind_result_Inr_iff split: option.splits)

lemma canonical_text_determines:
  assumes "delimits_strings enc" "numbers_ok x" "numbers_ok v" "canonical_json_bytes enc v = canonical_json_bytes enc x"
  shows "normal_json x = normal_json v"
proof -
  have "plain_json enc (normal_json x) @ [] = plain_json enc (normal_json v) @ []"
    using assms(2-4) by (simp add: canonical_json_bytes_def write_json_plain)
  from plain_prefix[OF assms(1) numbers_ok_normal[OF assms(2)] numbers_ok_normal[OF assms(3)] _ _ this] show ?thesis by simp
qed

lemma verified_issued:
  assumes "delimits_strings enc" "\<forall>x\<in>issued. numbers_ok x" "numbers_ok v"
    and "verify_json cr enc v s = Inr ()" "b64_decode cr (ds_public_key s) = Some key"
  shows "(\<exists>x\<in>issued. normal_json x = normal_json v) \<or> forgery cr enc key issued (Some s) v"
  using verify_json_Inr[OF assms(4,5)] canonical_text_determines[OF assms(1) _ assms(3)] assms(2)
  by (fastforce simp: forgery_def)

abbreviation issued_contracts :: "exec_assessment set \<Rightarrow> publish_assessment set \<Rightarrow> registry_verdict set \<Rightarrow> json set" where
  "issued_contracts E P R \<equiv> exec_json ` E \<union> publish_json ` P \<union> verdict_json ` R"

text \<open>
  C18: a verified signature is for this very contract, or it is a forgery. When the holder of a key has issued signatures for the unsigned forms of some assessments and
  verdicts, then an assessment or verdict that verifies under this key is one of those of its own kind, with every field unchanged, unless the signature it carries
  checks for a text that was never signed. So altering a field, or passing off an assessment of one kind as one of another, takes a forged Ed25519 signature; the way a contract
  becomes a text gives no other way. The only condition is that of JSON strings: a quoted string ends where it says.
\<close>

theorem signature_binds_contract:
  assumes "delimits_strings enc"
  shows "(verify_exec_assessment cr enc a = Inr () \<and> signing_key cr (ex_signature a) key \<longrightarrow>
        a\<lparr>ex_signature := None\<rparr> \<in> E \<or> forgery cr enc key (issued_contracts E P R) (ex_signature a) (exec_json (a\<lparr>ex_signature := None\<rparr>)))
    \<and> (verify_publish_assessment cr enc p = Inr () \<and> signing_key cr (pa_signature p) key \<longrightarrow>
        p\<lparr>pa_signature := None\<rparr> \<in> P \<or> forgery cr enc key (issued_contracts E P R) (pa_signature p) (publish_json (p\<lparr>pa_signature := None\<rparr>)))
    \<and> (verify_registry_verdict cr enc v = Inr () \<and> signing_key cr (rv_signature v) key \<longrightarrow>
        v\<lparr>rv_signature := None\<rparr> \<in> R \<or> forgery cr enc key (issued_contracts E P R) (rv_signature v) (verdict_json (v\<lparr>rv_signature := None\<rparr>)))"
proof -
  have n: "\<forall>x\<in>issued_contracts E P R. numbers_ok x" by (auto simp: numbers_ok_contracts)
  note ok = verified_issued[OF assms n]
  have "a\<lparr>ex_signature := None\<rparr> \<in> E \<or> forgery cr enc key (issued_contracts E P R) (ex_signature a) (exec_json (a\<lparr>ex_signature := None\<rparr>))"
    if v: "verify_exec_assessment cr enc a = Inr ()" "signing_key cr (ex_signature a) key"
  proof -
    obtain s where s: "ex_signature a = Some s" "verify_json cr enc (exec_json (a\<lparr>ex_signature := None\<rparr>)) s = Inr ()" "b64_decode cr (ds_public_key s) = Some key"
      using v by (auto simp: verify_exec_assessment_def signing_key_def bind_result_Inr_iff)
    from ok[OF numbers_ok_contracts(1) s(2,3)] show ?thesis using s(1) by (auto simp: exec_inj kinds_differ[symmetric])
  qed
  moreover have "p\<lparr>pa_signature := None\<rparr> \<in> P \<or> forgery cr enc key (issued_contracts E P R) (pa_signature p) (publish_json (p\<lparr>pa_signature := None\<rparr>))"
    if v: "verify_publish_assessment cr enc p = Inr ()" "signing_key cr (pa_signature p) key"
  proof -
    obtain s where s: "pa_signature p = Some s" "verify_json cr enc (publish_json (p\<lparr>pa_signature := None\<rparr>)) s = Inr ()" "b64_decode cr (ds_public_key s) = Some key"
      using v by (auto simp: verify_publish_assessment_def signing_key_def bind_result_Inr_iff)
    from ok[OF numbers_ok_contracts(2) s(2,3)] show ?thesis using s(1) by (auto simp: publish_inj kinds_differ kinds_differ[symmetric])
  qed
  moreover have "v\<lparr>rv_signature := None\<rparr> \<in> R \<or> forgery cr enc key (issued_contracts E P R) (rv_signature v) (verdict_json (v\<lparr>rv_signature := None\<rparr>))"
    if w: "verify_registry_verdict cr enc v = Inr ()" "signing_key cr (rv_signature v) key"
  proof -
    obtain s where s: "rv_signature v = Some s" "verify_json cr enc (verdict_json (v\<lparr>rv_signature := None\<rparr>)) s = Inr ()" "b64_decode cr (ds_public_key s) = Some key"
      using w by (auto simp: verify_registry_verdict_def signing_key_def bind_result_Inr_iff)
    from ok[OF numbers_ok_contracts(3) s(2,3)] show ?thesis using s(1) by (auto simp: verdict_inj kinds_differ)
  qed
  ultimately show ?thesis by blast
qed

definition crypto_ok :: "'k crypto \<Rightarrow> bool" where
  "crypto_ok cr \<longleftrightarrow> (\<forall>d. b64_decode cr (b64_encode cr d) = Some d)
     \<and> (\<forall>k m. length (ed_public cr k) = 32 \<and> ed_point cr (ed_public cr k) \<and> length (ed_sign cr k m) = 64
          \<and> ed_check cr (ed_public cr k) m (ed_sign cr k m))"

definition sample_crypto :: "unit crypto" where
  "sample_crypto = \<lparr>ed_public = (\<lambda>k. replicate 32 (CHR ''k'')), ed_sign = (\<lambda>k m. replicate 64 (CHR ''s'')),
     ed_point = (\<lambda>p. True), ed_check = (\<lambda>p m s. True), b64_encode = (\<lambda>d. d), b64_decode = Some\<rparr>"

definition sample_verdict :: registry_verdict where
  "sample_verdict = \<lparr>rv_schema_version = 1, rv_generated_at = 7, rv_expires_at = 8,
     rv_package = \<lparr>id_name = ''a'', id_version = ''1'', id_registry = ''r'', id_integrity = None, id_publisher = None,
       id_publish_age_days = Some 3, id_repository = None\<rparr>,
     rv_decision = Allow, rv_reason_code = RegistryAllowed, rv_risk_score = 0, rv_package_digest = ''d'', rv_assessment_digest = ''e'',
     rv_policy_digest = ''p'', rv_rule_bundle_version = ''b'', rv_limitations = [], rv_signature = None\<rparr>"

text \<open>A signature that depends on the text: one whose check compares the lengths. The honest verdict is accepted, and an altered one of the same length is a forgery.\<close>

definition length_crypto :: "unit crypto" where
  "length_crypto = sample_crypto\<lparr>ed_sign := (\<lambda>k m. replicate 64 (char_of (length m mod 256))), ed_check := (\<lambda>p m s. s = replicate 64 (char_of (length m mod 256)))\<rparr>"

definition signed_sample :: "registry_verdict \<Rightarrow> registry_verdict" where
  "signed_sample v = v\<lparr>rv_signature := Some (sign_json length_crypto sample_quote (verdict_json sample_verdict) ())\<rparr>"

lemma insort_map_values: "insort_key fst (k, h k v) (map (\<lambda>(k, v). (k, h k v)) ms) = map (\<lambda>(k, v). (k, h k v)) (insort_key fst (k, v) ms)"
  by (induction ms) auto

lemma sort_map_values: "sort_key fst (map (\<lambda>(k, v). (k, h k v)) ms) = map (\<lambda>(k, v). (k, h k v)) (sort_key fst ms)"
  by (induction ms) (auto simp: insort_map_values)

lemma length_write_items: "map length xs = map length ys \<Longrightarrow> length (write_items b xs) = length (write_items b ys)"
proof (induction xs arbitrary: ys b)
  case (Cons x xs)
  then obtain y zs where "ys = y # zs" by (cases ys) auto
  then show ?case using Cons by simp
qed simp

lemma length_write_object:
  assumes "\<forall>(k, v)\<in>set ms. length (write_json enc (h k v)) = length (write_json enc v)"
  shows "length (write_json enc (JObj (map (\<lambda>(k, v). (k, h k v)) ms))) = length (write_json enc (JObj ms))"
proof -
  have "length (write_items True (map (\<lambda>(k, v). enc k @ '':'' @ write_json enc v) (map (\<lambda>(k, v). (k, h k v)) (sort_key fst ms))))
      = length (write_items True (map (\<lambda>(k, v). enc k @ '':'' @ write_json enc v) (sort_key fst ms)))"
    by (rule length_write_items) (use assms in auto)
  then show ?thesis by (simp only: write_json.simps sort_map_values length_append)
qed

lemma same_length:
  "length (canonical_json_bytes sample_quote (verdict_json (sample_verdict\<lparr>rv_risk_score := 9\<rparr>)))
     = length (canonical_json_bytes sample_quote (verdict_json sample_verdict))"
proof -
  let ?h = "\<lambda>k v. if k = ''risk_score'' then jnat 9 else v"
  define ms where "ms = (case verdict_json sample_verdict of JObj ms \<Rightarrow> ms | _ \<Rightarrow> [])"
  have one: "verdict_json sample_verdict = JObj ms" by (simp add: ms_def verdict_json_def)
  have two: "verdict_json (sample_verdict\<lparr>rv_risk_score := 9\<rparr>) = JObj (map (\<lambda>(k, v). (k, ?h k v)) ms)"
    by (simp add: ms_def verdict_json_def)
  have "v = jnat 0" if "(''risk_score'', v) \<in> set ms" for v
    using that by (simp add: ms_def verdict_json_def sample_verdict_def)
  moreover have "length (write_json sample_quote (jnat 9)) = length (write_json sample_quote (jnat 0))"
    by (simp add: jnat_def decimal.simps)
  ultimately show ?thesis unfolding canonical_json_bytes_def one two by (intro length_write_object) auto
qed

lemma length_crypto_accepts:
  "length (canonical_json_bytes enc x) = length (canonical_json_bytes enc y) \<Longrightarrow> verify_json length_crypto enc x (sign_json length_crypto enc y k) = Inr ()"
  by (simp add: verify_json_def sign_json_def length_crypto_def sample_crypto_def)

theorem signature_binds_contract_witness:
  "verify_registry_verdict length_crypto sample_quote (signed_sample sample_verdict) = Inr ()
   \<and> verify_registry_verdict length_crypto sample_quote (signed_sample (sample_verdict\<lparr>rv_risk_score := 9\<rparr>)) = Inr ()
   \<and> forgery length_crypto sample_quote (replicate 32 (CHR ''k'')) (issued_contracts {} {} {sample_verdict})
       (rv_signature (signed_sample (sample_verdict\<lparr>rv_risk_score := 9\<rparr>))) (verdict_json (sample_verdict\<lparr>rv_risk_score := 9\<rparr>))"
proof -
  let ?w = "signed_sample (sample_verdict\<lparr>rv_risk_score := 9\<rparr>)"
  have none: "sample_verdict\<lparr>rv_signature := None\<rparr> = sample_verdict" "?w\<lparr>rv_signature := None\<rparr> = sample_verdict\<lparr>rv_risk_score := 9\<rparr>"
    by (simp_all add: sample_verdict_def signed_sample_def)
  have key: "signing_key length_crypto (rv_signature ?w) (replicate 32 (CHR ''k''))"
    by (simp add: signing_key_def sign_json_def signed_sample_def length_crypto_def sample_crypto_def)
  have sig: "rv_signature (signed_sample v) = Some (sign_json length_crypto sample_quote (verdict_json sample_verdict) ())" for v
    by (simp add: signed_sample_def)
  have unsigned: "(signed_sample sample_verdict)\<lparr>rv_signature := None\<rparr> = sample_verdict" by (simp add: sample_verdict_def signed_sample_def)
  have "verify_registry_verdict length_crypto sample_quote (signed_sample sample_verdict) = Inr ()"
    unfolding verify_registry_verdict_def sig unsigned by (simp add: length_crypto_accepts)
  moreover have w: "verify_registry_verdict length_crypto sample_quote ?w = Inr ()"
    unfolding verify_registry_verdict_def sig none(2) by (simp add: length_crypto_accepts[OF same_length])
  moreover have "sample_verdict\<lparr>rv_risk_score := 9\<rparr> \<noteq> sample_verdict" by (simp add: sample_verdict_def)
  then have "forgery length_crypto sample_quote (replicate 32 (CHR ''k'')) (issued_contracts {} {} {sample_verdict})
      (rv_signature ?w) (verdict_json (sample_verdict\<lparr>rv_risk_score := 9\<rparr>))"
    using signature_binds_contract[OF sample_quote_delimits, of length_crypto undefined "replicate 32 (CHR ''k'')" "{}" "{}" "{sample_verdict}" undefined ?w] key none w
    by auto
  ultimately show ?thesis by blast
qed

text \<open>
  C36: what is signed verifies: a contract of each kind, signed in its unsigned form and carrying that signature, is accepted, and a
  contract of any of the three kinds without a signature is refused. The conditions are those of base64 and Ed25519: decoding undoes
  encoding, keys have 32 bytes and signatures 64, and a signature verifies under the public key of its signer.
\<close>

theorem sign_verify_round_trip:
  assumes "crypto_ok cr"
  shows "verify_exec_assessment cr enc (a\<lparr>ex_signature := Some (sign_json cr enc (exec_json (a\<lparr>ex_signature := None\<rparr>)) k)\<rparr>) = Inr ()
    \<and> verify_publish_assessment cr enc (p\<lparr>pa_signature := Some (sign_json cr enc (publish_json (p\<lparr>pa_signature := None\<rparr>)) k)\<rparr>) = Inr ()
    \<and> verify_registry_verdict cr enc (v\<lparr>rv_signature := Some (sign_json cr enc (verdict_json (v\<lparr>rv_signature := None\<rparr>)) k)\<rparr>) = Inr ()
    \<and> verify_exec_assessment cr enc (a\<lparr>ex_signature := None\<rparr>) = Inl InvalidSignature
    \<and> verify_publish_assessment cr enc (p\<lparr>pa_signature := None\<rparr>) = Inl InvalidSignature
    \<and> verify_registry_verdict cr enc (v\<lparr>rv_signature := None\<rparr>) = Inl InvalidSignature"
proof -
  have "verify_json cr enc x (sign_json cr enc x k) = Inr ()" for x
    using assms by (simp add: verify_json_def sign_json_def crypto_ok_def)
  then show ?thesis
    by (simp add: verify_exec_assessment_def verify_publish_assessment_def verify_registry_verdict_def)
qed

theorem sign_verify_round_trip_witness:
  "verify_registry_verdict sample_crypto sample_quote
     (sample_verdict\<lparr>rv_signature := Some (sign_json sample_crypto sample_quote (verdict_json (sample_verdict\<lparr>rv_signature := None\<rparr>)) ())\<rparr>) = Inr ()"
proof -
  have "crypto_ok sample_crypto" by (simp add: crypto_ok_def sample_crypto_def)
  from sign_verify_round_trip[OF this] show ?thesis by blast
qed

end
