(* ===== verification/Link_Plan.thy ===== *)
theory Link_Plan
  imports Dep_Graph File_Tree Json "HOL-Library.Product_Lexorder"
begin

text \<open>
  The decisions of the linker (\<open>crates/oath-store/src/linker.rs\<close>): which version of a package is hoisted and which is
  nested, the fingerprint of a layout, the names it accepts for directories and binaries, the directory name of a package
  key, and the relative text of a symbolic link. A hash map is a list in iteration order, and the results
  do not depend on that order. Tuples of strings are ordered lexicographically, as in Rust.
\<close>

section \<open>Names\<close>

definition is_safe_path_name_part :: "string \<Rightarrow> bool" where
  "is_safe_path_name_part part \<longleftrightarrow> part \<noteq> [] \<and> part \<noteq> ''.'' \<and> part \<noteq> ''..'' \<and> CHR 0x5C \<notin> set part \<and> CHR 0x00 \<notin> set part"

datatype link_error =
    Empty_install_name | Invalid_scoped_name string | Invalid_name string
  | Remove_backup_failed | Restore_failed | Clean_stage_failed | Link_io_failed
  | Invalid_removal string | Invalid_placement string | Unsafe_placement string | Link_without_target
  | Workspace_escapes string | No_project_ancestor | Missing_unchanged string | Missing_from_store string
  | Stage_existing_failed | Promote_failed | Backup_cleanup_failed

definition validate_install_name :: "string \<Rightarrow> (link_error, unit) result" where
  "validate_install_name name =
     (if name = [] then Inl Empty_install_name
      else let parts = split_char (CHR ''/'') name
           in if starts_with name ''@'' then
                (if length parts \<noteq> 2 \<or> length (parts ! 0) = 1 \<or> \<not> is_safe_path_name_part (parts ! 0)
                    \<or> \<not> is_safe_path_name_part (parts ! 1)
                 then Inl (Invalid_scoped_name name) else Inr ())
              else if length parts \<noteq> 1 \<or> \<not> is_safe_path_name_part (parts ! 0) then Inl (Invalid_name name)
              else Inr ())"

definition install_name_of :: "dep_node \<Rightarrow> string" where
  "install_name_of node = (case dn_alias node of Some a \<Rightarrow> a | None \<Rightarrow> dn_name node)"

definition validate_node_names :: "dep_node \<Rightarrow> (link_error, unit) result" where
  "validate_node_names node =
     bind_result (validate_install_name (install_name_of node)) (\<lambda>_.
     bind_result (fold_result (\<lambda>n _. validate_install_name n) (map fst (dn_dependencies node)) ()) (\<lambda>_.
     fold_result (\<lambda>n _. validate_install_name n) (map fst (dn_resolved_peers node)) ()))"

definition validate_graph_path_names :: "dep_graph \<Rightarrow> (link_error, unit) result" where
  "validate_graph_path_names graph = fold_result (\<lambda>kn _. validate_node_names (snd kn)) (dg_nodes graph) ()"

definition is_safe_bin_name :: "string \<Rightarrow> bool" where
  "is_safe_bin_name name \<longleftrightarrow> is_safe_path_name_part name \<and> CHR ''/'' \<notin> set name"

text \<open>A path that is returned is the list of its components.\<close>

fun sanitize_components :: "path_component list \<Rightarrow> string list option" where
  "sanitize_components [] = Some []"
| "sanitize_components (Normal part # cs) =
     (if is_safe_path_name_part part then map_option (Cons part) (sanitize_components cs) else None)"
| "sanitize_components (CurDir # cs) = sanitize_components cs"
| "sanitize_components (_ # cs) = None"

definition sanitize_package_relative_path :: "string \<Rightarrow> string list option" where
  "sanitize_package_relative_path path =
     (case sanitize_components (path_components path) of
        None \<Rightarrow> None | Some safe \<Rightarrow> if safe = [] then None else Some safe)"

text \<open>\<open>package_json\<close> is the parsed file, \<open>None\<close> when it cannot be read or parsed.\<close>

definition read_bin_entries :: "json option \<Rightarrow> string \<Rightarrow> (string \<times> string list) list" where
  "read_bin_entries package_json install_name =
     (case Option.bind package_json (\<lambda>j. json_get j ''bin'') of
        Some (JStr path) \<Rightarrow>
          (let bin_name = last (split_char (CHR ''/'') install_name)
           in if is_safe_bin_name bin_name
              then (case sanitize_package_relative_path path of Some safe \<Rightarrow> [(bin_name, safe)] | None \<Rightarrow> [])
              else [])
      | Some (JObj m) \<Rightarrow>
          List.map_filter (\<lambda>(name, p).
            Option.bind (as_str p) (\<lambda>path.
              if is_safe_bin_name name then map_option (Pair name) (sanitize_package_relative_path path) else None)) m
      | _ \<Rightarrow> [])"

definition safe_fs_component :: "string \<Rightarrow> string" where
  "safe_fs_component input =
     (if input = [] then ''_''
      else let out = concat (map (\<lambda>c. if is_alnum c \<or> c \<in> set ''._-@+'' then [c] else ''%'' @ upper_hex c) input)
           in if out = ''.'' then ''%2E'' else if out = ''..'' then ''%2E%2E'' else out)"

definition virtual_key_component :: "string \<Rightarrow> string" where
  "virtual_key_component key = safe_fs_component key"

section \<open>The hoisting plan\<close>

record link_plan =
  lp_hoisted :: "(string, string) hmap"
  lp_nested :: "(string \<times> string \<times> string) list"

definition group_by_install_name :: "(string, dep_node) hmap \<Rightarrow> (string, string list) hmap" where
  "group_by_install_name nodes =
     btree (fold (\<lambda>(key, node) m.
       hm_insert (install_name_of node) ((case map_of m (install_name_of node) of None \<Rightarrow> [] | Some ks \<Rightarrow> ks) @ [key]) m) nodes [])"

definition bump :: "string \<Rightarrow> (string, nat) hmap \<Rightarrow> (string, nat) hmap" where
  "bump key m = hm_insert key ((case map_of m key of None \<Rightarrow> 0 | Some n \<Rightarrow> n) + 1) m"

definition ref_counts :: "dep_graph \<Rightarrow> (string, nat) hmap" where
  "ref_counts graph =
     fold bump (dg_roots graph) (fold (\<lambda>(_, node). fold (\<lambda>(_, dep_key). bump dep_key) (dn_dependencies node)) (dg_nodes graph) [])"

definition count_of :: "(string, nat) hmap \<Rightarrow> string \<Rightarrow> nat" where
  "count_of counts key = (case map_of counts key of None \<Rightarrow> 0 | Some n \<Rightarrow> n)"

text \<open>The order of \<open>max_by\<close>: more references first, then the smaller key; of equal elements \<open>max_by\<close> keeps the later.\<close>

definition outranks :: "(string, nat) hmap \<Rightarrow> string \<Rightarrow> string \<Rightarrow> bool" where
  "outranks counts a b \<longleftrightarrow> count_of counts b < count_of counts a \<or> (count_of counts a = count_of counts b \<and> a < b)"

definition best_key :: "(string, nat) hmap \<Rightarrow> string list \<Rightarrow> string" where
  "best_key counts keys = fold (\<lambda>b a. if outranks counts a b then a else b) (tl keys) (hd keys)"

definition hoisted_keys :: "dep_graph \<Rightarrow> (string, string) hmap" where
  "hoisted_keys graph =
     btree (map (\<lambda>(install_name, keys).
       (install_name, if length keys = 1 then hd keys else best_key (ref_counts graph) keys))
       (group_by_install_name (dg_nodes graph)))"

definition dep_install_name :: "(string, dep_node) hmap \<Rightarrow> string \<Rightarrow> string \<Rightarrow> string" where
  "dep_install_name nodes dep_name dep_key =
     (case map_of nodes dep_key of Some dep_node \<Rightarrow> install_name_of dep_node | None \<Rightarrow> dep_name)"

definition nested_of :: "(string, string) hmap \<Rightarrow> (string, dep_node) hmap \<Rightarrow> string \<times> dep_node \<Rightarrow> (string \<times> string \<times> string) list" where
  "nested_of hoisted nodes kn =
     List.map_filter (\<lambda>(dep_name, dep_key).
       let name = dep_install_name nodes dep_name dep_key
       in if map_of hoisted name = Some dep_key then None else Some (fst kn, name, dep_key)) (dn_dependencies (snd kn))"

definition build_plan :: "dep_graph \<Rightarrow> link_plan" where
  "build_plan graph =
     (let hoisted = hoisted_keys graph
      in \<lparr>lp_hoisted = hoisted,
          lp_nested = sort (concat (map (nested_of hoisted (dg_nodes graph)) (dg_nodes graph)))\<rparr>)"

section \<open>The fingerprint of a layout\<close>

definition tab :: string where "tab = [CHR 0x09]"
definition newline :: string where "newline = [CHR 0x0A]"

definition edge_lines :: "string \<Rightarrow> string \<Rightarrow> (string, string) hmap \<Rightarrow> string" where
  "edge_lines word key edges =
     concat (map (\<lambda>(name, dep_key). word @ tab @ key @ tab @ name @ tab @ dep_key @ newline)
       (sort_key fst (sort_key snd edges)))"

definition node_lines :: "string \<Rightarrow> dep_node \<Rightarrow> string" where
  "node_lines key node =
     ''pkg'' @ tab @ key @ tab @ dn_name node @ tab @ (case dn_alias node of None \<Rightarrow> [] | Some a \<Rightarrow> a) @ tab @ dn_version node @ newline
     @ edge_lines ''dep'' key (dn_dependencies node) @ edge_lines ''peer'' key (dn_resolved_peers node)"

definition link_manifest :: "dep_graph \<Rightarrow> string" where
  "link_manifest graph =
     concat (map (\<lambda>root. ''root'' @ tab @ root @ newline) (sort (dg_roots graph)))
     @ concat (map (\<lambda>key. case map_of (dg_nodes graph) key of None \<Rightarrow> [] | Some node \<Rightarrow> node_lines key node)
         (sort (map fst (dg_nodes graph))))"

section \<open>Relative links\<close>

text \<open>Paths are absolute, given by their component names; the result is the text of the link.\<close>

fun component_text :: "path_component \<Rightarrow> string" where
  "component_text (Normal n) = n"
| "component_text ParentDir = ''..''"
| "component_text CurDir = ''.''"
| "component_text RootDir = []"

definition path_text :: "path_component list \<Rightarrow> string" where
  "path_text cs = intercalate ''/'' (map component_text cs)"

definition common_len :: "'a list \<Rightarrow> 'a list \<Rightarrow> nat" where
  "common_len a b = length (takeWhile (\<lambda>(x, y). x = y) (zip a b))"

definition pathdiff_relative :: "string list \<Rightarrow> string list \<Rightarrow> string" where
  "pathdiff_relative from_path to_path =
     (let from_dir = (if from_path = [] then from_path else butlast from_path);
          n = common_len from_dir to_path;
          rel = replicate (length from_dir - n) ParentDir @ map Normal (drop n to_path)
      in if rel = [] then ''.'' else path_text rel)"

section \<open>The plan is the same for every iteration order\<close>

definition edge_list :: "(string, dep_node) hmap \<Rightarrow> (string \<times> string \<times> string) list" where
  "edge_list nodes = concat (map (\<lambda>(k, n). map (\<lambda>(d, dk). (k, d, dk)) (dn_dependencies n)) nodes)"

definition refs :: "dep_graph \<Rightarrow> string \<Rightarrow> nat" where
  "refs g key = count_list (map (snd \<circ> snd) (edge_list (dg_nodes g))) key + count_list (dg_roots g) key"

lemma in_edge_list: "(k, d, dk) \<in> set (edge_list nodes) \<longleftrightarrow> (\<exists>n. (k, n) \<in> set nodes \<and> (d, dk) \<in> set (dn_dependencies n))"
  by (auto simp: edge_list_def)

lemma in_edge_list_wf:
  assumes "hm_wf nodes" "list_all (\<lambda>(k, n). node_wf n) nodes"
  shows "(k, d, dk) \<in> set (edge_list nodes) \<longleftrightarrow> (\<exists>n. map_of nodes k = Some n \<and> map_of (dn_dependencies n) d = Some dk)"
proof -
  have "(k, n) \<in> set nodes \<longleftrightarrow> map_of nodes k = Some n" for n
    using assms(1) unfolding hm_wf_def by (metis map_of_SomeD map_of_is_SomeI)
  moreover have "(d, dk) \<in> set (dn_dependencies n) \<longleftrightarrow> map_of (dn_dependencies n) d = Some dk" if "(k, n) \<in> set nodes" for n
    using assms(2) that by (auto simp: list_all_iff node_wf_def hm_wf_def intro: map_of_is_SomeI dest: map_of_SomeD)
  ultimately show ?thesis unfolding in_edge_list by blast
qed

lemma distinct_edge_list:
  assumes "hm_wf nodes" "list_all (\<lambda>(k, n). node_wf n) nodes" shows "distinct (edge_list nodes)"
  using assms
proof (induction nodes)
  case (Cons x nodes)
  obtain k n where x: "x = (k, n)" by (cases x)
  have d: "distinct (map fst (dn_dependencies n))" using Cons.prems(2) x by (simp add: node_wf_def hm_wf_def)
  have "distinct (map (\<lambda>(d, dk). (k, d, dk)) (dn_dependencies n))"
    using d by (simp add: distinct_map inj_on_def)
  moreover have "set (map (\<lambda>(d, dk). (k, d, dk)) (dn_dependencies n)) \<inter> set (edge_list nodes) = {}"
    using Cons.prems(1) x by (force simp: in_edge_list hm_wf_def)
  moreover have "distinct (edge_list nodes)" using Cons by (simp add: hm_wf_def)
  ultimately show ?case using x by (simp add: edge_list_def)
qed (simp add: edge_list_def)

lemma count_of_bump: "count_of (bump x m) k = count_of m k + (if k = x then 1 else 0)"
  by (simp add: count_of_def bump_def split: option.splits)

lemma count_of_bumps: "count_of (fold bump xs m) k = count_of m k + count_list xs k"
  by (induction xs arbitrary: m) (auto simp: count_of_bump)

lemma count_of_edges:
  "count_of (fold (\<lambda>(_, node). fold (\<lambda>(_, dep_key). bump dep_key) (dn_dependencies node)) nodes m) key
   = count_of m key + count_list (map (snd \<circ> snd) (edge_list nodes)) key"
proof (induction nodes arbitrary: m)
  case (Cons x nodes)
  obtain k n where x: "x = (k, n)" by (cases x)
  have f: "fold (\<lambda>(_, dep_key). bump dep_key) ds m = fold bump (map snd ds) m" for ds m
    by (induction ds arbitrary: m) auto
  show ?case using Cons x by (simp add: f count_of_bumps edge_list_def comp_def)
qed (simp add: edge_list_def)

lemma count_of_refs: "count_of (ref_counts g) key = refs g key"
proof -
  have "count_of [] key = 0" by (simp add: count_of_def)
  then show ?thesis by (simp add: ref_counts_def count_of_bumps count_of_edges refs_def)
qed

definition candidates :: "dep_graph \<Rightarrow> string \<Rightarrow> string list" where
  "candidates g name = map fst (filter (\<lambda>(k, n). install_name_of n = name) (dg_nodes g))"

definition preferred :: "dep_graph \<Rightarrow> string \<Rightarrow> string \<Rightarrow> bool" where
  "preferred g a b \<longleftrightarrow> refs g b < refs g a \<or> (refs g a = refs g b \<and> a < b)"

lemma outranks_preferred: "outranks (ref_counts g) a b \<longleftrightarrow> preferred g a b"
  by (simp add: outranks_def preferred_def count_of_refs)

lemma preferred_total: "a \<noteq> b \<Longrightarrow> preferred g a b \<or> preferred g b a"
  unfolding preferred_def by (metis linorder_less_linear)

lemma preferred_trans: "preferred g a b \<Longrightarrow> preferred g b c \<Longrightarrow> preferred g a c"
  unfolding preferred_def by (metis order.strict_trans)

lemma preferred_irrefl: "\<not> preferred g a a"
  by (simp add: preferred_def)

lemma best_fold:
  "let r = fold (\<lambda>b a. if preferred g a b then a else b) ks k
   in r \<in> insert k (set ks) \<and> (\<forall>x\<in>insert k (set ks). x = r \<or> preferred g r x)"
proof (induction ks arbitrary: k)
  case (Cons x ks)
  define y where "y = (if preferred g k x then k else x)"
  have le: "z = y \<or> preferred g y z" if "z \<in> {k, x}" for z
    using that preferred_total[of k x g] by (auto simp: y_def)
  let ?r = "fold (\<lambda>b a. if preferred g a b then a else b) ks y"
  have ih: "?r \<in> insert y (set ks)" "\<forall>z\<in>insert y (set ks). z = ?r \<or> preferred g ?r z"
    using Cons[of y] by (simp_all add: Let_def)
  have in_r: "?r \<in> insert k (set (x # ks))" using ih(1) by (auto simp: y_def)
  have all_r: "z = ?r \<or> preferred g ?r z" if "z \<in> insert k (set (x # ks))" for z
  proof (cases "z \<in> {k, x}")
    case True
    have "y = ?r \<or> preferred g ?r y" using ih(2) by blast
    then show ?thesis using le[OF True] preferred_trans[of g ?r y z] by auto
  next
    case False
    then show ?thesis using ih(2) that by auto
  qed
  have eq: "fold (\<lambda>b a. if preferred g a b then a else b) (x # ks) k = ?r" by (simp add: y_def)
  show ?case unfolding Let_def eq using in_r all_r by blast
qed simp

lemma best_key_best:
  assumes "ks \<noteq> []"
  shows "best_key (ref_counts g) ks \<in> set ks \<and> (\<forall>x\<in>set ks. x = best_key (ref_counts g) ks \<or> preferred g (best_key (ref_counts g) ks) x)"
  using assms best_fold[of g "tl ks" "hd ks"] by (cases ks) (simp_all add: best_key_def outranks_preferred Let_def)

lemma map_of_group:
  "map_of (fold (\<lambda>(key, node) m.
       hm_insert (install_name_of node) ((case map_of m (install_name_of node) of None \<Rightarrow> [] | Some ks \<Rightarrow> ks) @ [key]) m) nodes m) name
   = (let ks = map fst (filter (\<lambda>(k, n). install_name_of n = name) nodes); old = map_of m name
      in if ks = [] then old else Some ((case old of None \<Rightarrow> [] | Some o1 \<Rightarrow> o1) @ ks))"
proof (induction nodes arbitrary: m)
  case (Cons x nodes)
  obtain k n where x: "x = (k, n)" by (cases x)
  show ?case using Cons x by (cases "install_name_of n = name") (auto simp: Let_def split: option.splits)
qed simp

lemma group_wf:
  "hm_wf m \<Longrightarrow> hm_wf (fold (\<lambda>(key, node) m.
       hm_insert (install_name_of node) ((case map_of m (install_name_of node) of None \<Rightarrow> [] | Some ks \<Rightarrow> ks) @ [key]) m) nodes m)"
  by (rule fold_invariant[where P = hm_wf]) auto

lemma group_candidates:
  "map_of (group_by_install_name (dg_nodes g)) name = (if candidates g name = [] then None else Some (candidates g name))"
  unfolding group_by_install_name_def by (subst map_of_btree_wf) (simp_all add: group_wf map_of_group candidates_def)

lemma hm_wf_map_values: "hm_wf (map (\<lambda>(k, v). (k, f v)) m) \<longleftrightarrow> hm_wf m"
  by (simp add: hm_wf_def comp_def case_prod_beta)

lemma map_of_map_values: "map_of (map (\<lambda>(k, v). (k, f v)) m) = map_option f \<circ> map_of m"
  by (rule map_of_map)

lemma hoisted_best:
  "map_of (hoisted_keys g) name = (if candidates g name = [] then None else Some (best_key (ref_counts g) (candidates g name)))"
proof -
  let ?f = "\<lambda>keys. if length keys = 1 then hd keys else best_key (ref_counts g) keys"
  have one: "?f ks = best_key (ref_counts g) ks" for ks
    by (cases ks) (auto simp: best_key_def)
  have "hm_wf (map (\<lambda>(n, ks). (n, ?f ks)) (group_by_install_name (dg_nodes g)))"
    by (simp only: hm_wf_map_values) (simp add: group_by_install_name_def)
  then have "map_of (hoisted_keys g) = map_option ?f \<circ> map_of (group_by_install_name (dg_nodes g))"
    unfolding hoisted_keys_def by (simp add: map_of_btree_wf map_of_map_values)
  then show ?thesis using one[of "candidates g name"] by (simp add: group_candidates)
qed

lemma set_candidates:
  assumes "hm_wf (dg_nodes g)"
  shows "k \<in> set (candidates g name) \<longleftrightarrow> (\<exists>n. map_of (dg_nodes g) k = Some n \<and> install_name_of n = name)"
proof -
  have "(k, n) \<in> set (dg_nodes g) \<longleftrightarrow> map_of (dg_nodes g) k = Some n" for n
    using assms unfolding hm_wf_def by (metis map_of_SomeD map_of_is_SomeI)
  then show ?thesis by (auto simp: candidates_def image_iff)
qed

lemma hoisted_iff:
  "map_of (hoisted_keys g) name = Some k \<longleftrightarrow>
     k \<in> set (candidates g name) \<and> (\<forall>k'\<in>set (candidates g name). k' \<noteq> k \<longrightarrow> preferred g k k')"
proof (cases "candidates g name = []")
  case False
  note b = best_key_best[OF False, of g]
  have "k = best_key (ref_counts g) (candidates g name)"
    if "k \<in> set (candidates g name)" "\<forall>k'\<in>set (candidates g name). k' \<noteq> k \<longrightarrow> preferred g k k'"
    using that b preferred_trans[of g k "best_key (ref_counts g) (candidates g name)" k] preferred_irrefl[of g k] by metis
  then show ?thesis using False b by (auto simp: hoisted_best)
qed (simp add: hoisted_best)

definition edge_nested :: "(string, string) hmap \<Rightarrow> (string, dep_node) hmap \<Rightarrow> string \<times> string \<times> string \<Rightarrow> (string \<times> string \<times> string) option" where
  "edge_nested hoisted nodes e =
     (case e of (k, d, dk) \<Rightarrow>
       if map_of hoisted (dep_install_name nodes d dk) = Some dk then None else Some (k, dep_install_name nodes d dk, dk))"

lemma edge_nested_Some:
  "edge_nested H nodes e = Some (pk, name, dk) \<longleftrightarrow>
     (\<exists>d. e = (pk, d, dk) \<and> name = dep_install_name nodes d dk \<and> map_of H name \<noteq> Some dk)"
  by (cases e) (auto simp: edge_nested_def)

lemma nested_edges: "concat (map (nested_of hoisted nodes) xs) = List.map_filter (edge_nested hoisted nodes) (edge_list xs)"
proof (induction xs)
  case (Cons x xs)
  obtain k n where x: "x = (k, n)" by (cases x)
  have "List.map_filter (\<lambda>(d, dk). let name = dep_install_name nodes d dk
         in if map_of hoisted name = Some dk then None else Some (k, name, dk)) ds
      = List.map_filter (edge_nested hoisted nodes) (map (\<lambda>(d, dk). (k, d, dk)) ds)" for ds
    by (induction ds) (auto simp: map_filter_simps edge_nested_def Let_def)
  then have "nested_of hoisted nodes x = List.map_filter (edge_nested hoisted nodes) (map (\<lambda>(d, dk). (k, d, dk)) (dn_dependencies n))"
    unfolding x nested_of_def fst_conv snd_conv .
  then show ?case using Cons x by (simp add: edge_list_def map_filter_def)
qed (simp add: edge_list_def map_filter_simps)

definition same_layout :: "dep_graph \<Rightarrow> dep_graph \<Rightarrow> bool" where
  "same_layout g h \<longleftrightarrow> (\<forall>k. map_option install_name_of (graph_get g k) = map_option install_name_of (graph_get h k)
        \<and> map_option (map_of \<circ> dn_dependencies) (graph_get g k) = map_option (map_of \<circ> dn_dependencies) (graph_get h k))
     \<and> mset (dg_roots g) = mset (dg_roots h)"

lemma same_layout_edges:
  assumes "graph_wf g" "graph_wf h" "same_layout g h"
  shows "mset (edge_list (dg_nodes g)) = mset (edge_list (dg_nodes h))"
proof -
  note wf = assms(1,2)[unfolded graph_wf_def]
  have "(\<exists>n. map_of (dg_nodes g) k = Some n \<and> map_of (dn_dependencies n) d = Some dk)
      \<longleftrightarrow> (\<exists>n. map_of (dg_nodes h) k = Some n \<and> map_of (dn_dependencies n) d = Some dk)" for k d dk
  proof -
    have "map_option (map_of \<circ> dn_dependencies) (map_of (dg_nodes g) k) = map_option (map_of \<circ> dn_dependencies) (map_of (dg_nodes h) k)"
      using assms(3) by (simp add: same_layout_def graph_get_def)
    then show ?thesis by (cases "map_of (dg_nodes g) k"; cases "map_of (dg_nodes h) k") auto
  qed
  then have "set (edge_list (dg_nodes g)) = set (edge_list (dg_nodes h))"
    using in_edge_list_wf wf by (auto simp: set_eq_iff)
  then show ?thesis using distinct_edge_list wf by (simp add: set_eq_iff_mset_eq_distinct)
qed

lemma same_layout_refs:
  assumes "graph_wf g" "graph_wf h" "same_layout g h" shows "refs g = refs h"
proof -
  have c: "count_list xs x = count (mset xs) x" for xs :: "string list" and x by (simp add: count_mset count_list_eq_length_filter)
  show ?thesis
    using same_layout_edges[OF assms] assms(3) by (simp add: refs_def c fun_eq_iff same_layout_def)
qed

lemma same_layout_names:
  assumes "same_layout g h" shows "dep_install_name (dg_nodes g) d dk = dep_install_name (dg_nodes h) d dk"
proof -
  have "map_option install_name_of (map_of (dg_nodes g) dk) = map_option install_name_of (map_of (dg_nodes h) dk)"
    using assms by (simp add: same_layout_def graph_get_def)
  then show ?thesis by (cases "map_of (dg_nodes g) dk"; cases "map_of (dg_nodes h) dk") (auto simp: dep_install_name_def)
qed

lemma same_layout_hoisted:
  assumes "graph_wf g" "graph_wf h" "same_layout g h" shows "hoisted_keys g = hoisted_keys h"
proof (rule sorted_hmap_unique)
  have "set (candidates g n) = set (candidates h n)" for n
  proof -
    have "map_option install_name_of (map_of (dg_nodes g) k) = map_option install_name_of (map_of (dg_nodes h) k)" for k
      using assms(3) by (simp add: same_layout_def graph_get_def)
    then have "(\<exists>m. map_of (dg_nodes g) k = Some m \<and> install_name_of m = n) \<longleftrightarrow> (\<exists>m. map_of (dg_nodes h) k = Some m \<and> install_name_of m = n)" for k
      using spec[of _ k] by (cases "map_of (dg_nodes g) k"; cases "map_of (dg_nodes h) k") (metis option.simps(3,8,9) option.inject)+
    then show ?thesis using assms(1,2) by (auto simp: set_candidates graph_wf_def)
  qed
  moreover have "preferred g = preferred h" using same_layout_refs[OF assms] by (simp add: preferred_def fun_eq_iff)
  ultimately have "map_of (hoisted_keys g) n = Some k \<longleftrightarrow> map_of (hoisted_keys h) n = Some k" for n k
    by (simp add: hoisted_iff)
  then show "map_of (hoisted_keys g) = map_of (hoisted_keys h)" by (metis ext not_None_eq)
qed (simp_all add: hoisted_keys_def btree_sorted)

lemma mset_map_filter: "mset xs = mset ys \<Longrightarrow> mset (List.map_filter f xs) = mset (List.map_filter f ys)"
  by (simp add: map_filter_def)

lemma build_plan_same:
  assumes "graph_wf g" "graph_wf h" "same_layout g h" shows "build_plan g = build_plan h"
proof -
  let ?H = "hoisted_keys g"
  have "edge_nested ?H (dg_nodes g) = edge_nested ?H (dg_nodes h)"
    by (rule ext) (auto simp: edge_nested_def same_layout_names[OF assms(3)] split: prod.split)
  then have "mset (List.map_filter (edge_nested ?H (dg_nodes g)) (edge_list (dg_nodes g)))
      = mset (List.map_filter (edge_nested ?H (dg_nodes h)) (edge_list (dg_nodes h)))"
    using mset_map_filter[OF same_layout_edges[OF assms]] by simp
  then have "sort (List.map_filter (edge_nested ?H (dg_nodes g)) (edge_list (dg_nodes g)))
      = sort (List.map_filter (edge_nested ?H (dg_nodes h)) (edge_list (dg_nodes h)))"
    by (intro properties_for_sort) simp_all
  then show ?thesis using same_layout_hoisted[OF assms] by (simp add: build_plan_def nested_edges Let_def)
qed

text \<open>
  C38: the hoisting plan is right and deterministic. At the top level every install name of the graph has one version, the
  one with the most references from packages and roots, the smaller key on a tie. A dependency is
  nested below its package exactly when the version it needs is not the hoisted one of that name, so
  every dependency edge of the graph is served. Graphs that agree on names, edges and roots get the same plan, whatever the iteration
  order of their hash maps.
\<close>

theorem build_plan_correct:
  assumes "graph_wf g"
  shows "(\<forall>name k. map_of (lp_hoisted (build_plan g)) name = Some k \<longleftrightarrow>
        k \<in> set (candidates g name) \<and> (\<forall>k'\<in>set (candidates g name). k' \<noteq> k \<longrightarrow> preferred g k k'))
    \<and> (\<forall>name. candidates g name \<noteq> [] \<longrightarrow> map_of (lp_hoisted (build_plan g)) name \<noteq> None)
    \<and> (\<forall>pk name dk. (pk, name, dk) \<in> set (lp_nested (build_plan g)) \<longleftrightarrow>
        (\<exists>n d. graph_get g pk = Some n \<and> map_of (dn_dependencies n) d = Some dk
           \<and> name = dep_install_name (dg_nodes g) d dk \<and> map_of (lp_hoisted (build_plan g)) name \<noteq> Some dk))
    \<and> (\<forall>h. graph_wf h \<and> same_layout g h \<longrightarrow> build_plan h = build_plan g)"
proof -
  have p: "lp_hoisted (build_plan g) = hoisted_keys g"
    "set (lp_nested (build_plan g)) = set (List.map_filter (edge_nested (hoisted_keys g) (dg_nodes g)) (edge_list (dg_nodes g)))"
    by (simp_all add: build_plan_def nested_edges Let_def)
  have "(pk, name, dk) \<in> set (lp_nested (build_plan g)) \<longleftrightarrow>
      (\<exists>d. (pk, d, dk) \<in> set (edge_list (dg_nodes g)) \<and> name = dep_install_name (dg_nodes g) d dk \<and> map_of (hoisted_keys g) name \<noteq> Some dk)"
    for pk name dk
    unfolding p(2) in_map_filter edge_nested_Some by blast
  then have "(pk, name, dk) \<in> set (lp_nested (build_plan g)) \<longleftrightarrow>
      (\<exists>n d. graph_get g pk = Some n \<and> map_of (dn_dependencies n) d = Some dk
           \<and> name = dep_install_name (dg_nodes g) d dk \<and> map_of (hoisted_keys g) name \<noteq> Some dk)" for pk name dk
    using in_edge_list_wf[of "dg_nodes g"] assms unfolding graph_wf_def graph_get_def by blast
  moreover have "build_plan h = build_plan g" if "graph_wf h \<and> same_layout g h" for h
    by (rule build_plan_same[OF assms, symmetric]) (use that in simp_all)
  moreover have "map_of (hoisted_keys g) name \<noteq> None" if "candidates g name \<noteq> []" for name
    using that by (simp add: hoisted_best)
  ultimately show ?thesis unfolding p(1) using hoisted_iff[of g] by blast
qed

definition sample_pkg :: "string \<Rightarrow> string \<Rightarrow> (string, string) hmap \<Rightarrow> dep_node" where
  "sample_pkg name version deps = \<lparr>dn_name = name, dn_alias = None, dn_version = version, dn_resolved = [], dn_integrity = None,
     dn_dependencies = deps, dn_has_install_script = False, dn_dev = False, dn_optional = False, dn_peer_dependencies = [],
     dn_optional_peers = {}, dn_resolved_peers = []\<rparr>"

definition sample_conflict :: dep_graph where
  "sample_conflict = new_graph\<lparr>dg_nodes := [(''a@1'', sample_pkg ''a'' ''1'' [(''b'', ''b@2'')]), (''b@1'', sample_pkg ''b'' ''1'' []),
     (''b@2'', sample_pkg ''b'' ''2'' [])], dg_roots := [''a@1'', ''b@1'']\<rparr>"

theorem build_plan_correct_witness:
  "map_of (lp_hoisted (build_plan sample_conflict)) ''b'' = Some ''b@1''
   \<and> (''a@1'', ''b'', ''b@2'') \<in> set (lp_nested (build_plan sample_conflict))"
proof -
  have wf: "graph_wf sample_conflict"
    by (simp add: graph_wf_def sample_conflict_def hm_wf_def node_wf_def sample_pkg_def)
  have c: "candidates sample_conflict ''b'' = [''b@1'', ''b@2'']"
    by (simp add: candidates_def sample_conflict_def install_name_of_def sample_pkg_def)
  have r: "preferred sample_conflict ''b@1'' ''b@2''"
    by (simp add: preferred_def refs_def edge_list_def sample_conflict_def sample_pkg_def)
  have h: "map_of (lp_hoisted (build_plan sample_conflict)) ''b'' = Some ''b@1''"
    using build_plan_correct[OF wf] c r by simp
  have "graph_get sample_conflict ''a@1'' = Some (sample_pkg ''a'' ''1'' [(''b'', ''b@2'')])"
    "dep_install_name (dg_nodes sample_conflict) ''b'' ''b@2'' = ''b''"
    by (simp_all add: graph_get_def dep_install_name_def sample_conflict_def install_name_of_def sample_pkg_def)
  then have "(''a@1'', ''b'', ''b@2'') \<in> set (lp_nested (build_plan sample_conflict))"
    unfolding build_plan_correct[OF wf, THEN conjunct2, THEN conjunct2, THEN conjunct1, THEN spec, THEN spec, THEN spec]
    using h by (intro exI[of _ "sample_pkg ''a'' ''1'' [(''b'', ''b@2'')]"] exI[of _ "''b''"]) (simp add: sample_pkg_def)
  then show ?thesis using h by blast
qed

section \<open>Names stay where they belong\<close>

lemma safe_fs_component_escape: "safe_fs_component = escape_component"
  unfolding safe_fs_component_def escape_component_def escape_byte_def is_kept_def by (rule ext) (simp add: comp_def)

interpretation vkey: safe_component virtual_key_component
proof -
  have "virtual_key_component = escape_component" using safe_fs_component_escape by (simp add: fun_eq_iff virtual_key_component_def)
  then show "safe_component virtual_key_component" using escape_is_safe_component by simp
qed

lemma safe_part_name: "is_safe_path_name_part n \<Longrightarrow> CHR ''/'' \<notin> set n \<Longrightarrow> safe_name n"
  by (simp add: is_safe_path_name_part_def safe_name_def)

lemma sanitize_components_Some:
  "sanitize_components cs = Some ps \<Longrightarrow> ps = map (\<lambda>c. case c of Normal n \<Rightarrow> n | _ \<Rightarrow> []) (filter is_normal cs) \<and> (\<forall>n\<in>set ps. Normal n \<in> set cs)"
  by (induction cs arbitrary: ps rule: sanitize_components.induct) (auto simp: is_normal_def split: if_splits)

lemma sanitize_path_safe:
  assumes "sanitize_package_relative_path path = Some ps" shows "ps \<noteq> [] \<and> (\<forall>n\<in>set ps. safe_name n)"
proof -
  have s: "sanitize_components (path_components path) = Some ps" "ps \<noteq> []"
    using assms by (auto simp: sanitize_package_relative_path_def split: option.splits if_splits)
  have "safe_name n" if "n \<in> set ps" for n
    using component_name[of n path] sanitize_components_Some[OF s(1)] that by (simp add: safe_name_def)
  then show ?thesis using s(2) by blast
qed

lemma path_components_names:
  assumes "ps \<noteq> []" "\<forall>n\<in>set ps. safe_name n" shows "path_components (intercalate ''/'' ps) = map Normal ps"
proof -
  have sp: "split_char (CHR ''/'') (intercalate ''/'' ps) = ps"
    using split_char_intercalate[OF assms(1)] assms(2) by (simp add: safe_name_def)
  have "\<not> is_absolute (intercalate ''/'' ps)"
  proof
    assume "is_absolute (intercalate ''/'' ps)"
    then obtain t where "intercalate ''/'' ps = CHR ''/'' # t" by (auto simp: is_absolute_def starts_with_iff)
    then have "hd ps = []" using sp by (metis list.sel(1) split_char.simps(2))
    then show False using assms by (metis hd_in_set safe_name_def)
  qed
  moreover have "hd ps \<noteq> ''.''" using assms by (metis hd_in_set safe_name_def)
  moreover have "body_components ps = map Normal ps"
    using assms(2) unfolding body_components_def by (induction ps) (auto simp: plain_component_def safe_name_def)
  ultimately show ?thesis by (simp add: path_components_def sp)
qed

lemma walk_names: "walk d (map Normal ps) = d @ ps"
  by (induction ps arbitrary: d) auto

lemma validate_name_parts:
  assumes "validate_install_name name = Inr ()"
  shows "\<forall>n\<in>set (split_char (CHR ''/'') name). safe_name n"
    and "split_char (CHR ''/'') name = [name] \<and> \<not> starts_with name ''@''
         \<or> (\<exists>s n. split_char (CHR ''/'') name = [s, n] \<and> starts_with s ''@'' \<and> 1 < length s)"
proof -
  let ?ps = "split_char (CHR ''/'') name"
  have name: "intercalate ''/'' ?ps = name" by (rule intercalate_split_char)
  have nz: "\<forall>n\<in>set ?ps. CHR ''/'' \<notin> set n" using split_char_pieces by metis
  consider (plain) p where "?ps = [p]" "\<not> starts_with name ''@''" "is_safe_path_name_part p"
    | (scoped) s n where "?ps = [s, n]" "starts_with name ''@''" "length s \<noteq> 1" "is_safe_path_name_part s" "is_safe_path_name_part n"
    using assms by (auto simp: validate_install_name_def Let_def length_Suc_conv numeral_2_eq_2 split: if_splits)
  then show "\<forall>n\<in>set ?ps. safe_name n"
    using nz safe_part_name by cases simp_all
  from \<open>validate_install_name name = Inr ()\<close> show "?ps = [name] \<and> \<not> starts_with name ''@''
         \<or> (\<exists>s n. ?ps = [s, n] \<and> starts_with s ''@'' \<and> 1 < length s)"
    using \<open>\<forall>n\<in>set ?ps. safe_name n\<close> name
  proof (cases "starts_with name ''@''")
    case True
    then obtain s n where sn: "?ps = [s, n]" "length s \<noteq> 1" "is_safe_path_name_part s"
      using assms by (auto simp: validate_install_name_def Let_def length_Suc_conv numeral_2_eq_2 split: if_splits)
    have "s \<noteq> []" using sn(3) by (simp add: is_safe_path_name_part_def)
    moreover have "starts_with s ''@''" using True name sn(1) calculation by (cases s) (auto simp: starts_with_def)
    ultimately show ?thesis using sn(1,2) by (cases s) auto
  next
    case False
    then obtain p where "?ps = [p]"
      using assms by (auto simp: validate_install_name_def Let_def length_Suc_conv split: if_splits)
    then show ?thesis using False name by simp
  qed
qed

lemma read_bin_cases:
  assumes "(b, p) \<in> set (read_bin_entries package_json name)"
  shows "\<exists>path. is_safe_bin_name b \<and> sanitize_package_relative_path path = Some p"
proof (cases "Option.bind package_json (\<lambda>j. json_get j ''bin'')")
  case (Some j)
  show ?thesis
  proof (cases j)
    case (JStr path)
    let ?n = "last (split_char (CHR ''/'') name)"
    have "(b, p) \<in> set (if is_safe_bin_name ?n then (case sanitize_package_relative_path path of Some safe \<Rightarrow> [(?n, safe)] | None \<Rightarrow> []) else [])"
      using assms unfolding read_bin_entries_def Some JStr option.case json.case Let_def .
    then have "is_safe_bin_name b \<and> sanitize_package_relative_path path = Some p"
      by (cases "sanitize_package_relative_path path"; cases "is_safe_bin_name ?n") simp_all
    then show ?thesis by blast
  next
    case (JObj m)
    let ?F = "\<lambda>(name, p). Option.bind (as_str p) (\<lambda>path.
              if is_safe_bin_name name then map_option (Pair name) (sanitize_package_relative_path path) else None)"
    have "(b, p) \<in> set (List.map_filter ?F m)" using assms unfolding read_bin_entries_def Some JObj option.case json.case .
    then obtain x where x: "?F x = Some (b, p)" unfolding in_map_filter by blast
    obtain nm v where "x = (nm, v)" by (cases x)
    then obtain path where "(if is_safe_bin_name nm then map_option (Pair nm) (sanitize_package_relative_path path) else None) = Some (b, p)"
      using x by (auto simp: bind_eq_Some_conv)
    then show ?thesis by (auto split: if_splits)
  qed (use assms Some in \<open>auto simp: read_bin_entries_def\<close>)
qed (use assms in \<open>simp add: read_bin_entries_def\<close>)

text \<open>
  What a package calls itself and its programs cannot lead the linker out of its directories: an accepted install name leads
  from any directory to a place one level below it, or two for a scoped name, and each program of a package has a name
  that is a single component of \<open>.bin\<close> and a target below the directory of the package.
\<close>

theorem link_names_contained:
  "(validate_install_name name = Inr () \<longrightarrow>
      walk d (path_components name) = d @ split_char (CHR ''/'') name
      \<and> length (split_char (CHR ''/'') name) = (if starts_with name ''@'' then 2 else 1))
   \<and> (\<forall>(b, p)\<in>set (read_bin_entries package_json name).
        walk d (path_components b) = d @ [b] \<and> p \<noteq> [] \<and> prefix d (walk d (map Normal p)) \<and> (\<forall>n\<in>set p. safe_name n))"
proof -
  have "walk d (path_components name) = d @ split_char (CHR ''/'') name
      \<and> length (split_char (CHR ''/'') name) = (if starts_with name ''@'' then 2 else 1)" if v: "validate_install_name name = Inr ()"
  proof -
    let ?ps = "split_char (CHR ''/'') name"
    have i: "intercalate ''/'' ?ps = name" by (rule intercalate_split_char)
    have "path_components name = map Normal ?ps" using path_components_names[OF _ validate_name_parts(1)[OF v]] i by simp
    moreover have "starts_with name ''@''" if "?ps = [s, n]" "starts_with s ''@''" for s n
      using i that by (cases s) (auto simp: starts_with_def)
    ultimately show ?thesis using validate_name_parts(2)[OF v] by (auto simp: walk_names)
  qed
  moreover have "walk d (path_components b) = d @ [b] \<and> p \<noteq> [] \<and> prefix d (walk d (map Normal p)) \<and> (\<forall>n\<in>set p. safe_name n)"
    if e: "(b, p) \<in> set (read_bin_entries package_json name)" for b p
  proof -
    obtain path where s: "is_safe_bin_name b" "sanitize_package_relative_path path = Some p"
      using read_bin_cases[OF e] by blast
    have "safe_name b" using s(1) safe_part_name by (simp add: is_safe_bin_name_def)
    then have "path_components b = [Normal b]" using path_components_names[of "[b]"] by simp
    then show ?thesis using sanitize_path_safe[OF s(2)] by (simp add: walk_names)
  qed
  ultimately show ?thesis by blast
qed

theorem link_names_contained_witness:
  "read_bin_entries (Some (JObj [(''bin'', JStr ''./cli.js'')])) ''@s/tool'' = [(''tool'', [''cli.js''])]
   \<and> walk [''x''] (path_components ''tool'') = [''x'', ''tool'']
   \<and> validate_install_name ''../x'' \<noteq> Inr ()"
proof -
  have r: "read_bin_entries (Some (JObj [(''bin'', JStr ''./cli.js'')])) ''@s/tool'' = [(''tool'', [''cli.js''])]" by code_simp
  have "\<not> walk [] (path_components ''../x'') = [] @ split_char (CHR ''/'') ''../x''" by code_simp
  then show ?thesis
    using r link_names_contained[of "''@s/tool''" "[''x'']" "Some (JObj [(''bin'', JStr ''./cli.js'')])"] link_names_contained[of "''../x''" "[]" None] by auto
qed

section \<open>Relative links lead to their target\<close>

lemma component_text_split:
  assumes "cs \<noteq> []" "\<forall>c\<in>set cs. c = ParentDir \<or> (\<exists>n. c = Normal n \<and> safe_name n)"
  shows "path_components (path_text cs) = cs"
proof -
  have t: "component_text c \<noteq> [] \<and> component_text c \<noteq> ''.'' \<and> CHR ''/'' \<notin> set (component_text c) \<and> plain_component (component_text c) = c"
    if "c \<in> set cs" for c using bspec[OF assms(2) that] by (elim disjE exE) (simp_all add: safe_name_def plain_component_def)
  have sp: "split_char (CHR ''/'') (path_text cs) = map component_text cs"
    unfolding path_text_def by (rule split_char_intercalate) (use assms(1) t in auto)
  have "\<not> is_absolute (path_text cs)"
  proof
    assume "is_absolute (path_text cs)"
    then obtain u where "path_text cs = CHR ''/'' # u" by (auto simp: is_absolute_def starts_with_iff)
    then have "hd (map component_text cs) = []" using sp by (metis list.sel(1) split_char.simps(2))
    then show False using t assms(1) by (cases cs) auto
  qed
  moreover have "hd (map component_text cs) \<noteq> ''.''" using t assms(1) by (cases cs) auto
  moreover have "body_components (map component_text cs) = cs"
  proof -
    have "filter (\<lambda>p. p \<noteq> [] \<and> p \<noteq> ''.'') (map component_text cs) = map component_text cs"
      using t by (auto simp: filter_id_conv)
    then show ?thesis using t by (simp add: body_components_def map_idI)
  qed
  ultimately show ?thesis by (simp add: path_components_def sp)
qed

lemma walk_up: "walk d (replicate k ParentDir @ cs) = walk (take (length d - k) d) cs"
proof (induction k arbitrary: d)
  case (Suc k)
  have "butlast d = take (length d - 1) d" by (rule butlast_conv_take)
  then show ?case using Suc[of "butlast d"] by (simp add: min_def)
qed simp

lemma take_common_len: "take (common_len a b) a = take (common_len a b) b"
proof (induction a arbitrary: b)
  case (Cons x a)
  then show ?case by (cases b) (auto simp: common_len_def)
qed (simp add: common_len_def)

lemma common_len_bound: "common_len a b \<le> length a"
  unfolding common_len_def by (metis length_takeWhile_le length_zip min.bounded_iff)

lemma walk_diff:
  "walk d (replicate (length d - common_len d t) ParentDir @ map Normal (drop (common_len d t) t)) = t"
  using common_len_bound[of d t] by (simp add: walk_up walk_names) (metis append_take_drop_id take_common_len)

text \<open>
  The relative text of a symbolic link leads to its target: followed from the directory that contains the link, it arrives exactly at
  the path it was computed for, however deep the two are and whatever they share.
\<close>

theorem pathdiff_relative_leads:
  assumes "from_path \<noteq> []" "\<forall>n\<in>set to_path. safe_name n"
  shows "walk (butlast from_path) (path_components (pathdiff_relative from_path to_path)) = to_path"
proof -
  let ?d = "butlast from_path"
  let ?n = "common_len ?d to_path"
  let ?rel = "replicate (length ?d - ?n) ParentDir @ map Normal (drop ?n to_path)"
  have w: "walk ?d ?rel = to_path" by (rule walk_diff)
  show ?thesis
  proof (cases "?rel = []")
    case True
    have "path_components ''.'' = [CurDir]" by code_simp
    moreover have "pathdiff_relative from_path to_path = ''.''"
      using True assms(1) unfolding pathdiff_relative_def Let_def by (simp only: if_True if_False simp_thms)
    ultimately show ?thesis using w True by simp
  next
    case False
    have "\<forall>c\<in>set ?rel. c = ParentDir \<or> (\<exists>n. c = Normal n \<and> safe_name n)"
      using assms(2) by (auto dest: in_set_dropD)
    from component_text_split[OF False this]
    have "path_components (pathdiff_relative from_path to_path) = ?rel"
      using False assms(1) unfolding pathdiff_relative_def Let_def by (simp only: if_False)
    then show ?thesis using w by simp
  qed
qed

theorem pathdiff_relative_leads_witness:
  "pathdiff_relative [''a'', ''b'', ''c'', ''link''] [''a'', ''b'', ''d'', ''t''] = ''../d/t''
   \<and> walk [''a'', ''b'', ''c''] (path_components ''../d/t'') = [''a'', ''b'', ''d'', ''t'']"
proof -
  have "pathdiff_relative [''a'', ''b'', ''c'', ''link''] [''a'', ''b'', ''d'', ''t''] = ''../d/t''" by code_simp
  then show ?thesis
    using pathdiff_relative_leads[of "[''a'', ''b'', ''c'', ''link'']" "[''a'', ''b'', ''d'', ''t'']"] by (simp add: safe_name_def)
qed

text \<open>The fingerprint has no source and no integrity, so a package that comes from elsewhere under the same version is not relinked.\<close>

lemma link_manifest_ignores_source:
  "link_manifest (g\<lparr>dg_nodes := map (\<lambda>(k, n). (k, n\<lparr>dn_resolved := f k, dn_integrity := i k\<rparr>)) (dg_nodes g)\<rparr>) = link_manifest g"
proof -
  let ?f = "\<lambda>(k, n). (k, n\<lparr>dn_resolved := f k, dn_integrity := i k\<rparr>)"
  have m: "map_of (map ?f nodes) key = map_option (\<lambda>n. n\<lparr>dn_resolved := f key, dn_integrity := i key\<rparr>) (map_of nodes key)" for nodes key
    by (induction nodes) auto
  have k: "map fst (map ?f nodes) = map fst nodes" for nodes by (induction nodes) auto
  have "(case map_of (map ?f nodes) key of None \<Rightarrow> [] | Some node \<Rightarrow> node_lines key node)
      = (case map_of nodes key of None \<Rightarrow> [] | Some node \<Rightarrow> node_lines key node)" for nodes key
    unfolding m by (cases "map_of nodes key") (simp_all add: node_lines_def)
  moreover define h where "h = g\<lparr>dg_nodes := map ?f (dg_nodes g)\<rparr>"
  then have "dg_nodes h = map ?f (dg_nodes g)" "dg_roots h = dg_roots g" by simp_all
  ultimately have "link_manifest h = link_manifest g" by (simp only: link_manifest_def k)
  then show ?thesis by (simp add: h_def)
qed

end
