(* ===== verification/Link_Fs.thy ===== *)
theory Link_Fs
  imports File_Tree
begin

text \<open>
  The file system as the linker meets it: paths that lead through symbolic links, and the calls of \<open>std::fs\<close>
  the linker makes. A path is followed component by component, and a link's text replaces the link; a chain longer
  than the system's limit is an error. An action takes the tree and returns its result and the tree it leaves,
  also when it fails half way. A hard link is the content of the file at that time. The predicate \<open>triple\<close> states what an action
  does, with separate conditions for success and failure.
\<close>

section \<open>Following links\<close>

definition symlink_limit :: nat where
  "symlink_limit = 40"

datatype fs_error = Not_found | Not_a_directory | Too_many_links

text \<open>
  Where a path leads from a real directory. With \<open>create\<close> the last component may be missing, and the result is the
  place where a new entry of that path goes.
\<close>

function follow :: "bool \<Rightarrow> nat \<Rightarrow> ftree \<Rightarrow> string list \<Rightarrow> path_component list \<Rightarrow> (fs_error, string list) result" where
  "follow create k t cur [] = Inr cur"
| "follow create k t cur (RootDir # cs) = follow create k t [] cs"
| "follow create k t cur (CurDir # cs) = follow create k t cur cs"
| "follow create k t cur (ParentDir # cs) = follow create k t (butlast cur) cs"
| "follow create k t cur (Normal n # cs) =
     (case tree_lookup (cur @ [n]) t of
        None \<Rightarrow> if create \<and> cs = [] then Inr (cur @ [n]) else Inl Not_found
      | Some (Dir _) \<Rightarrow> follow create k t (cur @ [n]) cs
      | Some (File _) \<Rightarrow> if cs = [] then Inr (cur @ [n]) else Inl Not_a_directory
      | Some (Special None) \<Rightarrow> if cs = [] then Inr (cur @ [n]) else Inl Not_a_directory
      | Some (Special (Some text)) \<Rightarrow>
          (case k of 0 \<Rightarrow> Inl Too_many_links | Suc k \<Rightarrow> follow create k t cur (path_components text @ cs)))"
  by pat_completeness auto
termination
  by (relation "measures [\<lambda>(_, k, t, cur, cs). k, \<lambda>(_, k, t, cur, cs). length cs]") auto

definition real_path :: "ftree \<Rightarrow> string list \<Rightarrow> (fs_error, string list) result" where
  "real_path t p = follow False symlink_limit t [] (map Normal p)"

definition path_exists :: "ftree \<Rightarrow> string list \<Rightarrow> bool" where
  "path_exists t p \<longleftrightarrow> is_ok (real_path t p)"

definition is_dir_at :: "ftree \<Rightarrow> string list \<Rightarrow> bool" where
  "is_dir_at t p \<longleftrightarrow> (case tree_lookup p t of Some (Dir _) \<Rightarrow> True | _ \<Rightarrow> False)"

definition path_is_dir :: "ftree \<Rightarrow> string list \<Rightarrow> bool" where
  "path_is_dir t p \<longleftrightarrow> (case real_path t p of Inr r \<Rightarrow> is_dir_at t r | Inl e \<Rightarrow> False)"

text \<open>The place of the entry of a path, the last component not followed.\<close>

definition entry_place :: "ftree \<Rightarrow> string list \<Rightarrow> (fs_error, string list) result" where
  "entry_place t p =
     bind_result (real_path t (butlast p)) (\<lambda>d.
     bind_result (ensure (is_dir_at t d) Not_a_directory) (\<lambda>_.
     Inr (d @ [last p])))"

section \<open>Actions\<close>

type_synonym ('e, 'a) action = "ftree \<Rightarrow> ('e, 'a) result \<times> ftree"

definition act_return :: "'a \<Rightarrow> ('e, 'a) action" where
  "act_return a = (\<lambda>t. (Inr a, t))"

definition act_fail :: "'e \<Rightarrow> ('e, 'a) action" where
  "act_fail e = (\<lambda>t. (Inl e, t))"

definition act_bind :: "('e, 'a) action \<Rightarrow> ('a \<Rightarrow> ('e, 'b) action) \<Rightarrow> ('e, 'b) action" where
  "act_bind m f = (\<lambda>t. case m t of (Inl e, t') \<Rightarrow> (Inl e, t') | (Inr a, t') \<Rightarrow> f a t')"

definition act_get :: "(ftree \<Rightarrow> ('e, 'a) action) \<Rightarrow> ('e, 'a) action" where
  "act_get f = (\<lambda>t. f t t)"

definition act_step :: "'e \<Rightarrow> (ftree \<Rightarrow> ftree option) \<Rightarrow> ('e, unit) action" where
  "act_step e f = (\<lambda>t. case f t of None \<Rightarrow> (Inl e, t) | Some t' \<Rightarrow> (Inr (), t'))"

fun act_fold :: "('x \<Rightarrow> 's \<Rightarrow> ('e, 's) action) \<Rightarrow> 'x list \<Rightarrow> 's \<Rightarrow> ('e, 's) action" where
  "act_fold f [] s = act_return s"
| "act_fold f (x # xs) s = act_bind (f x s) (act_fold f xs)"

section \<open>Calls\<close>

text \<open>\<open>create_dir_all\<close>: nothing to do for a directory, otherwise the parent is made first.\<close>

definition new_entry :: "string list \<Rightarrow> ftree \<Rightarrow> ftree \<Rightarrow> ftree option" where
  "new_entry p v t =
     (case entry_place t p of
        Inl e \<Rightarrow> None
      | Inr q \<Rightarrow> if tree_lookup q t = None then tree_put q v t else None)"

fun make_dirs_rev :: "string list \<Rightarrow> ftree \<Rightarrow> ftree option" where
  "make_dirs_rev [] t = (if is_dir_at t [] then Some t else None)"
| "make_dirs_rev (n # rp) t =
     (if path_is_dir t (rev (n # rp)) then Some t
      else Option.bind (make_dirs_rev rp t) (new_entry (rev (n # rp)) (Dir [])))"

definition make_dirs :: "string list \<Rightarrow> ftree \<Rightarrow> ftree option" where
  "make_dirs p t = make_dirs_rev (rev p) t"

definition symlink :: "string \<Rightarrow> string list \<Rightarrow> ftree \<Rightarrow> ftree option" where
  "symlink text p t = new_entry p (Special (Some text)) t"

definition fs_write :: "string list \<Rightarrow> string \<Rightarrow> ftree \<Rightarrow> ftree option" where
  "fs_write p data t =
     (case follow True symlink_limit t [] (map Normal p) of
        Inl e \<Rightarrow> None
      | Inr q \<Rightarrow>
          (case tree_lookup q t of
             None \<Rightarrow> tree_put q (File data) t
           | Some (File _) \<Rightarrow> tree_put q (File data) t
           | _ \<Rightarrow> None))"

definition fs_read :: "ftree \<Rightarrow> string list \<Rightarrow> string option" where
  "fs_read t p =
     (case real_path t p of
        Inl e \<Rightarrow> None
      | Inr q \<Rightarrow> (case tree_lookup q t of Some (File d) \<Rightarrow> Some d | _ \<Rightarrow> None))"

section \<open>What an action does\<close>

definition triple :: "(ftree \<Rightarrow> bool) \<Rightarrow> ('e, 'a) action \<Rightarrow> ('a \<Rightarrow> ftree \<Rightarrow> bool) \<Rightarrow> (ftree \<Rightarrow> bool) \<Rightarrow> bool" where
  "triple P m Q E \<longleftrightarrow> (\<forall>t. P t \<longrightarrow> (case m t of (Inr a, t') \<Rightarrow> Q a t' | (Inl e, t') \<Rightarrow> E t'))"

lemma tripleD: "triple P m Q E \<Longrightarrow> P t \<Longrightarrow> m t = (Inr a, t') \<Longrightarrow> Q a t'"
  by (auto simp: triple_def dest: spec[of _ t])

lemma tripleD_error: "triple P m Q E \<Longrightarrow> P t \<Longrightarrow> m t = (Inl e, t') \<Longrightarrow> E t'"
  by (auto simp: triple_def dest: spec[of _ t])

lemma triple_return: "(\<And>t. P t \<Longrightarrow> Q a t) \<Longrightarrow> triple P (act_return a) Q E"
  by (simp add: triple_def act_return_def)

lemma triple_fail: "(\<And>t. P t \<Longrightarrow> E t) \<Longrightarrow> triple P (act_fail e) Q E"
  by (simp add: triple_def act_fail_def)

lemma triple_bind:
  assumes "triple P m R E" "\<And>a. triple (R a) (f a) Q E" shows "triple P (act_bind m f) Q E"
  unfolding triple_def
proof (intro allI impI)
  fix t assume "P t"
  then have m: "case m t of (Inr a, t') \<Rightarrow> R a t' | (Inl e, t') \<Rightarrow> E t'" using assms(1) by (simp add: triple_def)
  obtain r u where r: "m t = (r, u)" by (cases "m t")
  show "case act_bind m f t of (Inr a, t') \<Rightarrow> Q a t' | (Inl e, t') \<Rightarrow> E t'"
  proof (cases r)
    case (Inr a)
    then show ?thesis using assms(2)[of a] m r by (simp add: act_bind_def triple_def)
  qed (use m r in \<open>simp add: act_bind_def\<close>)
qed

lemma triple_get: "(\<And>u. triple (\<lambda>t. P t \<and> t = u) (f u) Q E) \<Longrightarrow> triple P (act_get f) Q E"
  by (auto simp: triple_def act_get_def)

lemma triple_step:
  "(\<And>t t'. P t \<Longrightarrow> f t = Some t' \<Longrightarrow> Q () t') \<Longrightarrow> (\<And>t. P t \<Longrightarrow> E t) \<Longrightarrow> triple P (act_step e f) Q E"
  by (auto simp: triple_def act_step_def split: option.splits)

lemma triple_pre: "triple P m Q E \<Longrightarrow> (\<And>t. P' t \<Longrightarrow> P t) \<Longrightarrow> triple P' m Q E"
  by (simp add: triple_def)

lemma triple_post: "triple P m Q E \<Longrightarrow> (\<And>a t. Q a t \<Longrightarrow> Q' a t) \<Longrightarrow> triple P m Q' E"
  by (fastforce simp: triple_def split: prod.splits sum.splits)

lemma triple_error: "triple P m Q E \<Longrightarrow> (\<And>t. E t \<Longrightarrow> E' t) \<Longrightarrow> triple P m Q E'"
  by (fastforce simp: triple_def split: prod.splits sum.splits)

lemma triple_conj: "triple P m Q E \<Longrightarrow> triple P m Q' E \<Longrightarrow> triple P m (\<lambda>a t. Q a t \<and> Q' a t) E"
  by (fastforce simp: triple_def split: prod.splits sum.splits)

lemma triple_fold:
  assumes "\<And>x s. x \<in> set xs \<Longrightarrow> triple I (f x s) (\<lambda>_. I) E" "\<And>t. I t \<Longrightarrow> E t"
  shows "triple I (act_fold f xs s) (\<lambda>_. I) E"
  using assms(1)
proof (induction xs arbitrary: s)
  case (Cons x xs)
  show ?case unfolding act_fold.simps by (rule triple_bind[where R = "\<lambda>_. I"]) (use Cons in auto)
qed (simp add: triple_return)

text \<open>Each round of a loop establishes something of its element, and no later round destroys it.\<close>

lemma triple_fold_each:
  assumes "\<And>x s. x \<in> set xs \<Longrightarrow> triple I (f x s) (\<lambda>_ t. I t \<and> G x t) E"
    and "\<And>x y s. x \<in> set xs \<Longrightarrow> y \<in> set xs \<Longrightarrow> triple (\<lambda>t. I t \<and> G x t) (f y s) (\<lambda>_. G x) E"
  shows "triple I (act_fold f xs s) (\<lambda>_ t. I t \<and> (\<forall>x\<in>set xs. G x t)) E"
proof -
  have "triple (\<lambda>t. I t \<and> (\<forall>x\<in>set as. G x t)) (act_fold f bs s) (\<lambda>_ t. I t \<and> (\<forall>x\<in>set (as @ bs). G x t)) E"
    if "set as \<subseteq> set xs" "set bs \<subseteq> set xs" for as bs s using that
  proof (induction bs arbitrary: as s)
    case (Cons b bs)
    have b: "triple (\<lambda>t. I t \<and> (\<forall>x\<in>set as. G x t)) (f b s) (\<lambda>_ t. I t \<and> G b t) E"
      using assms(1)[of b s] Cons.prems by (auto intro: triple_pre)
    have "triple (\<lambda>t. I t \<and> (\<forall>x\<in>set as. G x t)) (f b s) (\<lambda>_ t. \<forall>x\<in>set cs. G x t) E" if "set cs \<subseteq> set as" for cs
      using that
    proof (induction cs)
      case Nil
      show ?case using b by (auto intro: triple_post)
    next
      case (Cons c cs)
      have "triple (\<lambda>t. I t \<and> (\<forall>x\<in>set as. G x t)) (f b s) (\<lambda>_. G c) E"
        by (rule triple_pre[OF assms(2)[of c b s]]) (use Cons.prems \<open>set as \<subseteq> set xs\<close> \<open>set (b # bs) \<subseteq> set xs\<close> in auto)
      from triple_conj[OF this Cons.IH] show ?case using Cons.prems by simp
    qed
    from triple_conj[OF b this[OF subset_refl]]
    have "triple (\<lambda>t. I t \<and> (\<forall>x\<in>set as. G x t)) (f b s) (\<lambda>_ t. I t \<and> (\<forall>x\<in>set (as @ [b]). G x t)) E"
      by (rule triple_post) auto
    then show ?case unfolding act_fold.simps
      by (rule triple_bind) (use Cons.IH[of "as @ [b]"] Cons.prems in simp)
  qed (simp add: triple_return)
  from this[of "[]" xs] show ?thesis by simp
qed

section \<open>Real paths\<close>

lemma is_dir_at_iff: "is_dir_at t p \<longleftrightarrow> (\<exists>es. tree_lookup p t = Some (Dir es))"
  by (auto simp: is_dir_at_def split: option.splits ftree.splits)

lemma tree_lookup_prefix_dir:
  assumes "tree_lookup (p @ q) t = Some v" "q \<noteq> []" shows "is_dir_at t p"
proof -
  obtain s where "tree_lookup p t = Some s" "tree_lookup q s = Some v" using assms(1) by (auto simp: tree_lookup_append split: option.splits)
  then show ?thesis using assms(2) by (cases s; cases q) (simp_all add: is_dir_at_iff)
qed

lemma is_dir_at_prefix: "is_dir_at t (p @ q) \<Longrightarrow> is_dir_at t p"
proof (cases "q = []")
  case False
  assume "is_dir_at t (p @ q)"
  then show ?thesis using tree_lookup_prefix_dir[OF _ False] unfolding is_dir_at_iff by blast
qed simp

lemma is_dir_at_butlast: "is_dir_at t p \<Longrightarrow> is_dir_at t (butlast p)"
  using is_dir_at_prefix[of t "butlast p" "[last p]"] by (cases "p = []") simp_all

lemma follow_dirs: "is_dir_at t (cur @ ns) \<Longrightarrow> follow c k t cur (map Normal ns @ cs) = follow c k t (cur @ ns) cs"
proof (induction ns arbitrary: cur)
  case (Cons n ns)
  then have "is_dir_at t (cur @ [n])" using is_dir_at_prefix[of t "cur @ [n]" ns] by simp
  then obtain es where "tree_lookup (cur @ [n]) t = Some (Dir es)" by (auto simp: is_dir_at_iff)
  then show ?case using Cons.IH[of "cur @ [n]"] Cons.prems by simp
qed simp

lemma follow_up: "follow c k t cur (replicate j ParentDir @ cs) = follow c k t (take (length cur - j) cur) cs"
proof (induction j arbitrary: cur)
  case (Suc j)
  have "butlast cur = take (length cur - 1) cur" by (rule butlast_conv_take)
  then show ?case using Suc[of "butlast cur"] by (simp add: min_def)
qed simp

lemma real_path_dir: "is_dir_at t p \<Longrightarrow> real_path t p = Inr p"
  using follow_dirs[of t "[]" p False symlink_limit "[]"] by (simp add: real_path_def)

lemma real_path_split:
  assumes "p \<noteq> []" "is_dir_at t (butlast p)"
  shows "real_path t p = follow False symlink_limit t (butlast p) [Normal (last p)]"
proof -
  have "map Normal p = map Normal (butlast p) @ [Normal (last p)]"
    using append_butlast_last_id[OF assms(1)] by (metis list.map(1) list.map(2) map_append)
  then show ?thesis using follow_dirs[of t "[]" "butlast p" False symlink_limit "[Normal (last p)]"] assms(2)
    by (simp only: real_path_def append_Nil)
qed

lemma real_path_file: "tree_lookup p t = Some (File d) \<Longrightarrow> p \<noteq> [] \<Longrightarrow> real_path t p = Inr p"
  using real_path_split[of p t] tree_lookup_prefix_dir[of "butlast p" "[last p]" t] by simp

lemma real_path_link:
  assumes "tree_lookup p t = Some (Special (Some text))" "p \<noteq> []"
  shows "real_path t p = follow False (symlink_limit - 1) t (butlast p) (path_components text)"
proof -
  have "is_dir_at t (butlast p)" using tree_lookup_prefix_dir[of "butlast p" "[last p]" t] assms by simp
  from real_path_split[OF assms(2) this] show ?thesis using assms by (simp add: symlink_limit_def)
qed

lemma entry_place_dir: "p \<noteq> [] \<Longrightarrow> is_dir_at t (butlast p) \<Longrightarrow> entry_place t p = Inr p"
  by (simp add: entry_place_def real_path_dir)

lemma new_entry_Some:
  "new_entry p v t = Some t' \<longleftrightarrow> (\<exists>q. entry_place t p = Inr q \<and> tree_lookup q t = None \<and> tree_put q v t = Some t')"
  by (auto simp: new_entry_def split: sum.splits)

lemma entry_place_Inr:
  "entry_place t p = Inr q \<longleftrightarrow> (\<exists>d. real_path t (butlast p) = Inr d \<and> is_dir_at t d \<and> q = d @ [last p])"
  by (auto simp: entry_place_def bind_result_Inr_iff)

section \<open>Links that stay inside\<close>

text \<open>
  A link text that first goes up, at most to the top, and then down, and does not end at the top. While all links below \<open>nm\<close> have such
  texts, no path below \<open>nm\<close> leads out of it; \<open>L\<close> says where such links may be.
\<close>

definition inside_text :: "nat \<Rightarrow> string \<Rightarrow> bool" where
  "inside_text d text \<longleftrightarrow> (\<exists>j ns. path_components text = replicate j ParentDir @ map Normal ns \<and> j \<le> d \<and> (ns = [] \<longrightarrow> j < d))"

definition links_inside :: "string list \<Rightarrow> (string list \<Rightarrow> bool) \<Rightarrow> ftree \<Rightarrow> bool" where
  "links_inside nm L t \<longleftrightarrow>
     (\<forall>p text. tree_lookup (nm @ p) t = Some (Special (Some text)) \<longrightarrow> p \<noteq> [] \<and> inside_text (length p - 1) text \<and> L p)"

lemma inside_text_mono: "inside_text d text \<Longrightarrow> d \<le> e \<Longrightarrow> inside_text e text"
  by (fastforce simp: inside_text_def)

lemma follow_inside:
  assumes "links_inside nm L t"
  shows "follow c k t (nm @ cur) (map Normal ns) = Inr r \<Longrightarrow> prefix nm r \<and> (cur @ ns \<noteq> [] \<longrightarrow> r \<noteq> nm)"
proof (induction k arbitrary: cur ns r rule: less_induct)
  case (less k)
  from less.prems show ?case
  proof (induction ns arbitrary: cur)
    case (Cons n ns)
    show ?case
    proof (cases "tree_lookup (nm @ cur @ [n]) t")
      case None
      then show ?thesis using Cons.prems by (auto split: if_splits)
    next
      case (Some v)
      show ?thesis
      proof (cases v)
        case (Dir es)
        then have "follow c k t (nm @ (cur @ [n])) (map Normal ns) = Inr r" using Cons.prems Some by simp
        from Cons.IH[OF this] this show ?thesis by (cases ns) auto
      next
        case (Special l)
        show ?thesis
        proof (cases l)
          case None
          then show ?thesis using Cons.prems Some Special by (auto split: if_splits)
        next
          case link: (Some w)
          obtain j ms where j: "path_components w = replicate j ParentDir @ map Normal ms" "j \<le> length cur" "ms = [] \<longrightarrow> j < length cur"
            using assms Some Special link unfolding links_inside_def inside_text_def by fastforce
          obtain k' where k: "k = Suc k'" using Cons.prems Some Special link by (cases k) simp_all
          have "follow c k' t (nm @ cur) (replicate j ParentDir @ map Normal (ms @ ns)) = Inr r"
            using Cons.prems Some Special link k j(1) by simp
          then have "follow c k' t (nm @ take (length cur - j) cur) (map Normal (ms @ ns)) = Inr r"
            unfolding follow_up using j(2) by simp
          moreover have "take (length cur - j) cur @ ms @ ns \<noteq> []" using j(3) by (cases ms) auto
          ultimately show ?thesis using less.IH[of k' "take (length cur - j) cur" "ms @ ns"] k by blast
        qed
      qed (use Cons.prems Some in \<open>auto split: if_splits\<close>)
    qed
  qed auto
qed

lemma real_path_inside:
  assumes "links_inside nm L t" "is_dir_at t nm" "real_path t (nm @ p) = Inr r"
  shows "prefix nm r \<and> (p \<noteq> [] \<longrightarrow> r \<noteq> nm)"
  using follow_inside[OF assms(1), of False symlink_limit "[]" p] follow_dirs[of t "[]" nm False symlink_limit "map Normal p"] assms(2,3)
  by (simp add: real_path_def)

text \<open>A path with no link on it leads where it says.\<close>

definition direct :: "ftree \<Rightarrow> string list \<Rightarrow> string list \<Rightarrow> bool" where
  "direct t nm p \<longleftrightarrow> (\<forall>q w. prefix q p \<longrightarrow> tree_lookup (nm @ q) t \<noteq> Some (Special (Some w)))"

lemma follow_direct: "direct t cur ns \<Longrightarrow> follow c k t cur (map Normal ns) = Inr r \<Longrightarrow> r = cur @ ns"
proof (induction ns arbitrary: cur)
  case (Cons n ns)
  have d: "direct t (cur @ [n]) ns" unfolding direct_def
  proof (intro allI impI)
    fix q w assume "prefix q ns"
    then have "prefix (n # q) (n # ns)" by simp
    then show "tree_lookup ((cur @ [n]) @ q) t \<noteq> Some (Special (Some w))" using Cons.prems(1) unfolding direct_def by fastforce
  qed
  have n: "tree_lookup (cur @ [n]) t \<noteq> Some (Special (Some w))" for w
    using Cons.prems(1) by (auto simp: direct_def dest: spec[of _ "[n]"])
  show ?case
  proof (cases "tree_lookup (cur @ [n]) t")
    case (Some v)
    show ?thesis
    proof (cases v)
      case (Dir es)
      then show ?thesis using Cons.IH[OF d] Cons.prems(2) Some by simp
    next
      case (Special l)
      then show ?thesis using Cons.prems(2) Some n by (cases l) (auto split: if_splits)
    qed (use Cons.prems(2) Some in \<open>auto split: if_splits\<close>)
  qed (use Cons.prems(2) in \<open>auto split: if_splits\<close>)
qed simp

lemma real_path_direct: "direct t nm p \<Longrightarrow> is_dir_at t nm \<Longrightarrow> real_path t (nm @ p) = Inr r \<Longrightarrow> r = nm @ p"
  using follow_direct[of t nm p] follow_dirs[of t "[]" nm False symlink_limit "map Normal p"] by (simp add: real_path_def)

definition leaf :: "ftree \<Rightarrow> bool" where
  "leaf v \<longleftrightarrow> (case v of Dir es \<Rightarrow> es = [] | _ \<Rightarrow> True)"

lemma leaf_below: "leaf v \<Longrightarrow> s \<noteq> [] \<Longrightarrow> tree_lookup s v = None"
  by (cases v; cases s) (simp_all add: leaf_def)

lemma leaf_simps [simp]: "leaf (Dir [])" "leaf (File d)" "leaf (Special l)"
  by (simp_all add: leaf_def)

text \<open>What is where after a leaf was put at a place with nothing below it.\<close>

lemma put_leaf:
  assumes "tree_put q v t = Some t'" "leaf v" "\<forall>es. tree_lookup q t \<noteq> Some (Dir es)"
  shows "tree_lookup q t' = Some v"
    and "strict_prefix r q \<Longrightarrow> is_dir_at t' r"
    and "r \<noteq> q \<Longrightarrow> \<not> strict_prefix r q \<Longrightarrow> tree_lookup r t' = tree_lookup r t"
proof -
  note put = tree.look_put[OF assms(1)]
  show "strict_prefix r q \<Longrightarrow> is_dir_at t' r"
    using put tree_lookup_prefix_dir by (metis strict_prefixE' list.distinct(1))
  have below: "tree_lookup (q @ s) t' = tree_lookup (q @ s) t" if "s \<noteq> []" for s
  proof -
    have "tree_lookup (q @ s) t = None"
      using assms(3) that tree_lookup_prefix_dir[of q s t] by (cases "tree_lookup (q @ s) t") (auto simp: is_dir_at_iff)
    then show ?thesis using put leaf_below[OF assms(2) that] by (simp add: tree_lookup_append)
  qed
  show "tree_lookup q t' = Some v" by (rule put)
  assume r: "r \<noteq> q" "\<not> strict_prefix r q"
  show "tree_lookup r t' = tree_lookup r t"
  proof (cases "prefix q r")
    case True
    then show ?thesis using below r by (auto simp: prefix_def)
  next
    case False
    then have "disjoint_paths q r" using r by (auto simp: disjoint_paths_def strict_prefix_def)
    from tree.look_put_other[OF assms(1) this] show ?thesis .
  qed
qed

definition stage_inv :: "string list \<Rightarrow> (string list \<Rightarrow> bool) \<Rightarrow> ftree \<Rightarrow> ftree \<Rightarrow> bool" where
  "stage_inv nm L t0 t \<longleftrightarrow> is_dir_at t nm \<and> links_inside nm L t \<and> (\<forall>r. disjoint_paths nm r \<longrightarrow> tree_lookup r t = tree_lookup r t0)"

lemma stage_inv_mono: "stage_inv nm L t0 t \<Longrightarrow> (\<And>p. L p \<Longrightarrow> L' p) \<Longrightarrow> stage_inv nm L' t0 t"
  by (fastforce simp: stage_inv_def links_inside_def)

lemma put_stage_inv:
  assumes inv: "stage_inv nm L t0 t" and put: "tree_put (nm @ q) v t = Some t'" and v: "leaf v" "\<forall>es. tree_lookup (nm @ q) t \<noteq> Some (Dir es)"
    and q: "q \<noteq> []" and link: "\<forall>text. v = Special (Some text) \<longrightarrow> inside_text (length q - 1) text \<and> L q"
  shows "stage_inv nm L t0 t'"
proof -
  note l = put_leaf[OF put v]
  have "is_dir_at t' nm" using l(2)[of nm] q by (simp add: strict_prefix_def)
  moreover have "links_inside nm L t'"
    unfolding links_inside_def
  proof (intro allI impI)
    fix p w assume p: "tree_lookup (nm @ p) t' = Some (Special (Some w))"
    then have "\<not> strict_prefix (nm @ p) (nm @ q)" using l(2)[of "nm @ p"] by (auto simp: is_dir_at_iff)
    then have "p = q \<and> v = Special (Some w) \<or> tree_lookup (nm @ p) t = Some (Special (Some w))" using p l(1) l(3)[of "nm @ p"] by (cases "p = q") auto
    then show "p \<noteq> [] \<and> inside_text (length p - 1) w \<and> L p"
      using link q inv unfolding stage_inv_def links_inside_def by blast
  qed
  moreover have "tree_lookup r t' = tree_lookup r t0" if "disjoint_paths nm r" for r
  proof -
    have "disjoint_paths (nm @ q) r" using that unfolding disjoint_paths_def by (metis append_prefixD prefix_append prefixI prefix_same_cases)
    then show ?thesis using tree.look_put_other[OF put] inv that by (simp add: stage_inv_def)
  qed
  ultimately show ?thesis by (simp add: stage_inv_def)
qed

lemma new_entry_inside:
  assumes inv: "stage_inv nm L t0 t" and e: "new_entry (nm @ p) v t = Some t'" and p: "p \<noteq> []"
  shows "\<exists>q. q \<noteq> [] \<and> tree_lookup (nm @ q) t = None \<and> tree_put (nm @ q) v t = Some t' \<and> (2 \<le> length p \<longrightarrow> 2 \<le> length q)
           \<and> (direct t nm (butlast p) \<longrightarrow> q = p) \<and> is_dir_at t (nm @ butlast q)"
proof -
  obtain d where d: "real_path t (nm @ butlast p) = Inr d" "is_dir_at t d" "tree_lookup (d @ [last p]) t = None"
    "tree_put (d @ [last p]) v t = Some t'"
    using e p unfolding new_entry_Some entry_place_Inr by (auto simp: butlast_append)
  have i: "prefix nm d \<and> (butlast p \<noteq> [] \<longrightarrow> d \<noteq> nm)" using real_path_inside[OF _ _ d(1)] inv unfolding stage_inv_def by blast
  then obtain s where s: "d = nm @ s" by (auto simp: prefix_def)
  have "2 \<le> length p \<longrightarrow> s \<noteq> []" using i s by (cases p rule: rev_cases) auto
  then have "2 \<le> length p \<longrightarrow> 2 \<le> length (s @ [last p])" by (cases s) auto
  moreover have "s @ [last p] = p" if "direct t nm (butlast p)"
    using real_path_direct[OF that _ d(1)] inv s append_butlast_last_id[OF p] by (simp add: stage_inv_def)
  ultimately show ?thesis using d s by (intro exI[of _ "s @ [last p]"]) simp
qed

section \<open>Actions that add one entry after another\<close>

text \<open>
  One change below \<open>nm\<close>: a leaf is put at a place that has no directory. \<open>A\<close> says which leaf may be put
  where, given what was there. An action runs by such changes from every tree that satisfies \<open>I\<close>, whether it succeeds or fails.
\<close>

definition puts :: "string list \<Rightarrow> (string list \<Rightarrow> ftree \<Rightarrow> ftree option \<Rightarrow> bool) \<Rightarrow> ftree \<Rightarrow> ftree \<Rightarrow> bool" where
  "puts nm A t t' \<longleftrightarrow> (\<exists>q v. q \<noteq> [] \<and> leaf v \<and> A q v (tree_lookup (nm @ q) t) \<and> (\<forall>es. tree_lookup (nm @ q) t \<noteq> Some (Dir es))
     \<and> is_dir_at t (nm @ butlast q) \<and> tree_put (nm @ q) v t = Some t')"

definition closed :: "(ftree \<Rightarrow> bool) \<Rightarrow> (ftree \<Rightarrow> ftree \<Rightarrow> bool) \<Rightarrow> bool" where
  "closed I R \<longleftrightarrow> (\<forall>t t'. I t \<longrightarrow> R t t' \<longrightarrow> I t')"

definition runs :: "(ftree \<Rightarrow> bool) \<Rightarrow> (ftree \<Rightarrow> ftree \<Rightarrow> bool) \<Rightarrow> ('e, 'a) action \<Rightarrow> bool" where
  "runs I R m \<longleftrightarrow> (\<forall>t. I t \<longrightarrow> R\<^sup>*\<^sup>* t (snd (m t)))"

lemma closed_rtranclp: "closed I R \<Longrightarrow> R\<^sup>*\<^sup>* t t' \<Longrightarrow> I t \<Longrightarrow> I t'"
  by (rotate_tac 1, induction rule: rtranclp_induct) (auto simp: closed_def)

lemma runs_return: "runs I R (act_return a)" by (simp add: runs_def act_return_def)
lemma runs_fail: "runs I R (act_fail e)" by (simp add: runs_def act_fail_def)

lemma runs_bind:
  assumes "closed I R" "runs I R m" "\<And>a. runs I R (f a)" shows "runs I R (act_bind m f)"
  unfolding runs_def
proof (intro allI impI)
  fix t assume I: "I t"
  obtain r u where u: "m t = (r, u)" by (cases "m t")
  have s: "R\<^sup>*\<^sup>* t u" using assms(2) I u by (auto simp: runs_def)
  show "R\<^sup>*\<^sup>* t (snd (act_bind m f t))"
  proof (cases r)
    case (Inr a)
    have "R\<^sup>*\<^sup>* u (snd (f a u))" using assms(3) closed_rtranclp[OF assms(1) s I] by (simp add: runs_def)
    from rtranclp_trans[OF s this] show ?thesis using u Inr by (simp add: act_bind_def)
  qed (use s u in \<open>simp add: act_bind_def\<close>)
qed

lemma runs_get: "(\<And>u. runs I R (f u)) \<Longrightarrow> runs I R (act_get f)"
  by (simp add: runs_def act_get_def)

lemma runs_step: "(\<And>t t'. I t \<Longrightarrow> f t = Some t' \<Longrightarrow> R\<^sup>*\<^sup>* t t') \<Longrightarrow> runs I R (act_step e f)"
  by (auto simp: runs_def act_step_def split: option.split)

lemma runs_fold: "closed I R \<Longrightarrow> (\<And>x s. x \<in> set xs \<Longrightarrow> runs I R (f x s)) \<Longrightarrow> runs I R (act_fold f xs s)"
  by (induction xs arbitrary: s) (auto intro: runs_return runs_bind)

lemma rtranclp_weaken: "R\<^sup>*\<^sup>* a b \<Longrightarrow> (\<And>x y. R x y \<Longrightarrow> S x y) \<Longrightarrow> S\<^sup>*\<^sup>* a b"
  by (induction rule: rtranclp_induct) (auto intro: rtranclp.rtrancl_into_rtrancl)

lemma runs_mono: "runs I R m \<Longrightarrow> (\<And>t. J t \<Longrightarrow> I t) \<Longrightarrow> (\<And>t t'. R t t' \<Longrightarrow> S t t') \<Longrightarrow> runs J S m"
  unfolding runs_def using rtranclp_weaken[of R _ _ S] by blast

lemma runs_triple: "runs I R m \<Longrightarrow> closed K R \<Longrightarrow> triple (\<lambda>t. I t \<and> K t) m (\<lambda>_. K) K"
  unfolding triple_def runs_def
proof (intro allI impI)
  fix t assume r: "\<forall>t. I t \<longrightarrow> R\<^sup>*\<^sup>* t (snd (m t))" and K: "closed K R" and t: "I t \<and> K t"
  then have "K (snd (m t))" using closed_rtranclp[of K R t "snd (m t)"] by blast
  then show "case m t of (Inr a, t') \<Rightarrow> K t' | (Inl e, t') \<Rightarrow> K t'" by (auto split: prod.splits sum.splits)
qed

lemma runs_inv: "runs I R m \<Longrightarrow> closed I R \<Longrightarrow> (\<And>t. I t \<Longrightarrow> E t) \<Longrightarrow> triple I m (\<lambda>_. I) E"
  using runs_triple[of I R m I] triple_error[of I m "\<lambda>_. I" I E] by simp

lemma puts_mono: "puts nm A t t' \<Longrightarrow> (\<And>q v x. A q v x \<Longrightarrow> B q v x) \<Longrightarrow> puts nm B t t'"
  unfolding puts_def by blast

lemma closed_stage_inv:
  assumes "\<And>q w x. A q (Special (Some w)) x \<Longrightarrow> inside_text (length q - 1) w \<and> L q"
  shows "closed (stage_inv nm L t0) (puts nm A)"
  unfolding closed_def puts_def
proof (intro allI impI, elim exE conjE)
  fix t t' q v
  assume a: "stage_inv nm L t0 t" "tree_put (nm @ q) v t = Some t'" "leaf v" "\<forall>es. tree_lookup (nm @ q) t \<noteq> Some (Dir es)" "q \<noteq> []"
    "A q v (tree_lookup (nm @ q) t)"
  show "stage_inv nm L t0 t'" by (rule put_stage_inv[OF a(1-5)]) (use assms a(6) in blast)
qed

lemma closed_is_dir: "closed (\<lambda>t. is_dir_at t d) (puts nm A)"
  unfolding closed_def puts_def
proof (intro allI impI, elim exE conjE)
  fix t t' q v
  assume a: "is_dir_at t d" "tree_put (nm @ q) v t = Some t'" "leaf v" "\<forall>es. tree_lookup (nm @ q) t \<noteq> Some (Dir es)"
  note l = put_leaf[OF a(2-4)]
  have "d \<noteq> nm @ q" using a(1,4) by (auto simp: is_dir_at_iff)
  then show "is_dir_at t' d" using l(2)[of d] l(3)[of d] a(1) by (cases "strict_prefix d (nm @ q)") (auto simp: is_dir_at_iff)
qed

lemma strict_prefix_same: "strict_prefix (nm @ q) (nm @ r) \<longleftrightarrow> strict_prefix q r"
  by (auto simp: strict_prefix_def)

lemma strict_prefix_place:
  assumes "strict_prefix q r" "is_dir_at t (nm @ butlast r)" shows "is_dir_at t (nm @ q)"
proof -
  obtain s where s: "r = q @ s" "s \<noteq> []" using assms(1) by (auto simp: strict_prefix_def prefix_def)
  then have "nm @ butlast r = (nm @ q) @ butlast s" by (simp add: butlast_append)
  then show ?thesis using is_dir_at_prefix[of t "nm @ q" "butlast s"] assms(2) by simp
qed

lemma closed_kept:
  assumes "\<And>u x. A q u x \<Longrightarrow> x = None" "\<forall>es. v \<noteq> Dir es"
  shows "closed (\<lambda>t. tree_lookup (nm @ q) t = Some v) (puts nm A)"
  unfolding closed_def puts_def
proof (intro allI impI, elim exE conjE)
  fix t t' r u
  assume a: "tree_lookup (nm @ q) t = Some v" "A r u (tree_lookup (nm @ r) t)" "is_dir_at t (nm @ butlast r)" "tree_put (nm @ r) u t = Some t'"
    "leaf u" "\<forall>es. tree_lookup (nm @ r) t \<noteq> Some (Dir es)"
  have "q \<noteq> r" using a(1,2) assms(1)[of u "Some v"] by auto
  moreover have "\<not> strict_prefix q r" using strict_prefix_place[OF _ a(3), of q] a(1) assms(2) by (auto simp: is_dir_at_iff)
  ultimately show "tree_lookup (nm @ q) t' = Some v" using put_leaf(3)[OF a(4-6), of "nm @ q"] a(1) by (simp add: strict_prefix_same)
qed

lemma closed_absent:
  assumes "\<And>v x. \<not> A q v x" shows "closed (\<lambda>t. tree_lookup (nm @ q) t = None) (puts nm A)"
  unfolding closed_def puts_def
proof (intro allI impI, elim exE conjE)
  fix t t' r v
  assume a: "tree_lookup (nm @ q) t = None" "A r v (tree_lookup (nm @ r) t)" "is_dir_at t (nm @ butlast r)" "tree_put (nm @ r) v t = Some t'"
    "leaf v" "\<forall>es. tree_lookup (nm @ r) t \<noteq> Some (Dir es)"
  have "q \<noteq> r" using a(2) assms by auto
  moreover have "\<not> strict_prefix q r" using strict_prefix_place[OF _ a(3), of q] a(1) by (auto simp: is_dir_at_iff)
  ultimately show "tree_lookup (nm @ q) t' = None" using put_leaf(3)[OF a(4-6), of "nm @ q"] a(1) by (simp add: strict_prefix_same)
qed

lemma make_dirs_dir: "is_dir_at t p \<Longrightarrow> make_dirs p t = Some t"
  by (cases p rule: rev_cases) (simp_all add: make_dirs_def path_is_dir_def real_path_dir)

section \<open>The calls run by additions\<close>

lemma follow_parent:
  "follow c k t cur cs = Inr r \<Longrightarrow> is_dir_at t cur \<Longrightarrow> is_dir_at t (butlast r)"
proof (induction c k t cur cs rule: follow.induct)
  case (1 c k t cur)
  then show ?case by (simp add: is_dir_at_butlast)
next
  case (2 c k t cur cs)
  then show ?case using is_dir_at_prefix[of t "[]" cur] by simp
next
  case (4 c k t cur cs)
  then show ?case by (simp add: is_dir_at_butlast)
next
  case (5 c k t cur n cs)
  show ?case
  proof (cases "tree_lookup (cur @ [n]) t")
    case None
    then show ?thesis using 5 by (auto split: if_splits)
  next
    case (Some v)
    show ?thesis
    proof (cases v)
      case (Dir es)
      then show ?thesis using "5.IH"(1)[OF Some Dir] "5.prems" Some by (simp add: is_dir_at_iff)
    next
      case (Special l)
      show ?thesis
      proof (cases l)
        case (Some w)
        then show ?thesis using "5.IH"(2)[OF \<open>tree_lookup (cur @ [n]) t = Some v\<close> Special Some] "5.prems" \<open>tree_lookup (cur @ [n]) t = Some v\<close> Special
          by (cases k) auto
      qed (use 5 Some Special in \<open>auto split: if_splits\<close>)
    qed (use 5 Some in \<open>auto split: if_splits\<close>)
  qed
qed simp

lemma new_entry_puts:
  assumes inv: "stage_inv nm L t0 t" and e: "new_entry (nm @ p) v t = Some t'" and p: "p \<noteq> []" and v: "leaf v"
    and A: "\<And>q. q \<noteq> [] \<Longrightarrow> (2 \<le> length p \<longrightarrow> 2 \<le> length q) \<Longrightarrow> (direct t nm (butlast p) \<longrightarrow> q = p) \<Longrightarrow> A q v None"
  shows "puts nm A t t'"
proof -
  obtain q where q: "q \<noteq> []" "tree_lookup (nm @ q) t = None" "tree_put (nm @ q) v t = Some t'" "2 \<le> length p \<longrightarrow> 2 \<le> length q"
    "direct t nm (butlast p) \<longrightarrow> q = p" "is_dir_at t (nm @ butlast q)" using new_entry_inside[OF inv e p] by blast
  show ?thesis unfolding puts_def using q v A[OF q(1,4,5)] by (intro exI[of _ q] exI[of _ v]) simp
qed

lemma closed_direct:
  assumes "\<And>q v x. A q v x \<Longrightarrow> \<forall>w. v \<noteq> Special (Some w)" shows "closed (\<lambda>t. direct t nm p) (puts nm A)"
  unfolding closed_def puts_def
proof (intro allI impI, elim exE conjE)
  fix t t' r v
  assume d: "direct t nm p" and a: "A r v (tree_lookup (nm @ r) t)" "tree_put (nm @ r) v t = Some t'" "leaf v" "\<forall>es. tree_lookup (nm @ r) t \<noteq> Some (Dir es)"
  note l = put_leaf[OF a(2-4)]
  show "direct t' nm p" unfolding direct_def
  proof (intro allI impI notI)
    fix q w assume q: "prefix q p" "tree_lookup (nm @ q) t' = Some (Special (Some w))"
    then have "\<not> strict_prefix (nm @ q) (nm @ r)" using l(2)[of "nm @ q"] by (auto simp: is_dir_at_iff)
    moreover have "q \<noteq> r" using q(2) l(1) assms[OF a(1)] by auto
    ultimately have "tree_lookup (nm @ q) t = Some (Special (Some w))" using l(3)[of "nm @ q"] q(2) by simp
    then show False using q(1) d unfolding direct_def by blast
  qed
qed

lemma make_dirs_puts:
  assumes "stage_inv nm L t0 t" "\<And>q. q \<noteq> [] \<Longrightarrow> (direct t nm p \<longrightarrow> prefix q p) \<Longrightarrow> A q (Dir []) None" "make_dirs (nm @ p) t = Some t'"
  shows "(puts nm A)\<^sup>*\<^sup>* t t'"
proof -
  define B where "B q v x \<longleftrightarrow> v = Dir [] \<and> x = None \<and> (direct t nm p \<longrightarrow> prefix q p)" for q v and x :: "ftree option"
  have cs: "closed (stage_inv nm L t0) (puts nm B)" by (rule closed_stage_inv) (simp add: B_def)
  have "make_dirs (nm @ r) t = Some t' \<Longrightarrow> prefix r p \<Longrightarrow> (puts nm B)\<^sup>*\<^sup>* t t'" for r
  proof (induction r arbitrary: t' rule: rev_induct)
    case Nil
    then show ?case using make_dirs_dir[of t nm] assms(1) by (simp add: stage_inv_def)
  next
    case (snoc n r)
    show ?case
    proof (cases "path_is_dir t (nm @ r @ [n])")
      case False
      then obtain u where u: "make_dirs (nm @ r) t = Some u" "new_entry (nm @ r @ [n]) (Dir []) u = Some t'"
        using snoc.prems by (auto simp: make_dirs_def bind_eq_Some_conv)
      have s: "(puts nm B)\<^sup>*\<^sup>* t u" using snoc.IH[OF u(1)] snoc.prems(2) by (simp add: append_prefixD)
      have "puts nm B u t'"
      proof (rule new_entry_puts[OF closed_rtranclp[OF cs s assms(1)] u(2)])
        fix q assume q: "direct u nm (butlast (r @ [n])) \<longrightarrow> q = r @ [n]"
        have "closed (\<lambda>t. direct t nm p) (puts nm B)" by (rule closed_direct) (simp add: B_def)
        from closed_rtranclp[OF this s] have "direct t nm p \<Longrightarrow> direct u nm r"
          using snoc.prems(2) append_prefixD[of r "[n]" p] unfolding direct_def by (meson prefix_order.order_trans)
        then show "B q (Dir []) None" using q snoc.prems(2) by (auto simp: B_def)
      qed simp_all
      then show ?thesis using s by (rule rtranclp.rtrancl_into_rtrancl[rotated])
    qed (use snoc.prems in \<open>simp add: make_dirs_def\<close>)
  qed
  from this[OF assms(3)] have "(puts nm B)\<^sup>*\<^sup>* t t'" by simp
  moreover have "puts nm A a b" if "puts nm B a b" for a b
    using that assms(2) unfolding puts_def B_def by metis
  ultimately show ?thesis by (rule rtranclp_weaken)
qed

lemma symlink_puts:
  assumes "stage_inv nm L t0 t" "symlink w (nm @ p) t = Some t'" "p \<noteq> []"
    and "\<And>q. q \<noteq> [] \<Longrightarrow> (2 \<le> length p \<longrightarrow> 2 \<le> length q) \<Longrightarrow> (direct t nm (butlast p) \<longrightarrow> q = p) \<Longrightarrow> A q (Special (Some w)) None"
  shows "(puts nm A)\<^sup>*\<^sup>* t t'"
  using new_entry_puts[of nm L t0 t p "Special (Some w)" t' A] assms by (simp add: symlink_def r_into_rtranclp)

lemma fs_write_puts:
  assumes inv: "stage_inv nm L t0 t" and w: "fs_write (nm @ p) d t = Some t'" and p: "p \<noteq> []"
    and A: "\<And>q x. q \<noteq> [] \<Longrightarrow> (direct t nm p \<longrightarrow> q = p) \<Longrightarrow> x = tree_lookup (nm @ q) t \<Longrightarrow> A q (File d) x"
  shows "(puts nm A)\<^sup>*\<^sup>* t t'"
proof -
  obtain q where q: "follow True symlink_limit t [] (map Normal (nm @ p)) = Inr q" "tree_put q (File d) t = Some t'" "\<forall>es. tree_lookup q t \<noteq> Some (Dir es)"
    using w by (auto simp: fs_write_def split: sum.splits option.splits ftree.splits)
  have f: "follow True symlink_limit t nm (map Normal p) = Inr q" and dir: "is_dir_at t nm"
    using q(1) follow_dirs[of t "[]" nm True symlink_limit "map Normal p"] inv by (simp_all add: stage_inv_def)
  then have "prefix nm q \<and> q \<noteq> nm" using follow_inside[of nm L t True symlink_limit "[]" p q] inv p by (simp add: stage_inv_def)
  then obtain s where s: "q = nm @ s" "s \<noteq> []" by (auto simp: prefix_def)
  have "is_dir_at t (nm @ butlast s)" using follow_parent[OF f dir] s by (simp add: butlast_append)
  moreover have "direct t nm p \<longrightarrow> s = p" using follow_direct[OF _ f] s(1) by simp
  ultimately have "puts nm A t t'" unfolding puts_def using s q(2,3) A[OF s(2)] by (intro exI[of _ s] exI[of _ "File d"]) simp
  then show ?thesis by (rule r_into_rtranclp)
qed

lemma real_path_missing:
  assumes "is_dir_at t d" "tree_lookup (d @ [n]) t = None" shows "real_path t ((d @ [n]) @ p) = Inl Not_found"
  using follow_dirs[of t "[]" d False symlink_limit "Normal n # map Normal p"] assms by (simp add: real_path_def)

lemma make_dirs_fresh:
  assumes "is_dir_at t d" "tree_lookup (d @ [n]) t = None" "make_dirs (d @ [n]) t = Some u"
  shows "tree_put (d @ [n]) (Dir []) t = Some u"
proof -
  have "new_entry (d @ [n]) (Dir []) t = Some u"
    using real_path_missing[OF assms(1,2), of "[]"] make_dirs_dir[OF assms(1)] assms(3) by (simp add: make_dirs_def path_is_dir_def)
  then show ?thesis using entry_place_dir[of "d @ [n]" t] assms(1) by (auto simp: new_entry_Some)
qed

lemma stage_start:
  assumes d: "is_dir_at t0 d" and free: "tree_lookup (d @ [n]) t0 = None" and m: "make_dirs ((d @ [n]) @ [k]) t0 = Some t"
  shows "stage_inv (d @ [n]) (\<lambda>_. False) t0 t \<and> tree_lookup (d @ [n]) t = Some (Dir [(k, Dir [])])"
proof -
  let ?nm = "d @ [n]"
  obtain u where u: "make_dirs ?nm t0 = Some u" "new_entry (?nm @ [k]) (Dir []) u = Some t"
    using m real_path_missing[OF d free, of "[k]"] by (auto simp: make_dirs_def path_is_dir_def bind_eq_Some_conv)
  note p = make_dirs_fresh[OF d free u(1)]
  note l = tree.look_put[OF p]
  have "tree_lookup (?nm @ q) u \<noteq> Some (Special (Some w))" for q w
    unfolding tree_lookup_append[of ?nm q] l option.case by (cases q) simp_all
  then have inv: "stage_inv ?nm (\<lambda>_. False) t0 u" using l tree.look_put_other[OF p] by (simp add: stage_inv_def is_dir_at_iff links_inside_def)
  have t: "tree_put (?nm @ [k]) (Dir []) u = Some t"
    using u(2) entry_place_dir[of "?nm @ [k]" u] l unfolding new_entry_Some is_dir_at_iff by (auto simp: butlast_append)
  have f: "\<forall>es. tree_lookup (?nm @ [k]) u \<noteq> Some (Dir es)" unfolding tree_lookup_append[of ?nm] l by simp
  have "tree_lookup ?nm t = Some (Dir [(k, Dir [])])"
  proof -
    have put: "tree_put (p @ [k]) v x = Some y \<Longrightarrow> tree_lookup p x = Some (Dir []) \<Longrightarrow> tree_lookup p y = Some (Dir [(k, v)])" for p v x y
      by (induction p x arbitrary: y rule: tree_lookup.induct) (auto simp: update_conv' hm_insert_def split: option.splits)
    from put[OF t l] show ?thesis .
  qed
  then show ?thesis using put_stage_inv[OF inv t _ f] by simp
qed

end
