(* ===== verification/Link_Transaction.thy ===== *)
theory Link_Transaction
  imports Link_Plan Link_Fs
begin

text \<open>
  The transaction that replaces a project's \<open>node_modules\<close> (\<open>recover_link_transaction\<close> and the commit at the end of \<open>link_all\<close>
  in \<open>crates/oath-store/src/linker.rs\<close>). The new tree is built in a stage directory, the live
  tree is renamed to a backup, the stage is renamed to the live name, the backup is removed; the next run
  recovers from an interruption. Every call can fail: which renames the system refuses and which removals stop half way, and what a stopped removal
  leaves of the directory, is an argument (\<open>fs_faults\<close>) of the code and arbitrary in the theorems. The step relation adds
  what a crash can do: a run stops after any file-system call, removing a directory may have left a part of it, and building the stage writes in
  between as it likes.
\<close>

section \<open>The calls\<close>

text \<open>
  \<open>refuses_rename\<close> says which renames fail although they are possible, \<open>stops_remove\<close> which removals do, and what is then left in the directory.
\<close>

record fs_faults =
  refuses_rename :: "ftree \<Rightarrow> string list \<Rightarrow> string list \<Rightarrow> bool"
  stops_remove :: "ftree \<Rightarrow> string list \<Rightarrow> (string \<times> ftree) list option"

definition no_faults :: fs_faults where
  "no_faults = \<lparr>refuses_rename = \<lambda>t p q. False, stops_remove = \<lambda>t p. None\<rparr>"

fun is_dir_entry :: "ftree \<Rightarrow> bool" where
  "is_dir_entry (Dir es) = True"
| "is_dir_entry _ = False"

text \<open>\<open>rename\<close>: a directory replaces only an empty directory, anything else only what is not a directory; a link is moved itself.\<close>

definition fs_rename :: "fs_faults \<Rightarrow> string list \<Rightarrow> string list \<Rightarrow> ftree \<Rightarrow> ftree option" where
  "fs_rename env src dst t =
     (if refuses_rename env t src dst then None
      else case (tree_lookup src t, tree_lookup (butlast dst) t) of
        (Some v, Some (Dir _)) \<Rightarrow>
          if (case tree_lookup dst t of None \<Rightarrow> True | Some (Dir es) \<Rightarrow> es = [] \<and> is_dir_entry v | Some _ \<Rightarrow> \<not> is_dir_entry v)
          then tree_put dst v (tree_remove src t) else None
      | _ \<Rightarrow> None)"

text \<open>
  \<open>remove_dir_all\<close>, with the error it is reported as: a symbolic link is removed itself, anything else that is not a directory is an error, and a removal that stops leaves some
  part of the directory.
\<close>

definition remove_dir_all :: "fs_faults \<Rightarrow> 'e \<Rightarrow> string list \<Rightarrow> ('e, unit) action" where
  "remove_dir_all env e p t =
     (case tree_lookup p t of
        Some (Dir _) \<Rightarrow>
          (case stops_remove env t p of
             None \<Rightarrow> (Inr (), tree_remove p t)
           | Some es \<Rightarrow> (Inl e, case tree_put p (Dir es) t of None \<Rightarrow> t | Some t' \<Rightarrow> t'))
      | Some (Special (Some _)) \<Rightarrow> if stops_remove env t p = None then (Inr (), tree_remove p t) else (Inl e, t)
      | _ \<Rightarrow> (Inl e, t))"

section \<open>The code\<close>

definition live_path :: "string list \<Rightarrow> string list" where
  "live_path project = project @ [''node_modules'']"

definition stage_path :: "string list \<Rightarrow> string list" where
  "stage_path project = project @ [''.oath-node_modules-stage'']"

definition backup_path :: "string list \<Rightarrow> string list" where
  "backup_path project = project @ [''.oath-node_modules-backup'']"

definition recover_backup :: "fs_faults \<Rightarrow> string list \<Rightarrow> (link_error, unit) action" where
  "recover_backup env project =
     act_get (\<lambda>t.
       if path_exists t (backup_path project)
       then if path_exists t (live_path project) then remove_dir_all env Remove_backup_failed (backup_path project)
            else act_step Restore_failed (fs_rename env (backup_path project) (live_path project))
       else act_return ())"

definition clean_stage :: "fs_faults \<Rightarrow> string list \<Rightarrow> (link_error, unit) action" where
  "clean_stage env project =
     act_get (\<lambda>t. if path_exists t (stage_path project) then remove_dir_all env Clean_stage_failed (stage_path project) else act_return ())"

definition recover_link_transaction :: "fs_faults \<Rightarrow> string list \<Rightarrow> (link_error, unit) action" where
  "recover_link_transaction env project = act_bind (recover_backup env project) (\<lambda>_. clean_stage env project)"

definition set_aside_live :: "fs_faults \<Rightarrow> string list \<Rightarrow> (link_error, unit) action" where
  "set_aside_live env project =
     act_get (\<lambda>t.
       if path_exists t (live_path project)
       then act_step Stage_existing_failed (fs_rename env (live_path project) (backup_path project))
       else act_return ())"

text \<open>A backup that cannot be removed is only logged.\<close>

definition promote_stage :: "fs_faults \<Rightarrow> string list \<Rightarrow> (link_error, unit) action" where
  "promote_stage env project t =
     (let live = live_path project; stage = stage_path project; backup = backup_path project
      in case fs_rename env stage live t of
           None \<Rightarrow>
             (Inl Promote_failed,
              if path_exists t backup \<and> \<not> path_exists t live
              then (case fs_rename env backup live t of None \<Rightarrow> t | Some t' \<Rightarrow> t') else t)
         | Some t' \<Rightarrow> (Inr (), if path_exists t' backup then snd (remove_dir_all env Backup_cleanup_failed backup t') else t'))"

definition commit_link_transaction :: "fs_faults \<Rightarrow> string list \<Rightarrow> (link_error, unit) action" where
  "commit_link_transaction env project = act_bind (set_aside_live env project) (\<lambda>_. promote_stage env project)"

section \<open>What the calls do\<close>

lemma sibling_paths: "disjoint_paths (p @ [a]) (p @ [b]) \<longleftrightarrow> a \<noteq> b"
  by (induction p) (auto simp: disjoint_paths_Cons disjoint_paths_def)

lemma nm_paths [simp]:
  "disjoint_paths (live_path p) (stage_path p)" "disjoint_paths (live_path p) (backup_path p)"
  "disjoint_paths (stage_path p) (live_path p)" "disjoint_paths (stage_path p) (backup_path p)"
  "disjoint_paths (backup_path p) (live_path p)" "disjoint_paths (backup_path p) (stage_path p)"
  "live_path p \<noteq> []" "stage_path p \<noteq> []" "backup_path p \<noteq> []"
  "butlast (live_path p) = p" "butlast (stage_path p) = p" "butlast (backup_path p) = p"
  by (simp_all add: live_path_def stage_path_def backup_path_def sibling_paths)

lemma put_present: "tree_lookup p t = Some v \<Longrightarrow> \<exists>t'. tree_put p w t = Some t'"
  by (induction p t rule: tree_lookup.induct) (auto split: option.splits)

lemma put_in_dir: "tree_lookup p t = Some (Dir es) \<Longrightarrow> \<exists>t'. tree_put (p @ [n]) v t = Some t'"
  by (induction p t rule: tree_lookup.induct) (auto split: option.splits)

lemma remove_in_dir: "tree_lookup p t = Some (Dir es) \<Longrightarrow> \<exists>es'. tree_lookup p (tree_remove (p @ [n]) t) = Some (Dir es')"
proof (induction p t rule: tree_lookup.induct)
  case (2 m ms ds)
  obtain s where s: "map_of ds m = Some s" "tree_lookup ms s = Some (Dir es)" using "2.prems" by (auto split: option.splits)
  obtain k ks where k: "ms @ [n] = k # ks" by (cases ms) auto
  have "tree_remove ((m # ms) @ [n]) (Dir ds) = Dir (hm_insert m (tree_remove (ms @ [n]) s) ds)" using s(1) k by simp
  then show ?case using "2.IH"[OF s] by simp
qed auto

lemma is_dir_of_child: "tree_lookup (p @ [n]) t = Some v \<Longrightarrow> is_dir_at t p"
  by (rule tree_lookup_prefix_dir[of p "[n]"]) simp_all

lemma fs_rename_effect:
  assumes "fs_rename env src dst t = Some t'" "disjoint_paths src dst"
  shows "tree_lookup dst t' = tree_lookup src t" "tree_lookup src t' = None" "tree_lookup src t \<noteq> None"
    and "\<And>q. disjoint_paths src q \<Longrightarrow> disjoint_paths dst q \<Longrightarrow> tree_lookup q t' = tree_lookup q t"
proof -
  obtain v where v: "tree_lookup src t = Some v" "tree_put dst v (tree_remove src t) = Some t'"
    using assms(1) by (auto simp: fs_rename_def split: if_splits option.splits ftree.splits)
  have "src \<noteq> []" using assms(2) by auto
  note r = tree.look_rename[OF v(2) assms(2) this]
  show "tree_lookup dst t' = tree_lookup src t" "tree_lookup src t' = None" "tree_lookup src t \<noteq> None" using r v(1) by simp_all
  show "\<And>q. disjoint_paths src q \<Longrightarrow> disjoint_paths dst q \<Longrightarrow> tree_lookup q t' = tree_lookup q t" using r(3) by blast
qed

lemma fs_rename_dir:
  assumes "fs_rename env (p @ [a]) (p @ [b]) t = Some t'" "a \<noteq> b" shows "is_dir_at t' p"
proof -
  have "tree_lookup (p @ [b]) t' \<noteq> None" using fs_rename_effect(1,3)[OF assms(1)] assms(2) by (simp add: sibling_paths)
  then show ?thesis using is_dir_of_child by blast
qed

lemma fs_rename_free:
  assumes "is_dir_at t p" "tree_lookup (p @ [a]) t = Some v" "tree_lookup (p @ [b]) t = None"
  shows "\<exists>t'. fs_rename no_faults (p @ [a]) (p @ [b]) t = Some t'"
proof -
  obtain es where d: "tree_lookup p t = Some (Dir es)" using assms(1) by (auto simp: is_dir_at_iff)
  then obtain es' where "tree_lookup p (tree_remove (p @ [a]) t) = Some (Dir es')" using remove_in_dir by blast
  from put_in_dir[OF this, of b v] show ?thesis using assms(2,3) d by (simp add: fs_rename_def no_faults_def)
qed

lemma remove_dir_all_effect:
  assumes "remove_dir_all env e p t = (r, t')" "p \<noteq> []"
  shows "disjoint_paths p q \<Longrightarrow> tree_lookup q t' = tree_lookup q t"
    and "r = Inr () \<Longrightarrow> tree_lookup p t' = None"
    and "r = Inl e' \<Longrightarrow> e' = e \<and> (t' = t \<or> (\<exists>es es'. tree_lookup p t = Some (Dir es) \<and> tree_lookup p t' = Some (Dir es')))"
proof -
  consider (gone) "r = Inr ()" "t' = tree_remove p t" | (same) "r = Inl e" "t' = t"
    | (part) es es' where "r = Inl e" "tree_lookup p t = Some (Dir es)" "tree_put p (Dir es') t = Some t'"
    using assms(1) put_present[of p t]
    by (fastforce simp: remove_dir_all_def split: option.splits ftree.splits if_splits)
  note c = this
  show "tree_lookup q t' = tree_lookup q t" if "disjoint_paths p q"
    using c by cases (use that in \<open>simp_all add: tree.look_del_other tree.look_put_other\<close>)
  show "tree_lookup p t' = None" if "r = Inr ()" using c by cases (use that assms(2) in \<open>simp_all add: tree.look_del\<close>)
  show "e' = e \<and> (t' = t \<or> (\<exists>es es'. tree_lookup p t = Some (Dir es) \<and> tree_lookup p t' = Some (Dir es')))" if "r = Inl e'"
    using c by cases (use that in \<open>auto dest: tree.look_put\<close>)
qed

lemma remove_dir_all_dir:
  assumes "remove_dir_all env e (p @ [n]) t = (r, t')" "is_dir_at t p" shows "is_dir_at t' p"
proof (cases r)
  case (Inl e')
  then consider "t' = t" | es' where "tree_lookup (p @ [n]) t' = Some (Dir es')"
    using remove_dir_all_effect(3)[OF assms(1)] by blast
  then show ?thesis using assms(2) is_dir_of_child by cases blast+
next
  case (Inr u)
  then have "t' = tree_remove (p @ [n]) t" using assms(1) by (auto simp: remove_dir_all_def split: option.splits ftree.splits if_splits)
  then show ?thesis using assms(2) remove_in_dir by (auto simp: is_dir_at_iff)
qed

lemma remove_dir_all_free: "tree_lookup p t = Some (Dir es) \<Longrightarrow> remove_dir_all no_faults e p t = (Inr (), tree_remove p t)"
  by (simp add: remove_dir_all_def no_faults_def)

text \<open>Whether an entry that is no link exists.\<close>

lemma path_exists_entry:
  assumes "is_dir_at t p" "\<And>s. tree_lookup (p @ [n]) t \<noteq> Some (Special (Some s))"
  shows "path_exists t (p @ [n]) \<longleftrightarrow> tree_lookup (p @ [n]) t \<noteq> None"
  using assms real_path_split[of "p @ [n]" t]
  by (auto simp: path_exists_def is_ok_def split: option.splits ftree.splits)

lemma path_exists_entry_None: "is_dir_at t p \<Longrightarrow> tree_lookup (p @ [n]) t = None \<Longrightarrow> \<not> path_exists t (p @ [n])"
  by (simp add: path_exists_entry)


section \<open>The three entries\<close>

record nm_dirs =
  nm_live :: "ftree option"
  nm_stage :: "ftree option"
  nm_backup :: "ftree option"

definition nm_view :: "string list \<Rightarrow> ftree \<Rightarrow> nm_dirs" where
  "nm_view project t = \<lparr>nm_live = tree_lookup (live_path project) t, nm_stage = tree_lookup (stage_path project) t,
     nm_backup = tree_lookup (backup_path project) t\<rparr>"

text \<open>The tree a project has, or gets back when the next run recovers.\<close>

definition installed :: "nm_dirs \<Rightarrow> ftree option" where
  "installed s = (case nm_live s of Some t \<Rightarrow> Some t | None \<Rightarrow> nm_backup s)"

definition entries_of :: "nm_dirs \<Rightarrow> ftree list" where
  "entries_of s = List.map_filter (\<lambda>v. v) [nm_live s, nm_stage s, nm_backup s]"

definition no_links :: "nm_dirs \<Rightarrow> bool" where
  "no_links s \<longleftrightarrow> (\<forall>v\<in>set (entries_of s). case v of Special (Some _) \<Rightarrow> False | _ \<Rightarrow> True)"

definition only_dirs :: "nm_dirs \<Rightarrow> bool" where
  "only_dirs s \<longleftrightarrow> (\<forall>v\<in>set (entries_of s). is_dir_entry v)"

definition elsewhere :: "string list \<Rightarrow> string list \<Rightarrow> bool" where
  "elsewhere project q \<longleftrightarrow> disjoint_paths (live_path project) q \<and> disjoint_paths (stage_path project) q \<and> disjoint_paths (backup_path project) q"

lemma set_entries: "v \<in> set (entries_of s) \<longleftrightarrow> nm_live s = Some v \<or> nm_stage s = Some v \<or> nm_backup s = Some v"
  by (cases s) (auto simp: entries_of_def map_filter_def)

lemma no_links_iff: "no_links s \<longleftrightarrow> (\<forall>x. nm_live s \<noteq> Some (Special (Some x)) \<and> nm_stage s \<noteq> Some (Special (Some x)) \<and> nm_backup s \<noteq> Some (Special (Some x)))"
proof
  assume n: "no_links s"
  have "Special (Some x) \<notin> set (entries_of s)" for x using n unfolding no_links_def by fastforce
  then show "\<forall>x. nm_live s \<noteq> Some (Special (Some x)) \<and> nm_stage s \<noteq> Some (Special (Some x)) \<and> nm_backup s \<noteq> Some (Special (Some x))"
    by (simp add: set_entries)
qed (auto simp: no_links_def set_entries split: ftree.splits option.splits)

lemma only_dirs_iff: "only_dirs s \<longleftrightarrow> (\<forall>v. nm_live s = Some v \<or> nm_stage s = Some v \<or> nm_backup s = Some v \<longrightarrow> is_dir_entry v)"
  by (auto simp: only_dirs_def set_entries)

lemma only_dirs_no_links: "only_dirs s \<Longrightarrow> no_links s"
  by (auto simp: only_dirs_iff no_links_iff)

lemma entry_exists:
  assumes "is_dir_at t project" "no_links (nm_view project t)"
  shows "path_exists t (live_path project) \<longleftrightarrow> nm_live (nm_view project t) \<noteq> None"
    and "path_exists t (stage_path project) \<longleftrightarrow> nm_stage (nm_view project t) \<noteq> None"
    and "path_exists t (backup_path project) \<longleftrightarrow> nm_backup (nm_view project t) \<noteq> None"
  using assms path_exists_entry[OF assms(1)]
  by (simp_all add: no_links_iff nm_view_def live_path_def stage_path_def backup_path_def)

text \<open>What the halves of the recovery and of the commit do to the three entries, and that they touch nothing else.\<close>

lemma recover_backup_view:
  assumes "is_dir_at t project" "no_links (nm_view project t)" "recover_backup env project t = (r, t')"
  obtains (nothing) "nm_backup (nm_view project t) = None" "r = Inr ()" "t' = t"
  | (dropped) "nm_live (nm_view project t) \<noteq> None" "nm_backup (nm_view project t) \<noteq> None" "r = Inr ()" "nm_view project t' = (nm_view project t)\<lparr>nm_backup := None\<rparr>"
  | (kept) "nm_live (nm_view project t) \<noteq> None" "r = Inl Remove_backup_failed" "t' = t"
  | (part) es es' where "nm_live (nm_view project t) \<noteq> None" "nm_backup (nm_view project t) = Some (Dir es)" "r = Inl Remove_backup_failed"
      "nm_view project t' = (nm_view project t)\<lparr>nm_backup := Some (Dir es')\<rparr>"
  | (restored) b where "nm_live (nm_view project t) = None" "nm_backup (nm_view project t) = Some b" "r = Inr ()"
      "nm_view project t' = (nm_view project t)\<lparr>nm_live := Some b, nm_backup := None\<rparr>"
  | (stuck) "nm_live (nm_view project t) = None" "r = Inl Restore_failed" "t' = t"
proof (cases "nm_backup (nm_view project t)")
  case None
  show ?thesis by (rule nothing[OF None]) (use assms(3) None entry_exists[OF assms(1,2)] in \<open>simp_all add: recover_backup_def act_get_def act_return_def\<close>)
next
  case b: (Some b)
  show ?thesis
  proof (cases "nm_live (nm_view project t)")
    case None
    then have run: "(case fs_rename env (backup_path project) (live_path project) t of None \<Rightarrow> (Inl Restore_failed, t) | Some u \<Rightarrow> (Inr (), u)) = (r, t')"
      using assms(3) b entry_exists[OF assms(1,2)] by (simp add: recover_backup_def act_get_def act_step_def)
    show ?thesis
    proof (cases "fs_rename env (backup_path project) (live_path project) t")
      case f: None
      show ?thesis by (rule stuck[OF None]) (use run f in simp_all)
    next
      case (Some u)
      note e = fs_rename_effect[OF Some]
      have "nm_view project u = (nm_view project t)\<lparr>nm_live := Some b, nm_backup := None\<rparr>" using e b by (simp add: nm_view_def)
      then show ?thesis using run Some restored[OF None b] by simp
    qed
  next
    case l: (Some l)
    then have run: "remove_dir_all env Remove_backup_failed (backup_path project) t = (r, t')"
      using assms(3) b entry_exists[OF assms(1,2)] by (simp add: recover_backup_def act_get_def)
    note e = remove_dir_all_effect[OF run]
    show ?thesis
    proof (cases r)
      case (Inr u)
      then show ?thesis using dropped e(1,2) l b by (simp add: nm_view_def)
    next
      case (Inl x)
      then show ?thesis using kept part e(1,3)[simplified] l b by (fastforce simp: nm_view_def)
    qed
  qed
qed

lemma clean_stage_view:
  assumes "is_dir_at t project" "no_links (nm_view project t)" "clean_stage env project t = (r, t')"
  obtains (nothing) "nm_stage (nm_view project t) = None" "r = Inr ()" "t' = t"
  | (dropped) "nm_stage (nm_view project t) \<noteq> None" "r = Inr ()" "nm_view project t' = (nm_view project t)\<lparr>nm_stage := None\<rparr>"
  | (kept) "r = Inl Clean_stage_failed" "t' = t"
  | (part) es es' where "nm_stage (nm_view project t) = Some (Dir es)" "r = Inl Clean_stage_failed"
      "nm_view project t' = (nm_view project t)\<lparr>nm_stage := Some (Dir es')\<rparr>"
proof (cases "nm_stage (nm_view project t)")
  case None
  show ?thesis by (rule nothing[OF None]) (use assms(3) None entry_exists[OF assms(1,2)] in \<open>simp_all add: clean_stage_def act_get_def act_return_def\<close>)
next
  case s: (Some s)
  then have run: "remove_dir_all env Clean_stage_failed (stage_path project) t = (r, t')"
    using assms(3) entry_exists[OF assms(1,2)] by (simp add: clean_stage_def act_get_def)
  note e = remove_dir_all_effect[OF run]
  show ?thesis
  proof (cases r)
    case (Inr u)
    then show ?thesis using dropped e(1,2) s by (simp add: nm_view_def)
  next
    case (Inl x)
    then show ?thesis using kept part e(1,3)[simplified] s by (fastforce simp: nm_view_def)
  qed
qed

lemma recover_backup_frame:
  assumes "recover_backup env project t = (r, t')"
  shows "elsewhere project q \<Longrightarrow> tree_lookup q t' = tree_lookup q t" "is_dir_at t project \<Longrightarrow> is_dir_at t' project"
    "tree_lookup (stage_path project) t' = tree_lookup (stage_path project) t"
proof -
  consider "t' = t" | "fs_rename env (backup_path project) (live_path project) t = Some t'"
    | "remove_dir_all env Remove_backup_failed (backup_path project) t = (r, t')"
    using assms by (auto simp: recover_backup_def act_get_def act_return_def act_step_def split: if_splits option.splits)
  note c = this
  show "elsewhere project q \<Longrightarrow> tree_lookup q t' = tree_lookup q t"
    using c by cases (simp_all add: elsewhere_def fs_rename_effect(4) remove_dir_all_effect(1))
  show "tree_lookup (stage_path project) t' = tree_lookup (stage_path project) t"
    using c by cases (simp_all add: fs_rename_effect(4) remove_dir_all_effect(1))
  show "is_dir_at t' project" if "is_dir_at t project"
    using c by cases (use that fs_rename_dir remove_dir_all_dir in \<open>auto simp: live_path_def backup_path_def\<close>)
qed

lemma clean_stage_frame:
  assumes "clean_stage env project t = (r, t')"
  shows "disjoint_paths (stage_path project) q \<Longrightarrow> tree_lookup q t' = tree_lookup q t" "is_dir_at t project \<Longrightarrow> is_dir_at t' project"
    "is_dir_at t project \<Longrightarrow> r = Inr () \<Longrightarrow> \<not> path_exists t' (stage_path project)"
proof -
  consider "t' = t" "r = Inr ()" "\<not> path_exists t (stage_path project)" | "remove_dir_all env Clean_stage_failed (stage_path project) t = (r, t')"
    using assms by (auto simp: clean_stage_def act_get_def act_return_def split: if_splits)
  note c = this
  show "disjoint_paths (stage_path project) q \<Longrightarrow> tree_lookup q t' = tree_lookup q t"
    using c by cases (simp_all add: remove_dir_all_effect(1))
  show d: "is_dir_at t' project" if "is_dir_at t project"
    using c by cases (use that remove_dir_all_dir in \<open>auto simp: stage_path_def\<close>)
  show "\<not> path_exists t' (stage_path project)" if "is_dir_at t project" "r = Inr ()"
    using c by cases (use that d path_exists_entry_None in \<open>auto simp: remove_dir_all_effect(2) stage_path_def\<close>)
qed


lemma recover_frame:
  assumes "is_dir_at t project" "recover_link_transaction env project t = (r, t')"
  shows "elsewhere project q \<Longrightarrow> tree_lookup q t' = tree_lookup q t" "is_dir_at t' project"
    "r = Inr () \<Longrightarrow> \<not> path_exists t' (stage_path project)"
proof -
  obtain r1 t1 where b: "recover_backup env project t = (r1, t1)" by (cases "recover_backup env project t")
  note f = recover_backup_frame[OF b]
  have d: "is_dir_at t1 project" by (rule f(2)[OF assms(1)])
  have c: "clean_stage env project t1 = (r, t')" if "r1 = Inr ()" using assms(2) b that by (simp add: recover_link_transaction_def act_bind_def)
  have e: "t' = t1 \<and> r \<noteq> Inr ()" if "r1 \<noteq> Inr ()"
    using assms(2) b that by (cases r1) (auto simp: recover_link_transaction_def act_bind_def)
  show "elsewhere project q \<Longrightarrow> tree_lookup q t' = tree_lookup q t"
    using f(1)[of q] e clean_stage_frame(1)[OF c, of q] by (cases "r1 = Inr ()") (auto simp: elsewhere_def)
  show "is_dir_at t' project" using d e clean_stage_frame(2)[OF c] by (cases "r1 = Inr ()") auto
  show "r = Inr () \<Longrightarrow> \<not> path_exists t' (stage_path project)" using d e clean_stage_frame(3)[OF c] by (cases "r1 = Inr ()") auto
qed

text \<open>Whatever fails, recovery keeps the installed tree; a recovery that succeeds leaves it alone and in place.\<close>

lemma recover_view:
  assumes "is_dir_at t project" "no_links (nm_view project t)" "recover_link_transaction env project t = (r, t')"
  shows "installed (nm_view project t') = installed (nm_view project t)" "no_links (nm_view project t')"
    "r = Inr () \<Longrightarrow> nm_view project t' = \<lparr>nm_live = installed (nm_view project t), nm_stage = None, nm_backup = None\<rparr>"
proof -
  obtain r1 t1 where b: "recover_backup env project t = (r1, t1)" by (cases "recover_backup env project t")
  note d = recover_backup_frame(2)[OF b assms(1)]
  have m: "installed (nm_view project t1) = installed (nm_view project t)" "no_links (nm_view project t1)"
    "r1 = Inr () \<Longrightarrow> nm_backup (nm_view project t1) = None"
    using assms(2) by (cases rule: recover_backup_view[OF assms(1,2) b]; auto simp: installed_def no_links_iff split: option.splits)+
  have e: "t' = t1 \<and> r \<noteq> Inr ()" if "r1 \<noteq> Inr ()"
    using assms(3) b that by (cases r1) (auto simp: recover_link_transaction_def act_bind_def)
  have "installed (nm_view project t') = installed (nm_view project t) \<and> no_links (nm_view project t')
    \<and> (r = Inr () \<longrightarrow> nm_view project t' = \<lparr>nm_live = installed (nm_view project t), nm_stage = None, nm_backup = None\<rparr>)"
  proof (cases "r1 = Inr ()")
    case True
    then have c: "clean_stage env project t1 = (r, t')" using assms(3) b by (simp add: recover_link_transaction_def act_bind_def)
    have i: "nm_live (nm_view project t1) = installed (nm_view project t)" using m(1,3) True by (simp add: installed_def split: option.splits)
    show ?thesis by (cases rule: clean_stage_view[OF d m(2) c])
      (use i m True in \<open>auto simp: installed_def no_links_iff split: option.splits\<close>)
  qed (use m e in simp)
  then show "installed (nm_view project t') = installed (nm_view project t)" "no_links (nm_view project t')"
    "r = Inr () \<Longrightarrow> nm_view project t' = \<lparr>nm_live = installed (nm_view project t), nm_stage = None, nm_backup = None\<rparr>" by blast+
qed

text \<open>A commit, whatever the three entries are.\<close>

lemma set_aside_frame:
  assumes "is_dir_at t project" "set_aside_live env project t = (r, t')"
  shows "disjoint_paths (live_path project) q \<Longrightarrow> disjoint_paths (backup_path project) q \<Longrightarrow> tree_lookup q t' = tree_lookup q t" "is_dir_at t' project"
proof -
  consider "t' = t" | "fs_rename env (live_path project) (backup_path project) t = Some t'"
    using assms(2) by (auto simp: set_aside_live_def act_get_def act_return_def act_step_def split: if_splits option.splits)
  note c = this
  show "disjoint_paths (live_path project) q \<Longrightarrow> disjoint_paths (backup_path project) q \<Longrightarrow> tree_lookup q t' = tree_lookup q t"
    using c by cases (simp_all add: fs_rename_effect(4))
  show "is_dir_at t' project" using c by cases (use assms(1) fs_rename_dir in \<open>auto simp: live_path_def backup_path_def\<close>)
qed

lemma promote_frame:
  assumes "is_dir_at t project" "promote_stage env project t = (r, t')"
  shows "elsewhere project q \<Longrightarrow> tree_lookup q t' = tree_lookup q t" "is_dir_at t' project"
    "r = Inr () \<Longrightarrow> tree_lookup (live_path project @ q) t' = tree_lookup (stage_path project @ q) t \<and> tree_lookup (stage_path project) t' = None"
proof -
  have rm: "is_dir_at u project \<Longrightarrow> is_dir_at (snd (remove_dir_all env e (backup_path project) u)) project" for e :: link_error and u
    using remove_dir_all_dir[of env e project _ u] by (cases "remove_dir_all env e (backup_path project) u") (auto simp: backup_path_def)
  have keep: "disjoint_paths (backup_path project) q \<Longrightarrow> tree_lookup q (snd (remove_dir_all env e (backup_path project) u)) = tree_lookup q u" for e :: link_error and u q
    using remove_dir_all_effect(1)[of env e "backup_path project" u] by (cases "remove_dir_all env e (backup_path project) u") auto
  show "elsewhere project q \<Longrightarrow> tree_lookup q t' = tree_lookup q t"
    using assms(2) keep fs_rename_effect(4)[of env _ "live_path project"]
    by (auto simp: promote_stage_def Let_def elsewhere_def split: option.splits if_splits)
  have "is_dir_at u project" if "fs_rename env (project @ [a]) (live_path project) t = Some u" "a \<noteq> ''node_modules''" for a u
    using fs_rename_dir[of env project a "''node_modules''"] that by (simp add: live_path_def)
  then show "is_dir_at t' project"
    using assms rm by (auto simp: promote_stage_def Let_def stage_path_def backup_path_def split: option.splits if_splits)
  assume "r = Inr ()"
  then obtain u where u: "fs_rename env (stage_path project) (live_path project) t = Some u"
    "t' = (if path_exists u (backup_path project) then snd (remove_dir_all env Backup_cleanup_failed (backup_path project) u) else u)"
    using assms(2) by (auto simp: promote_stage_def Let_def split: option.splits)
  note e = fs_rename_effect[OF u(1)]
  have "tree_lookup (live_path project) t' = tree_lookup (stage_path project) t" "tree_lookup (stage_path project) t' = None"
    using e(1,2) u(2) keep[of "live_path project"] keep[of "stage_path project"] by simp_all
  then show "tree_lookup (live_path project @ q) t' = tree_lookup (stage_path project @ q) t \<and> tree_lookup (stage_path project) t' = None"
    by (simp add: tree_lookup_append)
qed

lemma commit_frame:
  assumes "is_dir_at t project" "commit_link_transaction env project t = (r, t')"
  shows "elsewhere project q \<Longrightarrow> tree_lookup q t' = tree_lookup q t" "is_dir_at t' project"
    "r = Inr () \<Longrightarrow> tree_lookup (live_path project @ q) t' = tree_lookup (stage_path project @ q) t"
    "r = Inr () \<Longrightarrow> tree_lookup (stage_path project) t' = None"
proof -
  obtain r1 t1 where a: "set_aside_live env project t = (r1, t1)" by (cases "set_aside_live env project t")
  note f = set_aside_frame[OF assms(1) a]
  have p: "promote_stage env project t1 = (r, t')" if "r1 = Inr ()" using assms(2) a that by (simp add: commit_link_transaction_def act_bind_def)
  have e: "t' = t1 \<and> r \<noteq> Inr ()" if "r1 \<noteq> Inr ()"
    using assms(2) a that by (cases r1) (auto simp: commit_link_transaction_def act_bind_def)
  show "elsewhere project q \<Longrightarrow> tree_lookup q t' = tree_lookup q t"
    using f(1)[of q] e promote_frame(1)[OF f(2) p, of q] by (cases "r1 = Inr ()") (auto simp: elsewhere_def)
  show "is_dir_at t' project" using f(2) e promote_frame(2)[OF f(2) p] by (cases "r1 = Inr ()") auto
  have "tree_lookup (stage_path project @ q) t1 = tree_lookup (stage_path project @ q) t"
    using f(1)[of "stage_path project"] by (simp add: tree_lookup_append)
  then show "r = Inr () \<Longrightarrow> tree_lookup (live_path project @ q) t' = tree_lookup (stage_path project @ q) t"
    using e promote_frame(3)[OF f(2) p, of q] by (cases "r1 = Inr ()") auto
  show "r = Inr () \<Longrightarrow> tree_lookup (stage_path project) t' = None"
    using e promote_frame(3)[OF f(2) p] by (cases "r1 = Inr ()") auto
qed


text \<open>A commit of a stage, with no link and no backup in the way.\<close>

lemma set_aside_view:
  assumes "is_dir_at t project" "no_links (nm_view project t)" "nm_backup (nm_view project t) = None" "set_aside_live env project t = (r, t')"
  obtains (nothing) "nm_live (nm_view project t) = None" "r = Inr ()" "t' = t"
  | (moved) l where "nm_live (nm_view project t) = Some l" "r = Inr ()" "nm_view project t' = (nm_view project t)\<lparr>nm_live := None, nm_backup := Some l\<rparr>"
  | (stuck) "r = Inl Stage_existing_failed" "t' = t"
proof (cases "nm_live (nm_view project t)")
  case None
  show ?thesis by (rule nothing[OF None])
    (use assms(4) None entry_exists[OF assms(1,2)] in \<open>simp_all add: set_aside_live_def act_get_def act_return_def\<close>)
next
  case l: (Some l)
  then have run: "(case fs_rename env (live_path project) (backup_path project) t of None \<Rightarrow> (Inl Stage_existing_failed, t) | Some u \<Rightarrow> (Inr (), u)) = (r, t')"
    using assms(4) entry_exists[OF assms(1,2)] by (simp add: set_aside_live_def act_get_def act_step_def)
  show ?thesis
  proof (cases "fs_rename env (live_path project) (backup_path project) t")
    case None
    then show ?thesis using run stuck by simp
  next
    case (Some u)
    then show ?thesis using run moved[OF l] fs_rename_effect[OF Some] l by (simp add: nm_view_def)
  qed
qed

lemma promote_view:
  assumes d: "is_dir_at t project" and n: "no_links (nm_view project t)" and l: "nm_live (nm_view project t) = None"
    and run: "promote_stage env project t = (r, t')"
  obtains (stuck) "r = Inl Promote_failed" "t' = t"
  | (rolled_back) b where "nm_backup (nm_view project t) = Some b" "r = Inl Promote_failed" "nm_view project t' = (nm_view project t)\<lparr>nm_live := Some b, nm_backup := None\<rparr>"
  | (promoted) x u where "nm_stage (nm_view project t) = Some x" "r = Inr ()" "nm_view project u = (nm_view project t)\<lparr>nm_live := Some x, nm_stage := None\<rparr>"
      "t' = (if nm_backup (nm_view project t) = None then u else snd (remove_dir_all env Backup_cleanup_failed (backup_path project) u))"
proof (cases "fs_rename env (stage_path project) (live_path project) t")
  case None
  show ?thesis
  proof (cases "path_exists t (backup_path project) \<and> \<not> path_exists t (live_path project)")
    case True
    then obtain b where b: "nm_backup (nm_view project t) = Some b" using entry_exists(3)[OF d n] by blast
    show ?thesis
    proof (cases "fs_rename env (backup_path project) (live_path project) t")
      case (Some u)
      then show ?thesis using run None True rolled_back[OF b] fs_rename_effect[OF Some] b by (simp add: promote_stage_def Let_def nm_view_def)
    qed (use run None True stuck in \<open>simp add: promote_stage_def Let_def\<close>)
  qed (use run None stuck in \<open>auto simp: promote_stage_def Let_def\<close>)
next
  case (Some u)
  note e = fs_rename_effect[OF Some]
  obtain x where x: "nm_stage (nm_view project t) = Some x" using e(3) by (auto simp: nm_view_def)
  have v: "nm_view project u = (nm_view project t)\<lparr>nm_live := Some x, nm_stage := None\<rparr>" using e x by (simp add: nm_view_def)
  have du: "is_dir_at u project" using fs_rename_dir[of env project "''.oath-node_modules-stage''" "''node_modules''"] Some by (simp add: stage_path_def live_path_def)
  have "no_links (nm_view project u)" using n x v by (auto simp: no_links_iff)
  from entry_exists(3)[OF du this] have "path_exists u (backup_path project) \<longleftrightarrow> nm_backup (nm_view project t) \<noteq> None" by (simp add: v)
  then show ?thesis using run Some promoted[OF x _ v] by (auto simp: promote_stage_def Let_def)
qed

lemma commit_view:
  assumes "is_dir_at t project" "no_links (nm_view project t)" "nm_backup (nm_view project t) = None"
    "commit_link_transaction env project t = (r, t')"
  shows "r = Inl e \<Longrightarrow> installed (nm_view project t') = installed (nm_view project t)"
    "r = Inr () \<Longrightarrow> nm_live (nm_view project t') \<noteq> None \<and> nm_stage (nm_view project t') = None
       \<and> (nm_backup (nm_view project t') = None
          \<or> (\<exists>u. nm_backup (nm_view project u) = installed (nm_view project t) \<and> remove_dir_all env Backup_cleanup_failed (backup_path project) u = (Inl Backup_cleanup_failed, t')))"
proof -
  have i: "installed (nm_view project t) = nm_live (nm_view project t)" using assms(3) by (simp add: installed_def split: option.split)
  obtain r1 t1 where a: "set_aside_live env project t = (r1, t1)" by (cases "set_aside_live env project t")
  have "(\<forall>e. r = Inl e \<longrightarrow> installed (nm_view project t') = installed (nm_view project t))
    \<and> (r = Inr () \<longrightarrow> nm_live (nm_view project t') \<noteq> None \<and> nm_stage (nm_view project t') = None
       \<and> (nm_backup (nm_view project t') = None
          \<or> (\<exists>u. nm_backup (nm_view project u) = installed (nm_view project t) \<and> remove_dir_all env Backup_cleanup_failed (backup_path project) u = (Inl Backup_cleanup_failed, t'))))"
    (is "?err \<and> ?ok")
  proof (cases "r1 = Inr ()")
    case False
    then have "r \<noteq> Inr ()" "t' = t1" using assms(4) a by (cases r1; auto simp: commit_link_transaction_def act_bind_def)+
    moreover have "t1 = t" using False by (cases rule: set_aside_view[OF assms(1-3) a]) simp_all
    ultimately show ?thesis by simp
  next
    case True
    have p: "promote_stage env project t1 = (r, t')" using assms(4) a True by (simp add: commit_link_transaction_def act_bind_def)
    have m: "nm_live (nm_view project t1) = None" "nm_backup (nm_view project t1) = installed (nm_view project t)"
      "nm_stage (nm_view project t1) = nm_stage (nm_view project t)" "no_links (nm_view project t1)"
      using True assms(2,3) by (cases rule: set_aside_view[OF assms(1-3) a]; auto simp: i no_links_iff)+
    note d = set_aside_frame(2)[OF assms(1) a]
    show ?thesis
    proof (cases rule: promote_view[OF d m(4,1) p])
      case 1
      then show ?thesis using m by (simp add: installed_def)
    next
      case (2 b)
      then show ?thesis using m by (simp add: installed_def)
    next
      case (3 x u)
      note promoted = this
      show ?thesis
      proof (cases "nm_backup (nm_view project t1)")
        case None
        then show ?thesis using promoted m by simp
      next
        case (Some b)
        obtain r2 t2 where c: "remove_dir_all env Backup_cleanup_failed (backup_path project) u = (r2, t2)" by (cases "remove_dir_all env Backup_cleanup_failed (backup_path project) u")
        have t2: "t' = t2" using promoted(4) Some c by simp
        note e = remove_dir_all_effect[OF c]
        have s: "nm_live (nm_view project t2) = Some x" "nm_stage (nm_view project t2) = None"
          using promoted(3) e(1) by (simp_all add: nm_view_def)
        have "nm_backup (nm_view project u) = installed (nm_view project t)" using promoted(3) m(2) by simp
        moreover have "r2 = Inl Backup_cleanup_failed \<or> nm_backup (nm_view project t2) = None"
          using e(2,3) by (cases r2) (auto simp: nm_view_def)
        ultimately show ?thesis using promoted(2) s c t2 by auto
      qed
    qed
  qed
  then show "r = Inl e \<Longrightarrow> installed (nm_view project t') = installed (nm_view project t)"
    "r = Inr () \<Longrightarrow> nm_live (nm_view project t') \<noteq> None \<and> nm_stage (nm_view project t') = None
       \<and> (nm_backup (nm_view project t') = None
          \<or> (\<exists>u. nm_backup (nm_view project u) = installed (nm_view project t) \<and> remove_dir_all env Backup_cleanup_failed (backup_path project) u = (Inl Backup_cleanup_failed, t')))"
    by blast+
qed

text \<open>When no call fails and the entries are directories, both halves succeed.\<close>

lemma recover_succeeds:
  assumes "is_dir_at t project" "only_dirs (nm_view project t)"
  shows "\<exists>t'. recover_link_transaction no_faults project t = (Inr (), t')"
proof -
  note n = only_dirs_no_links[OF assms(2)]
  obtain r1 t1 where b: "recover_backup no_faults project t = (r1, t1)" by (cases "recover_backup no_faults project t")
  have dirs: "\<exists>es. x = Dir es" if "nm_backup (nm_view project t) = Some x \<or> nm_stage (nm_view project t) = Some x" for x
    using assms(2) that by (cases x) (auto simp: only_dirs_iff)
  have r1: "r1 = Inr ()"
  proof (cases "nm_backup (nm_view project t)")
    case None
    then show ?thesis using b entry_exists[OF assms(1) n] by (simp add: recover_backup_def act_get_def act_return_def)
  next
    case (Some x)
    then obtain es where x: "tree_lookup (backup_path project) t = Some (Dir es)" using dirs by (auto simp: nm_view_def)
    show ?thesis
    proof (cases "nm_live (nm_view project t)")
      case None
      then obtain u where "fs_rename no_faults (backup_path project) (live_path project) t = Some u"
        using fs_rename_free[OF assms(1)] x by (fastforce simp: nm_view_def live_path_def backup_path_def)
      then show ?thesis using b Some None entry_exists[OF assms(1) n] by (simp add: recover_backup_def act_get_def act_step_def)
    next
      case (Some l)
      then show ?thesis using b \<open>nm_backup _ = Some x\<close> x entry_exists[OF assms(1) n]
        by (simp add: recover_backup_def act_get_def remove_dir_all_free)
    qed
  qed
  have n1: "no_links (nm_view project t1)"
    using n by (cases rule: recover_backup_view[OF assms(1) n b]) (auto simp: no_links_iff)
  note d1 = recover_backup_frame(2)[OF b assms(1)]
  have s1: "nm_stage (nm_view project t1) = nm_stage (nm_view project t)" using recover_backup_frame(3)[OF b] by (simp add: nm_view_def)
  have "\<exists>t'. clean_stage no_faults project t1 = (Inr (), t')"
  proof (cases "nm_stage (nm_view project t1)")
    case None
    then show ?thesis using entry_exists[OF d1 n1] by (simp add: clean_stage_def act_get_def act_return_def)
  next
    case (Some x)
    then obtain es where "x = Dir es" using dirs s1 by metis
    then have "tree_lookup (stage_path project) t1 = Some (Dir es)" using Some by (simp add: nm_view_def)
    then show ?thesis using Some entry_exists[OF d1 n1] by (simp add: clean_stage_def act_get_def remove_dir_all_free)
  qed
  then show ?thesis using b r1 by (simp add: recover_link_transaction_def act_bind_def)
qed


section \<open>The steps of a run\<close>

datatype link_phase = Idle | Recovering | Cleaning | Building | Committing | Promoting | Restoring | Finishing

text \<open>
  One step is one file-system call, or a part of the removal of a directory. \<open>complete\<close> says of a tree that it is a finished
  layout: only such a stage goes on to be committed.
\<close>

inductive link_step :: "(ftree \<Rightarrow> bool) \<Rightarrow> link_phase \<times> nm_dirs \<Rightarrow> link_phase \<times> nm_dirs \<Rightarrow> bool" for complete where
  start: "link_step complete (Idle, s) (Recovering, s)"
| stop: "link_step complete (p, s) (Idle, s)"
| drop_backup_part: "nm_backup s = Some (Dir es) \<Longrightarrow> nm_live s \<noteq> None \<Longrightarrow>
    link_step complete (Recovering, s) (Recovering, s\<lparr>nm_backup := Some (Dir es')\<rparr>)"
| drop_backup: "nm_backup s \<noteq> None \<Longrightarrow> nm_live s \<noteq> None \<Longrightarrow>
    link_step complete (Recovering, s) (Cleaning, s\<lparr>nm_backup := None\<rparr>)"
| restore_backup: "nm_backup s = Some b \<Longrightarrow> nm_live s = None \<Longrightarrow>
    link_step complete (Recovering, s) (Cleaning, s\<lparr>nm_live := Some b, nm_backup := None\<rparr>)"
| nothing_to_recover: "nm_backup s = None \<Longrightarrow> link_step complete (Recovering, s) (Cleaning, s)"
| drop_stage_part: "nm_stage s = Some (Dir es) \<Longrightarrow> link_step complete (Cleaning, s) (Cleaning, s\<lparr>nm_stage := Some (Dir es')\<rparr>)"
| drop_stage: "link_step complete (Cleaning, s) (Building, s\<lparr>nm_stage := None\<rparr>)"
| build: "link_step complete (Building, s) (Building, s\<lparr>nm_stage := Some (Dir es)\<rparr>)"
| built: "nm_stage s = Some x \<Longrightarrow> complete x \<Longrightarrow> link_step complete (Building, s) (Committing, s)"
| set_aside: "nm_live s = Some t \<Longrightarrow> nm_backup s = None \<Longrightarrow>
    link_step complete (Committing, s) (Promoting, s\<lparr>nm_live := None, nm_backup := Some t\<rparr>)"
| nothing_to_set_aside: "nm_live s = None \<Longrightarrow> link_step complete (Committing, s) (Promoting, s)"
| promote: "nm_stage s = Some x \<Longrightarrow> nm_live s = None \<Longrightarrow>
    link_step complete (Promoting, s) (Finishing, s\<lparr>nm_live := Some x, nm_stage := None\<rparr>)"
| promote_failed: "link_step complete (Promoting, s) (Restoring, s)"
| roll_back: "nm_backup s = Some b \<Longrightarrow> nm_live s = None \<Longrightarrow>
    link_step complete (Restoring, s) (Idle, s\<lparr>nm_live := Some b, nm_backup := None\<rparr>)"
| finish_part: "nm_backup s = Some (Dir es) \<Longrightarrow> link_step complete (Finishing, s) (Finishing, s\<lparr>nm_backup := Some (Dir es')\<rparr>)"
| finish: "link_step complete (Finishing, s) (Idle, s\<lparr>nm_backup := None\<rparr>)"

inductive_cases link_stepE: "link_step complete (p, s) (p', s')"

text \<open>A phase knows something: a finished stage waits in \<open>Committing\<close> and \<open>Promoting\<close>, and only a promoted tree is finished.\<close>

definition link_inv :: "(ftree \<Rightarrow> bool) \<Rightarrow> link_phase \<times> nm_dirs \<Rightarrow> bool" where
  "link_inv complete ps \<longleftrightarrow> (case ps of (p, s) \<Rightarrow>
     (\<forall>t. installed s = Some t \<longrightarrow> complete t) \<and> only_dirs s
     \<and> (p \<in> {Committing, Promoting} \<longrightarrow> (\<exists>x. nm_stage s = Some x \<and> complete x))
     \<and> (p \<in> {Cleaning, Building, Committing} \<longrightarrow> nm_backup s = None)
     \<and> (p = Promoting \<longrightarrow> nm_live s = None)
     \<and> (p = Finishing \<longrightarrow> nm_live s \<noteq> None))"

lemma link_inv_step:
  assumes "link_step complete (p, s) (p', s')" "link_inv complete (p, s)"
  shows "link_inv complete (p', s')"
  using assms(1) by (cases rule: link_step.cases) (use assms(2) in \<open>auto simp: link_inv_def installed_def only_dirs_iff split: option.splits\<close>)

text \<open>One step keeps the installed tree, or replaces it by the finished stage in one move.\<close>

lemma installed_step:
  assumes "link_step complete (p, s) (p', s')" "link_inv complete (p, s)"
  shows "installed s' = installed s \<or> (p = Promoting \<and> p' = Finishing \<and> installed s' = nm_stage s)"
  using assms(1) by (cases rule: link_step.cases) (use assms(2) in \<open>auto simp: link_inv_def installed_def split: option.splits\<close>)

lemma link_reachable:
  assumes "(link_step complete)\<^sup>*\<^sup>* (p, s) (p', s')" "link_inv complete (p, s)"
  shows "link_inv complete (p', s') \<and> (installed s \<noteq> None \<longrightarrow> installed s' \<noteq> None)"
  using assms
proof (induction rule: rtranclp_induct2)
  case (step p1 s1 p2 s2)
  have inv: "link_inv complete (p1, s1)" using step.IH step.prems by blast
  have "installed s2 = installed s1 \<or> (p1 = Promoting \<and> installed s2 = nm_stage s1)"
    using installed_step[OF step.hyps(2) inv] by blast
  then have "installed s1 \<noteq> None \<longrightarrow> installed s2 \<noteq> None" using inv by (auto simp: link_inv_def)
  then show ?case using link_inv_step[OF step.hyps(2) inv] step.IH step.prems by blast
qed simp

lemma link_inv_idle: "link_inv complete (p, s) \<Longrightarrow> link_inv complete (Idle, s)"
  by (simp add: link_inv_def)

lemma link_steps_one: "link_step complete a b \<Longrightarrow> (link_step complete)\<^sup>*\<^sup>* a b"
  by (rule r_into_rtranclp)

lemma link_steps_two: "link_step complete a b \<Longrightarrow> link_step complete b c \<Longrightarrow> (link_step complete)\<^sup>*\<^sup>* a c"
  by (meson link_steps_one rtranclp.rtrancl_into_rtrancl)

lemma link_steps_before: "link_step complete a b \<Longrightarrow> (link_step complete)\<^sup>*\<^sup>* b c \<Longrightarrow> (link_step complete)\<^sup>*\<^sup>* a c"
  by (rule converse_rtranclp_into_rtranclp)

section \<open>The code takes these steps\<close>

lemma recover_backup_steps:
  assumes "is_dir_at t project" "only_dirs (nm_view project t)" "recover_backup env project t = (r, t')"
  shows "(link_step complete)\<^sup>*\<^sup>* (Recovering, nm_view project t) (if r = Inr () then Cleaning else Idle, nm_view project t') \<and> only_dirs (nm_view project t')"
proof (cases rule: recover_backup_view[OF assms(1) only_dirs_no_links[OF assms(2)] assms(3)])
  case 1
  then show ?thesis using assms(2) link_steps_one[OF nothing_to_recover] by simp
next
  case 2
  then show ?thesis using assms(2) link_steps_one[OF drop_backup[OF 2(2,1)]] by (simp add: only_dirs_iff)
next
  case 3
  then show ?thesis using assms(2) link_steps_one[OF stop] by simp
next
  case (4 es es')
  then show ?thesis using assms(2) link_steps_two[OF drop_backup_part[OF 4(2,1), where es' = es'] stop] by (simp add: only_dirs_iff)
next
  case (5 b)
  then show ?thesis using assms(2) link_steps_one[OF restore_backup[OF 5(2,1)]] by (simp add: only_dirs_iff)
next
  case 6
  then show ?thesis using assms(2) link_steps_one[OF stop] by simp
qed

lemma clean_stage_steps:
  assumes "is_dir_at t project" "only_dirs (nm_view project t)" "clean_stage env project t = (r, t')"
  shows "(link_step complete)\<^sup>*\<^sup>* (Cleaning, nm_view project t) (if r = Inr () then Building else Idle, nm_view project t') \<and> only_dirs (nm_view project t')"
proof (cases rule: clean_stage_view[OF assms(1) only_dirs_no_links[OF assms(2)] assms(3)])
  case 1
  have "(nm_view project t)\<lparr>nm_stage := None\<rparr> = nm_view project t" using 1(1) by (cases "nm_view project t") simp
  then have "link_step complete (Cleaning, nm_view project t) (Building, nm_view project t)"
    using drop_stage[of complete "nm_view project t"] by simp
  then show ?thesis using 1 assms(2) link_steps_one by simp
next
  case 2
  then show ?thesis using assms(2) link_steps_one[OF drop_stage, of complete "nm_view project t"] by (simp add: only_dirs_iff)
next
  case 3
  then show ?thesis using assms(2) link_steps_one[OF stop] by simp
next
  case (4 es es')
  then show ?thesis using assms(2) link_steps_two[OF drop_stage_part[OF 4(1), where es' = es'] stop] by (simp add: only_dirs_iff)
qed

lemma recover_steps:
  assumes "is_dir_at t project" "only_dirs (nm_view project t)" "recover_link_transaction env project t = (r, t')"
  shows "(link_step complete)\<^sup>*\<^sup>* (Recovering, nm_view project t) (if r = Inr () then Building else Idle, nm_view project t') \<and> only_dirs (nm_view project t')"
proof -
  obtain r1 t1 where b: "recover_backup env project t = (r1, t1)" by (cases "recover_backup env project t")
  note s1 = recover_backup_steps[OF assms(1,2) b, of complete]
  note d1 = recover_backup_frame(2)[OF b assms(1)]
  show ?thesis
  proof (cases "r1 = Inr ()")
    case True
    then have c: "clean_stage env project t1 = (r, t')" using assms(3) b by (simp add: recover_link_transaction_def act_bind_def)
    show ?thesis using s1 True clean_stage_steps[OF d1 _ c, of complete] by (auto intro: rtranclp_trans)
  next
    case False
    then have "t' = t1 \<and> r \<noteq> Inr ()" using assms(3) b by (cases r1) (auto simp: recover_link_transaction_def act_bind_def)
    then show ?thesis using s1 False by simp
  qed
qed

lemma promote_steps:
  assumes "is_dir_at t project" "only_dirs (nm_view project t)" "nm_live (nm_view project t) = None" "promote_stage env project t = (r, t')"
  shows "(link_step complete)\<^sup>*\<^sup>* (Promoting, nm_view project t) (Idle, nm_view project t') \<and> only_dirs (nm_view project t')"
proof (cases rule: promote_view[OF assms(1) only_dirs_no_links[OF assms(2)] assms(3,4)])
  case 1
  then show ?thesis using assms(2) link_steps_one[OF stop] by simp
next
  case (2 b)
  then show ?thesis using assms(2) link_steps_two[OF promote_failed roll_back[OF 2(1) assms(3)]] by (simp add: only_dirs_iff)
next
  case (3 x u)
  have p: "link_step complete (Promoting, nm_view project t) (Finishing, nm_view project u)" unfolding 3(3) by (rule promote[OF 3(1) assms(3)])
  have du: "only_dirs (nm_view project u)" using assms(2) 3(1) unfolding 3(3) by (simp add: only_dirs_iff)
  show ?thesis
  proof (cases "nm_backup (nm_view project t)")
    case None
    then show ?thesis using 3 du link_steps_two[OF p stop] by simp
  next
    case (Some b)
    obtain r2 where c: "remove_dir_all env Backup_cleanup_failed (backup_path project) u = (r2, t')"
      using 3(4) Some by (cases "remove_dir_all env Backup_cleanup_failed (backup_path project) u") auto
    note e = remove_dir_all_effect[OF c]
    consider (gone) "nm_view project t' = (nm_view project u)\<lparr>nm_backup := None\<rparr>" | (same) "t' = u"
      | (part) es es' where "nm_backup (nm_view project u) = Some (Dir es)" "nm_view project t' = (nm_view project u)\<lparr>nm_backup := Some (Dir es')\<rparr>"
      using e by (cases r2) (fastforce simp: nm_view_def)+
    then show ?thesis
    proof cases
      case gone
      then show ?thesis using du link_steps_two[OF p finish] by (simp add: only_dirs_iff)
    next
      case same
      then show ?thesis using du link_steps_two[OF p stop] by simp
    next
      case (part es es')
      then show ?thesis using du rtranclp.rtrancl_into_rtrancl[OF link_steps_two[OF p finish_part[OF part(1), where es' = es']] stop] by (simp add: only_dirs_iff)
    qed
  qed
qed

lemma commit_steps:
  assumes "is_dir_at t project" "only_dirs (nm_view project t)" "nm_backup (nm_view project t) = None" "commit_link_transaction env project t = (r, t')"
  shows "(link_step complete)\<^sup>*\<^sup>* (Committing, nm_view project t) (Idle, nm_view project t') \<and> only_dirs (nm_view project t')"
proof -
  note n = only_dirs_no_links[OF assms(2)]
  obtain r1 t1 where a: "set_aside_live env project t = (r1, t1)" by (cases "set_aside_live env project t")
  note d1 = set_aside_frame(2)[OF assms(1) a]
  have p: "promote_stage env project t1 = (r, t')" if "r1 = Inr ()" using assms(4) a that by (simp add: commit_link_transaction_def act_bind_def)
  show ?thesis
  proof (cases rule: set_aside_view[OF assms(1) n assms(3) a])
    case 1
    then show ?thesis using promote_steps[OF d1 _ _ p, of complete] assms(2) link_steps_before[OF nothing_to_set_aside] by simp
  next
    case (2 l)
    have "only_dirs (nm_view project t1)" using 2 assms(2) by (simp add: only_dirs_iff)
    from promote_steps[OF d1 this _ p, of complete] show ?thesis
      using 2 link_steps_before[OF set_aside[OF 2(1) assms(3)]] by simp
  next
    case 3
    then have "t' = t" using assms(4) a by (auto simp: commit_link_transaction_def act_bind_def)
    then show ?thesis using assms(2) link_steps_one[OF stop] by simp
  qed
qed

end
