(* ===== verification/Link_All.thy ===== *)
theory Link_All
  imports Link_Transaction Cas
begin

text \<open>
  The construction of a \<open>node_modules\<close> tree from a resolved graph (\<open>link_all\<close> in \<open>crates/oath-store/src/linker.rs\<close>). Every
  package is copied to \<open>.oath/<key>/node_modules/<name>\<close>, the hoisted version of each name is linked at the top, the
  other versions are linked below the packages that need them, dependencies and peers are linked beside each
  package, and programs in \<open>.bin\<close>. A path is the list of its component names below the root of the tree. The store is a tree of its own. File
  modes, log output and the Windows junctions are left out. The calls of the transaction can fail as \<open>fs_faults\<close> says; a call of the
  construction fails when the tree does not allow it.
\<close>

section \<open>Copying a package\<close>

fun hardlink_dir :: "string list \<Rightarrow> ftree \<Rightarrow> (link_error, unit) action"
  and hardlink_entries :: "string list \<Rightarrow> (string \<times> ftree) list \<Rightarrow> (link_error, unit) action" where
  "hardlink_dir dst (Dir es) = act_bind (act_step Link_io_failed (make_dirs dst)) (\<lambda>_. hardlink_entries dst es)"
| "hardlink_dir dst (File _) = act_bind (act_step Link_io_failed (make_dirs dst)) (\<lambda>_. act_fail Link_io_failed)"
| "hardlink_dir dst (Special _) = act_bind (act_step Link_io_failed (make_dirs dst)) (\<lambda>_. act_fail Link_io_failed)"
| "hardlink_entries dst [] = act_return ()"
| "hardlink_entries dst ((n, Dir es) # r) = act_bind (hardlink_dir (dst @ [n]) (Dir es)) (\<lambda>_. hardlink_entries dst r)"
| "hardlink_entries dst ((n, File data) # r) = act_bind (act_step Link_io_failed (fs_write (dst @ [n]) data)) (\<lambda>_. hardlink_entries dst r)"
| "hardlink_entries dst ((n, Special _) # r) = hardlink_entries dst r"

section \<open>The phases\<close>

record link_result =
  lr_linked :: nat
  lr_symlinks :: nat
  lr_nested :: nat
  lr_bins :: nat
  lr_missing :: nat

definition default_link_result :: link_result where
  "default_link_result = \<lparr>lr_linked = 0, lr_symlinks = 0, lr_nested = 0, lr_bins = 0, lr_missing = 0\<rparr>"

abbreviation name_parts :: "string \<Rightarrow> string list" where
  "name_parts \<equiv> split_char (CHR ''/'')"

definition virtual_modules :: "string list \<Rightarrow> string \<Rightarrow> string list" where
  "virtual_modules nm key = nm @ [''.oath'', virtual_key_component key, ''node_modules'']"

definition virtual_dir :: "string list \<Rightarrow> string \<Rightarrow> string \<Rightarrow> string list" where
  "virtual_dir nm key install_name = virtual_modules nm key @ name_parts install_name"

definition package_source :: "(string \<Rightarrow> string) \<Rightarrow> ftree \<Rightarrow> dep_node \<Rightarrow> ftree option" where
  "package_source blake3 store node =
     tree_lookup (package_dir_for blake3 (dn_name node) (dn_version node) (Some (dn_resolved node)) (dn_integrity node)) store"

definition link_package ::
  "(dep_node \<Rightarrow> ftree option) \<Rightarrow> string list \<Rightarrow> string \<times> dep_node \<Rightarrow> link_result \<Rightarrow> (link_error, link_result) action" where
  "link_package source nm kn res =
     (case source (snd kn) of
        None \<Rightarrow> act_return (res\<lparr>lr_missing := lr_missing res + 1\<rparr>)
      | Some src \<Rightarrow>
          let dir = virtual_dir nm (fst kn) (install_name_of (snd kn))
          in act_bind (act_step Link_io_failed (make_dirs (butlast dir))) (\<lambda>_.
             act_bind (hardlink_dir dir src) (\<lambda>_.
             act_return (res\<lparr>lr_linked := lr_linked res + 1\<rparr>))))"

definition scope_dir :: "string list \<Rightarrow> string \<Rightarrow> (link_error, unit) action" where
  "scope_dir dir name =
     (if CHR ''/'' \<in> set name then act_step Link_io_failed (make_dirs (dir @ [hd (name_parts name)])) else act_return ())"

definition hoisted_text :: "string \<Rightarrow> string \<Rightarrow> string" where
  "hoisted_text install_name key =
     intercalate ''/'' ((if CHR ''/'' \<in> set install_name then [''..''] else [])
       @ [''.oath'', virtual_key_component key, ''node_modules'', install_name])"

definition link_hoisted ::
  "dep_graph \<Rightarrow> string list \<Rightarrow> string \<times> string \<Rightarrow> link_result \<Rightarrow> (link_error, link_result) action" where
  "link_hoisted graph nm nk res =
     (case nk of (install_name, key) \<Rightarrow>
        if map_of (dg_nodes graph) key = None then act_return res
        else act_bind (scope_dir nm install_name) (\<lambda>_.
             act_bind (act_step Link_io_failed (symlink (hoisted_text install_name key) (nm @ name_parts install_name))) (\<lambda>_.
             act_return (res\<lparr>lr_symlinks := lr_symlinks res + 1\<rparr>))))"

definition nested_scope_dir :: "string list \<Rightarrow> string \<Rightarrow> (link_error, unit) action" where
  "nested_scope_dir dir name =
     act_step Link_io_failed (make_dirs (if CHR ''/'' \<in> set name then dir @ [hd (name_parts name)] else dir))"

definition link_nested ::
  "dep_graph \<Rightarrow> string list \<Rightarrow> string \<times> string \<times> string \<Rightarrow> link_result \<Rightarrow> (link_error, link_result) action" where
  "link_nested graph nm pnc res =
     (case pnc of (parent_key, install_name, child_key) \<Rightarrow>
        case map_of (dg_nodes graph) parent_key of
          None \<Rightarrow> act_return res
        | Some parent_node \<Rightarrow>
            if map_of (dg_nodes graph) child_key = None then act_return res
            else
              let parent_dir = virtual_dir nm parent_key (install_name_of parent_node);
                  link = parent_dir @ [''node_modules''] @ name_parts install_name;
                  source = virtual_dir nm child_key install_name
              in act_get (\<lambda>t.
                 if \<not> path_exists t parent_dir then act_return res
                 else act_bind (nested_scope_dir (parent_dir @ [''node_modules'']) install_name) (\<lambda>_.
                 act_get (\<lambda>t.
                 if path_exists t source \<and> \<not> path_exists t link
                 then act_bind (act_step Link_io_failed (symlink (pathdiff_relative link source) link)) (\<lambda>_.
                      act_return (res\<lparr>lr_nested := lr_nested res + 1\<rparr>))
                 else act_return res))))"

definition link_beside ::
  "string list \<Rightarrow> string \<Rightarrow> string \<Rightarrow> string \<Rightarrow> link_result \<Rightarrow> (link_error, link_result) action" where
  "link_beside nm key install_name dep_key res =
     (let source = virtual_dir nm dep_key install_name;
          target = virtual_dir nm key install_name
      in act_get (\<lambda>t.
         if path_exists t source \<and> \<not> path_exists t target
         then act_bind (scope_dir (virtual_modules nm key) install_name) (\<lambda>_.
              act_bind (act_step Link_io_failed (symlink (pathdiff_relative target source) target)) (\<lambda>_.
              act_return (res\<lparr>lr_symlinks := lr_symlinks res + 1\<rparr>)))
         else act_return res))"

definition link_dependencies ::
  "dep_graph \<Rightarrow> string list \<Rightarrow> string \<times> dep_node \<Rightarrow> link_result \<Rightarrow> (link_error, link_result) action" where
  "link_dependencies graph nm kn =
     act_fold (\<lambda>(dep_name, dep_key). link_beside nm (fst kn) (dep_install_name (dg_nodes graph) dep_name dep_key) dep_key)
       (dn_dependencies (snd kn))"

definition link_peers ::
  "dep_graph \<Rightarrow> string list \<Rightarrow> string \<times> dep_node \<Rightarrow> link_result \<Rightarrow> (link_error, link_result) action" where
  "link_peers graph nm kn =
     act_fold (\<lambda>(_, peer_key) res.
       case map_of (dg_nodes graph) peer_key of
         None \<Rightarrow> act_return res
       | Some peer_node \<Rightarrow> link_beside nm (fst kn) (install_name_of peer_node) peer_key res)
       (dn_resolved_peers (snd kn))"

definition link_bin ::
  "string list \<Rightarrow> string \<Rightarrow> string \<times> string list \<Rightarrow> link_result \<Rightarrow> (link_error, link_result) action" where
  "link_bin nm install_name bin res =
     (case bin of (bin_name, bin_path) \<Rightarrow>
        let target = nm @ name_parts install_name @ bin_path;
            link = nm @ [''.bin'', bin_name]
        in act_get (\<lambda>t.
           if path_exists t target \<and> \<not> path_exists t link
           then act_bind (act_step Link_io_failed (symlink (intercalate ''/'' (''..'' # install_name # bin_path)) link)) (\<lambda>_.
                act_return (res\<lparr>lr_bins := lr_bins res + 1\<rparr>))
           else act_return res))"

definition link_bins ::
  "(string \<Rightarrow> json option) \<Rightarrow> dep_graph \<Rightarrow> string list \<Rightarrow> string \<times> string \<Rightarrow> link_result \<Rightarrow> (link_error, link_result) action" where
  "link_bins parse graph nm nk res =
     (case nk of (install_name, key) \<Rightarrow>
        if map_of (dg_nodes graph) key = None then act_return res
        else act_get (\<lambda>t.
             act_fold (link_bin nm install_name)
               (read_bin_entries (Option.bind (fs_read t (nm @ name_parts install_name @ [''package.json''])) parse) install_name) res))"

definition build_stage ::
  "(dep_node \<Rightarrow> ftree option) \<Rightarrow> (string \<Rightarrow> json option) \<Rightarrow> dep_graph \<Rightarrow> string list \<Rightarrow> (link_error, link_result) action" where
  "build_stage source parse graph nm =
     (let plan = build_plan graph
      in act_bind (act_step Link_io_failed (make_dirs (nm @ [''.oath'']))) (\<lambda>_.
         act_bind (act_fold (link_package source nm) (dg_nodes graph) default_link_result) (\<lambda>res.
         act_bind (act_fold (link_hoisted graph nm) (lp_hoisted plan) res) (\<lambda>res.
         act_bind (act_fold (link_nested graph nm) (lp_nested plan) res) (\<lambda>res.
         act_bind (act_fold (link_dependencies graph nm) (dg_nodes graph) res) (\<lambda>res.
         act_bind (act_fold (link_peers graph nm) (dg_nodes graph) res) (\<lambda>res.
         act_bind (act_step Link_io_failed (make_dirs (nm @ [''.bin'']))) (\<lambda>_.
         act_bind (act_fold (link_bins parse graph nm) (lp_hoisted plan) res) (\<lambda>res.
         act_bind (act_step Link_io_failed (fs_write (nm @ [''.oath'', ''.link-manifest'']) (link_manifest graph))) (\<lambda>_.
         act_return res))))))))))"

definition up_to_date :: "dep_graph \<Rightarrow> string list \<Rightarrow> ftree \<Rightarrow> bool" where
  "up_to_date graph project root \<longleftrightarrow>
     path_exists root (live_path project)
     \<and> fs_read root (live_path project @ [''.oath'', ''.link-manifest'']) = Some (link_manifest graph)"

definition link_all ::
  "fs_faults \<Rightarrow> (string \<Rightarrow> string) \<Rightarrow> ftree \<Rightarrow> (string \<Rightarrow> json option) \<Rightarrow> dep_graph \<Rightarrow> string list \<Rightarrow> (link_error, link_result) action" where
  "link_all env blake3 store parse graph project root =
     (case validate_graph_path_names graph of
        Inl e \<Rightarrow> (Inl e, root)
      | Inr _ \<Rightarrow>
     (case recover_link_transaction env project root of
        (Inl e, root) \<Rightarrow> (Inl e, root)
      | (Inr _, root) \<Rightarrow>
          if up_to_date graph project root
          then (Inr (default_link_result\<lparr>lr_linked := length (dg_nodes graph)\<rparr>), root)
          else
     (case build_stage (package_source blake3 store) parse graph (stage_path project) root of
        (Inl e, root) \<Rightarrow> (Inl e, root)
      | (Inr res, root) \<Rightarrow>
     (case commit_link_transaction env project root of
        (Inl e, root) \<Rightarrow> (Inl e, root)
      | (Inr _, root) \<Rightarrow> (Inr res, root)))))"

end
