(* ===== verification/Link_Build.thy ===== *)
theory Link_Build
  imports Link_All
begin

text \<open>
  Building the stage touches nothing but the stage: every link the linker writes has a text that stays inside, so no path it
  opens leads out. With the transaction this makes \<open>link_all\<close> all or nothing: after an error
  the project has the tree it had.
\<close>

section \<open>Names of a checked graph\<close>

lemma fold_result_unit: "fold_result (\<lambda>x _. f x) xs () = Inr u \<longleftrightarrow> (\<forall>x\<in>set xs. f x = Inr ())"
  by (induction xs) (auto simp: bind_result_Inr_iff)

lemma validated_graph:
  assumes "validate_graph_path_names graph = Inr u" "(key, node) \<in> set (dg_nodes graph)"
  shows "validate_install_name (install_name_of node) = Inr ()"
    and "(name, k) \<in> set (dn_dependencies node) \<Longrightarrow> validate_install_name name = Inr ()"
    and "(name, k) \<in> set (dn_resolved_peers node) \<Longrightarrow> validate_install_name name = Inr ()"
proof -
  have "validate_node_names node = Inr ()"
    using assms by (auto simp: validate_graph_path_names_def fold_result_unit)
  then have v: "validate_install_name (install_name_of node) = Inr ()"
    "\<forall>n\<in>set (map fst (dn_dependencies node)). validate_install_name n = Inr ()"
    "\<forall>n\<in>set (map fst (dn_resolved_peers node)). validate_install_name n = Inr ()"
    by (auto simp: validate_node_names_def bind_result_Inr_iff fold_result_unit)
  show "validate_install_name (install_name_of node) = Inr ()" by (rule v(1))
  show "(name, k) \<in> set (dn_dependencies node) \<Longrightarrow> validate_install_name name = Inr ()" using v(2) by force
  show "(name, k) \<in> set (dn_resolved_peers node) \<Longrightarrow> validate_install_name name = Inr ()" using v(3) by force
qed

definition valid_name :: "string \<Rightarrow> bool" where
  "valid_name n \<longleftrightarrow> validate_install_name n = Inr ()"

lemma valid_name_parts: "valid_name n \<Longrightarrow> p \<in> set (name_parts n) \<Longrightarrow> safe_name p"
  using validate_name_parts(1) by (simp add: valid_name_def)

lemma valid_dep_install_name:
  assumes "validate_graph_path_names graph = Inr u" "(key, node) \<in> set (dg_nodes graph)" "(name, k) \<in> set (dn_dependencies node)"
  shows "valid_name (dep_install_name (dg_nodes graph) name k)"
proof (cases "map_of (dg_nodes graph) k")
  case (Some n)
  then show ?thesis using validated_graph(1)[OF assms(1) map_of_SomeD[OF Some]] by (simp add: dep_install_name_def valid_name_def)
qed (use validated_graph(2)[OF assms] in \<open>simp add: dep_install_name_def valid_name_def\<close>)

section \<open>Link texts\<close>

lemma inside_textI:
  assumes "text = path_text (replicate j ParentDir @ map Normal ns)" "j \<le> d" "ns = [] \<Longrightarrow> 0 < j \<and> j < d" "\<forall>n\<in>set ns. safe_name n"
  shows "inside_text d text"
proof -
  have "path_components text = replicate j ParentDir @ map Normal ns"
    unfolding assms(1) by (rule component_text_split) (use assms(3,4) in auto)
  then show ?thesis using assms(2,3) unfolding inside_text_def by blast
qed

lemma common_len_append: "common_len (p @ a) (p @ b) = length p + common_len a b"
  by (induction p) (simp_all add: common_len_def)

lemma pathdiff_below:
  assumes "a \<noteq> []" shows "pathdiff_relative (nm @ a) (nm @ b) = pathdiff_relative a b"
proof -
  let ?n = "common_len (butlast a) b"
  have n: "common_len (butlast (nm @ a)) (nm @ b) = length nm + ?n"
    using assms by (simp only: butlast_append if_False common_len_append)
  have r: "replicate (length (butlast (nm @ a)) - (length nm + ?n)) ParentDir @ map Normal (drop (length nm + ?n) (nm @ b))
      = replicate (length (butlast a) - ?n) ParentDir @ map Normal (drop ?n b)"
    using assms by (simp add: butlast_append)
  have ne: "nm @ a \<noteq> []" using assms by simp
  show ?thesis unfolding pathdiff_relative_def Let_def if_not_P[OF ne] if_not_P[OF assms] n r ..
qed

lemma pathdiff_inside:
  assumes a: "a \<noteq> []" and b: "b \<noteq> []" "b \<noteq> butlast a" "\<forall>n\<in>set b. safe_name n"
  shows "inside_text (length a - 1) (pathdiff_relative (nm @ a) (nm @ b))"
proof -
  let ?d = "butlast a" and ?n = "common_len (butlast a) b"
  let ?rel = "replicate (length ?d - ?n) ParentDir @ map Normal (drop ?n b)"
  have eq: "take ?n ?d = take ?n b" "?n \<le> length ?d" by (rule take_common_len) (rule common_len_bound)
  have ne: "?rel \<noteq> []"
  proof
    assume "?rel = []"
    then have "length ?d \<le> ?n" "length b \<le> ?n" by auto
    then show False using eq b(2) by (simp del: length_butlast)
  qed
  have eqn: "pathdiff_relative (nm @ a) (nm @ b) = path_text ?rel"
    using ne a unfolding pathdiff_below[OF a] by (simp only: pathdiff_relative_def Let_def if_False)
  have "0 < length ?d - ?n \<and> length ?d - ?n < length a - 1" if "drop ?n b = []"
  proof -
    have "0 < ?n" using that b(1) by (cases "?n") auto
    moreover have "0 < length ?d - ?n" using ne that by auto
    ultimately show ?thesis by simp
  qed
  then show ?thesis using b(3) by (intro inside_textI[OF eqn]) (auto dest: in_set_dropD)
qed

lemma intercalate_append:
  "xs \<noteq> [] \<Longrightarrow> ys \<noteq> [] \<Longrightarrow> intercalate sep (xs @ ys) = intercalate sep xs @ sep @ intercalate sep ys"
proof (induction sep xs rule: intercalate.induct)
  case (2 sep x)
  then show ?case by (cases ys) simp_all
qed simp_all

lemma intercalate_flat: "xs \<noteq> [] \<Longrightarrow> intercalate ''/'' (xs @ [name] @ ys) = intercalate ''/'' (xs @ name_parts name @ ys)"
  using intercalate_append[of "[name]" ys "''/''"] by (cases "ys = []") (simp_all add: intercalate_append intercalate_split_char)

lemma hoisted_text_path:
  "hoisted_text name key = path_text (replicate (if CHR ''/'' \<in> set name then 1 else 0) ParentDir
     @ map Normal ([''.oath'', virtual_key_component key, ''node_modules''] @ name_parts name))"
  using intercalate_flat[of "[''..'', ''.oath'', virtual_key_component key, ''node_modules'']" name "[]"]
    intercalate_flat[of "[''.oath'', virtual_key_component key, ''node_modules'']" name "[]"]
  by (simp add: hoisted_text_def path_text_def comp_def)

lemma safe_literals: "safe_name ''.oath''" "safe_name ''node_modules''" "safe_name ''.bin''"
  by (simp_all add: safe_name_def)

lemma safe_vkey: "safe_name (virtual_key_component key)"
  using vkey.enc_nonempty vkey.enc_no_slash vkey.enc_not_dot vkey.enc_not_dotdot by (simp add: safe_name_def)

lemma valid_name_shape:
  assumes "valid_name name"
  shows "(CHR ''/'' \<notin> set name \<and> name_parts name = [name] \<and> \<not> starts_with name ''@'')
     \<or> (\<exists>s n. CHR ''/'' \<in> set name \<and> name_parts name = [s, n] \<and> starts_with s ''@'' \<and> safe_name s \<and> safe_name n)"
proof -
  consider "name_parts name = [name]" "\<not> starts_with name ''@''" | s n where "name_parts name = [s, n]" "starts_with s ''@''"
    using validate_name_parts(2) assms unfolding valid_name_def by blast
  then show ?thesis
  proof cases
    case 1
    then show ?thesis using split_char_pieces[of name "CHR ''/''" name] by simp
  next
    case 2
    then have "CHR ''/'' \<in> set name" using split_char_notin[of "CHR ''/''" name] by (cases "CHR ''/'' \<in> set name") auto
    then show ?thesis using 2 valid_name_parts[OF assms] by auto
  qed
qed

lemma hoisted_text_inside: "valid_name name \<Longrightarrow> inside_text (length (name_parts name) - 1) (hoisted_text name key)"
  by (rule inside_textI[OF hoisted_text_path])
    (use valid_name_shape[of name] valid_name_parts safe_literals safe_vkey in auto)

section \<open>Where links may be\<close>

lemma name_parts_prefix_free:
  assumes "valid_name a" "valid_name b" "name_parts a @ x = name_parts b @ y"
  shows "name_parts a = name_parts b \<and> x = y"
  using valid_name_shape[OF assms(1)] valid_name_shape[OF assms(2)] assms(3) by auto

lemma name_parts_inject: "name_parts a = name_parts b \<Longrightarrow> a = b"
  using intercalate_split_char[of "CHR ''/''"] by metis

lemma name_parts_ne [simp]: "name_parts n \<noteq> []" by simp

abbreviation vmods :: "string \<Rightarrow> string list" where
  "vmods key \<equiv> [''.oath'', virtual_key_component key, ''node_modules'']"

definition top_place :: "string list \<Rightarrow> bool" where
  "top_place p \<longleftrightarrow> (\<exists>n. valid_name n \<and> p = name_parts n)"

definition nested_place :: "string list \<Rightarrow> bool" where
  "nested_place p \<longleftrightarrow> (\<exists>k i n. valid_name i \<and> valid_name n \<and> p = vmods k @ name_parts i @ [''node_modules''] @ name_parts n)"

definition beside_place :: "string list \<Rightarrow> bool" where
  "beside_place p \<longleftrightarrow> (\<exists>k n. valid_name n \<and> p = vmods k @ name_parts n)"

lemma name_parts_length: "valid_name n \<Longrightarrow> length (name_parts n) = 1 \<or> length (name_parts n) = 2"
  using valid_name_shape by fastforce

lemma top_place_length: "top_place p \<Longrightarrow> length p \<le> 2 \<and> (length p = 2 \<longrightarrow> starts_with (hd p) ''@'') \<and> (length p = 1 \<longrightarrow> \<not> starts_with (hd p) ''@'')"
  unfolding top_place_def using valid_name_shape by fastforce

lemma nested_place_length: "nested_place p \<Longrightarrow> 6 \<le> length p"
proof -
  assume "nested_place p"
  then obtain k i n where "p = vmods k @ name_parts i @ [''node_modules''] @ name_parts n" by (auto simp: nested_place_def)
  moreover have "1 \<le> length (name_parts i)" "1 \<le> length (name_parts n)" by (simp_all add: Suc_le_eq)
  ultimately show ?thesis by simp
qed

lemma beside_place_length: "beside_place p \<Longrightarrow> 4 \<le> length p \<and> (length p = 4 \<longrightarrow> \<not> starts_with (last p) ''@'')"
  unfolding beside_place_def using valid_name_shape by fastforce

text \<open>The directories that links are put in carry no link themselves.\<close>

lemma virtual_modules_no_place:
  assumes "prefix q (vmods k @ s)" "s = [] \<or> (\<exists>x. s = [x] \<and> starts_with x ''@'')" "top_place q \<or> nested_place q \<or> beside_place q"
  shows "q = [''.oath'']"
proof -
  have len: "length q \<le> 4" using assms(1,2) prefix_length_le[OF assms(1)] by auto
  have "\<not> nested_place q" using nested_place_length len by fastforce
  moreover have "\<not> beside_place q"
  proof
    assume b: "beside_place q"
    then have "length q = 4" using beside_place_length len by fastforce
    obtain zs where zs: "vmods k @ s = q @ zs" using assms(1) by (auto simp: prefix_def)
    have "length s + 3 = length zs + 4" using arg_cong[OF zs, of length] \<open>length q = 4\<close> by simp
    moreover have "length s \<le> 1" using assms(2) by auto
    ultimately have "zs = []" "s \<noteq> []" by auto
    then have "q = vmods k @ s" "s \<noteq> []" using zs by simp_all
    then show False using b beside_place_length[OF b] assms(2) by auto
  qed
  ultimately have tp: "top_place q" using assms(3) by blast
  have "q \<noteq> []" using tp by (auto simp: top_place_def)
  then obtain r where q: "q = ''.oath'' # r" using assms(1) by (cases q) auto
  then show ?thesis using top_place_length[OF tp] by (cases r) auto
qed

lemma top_no_place:
  assumes "prefix q s" "s = [] \<or> (\<exists>x. s = [x] \<and> starts_with x ''@'')" "top_place q \<or> nested_place q"
  shows False
proof -
  have len: "length q \<le> 1" using assms(1,2) prefix_length_le[OF assms(1)] by auto
  then have tp: "top_place q" using assms(3) nested_place_length by fastforce
  then have "q \<noteq> []" by (auto simp: top_place_def)
  then show False using assms(1,2) top_place_length[OF tp] by (cases q) auto
qed

lemma nested_no_place:
  assumes q: "prefix q (vmods k @ name_parts i @ [''node_modules''] @ s)" and s: "s = [] \<or> (\<exists>x. s = [x] \<and> starts_with x ''@'')"
    and i: "valid_name i" and pl: "top_place q \<or> nested_place q"
  shows "q = [''.oath'']"
proof -
  have "\<not> nested_place q"
  proof
    assume "nested_place q"
    then obtain k' i' n where n: "valid_name i'" "valid_name n" "q = vmods k' @ name_parts i' @ [''node_modules''] @ name_parts n"
      by (auto simp: nested_place_def)
    obtain r where "vmods k @ name_parts i @ [''node_modules''] @ s = q @ r" using q by (auto simp: prefix_def)
    then have "name_parts i @ [''node_modules''] @ s = name_parts i' @ [''node_modules''] @ name_parts n @ r" using n(3) by simp
    from name_parts_prefix_free[OF i n(1) this] have "s = name_parts n @ r" by simp
    then show False using s valid_name_shape[OF n(2)] by auto
  qed
  then have tp: "top_place q" using pl by blast
  have "q \<noteq> []" using tp by (auto simp: top_place_def)
  then obtain r where q: "q = ''.oath'' # r" using assms(1) by (cases q) auto
  then show ?thesis using top_place_length[OF tp] by (cases r) auto
qed

section \<open>Every phase adds entries in their places\<close>

text \<open>What a phase may add: directories at places \<open>D\<close> and links with their texts \<open>T\<close>, nothing where something is.\<close>

definition adds :: "(string list \<Rightarrow> string \<Rightarrow> bool) \<Rightarrow> (string list \<Rightarrow> bool) \<Rightarrow> string list \<Rightarrow> ftree \<Rightarrow> ftree option \<Rightarrow> bool" where
  "adds T D q v x \<longleftrightarrow> x = None \<and> (v = Dir [] \<and> D q \<or> (\<exists>w. v = Special (Some w) \<and> T q w))"

definition build_inv :: "string list \<Rightarrow> (string list \<Rightarrow> bool) \<Rightarrow> ftree \<Rightarrow> ftree \<Rightarrow> bool" where
  "build_inv nm L t0 t \<longleftrightarrow> stage_inv nm L t0 t \<and> is_dir_at t (nm @ [''.oath''])"

lemma build_inv_mono: "build_inv nm L t0 t \<Longrightarrow> (\<And>p. L p \<Longrightarrow> L' p) \<Longrightarrow> build_inv nm L' t0 t"
  by (auto simp: build_inv_def intro: stage_inv_mono)

lemma closed_conj: "closed I R \<Longrightarrow> closed J R \<Longrightarrow> closed (\<lambda>t. I t \<and> J t) R"
  unfolding closed_def by blast

lemma closed_build_inv:
  assumes "\<And>q w x. A q (Special (Some w)) x \<Longrightarrow> inside_text (length q - 1) w \<and> L q"
  shows "closed (build_inv nm L t0) (puts nm A)"
  unfolding build_inv_def[abs_def] by (rule closed_conj[OF closed_stage_inv[OF assms] closed_is_dir])

lemma direct_in_stage:
  assumes "build_inv nm L t0 t" "\<And>q. prefix q p \<Longrightarrow> L q \<Longrightarrow> q = [''.oath'']" shows "direct t nm p"
  unfolding direct_def
proof (intro allI impI notI)
  fix q w assume q: "prefix q p" "tree_lookup (nm @ q) t = Some (Special (Some w))"
  then have "L q" using assms(1) by (auto simp: build_inv_def stage_inv_def links_inside_def)
  from assms(2)[OF q(1) this] show False using assms(1) q(2) by (auto simp: build_inv_def is_dir_at_iff)
qed

text \<open>Making a directory, and a link, on a direct path.\<close>

lemma make_dirs_runs:
  assumes "\<And>q. q \<noteq> [] \<Longrightarrow> prefix q p \<Longrightarrow> D q" "\<And>q. prefix q p \<Longrightarrow> L q \<Longrightarrow> q = [''.oath'']"
  shows "runs (build_inv nm L t0) (puts nm (adds T D)) (act_step e (make_dirs (nm @ p)))"
proof (rule runs_step)
  fix t t' assume t: "build_inv nm L t0 t" "make_dirs (nm @ p) t = Some t'"
  have "direct t nm p" using direct_in_stage[OF t(1)] assms(2) by blast
  then show "(puts nm (adds T D))\<^sup>*\<^sup>* t t'"
    using t assms(1) by (intro make_dirs_puts[of nm L t0 t p "adds T D" t']) (auto simp: build_inv_def adds_def)
qed

lemma symlink_runs:
  assumes "T p w" "p \<noteq> []" "\<And>q. prefix q (butlast p) \<Longrightarrow> L q \<Longrightarrow> q = [''.oath'']"
  shows "runs (build_inv nm L t0) (puts nm (adds T D)) (act_step e (symlink w (nm @ p)))"
proof (rule runs_step)
  fix t t' assume t: "build_inv nm L t0 t" "symlink w (nm @ p) t = Some t'"
  have "direct t nm (butlast p)" using direct_in_stage[OF t(1)] assms(3) by blast
  then show "(puts nm (adds T D))\<^sup>*\<^sup>* t t'"
    using t assms(1,2) by (intro symlink_puts[of nm L t0 t w p t' "adds T D"]) (auto simp: build_inv_def adds_def)
qed

definition scope_of :: "string \<Rightarrow> string list" where
  "scope_of name = (if CHR ''/'' \<in> set name then [hd (name_parts name)] else [])"

lemma scope_of_cases: "valid_name n \<Longrightarrow> scope_of n = [] \<or> (\<exists>x. scope_of n = [x] \<and> starts_with x ''@'')"
  using valid_name_shape[of n] by (auto simp: scope_of_def)

lemma butlast_name_parts: "valid_name n \<Longrightarrow> butlast (name_parts n) = scope_of n"
  using valid_name_shape[of n] by (auto simp: scope_of_def)

lemma scope_dir_runs:
  assumes "valid_name name" "\<And>q. q \<noteq> [] \<Longrightarrow> prefix q (p @ scope_of name) \<Longrightarrow> D q" "\<And>q. prefix q (p @ scope_of name) \<Longrightarrow> L q \<Longrightarrow> q = [''.oath'']"
  shows "runs (build_inv nm L t0) (puts nm (adds T D)) (scope_dir (nm @ p) name)"
  using make_dirs_runs[of "p @ scope_of name" D L nm t0 T Link_io_failed] assms by (cases "CHR ''/'' \<in> set name") (simp_all add: scope_dir_def scope_of_def runs_return)

lemma nested_scope_dir_runs:
  assumes "valid_name name" "\<And>q. q \<noteq> [] \<Longrightarrow> prefix q (p @ scope_of name) \<Longrightarrow> D q" "\<And>q. prefix q (p @ scope_of name) \<Longrightarrow> L q \<Longrightarrow> q = [''.oath'']"
  shows "runs (build_inv nm L t0) (puts nm (adds T D)) (nested_scope_dir (nm @ p) name)"
  using make_dirs_runs[of "p @ scope_of name" D L nm t0 T Link_io_failed] assms by (cases "CHR ''/'' \<in> set name") (simp_all add: nested_scope_dir_def scope_of_def)

section \<open>The names of the plan\<close>

lemma hoisted_in_plan:
  assumes "(n, k) \<in> set (lp_hoisted (build_plan graph))"
  shows "map_of (lp_hoisted (build_plan graph)) n = Some k" "\<exists>node. (k, node) \<in> set (dg_nodes graph) \<and> install_name_of node = n"
proof -
  have p: "lp_hoisted (build_plan graph) = hoisted_keys graph" by (simp add: build_plan_def Let_def)
  have "distinct (map fst (hoisted_keys graph))" unfolding hoisted_keys_def using btree_wf unfolding hm_wf_def by fast
  then show m: "map_of (lp_hoisted (build_plan graph)) n = Some k" using assms unfolding p by simp
  have "k \<in> set (candidates graph n)" using m hoisted_iff unfolding p by blast
  then show "\<exists>node. (k, node) \<in> set (dg_nodes graph) \<and> install_name_of node = n" by (auto simp: candidates_def)
qed

lemma nested_in_plan:
  assumes "(pk, n, ck) \<in> set (lp_nested (build_plan graph))"
  shows "\<exists>node d. (pk, node) \<in> set (dg_nodes graph) \<and> (d, ck) \<in> set (dn_dependencies node) \<and> n = dep_install_name (dg_nodes graph) d ck"
proof -
  obtain e where "e \<in> set (edge_list (dg_nodes graph))" "edge_nested (hoisted_keys graph) (dg_nodes graph) e = Some (pk, n, ck)"
    using assms by (auto simp: build_plan_def nested_edges Let_def in_map_filter)
  then show ?thesis by (auto simp: edge_nested_Some edge_list_def)
qed

definition names_ok :: "dep_graph \<Rightarrow> bool" where
  "names_ok graph \<longleftrightarrow> validate_graph_path_names graph = Inr ()"

lemma node_name_valid: "names_ok graph \<Longrightarrow> (k, node) \<in> set (dg_nodes graph) \<Longrightarrow> valid_name (install_name_of node)"
  using validated_graph(1) by (simp add: names_ok_def valid_name_def)

lemma dep_name_valid:
  "names_ok graph \<Longrightarrow> (k, node) \<in> set (dg_nodes graph) \<Longrightarrow> (d, dk) \<in> set (dn_dependencies node) \<Longrightarrow> valid_name (dep_install_name (dg_nodes graph) d dk)"
  using valid_dep_install_name by (simp add: names_ok_def)

lemma plan_names_valid:
  assumes "names_ok graph"
  shows "(n, k) \<in> set (lp_hoisted (build_plan graph)) \<Longrightarrow> valid_name n"
    and "(pk, n, ck) \<in> set (lp_nested (build_plan graph)) \<Longrightarrow> valid_name n"
  using hoisted_in_plan(2) node_name_valid[OF assms] nested_in_plan dep_name_valid[OF assms] by blast+

section \<open>The phases that link\<close>

definition hoisted_texts :: "dep_graph \<Rightarrow> string list \<Rightarrow> string \<Rightarrow> bool" where
  "hoisted_texts graph q w \<longleftrightarrow> (\<exists>n k. (n, k) \<in> set (lp_hoisted (build_plan graph)) \<and> q = name_parts n \<and> w = hoisted_text n k)"

definition nested_texts :: "dep_graph \<Rightarrow> string list \<Rightarrow> string \<Rightarrow> bool" where
  "nested_texts graph q w \<longleftrightarrow>
     (\<exists>pk n ck node. (pk, n, ck) \<in> set (lp_nested (build_plan graph)) \<and> map_of (dg_nodes graph) pk = Some node
        \<and> q = vmods pk @ name_parts (install_name_of node) @ [''node_modules''] @ name_parts n
        \<and> w = pathdiff_relative q (vmods ck @ name_parts n))"

definition beside_texts :: "(string \<Rightarrow> string \<Rightarrow> string \<Rightarrow> bool) \<Rightarrow> string list \<Rightarrow> string \<Rightarrow> bool" where
  "beside_texts E q w \<longleftrightarrow> (\<exists>key n dk. E key n dk \<and> q = vmods key @ name_parts n \<and> w = pathdiff_relative q (vmods dk @ name_parts n))"

definition dep_edges :: "dep_graph \<Rightarrow> string \<Rightarrow> string \<Rightarrow> string \<Rightarrow> bool" where
  "dep_edges graph key n dk \<longleftrightarrow>
     (\<exists>node d. (key, node) \<in> set (dg_nodes graph) \<and> (d, dk) \<in> set (dn_dependencies node) \<and> n = dep_install_name (dg_nodes graph) d dk)"

definition peer_edges :: "dep_graph \<Rightarrow> string \<Rightarrow> string \<Rightarrow> string \<Rightarrow> bool" where
  "peer_edges graph key n dk \<longleftrightarrow>
     (\<exists>node d peer. (key, node) \<in> set (dg_nodes graph) \<and> (d, dk) \<in> set (dn_resolved_peers node)
        \<and> map_of (dg_nodes graph) dk = Some peer \<and> n = install_name_of peer)"

lemma edge_names_valid:
  "names_ok graph \<Longrightarrow> dep_edges graph key n dk \<Longrightarrow> valid_name n"
  "names_ok graph \<Longrightarrow> peer_edges graph key n dk \<Longrightarrow> valid_name n"
  using dep_name_valid node_name_valid map_of_SomeD unfolding dep_edges_def peer_edges_def by (blast, metis)

definition scope_places :: "string list \<Rightarrow> bool" where
  "scope_places q \<longleftrightarrow> (\<exists>x. q = [x] \<and> starts_with x ''@'')"

definition nested_dirs :: "dep_graph \<Rightarrow> string list \<Rightarrow> bool" where
  "nested_dirs graph q \<longleftrightarrow> (\<exists>k node n. map_of (dg_nodes graph) k = Some node \<and> valid_name n
     \<and> prefix q (vmods k @ name_parts (install_name_of node) @ [''node_modules''] @ scope_of n))"

definition beside_dirs :: "string list \<Rightarrow> bool" where
  "beside_dirs q \<longleftrightarrow> (\<exists>k n. valid_name n \<and> prefix q (vmods k @ scope_of n))"

definition early_place :: "string list \<Rightarrow> bool" where
  "early_place q \<longleftrightarrow> top_place q \<or> nested_place q"

definition any_place :: "string list \<Rightarrow> bool" where
  "any_place q \<longleftrightarrow> early_place q \<or> beside_place q"

lemma safe_virtual: "valid_name n \<Longrightarrow> m \<in> set (vmods k @ name_parts n) \<Longrightarrow> safe_name m"
  using safe_literals safe_vkey valid_name_parts by auto

lemma hoisted_texts_ok: "names_ok graph \<Longrightarrow> hoisted_texts graph q w \<Longrightarrow> inside_text (length q - 1) w \<and> top_place q"
  using plan_names_valid(1) hoisted_text_inside unfolding hoisted_texts_def top_place_def by blast

lemma nested_texts_ok:
  assumes "names_ok graph" "nested_texts graph q w" shows "inside_text (length q - 1) w \<and> nested_place q"
proof -
  obtain pk n ck node where e: "(pk, n, ck) \<in> set (lp_nested (build_plan graph))" "map_of (dg_nodes graph) pk = Some node"
    "q = vmods pk @ name_parts (install_name_of node) @ [''node_modules''] @ name_parts n" "w = pathdiff_relative q (vmods ck @ name_parts n)"
    using assms(2) by (auto simp: nested_texts_def)
  have v: "valid_name n" "valid_name (install_name_of node)"
    using plan_names_valid(2)[OF assms(1) e(1)] node_name_valid[OF assms(1) map_of_SomeD[OF e(2)]] by blast+
  have "length (vmods ck @ name_parts n) \<noteq> length (butlast q)" unfolding e(3) by (simp add: Suc_diff_Suc)
  then have "vmods ck @ name_parts n \<noteq> butlast q" by metis
  then have "inside_text (length q - 1) w"
    using pathdiff_inside[of q "vmods ck @ name_parts n" "[]"] safe_virtual[OF v(1)] unfolding e(4) by (simp add: e(3))
  then show ?thesis using v e(3) unfolding nested_place_def by blast
qed

lemma beside_texts_ok:
  assumes "\<And>key n dk. E key n dk \<Longrightarrow> valid_name n" "beside_texts E q w" shows "inside_text (length q - 1) w \<and> beside_place q"
proof -
  obtain key n dk where e: "E key n dk" "q = vmods key @ name_parts n" "w = pathdiff_relative q (vmods dk @ name_parts n)"
    using assms(2) by (auto simp: beside_texts_def)
  have v: "valid_name n" using assms(1) e(1) by blast
  have "length (vmods dk @ name_parts n) \<noteq> length (butlast q)" unfolding e(2) by (simp add: Suc_diff_Suc)
  then have "vmods dk @ name_parts n \<noteq> butlast q" by metis
  then have "inside_text (length q - 1) w"
    using pathdiff_inside[of q "vmods dk @ name_parts n" "[]"] safe_virtual[OF v] unfolding e(3) by (simp add: e(2))
  then show ?thesis using v e(2) unfolding beside_place_def by blast
qed

lemma closed_adds:
  assumes "\<And>q w. T q w \<Longrightarrow> inside_text (length q - 1) w \<and> L q" shows "closed (build_inv nm L t0) (puts nm (adds T D))"
  by (rule closed_build_inv) (use assms in \<open>auto simp: adds_def\<close>)

lemma prefix_of_scope: "prefix q (scope_of n) \<Longrightarrow> valid_name n \<Longrightarrow> q \<noteq> [] \<Longrightarrow> scope_places q"
  using scope_of_cases[of n] by (auto simp: scope_places_def prefix_Cons)

lemma link_hoisted_runs:
  assumes ok: "names_ok graph" and e: "nk \<in> set (lp_hoisted (build_plan graph))"
  shows "runs (build_inv nm early_place t0) (puts nm (adds (hoisted_texts graph) scope_places)) (link_hoisted graph nm nk res)"
proof -
  obtain n k where nk: "nk = (n, k)" by (cases nk)
  have v: "valid_name n" using plan_names_valid(1)[OF ok] e nk by blast
  have c: "closed (build_inv nm early_place t0) (puts nm (adds (hoisted_texts graph) scope_places))"
    by (rule closed_adds) (use hoisted_texts_ok[OF ok] in \<open>auto simp: early_place_def\<close>)
  have no: "prefix q (scope_of n) \<Longrightarrow> early_place q \<Longrightarrow> q = [''.oath'']" for q
    using top_no_place[of q "scope_of n"] scope_of_cases[OF v] by (auto simp: early_place_def)
  have "runs (build_inv nm early_place t0) (puts nm (adds (hoisted_texts graph) scope_places)) (scope_dir (nm @ []) n)"
    by (rule scope_dir_runs[OF v]) (use prefix_of_scope[OF _ v] no in auto)
  moreover have "hoisted_texts graph (name_parts n) (hoisted_text n k)" using e nk by (auto simp: hoisted_texts_def)
  ultimately show ?thesis unfolding nk link_hoisted_def prod.case
    using no butlast_name_parts[OF v]
    by (auto intro!: runs_return runs_bind[OF c] symlink_runs)
qed

lemma link_nested_runs:
  assumes ok: "names_ok graph" and e: "pnc \<in> set (lp_nested (build_plan graph))"
  shows "runs (build_inv nm early_place t0) (puts nm (adds (nested_texts graph) (nested_dirs graph))) (link_nested graph nm pnc res)"
proof -
  obtain pk n ck where pnc: "pnc = (pk, n, ck)" by (cases pnc)
  have v: "valid_name n" using plan_names_valid(2)[OF ok] e pnc by blast
  have c: "closed (build_inv nm early_place t0) (puts nm (adds (nested_texts graph) (nested_dirs graph)))"
    by (rule closed_adds) (use nested_texts_ok[OF ok] in \<open>auto simp: early_place_def\<close>)
  show ?thesis
  proof (cases "map_of (dg_nodes graph) pk")
    case None
    then show ?thesis by (simp add: pnc link_nested_def runs_return)
  next
    case (Some node)
    let ?d = "vmods pk @ name_parts (install_name_of node) @ [''node_modules'']"
    have i: "valid_name (install_name_of node)" by (rule node_name_valid[OF ok map_of_SomeD[OF Some]])
    have no: "prefix q (?d @ scope_of n) \<Longrightarrow> early_place q \<Longrightarrow> q = [''.oath'']" for q
      using nested_no_place[of q pk "install_name_of node" "scope_of n"] scope_of_cases[OF v] i by (auto simp: early_place_def)
    have dir: "runs (build_inv nm early_place t0) (puts nm (adds (nested_texts graph) (nested_dirs graph))) (nested_scope_dir (nm @ ?d) n)"
      by (rule nested_scope_dir_runs[OF v _ no]) (use Some v in \<open>auto simp: nested_dirs_def\<close>)
    have tx: "nested_texts graph (?d @ name_parts n) (pathdiff_relative (?d @ name_parts n) (vmods ck @ name_parts n))"
      using e Some pnc unfolding nested_texts_def by auto
    have sl: "runs (build_inv nm early_place t0) (puts nm (adds (nested_texts graph) (nested_dirs graph)))
        (act_step Link_io_failed (symlink (pathdiff_relative (?d @ name_parts n) (vmods ck @ name_parts n)) (nm @ ?d @ name_parts n)))"
      using symlink_runs[where T = "nested_texts graph" and L = early_place and e = Link_io_failed, OF tx[unfolded append_assoc]] no butlast_name_parts[OF v]
      by (simp add: butlast_append)
    have pd: "pathdiff_relative (nm @ ?d @ name_parts n) (nm @ vmods ck @ name_parts n) = pathdiff_relative (?d @ name_parts n) (vmods ck @ name_parts n)"
      by (rule pathdiff_below) simp
    show ?thesis
      using dir sl unfolding pnc link_nested_def prod.case Some option.case Let_def virtual_dir_def virtual_modules_def
      by (auto simp: pd[simplified] intro!: runs_return runs_get runs_bind[OF c])
  qed
qed

lemma link_beside_runs:
  assumes E: "\<And>key n dk. E key n dk \<Longrightarrow> valid_name n" and e: "E key n dk"
  shows "runs (build_inv nm any_place t0) (puts nm (adds (beside_texts E) beside_dirs)) (link_beside nm key n dk res)"
proof -
  have v: "valid_name n" by (rule E[OF e])
  have c: "closed (build_inv nm any_place t0) (puts nm (adds (beside_texts E) beside_dirs))"
    by (rule closed_adds) (use beside_texts_ok[of E, OF E] in \<open>auto simp: any_place_def\<close>)
  have no: "prefix q (vmods key @ scope_of n) \<Longrightarrow> any_place q \<Longrightarrow> q = [''.oath'']" for q
    using virtual_modules_no_place[of q key "scope_of n"] scope_of_cases[OF v] by (auto simp: any_place_def early_place_def)
  have dir: "runs (build_inv nm any_place t0) (puts nm (adds (beside_texts E) beside_dirs)) (scope_dir (nm @ vmods key) n)"
    by (rule scope_dir_runs[OF v _ no]) (use v in \<open>auto simp: beside_dirs_def\<close>)
  have tx: "beside_texts E (vmods key @ name_parts n) (pathdiff_relative (vmods key @ name_parts n) (vmods dk @ name_parts n))"
    using e unfolding beside_texts_def by blast
  have sl: "runs (build_inv nm any_place t0) (puts nm (adds (beside_texts E) beside_dirs))
      (act_step Link_io_failed (symlink (pathdiff_relative (vmods key @ name_parts n) (vmods dk @ name_parts n)) (nm @ vmods key @ name_parts n)))"
    using symlink_runs[where T = "beside_texts E" and L = any_place and e = Link_io_failed, OF tx] no butlast_name_parts[OF v] by (simp add: butlast_append)
  have pd: "pathdiff_relative (nm @ vmods key @ name_parts n) (nm @ vmods dk @ name_parts n) = pathdiff_relative (vmods key @ name_parts n) (vmods dk @ name_parts n)"
    by (rule pathdiff_below) simp
  show ?thesis
    using dir sl unfolding link_beside_def Let_def virtual_dir_def virtual_modules_def
    by (auto simp: pd[simplified] intro!: runs_return runs_get runs_bind[OF c])
qed

lemma link_dependencies_runs:
  assumes ok: "names_ok graph" and e: "kn \<in> set (dg_nodes graph)"
  shows "runs (build_inv nm any_place t0) (puts nm (adds (beside_texts (dep_edges graph)) beside_dirs)) (link_dependencies graph nm kn res)"
proof -
  have c: "closed (build_inv nm any_place t0) (puts nm (adds (beside_texts (dep_edges graph)) beside_dirs))"
    by (rule closed_adds) (use beside_texts_ok[of "dep_edges graph", OF edge_names_valid(1)[OF ok]] in \<open>auto simp: any_place_def\<close>)
  have "dep_edges graph (fst kn) (dep_install_name (dg_nodes graph) d dk) dk" if "(d, dk) \<in> set (dn_dependencies (snd kn))" for d dk
    using e that unfolding dep_edges_def by (metis prod.collapse)
  then show ?thesis unfolding link_dependencies_def
    by (intro runs_fold[OF c]) (auto intro!: link_beside_runs edge_names_valid(1)[OF ok])
qed

lemma link_peers_runs:
  assumes ok: "names_ok graph" and e: "kn \<in> set (dg_nodes graph)"
  shows "runs (build_inv nm any_place t0) (puts nm (adds (beside_texts (peer_edges graph)) beside_dirs)) (link_peers graph nm kn res)"
proof -
  have c: "closed (build_inv nm any_place t0) (puts nm (adds (beside_texts (peer_edges graph)) beside_dirs))"
    by (rule closed_adds) (use beside_texts_ok[of "peer_edges graph", OF edge_names_valid(2)[OF ok]] in \<open>auto simp: any_place_def\<close>)
  have "peer_edges graph (fst kn) (install_name_of p) dk" if "(d, dk) \<in> set (dn_resolved_peers (snd kn))" "map_of (dg_nodes graph) dk = Some p" for d dk p
    using e that unfolding peer_edges_def by (metis prod.collapse)
  then show ?thesis unfolding link_peers_def
    by (intro runs_fold[OF c]) (auto split: option.split intro!: runs_return link_beside_runs edge_names_valid(2)[OF ok])
qed

section \<open>Copying packages and linking programs\<close>

definition no_link :: "string list \<Rightarrow> ftree \<Rightarrow> ftree option \<Rightarrow> bool" where
  "no_link q v x \<longleftrightarrow> (\<forall>w. v \<noteq> Special (Some w))"

lemma hardlink_runs:
  assumes c: "closed I (puts nm no_link)" and I: "\<And>t. I t \<Longrightarrow> stage_inv nm L t0 t"
  shows "dst = nm @ p \<Longrightarrow> runs I (puts nm no_link) (hardlink_dir dst v)"
    and "dst = nm @ p \<Longrightarrow> runs I (puts nm no_link) (hardlink_entries dst es)"
proof (induction dst v and dst es arbitrary: p and p rule: hardlink_dir_hardlink_entries.induct)
  have dirs: "runs I (puts nm no_link) (act_step e (make_dirs (nm @ p)))" for e p
    by (rule runs_step) (rule make_dirs_puts[OF I], auto simp: no_link_def)
  {
    case (1 dst es)
    show ?case unfolding hardlink_dir.simps \<open>dst = nm @ p\<close> by (rule runs_bind[OF c dirs]) (use 1 in simp)
  next
    case (2 dst d)
    show ?case unfolding hardlink_dir.simps \<open>dst = nm @ p\<close> by (rule runs_bind[OF c dirs]) (rule runs_fail)
  next
    case (3 dst l)
    show ?case unfolding hardlink_dir.simps \<open>dst = nm @ p\<close> by (rule runs_bind[OF c dirs]) (rule runs_fail)
  next
    case (4 dst)
    show ?case by (simp add: runs_return)
  next
    case (5 dst n es r)
    show ?case unfolding hardlink_entries.simps by (rule runs_bind[OF c "5.IH"(1)[of "p @ [n]"]]) (use 5 in simp_all)
  next
    case (6 dst n data r)
    have "runs I (puts nm no_link) (act_step Link_io_failed (fs_write (nm @ (p @ [n])) data))"
      by (rule runs_step) (rule fs_write_puts[OF I], auto simp: no_link_def)
    then show ?case unfolding hardlink_entries.simps \<open>dst = nm @ p\<close> by (intro runs_bind[OF c]) (use 6 in simp_all)
  next
    case (7 dst n l r)
    then show ?case by simp
  }
qed

lemma link_package_runs:
  assumes c: "closed I (puts nm no_link)" and I: "\<And>t. I t \<Longrightarrow> stage_inv nm L t0 t"
  shows "runs I (puts nm no_link) (link_package source nm kn res)"
proof -
  let ?dir = "vmods (fst kn) @ name_parts (install_name_of (snd kn))"
  have d: "virtual_dir nm (fst kn) (install_name_of (snd kn)) = nm @ ?dir" by (simp add: virtual_dir_def virtual_modules_def)
  have "runs I (puts nm no_link) (act_step Link_io_failed (make_dirs (nm @ butlast ?dir)))"
    by (rule runs_step) (rule make_dirs_puts[OF I], auto simp: no_link_def)
  moreover have "butlast (nm @ ?dir) = nm @ butlast ?dir" by (simp add: butlast_append)
  ultimately show ?thesis using hardlink_runs(1)[OF c I refl] unfolding link_package_def Let_def d
    by (auto split: option.split intro!: runs_return runs_bind[OF c])
qed

lemma bin_text_inside:
  assumes "valid_name n" "\<forall>x\<in>set path. safe_name x" shows "inside_text 1 (intercalate ''/'' (''..'' # n # path))"
proof (rule inside_textI[where j = 1 and ns = "name_parts n @ path"])
  show "intercalate ''/'' (''..'' # n # path) = path_text (replicate 1 ParentDir @ map Normal (name_parts n @ path))"
    using intercalate_flat[of "[''..'']" n path] by (simp add: path_text_def comp_def)
qed (use assms valid_name_parts in auto)

lemma link_bins_runs:
  assumes c: "closed I (puts nm A)" and I: "\<And>t. I t \<Longrightarrow> stage_inv nm L t0 t" and ok: "names_ok graph"
    and A: "\<And>t q b w. I t \<Longrightarrow> (direct t nm [''.bin''] \<longrightarrow> q = [''.bin'', b]) \<Longrightarrow> 2 \<le> length q \<Longrightarrow> inside_text 1 w \<Longrightarrow> A q (Special (Some w)) None"
    and e: "nk \<in> set (lp_hoisted (build_plan graph))"
  shows "runs I (puts nm A) (link_bins parse graph nm nk res)"
proof -
  obtain n k where nk: "nk = (n, k)" by (cases nk)
  have v: "valid_name n" using plan_names_valid(1)[OF ok] e nk by blast
  have one: "runs I (puts nm A) (link_bin nm n bin res)" if bin: "bin \<in> set (read_bin_entries pj n)" for bin pj res
  proof -
    obtain b path where bp: "bin = (b, path)" by (cases bin)
    have "\<forall>x\<in>set path. safe_name x" using read_bin_cases[of b path pj n] sanitize_path_safe bin bp by blast
    define w where "w = intercalate ''/'' (''..'' # n # path)"
    have w: "inside_text 1 w" unfolding w_def by (rule bin_text_inside[OF v \<open>\<forall>x\<in>set path. safe_name x\<close>])
    have "runs I (puts nm A) (act_step Link_io_failed (symlink w (nm @ [''.bin'', b])))"
      by (rule runs_step) (rule symlink_puts[OF I], auto intro: A[OF _ _ _ w])
    then show ?thesis unfolding bp link_bin_def prod.case Let_def w_def[symmetric] by (auto intro!: runs_get runs_return runs_bind[OF c])
  qed
  show ?thesis unfolding nk link_bins_def prod.case by (auto intro!: runs_return runs_get runs_fold[OF c] one)
qed

section \<open>The whole stage\<close>

definition any_addition :: "string list \<Rightarrow> ftree \<Rightarrow> ftree option \<Rightarrow> bool" where
  "any_addition q v x \<longleftrightarrow> (\<forall>w. v = Special (Some w) \<longrightarrow> inside_text (length q - 1) w)"

lemma closed_any: "closed (stage_inv nm (\<lambda>_. True) t0) (puts nm any_addition)"
  by (rule closed_stage_inv) (simp add: any_addition_def)

lemma closed_no_link: "closed (build_inv nm L t0) (puts nm no_link)"
  by (rule closed_build_inv) (simp add: no_link_def)

definition outside_same :: "string list \<Rightarrow> ftree \<Rightarrow> ftree \<Rightarrow> bool" where
  "outside_same nm t0 t \<longleftrightarrow> (\<forall>r. disjoint_paths nm r \<longrightarrow> tree_lookup r t = tree_lookup r t0) \<and> (t = t0 \<or> is_dir_at t nm)"

lemma stage_inv_outside: "stage_inv nm L t0 t \<Longrightarrow> outside_same nm t0 t"
  by (simp add: stage_inv_def outside_same_def)

lemma build_inv_outside: "build_inv nm L t0 t \<Longrightarrow> outside_same nm t0 t"
  by (auto simp: build_inv_def dest: stage_inv_outside)

lemma finish_stage:
  assumes ok: "names_ok graph"
  shows "triple (stage_inv nm (\<lambda>_. True) t0)
    (act_bind (act_step Link_io_failed (make_dirs (nm @ [''.bin'']))) (\<lambda>_.
     act_bind (act_fold (link_bins parse graph nm) (lp_hoisted (build_plan graph)) res) (\<lambda>res.
     act_bind (act_step Link_io_failed (fs_write (nm @ [''.oath'', ''.link-manifest'']) m)) (\<lambda>_. act_return res))))
    (\<lambda>_. stage_inv nm (\<lambda>_. True) t0) (outside_same nm t0)"
proof -
  let ?I = "stage_inv nm (\<lambda>_. True) t0" and ?R = "puts nm any_addition"
  have "runs ?I ?R (act_step Link_io_failed (make_dirs (nm @ [''.bin''])))"
    by (rule runs_step) (rule make_dirs_puts, auto simp: any_addition_def)
  moreover have "runs ?I ?R (act_fold (link_bins parse graph nm) (lp_hoisted (build_plan graph)) res)" for res
    by (intro runs_fold closed_any link_bins_runs[OF closed_any _ ok]) (auto simp: any_addition_def intro: inside_text_mono)
  moreover have "runs ?I ?R (act_step Link_io_failed (fs_write (nm @ [''.oath'', ''.link-manifest'']) m))"
    by (rule runs_step) (rule fs_write_puts, auto simp: any_addition_def)
  ultimately show ?thesis
    by (intro runs_inv[OF _ closed_any stage_inv_outside] runs_bind[OF closed_any] runs_return)
qed

lemma closed_hoisted: "names_ok graph \<Longrightarrow> closed (build_inv nm early_place t0) (puts nm (adds (hoisted_texts graph) D))"
  by (rule closed_adds) (auto simp: early_place_def dest: hoisted_texts_ok)

lemma closed_nested: "names_ok graph \<Longrightarrow> closed (build_inv nm early_place t0) (puts nm (adds (nested_texts graph) D))"
  by (rule closed_adds) (auto simp: early_place_def dest: nested_texts_ok)

lemma closed_deps: "names_ok graph \<Longrightarrow> closed (build_inv nm any_place t0) (puts nm (adds (beside_texts (dep_edges graph)) D))"
  by (rule closed_adds) (use beside_texts_ok[of "dep_edges graph"] edge_names_valid(1) in \<open>auto simp: any_place_def\<close>)

lemma closed_peers: "names_ok graph \<Longrightarrow> closed (build_inv nm any_place t0) (puts nm (adds (beside_texts (peer_edges graph)) D))"
  by (rule closed_adds) (use beside_texts_ok[of "peer_edges graph"] edge_names_valid(2) in \<open>auto simp: any_place_def\<close>)

lemma stage_first:
  assumes "is_dir_at t0 project" "tree_lookup (project @ [n]) t0 = None"
  shows "triple (\<lambda>t. t = t0) (act_step e (make_dirs ((project @ [n]) @ [''.oath''])))
    (\<lambda>_ t. build_inv (project @ [n]) (\<lambda>_. False) t0 t \<and> tree_lookup (project @ [n]) t = Some (Dir [(''.oath'', Dir [])])) (outside_same (project @ [n]) t0)"
proof (rule triple_step)
  fix t t' assume "t = t0" "make_dirs ((project @ [n]) @ [''.oath'']) t = Some t'"
  note s = stage_start[OF assms this(2)[unfolded this(1)]]
  then have "tree_lookup ((project @ [n]) @ [''.oath'']) t' = Some (Dir [])" unfolding tree_lookup_append[of "project @ [n]"] by simp
  then show "build_inv (project @ [n]) (\<lambda>_. False) t0 t' \<and> tree_lookup (project @ [n]) t' = Some (Dir [(''.oath'', Dir [])])"
    using s by (simp add: build_inv_def is_dir_at_iff)
qed (simp add: outside_same_def)

lemma build_stage_outside:
  assumes d: "is_dir_at t0 project" "tree_lookup (project @ [n]) t0 = None" and ok: "names_ok graph"
  shows "triple (\<lambda>t. t = t0) (build_stage source parse graph (project @ [n]))
    (\<lambda>_. stage_inv (project @ [n]) (\<lambda>_. True) t0) (outside_same (project @ [n]) t0)"
proof -
  let ?nm = "project @ [n]" and ?E = "outside_same (project @ [n]) t0"
  have p1: "triple (build_inv ?nm (\<lambda>_. False) t0) (act_fold (link_package source ?nm) (dg_nodes graph) res) (\<lambda>_. build_inv ?nm (\<lambda>_. False) t0) ?E" for res
    by (rule runs_inv[OF runs_fold[OF closed_no_link link_package_runs[OF closed_no_link]] closed_no_link build_inv_outside]) (auto simp: build_inv_def)
  have p2: "triple (build_inv ?nm early_place t0) (act_fold (link_hoisted graph ?nm) (lp_hoisted (build_plan graph)) res) (\<lambda>_. build_inv ?nm early_place t0) ?E" for res
    by (rule runs_inv[OF runs_fold[OF closed_hoisted[OF ok] link_hoisted_runs[OF ok]] closed_hoisted[OF ok] build_inv_outside])
  have p3: "triple (build_inv ?nm early_place t0) (act_fold (link_nested graph ?nm) (lp_nested (build_plan graph)) res) (\<lambda>_. build_inv ?nm early_place t0) ?E" for res
    by (rule runs_inv[OF runs_fold[OF closed_nested[OF ok] link_nested_runs[OF ok]] closed_nested[OF ok] build_inv_outside])
  have p4: "triple (build_inv ?nm any_place t0) (act_fold (link_dependencies graph ?nm) (dg_nodes graph) res) (\<lambda>_. build_inv ?nm any_place t0) ?E" for res
    by (rule runs_inv[OF runs_fold[OF closed_deps[OF ok] link_dependencies_runs[OF ok]] closed_deps[OF ok] build_inv_outside])
  have p5: "triple (build_inv ?nm any_place t0) (act_fold (link_peers graph ?nm) (dg_nodes graph) res) (\<lambda>_. build_inv ?nm any_place t0) ?E" for res
    by (rule runs_inv[OF runs_fold[OF closed_peers[OF ok] link_peers_runs[OF ok]] closed_peers[OF ok] build_inv_outside])
  note q1 = triple_post[OF stage_first[OF d], of "\<lambda>_. build_inv ?nm (\<lambda>_. False) t0"]
  note q2 = triple_pre[OF p2, of "build_inv ?nm (\<lambda>_. False) t0"]
  note q4 = triple_pre[OF p4, of "build_inv ?nm early_place t0"]
  note q6 = triple_pre[OF finish_stage[OF ok], of "build_inv ?nm any_place t0"]
  show ?thesis unfolding build_stage_def Let_def
    by (rule triple_bind[OF q1], simp, rule triple_bind[OF p1], rule triple_bind[OF q2], erule build_inv_mono, simp,
        rule triple_bind[OF p3], rule triple_bind[OF q4], erule build_inv_mono, simp add: any_place_def, rule triple_bind[OF p5], rule q6)
      (auto simp: build_inv_def intro: stage_inv_mono)
qed

section \<open>All or nothing\<close>

text \<open>A path that goes on from a place that cannot be reached cannot be reached. So a stage directory that is a dangling link makes the construction fail at once.\<close>

lemma follow_stuck: "follow False k t cur cs = Inl e \<Longrightarrow> follow False k t cur (cs @ ds) = Inl e"
proof (induction "False" k t cur cs rule: follow.induct)
  case (5 k t cur n cs)
  show ?case
  proof (cases "tree_lookup (cur @ [n]) t")
    case None
    then show ?thesis using "5.prems" by simp
  next
    case (Some v)
    show ?thesis
    proof (cases v)
      case (Special w)
      then show ?thesis using 5 Some by (cases w; cases k) (auto split: if_splits)
    qed (use 5 Some in \<open>auto split: if_splits\<close>)
  qed
qed simp_all

lemma blocked_stage:
  assumes "is_dir_at t project" "tree_lookup (project @ [n]) t \<noteq> None" "\<not> path_exists t (project @ [n])"
  shows "make_dirs ((project @ [n]) @ [m]) t = None"
proof -
  obtain e where e: "real_path t (project @ [n]) = Inl e" using assms(3) by (cases "real_path t (project @ [n])") (auto simp: path_exists_def)
  then have "real_path t ((project @ [n]) @ [m]) = Inl e"
    using follow_stuck[of symlink_limit t "[]" "map Normal (project @ [n])" e "[Normal m]"] by (simp add: real_path_def)
  then have "\<not> path_is_dir t (project @ [n] @ [m])" "\<not> path_is_dir t (project @ [n])" using e by (simp_all add: path_is_dir_def)
  moreover have "make_dirs_rev (rev project) t = Some t"
    using assms(1) real_path_dir[OF assms(1)] by (cases "rev project") (simp_all add: path_is_dir_def rev_swap)
  moreover have "new_entry (project @ [n]) (Dir []) t = None" using assms(1,2) by (auto simp: new_entry_def entry_place_dir)
  ultimately show ?thesis by (simp add: make_dirs_def)
qed

lemma build_frame:
  assumes dir: "is_dir_at r0 project" and free: "\<not> path_exists r0 (stage_path project)"
    and ok: "names_ok graph" and b: "build_stage source parse graph (stage_path project) r0 = (r, t)"
  shows "disjoint_paths (stage_path project) q \<Longrightarrow> tree_lookup q t = tree_lookup q r0" "is_dir_at t project"
    "t = r0 \<or> is_dir_at t (stage_path project)"
    "r = Inr res \<Longrightarrow> is_dir_at t (stage_path project) \<and> tree_lookup (stage_path project) r0 = None"
proof -
  let ?S = "stage_path project"
  have "outside_same ?S r0 t \<and> (\<forall>res. r = Inr res \<longrightarrow> is_dir_at t ?S \<and> tree_lookup ?S r0 = None)"
  proof (cases "tree_lookup ?S r0")
    case None
    note f = build_stage_outside[OF dir None[unfolded stage_path_def] ok, of source parse, folded stage_path_def]
    show ?thesis
    proof (cases r)
      case (Inl e)
      then show ?thesis using tripleD_error[OF f refl] b by blast
    next
      case (Inr a)
      from tripleD[OF f refl] b Inr have "stage_inv ?S (\<lambda>_. True) r0 t" by blast
      then show ?thesis using stage_inv_outside None by (auto simp: stage_inv_def)
    qed
  next
    case (Some v)
    then have "make_dirs (?S @ [''.oath'']) r0 = None"
      using blocked_stage[OF dir, of "''.oath-node_modules-stage''" "''.oath''"] free by (simp add: stage_path_def)
    then have "build_stage source parse graph ?S r0 = (Inl Link_io_failed, r0)" by (simp add: build_stage_def Let_def act_bind_def act_step_def)
    then show ?thesis using b by (simp add: outside_same_def)
  qed
  then have o: "outside_same ?S r0 t" and y: "\<And>res. r = Inr res \<Longrightarrow> is_dir_at t ?S \<and> tree_lookup ?S r0 = None" by blast+
  show "disjoint_paths ?S q \<Longrightarrow> tree_lookup q t = tree_lookup q r0" "t = r0 \<or> is_dir_at t ?S" using o by (simp_all add: outside_same_def)
  then show "is_dir_at t project" using dir is_dir_of_child[of project "''.oath-node_modules-stage''" t] by (auto simp: stage_path_def is_dir_at_iff)
  show "r = Inr res \<Longrightarrow> is_dir_at t ?S \<and> tree_lookup ?S r0 = None" by (rule y)
qed

text \<open>How far a run gets.\<close>

lemma link_all_cases:
  assumes "link_all env blake3 store parse graph project root = (r, root')"
  obtains (invalid) e where "r = Inl e" "root' = root"
  | (unrecovered) e where "r = Inl e" "recover_link_transaction env project root = (Inl e, root')"
  | (unchanged) "r = Inr (default_link_result\<lparr>lr_linked := length (dg_nodes graph)\<rparr>)" "recover_link_transaction env project root = (Inr (), root')"
      "up_to_date graph project root'" "names_ok graph"
  | (unbuilt) e r0 where "r = Inl e" "recover_link_transaction env project root = (Inr (), r0)" "names_ok graph"
      "build_stage (package_source blake3 store) parse graph (stage_path project) r0 = (Inl e, root')"
  | (built) res r0 t c where "recover_link_transaction env project root = (Inr (), r0)" "names_ok graph" "\<not> up_to_date graph project r0"
      "build_stage (package_source blake3 store) parse graph (stage_path project) r0 = (Inr res, t)"
      "commit_link_transaction env project t = (c, root')" "r = (case c of Inl e \<Rightarrow> Inl e | Inr _ \<Rightarrow> Inr res)"
proof (cases "validate_graph_path_names graph")
  case (Inl e)
  show ?thesis by (rule invalid[of e]) (use assms Inl in \<open>simp_all add: link_all_def\<close>)
next
  case (Inr u)
  then have ok: "names_ok graph" by (simp add: names_ok_def)
  obtain r1 r0 where rec: "recover_link_transaction env project root = (r1, r0)" by (cases "recover_link_transaction env project root")
  show ?thesis
  proof (cases r1)
    case (Inl e)
    then show ?thesis using unrecovered assms Inr rec by (simp add: link_all_def)
  next
    case u: (Inr x)
    obtain b t where b: "build_stage (package_source blake3 store) parse graph (stage_path project) r0 = (b, t)"
      by (cases "build_stage (package_source blake3 store) parse graph (stage_path project) r0")
    obtain c t' where c: "commit_link_transaction env project t = (c, t')" by (cases "commit_link_transaction env project t")
    show ?thesis
    proof (cases "up_to_date graph project r0")
      case True
      then show ?thesis using unchanged ok assms Inr rec u by (simp add: link_all_def)
    next
      case False
      show ?thesis
      proof (cases b)
        case (Inl e)
        show ?thesis by (rule unbuilt) (use ok assms \<open>validate_graph_path_names graph = Inr u\<close> rec u False b Inl in \<open>auto simp: link_all_def\<close>)
      next
        case r: (Inr res)
        show ?thesis by (rule built[where res = res and ?r0.0 = r0 and t = t and c = c]) (use ok assms \<open>validate_graph_path_names graph = Inr u\<close> rec u False b r c in \<open>auto simp: link_all_def split: sum.splits\<close>)
      qed
    qed
  qed
qed

text \<open>
  C6: Linking is all or nothing. When \<open>link_all\<close> returns an error, whichever of its checks or of the calls of its transaction fails, and from whatever state an interrupted run
  has left, the project still has exactly the layout it had before, in place or ready to be restored. When it succeeds there is a layout in
  place and no stage, and a backup is left only when its removal has failed, which the code logs and ignores. In all cases nothing outside these three
  directories of the project has changed, whatever names and links the graph and the packages contain. The three names themselves, \<open>node_modules\<close> and those of the stage and the backup,
  are not symbolic links before the run.
\<close>

theorem link_all_all_or_nothing:
  assumes dir: "tree_lookup project root = Some (Dir es)" and links: "no_links (nm_view project root)"
    and run: "link_all env blake3 store parse graph project root = (r, root')"
  shows "(case r of
        Inl e \<Rightarrow> installed (nm_view project root') = installed (nm_view project root)
      | Inr res \<Rightarrow> nm_live (nm_view project root') \<noteq> None \<and> nm_stage (nm_view project root') = None
          \<and> (nm_backup (nm_view project root') = None
             \<or> (\<exists>u. nm_backup (nm_view project u) = installed (nm_view project root)
                   \<and> remove_dir_all env Backup_cleanup_failed (backup_path project) u = (Inl Backup_cleanup_failed, root'))))
    \<and> (\<forall>q. elsewhere project q \<longrightarrow> tree_lookup q root' = tree_lookup q root)"
proof -
  have d: "is_dir_at root project" using dir by (simp add: is_dir_at_iff)
  show ?thesis
  proof (cases rule: link_all_cases[OF run])
    case (1 e)
    then show ?thesis by simp
  next
    case (2 e)
    then show ?thesis using recover_view(1)[OF d links 2(2)] recover_frame(1)[OF d 2(2)] by simp
  next
    case 3
    note v = recover_view(3)[OF d links 3(2) refl] and f = recover_frame[OF d 3(2)]
    have "nm_live (nm_view project root') \<noteq> None"
      using 3(3) path_exists_entry_None[OF f(2), of "''node_modules''"] by (auto simp: up_to_date_def nm_view_def live_path_def)
    then show ?thesis using 3(1) v f(1) by simp
  next
    case (4 e r0)
    note v = recover_view(3)[OF d links 4(2) refl] and f = recover_frame[OF d 4(2)]
    note b = build_frame[OF f(2) f(3)[OF refl] 4(3,4)]
    have "installed (nm_view project root') = installed (nm_view project r0)" using b(1) by (simp add: installed_def nm_view_def split: option.split)
    then show ?thesis using 4(1) v b(1) f(1) by (simp add: installed_def elsewhere_def split: option.splits)
  next
    case (5 res r0 t c)
    note v = recover_view(3)[OF d links 5(1) refl] and f = recover_frame[OF d 5(1)]
    note b = build_frame[OF f(2) f(3)[OF refl] 5(2,4)]
    have t: "nm_live (nm_view project t) = installed (nm_view project root)" "nm_backup (nm_view project t) = None"
      using b(1) v by (simp_all add: nm_view_def)
    obtain xs where "nm_stage (nm_view project t) = Some (Dir xs)" using b(4)[OF refl] by (auto simp: nm_view_def is_dir_at_iff)
    then have n: "no_links (nm_view project t)" using t recover_view(2)[OF d links 5(1)] v by (simp add: no_links_iff)
    have i: "installed (nm_view project t) = installed (nm_view project root)" using t by (simp add: installed_def split: option.splits)
    note w = commit_view[OF b(2) n t(2) 5(5)]
    show ?thesis using 5(6) w i b(1) f(1) commit_frame(1)[OF b(2) 5(5)] by (cases c) (auto simp: elsewhere_def)
  qed
qed

text \<open>The witness: an interrupted run has left only a backup, and no call fails or every removal does.\<close>

theorem link_all_all_or_nothing_witness:
  "\<exists>r root'. link_all \<lparr>refuses_rename = \<lambda>t p q. False, stops_remove = \<lambda>t p. Some []\<rparr> (\<lambda>s. s) (Dir []) (\<lambda>_. None) sample_conflict [''app'']
       (Dir [(''app'', Dir [(''.oath-node_modules-backup'', Dir [(''x'', Dir [])])])]) = (r, root')
     \<and> (case r of
        Inl e \<Rightarrow> installed (nm_view [''app''] root') = Some (Dir [(''x'', Dir [])])
      | Inr res \<Rightarrow> nm_live (nm_view [''app''] root') \<noteq> None)"
proof -
  let ?root = "Dir [(''app'', Dir [(''.oath-node_modules-backup'', Dir [(''x'', Dir [])])])]"
  let ?env = "\<lparr>refuses_rename = \<lambda>t p q. False, stops_remove = \<lambda>t p. Some []\<rparr>"
  obtain r root' where run: "link_all ?env (\<lambda>s. s) (Dir []) (\<lambda>_. None) sample_conflict [''app''] ?root = (r, root')"
    by (cases "link_all ?env (\<lambda>s. s) (Dir []) (\<lambda>_. None) sample_conflict [''app''] ?root")
  have "tree_lookup [''app''] ?root = Some (Dir [(''.oath-node_modules-backup'', Dir [(''x'', Dir [])])])" by simp
  moreover have "no_links (nm_view [''app''] ?root)"
    by (simp add: no_links_iff nm_view_def live_path_def stage_path_def backup_path_def)
  moreover note run
  ultimately have c: "case r of
        Inl e \<Rightarrow> installed (nm_view [''app''] root') = installed (nm_view [''app''] ?root)
      | Inr res \<Rightarrow> nm_live (nm_view [''app''] root') \<noteq> None \<and> nm_stage (nm_view [''app''] root') = None
          \<and> (nm_backup (nm_view [''app''] root') = None
             \<or> (\<exists>u. nm_backup (nm_view [''app''] u) = installed (nm_view [''app''] ?root)
                   \<and> remove_dir_all ?env Backup_cleanup_failed (backup_path [''app'']) u = (Inl Backup_cleanup_failed, root')))"
    by (rule link_all_all_or_nothing[THEN conjunct1])
  have "installed (nm_view [''app''] ?root) = Some (Dir [(''x'', Dir [])])"
    by (simp add: installed_def nm_view_def live_path_def stage_path_def backup_path_def)
  then show ?thesis using c run by (cases r) auto
qed

text \<open>
  A package that is missing from the store is only counted, but the links of its own dependencies beside it then have no directory to go
  to: with a package that is absent and a dependency that is present the whole run fails.
\<close>

definition half_stored :: "dep_node \<Rightarrow> ftree option" where
  "half_stored node = (if dn_name node = ''a'' then None else Some (Dir []))"

lemma missing_package_fails:
  "fst (build_stage half_stored (\<lambda>_. None) sample_conflict [''s''] (Dir [])) = Inl Link_io_failed"
  by code_simp

end
