(* ===== verification/Link_Layout.thy ===== *)
theory Link_Layout
  imports Link_Build
begin

text \<open>
  What \<open>link_all\<close> builds: the files of each package are the files of its entry in the store, each dependency of a package
  is found beside it or below it at the version the graph says, and each top-level name leads to its hoisted version.
\<close>

section \<open>What an addition leaves alone\<close>

lemma closed_file:
  assumes "\<And>v x. A q v x \<Longrightarrow> False"
  shows "closed (\<lambda>t. (tree_lookup (nm @ q) t = Some (File d)) = b) (puts nm A)"
  unfolding closed_def puts_def
proof (intro allI impI, elim exE conjE)
  fix t t' r v
  assume a: "(tree_lookup (nm @ q) t = Some (File d)) = b" "A r v (tree_lookup (nm @ r) t)" "is_dir_at t (nm @ butlast r)"
    "tree_put (nm @ r) v t = Some t'" "leaf v" "\<forall>es. tree_lookup (nm @ r) t \<noteq> Some (Dir es)"
  have "q \<noteq> r" using a(2) assms by auto
  show "(tree_lookup (nm @ q) t' = Some (File d)) = b"
  proof (cases "strict_prefix q r")
    case True
    then have "is_dir_at t (nm @ q)" by (rule strict_prefix_place[OF _ a(3)])
    moreover have "is_dir_at t' (nm @ q)" using put_leaf(2)[OF a(4-6), of "nm @ q"] True by (simp add: strict_prefix_same)
    ultimately show ?thesis using a(1) by (auto simp: is_dir_at_iff)
  next
    case False
    then show ?thesis using put_leaf(3)[OF a(4-6), of "nm @ q"] \<open>q \<noteq> r\<close> a(1) by (simp add: strict_prefix_same)
  qed
qed

lemma closed_only_link:
  assumes "\<And>v x. A q v x \<Longrightarrow> x = None \<and> v = Special (Some w)"
  shows "closed (\<lambda>t. tree_lookup (nm @ q) t = None \<or> tree_lookup (nm @ q) t = Some (Special (Some w))) (puts nm A)"
  unfolding closed_def puts_def
proof (intro allI impI, elim exE conjE)
  fix t t' r v
  assume a: "tree_lookup (nm @ q) t = None \<or> tree_lookup (nm @ q) t = Some (Special (Some w))" "A r v (tree_lookup (nm @ r) t)"
    "is_dir_at t (nm @ butlast r)" "tree_put (nm @ r) v t = Some t'" "leaf v" "\<forall>es. tree_lookup (nm @ r) t \<noteq> Some (Dir es)"
  show "tree_lookup (nm @ q) t' = None \<or> tree_lookup (nm @ q) t' = Some (Special (Some w))"
  proof (cases "q = r")
    case True
    then show ?thesis using assms a(2) put_leaf(1)[OF a(4-6)] by auto
  next
    case False
    have "\<not> strict_prefix q r" using strict_prefix_place[OF _ a(3), of q] a(1) by (auto simp: is_dir_at_iff)
    then show ?thesis using put_leaf(3)[OF a(4-6), of "nm @ q"] False a(1) by (simp add: strict_prefix_same)
  qed
qed

section \<open>Copying\<close>

text \<open>While packages are copied there is no link in the stage, so every path is direct.\<close>

abbreviation copy_inv :: "string list \<Rightarrow> ftree \<Rightarrow> ftree \<Rightarrow> bool" where
  "copy_inv nm t0 \<equiv> build_inv nm (\<lambda>_. False) t0"

lemma copy_direct: "copy_inv nm t0 t \<Longrightarrow> direct t nm p"
  by (rule direct_in_stage[where L = "\<lambda>_. False"]) simp_all

definition within :: "(string list \<Rightarrow> bool) \<Rightarrow> string list \<Rightarrow> ftree \<Rightarrow> ftree option \<Rightarrow> bool" where
  "within S q v x \<longleftrightarrow> no_link q v x \<and> S q"

lemma closed_within: "closed (copy_inv nm t0) (puts nm (within S))"
  by (rule closed_build_inv) (simp add: within_def no_link_def)

definition related :: "string list \<Rightarrow> string list \<Rightarrow> bool" where
  "related p q \<longleftrightarrow> prefix p q \<or> prefix q p"

lemma copy_dirs_runs:
  assumes "\<And>q. prefix q p \<Longrightarrow> S q"
  shows "runs (copy_inv nm t0) (puts nm (within S)) (act_step e (make_dirs (nm @ p)))"
proof (rule runs_step)
  fix t t' assume t: "copy_inv nm t0 t" "make_dirs (nm @ p) t = Some t'"
  show "(puts nm (within S))\<^sup>*\<^sup>* t t'"
    using t copy_direct[OF t(1)] assms by (intro make_dirs_puts[of nm "\<lambda>_. False" t0 t p _ t']) (auto simp: build_inv_def within_def no_link_def)
qed

lemma copy_write_runs:
  assumes "S p" "p \<noteq> []"
  shows "runs (copy_inv nm t0) (puts nm (within S)) (act_step e (fs_write (nm @ p) d))"
proof (rule runs_step)
  fix t t' assume t: "copy_inv nm t0 t" "fs_write (nm @ p) d t = Some t'"
  show "(puts nm (within S))\<^sup>*\<^sup>* t t'"
    using t copy_direct[OF t(1)] assms by (intro fs_write_puts[of nm "\<lambda>_. False" t0 t p d t']) (auto simp: build_inv_def within_def no_link_def)
qed

lemma copy_runs:
  "dst = nm @ p \<Longrightarrow> (\<And>q. related p q \<Longrightarrow> S q) \<Longrightarrow> runs (copy_inv nm t0) (puts nm (within S)) (hardlink_dir dst v)"
  "dst = nm @ p \<Longrightarrow> (\<And>n q. n \<in> fst ` set es \<Longrightarrow> related (p @ [n]) q \<Longrightarrow> S q) \<Longrightarrow>
     runs (copy_inv nm t0) (puts nm (within S)) (hardlink_entries dst es)"
proof (induction dst v and dst es arbitrary: p and p rule: hardlink_dir_hardlink_entries.induct)
  case (1 dst es)
  have "runs (copy_inv nm t0) (puts nm (within S)) (act_step Link_io_failed (make_dirs (nm @ p)))"
    by (rule copy_dirs_runs) (use 1(3) in \<open>auto simp: related_def\<close>)
  moreover have "related p q" if "related (p @ [n]) q" for n q
    using that unfolding related_def by (metis append_prefixD prefix_def prefix_same_cases)
  then have "runs (copy_inv nm t0) (puts nm (within S)) (hardlink_entries dst es)" using 1 by blast
  ultimately show ?case unfolding hardlink_dir.simps \<open>dst = nm @ p\<close> by (intro runs_bind[OF closed_within]) simp_all
next
  case (2 dst d)
  have "runs (copy_inv nm t0) (puts nm (within S)) (act_step Link_io_failed (make_dirs (nm @ p)))"
    by (rule copy_dirs_runs) (use 2(2) in \<open>auto simp: related_def\<close>)
  then show ?case unfolding hardlink_dir.simps \<open>dst = nm @ p\<close> by (intro runs_bind[OF closed_within] runs_fail)
next
  case (3 dst l)
  have "runs (copy_inv nm t0) (puts nm (within S)) (act_step Link_io_failed (make_dirs (nm @ p)))"
    by (rule copy_dirs_runs) (use 3(2) in \<open>auto simp: related_def\<close>)
  then show ?case unfolding hardlink_dir.simps \<open>dst = nm @ p\<close> by (intro runs_bind[OF closed_within] runs_fail)
next
  case (4 dst)
  then show ?case by (simp add: runs_return)
next
  case (5 dst n es r)
  have "runs (copy_inv nm t0) (puts nm (within S)) (hardlink_dir (dst @ [n]) (Dir es))"
    by (rule "5.IH"(1)[of "p @ [n]"]) (use 5(3,4) in auto)
  moreover have "runs (copy_inv nm t0) (puts nm (within S)) (hardlink_entries dst r)"
    by (rule "5.IH"(2)) (use 5(3,4) in auto)
  ultimately show ?case unfolding hardlink_entries.simps by (intro runs_bind[OF closed_within])
next
  case (6 dst n data r)
  have "runs (copy_inv nm t0) (puts nm (within S)) (act_step Link_io_failed (fs_write (nm @ (p @ [n])) data))"
    by (rule copy_write_runs) (use 6(3) in \<open>auto simp: related_def\<close>)
  moreover have "runs (copy_inv nm t0) (puts nm (within S)) (hardlink_entries dst r)"
    by (rule "6.IH") (use 6(2,3) in auto)
  ultimately show ?case unfolding hardlink_entries.simps \<open>dst = nm @ p\<close> by (intro runs_bind[OF closed_within]) simp_all
next
  case (7 dst n l r)
  show ?case unfolding hardlink_entries.simps by (rule "7.IH") (use 7(2,3) in auto)
qed

text \<open>An action that runs by changes leaves alone what they leave alone.\<close>

lemma runs_keeps: "runs I R m \<Longrightarrow> I t \<Longrightarrow> m t = (r, t') \<Longrightarrow> closed K R \<Longrightarrow> K t \<Longrightarrow> K t'"
  using closed_rtranclp[of K R t t'] unfolding runs_def by fastforce

lemma act_bind_Inr: "act_bind m f t = (Inr b, t') \<longleftrightarrow> (\<exists>a u. m t = (Inr a, u) \<and> f a u = (Inr b, t'))"
  by (auto simp: act_bind_def split: prod.splits sum.splits)

lemma act_step_Inr: "act_step e f t = (Inr u, t') \<longleftrightarrow> f t = Some t'"
  by (auto simp: act_step_def split: option.splits)

text \<open>Making a new directory on a direct path; writing a new file.\<close>

lemma make_dirs_makes:
  assumes inv: "stage_inv nm L t0 t" and d: "direct t nm p" and m: "make_dirs (nm @ p) t = Some t'"
    and free: "tree_lookup (nm @ p) t = None" and p: "p \<noteq> []"
  shows "tree_lookup (nm @ p) t' = Some (Dir [])"
proof -
  have "\<not> path_is_dir t (nm @ p)"
  proof
    assume pd: "path_is_dir t (nm @ p)"
    then obtain r where r: "real_path t (nm @ p) = Inr r" "is_dir_at t r" by (auto simp: path_is_dir_def split: sum.splits)
    have "r = nm @ p" using real_path_direct[OF d _ r(1)] inv by (simp add: stage_inv_def)
    then show False using r(2) free by (simp add: is_dir_at_iff)
  qed
  then obtain u where u: "make_dirs (nm @ butlast p) t = Some u" "new_entry (nm @ p) (Dir []) u = Some t'"
    using m p by (cases p rule: rev_cases) (auto simp: make_dirs_def bind_eq_Some_conv)
  let ?A = "\<lambda>(q :: string list) v (x :: ftree option). v = Dir []"
  have s: "(puts nm ?A)\<^sup>*\<^sup>* t u" by (rule make_dirs_puts[OF inv _ u(1)]) simp
  have "stage_inv nm L t0 u" by (rule closed_rtranclp[OF closed_stage_inv s inv]) simp_all
  moreover have "direct u nm p" by (rule closed_rtranclp[OF closed_direct s d]) simp
  then have "direct u nm (butlast p)" using prefixeq_butlast[of p] unfolding direct_def by (meson prefix_order.order_trans)
  ultimately obtain q where "tree_put (nm @ q) (Dir []) u = Some t'" "q = p"
    using new_entry_inside[OF _ u(2) p, of L t0] by auto
  then show ?thesis using tree.look_put by blast
qed

lemma fs_write_writes:
  assumes inv: "copy_inv nm t0 t" and w: "fs_write (nm @ p) d t = Some t'" and "p \<noteq> []"
  shows "tree_put (nm @ p) (File d) t = Some t'"
proof -
  obtain q where q: "follow True symlink_limit t [] (map Normal (nm @ p)) = Inr q" "tree_put q (File d) t = Some t'"
    using w by (auto simp: fs_write_def split: sum.splits option.splits ftree.splits)
  have "follow True symlink_limit t nm (map Normal p) = Inr q"
    using q(1) follow_dirs[of t "[]" nm True symlink_limit "map Normal p"] inv by (simp add: build_inv_def stage_inv_def)
  from follow_direct[OF copy_direct[OF inv] this] show ?thesis using q(2) by simp
qed

definition file_at :: "ftree \<Rightarrow> string list \<Rightarrow> string \<Rightarrow> bool" where
  "file_at t p d \<longleftrightarrow> tree_lookup p t = Some (File d)"

lemma no_file_at: "n \<notin> fst ` set es \<Longrightarrow> \<not> file_at (Dir es) (n # q) d"
  by (simp add: file_at_def map_of_eq_None_iff[THEN iffD2])

lemma related_child: "related (p @ [n]) (p @ m # q) \<longleftrightarrow> m = n"
  by (auto simp: related_def)

lemma copy_files:
  "dst = nm @ p \<Longrightarrow> p \<noteq> [] \<Longrightarrow> copy_inv nm t0 t \<Longrightarrow> hardlink_dir dst v t = (Inr u, t') \<Longrightarrow> tree_wf v \<Longrightarrow> tree_lookup (nm @ p) t = None \<Longrightarrow>
     copy_inv nm t0 t' \<and> is_dir_at t' (nm @ p) \<and> (\<forall>q d. file_at t' (nm @ p @ q) d \<longleftrightarrow> file_at v q d)"
  "dst = nm @ p \<Longrightarrow> copy_inv nm t0 t \<Longrightarrow> hardlink_entries dst es t = (Inr u, t') \<Longrightarrow> tree_wf (Dir es) \<Longrightarrow> is_dir_at t (nm @ p) \<Longrightarrow>
     (\<forall>n\<in>fst ` set es. tree_lookup (nm @ p @ [n]) t = None) \<Longrightarrow>
     copy_inv nm t0 t' \<and> is_dir_at t' (nm @ p) \<and> (\<forall>q d. file_at t' (nm @ p @ q) d \<longleftrightarrow> file_at t (nm @ p @ q) d \<or> file_at (Dir es) q d)"
proof (induction dst v and dst es arbitrary: p t t' and p t t' rule: hardlink_dir_hardlink_entries.induct)
  case (1 dst es)
  obtain s where s: "make_dirs (nm @ p) t = Some s" "hardlink_entries dst es s = (Inr u, t')"
    using 1(5) unfolding hardlink_dir.simps act_bind_Inr act_step_Inr \<open>dst = nm @ p\<close> by auto
  have inv: "copy_inv nm t0 s"
    using runs_keeps[OF copy_dirs_runs[of p "\<lambda>_. True" nm t0 Link_io_failed] 1(4) _ closed_within 1(4)] s(1) by (simp add: act_step_def)
  have d: "tree_lookup (nm @ p) s = Some (Dir [])" 
    using make_dirs_makes[OF _ copy_direct[OF 1(4)] s(1) 1(7,3)] 1(4) unfolding build_inv_def by blast
  have below: "tree_lookup (nm @ p @ q) s = (if q = [] then Some (Dir []) else None)" for q
    using tree_lookup_append[of "nm @ p" q s] d by (cases q) simp_all
  from 1(1)[OF 1(2) inv s(2) 1(6)] d below show ?case by (auto simp: is_dir_at_iff file_at_def)
next
  case (2 dst d)
  then show ?case by (auto simp: act_bind_Inr act_fail_def)
next
  case (3 dst l)
  then show ?case by (auto simp: act_bind_Inr act_fail_def)
next
  case (4 dst)
  have "tree_lookup q (Dir []) \<noteq> Some (File d)" for q d by (cases q) simp_all
  then show ?case using 4 by (auto simp: act_return_def file_at_def)
next
  case (5 dst n es r)
  obtain s where s: "hardlink_dir (dst @ [n]) (Dir es) t = (Inr (), s)" "hardlink_entries dst r s = (Inr u, t')"
    using 5(5) unfolding hardlink_entries.simps act_bind_Inr by auto
  have wf: "tree_wf (Dir es)" "tree_wf (Dir r)" "n \<notin> fst ` set r" using 5(6) by auto
  have ih1: "copy_inv nm t0 s" "is_dir_at s (nm @ p @ [n])" "\<forall>q d. file_at s (nm @ p @ [n] @ q) d \<longleftrightarrow> file_at (Dir es) q d"
    using 5(1)[of "p @ [n]" t s] 5(3,4,8) s(1) wf(1) by auto
  have runs: "runs (copy_inv nm t0) (puts nm (within (related (p @ [n])))) (hardlink_dir (dst @ [n]) (Dir es))"
    by (rule copy_runs(1)) (use 5(3) in auto)
  have absent: "tree_lookup (nm @ p @ [m]) s = None" if "m \<in> fst ` set r" for m
  proof (rule runs_keeps[OF runs 5(4) s(1)])
    have "m \<noteq> n" using that wf(3) by blast
    then show "closed (\<lambda>t. tree_lookup (nm @ p @ [m]) t = None) (puts nm (within (related (p @ [n]))))"
      by (intro closed_absent) (auto simp: within_def related_def)
    show "tree_lookup (nm @ p @ [m]) t = None" using 5(8) that by auto
  qed
  have dir: "is_dir_at s (nm @ p)" by (rule runs_keeps[OF runs 5(4) s(1) closed_is_dir 5(7)])
  have same: "file_at s (nm @ p @ m # q) d = file_at t (nm @ p @ m # q) d" if "m \<noteq> n" for m q d
    unfolding file_at_def
    by (rule runs_keeps[OF runs 5(4) s(1), where K = "\<lambda>x. (tree_lookup (nm @ p @ m # q) x = Some (File d)) = (tree_lookup (nm @ p @ m # q) t = Some (File d))"])
      (use that related_child[of p n m q] in \<open>auto intro!: closed_file simp: within_def\<close>)
  have none: "\<not> file_at t (nm @ p @ n # q) d" for q d
  proof -
    have "tree_lookup ((nm @ p @ [n]) @ q) t = None" unfolding tree_lookup_append[of "nm @ p @ [n]"] using 5(8) by simp
    then show ?thesis by (simp add: file_at_def)
  qed
  have free: "\<forall>m\<in>fst ` set r. tree_lookup (nm @ p @ [m]) s = None" by (intro ballI absent)
  have ih2: "copy_inv nm t0 t' \<and> is_dir_at t' (nm @ p) \<and> (\<forall>q d. file_at t' (nm @ p @ q) d \<longleftrightarrow> file_at s (nm @ p @ q) d \<or> file_at (Dir r) q d)"
    by (rule 5(2)[OF 5(3) ih1(1) s(2) wf(2) dir free])
  have "file_at t' (nm @ p @ q) d \<longleftrightarrow> file_at t (nm @ p @ q) d \<or> file_at (Dir ((n, Dir es) # r)) q d" for q d
  proof (cases q)
    case Nil
    then show ?thesis using ih2 5(7) by (auto simp: file_at_def is_dir_at_iff)
  next
    case (Cons m q')
    show ?thesis
    proof (cases "m = n")
      case True
      have "\<not> file_at (Dir r) (n # q') d" by (rule no_file_at[OF wf(3)])
      then show ?thesis using Cons True ih1(3)[THEN spec, THEN spec, of q' d] ih2 none[of q' d] by (simp add: file_at_def)
    next
      case False
      then show ?thesis using Cons same[OF False, of q' d] ih2 by (simp add: file_at_def)
    qed
  qed
  then show ?case using ih2 by blast
next
  case (6 dst n data r)
  obtain s where s: "fs_write (nm @ (p @ [n])) data t = Some s" "hardlink_entries dst r s = (Inr u, t')"
    using 6(4) unfolding hardlink_entries.simps act_bind_Inr act_step_Inr \<open>dst = nm @ p\<close> by auto
  note put = fs_write_writes[OF 6(3) s(1)]
  have put: "tree_put (nm @ p @ [n]) (File data) t = Some s" using put by simp
  have wf: "tree_wf (Dir r)" "n \<notin> fst ` set r" using 6(5) by auto
  have free: "tree_lookup (nm @ p @ [n]) t = None" using 6(7) by simp
  note l = put_leaf[OF put leaf_simps(2)]
  have inv: "copy_inv nm t0 s"
    using runs_keeps[OF copy_write_runs[of "\<lambda>_. True" "p @ [n]" nm t0 Link_io_failed data] 6(3) _ closed_within 6(3)] s(1) by (simp add: act_step_def)
  have dir: "is_dir_at s (nm @ p)" using l(2)[of "nm @ p"] free strict_prefix_same[of nm p "p @ [n]"] by (simp add: strict_prefix_def)
  have other: "tree_lookup (nm @ p @ m # q) s = tree_lookup (nm @ p @ m # q) t" if "m \<noteq> n" for m q
  proof (rule tree.look_put_other[OF put])
    show "disjoint_paths (nm @ p @ [n]) (nm @ p @ m # q)" using that unfolding disjoint_paths_def by simp
  qed
  have absent: "tree_lookup (nm @ p @ [m]) s = None" if "m \<in> fst ` set r" for m
  proof -
    have "m \<noteq> n" using that wf(2) by blast
    moreover have "tree_lookup (nm @ p @ [m]) t = None" using 6(7) that by auto
    ultimately show ?thesis using other[of m "[]"] by simp
  qed
  have absents: "\<forall>m\<in>fst ` set r. tree_lookup (nm @ p @ [m]) s = None" by (intro ballI absent)
  have ih: "copy_inv nm t0 t' \<and> is_dir_at t' (nm @ p) \<and> (\<forall>q d. file_at t' (nm @ p @ q) d \<longleftrightarrow> file_at s (nm @ p @ q) d \<or> file_at (Dir r) q d)"
    by (rule 6(1)[OF 6(2) inv s(2) wf(1) dir absents])
  have "file_at t' (nm @ p @ q) d \<longleftrightarrow> file_at t (nm @ p @ q) d \<or> file_at (Dir ((n, File data) # r)) q d" for q d
  proof (cases q)
    case Nil
    then show ?thesis using ih 6(6) by (auto simp: file_at_def is_dir_at_iff)
  next
    case (Cons m q')
    show ?thesis
    proof (cases "m = n")
      case True
      have "tree_lookup ((nm @ p @ [n]) @ q') s = tree_lookup q' (File data)" unfolding tree_lookup_append[of "nm @ p @ [n]"] tree.look_put[OF put] by simp
      moreover have "tree_lookup ((nm @ p @ [n]) @ q') t = None" unfolding tree_lookup_append[of "nm @ p @ [n]"] using free by simp
      moreover have "\<not> file_at (Dir r) (n # q') d" by (rule no_file_at[OF wf(2)])
      ultimately show ?thesis using Cons True ih by (simp add: file_at_def)
    next
      case False
      then show ?thesis using Cons other[OF False, of q'] ih by (simp add: file_at_def)
    qed
  qed
  then show ?case using ih by blast
next
  case (7 dst n l r)
  have wf: "tree_wf (Dir r)" "n \<notin> fst ` set r" using 7(5) by auto
  have "file_at (Dir ((n, Special l) # r)) q d \<longleftrightarrow> file_at (Dir r) q d" for q d
  proof (cases q)
    case (Cons m q')
    have "map_of r n = None" using wf(2) by (simp add: map_of_eq_None_iff)
    then show ?thesis using Cons by (cases q') (auto simp: file_at_def)
  qed (simp add: file_at_def)
  then show ?case using 7(1)[of p t t'] 7(2-7) wf(1) by auto
qed

section \<open>All packages\<close>

definition package_path :: "string \<times> dep_node \<Rightarrow> string list" where
  "package_path kn = vmods (fst kn) @ name_parts (install_name_of (snd kn))"

definition copied :: "(dep_node \<Rightarrow> ftree option) \<Rightarrow> string list \<Rightarrow> string \<times> dep_node \<Rightarrow> ftree \<Rightarrow> bool" where
  "copied source nm kn t \<longleftrightarrow> (\<forall>v. source (snd kn) = Some v \<longrightarrow>
     is_dir_at t (nm @ package_path kn) \<and> (\<forall>q d. file_at t (nm @ package_path kn @ q) d \<longleftrightarrow> file_at v q d))"

lemma virtual_dir_path: "virtual_dir nm (fst kn) (install_name_of (snd kn)) = nm @ package_path kn"
  by (simp add: virtual_dir_def virtual_modules_def package_path_def)

lemma package_path_ne [simp]: "package_path kn \<noteq> []"
  by (simp add: package_path_def)

lemma related_butlast: "prefix q (butlast p) \<Longrightarrow> related p q"
  unfolding related_def by (metis append_butlast_last_id butlast.simps(1) prefix_def prefix_order.order_trans)

lemma package_runs: "runs (copy_inv nm t0) (puts nm (within (related (package_path kn)))) (link_package source nm kn res)"
proof -
  have b: "butlast (nm @ package_path kn) = nm @ butlast (package_path kn)" by (simp add: butlast_append)
  have "runs (copy_inv nm t0) (puts nm (within (related (package_path kn)))) (act_step Link_io_failed (make_dirs (nm @ butlast (package_path kn))))"
    by (rule copy_dirs_runs) (rule related_butlast)
  moreover have "runs (copy_inv nm t0) (puts nm (within (related (package_path kn)))) (hardlink_dir (nm @ package_path kn) v)" for v
    by (rule copy_runs(1)[OF refl])
  ultimately show ?thesis unfolding link_package_def Let_def virtual_dir_path b
    by (auto split: option.split intro!: runs_return runs_bind[OF closed_within])
qed

lemma package_copied:
  assumes inv: "copy_inv nm t0 t" and absent: "tree_lookup (nm @ [''.oath'', virtual_key_component (fst kn)]) t = None"
    and wf: "\<And>v. source (snd kn) = Some v \<Longrightarrow> tree_wf v" and run: "link_package source nm kn res t = (Inr r, t')"
  shows "copied source nm kn t'"
proof (cases "source (snd kn)")
  case None
  then show ?thesis by (simp add: copied_def)
next
  case (Some v)
  have b: "butlast (nm @ package_path kn) = nm @ butlast (package_path kn)" by (simp add: butlast_append)
  obtain s s2 where s: "make_dirs (nm @ butlast (package_path kn)) t = Some s" "hardlink_dir (nm @ package_path kn) v s = (Inr (), s2)" "t' = s2"
    using run Some unfolding link_package_def Let_def virtual_dir_path b by (auto simp: act_bind_Inr act_step_Inr act_return_def)
  note dirs = copy_dirs_runs[of "butlast (package_path kn)" "related (package_path kn)" nm t0 Link_io_failed, OF related_butlast]
  have st: "act_step Link_io_failed (make_dirs (nm @ butlast (package_path kn))) t = (Inr (), s)" using s(1) by (simp add: act_step_def)
  have inv2: "copy_inv nm t0 s" by (rule runs_keeps[OF dirs inv st closed_within inv])
  have free: "tree_lookup (nm @ package_path kn) t = None"
    using absent tree_lookup_append[of "nm @ [''.oath'', virtual_key_component (fst kn)]" "''node_modules'' # name_parts (install_name_of (snd kn))" t]
    by (simp add: package_path_def)
  have dirs2: "runs (copy_inv nm t0) (puts nm (within (\<lambda>q. prefix q (butlast (package_path kn))))) (act_step Link_io_failed (make_dirs (nm @ butlast (package_path kn))))"
    by (rule copy_dirs_runs)
  have cl: "closed (\<lambda>t. tree_lookup (nm @ package_path kn) t = None) (puts nm (within (\<lambda>q. prefix q (butlast (package_path kn)))))"
  proof (rule closed_absent)
    have "\<not> prefix (package_path kn) (butlast (package_path kn))"
      using prefix_length_le[of "package_path kn" "butlast (package_path kn)"] by (auto simp: package_path_def)
    then show "\<not> within (\<lambda>q. prefix q (butlast (package_path kn))) (package_path kn) v x" for v x by (simp add: within_def)
  qed
  have "tree_lookup (nm @ package_path kn) s = None" by (rule runs_keeps[OF dirs2 inv st cl free])
  from copy_files(1)[OF refl package_path_ne inv2 s(2) wf[OF Some] this] show ?thesis using Some s(3) by (simp add: copied_def)
qed

text \<open>A place no package of the list is related to stays as it was.\<close>

definition apart :: "(string \<times> dep_node) list \<Rightarrow> string list \<Rightarrow> bool" where
  "apart kns q \<longleftrightarrow> (\<forall>kn\<in>set kns. \<not> related (package_path kn) q)"

lemma packages_runs: "runs (copy_inv nm t0) (puts nm (within (\<lambda>q. \<not> apart kns q))) (act_fold (link_package source nm) kns res)"
proof (rule runs_fold[OF closed_within])
  fix kn res assume "kn \<in> set kns"
  then show "runs (copy_inv nm t0) (puts nm (within (\<lambda>q. \<not> apart kns q))) (link_package source nm kn res)"
    by (intro runs_mono[OF package_runs]) (auto simp: apart_def within_def elim!: puts_mono)
qed

lemma packages_keep:
  assumes "copy_inv nm t0 t" "act_fold (link_package source nm) kns res t = (r, t')" "apart kns q"
  shows "(tree_lookup (nm @ q) t = None \<longrightarrow> tree_lookup (nm @ q) t' = None) \<and> file_at t' (nm @ q) d = file_at t (nm @ q) d"
proof
  show "tree_lookup (nm @ q) t = None \<longrightarrow> tree_lookup (nm @ q) t' = None"
  proof
    assume n: "tree_lookup (nm @ q) t = None"
    show "tree_lookup (nm @ q) t' = None"
      by (rule runs_keeps[OF packages_runs assms(1,2) closed_absent n]) (simp add: within_def assms(3))
  qed
  show "file_at t' (nm @ q) d = file_at t (nm @ q) d"
    unfolding file_at_def
    by (rule runs_keeps[OF packages_runs assms(1,2) closed_file[where b = "tree_lookup (nm @ q) t = Some (File d)"]])
      (simp_all add: within_def assms(3))
qed

lemma vkey_inj: "k \<noteq> [] \<Longrightarrow> k' \<noteq> [] \<Longrightarrow> virtual_key_component k = virtual_key_component k' \<longleftrightarrow> k = k'"
  using vkey.enc_inj by blast

lemma packages_apart: "k \<noteq> [] \<Longrightarrow> [] \<notin> fst ` set kns \<Longrightarrow> k \<notin> fst ` set kns \<Longrightarrow> apart kns (''.oath'' # virtual_key_component k # q)"
  unfolding apart_def related_def package_path_def by (auto simp: vkey_inj image_iff) (metis vkey_inj fst_conv)+

lemma packages_copied:
  assumes "copy_inv nm t0 t" "act_fold (link_package source nm) kns res t = (Inr r, t')" "distinct (map fst kns)" "[] \<notin> fst ` set kns"
    and "\<And>kn v. kn \<in> set kns \<Longrightarrow> source (snd kn) = Some v \<Longrightarrow> tree_wf v"
    and "\<And>kn. kn \<in> set kns \<Longrightarrow> tree_lookup (nm @ [''.oath'', virtual_key_component (fst kn)]) t = None"
  shows "\<forall>kn\<in>set kns. copied source nm kn t'"
  using assms
proof (induction kns arbitrary: t res)
  case (Cons kn kns)
  obtain res1 s where s: "link_package source nm kn res t = (Inr res1, s)" "act_fold (link_package source nm) kns res1 s = (Inr r, t')"
    using Cons.prems(2) by (auto simp: act_bind_Inr)
  have one: "act_fold (link_package source nm) [kn] res t = (Inr res1, s)" using s(1) by (simp add: act_bind_def act_return_def)
  have inv: "copy_inv nm t0 s" by (rule runs_keeps[OF package_runs Cons.prems(1) s(1) closed_within Cons.prems(1)])
  have here: "copied source nm kn s" 
    by (rule package_copied[OF Cons.prems(1) Cons.prems(6)[OF list.set_intros(1)] Cons.prems(5)[OF list.set_intros(1)] s(1)])
  have k: "fst kn \<noteq> []" "fst kn \<notin> fst ` set kns" using Cons.prems(3,4) by auto
  have "tree_lookup (nm @ [''.oath'', virtual_key_component (fst kn')]) s = None" if kn': "kn' \<in> set kns" for kn'
  proof -
    have m: "fst kn' \<in> fst ` set kns" using kn' by (rule imageI)
    have "[] \<notin> fst ` set kns" using Cons.prems(4) by simp
    then have ne: "fst kn' \<noteq> []" "fst kn' \<noteq> fst kn" using k(2) m by metis+
    then have "apart [kn] [''.oath'', virtual_key_component (fst kn')]"
      using packages_apart[of "fst kn'" "[kn]" "[]"] k(1) by auto
    then show ?thesis using packages_keep[OF Cons.prems(1) one] Cons.prems(6) kn' by auto
  qed
  note absent = this
  have wf: "tree_wf v" if "kn \<in> set kns" "source (snd kn) = Some v" for kn v
    by (rule Cons.prems(5)[OF _ that(2)]) (simp add: that(1))
  have rest: "\<forall>kn\<in>set kns. copied source nm kn t'"
    by (rule Cons.IH[OF inv s(2) _ _ wf absent]) (use Cons.prems(3,4) in simp_all)
  have "copied source nm kn t'"
    unfolding copied_def
  proof (intro allI impI conjI)
    fix v assume v: "source (snd kn) = Some v"
    show "is_dir_at t' (nm @ package_path kn)"
      by (rule runs_keeps[OF packages_runs inv s(2) closed_is_dir]) (use here v in \<open>simp add: copied_def\<close>)
    fix q d
    have "apart kns (package_path kn @ q)"
      using packages_apart[OF k(1) _ k(2), of "''node_modules'' # name_parts (install_name_of (snd kn)) @ q"] Cons.prems(4) by (simp add: package_path_def)
    then show "file_at t' (nm @ package_path kn @ q) d = file_at v q d"
      using packages_keep[OF inv s(2)] here v by (simp add: copied_def)
  qed
  then show ?case using rest by simp
qed simp

text \<open>A package that ships no \<^verbatim>\<open>node_modules\<close> of its own gets none by being copied.\<close>

lemma copy_named_runs:
  assumes "v = Dir es"
  shows "runs (copy_inv nm t0) (puts nm (within (\<lambda>q. prefix q p \<or> (\<exists>n\<in>fst ` set es. related (p @ [n]) q)))) (hardlink_dir (nm @ p) v)"
  unfolding assms hardlink_dir.simps
  by (intro runs_bind[OF closed_within] copy_dirs_runs copy_runs(2)[OF refl]) auto

lemma package_no_modules_runs:
  assumes "source (snd kn) = Some (Dir es)" "''node_modules'' \<notin> fst ` set es"
  shows "runs (copy_inv nm t0) (puts nm (within (\<lambda>q. \<not> prefix (package_path kn @ [''node_modules'']) q))) (link_package source nm kn res)"
proof -
  let ?S = "\<lambda>q. \<not> prefix (package_path kn @ [''node_modules'']) q"
  have b: "butlast (nm @ package_path kn) = nm @ butlast (package_path kn)" by (simp add: butlast_append)
  have short: "?S q" if "prefix q (package_path kn)" for q
    using prefix_length_le[OF that] prefix_length_le[of "package_path kn @ [''node_modules'']" q] by auto
  have other: "?S q" if "n \<in> fst ` set es" "related (package_path kn @ [n]) q" for n q
  proof
    assume "prefix (package_path kn @ [''node_modules'']) q"
    then have "prefix (package_path kn @ [''node_modules'']) (package_path kn @ [n]) \<or> prefix (package_path kn @ [n]) (package_path kn @ [''node_modules''])"
      using that(2) unfolding related_def by (meson prefix_order.trans prefix_same_cases)
    then have "n = ''node_modules''" by auto
    then show False using that(1) assms(2) by blast
  qed
  have "runs (copy_inv nm t0) (puts nm (within ?S)) (act_step Link_io_failed (make_dirs (nm @ butlast (package_path kn))))"
    by (rule copy_dirs_runs, rule short) (meson prefix_order.trans prefixeq_butlast)
  moreover have "runs (copy_inv nm t0) (puts nm (within ?S)) (hardlink_dir (nm @ package_path kn) (Dir es))"
    by (rule runs_mono[OF copy_named_runs[OF refl]], assumption, erule puts_mono, unfold within_def) (use short other in blast)
  ultimately show ?thesis unfolding link_package_def Let_def virtual_dir_path b
    using assms(1) by (auto intro!: runs_return runs_bind[OF closed_within])
qed

lemma packages_no_modules:
  assumes "copy_inv nm t0 t" "act_fold (link_package source nm) kns res t = (r, t')" "distinct (map fst kns)" "[] \<notin> fst ` set kns"
    and kn: "kn \<in> set kns" "source (snd kn) = Some (Dir es)" "''node_modules'' \<notin> fst ` set es"
    and none: "tree_lookup (nm @ package_path kn @ ''node_modules'' # x) t = None"
  shows "tree_lookup (nm @ package_path kn @ ''node_modules'' # x) t' = None"
proof -
  let ?S = "\<lambda>q. \<not> prefix (package_path kn @ [''node_modules'']) q"
  have "runs (copy_inv nm t0) (puts nm (within ?S)) (link_package source nm kn' res)" if "kn' \<in> set kns" for kn' res
  proof (cases "fst kn' = fst kn")
    case True
    then have "kn' = kn" using assms(3) kn(1) that by (metis eq_key_imp_eq_value prod.collapse)
    then show ?thesis using package_no_modules_runs[where source = source, OF kn(2,3)] by simp
  next
    case False
    have "fst kn \<noteq> []" "fst kn' \<noteq> []" using assms(4) kn(1) that by (metis image_eqI)+
    then have "\<not> related (package_path kn') q" if "prefix (package_path kn @ [''node_modules'']) q" for q
      using that False vkey_inj[of "fst kn" "fst kn'"]
      by (cases q; cases "tl q") (auto simp: related_def package_path_def prefix_Cons)
    then show ?thesis by (intro runs_mono[OF package_runs]) (auto simp: within_def elim!: puts_mono)
  qed
  then have "runs (copy_inv nm t0) (puts nm (within ?S)) (act_fold (link_package source nm) kns res)"
    by (rule runs_fold[OF closed_within])
  from runs_keeps[OF this assms(1,2) closed_absent none] show ?thesis by (simp add: within_def)
qed

end
