(* ===== verification/Link_Resolve.thy ===== *)
theory Link_Resolve
  imports Link_Layout
begin

text \<open>
  The tree \<open>link_all\<close> leaves is the layout of the plan: from the states between the phases and what each later phase leaves
  alone follows where every package, every link and the fingerprint is at the end, and from that where the links lead.
\<close>

section \<open>Programs and the fingerprint\<close>

definition bin_texts :: "string list \<Rightarrow> string \<Rightarrow> bool" where
  "bin_texts q w \<longleftrightarrow> (\<exists>b. q = [''.bin'', b]) \<and> inside_text 1 w"

definition late_place :: "string list \<Rightarrow> bool" where
  "late_place q \<longleftrightarrow> any_place q \<or> (\<exists>b. q = [''.bin'', b])"

definition late_inv :: "string list \<Rightarrow> ftree \<Rightarrow> ftree \<Rightarrow> bool" where
  "late_inv nm t0 t \<longleftrightarrow> build_inv nm late_place t0 t \<and> is_dir_at t (nm @ [''.bin''])"

definition writes_manifest :: "string list \<Rightarrow> ftree \<Rightarrow> ftree option \<Rightarrow> bool" where
  "writes_manifest q v x \<longleftrightarrow> q = [''.oath'', ''.link-manifest''] \<and> (\<exists>d. v = File d)"

lemma closed_late: "closed (late_inv nm t0) (puts nm (adds bin_texts D))"
  unfolding late_inv_def[abs_def]
  by (rule closed_conj[OF closed_adds closed_is_dir]) (auto simp: bin_texts_def late_place_def)

lemma late_bins_runs:
  assumes "names_ok graph" "nk \<in> set (lp_hoisted (build_plan graph))"
  shows "runs (late_inv nm t0) (puts nm (adds bin_texts (\<lambda>_. False))) (link_bins parse graph nm nk res)"
proof (rule link_bins_runs[OF closed_late _ assms(1) _ assms(2)])
  show "stage_inv nm late_place t0 t" if "late_inv nm t0 t" for t using that by (simp add: late_inv_def build_inv_def)
  fix t q b w
  assume t: "late_inv nm t0 t" "direct t nm [''.bin''] \<longrightarrow> q = [''.bin'', b]" "inside_text 1 w"
  have "tree_lookup (nm @ r) t \<noteq> Some (Special (Some w'))" if "prefix r [''.bin'']" for r w'
    using that t(1) by (cases r) (auto simp: late_inv_def build_inv_def stage_inv_def is_dir_at_iff)
  then show "adds bin_texts (\<lambda>_. False) q (Special (Some w)) None" using t(2,3) by (auto simp: adds_def bin_texts_def direct_def)
qed

lemma no_place_manifest: "prefix q [''.oath'', ''.link-manifest''] \<Longrightarrow> late_place q \<Longrightarrow> q = [''.oath'']"
proof -
  assume q: "prefix q [''.oath'', ''.link-manifest'']" "late_place q"
  have "length q \<le> 2" using prefix_length_le[OF q(1)] by simp
  then have "top_place q \<or> (\<exists>b. q = [''.bin'', b])"
    using q(2) nested_place_length beside_place_length unfolding late_place_def any_place_def early_place_def by fastforce
  moreover have "q \<noteq> []" using calculation name_parts_ne unfolding top_place_def by (metis list.distinct(1))
  ultimately show "q = [''.oath'']" using q(1) top_place_length[of q] by (auto simp: prefix_Cons)
qed

lemma late_write_runs: "runs (late_inv nm t0) (puts nm writes_manifest) (act_step e (fs_write (nm @ [''.oath'', ''.link-manifest'']) d))"
proof (rule runs_step)
  fix t t' assume t: "late_inv nm t0 t" "fs_write (nm @ [''.oath'', ''.link-manifest'']) d t = Some t'"
  have "direct t nm [''.oath'', ''.link-manifest'']"
    using direct_in_stage[OF _ no_place_manifest] t(1) unfolding late_inv_def by blast
  then show "(puts nm writes_manifest)\<^sup>*\<^sup>* t t'"
    using t by (intro fs_write_puts[of nm late_place t0 t]) (auto simp: late_inv_def build_inv_def writes_manifest_def)
qed

section \<open>The states between the phases\<close>

abbreviation step_hoist where "step_hoist graph nm \<equiv> puts nm (adds (hoisted_texts graph) scope_places)"
abbreviation step_nest where "step_nest graph nm \<equiv> puts nm (adds (nested_texts graph) (nested_dirs graph))"
abbreviation step_dep where "step_dep graph nm \<equiv> puts nm (adds (beside_texts (dep_edges graph)) beside_dirs)"
abbreviation step_peer where "step_peer graph nm \<equiv> puts nm (adds (beside_texts (peer_edges graph)) beside_dirs)"
abbreviation step_bindir where "step_bindir nm \<equiv> puts nm (adds (\<lambda>_ _. False) (\<lambda>q. q = [''.bin'']))"
abbreviation step_bin where "step_bin nm \<equiv> puts nm (adds bin_texts (\<lambda>_. False))"
abbreviation step_write where "step_write nm \<equiv> puts nm writes_manifest"

text \<open>What the linker needs of its input: a checked graph, keys that tell packages apart, and packages as a file system has them.\<close>

definition link_ready :: "dep_graph \<Rightarrow> (dep_node \<Rightarrow> ftree option) \<Rightarrow> bool" where
  "link_ready graph source \<longleftrightarrow> hm_wf (dg_nodes graph) \<and> [] \<notin> fst ` set (dg_nodes graph)
     \<and> (\<forall>kn\<in>set (dg_nodes graph). install_name_of (snd kn) \<noteq> ''.bin'' \<and> (\<forall>v. source (snd kn) = Some v \<longrightarrow> tree_wf v))"

lemma act_fold_runs:
  assumes "closed I R" "\<And>x s. x \<in> set xs \<Longrightarrow> runs I R (f x s)" "act_fold f xs s t = (Inr r, t')" "I t"
  shows "R\<^sup>*\<^sup>* t t' \<and> I t'"
proof -
  have "runs I R (act_fold f xs s)" by (rule runs_fold[OF assms(1,2)])
  then have "R\<^sup>*\<^sup>* t (snd (act_fold f xs s t))" using assms(4) unfolding runs_def by blast
  then have "R\<^sup>*\<^sup>* t t'" using assms(3) by simp
  then show ?thesis using closed_rtranclp[OF assms(1) _ assms(4)] by blast
qed

lemma act_step_runs:
  assumes "closed I R" "runs I R (act_step e f)" "f t = Some t'" "I t" shows "R\<^sup>*\<^sup>* t t' \<and> I t'"
proof -
  have "R\<^sup>*\<^sup>* t (snd (act_step e f t))" using assms(2,4) unfolding runs_def by blast
  then have "R\<^sup>*\<^sup>* t t'" using assms(3) by (simp add: act_step_def)
  then show ?thesis using closed_rtranclp[OF assms(1) _ assms(4)] by blast
qed

definition stage_states :: "(dep_node \<Rightarrow> ftree option) \<Rightarrow> dep_graph \<Rightarrow> string list \<Rightarrow> ftree \<Rightarrow> ftree list \<Rightarrow> bool" where
  "stage_states source graph nm t0 ts \<longleftrightarrow> (\<exists>t1 t2 t3 t4 t5 t6 t7 t8. ts = [t1, t2, t3, t4, t5, t6, t7, t8]
     \<and> copy_inv nm t0 t1 \<and> (\<forall>kn\<in>set (dg_nodes graph). copied source nm kn t1)
     \<and> (\<forall>q. q \<noteq> [] \<and> q \<noteq> [''.oath''] \<and> apart (dg_nodes graph) q \<longrightarrow> tree_lookup (nm @ q) t1 = None)
     \<and> (\<forall>kn\<in>set (dg_nodes graph). \<forall>es x. source (snd kn) = Some (Dir es) \<and> ''node_modules'' \<notin> fst ` set es
          \<longrightarrow> tree_lookup (nm @ package_path kn @ ''node_modules'' # x) t1 = None)
     \<and> (step_hoist graph nm)\<^sup>*\<^sup>* t1 t2 \<and> build_inv nm early_place t0 t2
     \<and> (step_nest graph nm)\<^sup>*\<^sup>* t2 t3 \<and> build_inv nm early_place t0 t3
     \<and> (step_dep graph nm)\<^sup>*\<^sup>* t3 t4 \<and> build_inv nm any_place t0 t4
     \<and> (step_peer graph nm)\<^sup>*\<^sup>* t4 t5 \<and> build_inv nm any_place t0 t5
     \<and> (step_bindir nm)\<^sup>*\<^sup>* t5 t6 \<and> late_inv nm t0 t6
     \<and> (step_bin nm)\<^sup>*\<^sup>* t6 t7 \<and> late_inv nm t0 t7
     \<and> (step_write nm)\<^sup>*\<^sup>* t7 t8 \<and> late_inv nm t0 t8)"

lemma closed_write: "closed (late_inv nm t0) (puts nm writes_manifest)"
  unfolding late_inv_def[abs_def]
  by (rule closed_conj[OF closed_build_inv closed_is_dir]) (auto simp: writes_manifest_def)

lemma apart_bin: "apart kns [''.bin'']"
  by (auto simp: apart_def related_def package_path_def)

lemma bin_stays_absent:
  assumes ok: "names_ok graph" and nb: "\<And>kn. kn \<in> set (dg_nodes graph) \<Longrightarrow> install_name_of (snd kn) \<noteq> ''.bin''"
  shows "closed (\<lambda>t. tree_lookup (nm @ [''.bin'']) t = None) (step_hoist graph nm)"
    "closed (\<lambda>t. tree_lookup (nm @ [''.bin'']) t = None) (step_nest graph nm)"
    "closed (\<lambda>t. tree_lookup (nm @ [''.bin'']) t = None) (step_dep graph nm)"
    "closed (\<lambda>t. tree_lookup (nm @ [''.bin'']) t = None) (step_peer graph nm)"
proof -
  have "n \<noteq> ''.bin''" if "(n, k) \<in> set (lp_hoisted (build_plan graph))" for n k
    using hoisted_in_plan(2)[OF that] nb by fastforce
  then have "\<not> hoisted_texts graph [''.bin''] w" for w
    using plan_names_valid(1)[OF ok] valid_name_shape unfolding hoisted_texts_def by fastforce
  then show "closed (\<lambda>t. tree_lookup (nm @ [''.bin'']) t = None) (step_hoist graph nm)"
    by (intro closed_absent) (auto simp: adds_def scope_places_def)
  show "closed (\<lambda>t. tree_lookup (nm @ [''.bin'']) t = None) (step_nest graph nm)"
    by (intro closed_absent) (auto simp: adds_def nested_dirs_def nested_texts_def)
  show "closed (\<lambda>t. tree_lookup (nm @ [''.bin'']) t = None) (step_dep graph nm)" "closed (\<lambda>t. tree_lookup (nm @ [''.bin'']) t = None) (step_peer graph nm)"
    by (intro closed_absent; auto simp: adds_def beside_dirs_def beside_texts_def)+
qed

lemma build_stage_states:
  assumes dir: "is_dir_at t0 project" and free: "tree_lookup (project @ [n]) t0 = None" and ok: "names_ok graph"
    and ready: "link_ready graph source" and run: "build_stage source parse graph (project @ [n]) t0 = (Inr res, t)"
  shows "\<exists>ts. stage_states source graph (project @ [n]) t0 ts \<and> last ts = t
    \<and> (\<exists>r1 r2. act_fold (link_hoisted graph (project @ [n])) (lp_hoisted (build_plan graph)) r1 (ts ! 0) = (Inr r2, ts ! 1))
    \<and> (\<exists>r1 r2. act_fold (link_nested graph (project @ [n])) (lp_nested (build_plan graph)) r1 (ts ! 1) = (Inr r2, ts ! 2))
    \<and> (\<exists>r1 r2. act_fold (link_dependencies graph (project @ [n])) (dg_nodes graph) r1 (ts ! 2) = (Inr r2, ts ! 3))
    \<and> fs_write ((project @ [n]) @ [''.oath'', ''.link-manifest'']) (link_manifest graph) (ts ! 6) = Some t"
proof -
  let ?nm = "project @ [n]"
  have nb: "\<And>kn. kn \<in> set (dg_nodes graph) \<Longrightarrow> install_name_of (snd kn) \<noteq> ''.bin''" using ready by (auto simp: link_ready_def)
  obtain s0 t1 t2 t3 t4 t5 t6 t7 r1 r2 r3 r4 r5 r6 where
    s0: "make_dirs (?nm @ [''.oath'']) t0 = Some s0"
    and p1: "act_fold (link_package source ?nm) (dg_nodes graph) default_link_result s0 = (Inr r1, t1)"
    and p2: "act_fold (link_hoisted graph ?nm) (lp_hoisted (build_plan graph)) r1 t1 = (Inr r2, t2)"
    and p3: "act_fold (link_nested graph ?nm) (lp_nested (build_plan graph)) r2 t2 = (Inr r3, t3)"
    and p4: "act_fold (link_dependencies graph ?nm) (dg_nodes graph) r3 t3 = (Inr r4, t4)"
    and p5: "act_fold (link_peers graph ?nm) (dg_nodes graph) r4 t4 = (Inr r5, t5)"
    and p6: "make_dirs (?nm @ [''.bin'']) t5 = Some t6"
    and p7: "act_fold (link_bins parse graph ?nm) (lp_hoisted (build_plan graph)) r5 t6 = (Inr r6, t7)"
    and p8: "fs_write (?nm @ [''.oath'', ''.link-manifest'']) (link_manifest graph) t7 = Some t"
    using run unfolding build_stage_def Let_def act_bind_Inr act_step_Inr act_return_def by auto
  have first: "copy_inv ?nm t0 s0" "tree_lookup ?nm s0 = Some (Dir [(''.oath'', Dir [])])"
    using tripleD[OF stage_first[OF dir free, of Link_io_failed] refl, of "()" s0] s0 by (simp_all add: act_step_def)
  have none: "tree_lookup (?nm @ q) s0 = None" if "q \<noteq> []" "q \<noteq> [''.oath'']" for q
    unfolding tree_lookup_append[of ?nm] first(2) using that by (cases q; cases "tl q") auto
  have i1: "copy_inv ?nm t0 t1"
    by (rule conjunct2[OF act_fold_runs[OF closed_within package_runs[THEN runs_mono] p1 first(1)]]) (auto simp: within_def elim!: puts_mono)
  have c1: "\<forall>kn\<in>set (dg_nodes graph). copied source ?nm kn t1"
    by (rule packages_copied[OF first(1) p1]) (use ready none in \<open>auto simp: link_ready_def hm_wf_def\<close>)
  have a1: "tree_lookup (?nm @ q) t1 = None" if "q \<noteq> []" "q \<noteq> [''.oath'']" "apart (dg_nodes graph) q" for q
    using packages_keep[OF first(1) p1 that(3)] none[OF that(1,2)] by blast
  have m1: "tree_lookup (?nm @ package_path kn @ ''node_modules'' # x) t1 = None"
    if "kn \<in> set (dg_nodes graph)" "source (snd kn) = Some (Dir es)" "''node_modules'' \<notin> fst ` set es" for kn es x
    by (rule packages_no_modules[OF first(1) p1 _ _ that none]) (use ready in \<open>auto simp: link_ready_def hm_wf_def package_path_def\<close>)
  have e1: "build_inv ?nm early_place t0 t1" by (rule build_inv_mono[OF i1]) simp
  note h2 = act_fold_runs[OF closed_hoisted[OF ok] link_hoisted_runs[OF ok] p2 e1]
  note h3 = act_fold_runs[OF closed_nested[OF ok] link_nested_runs[OF ok] p3 conjunct2[OF h2]]
  have e3: "build_inv ?nm any_place t0 t3" by (rule build_inv_mono[OF conjunct2[OF h3]]) (auto simp: any_place_def)
  note h4 = act_fold_runs[OF closed_deps[OF ok] link_dependencies_runs[OF ok] p4 e3]
  note h5 = act_fold_runs[OF closed_peers[OF ok] link_peers_runs[OF ok] p5 conjunct2[OF h4]]
  note nbs = bin_stays_absent[OF ok nb, of ?nm]
  have b1: "tree_lookup (?nm @ [''.bin'']) t1 = None" by (rule a1[OF _ _ apart_bin]) simp_all
  let ?absent = "\<lambda>t. tree_lookup (?nm @ [''.bin'']) t = None"
  have b2: "?absent t2" by (rule closed_rtranclp[where I = ?absent, OF nbs(1) conjunct1[OF h2] b1])
  have b3: "?absent t3" by (rule closed_rtranclp[where I = ?absent, OF nbs(2) conjunct1[OF h3] b2])
  have b4: "?absent t4" by (rule closed_rtranclp[where I = ?absent, OF nbs(3) conjunct1[OF h4] b3])
  have b5: "?absent t5" by (rule closed_rtranclp[where I = ?absent, OF nbs(4) conjunct1[OF h5] b4])
  have i5: "build_inv ?nm late_place t0 t5" by (rule build_inv_mono[OF conjunct2[OF h5]]) (auto simp: late_place_def)
  have d5: "direct t5 ?nm [''.bin'']"
    using i5 b5 unfolding direct_def by (auto simp: prefix_Cons build_inv_def stage_inv_def is_dir_at_iff)
  have st5: "stage_inv ?nm late_place t0 t5" using i5 by (simp add: build_inv_def)
  have h6: "(step_bindir ?nm)\<^sup>*\<^sup>* t5 t6"
    by (rule make_dirs_puts[OF st5 _ p6]) (use d5 in \<open>auto simp: adds_def prefix_Cons\<close>)
  have "build_inv ?nm late_place t0 t6" by (rule closed_rtranclp[OF closed_adds h6 i5]) simp
  moreover have "is_dir_at t6 (?nm @ [''.bin''])" using make_dirs_makes[OF st5 d5 p6 b5] by (simp add: is_dir_at_iff)
  ultimately have i6: "late_inv ?nm t0 t6" by (simp add: late_inv_def)
  note h7 = act_fold_runs[OF closed_late late_bins_runs[OF ok] p7 i6]
  note h8 = act_step_runs[OF closed_write late_write_runs p8 conjunct2[OF h7]]
  let ?ts = "[t1, t2, t3, t4, t5, t6, t7, t]"
  have "stage_states source graph ?nm t0 ?ts"
    unfolding stage_states_def using i1 c1 a1 m1 h2 h3 h4 h5 h6 i6 h7 h8 by blast
  moreover have "?ts ! 0 = t1" "?ts ! 1 = t2" "?ts ! 2 = t3" "?ts ! 3 = t4" "?ts ! 6 = t7" "last ?ts = t" by simp_all
  ultimately show ?thesis using p2 p3 p4 p8 by metis
qed

end
