(* ===== verification/Link_Result.thy ===== *)
theory Link_Result
  imports Link_Resolve
begin

text \<open>
  What a successful \<open>link_all\<close> leaves in \<open>node_modules\<close>: every package with exactly the files of its store entry, a link at the top for
  every hoisted name, and a link beside each package for its dependencies, each of which leads to the package it is for.
\<close>

section \<open>Later phases keep what is there\<close>

lemma closed_files:
  assumes "\<And>q v x. A q v x \<Longrightarrow> (x = None \<and> (\<forall>d. v \<noteq> File d)) \<or> q = m" "p \<noteq> m"
  shows "closed (\<lambda>t. file_at t (nm @ p) d = b) (puts nm A)"
  unfolding closed_def
proof (intro allI impI)
  fix t t' assume t: "file_at t (nm @ p) d = b" and "puts nm A t t'"
  then obtain q v where q: "q \<noteq> []" "leaf v" "A q v (tree_lookup (nm @ q) t)" "\<forall>es. tree_lookup (nm @ q) t \<noteq> Some (Dir es)"
    "is_dir_at t (nm @ butlast q)" "tree_put (nm @ q) v t = Some t'" by (auto simp: puts_def)
  note put = put_leaf[OF q(6) q(2) q(4)]
  show "file_at t' (nm @ p) d = b"
  proof (cases "p = q")
    case True
    then show ?thesis using assms(1)[OF q(3)] assms(2) put(1) t by (auto simp: file_at_def)
  next
    case False
    show ?thesis
    proof (cases "strict_prefix p q")
      case True
      have "is_dir_at t (nm @ p)" by (rule strict_prefix_place[OF True q(5)])
      moreover have "is_dir_at t' (nm @ p)" by (rule put(2)) (use True in \<open>simp add: strict_prefix_same\<close>)
      ultimately show ?thesis using t by (auto simp: file_at_def is_dir_at_iff)
    next
      case False
      then show ?thesis using put(3)[of "nm @ p"] \<open>p \<noteq> q\<close> t by (simp add: file_at_def strict_prefix_same)
    qed
  qed
qed

lemma adds_no_file: "adds T D q v x \<Longrightarrow> (x = None \<and> (\<forall>d. v \<noteq> File d)) \<or> q = m"
  by (auto simp: adds_def)

lemma writes_manifest_place: "writes_manifest q v x \<Longrightarrow> (x = None \<and> (\<forall>d. v \<noteq> File d)) \<or> q = [''.oath'', ''.link-manifest'']"
  by (simp add: writes_manifest_def)

abbreviation grows :: "string list \<Rightarrow> ftree \<Rightarrow> ftree \<Rightarrow> bool" where
  "grows nm \<equiv> puts nm (\<lambda>q v x. (\<exists>T D. adds T D q v x) \<or> writes_manifest q v x)"

lemma adds_grow: "(puts nm (adds T D))\<^sup>*\<^sup>* t t' \<Longrightarrow> (grows nm)\<^sup>*\<^sup>* t t'"
  by (erule rtranclp_weaken, erule puts_mono) blast

lemma write_grows: "(step_write nm)\<^sup>*\<^sup>* t t' \<Longrightarrow> (grows nm)\<^sup>*\<^sup>* t t'"
  by (erule rtranclp_weaken, erule puts_mono) blast

lemma grows_keeps:
  assumes "(grows nm)\<^sup>*\<^sup>* t t'"
  shows "is_dir_at t d \<Longrightarrow> is_dir_at t' d"
    and "p \<noteq> [''.oath'', ''.link-manifest''] \<Longrightarrow> file_at t' (nm @ p) c = file_at t (nm @ p) c"
    and "p \<noteq> [''.oath'', ''.link-manifest''] \<Longrightarrow> tree_lookup (nm @ p) t = Some (Special w) \<Longrightarrow> tree_lookup (nm @ p) t' = Some (Special w)"
proof -
  show "is_dir_at t d \<Longrightarrow> is_dir_at t' d" by (rule closed_rtranclp[OF closed_is_dir assms])
  show "file_at t' (nm @ p) c = file_at t (nm @ p) c" if "p \<noteq> [''.oath'', ''.link-manifest'']"
    by (rule closed_rtranclp[OF closed_files[OF _ that] assms refl]) (auto simp: adds_def writes_manifest_def)
  show "tree_lookup (nm @ p) t' = Some (Special w)"
    if p: "p \<noteq> [''.oath'', ''.link-manifest'']" and "tree_lookup (nm @ p) t = Some (Special w)"
    by (rule closed_rtranclp[OF closed_kept assms that(2)]) (use p in \<open>auto simp: adds_def writes_manifest_def\<close>)
qed

section \<open>The links a phase makes\<close>

lemma symlink_makes:
  assumes "stage_inv nm L t0 t" "direct t nm (butlast p)" "symlink w (nm @ p) t = Some t'" "p \<noteq> []"
  shows "tree_lookup (nm @ p) t' = Some (Special (Some w))"
proof -
  obtain q where q: "tree_lookup (nm @ q) t = None" "tree_put (nm @ q) (Special (Some w)) t = Some t'" "q = p"
    using new_entry_inside[OF assms(1) assms(3)[unfolded symlink_def] assms(4)] assms(2) by blast
  then show ?thesis using put_leaf(1)[OF q(2)] by simp
qed

lemma follow_present:
  assumes "follow False k t cur (map Normal ns) = Inr r" "ns \<noteq> []" "direct t cur (butlast ns)"
  shows "tree_lookup (cur @ ns) t \<noteq> None"
  using assms
proof (induction ns arbitrary: cur)
  case (Cons n ns)
  show ?case
  proof (cases "ns = []")
    case True
    then show ?thesis using Cons.prems(1) by (cases "tree_lookup (cur @ [n]) t") simp_all
  next
    case False
    have nolink: "tree_lookup (cur @ [n]) t \<noteq> Some (Special (Some w))" for w
      using Cons.prems(3) False unfolding direct_def by (metis butlast.simps(2) append_Nil prefix_Cons prefix_bot.extremum)
    obtain es where es: "tree_lookup (cur @ [n]) t = Some (Dir es)"
      using Cons.prems(1) nolink False by (auto split: option.splits ftree.splits)
    then have "follow False k t (cur @ [n]) (map Normal ns) = Inr r" using Cons.prems(1) by simp
    moreover have "direct t (cur @ [n]) (butlast ns)"
      using Cons.prems(3) False unfolding direct_def by (auto simp: prefix_Cons)
    ultimately show ?thesis using Cons.IH[of "cur @ [n]"] False by simp
  qed
qed simp

lemma path_exists_present:
  assumes "path_exists t (nm @ p)" "is_dir_at t nm" "p \<noteq> []" "direct t nm (butlast p)"
  shows "tree_lookup (nm @ p) t \<noteq> None"
proof -
  obtain r where "real_path t (nm @ p) = Inr r" using assms(1) by (auto simp: path_exists_def is_ok_def split: sum.splits)
  then have "follow False symlink_limit t nm (map Normal p) = Inr r"
    using follow_dirs[of t "[]" nm False symlink_limit "map Normal p"] assms(2) by (simp add: real_path_def)
  from follow_present[OF this assms(3,4)] show ?thesis .
qed

lemma closed_present: "closed (\<lambda>t. tree_lookup p t \<noteq> None) (puts nm A)"
  unfolding closed_def
proof (intro allI impI)
  fix t t' assume p: "tree_lookup p t \<noteq> None" and "puts nm A t t'"
  then obtain q v where q: "leaf v" "\<forall>es. tree_lookup (nm @ q) t \<noteq> Some (Dir es)" "tree_put (nm @ q) v t = Some t'" by (auto simp: puts_def)
  note put = put_leaf[OF q(3) q(1) q(2)]
  show "tree_lookup p t' \<noteq> None"
    using put(1) put(2)[of p] put(3)[of p] p by (cases "p = nm @ q"; cases "strict_prefix p (nm @ q)") (auto simp: is_dir_at_iff)
qed

definition links_to :: "string list \<Rightarrow> string list \<Rightarrow> string \<Rightarrow> ftree \<Rightarrow> bool" where
  "links_to nm p w t \<longleftrightarrow> tree_lookup (nm @ p) t = Some (Special (Some w))"

lemma closed_links_to: "(\<And>u x. A p u x \<Longrightarrow> x = None) \<Longrightarrow> closed (links_to nm p w) (puts nm A)"
  unfolding links_to_def[abs_def] by (rule closed_kept) auto

lemma hoisted_link_made:
  assumes ok: "names_ok graph" and e: "(n, k) \<in> set (lp_hoisted (build_plan graph))" and k: "map_of (dg_nodes graph) k \<noteq> None"
  shows "triple (build_inv nm early_place t0) (link_hoisted graph nm (n, k) res)
    (\<lambda>_ t. build_inv nm early_place t0 t \<and> links_to nm (name_parts n) (hoisted_text n k) t) (\<lambda>_. True)"
proof -
  let ?I = "build_inv nm early_place t0"
  have v: "valid_name n" by (rule plan_names_valid(1)[OF ok e])
  have no: "prefix q (scope_of n) \<Longrightarrow> early_place q \<Longrightarrow> q = [''.oath'']" for q
    using top_no_place[of q "scope_of n"] scope_of_cases[OF v] by (auto simp: early_place_def)
  have c: "closed ?I (puts nm (adds (\<lambda>_ _. False) scope_places))" by (rule closed_adds) simp
  have "runs ?I (puts nm (adds (\<lambda>_ _. False) scope_places)) (scope_dir (nm @ []) n)"
    by (rule scope_dir_runs[OF v]) (use prefix_of_scope[OF _ v] no in auto)
  then have dir: "triple ?I (scope_dir nm n) (\<lambda>_. ?I) (\<lambda>_. True)" by (intro runs_inv[OF _ c]) simp_all
  have made: "links_to nm (name_parts n) (hoisted_text n k) t'"
    if "?I t" "symlink (hoisted_text n k) (nm @ name_parts n) t = Some t'" for t t'
    unfolding links_to_def
    using that no by (intro symlink_makes[of nm early_place t0 t]) (auto simp: build_inv_def butlast_name_parts[OF v] intro!: direct_in_stage[of nm early_place t0])
  have keep: "triple ?I (link_hoisted graph nm (n, k) res) (\<lambda>_. ?I) (\<lambda>_. True)"
    by (rule runs_inv[OF link_hoisted_runs[OF ok e] closed_hoisted[OF ok]]) simp
  have "triple ?I (link_hoisted graph nm (n, k) res) (\<lambda>_. links_to nm (name_parts n) (hoisted_text n k)) (\<lambda>_. True)"
    unfolding link_hoisted_def prod.case if_not_P[OF k]
    by (intro triple_bind[OF dir] triple_bind[OF triple_step] triple_return) (assumption | rule made TrueI)+
  from triple_conj[OF keep this] show ?thesis .
qed

lemma hoisted_linked:
  assumes ok: "names_ok graph" and inv: "build_inv nm early_place t0 t"
    and run: "act_fold (link_hoisted graph nm) (lp_hoisted (build_plan graph)) r t = (Inr r', t')"
    and e: "(n, k) \<in> set (lp_hoisted (build_plan graph))" and k: "map_of (dg_nodes graph) k \<noteq> None"
  shows "links_to nm (name_parts n) (hoisted_text n k) t'"
proof -
  let ?I = "build_inv nm early_place t0"
  let ?G = "\<lambda>nk t. map_of (dg_nodes graph) (snd nk) \<noteq> None \<longrightarrow> links_to nm (name_parts (fst nk)) (hoisted_text (fst nk) (snd nk)) t"
  have step: "triple ?I (link_hoisted graph nm x s) (\<lambda>_ t. ?I t \<and> ?G x t) (\<lambda>_. True)" if x: "x \<in> set (lp_hoisted (build_plan graph))" for x s
  proof (cases "map_of (dg_nodes graph) (snd x) = None")
    case True
    have "triple ?I (link_hoisted graph nm x s) (\<lambda>_. ?I) (\<lambda>_. True)"
      by (rule runs_inv[OF link_hoisted_runs[OF ok x] closed_hoisted[OF ok]]) simp
    then show ?thesis using True by simp
  next
    case False
    then show ?thesis using hoisted_link_made[OF ok, of "fst x" "snd x"] x by simp
  qed
  have keep: "triple (\<lambda>t. ?I t \<and> ?G x t) (link_hoisted graph nm y s) (\<lambda>_. ?G x) (\<lambda>_. True)"
    if "y \<in> set (lp_hoisted (build_plan graph))" for x y s
    by (rule triple_error[OF runs_triple[OF link_hoisted_runs[OF ok that]]])
      (auto simp: closed_def intro: closed_links_to[unfolded closed_def, rule_format, rotated 2] simp: adds_def)
  have "triple ?I (act_fold (link_hoisted graph nm) (lp_hoisted (build_plan graph)) r) (\<lambda>_ t. ?I t \<and> (\<forall>x\<in>set (lp_hoisted (build_plan graph)). ?G x t)) (\<lambda>_. True)"
    by (rule triple_fold_each[OF step keep]) simp_all
  from tripleD[OF this inv run] show ?thesis using e k by fastforce
qed

lemma triple_fold_one:
  assumes "x \<in> set xs" "\<And>y s. y \<in> set xs \<Longrightarrow> triple I (f y s) (\<lambda>_. I) (\<lambda>_. True)"
    and "\<And>s. triple I (f x s) (\<lambda>_. G) (\<lambda>_. True)" "\<And>y s. y \<in> set xs \<Longrightarrow> triple (\<lambda>t. I t \<and> G t) (f y s) (\<lambda>_. G) (\<lambda>_. True)"
  shows "triple I (act_fold f xs s) (\<lambda>_ t. I t \<and> G t) (\<lambda>_. True)"
proof -
  have "triple I (act_fold f xs s) (\<lambda>_ t. I t \<and> (\<forall>y\<in>set xs. y = x \<longrightarrow> G t)) (\<lambda>_. True)"
  proof (rule triple_fold_each)
    fix y s assume y: "y \<in> set xs"
    show "triple I (f y s) (\<lambda>_ t. I t \<and> (y = x \<longrightarrow> G t)) (\<lambda>_. True)"
      by (rule triple_post[OF triple_conj[OF assms(2)[OF y], where Q' = "\<lambda>_ t. y = x \<longrightarrow> G t"]])
        (cases "y = x"; use assms(2)[OF y] assms(3) in \<open>auto intro: triple_post\<close>)+
    fix z s assume z: "z \<in> set xs"
    show "triple (\<lambda>t. I t \<and> (y = x \<longrightarrow> G t)) (f z s) (\<lambda>_ t. y = x \<longrightarrow> G t) (\<lambda>_. True)"
      using assms(4)[OF z] assms(2)[OF z] by (cases "y = x") (auto intro: triple_post)
  qed
  then show ?thesis by (rule triple_post) (use assms(1) in auto)
qed

abbreviation beside_path :: "string \<Rightarrow> string \<Rightarrow> string list" where
  "beside_path key n \<equiv> vmods key @ name_parts n"

lemma beside_present:
  assumes ok: "names_ok graph" and e: "dep_edges graph key n dk"
  shows "triple (\<lambda>t. build_inv nm any_place t0 t \<and> is_dir_at t (nm @ beside_path dk n)) (link_beside nm key n dk res)
    (\<lambda>_ t. tree_lookup (nm @ beside_path key n) t \<noteq> None) (\<lambda>_. True)"
proof -
  let ?J = "\<lambda>t. build_inv nm any_place t0 t \<and> is_dir_at t (nm @ beside_path dk n)"
  have v: "valid_name n" by (rule edge_names_valid(1)[OF ok e])
  have no: "prefix q (vmods key @ scope_of n) \<Longrightarrow> any_place q \<Longrightarrow> q = [''.oath'']" for q
    using virtual_modules_no_place[of q key "scope_of n"] scope_of_cases[OF v] by (auto simp: any_place_def early_place_def)
  have dirs: "direct t nm (butlast (beside_path key n))" if "?J t" for t
    using that no by (intro direct_in_stage[of nm any_place t0]) (auto simp: butlast_append butlast_name_parts[OF v])
  have c: "closed (build_inv nm any_place t0) (puts nm (adds (\<lambda>_ _. False) beside_dirs))" by (rule closed_adds) simp
  have cJ: "closed ?J (puts nm (adds (\<lambda>_ _. False) beside_dirs))" by (rule closed_conj[OF c closed_is_dir])
  have "runs (build_inv nm any_place t0) (puts nm (adds (\<lambda>_ _. False) beside_dirs)) (scope_dir (nm @ vmods key) n)"
    by (rule scope_dir_runs[OF v _ no]) (use v in \<open>auto simp: beside_dirs_def\<close>)
  then have "runs ?J (puts nm (adds (\<lambda>_ _. False) beside_dirs)) (scope_dir (nm @ vmods key) n)" by (rule runs_mono) simp_all
  then have dir: "triple ?J (scope_dir (nm @ vmods key) n) (\<lambda>_. ?J) (\<lambda>_. True)" by (rule runs_inv[OF _ cJ]) simp
  have made: "tree_lookup (nm @ beside_path key n) t' \<noteq> None"
    if "?J t" "symlink w (nm @ beside_path key n) t = Some t'" for t t' w
    using symlink_makes[of nm any_place t0 t "beside_path key n" w t'] that dirs[OF that(1)] by (simp add: build_inv_def)
  have old: "tree_lookup (nm @ beside_path key n) t \<noteq> None" if "?J t" "path_exists t (nm @ beside_path key n)" for t
    using path_exists_present[OF that(2) _ _ dirs[OF that(1)]] that(1) by (simp add: build_inv_def stage_inv_def)
  have src: "path_exists t (nm @ beside_path dk n)" if "?J t" for t using that real_path_dir by (auto simp: path_exists_def)
  show ?thesis unfolding link_beside_def Let_def virtual_dir_def virtual_modules_def append_assoc
  proof (rule triple_get)
    fix u
    let ?make = "act_bind (scope_dir (nm @ vmods key) n) (\<lambda>_. act_bind (act_step Link_io_failed
      (symlink (pathdiff_relative (nm @ beside_path key n) (nm @ beside_path dk n)) (nm @ beside_path key n)))
      (\<lambda>_. act_return (res\<lparr>lr_symlinks := lr_symlinks res + 1\<rparr>)))"
    have "triple ?J ?make (\<lambda>_ t. tree_lookup (nm @ beside_path key n) t \<noteq> None) (\<lambda>_. True)"
      by (intro triple_bind[OF dir] triple_bind[OF triple_step] triple_return) (assumption | rule made TrueI)+
    then show "triple (\<lambda>t. ?J t \<and> t = u) (if path_exists u (nm @ beside_path dk n) \<and> \<not> path_exists u (nm @ beside_path key n)
        then ?make else act_return res) (\<lambda>_ t. tree_lookup (nm @ beside_path key n) t \<noteq> None) (\<lambda>_. True)"
      using src[of u] old[of u] by (auto intro: triple_pre triple_return)
  qed
qed

lemma dependency_present:
  assumes ok: "names_ok graph" and inv: "build_inv nm any_place t0 t" "is_dir_at t (nm @ beside_path dk n)"
    and run: "act_fold (link_dependencies graph nm) (dg_nodes graph) r t = (Inr r', t')"
    and kn: "(key, node) \<in> set (dg_nodes graph)" and d: "(d, dk) \<in> set (dn_dependencies node)" and n: "n = dep_install_name (dg_nodes graph) d dk"
  shows "tree_lookup (nm @ beside_path key n) t' \<noteq> None"
proof -
  let ?J = "\<lambda>t. build_inv nm any_place t0 t \<and> is_dir_at t (nm @ beside_path dk n)"
  let ?G = "\<lambda>t. tree_lookup (nm @ beside_path key n) t \<noteq> None"
  have cJ: "closed ?J (step_dep graph nm)" by (rule closed_conj[OF closed_deps[OF ok] closed_is_dir])
  have edge: "dep_edges graph key (dep_install_name (dg_nodes graph) (fst e) (snd e)) (snd e)" if "e \<in> set (dn_dependencies node)" for e
    using that kn unfolding dep_edges_def by (metis prod.collapse)
  have runs1: "runs ?J (step_dep graph nm) (link_beside nm key (dep_install_name (dg_nodes graph) (fst e) (snd e)) (snd e) s)"
    if "e \<in> set (dn_dependencies node)" for e s
    by (rule runs_mono[OF link_beside_runs[where E = "dep_edges graph" and ?t0.0 = t0, OF edge_names_valid(1)[OF ok] edge[OF that]]]) simp_all
  have inner: "triple ?J (link_dependencies graph nm (key, node) s) (\<lambda>_ t. ?J t \<and> ?G t) (\<lambda>_. True)" for s
    unfolding link_dependencies_def snd_conv fst_conv
  proof (rule triple_fold_one[OF d], unfold case_prod_unfold)
    fix e s assume e: "e \<in> set (dn_dependencies node)"
    show "triple ?J (link_beside nm key (dep_install_name (dg_nodes graph) (fst e) (snd e)) (snd e) s) (\<lambda>_. ?J) (\<lambda>_. True)"
      by (rule runs_inv[OF runs1[OF e] cJ]) simp
    show "triple (\<lambda>t. ?J t \<and> ?G t) (link_beside nm key (dep_install_name (dg_nodes graph) (fst e) (snd e)) (snd e) s) (\<lambda>_. ?G) (\<lambda>_. True)"
      by (rule triple_error[OF runs_triple[OF runs1[OF e] closed_present]]) simp
  next
    fix s
    show "triple ?J (link_beside nm key (dep_install_name (dg_nodes graph) (fst (d, dk)) (snd (d, dk))) (snd (d, dk)) s) (\<lambda>_. ?G) (\<lambda>_. True)"
      using beside_present[OF ok edge[OF d], of nm t0 s] by (simp add: n)
  qed
  have outer: "runs ?J (step_dep graph nm) (link_dependencies graph nm kn s)" if "kn \<in> set (dg_nodes graph)" for kn s
    by (rule runs_mono[OF link_dependencies_runs[where ?t0.0 = t0, OF ok that]]) simp_all
  have "triple ?J (act_fold (link_dependencies graph nm) (dg_nodes graph) r) (\<lambda>_ t. ?J t \<and> ?G t) (\<lambda>_. True)"
  proof (rule triple_fold_one[OF kn])
    show "triple ?J (link_dependencies graph nm y s) (\<lambda>_. ?J) (\<lambda>_. True)" if "y \<in> set (dg_nodes graph)" for y s
      by (rule runs_inv[OF outer[OF that] cJ]) simp
    show "triple ?J (link_dependencies graph nm (key, node) s) (\<lambda>_. ?G) (\<lambda>_. True)" for s
      by (rule triple_post[OF inner]) simp
    show "triple (\<lambda>t. ?J t \<and> ?G t) (link_dependencies graph nm y s) (\<lambda>_. ?G) (\<lambda>_. True)" if "y \<in> set (dg_nodes graph)" for y s
      by (rule triple_error[OF runs_triple[OF outer[OF that] closed_present]]) simp
  qed
  from tripleD[OF this _ run] inv show ?thesis by simp
qed

text \<open>Before the dependencies are linked, nothing is beside a package under another name than its own.\<close>

lemma related_names:
  assumes "valid_name a" "valid_name b" "related (name_parts a) (name_parts b @ x)" shows "name_parts a = name_parts b"
proof -
  consider y where "name_parts b @ x = name_parts a @ y" | y where "name_parts a = name_parts b @ x @ y"
    using assms(3) by (auto simp: related_def prefix_def)
  then show ?thesis
  proof cases
    case 1
    then show ?thesis using name_parts_prefix_free[OF assms(2,1) 1] by simp
  next
    case 2
    then show ?thesis using name_parts_prefix_free[OF assms(1,2), of "[]" "x @ y"] by simp
  qed
qed

lemma prefix_names:
  assumes "valid_name a" "valid_name b" "prefix (name_parts a) (name_parts b @ x)" shows "a = b"
  using related_names[OF assms(1,2), of x] assms(3) name_parts_inject unfolding related_def by blast

lemma same_key:
  assumes "link_ready graph source" "(key, node) \<in> set (dg_nodes graph)" "(key', node') \<in> set (dg_nodes graph)"
    "virtual_key_component key' = virtual_key_component key"
  shows "key' = key" "node' = node"
proof -
  have wf: "distinct (map fst (dg_nodes graph))" "[] \<notin> fst ` set (dg_nodes graph)" using assms(1) by (auto simp: link_ready_def hm_wf_def)
  have "key' \<noteq> []" "key \<noteq> []" using wf(2) assms(2,3) by (metis fst_conv image_eqI)+
  then show k: "key' = key" using assms(4) vkey_inj by blast
  then show "node' = node" using assms(2,3) wf(1) by (metis eq_key_imp_eq_value)
qed

lemma beside_absent:
  assumes ok: "names_ok graph" and ready: "link_ready graph source" and st: "stage_states source graph nm t0 ts"
    and kn: "(key, node) \<in> set (dg_nodes graph)" and v: "valid_name n" and other: "n \<noteq> install_name_of node"
  shows "tree_lookup (nm @ beside_path key n) (ts ! 2) = None"
proof -
  obtain t1 t2 t3 where ts: "ts ! 2 = t3" "(step_hoist graph nm)\<^sup>*\<^sup>* t1 t2" "(step_nest graph nm)\<^sup>*\<^sup>* t2 t3"
    and absent: "\<And>q. q \<noteq> [] \<Longrightarrow> q \<noteq> [''.oath''] \<Longrightarrow> apart (dg_nodes graph) q \<Longrightarrow> tree_lookup (nm @ q) t1 = None"
    using st unfolding stage_states_def by (metis nth_Cons_0 nth_Cons_Suc numeral_2_eq_2)
  have own: "valid_name (install_name_of node)" by (rule node_name_valid[OF ok kn])
  have "\<not> related (package_path (key', node')) (beside_path key n)" if kn': "(key', node') \<in> set (dg_nodes graph)" for key' node'
  proof
    assume r: "related (package_path (key', node')) (beside_path key n)"
    then have "virtual_key_component key' = virtual_key_component key" "related (name_parts (install_name_of node')) (name_parts n @ [])"
      by (auto simp: related_def package_path_def)
    then have "name_parts (install_name_of node) = name_parts n"
      using same_key(2)[OF ready kn kn'] related_names[OF own v, of "[]"] by simp
    then show False using other name_parts_inject by metis
  qed
  then have "apart (dg_nodes graph) (beside_path key n)" by (auto simp: apart_def)
  then have a1: "tree_lookup (nm @ beside_path key n) t1 = None" by (intro absent) simp_all
  have len: "4 \<le> length (beside_path key n)" "length (beside_path key n) \<le> 5" using name_parts_length[OF v] by auto
  have "\<not> hoisted_texts graph (beside_path key n) w" for w
    using hoisted_texts_ok[OF ok, of "beside_path key n" w] top_place_length[of "beside_path key n"] len by auto
  then have "closed (\<lambda>t. tree_lookup (nm @ beside_path key n) t = None) (step_hoist graph nm)"
    by (intro closed_absent) (auto simp: adds_def scope_places_def)
  from closed_rtranclp[OF this ts(2) a1] have a2: "tree_lookup (nm @ beside_path key n) t2 = None" .
  have "\<not> nested_texts graph (beside_path key n) w" for w
    using nested_texts_ok[OF ok, of "beside_path key n" w] nested_place_length[of "beside_path key n"] len by auto
  moreover have "\<not> nested_dirs graph (beside_path key n)"
  proof
    assume "nested_dirs graph (beside_path key n)"
    then obtain k' node' m where k': "map_of (dg_nodes graph) k' = Some node'" "virtual_key_component k' = virtual_key_component key"
      and p: "prefix (name_parts n) (name_parts (install_name_of node') @ [''node_modules''] @ scope_of m)" by (auto simp: nested_dirs_def)
    have "node' = node" by (rule same_key(2)[OF ready kn map_of_SomeD[OF k'(1)] k'(2)])
    then show False using prefix_names[OF v own] p other by blast
  qed
  ultimately have "closed (\<lambda>t. tree_lookup (nm @ beside_path key n) t = None) (step_nest graph nm)"
    by (intro closed_absent) (auto simp: adds_def)
  from closed_rtranclp[OF this ts(3) a2] show ?thesis using ts(1) by simp
qed

section \<open>Where the links lead\<close>

lemma follow_up_down:
  assumes "is_dir_at t (take (length cur - j) cur @ ns)"
  shows "follow c k t cur (replicate j ParentDir @ map Normal ns) = Inr (take (length cur - j) cur @ ns)"
  using follow_up[of c k t cur j "map Normal ns"] follow_dirs[OF assms, of c k "[]"] by simp

lemma pathdiff_components:
  assumes "a \<noteq> []" "b \<noteq> butlast a" "\<forall>n\<in>set b. safe_name n"
  shows "path_components (pathdiff_relative a b)
      = replicate (length (butlast a) - common_len (butlast a) b) ParentDir @ map Normal (drop (common_len (butlast a) b) b)"
proof -
  let ?d = "butlast a" and ?n = "common_len (butlast a) b"
  let ?rel = "replicate (length ?d - ?n) ParentDir @ map Normal (drop ?n b)"
  have eq: "take ?n ?d = take ?n b" by (rule take_common_len)
  have ne: "?rel \<noteq> []"
  proof
    assume "?rel = []"
    then have "length ?d \<le> ?n" "length b \<le> ?n" by auto
    then show False using eq assms(2) by (simp del: length_butlast)
  qed
  have "\<forall>c\<in>set ?rel. c = ParentDir \<or> (\<exists>n. c = Normal n \<and> safe_name n)" using assms(3) by (auto dest: in_set_dropD)
  from component_text_split[OF ne this] show ?thesis
    using ne assms(1) unfolding pathdiff_relative_def Let_def by (simp only: if_False)
qed

lemma follow_pathdiff:
  assumes "a \<noteq> []" "b \<noteq> butlast a" "\<forall>n\<in>set b. safe_name n" "is_dir_at t (nm @ b)"
  shows "follow c k t (nm @ butlast a) (path_components (pathdiff_relative a b)) = Inr (nm @ b)"
proof -
  let ?d = "butlast a" and ?n = "common_len (butlast a) b"
  have eq: "take ?n ?d = take ?n b" "?n \<le> length ?d" by (rule take_common_len) (rule common_len_bound)
  have "take (length (nm @ ?d) - (length ?d - ?n)) (nm @ ?d) = nm @ take ?n b"
    using eq by (simp del: length_butlast)
  then show ?thesis unfolding pathdiff_components[OF assms(1-3)]
    using follow_up_down[of t "nm @ ?d" "length ?d - ?n" "drop ?n b" c k] assms(4) by (simp del: length_butlast)
qed

lemma real_path_pathdiff:
  assumes "links_to nm a (pathdiff_relative a b) t" "a \<noteq> []" "b \<noteq> butlast a" "\<forall>n\<in>set b. safe_name n" "is_dir_at t (nm @ b)"
  shows "real_path t (nm @ a) = Inr (nm @ b)"
  using real_path_link[of "nm @ a" t] assms(1,2) follow_pathdiff[OF assms(2-5)] by (simp add: links_to_def butlast_append)

lemma real_path_hoisted:
  assumes "links_to nm (name_parts n) (hoisted_text n k) t" "valid_name n" "is_dir_at t (nm @ beside_path k n)"
  shows "real_path t (nm @ name_parts n) = Inr (nm @ beside_path k n)"
proof -
  let ?j = "if CHR ''/'' \<in> set n then 1 else 0 :: nat"
  have j: "length (butlast (name_parts n)) = ?j" using valid_name_shape[OF assms(2)] by auto
  have "path_components (hoisted_text n k) = replicate ?j ParentDir @ map Normal (beside_path k n)"
    unfolding hoisted_text_path
    by (subst component_text_split) (use safe_virtual[OF assms(2), of _ k] in auto)
  moreover have "take (length (nm @ butlast (name_parts n)) - ?j) (nm @ butlast (name_parts n)) = nm" using j by simp
  ultimately show ?thesis
    using real_path_link[of "nm @ name_parts n" t] assms(1,3) follow_up_down[of t "nm @ butlast (name_parts n)" ?j "beside_path k n"]
    by (simp add: links_to_def butlast_append)
qed

section \<open>The finished stage\<close>

lemma no_beside_dir: "valid_name n \<Longrightarrow> \<not> beside_dirs (beside_path key n)"
proof
  assume n: "valid_name n" and "beside_dirs (beside_path key n)"
  then obtain m where "valid_name m" "prefix (name_parts n) (scope_of m)" by (auto simp: beside_dirs_def)
  then show False using scope_of_cases[of m] valid_name_shape[OF n] by (auto simp: prefix_Cons)
qed

lemma beside_linked:
  assumes ok: "names_ok graph" and ready: "link_ready graph source" and st: "stage_states source graph nm t0 ts"
    and run: "act_fold (link_dependencies graph nm) (dg_nodes graph) r (ts ! 2) = (Inr r', ts ! 3)"
    and kn: "(key, node) \<in> set (dg_nodes graph)" and d: "(d, dk) \<in> set (dn_dependencies node)" and n: "n = dep_install_name (dg_nodes graph) d dk"
    and other: "n \<noteq> install_name_of node"
    and only: "\<And>d' dk'. (d', dk') \<in> set (dn_dependencies node) \<Longrightarrow> dep_install_name (dg_nodes graph) d' dk' = n \<Longrightarrow> dk' = dk"
    and there: "is_dir_at (ts ! 2) (nm @ beside_path dk n)"
  shows "links_to nm (beside_path key n) (pathdiff_relative (beside_path key n) (beside_path dk n)) (ts ! 3)"
proof -
  have v: "valid_name n" using dep_name_valid[OF ok kn d] n by simp
  have absent: "tree_lookup (nm @ beside_path key n) (ts ! 2) = None" by (rule beside_absent[OF ok ready st kn v other])
  have dep: "(step_dep graph nm)\<^sup>*\<^sup>* (ts ! 2) (ts ! 3)" and inv: "build_inv nm any_place t0 (ts ! 2)"
    using st build_inv_mono[of nm early_place t0 "ts ! 2" any_place] unfolding stage_states_def any_place_def by auto
  let ?w = "pathdiff_relative (beside_path key n) (beside_path dk n)"
  have w: "w = ?w" if "beside_texts (dep_edges graph) (beside_path key n) w" for w
  proof -
    from that obtain key' n' dk' where e: "dep_edges graph key' n' dk'" "beside_path key n = beside_path key' n'"
      "w = pathdiff_relative (beside_path key n) (beside_path dk' n')" unfolding beside_texts_def by blast
    obtain node' d' where e': "(key', node') \<in> set (dg_nodes graph)" "(d', dk') \<in> set (dn_dependencies node')" "n' = dep_install_name (dg_nodes graph) d' dk'"
      using e(1) by (auto simp: dep_edges_def)
    have "node' = node" by (rule same_key(2)[OF ready kn e'(1)]) (use e(2) in simp)
    moreover have "n' = n" using e(2) name_parts_inject[of n' n] by simp
    ultimately show ?thesis using only[of d' dk'] e e' by simp
  qed
  have only_link: "closed (\<lambda>t. tree_lookup (nm @ beside_path key n) t = None \<or> tree_lookup (nm @ beside_path key n) t = Some (Special (Some ?w))) (step_dep graph nm)"
    by (rule closed_only_link) (use w no_beside_dir[OF v] in \<open>auto simp: adds_def\<close>)
  have "tree_lookup (nm @ beside_path key n) (ts ! 3) \<noteq> None"
    by (rule dependency_present[OF ok inv there run kn d n])
  then show ?thesis using closed_rtranclp[OF only_link dep] absent by (auto simp: links_to_def)
qed

text \<open>Inside a package that brings no \<^verbatim>\<open>node_modules\<close> only the plan's nested links are made.\<close>

lemma stage_states_list:
  "stage_states source graph nm t0 [t1, t2, t3, t4, t5, t6, t7, t8] \<longleftrightarrow>
     copy_inv nm t0 t1 \<and> (\<forall>kn\<in>set (dg_nodes graph). copied source nm kn t1)
     \<and> (\<forall>q. q \<noteq> [] \<and> q \<noteq> [''.oath''] \<and> apart (dg_nodes graph) q \<longrightarrow> tree_lookup (nm @ q) t1 = None)
     \<and> (\<forall>kn\<in>set (dg_nodes graph). \<forall>es x. source (snd kn) = Some (Dir es) \<and> ''node_modules'' \<notin> fst ` set es
          \<longrightarrow> tree_lookup (nm @ package_path kn @ ''node_modules'' # x) t1 = None)
     \<and> (step_hoist graph nm)\<^sup>*\<^sup>* t1 t2 \<and> build_inv nm early_place t0 t2
     \<and> (step_nest graph nm)\<^sup>*\<^sup>* t2 t3 \<and> build_inv nm early_place t0 t3
     \<and> (step_dep graph nm)\<^sup>*\<^sup>* t3 t4 \<and> build_inv nm any_place t0 t4
     \<and> (step_peer graph nm)\<^sup>*\<^sup>* t4 t5 \<and> build_inv nm any_place t0 t5
     \<and> (step_bindir nm)\<^sup>*\<^sup>* t5 t6 \<and> late_inv nm t0 t6
     \<and> (step_bin nm)\<^sup>*\<^sup>* t6 t7 \<and> late_inv nm t0 t7
     \<and> (step_write nm)\<^sup>*\<^sup>* t7 t8 \<and> late_inv nm t0 t8"
  by (simp add: stage_states_def)

lemma stage_states_cases:
  assumes "stage_states source graph nm t0 ts"
  obtains t1 t2 t3 t4 t5 t6 t7 t8 where "ts = [t1, t2, t3, t4, t5, t6, t7, t8]"
  using assms unfolding stage_states_def by (elim exE conjE) (rule that)

abbreviation inner_path :: "string \<times> dep_node \<Rightarrow> string \<Rightarrow> string list" where
  "inner_path kn n \<equiv> package_path kn @ ''node_modules'' # name_parts n"

lemma inner_only_link:
  assumes ok: "names_ok graph" and ready: "link_ready graph source" and st: "stage_states source graph nm t0 ts"
    and kn: "(key, node) \<in> set (dg_nodes graph)" "source node = Some (Dir es)" "''node_modules'' \<notin> fst ` set es"
    and v: "valid_name n"
    and only: "\<And>d' dk'. (d', dk') \<in> set (dn_dependencies node) \<Longrightarrow> dep_install_name (dg_nodes graph) d' dk' = n \<Longrightarrow> dk' = dk"
  shows "tree_lookup (nm @ inner_path (key, node) n) (last ts) = None
    \<or> links_to nm (inner_path (key, node) n) (pathdiff_relative (inner_path (key, node) n) (beside_path dk n)) (last ts)"
proof -
  let ?q = "inner_path (key, node) n"
  let ?w = "pathdiff_relative ?q (beside_path dk n)"
  let ?I = "\<lambda>t. tree_lookup (nm @ ?q) t = None \<or> tree_lookup (nm @ ?q) t = Some (Special (Some ?w))"
  have own: "valid_name (install_name_of node)" by (rule node_name_valid[OF ok kn(1)])
  obtain t1 t2 t3 t4 t5 t6 t7 t8 where ts: "ts = [t1, t2, t3, t4, t5, t6, t7, t8]" by (rule stage_states_cases[OF st])
  note st' = st[unfolded ts stage_states_list]
  have none: "tree_lookup (nm @ ?q) t1 = None"
    using bspec[OF conjunct1[OF conjunct2[OF conjunct2[OF conjunct2[OF st']]]] kn(1)] kn(2,3) by simp
  have steps: "(step_hoist graph nm)\<^sup>*\<^sup>* t1 t2" "(step_nest graph nm)\<^sup>*\<^sup>* t2 t3" "(step_dep graph nm)\<^sup>*\<^sup>* t3 t4"
    "(step_peer graph nm)\<^sup>*\<^sup>* t4 t5" "(step_bindir nm)\<^sup>*\<^sup>* t5 t6" "(step_bin nm)\<^sup>*\<^sup>* t6 t7" "(step_write nm)\<^sup>*\<^sup>* t7 t8"
    using st' by simp_all
  have len: "6 \<le> length ?q" using name_parts_length[OF own] name_parts_length[OF v] by (auto simp: package_path_def)
  have hoist: "\<not> hoisted_texts graph ?q w" for w
    using hoisted_texts_ok[OF ok, of ?q w] top_place_length[of ?q] len by auto
  have nest: "w = ?w" if "nested_texts graph ?q w" for w
  proof -
    from that obtain pk n' ck node' where e: "(pk, n', ck) \<in> set (lp_nested (build_plan graph))" "map_of (dg_nodes graph) pk = Some node'"
      "?q = vmods pk @ name_parts (install_name_of node') @ [''node_modules''] @ name_parts n'" "w = pathdiff_relative ?q (vmods ck @ name_parts n')"
      unfolding nested_texts_def by blast
    note s = same_key[OF ready kn(1) map_of_SomeD[OF e(2)]]
    have k: "virtual_key_component pk = virtual_key_component key" using e(3) by (simp add: package_path_def)
    have nn: "n' = n" using e(3) s(2)[OF k] name_parts_inject[of n' n] by (simp add: package_path_def)
    obtain node'' d' where d: "(pk, node'') \<in> set (dg_nodes graph)" "(d', ck) \<in> set (dn_dependencies node'')" "n' = dep_install_name (dg_nodes graph) d' ck"
      using nested_in_plan[OF e(1)] by blast
    have "node'' = node" by (rule same_key(2)[OF ready kn(1) d(1) k])
    then show ?thesis using only[of d' ck] d nn e(4) by simp
  qed
  have dirs: "\<not> nested_dirs graph ?q"
  proof
    assume "nested_dirs graph ?q"
    then obtain k' node' m where k': "map_of (dg_nodes graph) k' = Some node'" "virtual_key_component k' = virtual_key_component key" "valid_name m"
      and p: "prefix (name_parts (install_name_of node) @ ''node_modules'' # name_parts n) (name_parts (install_name_of node') @ [''node_modules''] @ scope_of m)"
      by (auto simp: nested_dirs_def package_path_def)
    have "node' = node" by (rule same_key(2)[OF ready kn(1) map_of_SomeD[OF k'(1)] k'(2)])
    then have "prefix (name_parts n) (scope_of m)" using p by simp
    then show False using scope_of_cases[OF k'(3)] valid_name_shape[OF v] by (auto simp: prefix_Cons)
  qed
  have beside: "\<not> beside_dirs ?q" "\<not> beside_place ?q"
  proof -
    have "length q \<le> 4" if "beside_dirs q" for q
    proof -
      from that obtain k m where "valid_name m" "prefix q (vmods k @ scope_of m)" by (auto simp: beside_dirs_def)
      then show ?thesis using scope_of_cases[of m] prefix_length_le[of q "vmods k @ scope_of m"] by auto
    qed
    then show "\<not> beside_dirs ?q" using len by fastforce
    show "\<not> beside_place ?q" using len name_parts_length unfolding beside_place_def by fastforce
  qed
  have edge: "\<not> beside_texts (dep_edges graph) ?q w" "\<not> beside_texts (peer_edges graph) ?q w" for w
    using beside_texts_ok[of "dep_edges graph" ?q w] beside_texts_ok[of "peer_edges graph" ?q w] edge_names_valid[OF ok] beside(2) by blast+
  have long: "?q \<noteq> [x]" "?q \<noteq> [x, y]" for x y using len by (auto dest: arg_cong[where f = length])
  have "closed ?I (step_hoist graph nm)" by (rule closed_only_link) (use hoist long in \<open>auto simp: adds_def scope_places_def\<close>)
  from closed_rtranclp[OF this steps(1)] none have "?I t2" by blast
  moreover have "closed ?I (step_nest graph nm)" by (rule closed_only_link) (use nest dirs in \<open>auto simp: adds_def\<close>)
  ultimately have "?I t3" using closed_rtranclp[OF _ steps(2), of ?I] by blast
  moreover have "closed ?I (step_dep graph nm)" by (rule closed_only_link) (use edge beside in \<open>auto simp: adds_def\<close>)
  ultimately have "?I t4" using closed_rtranclp[OF _ steps(3), of ?I] by blast
  moreover have "closed ?I (step_peer graph nm)" by (rule closed_only_link) (use edge beside in \<open>auto simp: adds_def\<close>)
  ultimately have "?I t5" using closed_rtranclp[OF _ steps(4), of ?I] by blast
  moreover have "closed ?I (step_bindir nm)" by (rule closed_only_link) (use long in \<open>auto simp: adds_def\<close>)
  ultimately have "?I t6" using closed_rtranclp[OF _ steps(5), of ?I] by blast
  moreover have "closed ?I (step_bin nm)" by (rule closed_only_link) (use long in \<open>auto simp: adds_def bin_texts_def\<close>)
  ultimately have "?I t7" using closed_rtranclp[OF _ steps(6), of ?I] by blast
  moreover have "closed ?I (step_write nm)" by (rule closed_only_link) (use long in \<open>auto simp: writes_manifest_def\<close>)
  ultimately have "?I t8" using closed_rtranclp[OF _ steps(7), of ?I] by blast
  then show ?thesis by (simp add: links_to_def ts)
qed

lemma fs_write_direct:
  assumes "direct t nm p" "is_dir_at t nm" "p \<noteq> []" "fs_write (nm @ p) d t = Some t'"
  shows "file_at t' (nm @ p) d"
proof -
  obtain q where q: "follow True symlink_limit t nm (map Normal p) = Inr q" "tree_put q (File d) t = Some t'" "\<forall>es. tree_lookup q t \<noteq> Some (Dir es)"
    using assms(4) follow_dirs[of t "[]" nm True symlink_limit "map Normal p"] assms(2)
    unfolding fs_write_def by (auto split: sum.splits option.splits ftree.splits)
  have "q = nm @ p" by (rule follow_direct[OF assms(1) q(1)])
  then show ?thesis using put_leaf(1)[OF q(2) _ q(3)] by (simp add: file_at_def)
qed

definition laid_out :: "(dep_node \<Rightarrow> ftree option) \<Rightarrow> dep_graph \<Rightarrow> string list \<Rightarrow> ftree \<Rightarrow> bool" where
  "laid_out source graph nm t \<longleftrightarrow> is_dir_at t nm
     \<and> (\<forall>kn\<in>set (dg_nodes graph). copied source nm kn t)
     \<and> (\<forall>(n, k)\<in>set (lp_hoisted (build_plan graph)). map_of (dg_nodes graph) k \<noteq> None \<longrightarrow> links_to nm (name_parts n) (hoisted_text n k) t)
     \<and> (\<forall>(key, node)\<in>set (dg_nodes graph). \<forall>(d, dk)\<in>set (dn_dependencies node). let n = dep_install_name (dg_nodes graph) d dk in
          n \<noteq> install_name_of node \<and> (\<forall>(d', dk')\<in>set (dn_dependencies node). dep_install_name (dg_nodes graph) d' dk' = n \<longrightarrow> dk' = dk) \<longrightarrow>
          ((\<exists>dep. (dk, dep) \<in> set (dg_nodes graph) \<and> source dep \<noteq> None) \<longrightarrow>
             links_to nm (beside_path key n) (pathdiff_relative (beside_path key n) (beside_path dk n)) t)
          \<and> (\<forall>es. source node = Some (Dir es) \<and> ''node_modules'' \<notin> fst ` set es \<longrightarrow>
               tree_lookup (nm @ inner_path (key, node) n) t = None
               \<or> links_to nm (inner_path (key, node) n) (pathdiff_relative (inner_path (key, node) n) (beside_path dk n)) t))
     \<and> file_at t (nm @ [''.oath'', ''.link-manifest'']) (link_manifest graph)"

lemma laid_out_moved:
  assumes "\<And>q. tree_lookup (nm' @ q) t' = tree_lookup (nm @ q) t" "laid_out source graph nm t"
  shows "laid_out source graph nm' t'"
proof -
  have "is_dir_at t' (nm' @ q) = is_dir_at t (nm @ q)" "file_at t' (nm' @ q) d = file_at t (nm @ q) d"
    "links_to nm' q w t' = links_to nm q w t" for q d w
    using assms(1) by (simp_all add: is_dir_at_def file_at_def links_to_def)
  moreover have "is_dir_at t' nm' = is_dir_at t nm" using assms(1)[of "[]"] by (simp add: is_dir_at_def)
  ultimately show ?thesis using assms(2) unfolding laid_out_def copied_def by (simp add: assms(1))
qed

lemma dep_install_name_of:
  assumes "hm_wf (dg_nodes graph)" "(dk, dep) \<in> set (dg_nodes graph)"
  shows "dep_install_name (dg_nodes graph) d dk = install_name_of dep" "package_path (dk, dep) = beside_path dk (dep_install_name (dg_nodes graph) d dk)"
proof -
  have "map_of (dg_nodes graph) dk = Some dep" using assms by (simp add: hm_wf_def)
  then show "dep_install_name (dg_nodes graph) d dk = install_name_of dep" by (simp add: dep_install_name_def)
  then show "package_path (dk, dep) = beside_path dk (dep_install_name (dg_nodes graph) d dk)" by (simp add: package_path_def)
qed

lemma stage_laid_out:
  assumes dir: "is_dir_at t0 project" and free: "tree_lookup (project @ [m]) t0 = None" and ok: "names_ok graph"
    and ready: "link_ready graph source" and run: "build_stage source parse graph (project @ [m]) t0 = (Inr res, t)"
  shows "laid_out source graph (project @ [m]) t"
proof -
  let ?nm = "project @ [m]"
  obtain ts r1 r2 r3 r4 where st: "stage_states source graph ?nm t0 ts" and last: "last ts = t"
    and h: "act_fold (link_hoisted graph ?nm) (lp_hoisted (build_plan graph)) r1 (ts ! 0) = (Inr r2, ts ! 1)"
    and d: "act_fold (link_dependencies graph ?nm) (dg_nodes graph) r3 (ts ! 2) = (Inr r4, ts ! 3)"
    and w: "fs_write (?nm @ [''.oath'', ''.link-manifest'']) (link_manifest graph) (ts ! 6) = Some t"
    using build_stage_states[OF assms] by (elim exE conjE) (rule that)
  obtain t1 t2 t3 t4 t5 t6 t7 t8 where ts: "ts = [t1, t2, t3, t4, t5, t6, t7, t8]" by (rule stage_states_cases[OF st])
  note s = st[unfolded ts stage_states_list]
  have t8: "t8 = t" using last ts by simp
  have g: "(grows ?nm)\<^sup>*\<^sup>* t1 t2" "(grows ?nm)\<^sup>*\<^sup>* t2 t3" "(grows ?nm)\<^sup>*\<^sup>* t3 t4" "(grows ?nm)\<^sup>*\<^sup>* t4 t5"
    "(grows ?nm)\<^sup>*\<^sup>* t5 t6" "(grows ?nm)\<^sup>*\<^sup>* t6 t7" "(grows ?nm)\<^sup>*\<^sup>* t7 t"
    using s[unfolded t8] by (blast intro: adds_grow write_grows)+
  have g4: "(grows ?nm)\<^sup>*\<^sup>* t4 t" using g by (meson rtranclp_trans)
  have g2: "(grows ?nm)\<^sup>*\<^sup>* t2 t" using g(2,3) g4 by (meson rtranclp_trans)
  have g1: "(grows ?nm)\<^sup>*\<^sup>* t1 t" using g(1) g2 by (rule rtranclp_trans)
  have g13: "(grows ?nm)\<^sup>*\<^sup>* t1 t3" using g(1,2) by (rule rtranclp_trans)
  have nd: "is_dir_at t ?nm" using s t8 by (simp add: late_inv_def build_inv_def stage_inv_def)
  have cp: "copied source ?nm kn t" if "kn \<in> set (dg_nodes graph)" for kn
  proof -
    have c: "copied source ?nm kn t1" using s that by blast
    have "package_path kn @ q \<noteq> [''.oath'', ''.link-manifest'']" for q by (auto simp: package_path_def)
    then show ?thesis using c grows_keeps(1)[OF g1] grows_keeps(2)[OF g1] unfolding copied_def by blast
  qed
  have hl: "links_to ?nm (name_parts n) (hoisted_text n k) t"
    if e: "(n, k) \<in> set (lp_hoisted (build_plan graph))" "map_of (dg_nodes graph) k \<noteq> None" for n k
  proof -
    have i1: "build_inv ?nm early_place t0 t1" by (rule build_inv_mono[OF conjunct1[OF s]]) simp
    have v: "valid_name n" by (rule plan_names_valid(1)[OF ok e(1)])
    have "name_parts n \<noteq> [''.oath'', ''.link-manifest'']" using valid_name_shape[OF v] by (auto simp: starts_with_def)
    then show ?thesis using hoisted_linked[OF ok i1 _ e] h grows_keeps(3)[OF g2] unfolding ts links_to_def by fastforce
  qed
  have bl: "links_to ?nm (beside_path key n) (pathdiff_relative (beside_path key n) (beside_path dk n)) t"
    if kn: "(key, node) \<in> set (dg_nodes graph)" and e: "(d, dk) \<in> set (dn_dependencies node)" "n = dep_install_name (dg_nodes graph) d dk"
      and n: "n \<noteq> install_name_of node" "\<And>d' dk'. (d', dk') \<in> set (dn_dependencies node) \<Longrightarrow> dep_install_name (dg_nodes graph) d' dk' = n \<Longrightarrow> dk' = dk"
      and dep: "(dk, dep) \<in> set (dg_nodes graph)" "source dep \<noteq> None" for key node d dk n dep
  proof -
    have "hm_wf (dg_nodes graph)" using ready by (simp add: link_ready_def)
    then have pp: "package_path (dk, dep) = beside_path dk n" using dep_install_name_of(2)[OF _ dep(1), of d] e(2) by simp
    have "copied source ?nm (dk, dep) t1" using s dep(1) by blast
    then have "is_dir_at t1 (?nm @ beside_path dk n)" using dep(2) pp by (auto simp: copied_def)
    then have "is_dir_at (ts ! 2) (?nm @ beside_path dk n)" using grows_keeps(1)[OF g13] ts by simp
    from beside_linked[OF ok ready st d kn e n this]
    have "links_to ?nm (beside_path key n) (pathdiff_relative (beside_path key n) (beside_path dk n)) t4" by (simp add: ts)
    then show ?thesis using grows_keeps(3)[OF g4] unfolding links_to_def by simp
  qed
  have man: "file_at t (?nm @ [''.oath'', ''.link-manifest'']) (link_manifest graph)"
  proof (rule fs_write_direct[of t7])
    have i7: "late_inv ?nm t0 t7" using s by blast
    show "direct t7 ?nm [''.oath'', ''.link-manifest'']"
      using direct_in_stage[OF _ no_place_manifest] i7 unfolding late_inv_def by blast
    show "is_dir_at t7 ?nm" using i7 by (simp add: late_inv_def build_inv_def stage_inv_def)
    show "fs_write (?nm @ [''.oath'', ''.link-manifest'']) (link_manifest graph) t7 = Some t" using w ts by simp
  qed simp
  have il: "tree_lookup (?nm @ inner_path (key, node) n) t = None
      \<or> links_to ?nm (inner_path (key, node) n) (pathdiff_relative (inner_path (key, node) n) (beside_path dk n)) t"
    if kn: "(key, node) \<in> set (dg_nodes graph)" "source node = Some (Dir es)" "''node_modules'' \<notin> fst ` set es"
      and e: "(d, dk) \<in> set (dn_dependencies node)" "n = dep_install_name (dg_nodes graph) d dk"
      and n: "\<And>d' dk'. (d', dk') \<in> set (dn_dependencies node) \<Longrightarrow> dep_install_name (dg_nodes graph) d' dk' = n \<Longrightarrow> dk' = dk"
    for key node es d dk n
    using inner_only_link[OF ok ready st kn _ n] dep_name_valid[OF ok kn(1) e(1)] e(2) last by simp
  show ?thesis unfolding laid_out_def Let_def
  proof (intro conjI ballI, goal_cases)
    case 1 then show ?case by (rule nd)
  next
    case 2 then show ?case by (rule cp)
  next
    case (3 x) then show ?case using hl by auto
  next
    case (4 kn)
    obtain key node where kn: "kn = (key, node)" by (cases kn)
    show ?case unfolding kn prod.case
    proof (intro ballI, unfold case_prod_beta, intro impI conjI allI, goal_cases)
      case (1 e)
      then obtain dep where dep: "(snd e, dep) \<in> set (dg_nodes graph)" "source dep \<noteq> None" by blast
      show ?case by (rule bl[OF _ _ refl _ _ dep]) (use 1 4 kn in auto)
    next
      case (2 e es)
      show ?case by (rule il[where es = es and d = "fst e"]) (use 2 4 kn in auto)
    qed
  next
    case 5 then show ?case by (rule man)
  qed
qed

section \<open>The result of \<open>link_all\<close>\<close>

text \<open>The run has something to do: the layout that is in place is not the one of this graph.\<close>

definition link_builds :: "fs_faults \<Rightarrow> dep_graph \<Rightarrow> string list \<Rightarrow> ftree \<Rightarrow> bool" where
  "link_builds env graph project root \<longleftrightarrow>
     (case recover_link_transaction env project root of (Inl e, _) \<Rightarrow> False | (Inr _, root) \<Rightarrow> \<not> up_to_date graph project root)"

lemma link_all_laid_out:
  assumes dir: "tree_lookup project root = Some (Dir es)"
    and run: "link_all env blake3 store parse graph project root = (Inr res, root')"
    and builds: "link_builds env graph project root" and ready: "link_ready graph (package_source blake3 store)"
  shows "names_ok graph" "laid_out (package_source blake3 store) graph (live_path project) root'"
    "tree_lookup (stage_path project) root' = None" "is_dir_at root' project"
proof -
  have d: "is_dir_at root project" using dir by (simp add: is_dir_at_iff)
  have "names_ok graph \<and> laid_out (package_source blake3 store) graph (live_path project) root'
    \<and> tree_lookup (stage_path project) root' = None \<and> is_dir_at root' project"
  proof (cases rule: link_all_cases[OF run])
    case 3
    then show ?thesis using builds by (simp add: link_builds_def)
  next
    case (5 res' r0 t c)
    note f = recover_frame[OF d 5(1)]
    note b = build_frame[OF f(2) f(3)[OF refl] 5(2,4)]
    have c: "c = Inr ()" using 5(6) by (cases c) simp_all
    have free: "tree_lookup (project @ [''.oath-node_modules-stage'']) r0 = None" using b(4)[OF refl] by (simp add: stage_path_def)
    have "laid_out (package_source blake3 store) graph (stage_path project) t"
      unfolding stage_path_def by (rule stage_laid_out[OF f(2) free 5(2) ready]) (use 5(4) in \<open>simp add: stage_path_def\<close>)
    from laid_out_moved[OF _ this] show ?thesis using 5(2) commit_frame(2-4)[OF b(2) 5(5)] c by simp
  qed simp_all
  then show "names_ok graph" "laid_out (package_source blake3 store) graph (live_path project) root'"
    "tree_lookup (stage_path project) root' = None" "is_dir_at root' project" by blast+
qed

lemma laid_out_hoisted:
  assumes "laid_out source graph nm t" "names_ok graph" "hm_wf (dg_nodes graph)" "(n, k) \<in> set (lp_hoisted (build_plan graph))"
    "(k, node) \<in> set (dg_nodes graph)" "source node \<noteq> None"
  shows "real_path t (nm @ name_parts n) = Inr (nm @ beside_path k n)"
proof -
  have k: "map_of (dg_nodes graph) k = Some node" using assms(3,5) by (simp add: hm_wf_def)
  obtain node' where "(k, node') \<in> set (dg_nodes graph)" "install_name_of node' = n" using hoisted_in_plan(2)[OF assms(4)] by blast
  then have n: "install_name_of node = n" using k assms(3) by (simp add: hm_wf_def)
  have "copied source nm (k, node) t" using assms(1,5) by (auto simp: laid_out_def)
  then have "is_dir_at t (nm @ beside_path k n)" using assms(6) n by (auto simp: copied_def package_path_def)
  moreover have "links_to nm (name_parts n) (hoisted_text n k) t" using assms(1,4) k by (auto simp: laid_out_def)
  ultimately show ?thesis using plan_names_valid(1)[OF assms(2,4)] by (intro real_path_hoisted)
qed

lemma butlast_beside: "valid_name n \<Longrightarrow> butlast (beside_path k n) = vmods k @ scope_of n"
  by (simp add: butlast_append butlast_name_parts)

lemma beside_not_parent: "valid_name n \<Longrightarrow> beside_path dk n \<noteq> butlast (beside_path key n)"
proof
  assume "beside_path dk n = butlast (beside_path key n)"
  then have "length (beside_path dk n) = length (beside_path key n) - 1" by (metis length_butlast)
  then show False by simp
qed

lemma beside_not_inner_parent:
  assumes "valid_name n" "valid_name (install_name_of node)"
  shows "beside_path dk n \<noteq> butlast (inner_path (key, node) n)"
proof
  assume eq: "beside_path dk n = butlast (inner_path (key, node) n)"
  have "butlast (''node_modules'' # name_parts n) = ''node_modules'' # scope_of n" by (simp add: butlast_name_parts[OF assms(1)])
  then have "name_parts n @ [] = name_parts (install_name_of node) @ ''node_modules'' # scope_of n"
    using eq by (simp add: package_path_def butlast_append)
  from name_parts_prefix_free[OF assms this] show False by simp
qed

lemma laid_out_edge:
  assumes lo: "laid_out source graph nm t" and ok: "names_ok graph" and ready: "link_ready graph source"
    and kn: "(key, node) \<in> set (dg_nodes graph)" and d: "(d, dk) \<in> set (dn_dependencies node)" and dep: "(dk, dep) \<in> set (dg_nodes graph)" "source dep \<noteq> None"
    and n: "install_name_of dep \<noteq> install_name_of node"
      "\<forall>(d', dk')\<in>set (dn_dependencies node). dep_install_name (dg_nodes graph) d' dk' = install_name_of dep \<longrightarrow> dk' = dk"
  shows "real_path t (nm @ beside_path key (install_name_of dep)) = Inr (nm @ beside_path dk (install_name_of dep))"
    and "source node = Some (Dir es) \<Longrightarrow> ''node_modules'' \<notin> fst ` set es \<Longrightarrow>
      tree_lookup (nm @ inner_path (key, node) (install_name_of dep)) t = None
      \<or> real_path t (nm @ inner_path (key, node) (install_name_of dep)) = Inr (nm @ beside_path dk (install_name_of dep))"
proof -
  let ?n = "install_name_of dep"
  have wf: "hm_wf (dg_nodes graph)" using ready by (simp add: link_ready_def)
  have nn: "dep_install_name (dg_nodes graph) d dk = ?n" by (rule dep_install_name_of(1)[OF wf dep(1)])
  have v: "valid_name ?n" "valid_name (install_name_of node)" using node_name_valid[OF ok] dep(1) kn by blast+
  have safe: "\<forall>x\<in>set (beside_path dk ?n). safe_name x" using safe_virtual[OF v(1)] by blast
  have "copied source nm (dk, dep) t" using lo dep(1) by (auto simp: laid_out_def)
  then have there: "is_dir_at t (nm @ beside_path dk ?n)" using dep(2) by (auto simp: copied_def package_path_def)
  have "\<forall>(d, dk)\<in>set (dn_dependencies node). let n = dep_install_name (dg_nodes graph) d dk in
          n \<noteq> install_name_of node \<and> (\<forall>(d', dk')\<in>set (dn_dependencies node). dep_install_name (dg_nodes graph) d' dk' = n \<longrightarrow> dk' = dk) \<longrightarrow>
          ((\<exists>dep. (dk, dep) \<in> set (dg_nodes graph) \<and> source dep \<noteq> None) \<longrightarrow>
             links_to nm (beside_path key n) (pathdiff_relative (beside_path key n) (beside_path dk n)) t)
          \<and> (\<forall>es. source node = Some (Dir es) \<and> ''node_modules'' \<notin> fst ` set es \<longrightarrow>
               tree_lookup (nm @ inner_path (key, node) n) t = None
               \<or> links_to nm (inner_path (key, node) n) (pathdiff_relative (inner_path (key, node) n) (beside_path dk n)) t)"
    using lo kn unfolding laid_out_def by fast
  from this[THEN bspec, OF d, unfolded prod.case Let_def nn] n dep
  have l: "links_to nm (beside_path key ?n) (pathdiff_relative (beside_path key ?n) (beside_path dk ?n)) t"
    and i: "source node = Some (Dir es) \<Longrightarrow> ''node_modules'' \<notin> fst ` set es \<Longrightarrow> tree_lookup (nm @ inner_path (key, node) ?n) t = None
        \<or> links_to nm (inner_path (key, node) ?n) (pathdiff_relative (inner_path (key, node) ?n) (beside_path dk ?n)) t" by blast+
  show "real_path t (nm @ beside_path key ?n) = Inr (nm @ beside_path dk ?n)"
    by (rule real_path_pathdiff[OF l _ beside_not_parent[OF v(1)] safe there]) simp
  show "tree_lookup (nm @ inner_path (key, node) ?n) t = None \<or> real_path t (nm @ inner_path (key, node) ?n) = Inr (nm @ beside_path dk ?n)"
    if es: "source node = Some (Dir es)" "''node_modules'' \<notin> fst ` set es"
    using i[OF es] real_path_pathdiff[OF _ _ beside_not_inner_parent[OF v] safe there, of key] by fastforce
qed

text \<open>The store of the witnesses has the three packages of \<open>sample_conflict\<close>, which need two versions of one of them.\<close>

definition sample_files :: ftree where
  "sample_files = Dir [(''index.js'', File ''x''), (''lib'', Dir [(''a.js'', File ''y'')])]"

definition sample_store :: ftree where
  "sample_store = fold (\<lambda>kn t. case tree_put (package_dir_for (\<lambda>s. s) (dn_name (snd kn)) (dn_version (snd kn)) (Some (dn_resolved (snd kn))) (dn_integrity (snd kn))) sample_files t of
      Some t' \<Rightarrow> t' | None \<Rightarrow> t) (dg_nodes sample_conflict) (Dir [])"

definition sample_run :: "(link_error, link_result) result \<times> ftree" where
  "sample_run = link_all no_faults (\<lambda>s. s) sample_store (\<lambda>_. None) sample_conflict [''app''] (Dir [(''app'', Dir [])])"

lemma sample_sources: "\<forall>kn\<in>set (dg_nodes sample_conflict). package_source (\<lambda>s. s) sample_store (snd kn) = Some sample_files"
  by code_simp

lemma sample_run_ok: "fst sample_run = Inr \<lparr>lr_linked = 3, lr_symlinks = 3, lr_nested = 1, lr_bins = 0, lr_missing = 0\<rparr>"
  by code_simp

lemma sample_builds: "link_builds no_faults sample_conflict [''app''] (Dir [(''app'', Dir [])])"
  by code_simp

lemma sample_ready: "link_ready sample_conflict (package_source (\<lambda>s. s) sample_store)"
proof -
  have "tree_wf sample_files" by code_simp
  then have "\<forall>kn\<in>set (dg_nodes sample_conflict). \<forall>v. package_source (\<lambda>s. s) sample_store (snd kn) = Some v \<longrightarrow> tree_wf v"
    using sample_sources by auto
  moreover have "hm_wf (dg_nodes sample_conflict)" "[] \<notin> fst ` set (dg_nodes sample_conflict)"
    "\<forall>kn\<in>set (dg_nodes sample_conflict). install_name_of (snd kn) \<noteq> ''.bin''"
    by (simp_all add: sample_conflict_def hm_wf_def install_name_of_def sample_pkg_def)
  ultimately show ?thesis by (simp add: link_ready_def)
qed

lemma sample_run_cases:
  obtains res root' where "link_all no_faults (\<lambda>s. s) sample_store (\<lambda>_. None) sample_conflict [''app''] (Dir [(''app'', Dir [])]) = (Inr res, root')"
proof -
  show thesis
    using that[of _ "snd sample_run"] sample_run_ok unfolding sample_run_def by (metis prod.collapse)
qed

text \<open>
  A successful link run reproduces the store. Every package of the graph that is in the store has, at its place in \<open>node_modules/.oath\<close>, exactly
  the files of its store entry, each with the same content, and every hoisted name at the top leads to its package, through the symbolic links of the final tree.
\<close>

theorem link_all_layout:
  assumes dir: "tree_lookup project root = Some (Dir es)"
    and run: "link_all env blake3 store parse graph project root = (Inr res, root')"
    and builds: "link_builds env graph project root" and ready: "link_ready graph (package_source blake3 store)"
  shows "(\<forall>(k, node)\<in>set (dg_nodes graph). \<forall>v. package_source blake3 store node = Some v \<longrightarrow>
            (\<forall>q d. tree_lookup (virtual_dir (live_path project) k (install_name_of node) @ q) root' = Some (File d) \<longleftrightarrow> tree_lookup q v = Some (File d)))
    \<and> (\<forall>(n, k)\<in>set (lp_hoisted (build_plan graph)). \<forall>node. (k, node) \<in> set (dg_nodes graph) \<and> package_source blake3 store node \<noteq> None \<longrightarrow>
            real_path root' (live_path project @ name_parts n) = Inr (virtual_dir (live_path project) k n))"
proof -
  note lo = link_all_laid_out[OF assms]
  have wf: "hm_wf (dg_nodes graph)" using ready by (simp add: link_ready_def)
  have "copied (package_source blake3 store) (live_path project) kn root'" if "kn \<in> set (dg_nodes graph)" for kn
    using lo(2) that by (auto simp: laid_out_def)
  then have "tree_lookup (virtual_dir (live_path project) k (install_name_of node) @ q) root' = Some (File d) \<longleftrightarrow> tree_lookup q v = Some (File d)"
    if "(k, node) \<in> set (dg_nodes graph)" "package_source blake3 store node = Some v" for k node v q d
    using that virtual_dir_path[of _ "(k, node)"] by (fastforce simp: copied_def file_at_def)
  moreover have "real_path root' (live_path project @ name_parts n) = Inr (virtual_dir (live_path project) k n)"
    if "(n, k) \<in> set (lp_hoisted (build_plan graph))" "(k, node) \<in> set (dg_nodes graph)" "package_source blake3 store node \<noteq> None" for n k node
    using laid_out_hoisted[OF lo(2,1) wf that] by (simp add: virtual_dir_def virtual_modules_def)
  ultimately show ?thesis by blast
qed


theorem link_all_layout_witness:
  "\<exists>res root'. link_all no_faults (\<lambda>s. s) sample_store (\<lambda>_. None) sample_conflict [''app''] (Dir [(''app'', Dir [])]) = (Inr res, root')
     \<and> tree_lookup (virtual_dir [''app'', ''node_modules''] ''b@2'' ''b'' @ [''lib'', ''a.js'']) root' = Some (File ''y'')"
proof -
  obtain res root' where run: "link_all no_faults (\<lambda>s. s) sample_store (\<lambda>_. None) sample_conflict [''app''] (Dir [(''app'', Dir [])]) = (Inr res, root')"
    by (rule sample_run_cases)
  have "tree_lookup [''app''] (Dir [(''app'', Dir [])]) = Some (Dir [])" by simp
  note c = conjunct1[OF link_all_layout[OF this run sample_builds sample_ready]]
  have b: "(''b@2'', sample_pkg ''b'' ''2'' []) \<in> set (dg_nodes sample_conflict)" by (simp add: sample_conflict_def)
  have "package_source (\<lambda>s. s) sample_store (sample_pkg ''b'' ''2'' []) = Some sample_files" using bspec[OF sample_sources b] by simp
  from bspec[OF c b, unfolded prod.case, rule_format, OF this, of "[''lib'', ''a.js'']" "''y''"]
  have "tree_lookup (virtual_dir [''app'', ''node_modules''] ''b@2'' ''b'' @ [''lib'', ''a.js'']) root' = Some (File ''y'')"
    by (simp add: live_path_def install_name_of_def sample_pkg_def sample_files_def)
  then show ?thesis using run by blast
qed

text \<open>
  C5: Every package of the layout finds the version it was resolved with. Where a package depends on another one under a name that no other of its dependencies and not
  itself goes by, the entry of that name beside the package leads to exactly the resolved dependency, and an entry of that name inside the
  package, where Node looks first, is absent or leads to the same place, unless the package brings a \<open>node_modules\<close> of its own.
\<close>

theorem link_all_resolves:
  assumes dir: "tree_lookup project root = Some (Dir es)"
    and run: "link_all env blake3 store parse graph project root = (Inr res, root')"
    and builds: "link_builds env graph project root" and ready: "link_ready graph (package_source blake3 store)"
    and node: "(key, node) \<in> set (dg_nodes graph)" and edge: "(d, dk) \<in> set (dn_dependencies node)" and dep: "(dk, dep) \<in> set (dg_nodes graph)"
    and there: "package_source blake3 store dep \<noteq> None"
    and own: "package_source blake3 store node = Some (Dir fs)" "''node_modules'' \<notin> fst ` set fs"
    and name: "install_name_of dep \<noteq> install_name_of node"
      "\<forall>(d', dk')\<in>set (dn_dependencies node). dep_install_name (dg_nodes graph) d' dk' = install_name_of dep \<longrightarrow> dk' = dk"
  shows "real_path root' (virtual_modules (live_path project) key @ name_parts (install_name_of dep)) = Inr (virtual_dir (live_path project) dk (install_name_of dep))
    \<and> (let inner = virtual_dir (live_path project) key (install_name_of node) @ ''node_modules'' # name_parts (install_name_of dep) in
        tree_lookup inner root' = None \<or> real_path root' inner = Inr (virtual_dir (live_path project) dk (install_name_of dep)))"
proof -
  note lo = link_all_laid_out[OF dir run builds ready]
  note e = laid_out_edge[OF lo(2,1) ready node edge dep there name]
  have p: "virtual_dir (live_path project) key (install_name_of node) @ x = live_path project @ package_path (key, node) @ x" for x
    using virtual_dir_path[of _ "(key, node)"] by simp
  show ?thesis using e(1) e(2)[OF own] unfolding Let_def p by (simp add: virtual_dir_def virtual_modules_def)
qed

theorem link_all_resolves_witness:
  "\<exists>res root'. link_all no_faults (\<lambda>s. s) sample_store (\<lambda>_. None) sample_conflict [''app''] (Dir [(''app'', Dir [])]) = (Inr res, root')
     \<and> real_path root' (virtual_modules [''app'', ''node_modules''] ''a@1'' @ [''b'']) = Inr (virtual_dir [''app'', ''node_modules''] ''b@2'' ''b'')"
proof -
  obtain res root' where run: "link_all no_faults (\<lambda>s. s) sample_store (\<lambda>_. None) sample_conflict [''app''] (Dir [(''app'', Dir [])]) = (Inr res, root')"
    by (rule sample_run_cases)
  let ?a = "sample_pkg ''a'' ''1'' [(''b'', ''b@2'')]" and ?b = "sample_pkg ''b'' ''2'' []"
  have dir: "tree_lookup [''app''] (Dir [(''app'', Dir [])]) = Some (Dir [])" by simp
  have a: "(''a@1'', ?a) \<in> set (dg_nodes sample_conflict)" and b: "(''b@2'', ?b) \<in> set (dg_nodes sample_conflict)" by (simp_all add: sample_conflict_def)
  have edge: "(''b'', ''b@2'') \<in> set (dn_dependencies ?a)" by (simp add: sample_pkg_def)
  have there: "package_source (\<lambda>s. s) sample_store ?b \<noteq> None" using bspec[OF sample_sources b] by simp
  have own: "package_source (\<lambda>s. s) sample_store ?a = Some (Dir [(''index.js'', File ''x''), (''lib'', Dir [(''a.js'', File ''y'')])])"
    using bspec[OF sample_sources a] by (simp add: sample_files_def)
  have names: "install_name_of ?b = ''b''" "install_name_of ?a = ''a''" by (simp_all add: install_name_of_def sample_pkg_def)
  have only: "\<forall>(d', dk')\<in>set (dn_dependencies ?a). dep_install_name (dg_nodes sample_conflict) d' dk' = install_name_of ?b \<longrightarrow> dk' = ''b@2''"
    by (simp add: sample_pkg_def)
  have differ: "install_name_of ?b \<noteq> install_name_of ?a" by (simp add: names)
  have "real_path root' (virtual_modules (live_path [''app'']) ''a@1'' @ name_parts (install_name_of ?b)) = Inr (virtual_dir (live_path [''app'']) ''b@2'' (install_name_of ?b))"
    by (rule conjunct1[OF link_all_resolves[OF dir run sample_builds sample_ready a edge b there own _ differ only]]) simp
  then show ?thesis using run by (auto simp: names live_path_def)
qed

text \<open>
  C37: Linking is idempotent. After a run that built the layout, linking the same graph again, whatever the store and the registry then hold and whatever calls
  fail, changes nothing but a backup that the first run could not remove. The second run reports every package as linked, or fails because it
  cannot remove that backup either; where no backup was left, it succeeds at once and leaves the file system as it is.
\<close>

theorem link_all_idempotent:
  assumes dir: "tree_lookup project root = Some (Dir es)"
    and run: "link_all env blake3 store parse graph project root = (Inr res, root')"
    and builds: "link_builds env graph project root" and ready: "link_ready graph (package_source blake3 store)"
    and again: "link_all env' blake3' store' parse' graph project root' = (r, root'')"
  shows "(r = Inr (default_link_result\<lparr>lr_linked := length (dg_nodes graph)\<rparr>)
        \<or> r = Inl Remove_backup_failed \<and> remove_dir_all env' Remove_backup_failed (backup_path project) root' = (Inl Remove_backup_failed, root''))
    \<and> (\<forall>q. disjoint_paths (backup_path project) q \<longrightarrow> tree_lookup q root'' = tree_lookup q root')
    \<and> (tree_lookup (backup_path project) root' = None \<longrightarrow> is_ok r \<and> root'' = root')"
proof -
  note lo = link_all_laid_out[OF dir run builds ready]
  let ?B = "backup_path project" and ?S = "stage_path project" and ?L = "live_path project"
  have live: "is_dir_at root' ?L" and man: "file_at root' (?L @ [''.oath'', ''.link-manifest'']) (link_manifest graph)"
    using lo(2) by (simp_all add: laid_out_def)
  have up: "up_to_date graph project u" if "\<And>q. disjoint_paths ?B q \<Longrightarrow> tree_lookup q u = tree_lookup q root'" for u
  proof -
    have "disjoint_paths ?B (?L @ q)" for q using nm_paths(5)[of project] unfolding disjoint_paths_def live_path_def backup_path_def by (auto simp: prefix_append)
    then have "is_dir_at u ?L" "file_at u (?L @ [''.oath'', ''.link-manifest'']) (link_manifest graph)"
      using live man that[of ?L] that[of "?L @ [''.oath'', ''.link-manifest'']"] nm_paths(5)[of project] by (simp_all add: is_dir_at_iff file_at_def)
    then show ?thesis using real_path_dir real_path_file by (simp add: up_to_date_def path_exists_def fs_read_def file_at_def)
  qed
  have stage: "clean_stage env' project u = (Inr (), u)" if "is_dir_at u project" "tree_lookup ?S u = None" for u
    using path_exists_entry_None[OF that(1), of "''.oath-node_modules-stage''"] that(2) by (simp add: clean_stage_def act_get_def act_return_def stage_path_def)
  show ?thesis
  proof (cases "path_exists root' ?B")
    case False
    then have "recover_link_transaction env' project root' = (Inr (), root')"
      using stage[OF lo(4,3)] by (simp add: recover_link_transaction_def recover_backup_def act_bind_def act_get_def act_return_def)
    then show ?thesis using again up[of root'] lo(1) by (auto simp: link_all_def names_ok_def)
  next
    case True
    have "path_exists root' ?L" using real_path_dir[OF live] by (simp add: path_exists_def)
    then have b: "recover_backup env' project root' = remove_dir_all env' Remove_backup_failed ?B root'" using True by (simp add: recover_backup_def act_get_def)
    obtain r1 t1 where c: "remove_dir_all env' Remove_backup_failed ?B root' = (r1, t1)" by (cases "remove_dir_all env' Remove_backup_failed ?B root'")
    note e = remove_dir_all_effect[OF c]
    have there: "tree_lookup ?B root' \<noteq> None" using True path_exists_entry_None[OF lo(4), of "''.oath-node_modules-backup''"] by (auto simp: backup_path_def)
    show ?thesis
    proof (cases r1)
      case (Inl x)
      then have "recover_link_transaction env' project root' = (Inl Remove_backup_failed, t1)" "x = Remove_backup_failed"
        using b c e(3) by (auto simp: recover_link_transaction_def act_bind_def)
      then have "r = Inl Remove_backup_failed" "root'' = t1" using again lo(1) by (auto simp: link_all_def names_ok_def)
      then show ?thesis using c Inl \<open>x = _\<close> e(1) there by simp
    next
      case (Inr x)
      have d: "is_dir_at t1 project" using remove_dir_all_dir[of env' _ project "''.oath-node_modules-backup''" root'] c lo(4) by (simp add: backup_path_def)
      have "tree_lookup ?S t1 = None" using e(1)[of ?S] lo(3) by simp
      then have "recover_link_transaction env' project root' = (Inr (), t1)"
        using b c Inr stage[OF d] by (simp add: recover_link_transaction_def act_bind_def)
      then have "r = Inr (default_link_result\<lparr>lr_linked := length (dg_nodes graph)\<rparr>)" "root'' = t1"
        using again lo(1) up[of t1] e(1) by (auto simp: link_all_def names_ok_def)
      then show ?thesis using e(1) there by auto
    qed
  qed
qed

theorem link_all_idempotent_witness:
  "\<exists>res root'. link_all no_faults (\<lambda>s. s) sample_store (\<lambda>_. None) sample_conflict [''app''] (Dir [(''app'', Dir [])]) = (Inr res, root')
     \<and> link_all no_faults (\<lambda>s. s) (Dir []) (\<lambda>_. None) sample_conflict [''app''] root' = (Inr (default_link_result\<lparr>lr_linked := 3\<rparr>), root')"
proof -
  obtain res root' where run: "link_all no_faults (\<lambda>s. s) sample_store (\<lambda>_. None) sample_conflict [''app''] (Dir [(''app'', Dir [])]) = (Inr res, root')"
    by (rule sample_run_cases)
  have dir: "tree_lookup [''app''] (Dir [(''app'', Dir [])]) = Some (Dir [])" by simp
  obtain r root'' where again: "link_all no_faults (\<lambda>s. s) (Dir []) (\<lambda>_. None) sample_conflict [''app''] root' = (r, root'')"
    by (cases "link_all no_faults (\<lambda>s. s) (Dir []) (\<lambda>_. None) sample_conflict [''app''] root'")
  note c = link_all_idempotent[OF dir run sample_builds sample_ready again]
  have "tree_lookup (backup_path [''app'']) (snd sample_run) = None" by code_simp
  then have "tree_lookup (backup_path [''app'']) root' = None" using run by (simp add: sample_run_def)
  moreover have "length (dg_nodes sample_conflict) = 3" by (simp add: sample_conflict_def)
  ultimately show ?thesis using c run again by auto
qed

text \<open>
  A package that depends on another version of itself gets no link for it when that version is the hoisted one: the plan lists no nested link, and beside the
  package the name is its own directory.
\<close>

definition self_graph :: dep_graph where
  "self_graph = new_graph\<lparr>dg_nodes := [(''b@1'', sample_pkg ''b'' ''1'' []), (''b@2'', sample_pkg ''b'' ''2'' [(''b'', ''b@1'')])],
     dg_roots := [''b@1'']\<rparr>"

lemma self_dependency_unlinked:
  "case build_stage (\<lambda>_. Some (Dir [])) (\<lambda>_. None) self_graph [''s''] (Dir []) of (r, t) \<Rightarrow>
     is_ok r \<and> real_path t (virtual_modules [''s''] ''b@2'' @ [''b'']) = Inr (virtual_dir [''s''] ''b@2'' ''b'')
     \<and> real_path t (virtual_dir [''s''] ''b@2'' ''b'' @ [''node_modules'', ''b'']) = Inl Not_found"
  by code_simp

end
