(* ===== verification/Link_Recovery.thy ===== *)
theory Link_Recovery
  imports Link_Build
begin

text \<open>
  What a project goes through: link runs that return, with or without an error, and runs that are cut off. Every run of \<open>link_all\<close> takes steps of
  \<open>link_step\<close>, whichever calls fail, so a run that dies has taken some of these steps. From this history follows what the next run's recovery finds and
  leaves.
\<close>

section \<open>A run of \<open>link_all\<close> takes the steps\<close>

text \<open>Every stage this graph's construction finishes is a finished layout.\<close>

definition finishes_complete :: "(ftree \<Rightarrow> bool) \<Rightarrow> (dep_node \<Rightarrow> ftree option) \<Rightarrow> (string \<Rightarrow> json option) \<Rightarrow> dep_graph \<Rightarrow> string list \<Rightarrow> bool" where
  "finishes_complete complete source parse graph project \<longleftrightarrow>
     (\<forall>t t' res x. build_stage source parse graph (stage_path project) t = (Inr res, t') \<and> tree_lookup (stage_path project) t' = Some x \<longrightarrow> complete x)"

lemma build_steps:
  assumes dir: "is_dir_at r0 project" and v: "only_dirs (nm_view project r0)" "nm_stage (nm_view project r0) = None" and ok: "names_ok graph"
    and b: "build_stage source parse graph (stage_path project) r0 = (r, t)"
  shows "(link_step complete)\<^sup>*\<^sup>* (Building, nm_view project r0) (Building, nm_view project t) \<and> only_dirs (nm_view project t)"
proof -
  have free: "\<not> path_exists r0 (stage_path project)" using entry_exists(2)[OF dir only_dirs_no_links[OF v(1)]] v(2) by simp
  note f = build_frame[OF dir free ok b]
  consider "t = r0" | es where "tree_lookup (stage_path project) t = Some (Dir es)" using f(3) by (auto simp: is_dir_at_iff)
  then show ?thesis
  proof cases
    case (2 es)
    then have "nm_view project t = (nm_view project r0)\<lparr>nm_stage := Some (Dir es)\<rparr>" using f(1) by (simp add: nm_view_def)
    then show ?thesis using link_steps_one[OF build, of complete "nm_view project r0" es] v(1) by (simp add: only_dirs_iff)
  qed (use v in simp)
qed

lemma link_all_steps:
  assumes dir: "is_dir_at root project" and v: "only_dirs (nm_view project root)"
    and run: "link_all env blake3 store parse graph project root = (r, root')"
    and fin: "finishes_complete complete (package_source blake3 store) parse graph project"
  shows "(link_step complete)\<^sup>*\<^sup>* (Idle, nm_view project root) (Idle, nm_view project root')" "is_dir_at root' project"
proof -
  have enter: "(link_step complete)\<^sup>*\<^sup>* (Idle, nm_view project root) b" if "(link_step complete)\<^sup>*\<^sup>* (Recovering, nm_view project root) b" for b
    by (rule link_steps_before[OF start that])
  have leave: "(link_step complete)\<^sup>*\<^sup>* a (Idle, s)" if "(link_step complete)\<^sup>*\<^sup>* a (p, s)" for a p s
    using that stop by (rule rtranclp.rtrancl_into_rtrancl)
  note n = only_dirs_no_links[OF v]
  have "(link_step complete)\<^sup>*\<^sup>* (Idle, nm_view project root) (Idle, nm_view project root') \<and> is_dir_at root' project"
  proof (cases rule: link_all_cases[OF run])
    case (1 e)
    then show ?thesis using dir by simp
  next
    case (2 e)
    then show ?thesis using recover_steps[OF dir v 2(2), of complete] recover_frame(2)[OF dir 2(2)] enter by simp
  next
    case 3
    then show ?thesis using recover_steps[OF dir v 3(2), of complete] recover_frame(2)[OF dir 3(2)] leave[OF enter] by fastforce
  next
    case (4 e r0)
    note s = recover_steps[OF dir v 4(2), of complete] and f = recover_frame[OF dir 4(2)]
    have "nm_stage (nm_view project r0) = None" using recover_view(3)[OF dir n 4(2) refl] by simp
    note b = build_steps[OF f(2) conjunct2[OF s] this 4(3,4), of complete]
    show ?thesis using rtranclp_trans[OF enter[OF conjunct1[OF s]], simplified, OF conjunct1[OF b]] leave build_frame(2)[OF f(2) f(3)[OF refl] 4(3,4)] by blast
  next
    case (5 res r0 t c)
    note s = recover_steps[OF dir v 5(1), of complete] and f = recover_frame[OF dir 5(1)]
    note w = recover_view(3)[OF dir n 5(1) refl] and g = build_frame[OF f(2) f(3)[OF refl] 5(2,4)]
    have "nm_stage (nm_view project r0) = None" using w by simp
    note b = build_steps[OF f(2) conjunct2[OF s] this 5(2,4), of complete]
    obtain x where x: "nm_stage (nm_view project t) = Some x" using g(4)[OF refl] by (auto simp: nm_view_def is_dir_at_iff)
    then have "complete x" using fin 5(4) by (auto simp: finishes_complete_def nm_view_def)
    then have m: "link_step complete (Building, nm_view project t) (Committing, nm_view project t)" by (rule built[OF x])
    have "nm_backup (nm_view project t) = None" using w g(1) by (simp add: nm_view_def)
    note c = commit_steps[OF g(2) conjunct2[OF b] this 5(5), of complete]
    show ?thesis
      using rtranclp_trans[OF enter[OF conjunct1[OF s]], simplified, OF conjunct1[OF b]] m conjunct1[OF c] commit_frame(2)[OF g(2) 5(5)]
      by (meson rtranclp.rtrancl_into_rtrancl rtranclp_trans)
  qed
  then show "(link_step complete)\<^sup>*\<^sup>* (Idle, nm_view project root) (Idle, nm_view project root')" "is_dir_at root' project" by blast+
qed

section \<open>The history of a project\<close>

inductive link_history :: "(ftree \<Rightarrow> bool) \<Rightarrow> string list \<Rightarrow> ftree \<Rightarrow> ftree \<Rightarrow> bool" for complete project root0 where
  no_run: "link_history complete project root0 root0"
| returned: "link_history complete project root0 root \<Longrightarrow> link_all env blake3 store parse graph project root = (r, root') \<Longrightarrow>
    finishes_complete complete (package_source blake3 store) parse graph project \<Longrightarrow> link_history complete project root0 root'"
| cut_off: "link_history complete project root0 root \<Longrightarrow> (link_step complete)\<^sup>*\<^sup>* (Idle, nm_view project root) (p, nm_view project root') \<Longrightarrow>
    is_dir_at root' project \<Longrightarrow> link_history complete project root0 root'"

lemma link_history_inv:
  assumes "link_history complete project root0 root" "is_dir_at root0 project" "link_inv complete (Idle, nm_view project root0)"
  shows "is_dir_at root project" "link_inv complete (Idle, nm_view project root)"
    "installed (nm_view project root0) \<noteq> None \<longrightarrow> installed (nm_view project root) \<noteq> None"
proof -
  have "is_dir_at root project \<and> link_inv complete (Idle, nm_view project root)
    \<and> (installed (nm_view project root0) \<noteq> None \<longrightarrow> installed (nm_view project root) \<noteq> None)"
    using assms
  proof (induction rule: link_history.induct)
    case (returned root env blake3 store parse graph r root')
    then have i: "is_dir_at root project" "link_inv complete (Idle, nm_view project root)" by blast+
    then have "only_dirs (nm_view project root)" by (simp add: link_inv_def)
    note s = link_all_steps[OF i(1) this returned.hyps(2,3)]
    show ?case using link_reachable[OF s(1) i(2)] s(2) returned by blast
  next
    case (cut_off root p root')
    then have "link_inv complete (Idle, nm_view project root)" by blast
    note r = link_reachable[OF cut_off.hyps(2) this]
    then show ?case using link_inv_idle cut_off by blast
  qed simp
  then show "is_dir_at root project" "link_inv complete (Idle, nm_view project root)"
    "installed (nm_view project root0) \<noteq> None \<longrightarrow> installed (nm_view project root) \<noteq> None" by blast+
qed

text \<open>
  C7: Whatever sequence of complete, failed, crashed and restarted link runs a project has gone through, the
  next run's \<open>recover_link_transaction\<close> loses nothing. Whichever of its calls fail, the project keeps a finished layout, never a part of one, in place or in the backup: the last
  one promoted, or the one from before; a project that had a layout still has one, and nothing outside the three directories has changed. When recovery returns without an
  error, that layout is at \<open>node_modules\<close> and the stage and the backup are gone; it does so whenever no call fails. At the start the three entries of the project
  are directories or missing.
\<close>

theorem link_transaction_recovers:
  assumes "link_history complete project root0 root"
    and "\<forall>t. installed (nm_view project root0) = Some t \<longrightarrow> complete t"
    and "is_dir_at root0 project" "only_dirs (nm_view project root0)"
    and "recover_link_transaction env project root = (r, root')"
  shows "installed (nm_view project root') = installed (nm_view project root)
    \<and> (\<forall>t. installed (nm_view project root') = Some t \<longrightarrow> complete t)
    \<and> (installed (nm_view project root0) \<noteq> None \<longrightarrow> installed (nm_view project root') \<noteq> None)
    \<and> (\<forall>q. elsewhere project q \<longrightarrow> tree_lookup q root' = tree_lookup q root)
    \<and> (r = Inr () \<longrightarrow> tree_lookup (live_path project) root' = installed (nm_view project root)
        \<and> tree_lookup (stage_path project) root' = None \<and> tree_lookup (backup_path project) root' = None)
    \<and> (env = no_faults \<longrightarrow> r = Inr ())"
proof -
  have i0: "link_inv complete (Idle, nm_view project root0)" using assms(2,4) by (simp add: link_inv_def)
  note h = link_history_inv[OF assms(1,3) i0]
  have d: "only_dirs (nm_view project root)" and c: "\<forall>t. installed (nm_view project root) = Some t \<longrightarrow> complete t"
    using h(2) by (simp_all add: link_inv_def)
  note v = recover_view[OF h(1) only_dirs_no_links[OF d] assms(5)]
  have "env = no_faults \<longrightarrow> r = Inr ()" using recover_succeeds[OF h(1) d] assms(5) by auto
  then show ?thesis using v(1,3) c h(3) recover_frame(1)[OF h(1) assms(5)] by (simp add: nm_view_def)
qed

text \<open>The witness: a crash after the old layout was set aside and before the new one was promoted.\<close>

theorem link_transaction_recovers_witness:
  "\<exists>root'. recover_link_transaction no_faults [''app''] (Dir [(''app'', Dir [(''.oath-node_modules-backup'', Dir [(''a'', Dir [])]),
        (''.oath-node_modules-stage'', Dir [(''b'', Dir [])])])]) = (Inr (), root')
    \<and> tree_lookup [''app'', ''node_modules''] root' = Some (Dir [(''a'', Dir [])])"
proof -
  let ?old = "Dir [(''a'', Dir [])]" and ?new = "Dir [(''b'', Dir [])]"
  let ?before = "Dir [(''app'', Dir [(''node_modules'', ?old)])]"
  let ?root = "Dir [(''app'', Dir [(''.oath-node_modules-backup'', ?old), (''.oath-node_modules-stage'', ?new)])]"
  let ?step = "link_step (\<lambda>t. t \<noteq> Dir [])"
  let ?s0 = "\<lparr>nm_live = Some ?old, nm_stage = None, nm_backup = None\<rparr>"
  let ?s1 = "\<lparr>nm_live = Some ?old, nm_stage = Some ?new, nm_backup = None\<rparr>"
  let ?s2 = "\<lparr>nm_live = None, nm_stage = Some ?new, nm_backup = Some ?old\<rparr>"
  have v0: "nm_view [''app''] ?before = ?s0" and v: "nm_view [''app''] ?root = ?s2"
    by (simp_all add: nm_view_def live_path_def stage_path_def backup_path_def)
  have a: "?step (Idle, ?s0) (Recovering, ?s0)" by (rule link_step.start)
  have a2: "?step (Recovering, ?s0) (Cleaning, ?s0)" by (rule link_step.nothing_to_recover) simp
  have b: "?step (Cleaning, ?s0) (Building, ?s0)" using link_step.drop_stage[of _ ?s0] by simp
  have c: "?step (Building, ?s0) (Building, ?s1)" using link_step.build[of _ ?s0 "[(''b'', Dir [])]"] by simp
  have d: "?step (Building, ?s1) (Committing, ?s1)" by (rule link_step.built[where x = ?new]) simp_all
  have e: "?step (Committing, ?s1) (Promoting, ?s2)" using link_step.set_aside[of ?s1 ?old] by simp
  have run: "?step\<^sup>*\<^sup>* (Idle, nm_view [''app''] ?before) (Promoting, nm_view [''app''] ?root)"
    unfolding v v0 by (rule link_steps_before[OF a link_steps_before[OF a2 link_steps_before[OF b link_steps_before[OF c link_steps_two[OF d e]]]]])
  have h: "link_history (\<lambda>t. t \<noteq> Dir []) [''app''] ?before ?root"
    by (rule link_history.cut_off[OF link_history.no_run run]) (simp add: is_dir_at_def)
  obtain r root' where rec: "recover_link_transaction no_faults [''app''] ?root = (r, root')"
    by (cases "recover_link_transaction no_faults [''app''] ?root")
  have i: "\<forall>t. installed (nm_view [''app''] ?before) = Some t \<longrightarrow> t \<noteq> Dir []" by (simp add: v0 installed_def)
  have o: "only_dirs (nm_view [''app''] ?before)" by (simp add: v0 only_dirs_iff)
  have p: "is_dir_at ?before [''app'']" by (simp add: is_dir_at_def)
  have u: "installed (nm_view [''app''] ?root) = Some ?old" unfolding v by (simp add: installed_def)
  note z = link_transaction_recovers[OF h i p o rec]
  have "r = Inr ()" using z by blast
  moreover from this have "tree_lookup (live_path [''app'']) root' = Some ?old" using z u by simp
  ultimately show ?thesis using rec by (simp add: live_path_def)
qed

end
