(* ===== verification/Analyze_Report.thy ===== *)
theory Analyze_Report
  imports Prelude
begin

text \<open>
  The data of the static analyser and its scan for known strings (\<open>crates/oath-analyze/src/report.rs\<close>, \<open>patterns.rs\<close> and
  \<open>analyzer.rs\<close>): findings, capabilities, the table of patterns as it stands in the source, and the scan that turns an occurrence of a
  pattern into a finding. A source text is the list of its UTF-8 bytes. What the visitor finds in the syntax tree is an argument.
\<close>

section \<open>Reports\<close>

datatype finding_risk = Risk_clean | Risk_info | Risk_low | Risk_medium | Risk_high | Risk_critical

fun finding_risk_text :: "finding_risk \<Rightarrow> string" where
  "finding_risk_text Risk_clean = ''CLEAN''"
| "finding_risk_text Risk_info = ''INFO''"
| "finding_risk_text Risk_low = ''LOW''"
| "finding_risk_text Risk_medium = ''MEDIUM''"
| "finding_risk_text Risk_high = ''HIGH''"
| "finding_risk_text Risk_critical = ''CRITICAL''"

datatype finding_kind =
    Network | Filesystem | EnvAccess | Subprocess | DynamicExec | Obfuscation | InstallScript | Typosquatting | DataExfiltration
  | CryptoMiner | ShadowDep | CredentialHarvest | ConditionalPayload | Slopsquatting | BracketNotation | CiTargeting | SilentSubprocess
  | EnvPathOverwrite | ModuleLoaderPatch | NativeAddon

record finding =
  fd_kind :: finding_kind
  fd_risk :: finding_risk
  fd_message :: string
  fd_file :: string
  fd_line :: nat
  fd_snippet :: "string option"

record capabilities =
  cap_network :: bool
  cap_filesystem :: bool
  cap_env_access :: bool
  cap_subprocess :: bool
  cap_dynamic_exec :: bool
  cap_install_scripts :: bool
  cap_native_addon :: bool

definition no_capabilities :: capabilities where
  "no_capabilities = \<lparr>cap_network = False, cap_filesystem = False, cap_env_access = False, cap_subprocess = False,
     cap_dynamic_exec = False, cap_install_scripts = False, cap_native_addon = False\<rparr>"

record analysis_report =
  ar_package_name :: string
  ar_package_version :: string
  ar_overall_risk :: finding_risk
  ar_findings :: "finding list"
  ar_files_scanned :: nat
  ar_lines_scanned :: nat
  ar_capabilities :: capabilities
  ar_verdict_reasons :: "string list"

section \<open>Patterns\<close>

record pattern =
  pt_id :: string
  pt_kind :: finding_kind
  pt_risk :: finding_risk
  pt_description :: string
  pt_strings :: "string list"

abbreviation sq :: char where "sq \<equiv> CHR 0x27"
abbreviation dq :: char where "dq \<equiv> CHR 0x22"

definition network_file_patterns :: "pattern list" where
  "network_file_patterns =
    [
     \<lparr>pt_id = ''net-fetch'', pt_kind = Network, pt_risk = Risk_info, pt_description = ''Uses fetch() API for network requests'',
       pt_strings = [''fetch('',
         ''fetch ('']\<rparr>,
     \<lparr>pt_id = ''net-http-require'', pt_kind = Network, pt_risk = Risk_low, pt_description = ''Requires http/https/net module'',
       pt_strings = [''require('' @ [sq] @ ''http'' @ [sq] @ '')'',
         ''require('' @ [dq] @ ''http'' @ [dq] @ '')'',
         ''require('' @ [sq] @ ''https'' @ [sq] @ '')'',
         ''require('' @ [dq] @ ''https'' @ [dq] @ '')'',
         ''require('' @ [sq] @ ''net'' @ [sq] @ '')'',
         ''require('' @ [dq] @ ''net'' @ [dq] @ '')'',
         ''require('' @ [sq] @ ''tls'' @ [sq] @ '')'',
         ''require('' @ [dq] @ ''tls'' @ [dq] @ '')'',
         ''require('' @ [sq] @ ''dns'' @ [sq] @ '')'',
         ''require('' @ [dq] @ ''dns'' @ [dq] @ '')'']\<rparr>,
     \<lparr>pt_id = ''net-axios'', pt_kind = Network, pt_risk = Risk_info, pt_description = ''Uses axios for HTTP requests'',
       pt_strings = [''require('' @ [sq] @ ''axios'' @ [sq] @ '')'',
         ''require('' @ [dq] @ ''axios'' @ [dq] @ '')'',
         ''from '' @ [sq] @ ''axios'' @ [sq],
         ''from '' @ [dq] @ ''axios'' @ [dq]]\<rparr>,
     \<lparr>pt_id = ''net-got'', pt_kind = Network, pt_risk = Risk_info, pt_description = ''Uses got/node-fetch for HTTP requests'',
       pt_strings = [''require('' @ [sq] @ ''got'' @ [sq] @ '')'',
         ''require('' @ [sq] @ ''node-fetch'' @ [sq] @ '')'',
         ''require('' @ [dq] @ ''got'' @ [dq] @ '')'',
         ''require('' @ [dq] @ ''node-fetch'' @ [dq] @ '')'']\<rparr>,
     \<lparr>pt_id = ''net-socket-connect'', pt_kind = Network, pt_risk = Risk_medium, pt_description = ''Creates raw TCP/socket connection'',
       pt_strings = [''.connect('',
         ''net.createConnection'',
         ''new net.Socket'']\<rparr>,
     \<lparr>pt_id = ''fs-require'', pt_kind = Filesystem, pt_risk = Risk_low, pt_description = ''Requires fs module'',
       pt_strings = [''require('' @ [sq] @ ''fs'' @ [sq] @ '')'',
         ''require('' @ [dq] @ ''fs'' @ [dq] @ '')'',
         ''require('' @ [sq] @ ''fs/promises'' @ [sq] @ '')'',
         ''require('' @ [dq] @ ''fs/promises'' @ [dq] @ '')'',
         ''require('' @ [sq] @ ''node:fs'' @ [sq] @ '')'',
         ''require('' @ [dq] @ ''node:fs'' @ [dq] @ '')'']\<rparr>,
     \<lparr>pt_id = ''fs-write-home'', pt_kind = Filesystem, pt_risk = Risk_high, pt_description = ''Writes to home directory or system paths'',
       pt_strings = [''process.env.HOME'',
         ''os.homedir()'',
         ''~/.ssh'',
         ''~/.aws'',
         ''~/.npmrc'',
         ''/.ssh/'',
         ''/.aws/credentials'']\<rparr>,
     \<lparr>pt_id = ''fs-read-sensitive'', pt_kind = Filesystem, pt_risk = Risk_high, pt_description = ''Reads SSH keys, credential paths, or /etc/passwd'',
       pt_strings = [''id_rsa'',
         ''id_ed25519'',
         ''/.ssh/'',
         ''/.aws/credentials'',
         ''/etc/passwd'',
         ''/etc/shadow'']\<rparr>]"

definition env_process_patterns :: "pattern list" where
  "env_process_patterns =
    [
     \<lparr>pt_id = ''env-sensitive'', pt_kind = EnvAccess, pt_risk = Risk_high, pt_description = ''Accesses sensitive environment variables (tokens/keys/secrets)'',
       pt_strings = [''NPM_TOKEN'',
         ''AWS_SECRET'',
         ''AWS_ACCESS_KEY'',
         ''GITHUB_TOKEN'',
         ''GH_TOKEN'',
         ''API_KEY'',
         ''SECRET_KEY'',
         ''PRIVATE_KEY'',
         ''DATABASE_URL'',
         ''CI_TOKEN'',
         ''SLACK_TOKEN'',
         ''DISCORD_TOKEN'']\<rparr>,
     \<lparr>pt_id = ''env-access'', pt_kind = EnvAccess, pt_risk = Risk_info, pt_description = ''Reads environment variables'',
       pt_strings = [''process.env'']\<rparr>,
     \<lparr>pt_id = ''subprocess-require'', pt_kind = Subprocess, pt_risk = Risk_medium, pt_description = ''Requires child_process module'',
       pt_strings = [''require('' @ [sq] @ ''child_process'' @ [sq] @ '')'',
         ''require('' @ [dq] @ ''child_process'' @ [dq] @ '')'',
         ''require('' @ [sq] @ ''node:child_process'' @ [sq] @ '')'',
         ''require('' @ [dq] @ ''node:child_process'' @ [dq] @ '')'']\<rparr>,
     \<lparr>pt_id = ''subprocess-exec'', pt_kind = Subprocess, pt_risk = Risk_high, pt_description = ''Executes shell commands'',
       pt_strings = [''.execSync('',
         ''.spawnSync('',
         ''.execFileSync('',
         ''child_process.exec('',
         ''shelljs'',
         ''shell.exec('',
         ''require('' @ [sq] @ ''shelljs'' @ [sq] @ '')'',
         ''require('' @ [dq] @ ''shelljs'' @ [dq] @ '')'']\<rparr>,
     \<lparr>pt_id = ''eval-direct'', pt_kind = DynamicExec, pt_risk = Risk_high, pt_description = ''Uses eval() for dynamic code execution'',
       pt_strings = [''eval('',
         '' eval '']\<rparr>,
     \<lparr>pt_id = ''eval-function'', pt_kind = DynamicExec, pt_risk = Risk_high, pt_description = ''Uses new Function() for dynamic code execution'',
       pt_strings = [''new Function('',
         ''new Function ('']\<rparr>,
     \<lparr>pt_id = ''eval-vm'', pt_kind = DynamicExec, pt_risk = Risk_high, pt_description = ''Uses Node.js vm module for dynamic execution'',
       pt_strings = [''require('' @ [sq] @ ''vm'' @ [sq] @ '')'',
         ''require('' @ [dq] @ ''vm'' @ [dq] @ '')'',
         ''vm.runInNewContext'',
         ''vm.runInThisContext'',
         ''vm.Script'']\<rparr>,
     \<lparr>pt_id = ''eval-settimeout-string'', pt_kind = DynamicExec, pt_risk = Risk_high, pt_description = ''Passes string to setTimeout/setInterval (dynamic exec)'',
       pt_strings = [''setTimeout('' @ [dq],
         ''setInterval('' @ [dq],
         ''setTimeout('' @ [sq],
         ''setInterval('' @ [sq]]\<rparr>]"

definition exec_obfuscation_patterns :: "pattern list" where
  "exec_obfuscation_patterns =
    [
     \<lparr>pt_id = ''obfus-atob'', pt_kind = Obfuscation, pt_risk = Risk_info, pt_description = ''Uses atob/btoa base64 encoding'',
       pt_strings = [''atob('',
         ''btoa('']\<rparr>,
     \<lparr>pt_id = ''obfus-charcode'', pt_kind = Obfuscation, pt_risk = Risk_info, pt_description = ''Builds strings from char codes'',
       pt_strings = [''fromCharCode('',
         ''String.fromCharCode'']\<rparr>,
     \<lparr>pt_id = ''exfil-dns'', pt_kind = DataExfiltration, pt_risk = Risk_critical, pt_description = ''Hardcoded DNS-tunnel / out-of-band exfiltration domain'',
       pt_strings = [''.nip.io'',
         ''.burpcollaborator'',
         ''.ngrok.io'',
         ''.oast.'',
         ''.dnslog.'']\<rparr>,
     \<lparr>pt_id = ''crypto-miner'', pt_kind = CryptoMiner, pt_risk = Risk_high, pt_description = ''Possible cryptocurrency mining code'',
       pt_strings = [''coinhive'',
         ''CoinHive'',
         ''CryptoNight'',
         ''cryptonight'',
         ''stratum+tcp://'',
         ''monero'',
         ''xmrig'',
         ''wasm-pack-template'',
         ''WebAssembly.instantiate'',
         ''mining'',
         ''hashrate'']\<rparr>,
     \<lparr>pt_id = ''second-stage-download'', pt_kind = DynamicExec, pt_risk = Risk_critical, pt_description = ''Downloads and executes remote code at runtime (second-stage payload)'',
       pt_strings = [''eval(require('' @ [sq] @ ''https'' @ [sq] @ '')'',
         ''eval(require('' @ [dq] @ ''https'' @ [dq] @ '')'',
         ''new Function(await'',
         ''vm.runInContext(await'',
         ''vm.runInNewContext(await'',
         ''.then(eval)'',
         ''.then(r=>eval('',
         ''.then(r => eval('',
         ''eval(await fetch'',
         ''eval(await res'']\<rparr>,
     \<lparr>pt_id = ''credential-harvest'', pt_kind = CredentialHarvest, pt_risk = Risk_critical, pt_description = ''Reads SSH private keys, browser cookies, or the OS keychain'',
       pt_strings = [''.ssh/id_rsa'',
         ''.ssh/id_ed25519'',
         ''.ssh/id_dsa'',
         ''Library/Application Support/Google/Chrome'',
         ''Login Data'',
         ''keychain'']\<rparr>]"

definition exfil_download_patterns :: "pattern list" where
  "exfil_download_patterns =
    [
     \<lparr>pt_id = ''cloud-credential-access'', pt_kind = CredentialHarvest, pt_risk = Risk_high, pt_description = ''References cloud / CI credential paths or tokens (AWS, GitHub, npm)'',
       pt_strings = [''.aws/credentials'',
         ''.aws/config'',
         ''AWS_ACCESS_KEY_ID'',
         ''AWS_SECRET_ACCESS_KEY'',
         ''GITHUB_TOKEN'',
         ''npm_token'',
         ''NPM_TOKEN'',
         ''.npmrc'']\<rparr>,
     \<lparr>pt_id = ''exfil-env-over-network'', pt_kind = DataExfiltration, pt_risk = Risk_high, pt_description = ''Sends env var contents over network (suspicious exfiltration pattern)'',
       pt_strings = [''process.env.AWS_SECRET'',
         ''process.env.GITHUB_TOKEN'',
         ''process.env.NPM_TOKEN'',
         ''process.env.CI_JOB_TOKEN'',
         ''process.env.DATABASE_URL'',
         ''process.env.SECRET_KEY'']\<rparr>,
     \<lparr>pt_id = ''postinstall-heavy'', pt_kind = InstallScript, pt_risk = Risk_high, pt_description = ''Heavy postinstall lifecycle manipulation (path probing, env inspection)'',
       pt_strings = [''npm_lifecycle_event'',
         ''npm_package_name'',
         ''npm_lifecycle_script'',
         ''INIT_CWD'']\<rparr>,
     \<lparr>pt_id = ''conditional-payload'', pt_kind = ConditionalPayload, pt_risk = Risk_high, pt_description = ''Conditional payload gated on locale, timezone, or IP geolocation'',
       pt_strings = [''Intl.DateTimeFormat'',
         ''process.env.LANG'',
         ''process.env.TZ'',
         ''geoiplookup'',
         ''ipapi.co'',
         ''ip-api.com'',
         ''ipinfo.io'',
         ''freegeoip'',
         ''geolocation-db.com'']\<rparr>,
     \<lparr>pt_id = ''bracket-notation'', pt_kind = BracketNotation, pt_risk = Risk_medium, pt_description = ''Bracket notation property access used to evade static string detection'',
       pt_strings = [''process['' @ [sq] @ ''env'' @ [sq] @ '']'',
         ''process['' @ [dq] @ ''env'' @ [dq] @ '']'',
         ''require['' @ [sq] @ ''child_process'' @ [sq] @ '']'',
         ''require['' @ [dq] @ ''child_process'' @ [dq] @ '']'',
         ''process['' @ [sq] @ ''env'' @ [sq] @ '']['' @ [sq],
         ''process['' @ [dq] @ ''env'' @ [dq] @ '']['' @ [dq]]\<rparr>,
     \<lparr>pt_id = ''ci-env-targeting'', pt_kind = CiTargeting, pt_risk = Risk_high, pt_description = ''Reads CI pipeline environment variables (often used to detect and steal tokens)'',
       pt_strings = [''process.env.CI'',
         ''process.env.GITHUB_ACTIONS'',
         ''process.env.TRAVIS'',
         ''process.env.CIRCLECI'',
         ''process.env.GITHUB_TOKEN'',
         ''process.env.NPM_TOKEN'',
         ''GITHUB_ACTIONS'',
         ''TRAVIS_BUILD'',
         ''CIRCLECI'']\<rparr>]"

definition credential_patterns :: "pattern list" where
  "credential_patterns =
    [
     \<lparr>pt_id = ''env-path-overwrite'', pt_kind = EnvPathOverwrite, pt_risk = Risk_high, pt_description = ''Overwrites process.env.PATH or LD_PRELOAD -- can redirect executables to malicious binaries'',
       pt_strings = [''process.env.PATH ='',
         ''process.env.PATH='',
         ''process.env['' @ [sq] @ ''PATH'' @ [sq] @ '']'',
         ''process.env['' @ [dq] @ ''PATH'' @ [dq] @ '']'',
         ''process.env.LD_PRELOAD'',
         ''process.env['' @ [sq] @ ''LD_PRELOAD'' @ [sq] @ '']'',
         ''process.env['' @ [dq] @ ''LD_PRELOAD'' @ [dq] @ '']'',
         ''LD_PRELOAD='']\<rparr>,
     \<lparr>pt_id = ''module-loader-patch'', pt_kind = ModuleLoaderPatch, pt_risk = Risk_high, pt_description = ''Patches Node.js module loader (require hijacking) -- can intercept all module loads'',
       pt_strings = [''Module._resolveFilename'',
         ''Module.prototype.require'',
         ''Module._load'',
         ''require('' @ [sq] @ ''module'' @ [sq] @ '')._resolveFilename'',
         ''require('' @ [dq] @ ''module'' @ [dq] @ '')._resolveFilename'',
         ''_resolveFilename'',
         ''prototype.require ='']\<rparr>,
     \<lparr>pt_id = ''exfil-domains'', pt_kind = DataExfiltration, pt_risk = Risk_critical, pt_description = ''Hardcoded data-exfil domain detected (ngrok, requestbin, pipedream, webhook.site, etc.)'',
       pt_strings = [''ngrok.io'',
         ''ngrok.app'',
         ''requestbin'',
         ''pipedream.net'',
         ''webhook.site'',
         ''burpcollaborator'',
         ''duckdns.org'',
         ''freemyip.com'']\<rparr>,
     \<lparr>pt_id = ''dns-exfil'', pt_kind = DataExfiltration, pt_risk = Risk_critical, pt_description = ''DNS exfiltration: data tunnelled through DNS queries to attacker domain'',
       pt_strings = [''.burpcollaborator.net'',
         ''.oastify.com'',
         ''.interact.sh'',
         ''.canarytokens.com'']\<rparr>]"

definition PATTERNS :: "pattern list" where
  "PATTERNS = network_file_patterns @ env_process_patterns @ exec_obfuscation_patterns @ exfil_download_patterns @ credential_patterns"

section \<open>Lines\<close>

definition line_number :: "string \<Rightarrow> nat \<Rightarrow> nat" where
  "line_number source byte_offset = length (filter (\<lambda>c. c = CHR 0x0A) (take byte_offset source)) + 1"

text \<open>\<open>str::lines\<close>: the last line may lack its line feed, and a carriage return before the line feed is dropped.\<close>

definition str_lines :: "string \<Rightarrow> string list" where
  "str_lines s =
     (let ls = split_char (CHR 0x0A) s;
          ended = map (\<lambda>l. if l \<noteq> [] \<and> last l = CHR 0x0D then butlast l else l) (butlast ls)
      in if last ls = [] then ended else ended @ [last ls])"

text \<open>\<open>str::trim\<close> removes the characters of the Unicode property White Space at both ends.\<close>

definition white_space :: "string list" where
  "white_space =
     map (\<lambda>n. [char_of (n::nat)]) [9, 10, 11, 12, 13, 32]
     @ map (map char_of) [[0xC2, 0x85], [0xC2, 0xA0], [0xE1, 0x9A, 0x80], [0xE2, 0x80, 0x80], [0xE2, 0x80, 0x81], [0xE2, 0x80, 0x82],
         [0xE2, 0x80, 0x83], [0xE2, 0x80, 0x84], [0xE2, 0x80, 0x85], [0xE2, 0x80, 0x86], [0xE2, 0x80, 0x87], [0xE2, 0x80, 0x88],
         [0xE2, 0x80, 0x89], [0xE2, 0x80, 0x8A], [0xE2, 0x80, 0xA8], [0xE2, 0x80, 0xA9], [0xE2, 0x80, 0xAF], [0xE2, 0x81, 0x9F],
         [0xE3, 0x80, 0x80 :: nat]]"

function trim_any :: "string list \<Rightarrow> string \<Rightarrow> string" where
  "trim_any ws s =
     (case find (\<lambda>w. w \<noteq> [] \<and> starts_with s w) ws of
        None \<Rightarrow> s
      | Some w \<Rightarrow> trim_any ws (drop (length w) s))"
  by pat_completeness auto
termination
  by (relation "measure (\<lambda>(ws, s). length s)") (auto simp: find_Some_iff starts_with_def, metis diff_less length_greater_0_conv take_Nil)

declare trim_any.simps [simp del]

definition str_trim :: "string \<Rightarrow> string" where
  "str_trim s = rev (trim_any (map rev white_space) (rev (trim_any white_space s)))"

text \<open>\<open>chars().take(n)\<close>: a byte between 0x80 and 0xBF continues a character.\<close>

fun take_chars :: "nat \<Rightarrow> string \<Rightarrow> string" where
  "take_chars n [] = []"
| "take_chars n (c # cs) =
     (if 128 \<le> byte c \<and> byte c < 192 then c # take_chars n cs
      else case n of 0 \<Rightarrow> [] | Suc m \<Rightarrow> c # take_chars m cs)"

definition extract_line :: "string \<Rightarrow> nat \<Rightarrow> string" where
  "extract_line source line =
     (let ls = str_lines source; i = line - 1 in take_chars 120 (str_trim (if i < length ls then ls ! i else [])))"

section \<open>The scan for strings\<close>

text \<open>The place of the first of the needles, in their order, that occurs in the source.\<close>

fun find_needle :: "string list \<Rightarrow> string \<Rightarrow> nat option" where
  "find_needle [] source = None"
| "find_needle (needle # needles) source =
     (case find_str needle source of Some (before, _) \<Rightarrow> Some (length before) | None \<Rightarrow> find_needle needles source)"

definition known_at :: "finding list \<Rightarrow> finding_kind \<Rightarrow> nat \<Rightarrow> bool" where
  "known_at fs kind line \<longleftrightarrow> (\<exists>f\<in>set fs. fd_kind f = kind \<and> fd_line f = line)"

definition scan_pattern :: "string \<Rightarrow> string \<Rightarrow> pattern \<Rightarrow> finding list \<Rightarrow> finding list" where
  "scan_pattern source file_path p fs =
     (case find_needle (pt_strings p) source of
        None \<Rightarrow> fs
      | Some pos \<Rightarrow>
          let line = line_number source pos
          in if known_at fs (pt_kind p) line then fs
             else fs @ [\<lparr>fd_kind = pt_kind p, fd_risk = pt_risk p, fd_message = pt_description p, fd_file = file_path,
                         fd_line = line, fd_snippet = Some (extract_line source line)\<rparr>])"

definition string_scan :: "string \<Rightarrow> string \<Rightarrow> finding list" where
  "string_scan source file_path = fold (scan_pattern source file_path) PATTERNS []"

definition push_finding :: "finding \<Rightarrow> finding list \<Rightarrow> finding list" where
  "push_finding f fs = (if known_at fs (fd_kind f) (fd_line f) then fs else fs @ [f])"

definition note_capability :: "finding \<Rightarrow> capabilities \<Rightarrow> capabilities" where
  "note_capability f c =
     (case fd_kind f of
        Network \<Rightarrow> c\<lparr>cap_network := True\<rparr>
      | DataExfiltration \<Rightarrow> c\<lparr>cap_network := True\<rparr>
      | Filesystem \<Rightarrow> c\<lparr>cap_filesystem := True\<rparr>
      | EnvAccess \<Rightarrow> c\<lparr>cap_env_access := True\<rparr>
      | Subprocess \<Rightarrow> c\<lparr>cap_subprocess := True\<rparr>
      | DynamicExec \<Rightarrow> c\<lparr>cap_dynamic_exec := True\<rparr>
      | InstallScript \<Rightarrow> c\<lparr>cap_install_scripts := True\<rparr>
      | _ \<Rightarrow> c)"

definition update_capabilities :: "finding list \<Rightarrow> capabilities \<Rightarrow> capabilities" where
  "update_capabilities fs c = fold note_capability fs c"

text \<open>\<open>ast\<close> has the findings the visitor comes to in the syntax tree of the source, in the order of the visit.\<close>

definition analyze_source :: "(string \<Rightarrow> string \<Rightarrow> finding list) \<Rightarrow> string \<Rightarrow> string \<Rightarrow> finding list" where
  "analyze_source ast source file_path = fold push_finding (ast source file_path) (string_scan source file_path)"

section \<open>What the scan reports\<close>

definition located :: "string \<Rightarrow> string \<Rightarrow> finding \<Rightarrow> bool" where
  "located source file_path f \<longleftrightarrow>
     (\<exists>p\<in>set PATTERNS. \<exists>needle\<in>set (pt_strings p). \<exists>a b. source = a @ needle @ b
        \<and> f = \<lparr>fd_kind = pt_kind p, fd_risk = pt_risk p, fd_message = pt_description p, fd_file = file_path,
               fd_line = line_number source (length a), fd_snippet = Some (extract_line source (line_number source (length a)))\<rparr>)"

abbreviation keys_distinct :: "finding list \<Rightarrow> bool" where
  "keys_distinct fs \<equiv> distinct (map (\<lambda>f. (fd_kind f, fd_line f)) fs)"

lemma find_needle_Some:
  "find_needle ns s = Some i \<Longrightarrow> \<exists>n\<in>set ns. \<exists>a b. find_str n s = Some (a, b) \<and> s = a @ n @ b \<and> i = length a"
  by (induction ns s rule: find_needle.induct) (auto split: option.splits prod.splits dest: find_str_Some)

lemma find_needle_None: "find_needle ns s = None \<longleftrightarrow> (\<forall>n\<in>set ns. \<not> contains_str s n)"
  by (induction ns s rule: find_needle.induct) (auto simp: contains_str_def split: option.splits prod.splits)

lemma known_at_iff: "known_at fs k l \<longleftrightarrow> (k, l) \<in> (\<lambda>f. (fd_kind f, fd_line f)) ` set fs"
  by (auto simp: known_at_def image_iff)

lemma scan_pattern_keys: "keys_distinct fs \<Longrightarrow> keys_distinct (scan_pattern source file_path p fs)"
  by (auto simp: scan_pattern_def Let_def known_at_iff image_iff split: option.split)

lemma scan_pattern_keeps: "set fs \<subseteq> set (scan_pattern source file_path p fs)"
  by (auto simp: scan_pattern_def Let_def split: option.split)

lemma scan_pattern_new:
  assumes "f \<in> set (scan_pattern source file_path p fs)" "f \<notin> set fs" "p \<in> set PATTERNS" shows "located source file_path f"
proof -
  obtain i where i: "find_needle (pt_strings p) source = Some i" using assms(1,2) by (auto simp: scan_pattern_def split: option.splits)
  from find_needle_Some[OF i] obtain n a b where "n \<in> set (pt_strings p)" "source = a @ n @ b" "i = length a" by blast
  then show ?thesis using assms i unfolding located_def by (fastforce simp: scan_pattern_def Let_def split: if_splits)
qed

lemma scan_pattern_finds:
  assumes "find_needle (pt_strings p) source = Some i"
  shows "known_at (scan_pattern source file_path p fs) (pt_kind p) (line_number source i)"
  using assms by (auto simp: scan_pattern_def Let_def known_at_def)

lemma string_scan_fold:
  assumes "set ps \<subseteq> set PATTERNS" "keys_distinct fs" "\<forall>f\<in>set fs. located source file_path f"
  shows "keys_distinct (fold (scan_pattern source file_path) ps fs)
    \<and> (\<forall>f\<in>set (fold (scan_pattern source file_path) ps fs). located source file_path f)
    \<and> set fs \<subseteq> set (fold (scan_pattern source file_path) ps fs)
    \<and> (\<forall>p\<in>set ps. \<forall>i. find_needle (pt_strings p) source = Some i \<longrightarrow>
          known_at (fold (scan_pattern source file_path) ps fs) (pt_kind p) (line_number source i))"
  using assms
proof (induction ps arbitrary: fs)
  case (Cons p ps)
  let ?g = "scan_pattern source file_path p fs"
  have g: "keys_distinct ?g" "\<forall>f\<in>set ?g. located source file_path f"
    using Cons.prems scan_pattern_keys scan_pattern_new[of _ source file_path p fs] by auto
  have "set ps \<subseteq> set PATTERNS" using Cons.prems(1) by simp
  note ih = Cons.IH[OF this g]
  moreover have "known_at (fold (scan_pattern source file_path) ps ?g) (pt_kind p) (line_number source i)"
    if "find_needle (pt_strings p) source = Some i" for i
    using scan_pattern_finds[OF that, of file_path fs] ih unfolding known_at_def by blast
  moreover have "set fs \<subseteq> set (fold (scan_pattern source file_path) ps ?g)" using ih scan_pattern_keeps by (meson order_trans)
  ultimately show ?case by (simp add: ball_simps)
qed simp

text \<open>
  The scan for strings is exact. Every finding is an occurrence of one of the strings of a pattern, reported at the line it is on with that pattern's kind,
  risk and description; every pattern that has one of its strings in the source is reported, by its kind, at the line of the first
  occurrence of the first such string; and no two findings have the same kind and line.
\<close>

theorem string_scan_exact:
  "(\<forall>f\<in>set (string_scan source file_path). located source file_path f)
   \<and> (\<forall>p\<in>set PATTERNS. (\<exists>needle\<in>set (pt_strings p). contains_str source needle) \<longrightarrow>
        (\<exists>needle\<in>set (pt_strings p). \<exists>a b. find_str needle source = Some (a, b)
           \<and> (\<exists>f\<in>set (string_scan source file_path). fd_kind f = pt_kind p \<and> fd_line f = line_number source (length a))))
   \<and> distinct (map (\<lambda>f. (fd_kind f, fd_line f)) (string_scan source file_path))"
proof -
  note s = string_scan_fold[OF subset_refl, of "[]" source file_path, folded string_scan_def, simplified]
  have "\<exists>needle\<in>set (pt_strings p). \<exists>a b. find_str needle source = Some (a, b)
      \<and> (\<exists>f\<in>set (string_scan source file_path). fd_kind f = pt_kind p \<and> fd_line f = line_number source (length a))"
    if p: "p \<in> set PATTERNS" and has: "\<exists>needle\<in>set (pt_strings p). contains_str source needle" for p
  proof -
    obtain i where i: "find_needle (pt_strings p) source = Some i" using has find_needle_None by (metis not_Some_eq)
    from find_needle_Some[OF i] obtain n a b where n: "n \<in> set (pt_strings p)" "find_str n source = Some (a, b)" "i = length a" by blast
    have "known_at (string_scan source file_path) (pt_kind p) (line_number source i)" using s p i by blast
    then show ?thesis using n unfolding known_at_def by blast
  qed
  then show ?thesis using s by blast
qed

theorem string_scan_exact_witness:
  "\<exists>f\<in>set (string_scan ''xmrig'' ''a.js''). fd_kind f = CryptoMiner"
proof -
  have len: "19 < length PATTERNS" by code_simp
  let ?p = "PATTERNS ! 19"
  have p: "pt_kind ?p = CryptoMiner \<and> ''xmrig'' \<in> set (pt_strings ?p)" by code_simp
  have "contains_str ''xmrig'' ''xmrig''" by code_simp
  then have "\<exists>needle\<in>set (pt_strings ?p). contains_str ''xmrig'' needle" using p by blast
  with conjunct1[OF conjunct2[OF string_scan_exact], THEN bspec, OF nth_mem[OF len], of "''xmrig''" "''a.js''"]
  show ?thesis using p by metis
qed

section \<open>A stronger pattern behind a weaker one\<close>

lemma scan_known:
  "known_at (fold (scan_pattern source file_path) ps fs) k l \<Longrightarrow>
     known_at fs k l \<or> (\<exists>p\<in>set ps. pt_kind p = k)"
proof (induction ps arbitrary: fs)
  case (Cons p ps)
  then have "known_at (scan_pattern source file_path p fs) k l \<or> (\<exists>p\<in>set ps. pt_kind p = k)" by simp
  then show ?case by (auto simp: scan_pattern_def Let_def known_at_def split: option.splits if_splits)
qed simp

text \<open>A finding stands for every later pattern of its kind on its line.\<close>

lemma first_pattern_wins:
  assumes "i < length PATTERNS" "\<forall>p\<in>set (take i PATTERNS). pt_kind p \<noteq> pt_kind (PATTERNS ! i)"
    and "find_needle (pt_strings (PATTERNS ! i)) source = Some pos"
    and f: "f \<in> set (string_scan source file_path)" "fd_kind f = pt_kind (PATTERNS ! i)" "fd_line f = line_number source pos"
  shows "fd_risk f = pt_risk (PATTERNS ! i)"
proof -
  let ?p = "PATTERNS ! i" and ?scan = "fold (scan_pattern source file_path)"
  let ?before = "?scan (take i PATTERNS) []"
  have split: "PATTERNS = take i PATTERNS @ ?p # drop (Suc i) PATTERNS" by (rule id_take_nth_drop[OF assms(1)])
  have scan: "string_scan source file_path = ?scan (drop (Suc i) PATTERNS) (scan_pattern source file_path ?p ?before)"
    unfolding string_scan_def by (subst split) simp
  have "\<not> known_at ?before (pt_kind ?p) l" for l
    using scan_known[of source file_path "take i PATTERNS" "[]" "pt_kind ?p" l] assms(2) by (auto simp: known_at_def)
  then obtain g where g: "g \<in> set (scan_pattern source file_path ?p ?before)" "fd_kind g = pt_kind ?p" "fd_line g = line_number source pos" "fd_risk g = pt_risk ?p"
    using assms(3) by (fastforce simp: scan_pattern_def Let_def)
  have sub: "set (take i PATTERNS) \<subseteq> set PATTERNS" "set (drop (Suc i) PATTERNS) \<subseteq> set PATTERNS" by (rule set_take_subset set_drop_subset)+
  note b = string_scan_fold[OF sub(1), of "[]" source file_path, simplified]
  have m: "keys_distinct (scan_pattern source file_path ?p ?before)" "\<forall>f\<in>set (scan_pattern source file_path ?p ?before). located source file_path f"
    using b scan_pattern_keys scan_pattern_new[of _ source file_path ?p ?before] nth_mem[OF assms(1)] by blast+
  note e = string_scan_fold[OF sub(2) m, folded scan]
  have "g \<in> set (string_scan source file_path)" using e g(1) by blast
  moreover have "inj_on (\<lambda>f. (fd_kind f, fd_line f)) (set (string_scan source file_path))" using e by (simp add: distinct_map)
  ultimately have "f = g" using f g(2,3) by (intro inj_onD[of "\<lambda>f. (fd_kind f, fd_line f)"]) simp_all
  then show ?thesis using g(4) by simp
qed

text \<open>
  The critical pattern for code that is fetched and run is masked: on the line of its string the weaker pattern for \<open>eval\<close>, of
  the same kind and earlier in the table, is reported instead.
\<close>

lemma second_stage_masked:
  assumes "f \<in> set (string_scan ''eval(await fetch(u))'' ''a.js'')" "fd_kind f = DynamicExec"
  shows "fd_risk f = Risk_high"
proof -
  let ?s = "''eval(await fetch(u))''"
  have i: "12 < length PATTERNS" "\<forall>p\<in>set (take 12 PATTERNS). pt_kind p \<noteq> pt_kind (PATTERNS ! 12)" by code_simp+
  have p: "pt_kind (PATTERNS ! 12) = DynamicExec" "pt_risk (PATTERNS ! 12) = Risk_high" by code_simp+
  have "find_needle (pt_strings (PATTERNS ! 12)) ?s = Some 0" by code_simp
  moreover have "fd_line f = line_number ?s 0"
  proof -
    have "located ?s ''a.js'' f"
      using string_scan_fold[OF subset_refl, of "[]" ?s "''a.js''", folded string_scan_def] assms(1) by simp
    then obtain n where "fd_line f = line_number ?s n" unfolding located_def by auto
    moreover have "filter (\<lambda>c. c = CHR 0x0A) (take n ?s) = []" by (auto simp: filter_empty_conv dest!: in_set_takeD)
    ultimately show ?thesis by (simp only: line_number_def) simp
  qed
  ultimately show ?thesis using first_pattern_wins[OF i, of ?s 0 f "''a.js''"] assms p by simp
qed

lemma second_stage_pattern: "\<exists>p\<in>set PATTERNS. pt_risk p = Risk_critical \<and> pt_kind p = DynamicExec \<and> ''eval(await fetch'' \<in> set (pt_strings p)"
  by code_simp

end
