(* ===== verification/Analyze_Behavior.thy ===== *)
theory Analyze_Behavior
  imports Analyze_Report
begin

text \<open>
  The behaviour of a package and the verdict on it (\<open>crates/oath-analyze/src/behavior.rs\<close>): neutral facts about what source files
  do, the combinations of them that block or warn, and the facts an install command shows by itself. The facts the visitor reads
  off a syntax tree are an argument.
\<close>

section \<open>Facts\<close>

record behavior =
  bh_net :: bool
  bh_fs :: bool
  bh_subprocess :: bool
  bh_code_exec :: bool
  bh_env_read :: bool
  bh_env_whole :: bool
  bh_sensitive_env :: bool
  bh_cred_path :: bool
  bh_decode :: bool
  bh_decode_into_exec :: bool
  bh_hand_code_exec :: bool
  bh_hand_decode :: bool
  bh_fetch_into_exec :: bool
  bh_suspicious_host :: bool
  bh_worm_marker :: bool
  bh_shell_download :: bool

definition no_behavior :: behavior where
  "no_behavior = \<lparr>bh_net = False, bh_fs = False, bh_subprocess = False, bh_code_exec = False, bh_env_read = False, bh_env_whole = False,
     bh_sensitive_env = False, bh_cred_path = False, bh_decode = False, bh_decode_into_exec = False, bh_hand_code_exec = False,
     bh_hand_decode = False, bh_fetch_into_exec = False, bh_suspicious_host = False, bh_worm_marker = False, bh_shell_download = False\<rparr>"

definition merge_behavior :: "behavior \<Rightarrow> behavior \<Rightarrow> behavior" where
  "merge_behavior b c = \<lparr>bh_net = bh_net b \<or> bh_net c, bh_fs = bh_fs b \<or> bh_fs c, bh_subprocess = bh_subprocess b \<or> bh_subprocess c,
     bh_code_exec = bh_code_exec b \<or> bh_code_exec c, bh_env_read = bh_env_read b \<or> bh_env_read c, bh_env_whole = bh_env_whole b \<or> bh_env_whole c,
     bh_sensitive_env = bh_sensitive_env b \<or> bh_sensitive_env c, bh_cred_path = bh_cred_path b \<or> bh_cred_path c,
     bh_decode = bh_decode b \<or> bh_decode c, bh_decode_into_exec = bh_decode_into_exec b \<or> bh_decode_into_exec c,
     bh_hand_code_exec = bh_hand_code_exec b \<or> bh_hand_code_exec c, bh_hand_decode = bh_hand_decode b \<or> bh_hand_decode c,
     bh_fetch_into_exec = bh_fetch_into_exec b \<or> bh_fetch_into_exec c, bh_suspicious_host = bh_suspicious_host b \<or> bh_suspicious_host c,
     bh_worm_marker = bh_worm_marker b \<or> bh_worm_marker c, bh_shell_download = bh_shell_download b \<or> bh_shell_download c\<rparr>"

definition strong_source :: "behavior \<Rightarrow> bool" where
  "strong_source b \<longleftrightarrow> bh_sensitive_env b \<or> bh_cred_path b"

section \<open>The verdict\<close>

datatype verdict = Verdict_info | Verdict_warn | Verdict_block

text \<open>The rules in their order, each with whether it applies and its reason.\<close>

definition block_rules :: "behavior \<Rightarrow> bool \<Rightarrow> (bool \<times> string) list" where
  "block_rules b has_install_script =
     [(bh_env_whole b \<and> bh_net b \<and> (bh_suspicious_host b \<or> bh_worm_marker b),
        ''exfiltration: full environment captured and sent to a network sink''),
      (bh_decode_into_exec b, ''decoded payload executed (decode -> eval/Function/require)''),
      (bh_fetch_into_exec b, ''second-stage payload: remote content passed to eval/Function''),
      (bh_worm_marker b \<and> (bh_net b \<or> bh_subprocess b),
        ''worm/secret-stealer markers (trufflehog / cloud metadata / republish)''),
      (bh_suspicious_host b \<and> (bh_net b \<or> strong_source b \<or> bh_subprocess b), ''contacts known exfiltration/C2 infrastructure''),
      (has_install_script \<and> (bh_shell_download b \<or> bh_suspicious_host b \<or> bh_decode_into_exec b \<or> bh_worm_marker b),
        ''install hook runs payload behavior (shell/C2/decode-exec/worm)''),
      (bh_shell_download b \<and> bh_subprocess b, ''spawns a shell download chain (curl/wget/certutil)'')]"

definition warn_rules :: "behavior \<Rightarrow> (bool \<times> string) list" where
  "warn_rules b =
     [((bh_sensitive_env b \<or> bh_cred_path b) \<and> bh_net b,
        ''sensitive credentials and network access occur in the same file; review the destination''),
      (strong_source b \<and> bh_subprocess b, ''reads secrets and spawns processes'')]"

definition applying :: "(bool \<times> string) list \<Rightarrow> string list" where
  "applying rules = map snd (filter fst rules)"

definition verdict_of :: "behavior \<Rightarrow> bool \<Rightarrow> verdict \<times> string list" where
  "verdict_of b has_install_script =
     (let block = applying (block_rules b has_install_script)
      in if block \<noteq> [] then (Verdict_block, block)
         else let warn = applying (warn_rules b)
              in if warn \<noteq> [] then (Verdict_warn, warn) else (Verdict_info, []))"

section \<open>Strings that tell\<close>

definition is_sensitive_env_name :: "string \<Rightarrow> bool" where
  "is_sensitive_env_name name \<longleftrightarrow>
     name = ''TOKEN'' \<or> ends_with name ''_TOKEN'' \<or> name = ''SECRET'' \<or> ends_with name ''_SECRET'' \<or> contains_str name ''CLIENT_SECRET''
     \<or> name = ''PASSWORD'' \<or> ends_with name ''_PASSWORD'' \<or> name = ''PASSWD'' \<or> ends_with name ''_PASSWD''
     \<or> contains_str name ''PRIVATE_KEY'' \<or> contains_str name ''ACCESS_KEY'' \<or> name = ''APIKEY'' \<or> ends_with name ''_APIKEY''
     \<or> name = ''API_KEY'' \<or> ends_with name ''_API_KEY'' \<or> contains_str name ''CREDENTIAL''"

definition CRED_PATH_FRAGMENTS :: "string list" where
  "CRED_PATH_FRAGMENTS =
     [''.ssh/id_rsa'', ''.ssh/id_ed25519'', ''.aws/credentials'', ''.aws/config'', ''.npmrc'', ''/etc/shadow'', ''id_rsa'',
      ''Library/Keychains'', ''Login Data'', ''/.config/gcloud'', ''.docker/config.json'', ''wallet.dat'', ''.bash_history'']"

definition SUSPICIOUS_HOST :: "string list" where
  "SUSPICIOUS_HOST =
     [''.ngrok.io'', ''.ngrok-free.app'', ''webhook.site'', ''burpcollaborator'', ''requestbin'', ''pipedream.net'', ''interact.sh'',
      ''.oast.'', ''oastify.com'', ''dnslog.cn'', ''.nip.io'', ''transfer.sh'', ''0x0.st'', ''discord.com/api/webhooks'',
      ''discordapp.com/api/webhooks'', ''api.telegram.org/bot'', ''file.io'', ''anonfiles'', ''gofile.io'', ''paste.ee'', ''termbin.com'']"

definition WORM_MARKER :: "string list" where
  "WORM_MARKER =
     [''trufflehog'', ''169.254.169.254'', ''metadata.google.internal'', ''shai-hulud'', ''npm publish'', ''npm_package_description'']"

definition SHELL_DOWNLOAD :: "string list" where
  "SHELL_DOWNLOAD =
     [''curl '', ''wget '', ''certutil'', ''Invoke-WebRequest'', ''bitsadmin'', ''| bash'', ''| sh'', ''powershell -'', ''regsvr32'', ''rundll32'']"

definition contains_any :: "string list \<Rightarrow> string \<Rightarrow> bool" where
  "contains_any needles s \<longleftrightarrow> (\<exists>n\<in>set needles. contains_str s n)"

definition contains_shell_download :: "string \<Rightarrow> bool" where
  "contains_shell_download s \<longleftrightarrow> contains_any SHELL_DOWNLOAD s"

definition looks_base64ish :: "string \<Rightarrow> bool" where
  "looks_base64ish s \<longleftrightarrow> 24 \<le> length s
     \<and> (\<forall>c\<in>set s. (48 \<le> byte c \<and> byte c \<le> 57) \<or> (65 \<le> byte c \<and> byte c \<le> 90) \<or> (97 \<le> byte c \<and> byte c \<le> 122)
          \<or> c = CHR ''+'' \<or> c = CHR ''/'' \<or> c = CHR ''='')"

definition check_string :: "string \<Rightarrow> behavior \<Rightarrow> behavior" where
  "check_string v b =
     (let b = (if contains_any CRED_PATH_FRAGMENTS v then b\<lparr>bh_cred_path := True\<rparr> else b);
          b = (if contains_any SUSPICIOUS_HOST (lowercase v) then b\<lparr>bh_suspicious_host := True\<rparr> else b)
      in if contains_any WORM_MARKER v then b\<lparr>bh_worm_marker := True\<rparr> else b)"

definition install_payload :: "string list" where
  "install_payload =
     [''/dev/tcp'', ''base64 -d'', ''base64 --decode'', ''|sh'', ''| sh'', ''|bash'', ''| bash'', ''python -c'', ''python3 -c'', ''node -e'', ''eval('']"

definition scan_install_command :: "string \<Rightarrow> behavior \<Rightarrow> behavior" where
  "scan_install_command cmd b =
     (let lc = lowercase cmd;
          b = (if contains_any SHELL_DOWNLOAD cmd \<or> contains_any install_payload lc then b\<lparr>bh_shell_download := True\<rparr> else b);
          b = (if contains_any (map lowercase SUSPICIOUS_HOST) lc then b\<lparr>bh_suspicious_host := True\<rparr> else b)
      in if contains_any WORM_MARKER cmd then b\<lparr>bh_worm_marker := True\<rparr> else b)"

definition is_minified :: "string \<Rightarrow> bool" where
  "is_minified source \<longleftrightarrow> 1000 < fold max (map length (str_lines source)) 0"

text \<open>\<open>visit\<close> has the facts of a source with statements, \<^const>\<open>None\<close> for one whose program body is empty.\<close>

definition analyze_file :: "(string \<Rightarrow> string \<Rightarrow> behavior option) \<Rightarrow> string \<Rightarrow> string \<Rightarrow> behavior" where
  "analyze_file visit source path =
     (case visit source path of
        None \<Rightarrow> no_behavior
      | Some b \<Rightarrow>
          if is_minified source then b else b\<lparr>bh_hand_code_exec := bh_code_exec b, bh_hand_decode := bh_decode b\<rparr>)"

section \<open>What the verdict depends on\<close>

fun verdict_rank :: "verdict \<Rightarrow> nat" where
  "verdict_rank Verdict_info = 0"
| "verdict_rank Verdict_warn = 1"
| "verdict_rank Verdict_block = 2"

definition dangerous :: "behavior \<Rightarrow> bool \<Rightarrow> bool" where
  "dangerous b install \<longleftrightarrow>
     bh_decode_into_exec b \<or> bh_fetch_into_exec b
     \<or> (bh_worm_marker b \<and> (bh_net b \<or> bh_subprocess b \<or> install))
     \<or> (bh_suspicious_host b \<and> (bh_net b \<or> bh_subprocess b \<or> bh_sensitive_env b \<or> bh_cred_path b \<or> install))
     \<or> (bh_shell_download b \<and> (bh_subprocess b \<or> install))"

lemma applying_ne: "applying ((c, r) # rules) \<noteq> [] \<longleftrightarrow> c \<or> applying rules \<noteq> []" "applying [] \<noteq> [] \<longleftrightarrow> False"
  by (simp_all add: applying_def)

lemma block_iff: "applying (block_rules b install) \<noteq> [] \<longleftrightarrow> dangerous b install"
  unfolding block_rules_def applying_ne dangerous_def strong_source_def by blast

lemma warn_iff: "applying (warn_rules b) \<noteq> [] \<longleftrightarrow> strong_source b \<and> (bh_net b \<or> bh_subprocess b)"
  unfolding warn_rules_def applying_ne strong_source_def by blast

lemma verdict_cases:
  "fst (verdict_of b install) =
     (if dangerous b install then Verdict_block
      else if strong_source b \<and> (bh_net b \<or> bh_subprocess b) then Verdict_warn else Verdict_info)"
  using block_iff[of b install] warn_iff[of b] by (auto simp: verdict_of_def Let_def)

lemma verdict_reasons: "snd (verdict_of b install) \<noteq> [] \<longleftrightarrow> fst (verdict_of b install) \<noteq> Verdict_info"
  by (simp add: verdict_of_def Let_def)

text \<open>
  The comment at this rule promises a warning for a package that takes the whole environment and reaches the network; the code gives none.
\<close>

lemma bare_environment_informational:
  "fst (verdict_of (no_behavior\<lparr>bh_env_whole := True, bh_net := True\<rparr>) False) = Verdict_info"
  by (simp add: verdict_cases dangerous_def strong_source_def no_behavior_def)

text \<open>
  C17: The verdict is a matter of combinations, and evidence only adds up. A package is blocked exactly when a decoded or fetched text is run, or a worm marker, a suspicious
  host or a shell download meets something that makes it act, and is warned about exactly when it is not blocked and a named secret or credential file meets the network or
  a spawned process; what it merely can do, alone or together, never changes the verdict from informational, and that includes taking the whole environment and reaching
  the network, for which a comment in the code promises a warning; merging in
  further facts or an install hook never lowers it; and a verdict comes with a reason exactly when it is not informational.
\<close>

theorem verdict_exact:
  "(fst (verdict_of b install) = Verdict_block \<longleftrightarrow> dangerous b install)
   \<and> (fst (verdict_of b install) = Verdict_warn \<longleftrightarrow> \<not> dangerous b install \<and> (bh_sensitive_env b \<or> bh_cred_path b) \<and> (bh_net b \<or> bh_subprocess b))
   \<and> (\<not> (bh_sensitive_env b \<or> bh_cred_path b \<or> bh_decode_into_exec b \<or> bh_fetch_into_exec b \<or> bh_suspicious_host b \<or> bh_worm_marker b \<or> bh_shell_download b)
        \<longrightarrow> fst (verdict_of b install) = Verdict_info)
   \<and> verdict_rank (fst (verdict_of b install)) \<le> verdict_rank (fst (verdict_of (merge_behavior b c) (install \<or> install')))
   \<and> (snd (verdict_of b install) \<noteq> [] \<longleftrightarrow> fst (verdict_of b install) \<noteq> Verdict_info)"
proof -
  have "dangerous b install \<Longrightarrow> dangerous (merge_behavior b c) (install \<or> install')"
    by (auto simp: dangerous_def merge_behavior_def)
  moreover have "strong_source b \<and> (bh_net b \<or> bh_subprocess b) \<Longrightarrow>
      strong_source (merge_behavior b c) \<and> (bh_net (merge_behavior b c) \<or> bh_subprocess (merge_behavior b c))"
    by (auto simp: strong_source_def merge_behavior_def)
  ultimately have "verdict_rank (fst (verdict_of b install)) \<le> verdict_rank (fst (verdict_of (merge_behavior b c) (install \<or> install')))"
    unfolding verdict_cases by auto
  moreover have "fst (verdict_of b install) = Verdict_info"
    if "\<not> (bh_sensitive_env b \<or> bh_cred_path b \<or> bh_decode_into_exec b \<or> bh_fetch_into_exec b \<or> bh_suspicious_host b \<or> bh_worm_marker b \<or> bh_shell_download b)"
    using that unfolding verdict_cases dangerous_def strong_source_def by simp
  moreover have "fst (verdict_of b install) = Verdict_block \<longleftrightarrow> dangerous b install"
    "fst (verdict_of b install) = Verdict_warn \<longleftrightarrow> \<not> dangerous b install \<and> (bh_sensitive_env b \<or> bh_cred_path b) \<and> (bh_net b \<or> bh_subprocess b)"
    unfolding verdict_cases strong_source_def by simp_all
  ultimately show ?thesis using verdict_reasons by blast
qed

theorem verdict_exact_witness:
  "fst (verdict_of (no_behavior\<lparr>bh_net := True, bh_fs := True, bh_subprocess := True, bh_code_exec := True, bh_env_whole := True\<rparr>) True) = Verdict_info"
  using verdict_exact[of "no_behavior\<lparr>bh_net := True, bh_fs := True, bh_subprocess := True, bh_code_exec := True, bh_env_whole := True\<rparr>" True]
  by (simp add: no_behavior_def)

end
