(* ===== verification/Analyze_Score.thy ===== *)
theory Analyze_Score
  imports Analyze_Report Link_Fs "HOL-Library.Word" "HOL-Library.Multiset"
begin

text \<open>
  The safety score of a package (\<open>crates/oath-analyze/src/score.rs\<close>): penalties by the number of findings at their machine width,
  bonuses from the package's directory, the floor by the verdict, and the adjustments for context. A cast or an operation that wraps is written with
  \<open>as_i16\<close> or \<open>as_i32\<close>, as in a release build, which has no overflow checks. A count or weight is the integer its type holds.
\<close>

section \<open>Machine integers\<close>

definition as_i16 :: "int \<Rightarrow> int" where "as_i16 n = sint (word_of_int n :: 16 word)"
definition as_i32 :: "int \<Rightarrow> int" where "as_i32 n = sint (word_of_int n :: 32 word)"

lemma as_i16_id: "- 32768 \<le> n \<Longrightarrow> n < 32768 \<Longrightarrow> as_i16 n = n"
  by (simp add: as_i16_def int_word_sint)

lemma as_i32_id: "- 2147483648 \<le> n \<Longrightarrow> n < 2147483648 \<Longrightarrow> as_i32 n = n"
  by (simp add: as_i32_def int_word_sint)

lemma as_i16_range: "- 32768 \<le> as_i16 n \<and> as_i16 n < 32768"
  unfolding as_i16_def using sint_range_size[of "word_of_int n :: 16 word"] by (simp add: size_word_def)

section \<open>Grades and known packages\<close>

record score_factor =
  sf_name :: string
  sf_weight :: int
  sf_description :: string

record safety_score =
  ss_score :: int
  ss_grade :: char
  ss_factors :: "score_factor list"

definition score_to_grade :: "int \<Rightarrow> char" where
  "score_to_grade score =
     (if 90 \<le> score \<and> score \<le> 100 then CHR ''A''
      else if 75 \<le> score \<and> score \<le> 89 then CHR ''B''
      else if 60 \<le> score \<and> score \<le> 74 then CHR ''C''
      else if 40 \<le> score \<and> score \<le> 59 then CHR ''D''
      else CHR ''F'')"

record score_context =
  sc_is_dev :: bool
  sc_weekly_downloads :: nat
  sc_age_days :: nat

definition KNOWN_NETWORK_PACKAGES :: "string list" where
  "KNOWN_NETWORK_PACKAGES = [''axios'', ''node-fetch'', ''undici'', ''got'', ''request'', ''superagent'', ''ky'', ''cross-fetch'',
     ''isomorphic-fetch'', ''whatwg-fetch'', ''needle'', ''phin'']"

definition KNOWN_FS_PACKAGES :: "string list" where
  "KNOWN_FS_PACKAGES = [''fs-extra'', ''graceful-fs'', ''glob'', ''globby'', ''chokidar'', ''rimraf'', ''del'', ''mkdirp'', ''make-dir'',
     ''find-up'', ''locate-path'', ''fast-glob'']"

definition KNOWN_ENV_PACKAGES :: "string list" where
  "KNOWN_ENV_PACKAGES = [''dotenv'', ''cross-env'', ''env-ci'', ''envinfo'']"

definition KNOWN_EXEC_PACKAGES :: "string list" where
  "KNOWN_EXEC_PACKAGES = [''execa'', ''cross-spawn'', ''shelljs'', ''npm-run-all'']"

definition is_known_safe_for_capability :: "string \<Rightarrow> string \<Rightarrow> bool" where
  "is_known_safe_for_capability name capability =
     (if capability = ''network'' then name \<in> set KNOWN_NETWORK_PACKAGES
      else if capability = ''filesystem'' then name \<in> set KNOWN_FS_PACKAGES
      else if capability = ''env_access'' then name \<in> set KNOWN_ENV_PACKAGES
      else if capability = ''subprocess'' \<or> capability = ''dynamic_exec'' then name \<in> set KNOWN_EXEC_PACKAGES
      else False)"

section \<open>The files of a package\<close>

text \<open>The walk of a directory visits a directory before what it contains and does not follow links.\<close>

fun walk_tree :: "string list \<Rightarrow> ftree \<Rightarrow> (string list \<times> ftree) list"
  and walk_entries :: "string list \<Rightarrow> (string \<times> ftree) list \<Rightarrow> (string list \<times> ftree) list" where
  "walk_tree p (Dir es) = (p, Dir es) # walk_entries p es"
| "walk_tree p (File d) = [(p, File d)]"
| "walk_tree p (Special l) = [(p, Special l)]"
| "walk_entries p [] = []"
| "walk_entries p ((n, t) # es) = walk_tree (p @ [n]) t @ walk_entries p es"

definition walk_dir :: "ftree \<Rightarrow> string list \<Rightarrow> (string list \<times> ftree) list" where
  "walk_dir root dir =
     (case real_path root dir of
        Inl e \<Rightarrow> []
      | Inr p \<Rightarrow> (case tree_lookup p root of None \<Rightarrow> [] | Some t \<Rightarrow> walk_tree [] t))"

definition is_file_entry :: "string list \<times> ftree \<Rightarrow> bool" where
  "is_file_entry e = (case snd e of File d \<Rightarrow> True | _ \<Rightarrow> False)"

definition entry_name :: "string list \<Rightarrow> string list \<times> ftree \<Rightarrow> string" where
  "entry_name dir e = (if dir @ fst e = [] then [] else last (dir @ fst e))"

definition any_exists :: "ftree \<Rightarrow> string list \<Rightarrow> string list \<Rightarrow> bool" where
  "any_exists root dir names \<longleftrightarrow> (\<exists>n\<in>set names. path_exists root (dir @ [n]))"

definition file_count :: "ftree \<Rightarrow> string list \<Rightarrow> nat" where
  "file_count root dir = length (filter is_file_entry (walk_dir root dir))"

definition has_minified :: "ftree \<Rightarrow> string list \<Rightarrow> bool" where
  "has_minified root dir \<longleftrightarrow>
     (\<exists>e\<in>set (walk_dir root dir). is_file_entry e \<and> (ends_with (entry_name dir e) ''.min.js'' \<or> ends_with (entry_name dir e) ''.min.cjs''))"

definition has_types :: "ftree \<Rightarrow> string list \<Rightarrow> bool" where
  "has_types root dir \<longleftrightarrow>
     path_exists root (dir @ [''index.d.ts''])
     \<or> (\<exists>e\<in>set (walk_dir root dir). length (fst e) \<le> 3 \<and> ends_with (entry_name dir e) ''.d.ts'')"

section \<open>The score\<close>

definition risk_count :: "finding_risk \<Rightarrow> finding list \<Rightarrow> nat" where
  "risk_count r fs = length (filter (\<lambda>f. fd_risk f = r) fs)"

definition message_count :: "finding_kind \<Rightarrow> string \<Rightarrow> finding list \<Rightarrow> nat" where
  "message_count k part fs = length (filter (\<lambda>f. fd_kind f = k \<and> contains_str (fd_message f) part) fs)"

type_synonym tally = "score_factor list \<times> int"

definition factor :: "bool \<Rightarrow> string \<Rightarrow> int \<Rightarrow> string \<Rightarrow> tally \<Rightarrow> tally" where
  "factor present name weight description tally =
     (if present
      then (fst tally @ [\<lparr>sf_name = name, sf_weight = weight, sf_description = description\<rparr>], snd tally + weight)
      else tally)"

text \<open>The number of findings of one risk is cast to 16 bits before it is multiplied.\<close>

definition risk_penalty :: "nat \<Rightarrow> int \<Rightarrow> int" where
  "risk_penalty n weight = as_i16 (- as_i16 (as_i16 (int n) * weight))"

definition capped_penalty :: "nat \<Rightarrow> int \<Rightarrow> int \<Rightarrow> int" where
  "capped_penalty n weight cap = as_i16 (as_i32 (- min (as_i32 (as_i32 (int n) * weight)) cap))"

definition risk_factor :: "finding_risk \<Rightarrow> string \<Rightarrow> int \<Rightarrow> string \<Rightarrow> finding list \<Rightarrow> tally \<Rightarrow> tally" where
  "risk_factor r name weight label fs =
     (let n = risk_count r fs mod 2 ^ 32 in factor (0 < n) name (risk_penalty n weight) (decimal n @ label))"

definition message_factor :: "finding_kind \<Rightarrow> string \<Rightarrow> string \<Rightarrow> int \<Rightarrow> int \<Rightarrow> string \<Rightarrow> finding list \<Rightarrow> tally \<Rightarrow> tally" where
  "message_factor k part name weight cap label fs =
     (let n = message_count k part fs in factor (0 < as_i32 (int n)) name (capped_penalty n weight cap) (decimal (nat (as_i32 (int n))) @ label))"

definition high_obfuscation :: "finding list \<Rightarrow> bool" where
  "high_obfuscation fs \<longleftrightarrow> (\<exists>f\<in>set fs. fd_kind f = Obfuscation \<and> (fd_risk f = Risk_high \<or> fd_risk f = Risk_critical))"

definition finding_factors :: "finding list \<Rightarrow> tally \<Rightarrow> tally" where
  "finding_factors fs =
     risk_factor Risk_low ''low_findings'' 2 '' low finding(s)'' fs
     \<circ> risk_factor Risk_medium ''medium_findings'' 5 '' medium finding(s)'' fs
     \<circ> risk_factor Risk_high ''high_findings'' 15 '' high finding(s)'' fs
     \<circ> risk_factor Risk_critical ''critical_findings'' 30 '' critical finding(s)'' fs"

definition capability_factors :: "string \<Rightarrow> capabilities \<Rightarrow> tally \<Rightarrow> tally" where
  "capability_factors name caps =
     factor (cap_dynamic_exec caps \<and> \<not> is_known_safe_for_capability name ''dynamic_exec'') ''dynamic_exec'' (- 10)
       ''Uses dynamic code execution (eval/Function)''
     \<circ> factor (cap_network caps \<and> cap_env_access caps \<and> \<not> is_known_safe_for_capability name ''network''
              \<and> \<not> is_known_safe_for_capability name ''env_access'') ''network_env_combo'' (- 20)
       ''Network access combined with environment variable access''
     \<circ> factor (cap_install_scripts caps) ''install_scripts'' (- 10) ''Package has install scripts''"

definition obfuscation_factors :: "finding list \<Rightarrow> tally \<Rightarrow> tally" where
  "obfuscation_factors fs =
     message_factor CryptoMiner ''wallet address'' ''crypto_wallet_patterns'' 20 60 '' cryptocurrency wallet address(es) detected'' fs
     \<circ> message_factor DataExfiltration ''Environment variable exfiltration'' ''env_exfiltration_combo'' 35 70
         '' file(s) with process.env read + HTTP request (possible exfiltration)'' fs
     \<circ> message_factor Obfuscation ''Hex string execution'' ''hex_string_execution'' 40 80
         '' hex string execution(s) (eval+fromCharCode or hex eval)'' fs
     \<circ> message_factor Obfuscation ''Dynamic require'' ''dynamic_require_obfuscation'' 25 50
         '' dynamic require obfuscation(s) (concatenated module names)'' fs
     \<circ> message_factor Obfuscation ''Base64 payload'' ''base64_payload'' 30 60
         '' base64 payload detection(s) (Buffer.from/atob with encoded data)'' fs
     \<circ> factor (high_obfuscation fs) ''obfuscated_code'' (- 25) ''Obfuscated code detected''"

definition directory_factors :: "ftree \<Rightarrow> string list \<Rightarrow> tally \<Rightarrow> tally" where
  "directory_factors root dir =
     factor (any_exists root dir [''test'', ''tests'', ''__tests__'']) ''has_tests'' 5 ''Has test directory''
     \<circ> factor (any_exists root dir [''LICENSE'', ''LICENSE.md'', ''LICENSE.txt'', ''LICENCE'', ''license'']) ''has_license'' 5 ''Has LICENSE file''
     \<circ> factor (has_types root dir) ''typescript_types'' 5 ''Has TypeScript type definitions''
     \<circ> factor (\<not> has_minified root dir) ''readable_source'' 5 ''All source is readable (no minified files)''
     \<circ> factor (200 < file_count root dir) ''large_surface_area'' (- 5)
         (''Package has '' @ decimal (file_count root dir) @ '' files (large surface area)'')
     \<circ> factor (\<not> any_exists root dir [''README.md'', ''readme.md'', ''README'', ''README.txt'', ''README.rst'']) ''no_readme'' (- 5)
         ''Package has no README''"

definition verdict_floor :: "finding_risk \<Rightarrow> (int \<times> string) option" where
  "verdict_floor r =
     (case r of
        Risk_info \<Rightarrow> Some (75, ''AST analysis found no correlated dangerous behavior'')
      | Risk_high \<Rightarrow> Some (60, ''AST analysis found reviewable behavior without block-tier corroboration'')
      | _ \<Rightarrow> None)"

definition apply_floor :: "finding_risk \<Rightarrow> tally \<Rightarrow> tally" where
  "apply_floor r tally =
     (case verdict_floor r of
        None \<Rightarrow> tally
      | Some (floor, description) \<Rightarrow>
          if snd tally < floor
          then (fst tally @ [\<lparr>sf_name = ''behavioral_verdict'', sf_weight = max 0 (min 32767 (floor - max (snd tally) 0)),
                  sf_description = description\<rparr>], floor)
          else tally)"

definition raw_tally :: "analysis_report \<Rightarrow> ftree \<Rightarrow> string list \<Rightarrow> tally" where
  "raw_tally report root dir =
     (directory_factors root dir
      \<circ> obfuscation_factors (ar_findings report)
      \<circ> capability_factors (ar_package_name report) (ar_capabilities report)
      \<circ> finding_factors (ar_findings report)) ([], 100)"

definition compute_safety_score_inner :: "analysis_report \<Rightarrow> ftree \<Rightarrow> string list \<Rightarrow> safety_score" where
  "compute_safety_score_inner report root dir =
     (let tally = apply_floor (ar_overall_risk report) (raw_tally report root dir);
          final_score = max 0 (min 100 (snd tally))
      in \<lparr>ss_score = final_score, ss_grade = score_to_grade final_score, ss_factors = fst tally\<rparr>)"

definition compute_safety_score :: "analysis_report \<Rightarrow> ftree \<Rightarrow> string list \<Rightarrow> safety_score" where
  "compute_safety_score = compute_safety_score_inner"

section \<open>Context\<close>

definition set_score :: "int \<Rightarrow> string \<Rightarrow> int \<Rightarrow> string \<Rightarrow> bool \<Rightarrow> safety_score \<Rightarrow> safety_score" where
  "set_score score name weight description noted s =
     \<lparr>ss_score = score, ss_grade = score_to_grade score,
      ss_factors = (if noted then ss_factors s @ [\<lparr>sf_name = name, sf_weight = weight, sf_description = description\<rparr>] else ss_factors s)\<rparr>"

definition dev_discount :: "score_context \<Rightarrow> safety_score \<Rightarrow> safety_score" where
  "dev_discount ctx s =
     (if sc_is_dev ctx \<and> ss_score s < 100
      then let recovered = ((100 - ss_score s) * 40) div 100
           in set_score (max 0 (min 100 (ss_score s + recovered))) ''dev_dependency'' (as_i16 recovered)
                ''Dev dependency (reduced severity)'' (0 < recovered) s
      else s)"

definition popularity_floor :: "score_context \<Rightarrow> finding list \<Rightarrow> safety_score \<Rightarrow> safety_score" where
  "popularity_floor ctx fs s =
     (if 1000000 \<le> sc_weekly_downloads ctx \<and> \<not> (\<exists>f\<in>set fs. fd_risk f = Risk_critical) \<and> ss_score s < 90
      then set_score 90 ''trusted_popular'' (90 - ss_score s)
             (decimal (sc_weekly_downloads ctx div 1000000)
                @ ''M+ weekly downloads, no critical findings (heuristic flags treated as false positives)'') True s
      else s)"

definition suspicion :: "score_context \<Rightarrow> safety_score \<Rightarrow> safety_score" where
  "suspicion ctx s =
     (if 0 < sc_weekly_downloads ctx \<and> sc_weekly_downloads ctx < 100 \<and> sc_age_days ctx < 30
      then set_score (max (ss_score s - 15) 0) ''new_unpopular'' (- 15) ''New package with very few downloads'' True s
      else s)"

definition compute_safety_score_contextual :: "analysis_report \<Rightarrow> ftree \<Rightarrow> string list \<Rightarrow> score_context \<Rightarrow> safety_score" where
  "compute_safety_score_contextual report root dir ctx =
     suspicion ctx (popularity_floor ctx (ar_findings report) (dev_discount ctx (compute_safety_score_inner report root dir)))"

section \<open>Bounds\<close>

lemma fst_factor: "fst (factor c n w d t) = fst t @ (if c then [\<lparr>sf_name = n, sf_weight = w, sf_description = d\<rparr>] else [])"
  by (simp add: factor_def)

lemma snd_factor: "snd (factor c n w d t) = snd t + (if c then w else 0)"
  by (simp add: factor_def)

definition tally_ok :: "tally \<Rightarrow> bool" where
  "tally_ok t \<longleftrightarrow> snd t = 100 + sum_list (map sf_weight (fst t)) \<and> (\<forall>f\<in>set (fst t). - 32768 \<le> sf_weight f \<and> sf_weight f < 32768)"

lemma tally_factor: "tally_ok t \<Longrightarrow> - 32768 \<le> w \<Longrightarrow> w < 32768 \<Longrightarrow> tally_ok (factor c n w d t)"
  by (auto simp: tally_ok_def factor_def)

lemma penalty_range: "- 32768 \<le> risk_penalty n w" "risk_penalty n w < 32768" "- 32768 \<le> capped_penalty n w m" "capped_penalty n w m < 32768"
  using as_i16_range unfolding risk_penalty_def capped_penalty_def by blast+

lemma tally_raw: "tally_ok (raw_tally report root dir)"
  unfolding raw_tally_def directory_factors_def obfuscation_factors_def capability_factors_def finding_factors_def comp_def
    message_factor_def risk_factor_def Let_def
  by (intro tally_factor penalty_range) (simp_all add: tally_ok_def)

lemma length_factor: "length (fst t) \<le> n \<Longrightarrow> length (fst (factor c m w d t)) \<le> Suc n"
  by (simp add: factor_def)

lemma length_raw: "length (fst (raw_tally report root dir)) \<le> 19"
proof -
  have "length (fst (raw_tally report root dir)) \<le> Suc (Suc (Suc (Suc (Suc (Suc (Suc (Suc (Suc (Suc (Suc (Suc (Suc (Suc (Suc (Suc (Suc (Suc (Suc 0))))))))))))))))))"
    unfolding raw_tally_def directory_factors_def obfuscation_factors_def capability_factors_def finding_factors_def comp_def
      message_factor_def risk_factor_def Let_def
    by (intro length_factor) simp
  then show ?thesis by simp
qed

definition graded :: "safety_score \<Rightarrow> bool" where
  "graded s \<longleftrightarrow> 0 \<le> ss_score s \<and> ss_score s \<le> 100 \<and> ss_grade s = score_to_grade (ss_score s)"

lemma graded_inner: "graded (compute_safety_score_inner report root dir)"
  by (simp add: compute_safety_score_inner_def Let_def graded_def)

lemma graded_context:
  "graded s \<Longrightarrow> graded (dev_discount ctx s)" "graded s \<Longrightarrow> graded (popularity_floor ctx fs s)" "graded s \<Longrightarrow> graded (suspicion ctx s)"
  by (auto simp: graded_def dev_discount_def popularity_floor_def suspicion_def set_score_def Let_def)

text \<open>
  C39: The arithmetic of the score is safe where it is not meant to wrap. The score is always between 0 and 100 and the grade is the one of the score; before
  the floor the raw score is 100 plus the weights of the factors, of which there are at most 19, each within 16 bits, so that no 32-bit sum on the way overflows.
\<close>

theorem score_bounds:
  "0 \<le> ss_score (compute_safety_score_contextual report root dir ctx)
   \<and> ss_score (compute_safety_score_contextual report root dir ctx) \<le> 100
   \<and> ss_grade (compute_safety_score_contextual report root dir ctx) = score_to_grade (ss_score (compute_safety_score_contextual report root dir ctx))
   \<and> snd (raw_tally report root dir) = 100 + sum_list (map sf_weight (fst (raw_tally report root dir)))
   \<and> length (fst (raw_tally report root dir)) \<le> 19
   \<and> list_all (\<lambda>f. sf_weight f \<in> {- 32768..<32768}) (fst (raw_tally report root dir))"
proof -
  have "graded (compute_safety_score_contextual report root dir ctx)"
    unfolding compute_safety_score_contextual_def by (intro graded_context graded_inner)
  then show ?thesis using tally_raw[of report root dir] length_raw[of report root dir] by (simp add: graded_def tally_ok_def list_all_iff)
qed

section \<open>More findings, lower score\<close>

definition finding_penalty :: "finding list \<Rightarrow> int" where
  "finding_penalty fs = 30 * int (risk_count Risk_critical fs) + 15 * int (risk_count Risk_high fs)
     + 5 * int (risk_count Risk_medium fs) + 2 * int (risk_count Risk_low fs)"

definition obfuscation_penalty :: "finding list \<Rightarrow> int" where
  "obfuscation_penalty fs = (if high_obfuscation fs then 25 else 0)
     + min (30 * int (message_count Obfuscation ''Base64 payload'' fs)) 60
     + min (25 * int (message_count Obfuscation ''Dynamic require'' fs)) 50
     + min (40 * int (message_count Obfuscation ''Hex string execution'' fs)) 80
     + min (35 * int (message_count DataExfiltration ''Environment variable exfiltration'' fs)) 70
     + min (20 * int (message_count CryptoMiner ''wallet address'' fs)) 60"

lemma risk_penalty_small: "n \<le> 1092 \<Longrightarrow> 0 \<le> w \<Longrightarrow> w \<le> 30 \<Longrightarrow> risk_penalty n w = - (w * int n)"
proof -
  assume n: "n \<le> 1092" and w: "0 \<le> w" "w \<le> 30"
  have "int n * w \<le> 1092 * 30" using n w by (intro mult_mono) simp_all
  moreover have "0 \<le> int n * w" using w by simp
  ultimately show ?thesis using n by (simp add: risk_penalty_def as_i16_id mult.commute)
qed

lemma capped_penalty_small: "n \<le> 1092 \<Longrightarrow> 0 \<le> w \<Longrightarrow> w \<le> 40 \<Longrightarrow> 0 \<le> m \<Longrightarrow> m \<le> 80 \<Longrightarrow> capped_penalty n w m = - min (w * int n) m"
proof -
  assume n: "n \<le> 1092" and w: "0 \<le> w" "w \<le> 40" and m: "0 \<le> m" "m \<le> 80"
  have "int n * w \<le> 1092 * 40" using n w by (intro mult_mono) simp_all
  then have b: "int n * w \<le> 1092 * 40" "0 \<le> int n * w" using w by simp_all
  then have "as_i32 (as_i32 (int n) * w) = int n * w" using n by (simp add: as_i32_id)
  moreover have "- 80 \<le> - min (int n * w) m \<and> - min (int n * w) m \<le> 0" using b m by auto
  then have "as_i32 (- min (int n * w) m) = - min (int n * w) m" "as_i16 (- min (int n * w) m) = - min (int n * w) m"
    by (intro as_i32_id as_i16_id; linarith)+
  ultimately show ?thesis by (simp add: capped_penalty_def mult.commute)
qed

lemma counts_le: "risk_count r fs \<le> length fs" "message_count k part fs \<le> length fs"
  by (simp_all add: risk_count_def message_count_def)

lemma snd_risk:
  assumes "length fs \<le> 1092" "0 \<le> w" "w \<le> 30"
  shows "snd (risk_factor r name w label fs t) = snd t - w * int (risk_count r fs)"
proof -
  have "risk_count r fs \<le> 1092" using counts_le(1)[of r fs] assms(1) by simp
  then show ?thesis using assms(2,3) by (simp add: risk_factor_def Let_def snd_factor risk_penalty_small)
qed

lemma snd_message:
  assumes "length fs \<le> 1092" "0 \<le> w" "w \<le> 40" "0 \<le> m" "m \<le> 80"
  shows "snd (message_factor k part name w m label fs t) = snd t - min (w * int (message_count k part fs)) m"
proof -
  have n: "message_count k part fs \<le> 1092" using counts_le(2)[of k part fs] assms(1) by simp
  then have "as_i32 (int (message_count k part fs)) = int (message_count k part fs)" by (simp add: as_i32_id)
  then show ?thesis using assms(4) by (simp add: message_factor_def Let_def snd_factor capped_penalty_small[OF n assms(2-5)])
qed

lemma snd_findings: "length fs \<le> 1092 \<Longrightarrow> snd (finding_factors fs t) = snd t - finding_penalty fs"
  by (simp add: finding_factors_def finding_penalty_def snd_risk)

lemma snd_obfuscation: "length fs \<le> 1092 \<Longrightarrow> snd (obfuscation_factors fs t) = snd t - obfuscation_penalty fs"
  by (simp add: obfuscation_factors_def obfuscation_penalty_def snd_message snd_factor)

lemma snd_capability: "snd (capability_factors name caps t) = snd t + snd (capability_factors name caps ([], 0))"
  by (simp add: capability_factors_def snd_factor)

lemma snd_directory: "snd (directory_factors root dir t) = snd t + snd (directory_factors root dir ([], 0))"
  by (simp add: directory_factors_def snd_factor)

lemma raw_tally_small:
  assumes "length (ar_findings report) \<le> 1092"
  shows "snd (raw_tally report root dir) = snd (directory_factors root dir ([], 0)) + snd (capability_factors (ar_package_name report) (ar_capabilities report) ([], 0))
     + 100 - finding_penalty (ar_findings report) - obfuscation_penalty (ar_findings report)"
  using snd_directory[of root dir "obfuscation_factors (ar_findings report) (capability_factors (ar_package_name report) (ar_capabilities report) (finding_factors (ar_findings report) ([], 100)))"]
    snd_capability[of "ar_package_name report" "ar_capabilities report" "finding_factors (ar_findings report) ([], 100)"]
  by (simp add: raw_tally_def snd_obfuscation[OF assms] snd_findings[OF assms])

definition more_findings :: "finding list \<Rightarrow> finding list \<Rightarrow> bool" where
  "more_findings fs fs' \<longleftrightarrow> mset fs \<subseteq># mset fs'"

lemma more_filter: "more_findings fs fs' \<Longrightarrow> length (filter P fs) \<le> length (filter P fs')"
  unfolding more_findings_def by (metis mset_filter multiset_filter_mono size_mset size_mset_mono)

lemma more_set: "more_findings fs fs' \<Longrightarrow> set fs \<subseteq> set fs'"
  unfolding more_findings_def by (metis set_mset_mono set_mset_mset)

lemma finding_penalty_mono: "more_findings fs fs' \<Longrightarrow> finding_penalty fs \<le> finding_penalty fs'"
  unfolding finding_penalty_def risk_count_def
  by (intro add_mono mult_left_mono) (simp_all add: more_filter)

lemma obfuscation_penalty_mono: "more_findings fs fs' \<Longrightarrow> obfuscation_penalty fs \<le> obfuscation_penalty fs'"
  unfolding obfuscation_penalty_def message_count_def
  by (intro add_mono min.mono mult_left_mono order_refl)
    (use more_set[of fs fs'] more_filter[of fs fs'] in \<open>auto simp: high_obfuscation_def\<close>)

lemma apply_floor_mono: "snd t \<le> snd t' \<Longrightarrow> snd (apply_floor r t) \<le> snd (apply_floor r t')"
  by (auto simp: apply_floor_def split: option.split)

lemma discount_mono:
  fixes a b :: int
  assumes "a \<le> b" shows "a + ((100 - a) * 40) div 100 \<le> b + ((100 - b) * 40) div 100"
proof -
  have "(100 - a) * 40 \<le> (100 - b) * 40 + (b - a) * 100" using assms by simp
  then have "((100 - a) * 40) div 100 \<le> ((100 - b) * 40 + (b - a) * 100) div 100" by (rule zdiv_mono1) simp
  then show ?thesis by simp
qed

lemma dev_discount_score: "graded s \<Longrightarrow> ss_score (dev_discount ctx s) = (if sc_is_dev ctx then ss_score s + ((100 - ss_score s) * 40) div 100 else ss_score s)"
proof -
  assume g: "graded s"
  have "0 \<le> ((100 - ss_score s) * 40) div 100" using g by (simp add: graded_def pos_imp_zdiv_nonneg_iff)
  moreover have "ss_score s + ((100 - ss_score s) * 40) div 100 \<le> 100"
    using discount_mono[of "ss_score s" 100] g by (simp add: graded_def)
  ultimately show ?thesis using g by (auto simp: dev_discount_def set_score_def Let_def graded_def)
qed

text \<open>
  C40: More findings never make a package look safer. As long as there are at most 1,092 of them, adding findings to a report, and changing nothing else, never
  raises the score, whatever the package, its directory and its context are: not through a penalty, a cap, the floor by the verdict, the discount
  for development dependencies or the trust in popular packages.
\<close>

theorem score_antitone:
  assumes "mset (ar_findings report) \<subseteq># mset fs" "length fs \<le> 1092"
  shows "ss_score (compute_safety_score_contextual (report\<lparr>ar_findings := fs\<rparr>) root dir ctx) \<le> ss_score (compute_safety_score_contextual report root dir ctx)"
proof -
  let ?r = "report\<lparr>ar_findings := fs\<rparr>"
  have more: "more_findings (ar_findings report) fs" using assms(1) by (simp add: more_findings_def)
  have "length (ar_findings report) \<le> 1092" using more_filter[OF more, of "\<lambda>_. True"] assms(2) by simp
  then have "snd (raw_tally ?r root dir) \<le> snd (raw_tally report root dir)"
    using raw_tally_small[of report root dir] raw_tally_small[of ?r root dir] assms(2) finding_penalty_mono[OF more] obfuscation_penalty_mono[OF more] by simp
  then have inner: "ss_score (compute_safety_score_inner ?r root dir) \<le> ss_score (compute_safety_score_inner report root dir)"
    using apply_floor_mono[of "raw_tally ?r root dir" "raw_tally report root dir" "ar_overall_risk report"]
    by (simp add: compute_safety_score_inner_def Let_def)
  let ?d = "dev_discount ctx (compute_safety_score_inner report root dir)" and ?d' = "dev_discount ctx (compute_safety_score_inner ?r root dir)"
  have dev: "ss_score ?d' \<le> ss_score ?d"
    using inner discount_mono[OF inner] dev_discount_score[OF graded_inner] by simp
  have "\<exists>f\<in>set fs. fd_risk f = Risk_critical" if "\<exists>f\<in>set (ar_findings report). fd_risk f = Risk_critical" using that more_set[OF more] by blast
  then have pop: "ss_score (popularity_floor ctx fs ?d') \<le> ss_score (popularity_floor ctx (ar_findings report) ?d)"
    using dev by (auto simp: popularity_floor_def set_score_def)
  then show ?thesis
    unfolding compute_safety_score_contextual_def by (auto simp: suspicion_def set_score_def)
qed

definition sample_finding :: "finding_risk \<Rightarrow> finding" where
  "sample_finding r = \<lparr>fd_kind = CredentialHarvest, fd_risk = r, fd_message = ''m'', fd_file = ''a.js'', fd_line = 1, fd_snippet = None\<rparr>"

definition sample_report :: "finding list \<Rightarrow> analysis_report" where
  "sample_report fs = \<lparr>ar_package_name = ''p'', ar_package_version = ''1'', ar_overall_risk = Risk_critical, ar_findings = fs,
     ar_files_scanned = 1, ar_lines_scanned = 1, ar_capabilities = no_capabilities, ar_verdict_reasons = []\<rparr>"

definition sample_package :: ftree where
  "sample_package = Dir [(''p'', Dir [(''index.d.ts'', File []), (''LICENSE'', File []), (''README.md'', File []), (''test'', Dir [])])]"

definition no_context :: score_context where
  "no_context = \<lparr>sc_is_dev = False, sc_weekly_downloads = 0, sc_age_days = 0\<rparr>"

theorem score_antitone_witness:
  "ss_score (compute_safety_score_contextual (sample_report [sample_finding Risk_high]) sample_package [''p''] no_context)
     \<le> ss_score (compute_safety_score_contextual (sample_report []) sample_package [''p''] no_context)"
proof -
  have "sample_report [sample_finding Risk_high] = (sample_report [])\<lparr>ar_findings := [sample_finding Risk_high]\<rparr>" by (simp add: sample_report_def)
  then show ?thesis
    using score_antitone[of "sample_report []" "[sample_finding Risk_high]" sample_package "[''p'']" no_context] by (simp add: sample_report_def)
qed

section \<open>Where the score misleads\<close>

lemma known_at_root: "is_known_safe_for_capability ''p'' c \<longleftrightarrow> False"
  by (simp add: is_known_safe_for_capability_def KNOWN_NETWORK_PACKAGES_def KNOWN_FS_PACKAGES_def KNOWN_ENV_PACKAGES_def KNOWN_EXEC_PACKAGES_def)

text \<open>
  The number of critical findings is cast to 16 bits and multiplied by 30: with 1,092 of them the score is 0, and with one more the
  penalty wraps around to a bonus and the package is graded A.
\<close>

lemma replicate_counts:
  "risk_count r (replicate n (sample_finding Risk_critical)) = (if r = Risk_critical then n else 0)"
  "message_count Obfuscation part (replicate n (sample_finding r')) = 0"
  "message_count DataExfiltration part (replicate n (sample_finding r')) = 0"
  "message_count CryptoMiner part (replicate n (sample_finding r')) = 0"
  "\<not> high_obfuscation (replicate n (sample_finding r'))"
  by (auto simp: risk_count_def message_count_def high_obfuscation_def sample_finding_def filter_replicate)

lemma wrapped_penalty: "risk_penalty 1092 30 = - 32760" "risk_penalty 1093 30 = 32746"
  by code_simp+

lemma critical_findings_wrap:
  "ss_score (compute_safety_score_inner (sample_report (replicate 1092 (sample_finding Risk_critical))) (Dir []) [''p'']) = 0"
  "ss_score (compute_safety_score_inner (sample_report (replicate 1093 (sample_finding Risk_critical))) (Dir []) [''p'']) = 100"
  "ss_grade (compute_safety_score_inner (sample_report (replicate 1093 (sample_finding Risk_critical))) (Dir []) [''p'']) = CHR ''A''"
proof -
  let ?t = "\<lambda>n. snd (raw_tally (sample_report (replicate n (sample_finding Risk_critical))) (Dir []) [''p''])"
  have files: "walk_dir (Dir []) [''p''] = []" "\<not> path_exists (Dir []) (''p'' # q)" for q
    by (simp_all add: walk_dir_def real_path_def path_exists_def)
  have zero: "as_i32 0 = 0" by (simp add: as_i32_id)
  have none: "snd (message_factor k part name w m label fs t) = snd t" if "message_count k part fs = 0" for k part name w m label fs t
    using that zero by (simp add: message_factor_def Let_def snd_factor)
  have t: "?t n = 100 + risk_penalty n 30" if "0 < n" "n < 4294967296" for n
    using that files by (simp add: raw_tally_def directory_factors_def obfuscation_factors_def capability_factors_def finding_factors_def
      none replicate_counts risk_factor_def Let_def snd_factor sample_report_def no_capabilities_def any_exists_def has_types_def
      has_minified_def file_count_def)
  have f: "apply_floor Risk_critical x = x" for x by (simp add: apply_floor_def verdict_floor_def)
  have r: "ar_overall_risk (sample_report fs) = Risk_critical" for fs by (simp add: sample_report_def)
  show "ss_score (compute_safety_score_inner (sample_report (replicate 1092 (sample_finding Risk_critical))) (Dir []) [''p'']) = 0"
    "ss_score (compute_safety_score_inner (sample_report (replicate 1093 (sample_finding Risk_critical))) (Dir []) [''p'']) = 100"
    "ss_grade (compute_safety_score_inner (sample_report (replicate 1093 (sample_finding Risk_critical))) (Dir []) [''p'']) = CHR ''A''"
    using t[of 1092] t[of 1093] unfolding compute_safety_score_inner_def Let_def r f by (simp_all add: wrapped_penalty score_to_grade_def del: replicate.simps)
qed

text \<open>The bonuses for the directory make up for a critical finding: a package on which the verdict is to block is graded A.\<close>

lemma critical_finding_graded_A:
  "ss_score (compute_safety_score_contextual (sample_report [sample_finding Risk_critical]) sample_package [''p''] no_context) = 90
   \<and> ss_grade (compute_safety_score_contextual (sample_report [sample_finding Risk_critical]) sample_package [''p''] no_context) = CHR ''A''"
proof -
  let ?r = "sample_report [sample_finding Risk_critical]"
  have "snd (directory_factors sample_package [''p''] ([], 0)) = 20" by code_simp
  moreover have "snd (capability_factors (ar_package_name ?r) (ar_capabilities ?r) ([], 0)) = 0"
    by (simp add: capability_factors_def factor_def sample_report_def no_capabilities_def)
  moreover have "finding_penalty (ar_findings ?r) = 30" "obfuscation_penalty (ar_findings ?r) = 0"
    by (simp_all add: finding_penalty_def obfuscation_penalty_def risk_count_def message_count_def high_obfuscation_def sample_report_def sample_finding_def)
  ultimately have "snd (raw_tally ?r sample_package [''p'']) = 90"
    by (subst raw_tally_small) (simp_all add: sample_report_def)
  then show ?thesis
    by (simp add: compute_safety_score_contextual_def compute_safety_score_inner_def apply_floor_def verdict_floor_def dev_discount_def
      popularity_floor_def suspicion_def no_context_def sample_report_def score_to_grade_def)
qed

end
