(* ===== verification/Analyze_Scan.thy ===== *)
theory Analyze_Scan
  imports Analyze_Behavior Analyze_Score Tarball Json
begin

text \<open>
  The package scanner (\<open>crates/oath-analyze/src/scanner.rs\<close>): which files it reads, the heuristics for obfuscated
  text, and how the verdicts of the files and of the install hooks make up the risk of the package. Parameters are the
  regex crate, \<open>rx pattern text\<close> being the texts of the matches in their order, the JSON reader, the two visitors of the
  syntax tree, and the text of a quotient with one decimal. The quotients of two lengths below \<open>2 ^ 52\<close> the code takes as floating point numbers are
  compared here by multiplying out, which gives the same answer.
\<close>

section \<open>Files that are read\<close>

definition is_test_source :: "string \<Rightarrow> bool" where
  "is_test_source relative_path =
     (let normalized = lowercase (replace_char (CHR 0x5C) ''/'' relative_path);
          components = split_char (CHR ''/'') normalized;
          file_name = last components
      in (\<exists>c\<in>set components. c \<in> {''test'', ''tests'', ''__tests__'', ''spec'', ''specs'', ''fixtures'', ''__fixtures__''})
         \<or> contains_str file_name ''.test.'' \<or> contains_str file_name ''.spec.''
         \<or> starts_with file_name ''test-'' \<or> starts_with file_name ''spec-'')"

text \<open>\<open>Path::extension\<close>, the empty text when there is none.\<close>

definition file_extension :: "string \<Rightarrow> string" where
  "file_extension name =
     (if name = ''..'' then [] else case split_last (CHR ''.'') name of Some (stem, ext) \<Rightarrow> (if stem = [] then [] else ext) | None \<Rightarrow> [])"

definition is_source_file :: "string \<Rightarrow> bool" where
  "is_source_file name \<longleftrightarrow>
     file_extension name \<in> {''js'', ''mjs'', ''cjs'', ''ts'', ''tsx''}
     \<and> \<not> (ends_with name ''.d.ts'' \<or> ends_with name ''.d.cts'' \<or> ends_with name ''.d.mts'')"

definition relative_text :: "string list \<Rightarrow> string" where
  "relative_text p = replace_char (CHR 0x5C) ''/'' (intercalate ''/'' p)"

section \<open>Obfuscated text\<close>

abbreviation bs :: char where "bs \<equiv> CHR 0x5C"

function count_matches :: "string \<Rightarrow> string \<Rightarrow> nat" where
  "count_matches pat s =
     (case find_str pat s of None \<Rightarrow> 0 | Some (a, b) \<Rightarrow> if pat = [] then 0 else Suc (count_matches pat b))"
  by pat_completeness auto
termination
  by (relation "measure (\<lambda>(pat, s). length s)") (auto dest!: find_str_Some)

declare count_matches.simps [simp del]

definition line_one :: "string \<Rightarrow> finding_kind \<Rightarrow> finding_risk \<Rightarrow> string \<Rightarrow> string option \<Rightarrow> finding" where
  "line_one path kind risk message snippet =
     \<lparr>fd_kind = kind, fd_risk = risk, fd_message = message, fd_file = path, fd_line = 1, fd_snippet = snippet\<rparr>"

definition detect_minified :: "string \<Rightarrow> string \<Rightarrow> finding list" where
  "detect_minified source path =
     (let ls = str_lines source; line_count = length ls
      in if 50 < line_count
         then let avg = sum_list (map length ls) div line_count
              in if 500 < avg
                 then let vendor = contains_str path ''node_modules'' \<or> contains_str path ''vendor/'';
                          desc = (if vendor then ''Minified vendor bundle detected'' else ''Minified source code detected (not vendor)'')
                      in [line_one path Obfuscation (if vendor then Risk_info else Risk_medium)
                            (desc @ '': avg line length '' @ decimal avg @ '' chars across '' @ decimal line_count @ '' lines'')
                            (Some (take_chars 120 (hd ls)))]
                 else []
         else [])"

definition hex_re :: string where "hex_re = [bs, bs] @ ''x[0-9a-fA-F]{2}''"

definition string_re :: string where
  "string_re = ''(?:'' @ [dq] @ ''([^'' @ [dq, bs, bs] @ '']|'' @ [bs, bs] @ ''.)*'' @ [dq] @ ''|'' @ [sq] @ ''([^'' @ [sq, bs, bs] @ '']|'' @ [bs, bs] @ ''.)*'' @ [sq] @ '')''"

definition detect_hex :: "(string \<Rightarrow> string \<Rightarrow> string list) \<Rightarrow> (nat \<Rightarrow> nat \<Rightarrow> nat \<Rightarrow> string) \<Rightarrow> string \<Rightarrow> string \<Rightarrow> finding list" where
  "detect_hex rx one_decimal source path =
     (let strings = rx string_re source;
          total_string_len = sum_list (map length strings);
          hex_match_len = sum_list (map length (concat (map (rx hex_re) strings)))
      in if 100 < total_string_len \<and> total_string_len < 5 * hex_match_len
         then [line_one path Obfuscation Risk_high
                 (''High hex encoding density: '' @ one_decimal 100 hex_match_len total_string_len
                    @ ''% of string content is '' @ [bs, bs] @ ''xNN encoded'') None]
         else [])"

definition detect_char_codes :: "string \<Rightarrow> string \<Rightarrow> finding list" where
  "detect_char_codes source path =
     (if \<not> contains_str path ''test'' \<and> \<not> contains_str path ''spec''
      then let n = count_matches ''String.fromCharCode'' source
           in if 25 < n then [line_one path Obfuscation Risk_info (''Builds '' @ decimal n @ '' strings from char codes (informational)'') None] else []
      else [])"

definition ident_re :: string where "ident_re = [bs] @ ''b[a-zA-Z_$][a-zA-Z0-9_$]*'' @ [bs] @ ''b''"

definition js_keywords :: "string list" where
  "js_keywords = [''var'', ''let'', ''const'', ''function'', ''return'', ''if'', ''else'', ''for'', ''while'', ''do'', ''switch'', ''case'',
     ''break'', ''continue'', ''new'', ''this'', ''typeof'', ''instanceof'', ''void'', ''delete'', ''in'', ''of'', ''try'', ''catch'', ''finally'',
     ''throw'', ''class'', ''extends'', ''import'', ''export'', ''default'', ''from'', ''async'', ''await'', ''yield'', ''true'', ''false'', ''null'',
     ''undefined'']"

definition detect_short_names :: "(string \<Rightarrow> string \<Rightarrow> string list) \<Rightarrow> (nat \<Rightarrow> nat \<Rightarrow> nat \<Rightarrow> string) \<Rightarrow> string \<Rightarrow> string \<Rightarrow> finding list" where
  "detect_short_names rx one_decimal source path =
     (let ident_lengths = map length (filter (\<lambda>w. w \<notin> set js_keywords \<and> length w \<le> 20) (rx ident_re source));
          n = length ident_lengths; total_len = sum_list ident_lengths
      in if 100 < n \<and> total_len < 2 * n
         then [line_one path Obfuscation Risk_medium
                 (''Short variable names: avg identifier length '' @ one_decimal 1 total_len n @ '' chars across '' @ decimal n @ '' identifiers'') None]
         else [])"

definition detect_obfuscation :: "(string \<Rightarrow> string \<Rightarrow> string list) \<Rightarrow> (nat \<Rightarrow> nat \<Rightarrow> nat \<Rightarrow> string) \<Rightarrow> string \<Rightarrow> string \<Rightarrow> finding list" where
  "detect_obfuscation rx one_decimal source path =
     detect_minified source path @ detect_hex rx one_decimal source path @ detect_char_codes source path
     @ detect_short_names rx one_decimal source path"

section \<open>Payloads\<close>

definition b64_buf_re :: string where
  "b64_buf_re = ''Buffer'' @ [bs] @ ''.from'' @ [bs] @ ''('' @ [bs] @ ''s*['' @ [sq, dq] @ '']([A-Za-z0-9+/=]{24,})['' @ [sq, dq] @ '']'' @ [bs] @ ''s*,''
     @ [bs] @ ''s*['' @ [sq, dq] @ '']base64['' @ [sq, dq] @ '']'' @ [bs] @ ''s*'' @ [bs] @ '')''"

definition atob_re :: string where
  "atob_re = ''atob'' @ [bs] @ ''('' @ [bs] @ ''s*['' @ [sq, dq] @ '']([A-Za-z0-9+/=]{24,})['' @ [sq, dq] @ '']'' @ [bs] @ ''s*'' @ [bs] @ '')''"

definition dyn_req_patterns :: "string list" where
  "dyn_req_patterns =
     [''require'' @ [bs] @ ''s*'' @ [bs] @ ''('' @ [bs] @ ''s*'' @ [bs] @ ''['',
      ''require'' @ [bs] @ ''s*'' @ [bs] @ ''('' @ [sq] @ ''[^'' @ [sq] @ '']*'' @ [sq, bs] @ ''s*'' @ [bs] @ ''+'',
      ''require'' @ [bs] @ ''s*'' @ [bs] @ ''('' @ [dq] @ ''[^'' @ [dq] @ '']*'' @ [dq, bs] @ ''s*'' @ [bs] @ ''+'']"

definition eval_charcode_re :: string where
  "eval_charcode_re = ''eval'' @ [bs] @ ''s*'' @ [bs] @ ''('' @ [bs] @ ''s*String'' @ [bs] @ ''.fromCharCode'' @ [bs] @ ''s*'' @ [bs] @ ''(''"

definition eval_hex_re :: string where
  "eval_hex_re = ''eval'' @ [bs] @ ''s*'' @ [bs] @ ''('' @ [bs] @ ''s*['' @ [sq, dq] @ ''](?:'' @ [bs, bs] @ ''x[0-9a-fA-F]{2}){20,}['' @ [sq, dq] @ '']''
     @ [bs] @ ''s*'' @ [bs] @ '')''"

definition eth_wallet_re :: string where "eth_wallet_re = [bs] @ ''b0x[0-9a-fA-F]{40}'' @ [bs] @ ''b''"
definition btc_wallet_re :: string where "btc_wallet_re = [bs] @ ''b[13][a-km-zA-HJ-NP-Z1-9]{25,34}'' @ [bs] @ ''b''"

definition sensitive_env_texts :: "string list" where
  "sensitive_env_texts = [''process.env.NPM_TOKEN'', ''process.env.AWS'', ''process.env.GITHUB_TOKEN'', ''process.env.GH_TOKEN'',
     ''process.env.SECRET'', ''process.env.PRIVATE'', ''process.env.TOKEN'', ''process.env.PASSWORD'', ''stringify(process.env'',
     ''...process.env'', ''keys(process.env'', ''entries(process.env'', ''assign({}, process.env'']"

definition outbound_sink_texts :: "string list" where
  "outbound_sink_texts = [''require('' @ [sq] @ ''http'' @ [sq] @ '')'', ''require('' @ [dq] @ ''http'' @ [dq] @ '')'', ''require('' @ [sq] @ ''https'' @ [sq] @ '')'',
     ''require('' @ [dq] @ ''https'' @ [dq] @ '')'', ''fetch('', ''axios'', ''.request('', ''net.connect'', ''dns.'']"

text \<open>The source without its white space.\<close>

function compact :: "string \<Rightarrow> string" where
  "compact [] = []"
| "compact (c # cs) =
     (case find (\<lambda>w. w \<noteq> [] \<and> starts_with (c # cs) w) white_space of
        None \<Rightarrow> c # compact cs
      | Some w \<Rightarrow> compact (drop (length w) (c # cs)))"
  by pat_completeness auto
termination
proof (relation "measure length")
  fix c cs w assume "find (\<lambda>w. w \<noteq> [] \<and> starts_with (c # cs) w) white_space = Some w"
  then have "w \<noteq> []" by (auto simp: find_Some_iff)
  then show "(drop (length w) (c # cs), c # cs) \<in> measure length" by (cases w) simp_all
qed simp_all

declare compact.simps [simp del]

definition decode_exec :: "string list" where
  "decode_exec = [''eval(atob('', ''eval(Buffer.from('', ''eval(String.fromCharCode('', ''Function(atob('', ''Function(Buffer.from('',
     ''Function(String.fromCharCode('', ''require(atob('', ''require(Buffer.from('', ''require(String.fromCharCode('']"

definition b64_count :: "(string \<Rightarrow> string \<Rightarrow> string list) \<Rightarrow> string \<Rightarrow> nat" where
  "b64_count rx source = length (rx b64_buf_re source) + length (rx atob_re source)"

definition hex_exec_count :: "(string \<Rightarrow> string \<Rightarrow> string list) \<Rightarrow> string \<Rightarrow> nat" where
  "hex_exec_count rx source = length (rx eval_charcode_re source) + length (rx eval_hex_re source)"

definition wallet_count :: "(string \<Rightarrow> string \<Rightarrow> string list) \<Rightarrow> string \<Rightarrow> nat" where
  "wallet_count rx source = length (rx eth_wallet_re source) + length (rx btc_wallet_re source)"

definition detect_exfiltration :: "string \<Rightarrow> string \<Rightarrow> finding list" where
  "detect_exfiltration source path =
     (if contains_any sensitive_env_texts source \<and> contains_any outbound_sink_texts source
      then [line_one path DataExfiltration Risk_high
              ''Possible secret exfiltration: sensitive environment variables read alongside an outbound network call'' None]
      else [])"

definition detect_advanced_obfuscation :: "(string \<Rightarrow> string \<Rightarrow> string list) \<Rightarrow> string \<Rightarrow> string \<Rightarrow> finding list" where
  "detect_advanced_obfuscation rx source path =
     replicate (b64_count rx source) (line_one path Obfuscation Risk_medium
         (''Base64 payload detected: Buffer.from(..., '' @ [sq] @ ''base64'' @ [sq] @ '') or atob() with long string'') None)
     @ concat (map (\<lambda>pat. replicate (length (rx pat source)) (line_one path Obfuscation Risk_low
         ''Dynamic require with a computed/concatenated module name'' None)) dyn_req_patterns)
     @ replicate (hex_exec_count rx source) (line_one path Obfuscation Risk_critical
         ''Hex string execution: eval(String.fromCharCode(...)) or eval() with hex-encoded string'' None)
     @ detect_exfiltration source path
     @ map (\<lambda>pat. line_one path DynamicExec Risk_critical
         ''Decoded payload executed: a base64/charcode decode feeds directly into eval/Function/require'' None)
         (filter (contains_str (compact source)) decode_exec)
     @ replicate (wallet_count rx source) (line_one path CryptoMiner Risk_medium
         ''Cryptocurrency wallet address detected (Bitcoin/Ethereum pattern)'' None)"

section \<open>The scan of a package\<close>

definition merge_verdict :: "verdict \<times> string list \<Rightarrow> verdict \<times> string list \<Rightarrow> verdict \<times> string list" where
  "merge_verdict current new =
     (if verdict_rank (fst current) < verdict_rank (fst new) then fst new else fst current,
      fold (\<lambda>reason rs. if reason \<in> set rs then rs else rs @ [reason]) (snd new) (snd current))"

text \<open>What the scan needs of the crates it uses.\<close>

record scan_lib =
  lib_json :: "string \<Rightarrow> json option"
  lib_visit :: "string \<Rightarrow> string \<Rightarrow> behavior option"
  lib_ast :: "string \<Rightarrow> string \<Rightarrow> finding list"
  lib_rx :: "string \<Rightarrow> string \<Rightarrow> string list"
  lib_decimal :: "nat \<Rightarrow> nat \<Rightarrow> nat \<Rightarrow> string"

record scan_state =
  sn_findings :: "finding list"
  sn_files :: nat
  sn_lines :: nat
  sn_behavior :: behavior
  sn_verdict :: "verdict \<times> string list"

definition install_hooks :: "string list" where
  "install_hooks = [''preinstall'', ''install'', ''postinstall'']"

definition hook_finding :: "string \<Rightarrow> string \<Rightarrow> finding" where
  "hook_finding hook cmd = \<lparr>fd_kind = InstallScript, fd_risk = Risk_medium, fd_message = hook @ '' script: '' @ cmd,
     fd_file = ''package.json'', fd_line = 0, fd_snippet = Some (take_chars 120 cmd)\<rparr>"

definition hook_commands :: "json \<Rightarrow> (string \<times> string) list" where
  "hook_commands j =
     List.map_filter (\<lambda>hook. map_option (Pair hook) (Option.bind (Option.bind (json_get j ''scripts'') (\<lambda>s. json_get s hook)) as_str)) install_hooks"

text \<open>The hooks of the manifest: an unreadable manifest is the only error of the scan.\<close>

definition read_hooks :: "(string \<Rightarrow> json option) \<Rightarrow> ftree \<Rightarrow> string list \<Rightarrow> (unit, (string \<times> string) list) result" where
  "read_hooks parse root dir =
     (if \<not> path_exists root (dir @ [''package.json'']) then Inr []
      else case fs_read root (dir @ [''package.json'']) of
             None \<Rightarrow> Inl ()
           | Some content \<Rightarrow>
               if valid_utf8 content then Inr (case parse content of None \<Rightarrow> [] | Some j \<Rightarrow> hook_commands j) else Inl ())"

text \<open>The relative path and the text of the files that are analysed.\<close>

definition scanned_source :: "string list \<Rightarrow> string list \<times> ftree \<Rightarrow> (string \<times> string) option" where
  "scanned_source dir e =
     (case snd e of
        File source \<Rightarrow>
          if is_source_file (entry_name dir e) \<and> \<not> is_test_source (relative_text (fst e)) \<and> valid_utf8 source \<and> length source \<le> 500000
          then Some (relative_text (fst e), source) else None
      | _ \<Rightarrow> None)"

definition scan_file :: "scan_lib \<Rightarrow> string \<times> string \<Rightarrow> scan_state \<Rightarrow> scan_state" where
  "scan_file lib file st =
     (let path = fst file; source = snd file; b = analyze_file (lib_visit lib) source path
      in \<lparr>sn_findings = sn_findings st @ detect_obfuscation (lib_rx lib) (lib_decimal lib) source path
            @ detect_advanced_obfuscation (lib_rx lib) source path @ analyze_source (lib_ast lib) source path,
          sn_files = sn_files st + 1,
          sn_lines = sn_lines st + length (str_lines source),
          sn_behavior = merge_behavior (sn_behavior st) b,
          sn_verdict = merge_verdict (sn_verdict st) (verdict_of b False)\<rparr>)"

text \<open>\<open>dedup_by\<close>: an element goes when the last one kept before it has its kind, file and line.\<close>

definition same_finding :: "finding \<Rightarrow> finding \<Rightarrow> bool" where
  "same_finding a b \<longleftrightarrow> fd_kind a = fd_kind b \<and> fd_file a = fd_file b \<and> fd_line a = fd_line b"

fun dedup_by :: "('a \<Rightarrow> 'a \<Rightarrow> bool) \<Rightarrow> 'a list \<Rightarrow> 'a list" where
  "dedup_by same [] = []"
| "dedup_by same [x] = [x]"
| "dedup_by same (x # y # ys) = (if same y x then dedup_by same (x # ys) else x # dedup_by same (y # ys))"

definition add_behavior :: "behavior \<Rightarrow> bool \<Rightarrow> capabilities \<Rightarrow> capabilities" where
  "add_behavior b hooks c =
     c\<lparr>cap_network := cap_network c \<or> bh_net b, cap_filesystem := cap_filesystem c \<or> bh_fs b,
       cap_subprocess := cap_subprocess c \<or> bh_subprocess b, cap_env_access := cap_env_access c \<or> bh_env_read b,
       cap_dynamic_exec := cap_dynamic_exec c \<or> bh_code_exec b, cap_install_scripts := cap_install_scripts c \<or> hooks\<rparr>"

definition risk_of_verdict :: "verdict \<Rightarrow> finding_risk" where
  "risk_of_verdict v = (case v of Verdict_block \<Rightarrow> Risk_critical | Verdict_warn \<Rightarrow> Risk_high | Verdict_info \<Rightarrow> Risk_info)"

definition scan_files :: "ftree \<Rightarrow> string list \<Rightarrow> (string \<times> string) list" where
  "scan_files root dir = List.map_filter (scanned_source dir) (walk_dir root dir)"

definition install_behavior :: "(string \<times> string) list \<Rightarrow> behavior" where
  "install_behavior hooks = fold (\<lambda>h. scan_install_command (snd h)) hooks no_behavior"

definition package_scan :: "scan_lib \<Rightarrow> string \<Rightarrow> string \<Rightarrow> ftree \<Rightarrow> string list \<Rightarrow> (unit, analysis_report) result" where
  "package_scan lib name version root dir =
     bind_result (read_hooks (lib_json lib) root dir) (\<lambda>hooks.
     let st = fold (scan_file lib) (scan_files root dir)
           \<lparr>sn_findings = map (\<lambda>h. hook_finding (fst h) (snd h)) hooks, sn_files = 0, sn_lines = 0, sn_behavior = no_behavior,
            sn_verdict = (Verdict_info, [])\<rparr>;
         findings = dedup_by same_finding (sn_findings st);
         v = merge_verdict (sn_verdict st) (verdict_of (install_behavior hooks) (hooks \<noteq> []))
     in Inr \<lparr>ar_package_name = name, ar_package_version = version, ar_overall_risk = risk_of_verdict (fst v), ar_findings = findings,
             ar_files_scanned = sn_files st, ar_lines_scanned = sn_lines st,
             ar_capabilities = add_behavior (sn_behavior st) (hooks \<noteq> []) (update_capabilities findings no_capabilities),
             ar_verdict_reasons = snd v\<rparr>)"

section \<open>The risk of a package\<close>

definition package_verdicts :: "scan_lib \<Rightarrow> (string \<times> string) list \<Rightarrow> (string \<times> string) list \<Rightarrow> (verdict \<times> string list) list" where
  "package_verdicts lib files hooks =
     map (\<lambda>f. verdict_of (analyze_file (lib_visit lib) (snd f) (fst f)) False) files @ [verdict_of (install_behavior hooks) (hooks \<noteq> [])]"

lemma scan_file_verdict: "sn_verdict (fold (scan_file lib) files st) =
    fold (\<lambda>v cur. merge_verdict cur v) (map (\<lambda>f. verdict_of (analyze_file (lib_visit lib) (snd f) (fst f)) False) files) (sn_verdict st)"
  by (induction files arbitrary: st) (simp_all add: scan_file_def Let_def)

lemma rank_le: "verdict_rank v \<le> 2"
  by (cases v) simp_all

lemma rank_iff: "verdict_rank v = 2 \<longleftrightarrow> v = Verdict_block" "verdict_rank v = 0 \<longleftrightarrow> v = Verdict_info" "verdict_rank v = Suc 0 \<longleftrightarrow> v = Verdict_warn"
  by (cases v; simp)+

lemma rank_inj: "verdict_rank v = verdict_rank w \<longleftrightarrow> v = w"
  by (cases v; cases w; simp)

lemma merge_rank: "verdict_rank (fst (merge_verdict cur v)) = max (verdict_rank (fst cur)) (verdict_rank (fst v))"
  by (simp add: merge_verdict_def max_def)

lemma add_reasons:
  "set (fold (\<lambda>reason rs. if reason \<in> set rs then rs else rs @ [reason]) new rs) = set rs \<union> set new"
  "distinct rs \<Longrightarrow> distinct (fold (\<lambda>reason rs. if reason \<in> set rs then rs else rs @ [reason]) new rs)"
  by (induction new arbitrary: rs) auto

lemma merged_verdicts:
  "verdict_rank (fst (fold (\<lambda>v cur. merge_verdict cur v) vs cur)) = fold max (map (verdict_rank \<circ> fst) vs) (verdict_rank (fst cur))
   \<and> set (snd (fold (\<lambda>v cur. merge_verdict cur v) vs cur)) = set (snd cur) \<union> (\<Union>v\<in>set vs. set (snd v))
   \<and> (distinct (snd cur) \<longrightarrow> distinct (snd (fold (\<lambda>v cur. merge_verdict cur v) vs cur)))"
proof (induction vs arbitrary: cur)
  case (Cons v vs)
  have "set (snd (merge_verdict cur v)) = set (snd cur) \<union> set (snd v)" "distinct (snd cur) \<longrightarrow> distinct (snd (merge_verdict cur v))"
    using add_reasons(1)[of "snd v" "snd cur"] add_reasons(2)[of "snd cur" "snd v"] by (simp_all add: merge_verdict_def)
  then show ?case using Cons.IH[of "merge_verdict cur v"] by (auto simp: merge_rank max.commute)
qed simp

lemma fold_max_Max: "fold max xs (a::nat) = Max (insert a (set xs))"
  by (metis Max.set_eq_fold list.simps(15))

lemma package_scan_verdict:
  assumes "package_scan lib name version root dir = Inr report" "read_hooks (lib_json lib) root dir = Inr hooks"
  obtains v where "ar_overall_risk report = risk_of_verdict (fst v)" "ar_verdict_reasons report = snd v"
    "v = fold (\<lambda>v cur. merge_verdict cur v) (package_verdicts lib (scan_files root dir) hooks) (Verdict_info, [])"
proof
  show "ar_overall_risk report = risk_of_verdict (fst (fold (\<lambda>v cur. merge_verdict cur v) (package_verdicts lib (scan_files root dir) hooks) (Verdict_info, [])))"
    "ar_verdict_reasons report = snd (fold (\<lambda>v cur. merge_verdict cur v) (package_verdicts lib (scan_files root dir) hooks) (Verdict_info, []))"
    using assms by (auto simp: package_scan_def Let_def scan_file_verdict package_verdicts_def)
qed simp

lemma info_floor: "ar_overall_risk report = Risk_info \<Longrightarrow> 75 \<le> ss_score (compute_safety_score report root dir)"
  by (auto simp: compute_safety_score_def compute_safety_score_inner_def Let_def apply_floor_def verdict_floor_def)

text \<open>
  C16: The risk of a package is that of its worst part. It is critical exactly when one of the files that are read, or the install hooks, is to be
  blocked, high when none is but one is to be warned about, and informational otherwise; the reasons are those of the parts, each once, and there
  are none exactly when the risk is informational; and then the package scores at least 75, whatever the string patterns matched.
\<close>

theorem package_risk_exact:
  assumes "package_scan lib name version root dir = Inr report" "read_hooks (lib_json lib) root dir = Inr hooks"
    and "vs = package_verdicts lib (scan_files root dir) hooks"
  shows "(ar_overall_risk report = Risk_critical \<longleftrightarrow> (\<exists>v\<in>set vs. fst v = Verdict_block))
    \<and> (ar_overall_risk report = Risk_high \<longleftrightarrow> (\<exists>v\<in>set vs. fst v = Verdict_warn) \<and> \<not> (\<exists>v\<in>set vs. fst v = Verdict_block))
    \<and> (ar_overall_risk report = Risk_info \<longleftrightarrow> ar_verdict_reasons report = [])
    \<and> set (ar_verdict_reasons report) = (\<Union>v\<in>set vs. set (snd v)) \<and> distinct (ar_verdict_reasons report)
    \<and> (ar_overall_risk report = Risk_info \<longrightarrow> 75 \<le> ss_score (compute_safety_score report root dir))"
proof -
  obtain v where v: "ar_overall_risk report = risk_of_verdict (fst v)" "ar_verdict_reasons report = snd v"
    "v = fold (\<lambda>v cur. merge_verdict cur v) vs (Verdict_info, [])"
    using package_scan_verdict[OF assms(1,2)] assms(3) by metis
  note m = merged_verdicts[of vs "(Verdict_info, [])", folded v(3)]
  define ranks where "ranks = insert 0 ((verdict_rank \<circ> fst) ` set vs)"
  have rank: "verdict_rank (fst v) = Max ranks" using m by (simp add: fold_max_Max ranks_def)
  have ranks: "finite ranks" "ranks \<noteq> {}" "\<forall>r\<in>ranks. r \<le> 2" by (auto simp: ranks_def rank_le)
  have rank_reached: "verdict_rank (fst v) = r \<longleftrightarrow> r \<in> ranks \<and> (\<forall>s\<in>ranks. s \<le> r)" for r
    unfolding rank using ranks Max_eq_iff by metis
  have in_ranks: "verdict_rank w \<in> ranks \<longleftrightarrow> w = Verdict_info \<or> (\<exists>v\<in>set vs. fst v = w)" for w
    by (auto simp: ranks_def image_iff rank_inj rank_iff(2))
  have parts: "snd u \<noteq> [] \<longleftrightarrow> fst u \<noteq> Verdict_info" if "u \<in> set vs" for u
    using that verdict_reasons assms(3) by (auto simp: package_verdicts_def)
  have block: "fst v = Verdict_block \<longleftrightarrow> (\<exists>v\<in>set vs. fst v = Verdict_block)"
    using rank_reached[of 2] in_ranks[of Verdict_block] ranks(3) by (simp add: rank_iff)
  have warn: "fst v = Verdict_warn \<longleftrightarrow> (\<exists>v\<in>set vs. fst v = Verdict_warn) \<and> \<not> (\<exists>v\<in>set vs. fst v = Verdict_block)"
  proof -
    have "(\<forall>s\<in>ranks. s \<le> 1) \<longleftrightarrow> 2 \<notin> ranks" using ranks(3) by (metis One_nat_def le_SucE le_antisym not_less_eq_eq numeral_2_eq_2 order_refl)
    then show ?thesis using rank_reached[of 1] in_ranks[of Verdict_block] in_ranks[of Verdict_warn] by (simp add: rank_iff)
  qed
  have all: "w = Verdict_info \<longleftrightarrow> w \<noteq> Verdict_block \<and> w \<noteq> Verdict_warn" for w by (cases w) simp_all
  have "fst v = Verdict_info \<longleftrightarrow> (\<forall>u\<in>set vs. fst u = Verdict_info)"
    unfolding all[of "fst _"] using block warn by blast
  moreover have "snd v = [] \<longleftrightarrow> (\<forall>u\<in>set vs. snd u = [])"
    using m by (simp flip: set_empty)
  ultimately have info: "fst v = Verdict_info \<longleftrightarrow> snd v = []" using parts by blast
  have risk: "risk_of_verdict w = Risk_critical \<longleftrightarrow> w = Verdict_block" "risk_of_verdict w = Risk_high \<longleftrightarrow> w = Verdict_warn"
    "risk_of_verdict w = Risk_info \<longleftrightarrow> w = Verdict_info" for w
    by (cases w; simp add: risk_of_verdict_def)+
  show ?thesis using block warn info m risk info_floor[of report root dir] by (simp add: v(1,2))
qed

definition sample_lib :: scan_lib where
  "sample_lib = \<lparr>lib_json = (\<lambda>_. None), lib_visit = (\<lambda>_ _. Some (no_behavior\<lparr>bh_decode_into_exec := True\<rparr>)), lib_ast = (\<lambda>_ _. []),
     lib_rx = (\<lambda>_ _. []), lib_decimal = (\<lambda>_ _ _. [])\<rparr>"

definition sample_sources :: ftree where
  "sample_sources = Dir [(''p'', Dir [(''a.js'', File ''x'')])]"

theorem package_risk_exact_witness:
  "\<exists>report. package_scan sample_lib ''p'' ''1'' sample_sources [''p''] = Inr report \<and> ar_overall_risk report = Risk_critical"
proof -
  have hooks: "read_hooks (lib_json sample_lib) sample_sources [''p''] = Inr []" by code_simp
  have "is_source_file ''a.js''" by code_simp
  moreover have "\<not> is_test_source ''a.js''" by code_simp
  moreover have "valid_utf8 ''x''" by code_simp
  ultimately have "scan_files sample_sources [''p''] = [(''a.js'', ''x'')]"
    by (simp add: scan_files_def walk_dir_def real_path_def symlink_limit_def sample_sources_def scanned_source_def entry_name_def relative_text_def
      map_filter_simps replace_char_def)
  moreover have "fst (verdict_of (analyze_file (lib_visit sample_lib) ''x'' ''a.js'') False) = Verdict_block"
    by (simp add: verdict_cases dangerous_def analyze_file_def sample_lib_def)
  ultimately have block: "\<exists>v\<in>set (package_verdicts sample_lib (scan_files sample_sources [''p'']) []). fst v = Verdict_block"
    by (simp add: package_verdicts_def)
  obtain report where report: "package_scan sample_lib ''p'' ''1'' sample_sources [''p''] = Inr report"
    using hooks by (simp add: package_scan_def Let_def)
  with package_risk_exact[OF report hooks refl] block show ?thesis by blast
qed

section \<open>What the scan loses\<close>

lemma dedup_run: "\<forall>y\<in>set xs. same y x \<Longrightarrow> dedup_by same (x # xs @ ys) = dedup_by same (x # ys)"
  by (induction xs) simp_all

lemma dedup_subset: "set (dedup_by same xs) \<subseteq> set xs"
  by (induction same xs rule: dedup_by.induct) auto

text \<open>
  All findings of the second detector are at line 1, so once a source has a base64 text the duplicates that are dropped include the critical
  ones for code that is built from hexadecimal text and run.
\<close>

lemma critical_finding_lost:
  assumes "0 < b64_count rx source" "0 < hex_exec_count rx source"
  shows "\<exists>f\<in>set (detect_advanced_obfuscation rx source path). fd_kind f = Obfuscation \<and> fd_risk f = Risk_critical"
    and "\<forall>f\<in>set (dedup_by same_finding (detect_advanced_obfuscation rx source path)). fd_kind f = Obfuscation \<longrightarrow> fd_risk f = Risk_medium"
proof -
  show "\<exists>f\<in>set (detect_advanced_obfuscation rx source path). fd_kind f = Obfuscation \<and> fd_risk f = Risk_critical"
    using assms(2) by (auto simp: detect_advanced_obfuscation_def line_one_def)
  obtain n where n: "b64_count rx source = Suc n" using assms(1) gr0_implies_Suc by blast
  define x where "x = line_one path Obfuscation Risk_medium (''Base64 payload detected: Buffer.from(..., '' @ [sq] @ ''base64'' @ [sq] @ '') or atob() with long string'') None"
  obtain xs ys where split: "detect_advanced_obfuscation rx source path = x # xs @ ys"
    and xs: "\<forall>y\<in>set xs. same_finding y x" and ys: "\<forall>y\<in>set ys. fd_kind y \<noteq> Obfuscation"
  proof
    show "detect_advanced_obfuscation rx source path = x #
       (replicate n x
        @ concat (map (\<lambda>pat. replicate (length (rx pat source)) (line_one path Obfuscation Risk_low ''Dynamic require with a computed/concatenated module name'' None)) dyn_req_patterns)
        @ replicate (hex_exec_count rx source) (line_one path Obfuscation Risk_critical ''Hex string execution: eval(String.fromCharCode(...)) or eval() with hex-encoded string'' None))
       @ detect_exfiltration source path
       @ map (\<lambda>pat. line_one path DynamicExec Risk_critical ''Decoded payload executed: a base64/charcode decode feeds directly into eval/Function/require'' None)
           (filter (contains_str (compact source)) decode_exec)
       @ replicate (wallet_count rx source) (line_one path CryptoMiner Risk_medium ''Cryptocurrency wallet address detected (Bitcoin/Ethereum pattern)'' None)"
      unfolding detect_advanced_obfuscation_def n x_def by simp
  qed (auto simp: same_finding_def line_one_def x_def detect_exfiltration_def)
  have "set (dedup_by same_finding (detect_advanced_obfuscation rx source path)) \<subseteq> {x} \<union> set ys"
    unfolding split dedup_run[where same = same_finding, OF xs] using dedup_subset[of same_finding "x # ys"] by simp
  moreover have "fd_risk x = Risk_medium" by (simp add: x_def line_one_def)
  ultimately show "\<forall>f\<in>set (dedup_by same_finding (detect_advanced_obfuscation rx source path)). fd_kind f = Obfuscation \<longrightarrow> fd_risk f = Risk_medium"
    using ys by blast
qed

text \<open>The name of a directory decides whether its files are read, even for the entry point of the package.\<close>

lemma test_sources_unread:
  "scan_files (Dir [(''p'', Dir [(''package.json'', File manifest), (''test'', Dir [(''index.js'', File payload)])])]) [''p''] = []"
proof -
  have "is_source_file ''package.json'' = False" "is_test_source ''test/index.js'' = True" by code_simp+
  then show ?thesis
    by (simp add: scan_files_def walk_dir_def real_path_def symlink_limit_def scanned_source_def entry_name_def relative_text_def)
qed

end
