(* ===== verification/Registry_Control.thy ===== *)
theory Registry_Control
  imports Contracts
begin

text \<open>
  The registry's control plane (\<open>crates/oath-registry/src/control_plane.rs\<close> over the schema in
  \<open>migrations\<close>): a table is the list of its rows, in the order they were inserted, and an operation is one transaction. A violated
  constraint aborts it: the result is an error and the tables are as they were. Times are seconds since the epoch and the clock is read once per operation. The semantic
  version parser of the crate is a parameter. A stored JSON value is read back as it was written.
\<close>

section \<open>Tables\<close>

definition row_at :: "('r \<Rightarrow> 'k) \<Rightarrow> 'k \<Rightarrow> 'r list \<Rightarrow> 'r option" where
  "row_at key k rows = find (\<lambda>r. key r = k) rows"

definition insert_row :: "'e \<Rightarrow> ('r \<Rightarrow> 'k) \<Rightarrow> 'r \<Rightarrow> 'r list \<Rightarrow> ('e, 'r list) result" where
  "insert_row err key r rows = (if row_at key (key r) rows = None then Inr (rows @ [r]) else Inl err)"

definition update_rows :: "('r \<Rightarrow> bool) \<Rightarrow> ('r \<Rightarrow> 'r) \<Rightarrow> 'r list \<Rightarrow> 'r list" where
  "update_rows P f rows = map (\<lambda>r. if P r then f r else r) rows"

definition upsert_row :: "('r \<Rightarrow> 'k) \<Rightarrow> ('r \<Rightarrow> 'r) \<Rightarrow> 'r \<Rightarrow> 'r list \<Rightarrow> 'r list" where
  "upsert_row key f r rows =
     (if row_at key (key r) rows = None then rows @ [r] else update_rows (\<lambda>x. key x = key r) f rows)"

lemma row_at_None: "row_at key k rows = None \<longleftrightarrow> k \<notin> key ` set rows"
  by (auto simp: row_at_def find_None_iff)

lemma row_at_Some: "row_at key k rows = Some r \<Longrightarrow> r \<in> set rows \<and> key r = k"
  by (auto simp: row_at_def find_Some_iff)

lemma row_at_distinct: "distinct (map key rows) \<Longrightarrow> r \<in> set rows \<Longrightarrow> row_at key (key r) rows = Some r"
  by (induction rows) (auto simp: row_at_def image_iff)

lemma row_at_append: "row_at key k (rows @ [r]) = (case row_at key k rows of Some x \<Rightarrow> Some x | None \<Rightarrow> if key r = k then Some r else None)"
  by (induction rows) (auto simp: row_at_def)

lemma row_at_update: "(\<And>r. key (f r) = key r) \<Longrightarrow> row_at key k (update_rows P f rows) = map_option (\<lambda>r. if P r then f r else r) (row_at key k rows)"
  by (induction rows) (auto simp: row_at_def update_rows_def)

lemma insert_row_Inr: "insert_row e key r rows = Inr rows' \<longleftrightarrow> key r \<notin> key ` set rows \<and> rows' = rows @ [r]"
  by (auto simp: insert_row_def row_at_None)

lemma map_update_rows: "(\<And>r. key (f r) = key r) \<Longrightarrow> map key (update_rows P f rows) = map key rows"
  by (simp add: update_rows_def)

lemma set_update_rows: "set (update_rows P f rows) = (\<lambda>r. if P r then f r else r) ` set rows"
  by (simp add: update_rows_def)

lemma map_upsert_row:
  "(\<And>x. key x = key r \<Longrightarrow> key (f x) = key r) \<Longrightarrow>
     map key (upsert_row key f r rows) = (if key r \<in> key ` set rows then map key rows else map key rows @ [key r])"
  by (auto simp: upsert_row_def row_at_None update_rows_def image_iff)

lemma set_upsert_row: "x \<in> set (upsert_row key f r rows) \<Longrightarrow>
    x = r \<or> (x \<in> set rows \<and> key x \<noteq> key r) \<or> (\<exists>y\<in>set rows. key y = key r \<and> x = f y)"
  by (auto simp: upsert_row_def row_at_None set_update_rows image_iff split: if_splits)

lemma row_at_upsert:
  assumes "\<And>x. key x = key r \<Longrightarrow> key (f x) = key r"
  shows "row_at key k (upsert_row key f r rows) =
    (if k = key r then Some (case row_at key k rows of None \<Rightarrow> r | Some x \<Rightarrow> f x) else row_at key k rows)"
proof (cases "row_at key (key r) rows")
  case None
  then show ?thesis by (auto simp: upsert_row_def row_at_append split: option.split)
next
  case (Some x)
  have "row_at key k (map (\<lambda>y. if key y = key r then f y else y) rows) =
      (if k = key r then map_option f (row_at key k rows) else row_at key k rows)" for rows
    by (induction rows) (auto simp: row_at_def assms)
  then show ?thesis using Some by (simp add: upsert_row_def update_rows_def)
qed

record token_row =
  tk_hash :: string
  tk_organization :: string
  tk_role :: string
  tk_expires_at :: "int option"
  tk_kind :: string

record package_row =
  pk_name :: string
  pk_organization :: string
  pk_private :: bool
  pk_created_at :: int

record role_row =
  pr_name :: string
  pr_organization :: string
  pr_principal_org :: string
  pr_role :: string

record invitation_row =
  iv_token_hash :: string
  iv_organization :: string
  iv_email :: string
  iv_role :: string
  iv_expires_at :: int
  iv_accepted_at :: "int option"
  iv_revoked_at :: "int option"

record member_row =
  mb_organization :: string
  mb_subject :: string
  mb_email :: string
  mb_role :: string
  mb_created_at :: int

text \<open>What a stage carries into a published version.\<close>

record release =
  rl_organization :: string
  rl_digest :: string
  rl_private :: bool
  rl_manifest :: json
  rl_publisher_assessment :: json
  rl_assessment :: json
  rl_server_evidence :: json
  rl_sbom :: json
  rl_provenance :: json

record stage_record =
  sr_id :: string
  sr_name :: string
  sr_version :: string
  sr_tag :: string
  sr_status :: string
  sr_release :: release
  sr_created_at :: int

record stage_row = stage_record +
  sr_decision_reason :: "string option"

record version_row =
  vr_name :: string
  vr_version :: string
  vr_status :: string
  vr_release :: release
  vr_published_at :: int
  vr_download_count :: int

record tag_row =
  dt_name :: string
  dt_tag :: string
  dt_version :: string

record tombstone_row =
  tb_name :: string
  tb_version :: string
  tb_status :: string
  tb_reason :: string
  tb_actor_org :: string
  tb_created_at :: int
  tb_signature :: string
  tb_public_key :: string

record outbox_row =
  ob_id :: nat
  ob_event_key :: string
  ob_event :: json
  ob_attempts :: nat
  ob_available_at :: int
  ob_created_at :: int
  ob_delivered_at :: "int option"

record event_row =
  ev_key :: string
  ev_json :: string
  ev_previous_hash :: string
  ev_hash :: string
  ev_signature :: string
  ev_created_at :: int

record rate_row =
  rt_subject_hash :: string
  rt_bucket :: string
  rt_window_start :: int
  rt_request_count :: int

record billing_row =
  bl_event_id :: string
  bl_event_type :: string
  bl_payload :: json
  bl_received_at :: int

record control =
  organizations :: "(string \<times> int) list"
  tokens :: "token_row list"
  packages :: "package_row list"
  package_roles :: "role_row list"
  invitations :: "invitation_row list"
  organization_members :: "member_row list"
  stages :: "stage_row list"
  versions :: "version_row list"
  dist_tags :: "tag_row list"
  tombstones :: "tombstone_row list"
  registry_outbox :: "outbox_row list"
  outbox_serial :: nat
  registry_events :: "event_row list"
  rate_limits :: "rate_row list"
  billing_events :: "billing_row list"

datatype db_error = Unique_violation | Foreign_key_violation | Wrong_owner | Visibility_change | Package_missing | Email_mismatch

type_synonym 'a transaction = "control \<Rightarrow> (db_error, 'a \<times> control) result"

definition empty_control :: control where
  "empty_control = \<lparr>organizations = [], tokens = [], packages = [], package_roles = [], invitations = [], organization_members = [],
     stages = [], versions = [], dist_tags = [], tombstones = [], registry_outbox = [], outbox_serial = 1, registry_events = [],
     rate_limits = [], billing_events = []\<rparr>"

definition has_organization :: "control \<Rightarrow> string \<Rightarrow> bool" where
  "has_organization s org \<longleftrightarrow> org \<in> fst ` set (organizations s)"

section \<open>Tokens and organizations\<close>

definition bootstrap_token :: "int \<Rightarrow> string \<Rightarrow> string \<Rightarrow> string \<Rightarrow> unit transaction" where
  "bootstrap_token now organization hash role s =
     (let orgs = (if has_organization s organization then organizations s else organizations s @ [(organization, now)]);
          row = \<lparr>tk_hash = hash, tk_organization = organization, tk_role = role, tk_expires_at = None, tk_kind = ''bootstrap''\<rparr>
      in Inr ((), s\<lparr>organizations := orgs, tokens := upsert_row tk_hash (\<lambda>_. row) row (tokens s)\<rparr>))"

definition insert_token :: "string \<Rightarrow> string \<Rightarrow> string \<Rightarrow> int \<Rightarrow> string \<Rightarrow> unit transaction" where
  "insert_token hash organization role expires_at kind s =
     bind_result (insert_row Unique_violation tk_hash
         \<lparr>tk_hash = hash, tk_organization = organization, tk_role = role, tk_expires_at = Some expires_at, tk_kind = kind\<rparr> (tokens s)) (\<lambda>rows.
     bind_result (ensure (has_organization s organization) Foreign_key_violation) (\<lambda>_.
     Inr ((), s\<lparr>tokens := rows\<rparr>)))"

record principal =
  pc_organization :: string
  pc_role :: string
  pc_kind :: string

definition token_principal :: "int \<Rightarrow> string \<Rightarrow> control \<Rightarrow> principal option" where
  "token_principal now hash s =
     (case row_at tk_hash hash (tokens s) of
        None \<Rightarrow> None
      | Some t \<Rightarrow>
          if (case tk_expires_at t of None \<Rightarrow> True | Some e \<Rightarrow> now < e)
          then Some \<lparr>pc_organization = tk_organization t, pc_role = tk_role t, pc_kind = tk_kind t\<rparr> else None)"

definition package_role :: "string \<Rightarrow> string \<Rightarrow> control \<Rightarrow> string option" where
  "package_role name organization s =
     map_option pr_role (row_at (\<lambda>r. (pr_name r, pr_principal_org r)) (name, organization) (package_roles s))"

definition package_record :: "string \<Rightarrow> control \<Rightarrow> package_row option" where
  "package_record name s = row_at pk_name name (packages s)"

definition grant_package_role :: "string \<Rightarrow> string \<Rightarrow> string \<Rightarrow> string \<Rightarrow> unit transaction" where
  "grant_package_role name owner_org principal_org role s =
     bind_result (ok_or (package_record name s) Package_missing) (\<lambda>p.
     bind_result (ensure (pk_organization p = owner_org) Wrong_owner) (\<lambda>_.
     let row = \<lparr>pr_name = name, pr_organization = owner_org, pr_principal_org = principal_org, pr_role = role\<rparr>
     in Inr ((), s\<lparr>package_roles := upsert_row (\<lambda>r. (pr_name r, pr_principal_org r)) (\<lambda>_. row) row (package_roles s)\<rparr>)))"

section \<open>The outbox and the event log\<close>

definition enqueue_event :: "int \<Rightarrow> string \<Rightarrow> json \<Rightarrow> control \<Rightarrow> (db_error, control) result" where
  "enqueue_event now event_key event s =
     bind_result (insert_row Unique_violation ob_event_key
         \<lparr>ob_id = outbox_serial s, ob_event_key = event_key, ob_event = event, ob_attempts = 0, ob_available_at = now, ob_created_at = now,
          ob_delivered_at = None\<rparr> (registry_outbox s)) (\<lambda>rows.
     Inr (s\<lparr>registry_outbox := rows, outbox_serial := outbox_serial s + 1\<rparr>))"

definition pending_outbox :: "int \<Rightarrow> nat \<Rightarrow> control \<Rightarrow> outbox_row list" where
  "pending_outbox now limit s =
     take limit (sort_key ob_id (filter (\<lambda>r. ob_delivered_at r = None \<and> ob_available_at r \<le> now) (registry_outbox s)))"

definition mark_outbox_delivered :: "int \<Rightarrow> nat \<Rightarrow> control \<Rightarrow> control" where
  "mark_outbox_delivered now i s =
     s\<lparr>registry_outbox := update_rows (\<lambda>r. ob_id r = i) (\<lambda>r. r\<lparr>ob_delivered_at := Some now\<rparr>) (registry_outbox s)\<rparr>"

definition retry_outbox :: "int \<Rightarrow> nat \<Rightarrow> control \<Rightarrow> control" where
  "retry_outbox now i s =
     s\<lparr>registry_outbox := update_rows (\<lambda>r. ob_id r = i) (\<lambda>r. r\<lparr>ob_attempts := ob_attempts r + 1, ob_available_at := now + 5\<rparr>) (registry_outbox s)\<rparr>"

definition event_hashes :: "control \<Rightarrow> string list" where
  "event_hashes s = map ev_hash (registry_events s)"

section \<open>Stages and versions\<close>

definition read_stage :: "string \<Rightarrow> control \<Rightarrow> stage_record option" where
  "read_stage i s = map_option stage_record.truncate (row_at sr_id i (stages s))"

definition list_stages :: "string \<Rightarrow> control \<Rightarrow> stage_record list" where
  "list_stages organization s =
     map stage_record.truncate (sort_key (\<lambda>r. - sr_created_at r)
       (filter (\<lambda>r. rl_organization (sr_release r) = organization
                  \<or> (\<exists>p\<in>set (package_roles s). pr_name p = sr_name r \<and> pr_principal_org p = organization)) (stages s)))"

definition pending_stages :: "string \<Rightarrow> control \<Rightarrow> nat" where
  "pending_stages organization s = length (filter (\<lambda>r. rl_organization (sr_release r) = organization \<and> sr_status r = ''staged'') (stages s))"

text \<open>Both constraints of the table: the identifier, and one stage per name and version.\<close>

definition insert_stage :: "stage_record \<Rightarrow> control \<Rightarrow> (db_error, control) result" where
  "insert_stage stage s =
     bind_result (insert_row Unique_violation sr_id (stage_record.extend stage \<lparr>sr_decision_reason = None\<rparr>) (stages s)) (\<lambda>rows.
     bind_result (ensure (row_at (\<lambda>r. (sr_name r, sr_version r)) (sr_name stage, sr_version stage) (stages s) = None) Unique_violation) (\<lambda>_.
     bind_result (ensure (has_organization s (rl_organization (sr_release stage))) Foreign_key_violation) (\<lambda>_.
     Inr (s\<lparr>stages := rows\<rparr>))))"

definition claim_package :: "stage_record \<Rightarrow> control \<Rightarrow> (db_error, control) result" where
  "claim_package stage s =
     (case package_record (sr_name stage) s of
        Some p \<Rightarrow> Inr s
      | None \<Rightarrow>
          if has_organization s (rl_organization (sr_release stage))
          then Inr (s\<lparr>packages := packages s @ [\<lparr>pk_name = sr_name stage, pk_organization = rl_organization (sr_release stage),
                 pk_private = rl_private (sr_release stage), pk_created_at = sr_created_at stage\<rparr>]\<rparr>)
          else Inl Foreign_key_violation)"

definition create_stage :: "int \<Rightarrow> stage_record \<Rightarrow> string \<Rightarrow> json \<Rightarrow> int \<Rightarrow> bool transaction" where
  "create_stage now stage event_key event maximum_pending_stages s =
     (if maximum_pending_stages \<le> int (pending_stages (rl_organization (sr_release stage)) s) then Inr (False, s)
      else bind_result (claim_package stage s) (\<lambda>s1.
           bind_result (ok_or (package_record (sr_name stage) s1) Package_missing) (\<lambda>p.
           bind_result (ensure (pk_organization p = rl_organization (sr_release stage)) Wrong_owner) (\<lambda>_.
           bind_result (ensure (pk_private p = rl_private (sr_release stage)) Visibility_change) (\<lambda>_.
           bind_result (insert_stage stage s1) (\<lambda>s2.
           bind_result (enqueue_event now event_key event s2) (\<lambda>s3. Inr (True, s3))))))))"

definition set_stage_status :: "string \<Rightarrow> string \<Rightarrow> string option \<Rightarrow> control \<Rightarrow> control" where
  "set_stage_status i status reason s =
     s\<lparr>stages := update_rows (\<lambda>r. sr_id r = i) (\<lambda>r. r\<lparr>sr_status := status, sr_decision_reason := reason\<rparr>) (stages s)\<rparr>"

definition publish_stage :: "int \<Rightarrow> stage_record \<Rightarrow> control \<Rightarrow> (db_error, control) result" where
  "publish_stage now stage s =
     bind_result (insert_row Unique_violation (\<lambda>r. (vr_name r, vr_version r))
         \<lparr>vr_name = sr_name stage, vr_version = sr_version stage, vr_status = ''active'', vr_release = sr_release stage, vr_published_at = now,
          vr_download_count = 0\<rparr> (versions s)) (\<lambda>rows.
     bind_result (ensure (has_organization s (rl_organization (sr_release stage))) Foreign_key_violation) (\<lambda>_.
     Inr (s\<lparr>versions := rows,
             dist_tags := upsert_row (\<lambda>r. (dt_name r, dt_tag r)) (\<lambda>r. r\<lparr>dt_version := sr_version stage\<rparr>)
                \<lparr>dt_name = sr_name stage, dt_tag = sr_tag stage, dt_version = sr_version stage\<rparr> (dist_tags s)\<rparr>)))"

definition decide_stage :: "int \<Rightarrow> stage_record \<Rightarrow> bool \<Rightarrow> string option \<Rightarrow> string \<Rightarrow> json \<Rightarrow> bool transaction" where
  "decide_stage now stage approve reason event_key event s =
     (if map_option sr_status (row_at sr_id (sr_id stage) (stages s)) \<noteq> Some ''staged'' then Inr (False, s)
      else bind_result
             (if approve then publish_stage now stage (set_stage_status (sr_id stage) ''approved'' reason s)
              else Inr (set_stage_status (sr_id stage) ''rejected'' reason s)) (\<lambda>s1.
           bind_result (enqueue_event now event_key event s1) (\<lambda>s2. Inr (True, s2))))"

definition version_record :: "string \<Rightarrow> string \<Rightarrow> control \<Rightarrow> version_row option" where
  "version_record name version s = row_at (\<lambda>r. (vr_name r, vr_version r)) (name, version) (versions s)"

definition tombstone_record :: "string \<Rightarrow> string \<Rightarrow> control \<Rightarrow> tombstone_row option" where
  "tombstone_record name version s = row_at (\<lambda>r. (tb_name r, tb_version r)) (name, version) (tombstones s)"

definition public_quarantines :: "control \<Rightarrow> (string \<times> string \<times> string \<times> int) list" where
  "public_quarantines s =
     map (\<lambda>t. (tb_name t, tb_version t, tb_reason t, tb_created_at t))
       (sort_key tb_created_at (filter (\<lambda>t. tb_status t = ''quarantined''
          \<and> (case package_record (tb_name t) s of Some p \<Rightarrow> \<not> pk_private p | None \<Rightarrow> False)) (tombstones s)))"

definition package_versions :: "string \<Rightarrow> control \<Rightarrow> version_row list" where
  "package_versions name s = sort_key vr_published_at (filter (\<lambda>r. vr_name r = name \<and> vr_status r = ''active'') (versions s))"

definition record_download :: "string \<Rightarrow> string \<Rightarrow> control \<Rightarrow> control" where
  "record_download name version s =
     s\<lparr>versions := update_rows (\<lambda>r. (vr_name r, vr_version r) = (name, version)) (\<lambda>r. r\<lparr>vr_download_count := vr_download_count r + 1\<rparr>) (versions s)\<rparr>"

definition package_tags :: "string \<Rightarrow> control \<Rightarrow> (string \<times> string) list" where
  "package_tags name s = map (\<lambda>r. (dt_tag r, dt_version r)) (filter (\<lambda>r. dt_name r = name) (dist_tags s))"

text \<open>\<open>max_by\<close> keeps the last of equal maxima.\<close>

definition better_version :: "'v::linorder \<times> string \<Rightarrow> ('v \<times> string) option \<Rightarrow> ('v \<times> string) option" where
  "better_version c best = (case best of None \<Rightarrow> Some c | Some b \<Rightarrow> if fst b \<le> fst c then Some c else Some b)"

definition max_by_version :: "('v::linorder \<times> string) list \<Rightarrow> ('v \<times> string) option" where
  "max_by_version cs = fold better_version cs None"

definition rollback_version :: "(string \<Rightarrow> 'v::linorder option) \<Rightarrow> string list \<Rightarrow> string option" where
  "rollback_version parse active =
     map_option snd (max_by_version (List.map_filter (\<lambda>value. map_option (\<lambda>parsed. (parsed, value)) (parse value)) active))"

definition active_versions :: "string \<Rightarrow> control \<Rightarrow> string list" where
  "active_versions name s = map vr_version (filter (\<lambda>r. vr_name r = name \<and> vr_status r = ''active'') (versions s))"

definition move_tags :: "string \<Rightarrow> string \<Rightarrow> string option \<Rightarrow> tag_row list \<Rightarrow> tag_row list" where
  "move_tags name version target rows =
     (case target of
        Some rollback \<Rightarrow> update_rows (\<lambda>r. dt_name r = name \<and> dt_version r = version) (\<lambda>r. r\<lparr>dt_version := rollback\<rparr>) rows
      | None \<Rightarrow> filter (\<lambda>r. \<not> (dt_name r = name \<and> dt_version r = version)) rows)"

definition set_version_status :: "string \<Rightarrow> string \<Rightarrow> string \<Rightarrow> control \<Rightarrow> control" where
  "set_version_status name version status s =
     s\<lparr>versions := update_rows (\<lambda>r. (vr_name r, vr_version r) = (name, version)) (\<lambda>r. r\<lparr>vr_status := status\<rparr>) (versions s)\<rparr>"

definition revoke_version :: "(string \<Rightarrow> 'v::linorder option) \<Rightarrow> int \<Rightarrow> tombstone_row \<Rightarrow> string \<Rightarrow> json \<Rightarrow> bool transaction" where
  "revoke_version parse now t event_key event s =
     (if version_record (tb_name t) (tb_version t) s = None then Inr (False, s)
      else let s1 = set_version_status (tb_name t) (tb_version t) (tb_status t) s;
               s2 = s1\<lparr>tombstones := upsert_row (\<lambda>r. (tb_name r, tb_version r)) (\<lambda>_. t) t (tombstones s1),
                       dist_tags := move_tags (tb_name t) (tb_version t) (rollback_version parse (active_versions (tb_name t) s1)) (dist_tags s1)\<rparr>
           in bind_result (enqueue_event now event_key event s2) (\<lambda>s3. Inr (True, s3)))"

section \<open>Invitations and members\<close>

definition create_invitation :: "string \<Rightarrow> string \<Rightarrow> string \<Rightarrow> string \<Rightarrow> int \<Rightarrow> unit transaction" where
  "create_invitation token_hash organization email role expires_at s =
     bind_result (insert_row Unique_violation iv_token_hash
         \<lparr>iv_token_hash = token_hash, iv_organization = organization, iv_email = email, iv_role = role, iv_expires_at = expires_at,
          iv_accepted_at = None, iv_revoked_at = None\<rparr> (invitations s)) (\<lambda>rows.
     bind_result (ensure (has_organization s organization) Foreign_key_violation) (\<lambda>_.
     Inr ((), s\<lparr>invitations := rows\<rparr>)))"

definition open_invitation :: "invitation_row \<Rightarrow> bool" where
  "open_invitation r \<longleftrightarrow> iv_accepted_at r = None \<and> iv_revoked_at r = None"

definition revoke_invitation :: "int \<Rightarrow> string \<Rightarrow> string \<Rightarrow> bool transaction" where
  "revoke_invitation now token_hash organization s =
     (let P = (\<lambda>r. iv_token_hash r = token_hash \<and> iv_organization r = organization \<and> open_invitation r)
      in Inr (length (filter P (invitations s)) = 1, s\<lparr>invitations := update_rows P (\<lambda>r. r\<lparr>iv_revoked_at := Some now\<rparr>) (invitations s)\<rparr>))"

definition accept_invitation :: "int \<Rightarrow> string \<Rightarrow> string \<Rightarrow> string \<Rightarrow> invitation_row option transaction" where
  "accept_invitation now token_hash subject email s =
     (case row_at iv_token_hash token_hash (invitations s) of
        None \<Rightarrow> Inr (None, s)
      | Some invitation \<Rightarrow>
          if \<not> (open_invitation invitation \<and> now < iv_expires_at invitation) then Inr (None, s)
          else if \<not> eq_ignore_ascii_case (iv_email invitation) email then Inl Email_mismatch
          else let member = \<lparr>mb_organization = iv_organization invitation, mb_subject = subject, mb_email = email, mb_role = iv_role invitation,
                             mb_created_at = now\<rparr>
               in Inr (Some invitation,
                       s\<lparr>organization_members := upsert_row (\<lambda>r. (mb_organization r, mb_subject r))
                            (\<lambda>r. r\<lparr>mb_email := email, mb_role := iv_role invitation\<rparr>) member (organization_members s),
                         invitations := update_rows (\<lambda>r. iv_token_hash r = token_hash) (\<lambda>r. r\<lparr>iv_accepted_at := Some now\<rparr>) (invitations s)\<rparr>))"

definition membership :: "string \<Rightarrow> control \<Rightarrow> (string \<times> string) option" where
  "membership subject s =
     (case sort_key mb_created_at (filter (\<lambda>r. mb_subject r = subject) (organization_members s)) of
        [] \<Rightarrow> None | r # _ \<Rightarrow> Some (mb_organization r, mb_role r))"

section \<open>Limits and billing\<close>

definition window_start :: "int \<Rightarrow> int \<Rightarrow> int" where
  "window_start now window_seconds = now - now mod \<bar>window_seconds\<bar>"

definition consume_rate_limit :: "int \<Rightarrow> string \<Rightarrow> string \<Rightarrow> int \<Rightarrow> int \<Rightarrow> bool transaction" where
  "consume_rate_limit now subject_hash bucket maximum window_seconds s =
     (let key = (\<lambda>r. (rt_subject_hash r, rt_bucket r, rt_window_start r));
          start = window_start now window_seconds;
          rows = upsert_row key (\<lambda>r. r\<lparr>rt_request_count := rt_request_count r + 1\<rparr>)
                   \<lparr>rt_subject_hash = subject_hash, rt_bucket = bucket, rt_window_start = start, rt_request_count = 1\<rparr> (rate_limits s);
          count = (case row_at key (subject_hash, bucket, start) rows of Some r \<Rightarrow> rt_request_count r | None \<Rightarrow> 0)
      in Inr (count \<le> maximum, s\<lparr>rate_limits := rows\<rparr>))"

definition prune_rate_limits_before :: "int \<Rightarrow> nat transaction" where
  "prune_rate_limits_before cutoff s =
     Inr (length (filter (\<lambda>r. rt_window_start r < cutoff) (rate_limits s)),
          s\<lparr>rate_limits := filter (\<lambda>r. \<not> rt_window_start r < cutoff) (rate_limits s)\<rparr>)"

definition record_billing_event :: "int \<Rightarrow> string \<Rightarrow> string \<Rightarrow> json \<Rightarrow> bool transaction" where
  "record_billing_event now event_id event_type payload s =
     (if row_at bl_event_id event_id (billing_events s) = None
      then Inr (True, s\<lparr>billing_events := billing_events s @ [\<lparr>bl_event_id = event_id, bl_event_type = event_type, bl_payload = payload, bl_received_at = now\<rparr>]\<rparr>)
      else Inr (False, s))"

end
