(* ===== verification/Registry_Log.thy ===== *)
theory Registry_Log
  imports Registry_Control Registry_Merkle
begin

text \<open>
  The registry's event log (\<open>append_event_keyed\<close>, \<open>append_event\<close> and \<open>drain_outbox\<close> in
  \<open>crates/oath-registry/src/postgres_api.rs\<close>): every event commits to the hash of the one before it, and an event
  key is logged once. Hashing, signing and the quoting of JSON strings are parameters.
\<close>

record 'k registry_env =
  rg_crypto :: "'k crypto"
  rg_signing_key :: 'k
  rg_sha256 :: "string \<Rightarrow> string"
  rg_quote :: "string \<Rightarrow> string"

text \<open>\<open>serde_json::to_string\<close> of a value: its map is sorted already.\<close>

definition json_text :: "'k registry_env \<Rightarrow> json \<Rightarrow> string" where
  "json_text env v = write_json (rg_quote env) v"

definition registry_sign :: "'k registry_env \<Rightarrow> string \<Rightarrow> string" where
  "registry_sign env bytes = b64_encode (rg_crypto env) (ed_sign (rg_crypto env) (rg_signing_key env) bytes)"

definition latest_hash :: "control \<Rightarrow> string" where
  "latest_hash s = (if registry_events s = [] then ''GENESIS'' else ev_hash (last (registry_events s)))"

definition next_event :: "'k registry_env \<Rightarrow> int \<Rightarrow> string \<Rightarrow> json \<Rightarrow> control \<Rightarrow> event_row" where
  "next_event env now event_key event s =
     (let previous = latest_hash s; event_json = json_text env event; event_hash = rg_sha256 env (previous @ event_json)
      in \<lparr>ev_key = event_key, ev_json = event_json, ev_previous_hash = previous, ev_hash = event_hash,
          ev_signature = registry_sign env event_hash, ev_created_at = now\<rparr>)"

definition append_event_keyed :: "'k registry_env \<Rightarrow> int \<Rightarrow> string \<Rightarrow> json \<Rightarrow> control \<Rightarrow> (db_error, control) result" where
  "append_event_keyed env now event_key event s =
     (if row_at ev_key event_key (registry_events s) \<noteq> None then Inr s
      else bind_result (insert_row Unique_violation ev_hash (next_event env now event_key event s) (registry_events s)) (\<lambda>rows.
           Inr (s\<lparr>registry_events := rows\<rparr>)))"

definition append_event :: "'k registry_env \<Rightarrow> int \<Rightarrow> json \<Rightarrow> control \<Rightarrow> (db_error, control) result" where
  "append_event env now event s = append_event_keyed env now (''direct:'' @ rg_sha256 env (json_text env event)) event s"

definition deliver_row :: "'k registry_env \<Rightarrow> int \<Rightarrow> outbox_row \<Rightarrow> control \<times> nat \<Rightarrow> control \<times> nat" where
  "deliver_row env now r st =
     (case append_event_keyed env now (ob_event_key r) (ob_event r) (fst st) of
        Inr s \<Rightarrow> (mark_outbox_delivered now (ob_id r) s, snd st + 1)
      | Inl e \<Rightarrow> (retry_outbox now (ob_id r) (fst st), snd st))"

definition drain_outbox :: "'k registry_env \<Rightarrow> int \<Rightarrow> control \<Rightarrow> control \<times> nat" where
  "drain_outbox env now s = fold (deliver_row env now) (pending_outbox now 100 s) (s, 0)"

section \<open>The chain\<close>

text \<open>The log as its hashes say it: every hash is that of the one before and the text of its event.\<close>

fun chained :: "(string \<Rightarrow> string) \<Rightarrow> string \<Rightarrow> event_row list \<Rightarrow> bool" where
  "chained sha previous [] \<longleftrightarrow> True"
| "chained sha previous (e # es) \<longleftrightarrow> ev_previous_hash e = previous \<and> ev_hash e = sha (previous @ ev_json e) \<and> chained sha (ev_hash e) es"

definition log_valid :: "'k registry_env \<Rightarrow> control \<Rightarrow> bool" where
  "log_valid env s \<longleftrightarrow> chained (rg_sha256 env) ''GENESIS'' (registry_events s)
     \<and> distinct (map ev_key (registry_events s)) \<and> distinct (event_hashes s)
     \<and> (\<forall>e\<in>set (registry_events s). ev_signature e = registry_sign env (ev_hash e))"

lemma chained_append: "chained sha previous (es @ [e]) \<longleftrightarrow>
    chained sha previous es \<and> ev_previous_hash e = (if es = [] then previous else ev_hash (last es))
      \<and> ev_hash e = sha (ev_previous_hash e @ ev_json e)"
  by (induction es arbitrary: previous) auto

lemma append_event_cases:
  assumes "append_event_keyed env now k event s = Inr s'"
  obtains (known) "s' = s" "k \<in> ev_key ` set (registry_events s)"
  | (new) "s' = s\<lparr>registry_events := registry_events s @ [next_event env now k event s]\<rparr>" "k \<notin> ev_key ` set (registry_events s)"
      "ev_hash (next_event env now k event s) \<notin> ev_hash ` set (registry_events s)"
  using assms by (auto simp: append_event_keyed_def bind_result_Inr_iff insert_row_Inr row_at_None split: if_splits)

lemma append_event_valid: "append_event_keyed env now k event s = Inr s' \<Longrightarrow> log_valid env s \<Longrightarrow> log_valid env s'"
  by (erule append_event_cases)
    (auto simp: log_valid_def chained_append next_event_def Let_def latest_hash_def event_hashes_def)

end
