(* ===== verification/Registry_Runs.thy ===== *)
theory Registry_Runs
  imports Registry_Log
begin

text \<open>
  Runs of the registry: the transactions of all requests that are being served, in any order and with any arguments
  the handlers can pass. A decision on a stage is taken on a record that some request read before, perhaps many transactions
  earlier; those records are part of the state. A transaction is one step: the database runs them at READ COMMITTED, and the rows that one decides on
  are locked or written by it, with one exception that matters here, two revocations of one package (see \<open>Registry_Safety\<close>). The locale \<open>guarded_system\<close> is the contract of such a system: what
  holds in every reachable state, and what every later state keeps of an earlier one.
\<close>

section \<open>Systems with an invariant and an order of progress\<close>

locale guarded_system =
  fixes step :: "'s \<Rightarrow> 's \<Rightarrow> bool" and start :: 's and good :: "'s \<Rightarrow> bool" and later :: "'s \<Rightarrow> 's \<Rightarrow> bool"
  assumes start_good: "good start"
    and step_good: "good s \<Longrightarrow> step s t \<Longrightarrow> good t"
    and later_refl: "later s s"
    and later_trans: "later s t \<Longrightarrow> later t u \<Longrightarrow> later s u"
    and step_later: "good s \<Longrightarrow> step s t \<Longrightarrow> later s t"
begin

lemma run_good: "step\<^sup>*\<^sup>* s t \<Longrightarrow> good s \<Longrightarrow> good t"
  by (induction rule: rtranclp_induct) (auto intro: step_good)

lemma reachable_good: "step\<^sup>*\<^sup>* start s \<Longrightarrow> good s"
  using run_good start_good by blast

lemma run_later: "step\<^sup>*\<^sup>* s t \<Longrightarrow> good s \<Longrightarrow> later s t"
proof (induction rule: rtranclp_induct)
  case base show ?case by (rule later_refl)
next
  case (step t u)
  then show ?case using run_good step_later later_trans by meson
qed

lemma reachable_later: "step\<^sup>*\<^sup>* start s \<Longrightarrow> step\<^sup>*\<^sup>* s t \<Longrightarrow> later s t"
  using reachable_good run_later by blast

end

section \<open>Steps\<close>

definition denied :: "release \<Rightarrow> bool" where
  "denied r \<longleftrightarrow> Option.bind (json_get (rl_assessment r) ''decision'') as_str = Some ''deny''"

text \<open>
  A new stage has the status the handler gives it, a decision that approves was not taken on a denied assessment, and an outbox row is marked
  as delivered once its event is in the log.
\<close>

inductive registry_step ::
  "'k registry_env \<Rightarrow> (string \<Rightarrow> 'v::linorder option) \<Rightarrow> control \<times> stage_record set \<Rightarrow> control \<times> stage_record set \<Rightarrow> bool"
  for env parse where
  step_bootstrap: "bootstrap_token now organization hash role s = Inr (u, s') \<Longrightarrow> registry_step env parse (s, seen) (s', seen)"
| step_token: "insert_token hash organization role expires_at kind s = Inr (u, s') \<Longrightarrow> registry_step env parse (s, seen) (s', seen)"
| step_grant: "grant_package_role name owner_org principal_org role s = Inr (u, s') \<Longrightarrow> registry_step env parse (s, seen) (s', seen)"
| step_read: "read_stage i s = Some stage \<Longrightarrow> registry_step env parse (s, seen) (s, insert stage seen)"
| step_create: "sr_status stage = ''staged'' \<Longrightarrow> create_stage now stage event_key event maximum_pending_stages s = Inr (b, s') \<Longrightarrow>
    registry_step env parse (s, seen) (s', seen)"
| step_decide: "stage \<in> seen \<Longrightarrow> \<not> (approve \<and> denied (sr_release stage)) \<Longrightarrow>
    decide_stage now stage approve reason event_key event s = Inr (b, s') \<Longrightarrow> registry_step env parse (s, seen) (s', seen)"
| step_revoke: "tb_status t \<in> {''revoked'', ''quarantined''} \<Longrightarrow> revoke_version parse now t event_key event s = Inr (b, s') \<Longrightarrow>
    registry_step env parse (s, seen) (s', seen)"
| step_download: "registry_step env parse (s, seen) (record_download name version s, seen)"
| step_append: "append_event_keyed env now event_key event s = Inr s' \<Longrightarrow> registry_step env parse (s, seen) (s', seen)"
| step_delivered: "\<forall>r\<in>set (registry_outbox s). ob_id r = i \<longrightarrow> ob_event_key r \<in> ev_key ` set (registry_events s) \<Longrightarrow>
    registry_step env parse (s, seen) (mark_outbox_delivered now i s, seen)"
| step_retry: "registry_step env parse (s, seen) (retry_outbox now i s, seen)"
| step_invite: "create_invitation token_hash organization email role expires_at s = Inr (u, s') \<Longrightarrow> registry_step env parse (s, seen) (s', seen)"
| step_uninvite: "revoke_invitation now token_hash organization s = Inr (b, s') \<Longrightarrow> registry_step env parse (s, seen) (s', seen)"
| step_accept: "accept_invitation now token_hash subject email s = Inr (r, s') \<Longrightarrow> registry_step env parse (s, seen) (s', seen)"
| step_limit: "consume_rate_limit now subject_hash bucket maximum window_seconds s = Inr (b, s') \<Longrightarrow> registry_step env parse (s, seen) (s', seen)"
| step_prune: "prune_rate_limits_before cutoff s = Inr (n, s') \<Longrightarrow> registry_step env parse (s, seen) (s', seen)"
| step_billing: "record_billing_event now event_id event_type payload s = Inr (b, s') \<Longrightarrow> registry_step env parse (s, seen) (s', seen)"

section \<open>What holds in every state\<close>

definition same_stage :: "stage_record \<Rightarrow> 'a stage_record_scheme \<Rightarrow> bool" where
  "same_stage r g \<longleftrightarrow> sr_id g = sr_id r \<and> sr_name g = sr_name r \<and> sr_version g = sr_version r \<and> sr_tag g = sr_tag r
     \<and> sr_release g = sr_release r \<and> sr_created_at g = sr_created_at r"

definition keys_ok :: "control \<Rightarrow> bool" where
  "keys_ok s \<longleftrightarrow> distinct (map pk_name (packages s)) \<and> distinct (map sr_id (stages s))
     \<and> distinct (map (\<lambda>g. (sr_name g, sr_version g)) (stages s)) \<and> distinct (map (\<lambda>v. (vr_name v, vr_version v)) (versions s))
     \<and> distinct (map (\<lambda>t. (dt_name t, dt_tag t)) (dist_tags s)) \<and> distinct (map (\<lambda>t. (tb_name t, tb_version t)) (tombstones s))"

definition owned :: "control \<Rightarrow> bool" where
  "owned s \<longleftrightarrow> (\<forall>g\<in>set (stages s). \<exists>p\<in>set (packages s). pk_name p = sr_name g
      \<and> pk_organization p = rl_organization (sr_release g) \<and> pk_private p = rl_private (sr_release g))"

definition published_of :: "version_row \<Rightarrow> stage_row \<Rightarrow> bool" where
  "published_of v g \<longleftrightarrow> sr_name g = vr_name v \<and> sr_version g = vr_version v \<and> sr_release g = vr_release v \<and> sr_status g = ''approved''"

definition reviewed :: "control \<Rightarrow> bool" where
  "reviewed s \<longleftrightarrow> (\<forall>v\<in>set (versions s). (\<exists>g\<in>set (stages s). published_of v g) \<and> \<not> denied (vr_release v))
     \<and> (\<forall>g\<in>set (stages s). sr_status g = ''approved'' \<longrightarrow> (\<exists>v\<in>set (versions s). published_of v g))"

definition tags_active :: "control \<Rightarrow> bool" where
  "tags_active s \<longleftrightarrow> (\<forall>t\<in>set (dist_tags s). \<exists>v\<in>set (versions s). vr_name v = dt_name t \<and> vr_version v = dt_version t \<and> vr_status v = ''active'')"

definition tombstones_ok :: "control \<Rightarrow> bool" where
  "tombstones_ok s \<longleftrightarrow>
     (\<forall>v\<in>set (versions s). vr_status v \<noteq> ''active'' \<longrightarrow>
        vr_status v \<in> {''revoked'', ''quarantined''} \<and> (\<exists>t\<in>set (tombstones s). tb_name t = vr_name v \<and> tb_version t = vr_version v \<and> tb_status t = vr_status v))
     \<and> (\<forall>t\<in>set (tombstones s). \<exists>v\<in>set (versions s). vr_name v = tb_name t \<and> vr_version v = tb_version t \<and> vr_status v = tb_status t)"

definition registry_good :: "control \<times> stage_record set \<Rightarrow> bool" where
  "registry_good sys \<longleftrightarrow> keys_ok (fst sys) \<and> owned (fst sys) \<and> reviewed (fst sys) \<and> tags_active (fst sys) \<and> tombstones_ok (fst sys)
     \<and> (\<forall>r\<in>snd sys. \<exists>g\<in>set (stages (fst sys)). same_stage r g)"

text \<open>What a later state keeps: packages, stages and versions with everything but their status and their downloads, and decisions.\<close>

definition registry_later :: "control \<times> stage_record set \<Rightarrow> control \<times> stage_record set \<Rightarrow> bool" where
  "registry_later a b \<longleftrightarrow>
     set (packages (fst a)) \<subseteq> set (packages (fst b))
     \<and> (\<forall>g\<in>set (stages (fst a)). \<exists>g'\<in>set (stages (fst b)). same_stage (stage_record.truncate g) g' \<and> (sr_status g \<noteq> ''staged'' \<longrightarrow> g' = g))
     \<and> (\<forall>v\<in>set (versions (fst a)). \<exists>v'\<in>set (versions (fst b)). vr_name v' = vr_name v \<and> vr_version v' = vr_version v
           \<and> vr_release v' = vr_release v \<and> vr_published_at v' = vr_published_at v \<and> vr_download_count v \<le> vr_download_count v'
           \<and> (vr_status v \<noteq> ''active'' \<longrightarrow> vr_status v' \<noteq> ''active''))
     \<and> snd a \<subseteq> snd b
     \<and> (\<exists>es. registry_events (fst b) = registry_events (fst a) @ es)"

end
