(* ===== verification/Registry_Invariant.thy ===== *)
theory Registry_Invariant
  imports Registry_Runs
begin

text \<open>
  What every run of the registry keeps: the invariant of \<open>Registry_Runs\<close> holds in every reachable state, whatever requests are
  served at the same time.
\<close>

section \<open>What a transaction changes\<close>

definition catalog :: "control \<Rightarrow> package_row list \<times> stage_row list \<times> version_row list \<times> tag_row list \<times> tombstone_row list" where
  "catalog s = (packages s, stages s, versions s, dist_tags s, tombstones s)"

lemma enqueue_event_Inr: "enqueue_event now k e s = Inr s' \<Longrightarrow> catalog s' = catalog s \<and> registry_events s' = registry_events s"
  by (auto simp: enqueue_event_def catalog_def bind_result_Inr_iff)

lemma extend_stage [simp]:
  "sr_id (stage_record.extend r x) = sr_id r" "sr_name (stage_record.extend r x) = sr_name r" "sr_version (stage_record.extend r x) = sr_version r"
  "sr_tag (stage_record.extend r x) = sr_tag r" "sr_status (stage_record.extend r x) = sr_status r"
  "sr_release (stage_record.extend r x) = sr_release r" "sr_created_at (stage_record.extend r x) = sr_created_at r"
  by (simp_all add: stage_record.defs)

lemma truncate_stage [simp]:
  "sr_id (stage_record.truncate g) = sr_id g" "sr_name (stage_record.truncate g) = sr_name g" "sr_version (stage_record.truncate g) = sr_version g"
  "sr_tag (stage_record.truncate g) = sr_tag g" "sr_status (stage_record.truncate g) = sr_status g"
  "sr_release (stage_record.truncate g) = sr_release g" "sr_created_at (stage_record.truncate g) = sr_created_at g"
  by (simp_all add: stage_record.defs)

lemma same_stage_truncate [simp]: "same_stage (stage_record.truncate g) g"
  by (simp add: same_stage_def)

lemma create_stage_cases:
  assumes "create_stage now stage k e m s = Inr (b, s')"
  obtains (refused) "\<not> b" "s' = s"
  | (staged) p where b "p \<in> set (packages s')" "pk_name p = sr_name stage" "pk_organization p = rl_organization (sr_release stage)"
      "pk_private p = rl_private (sr_release stage)"
      "packages s' = packages s \<or> (packages s' = packages s @ [p] \<and> pk_name p \<notin> pk_name ` set (packages s))"
      "stages s' = stages s @ [stage_record.extend stage \<lparr>sr_decision_reason = None\<rparr>]"
      "sr_id stage \<notin> sr_id ` set (stages s)" "(sr_name stage, sr_version stage) \<notin> (\<lambda>g. (sr_name g, sr_version g)) ` set (stages s)"
      "versions s' = versions s" "dist_tags s' = dist_tags s" "tombstones s' = tombstones s" "registry_events s' = registry_events s"
proof (cases "m \<le> int (pending_stages (rl_organization (sr_release stage)) s)")
  case True
  then show thesis using assms refused by (simp add: create_stage_def)
next
  case False
  then obtain s1 p s2 where steps: "claim_package stage s = Inr s1" "package_record (sr_name stage) s1 = Some p"
    "pk_organization p = rl_organization (sr_release stage)" "pk_private p = rl_private (sr_release stage)"
    "insert_stage stage s1 = Inr s2" "enqueue_event now k e s2 = Inr s'" "b"
    using assms by (auto simp: create_stage_def bind_result_Inr_iff)
  have p: "p \<in> set (packages s1)" "pk_name p = sr_name stage" using row_at_Some[of pk_name "sr_name stage" "packages s1" p] steps(2) by (auto simp: package_record_def)
  have c: "(packages s1 = packages s \<or> (\<exists>p'. packages s1 = packages s @ [p'] \<and> pk_name p' = sr_name stage \<and> pk_name p' \<notin> pk_name ` set (packages s)))
     \<and> stages s1 = stages s \<and> versions s1 = versions s \<and> dist_tags s1 = dist_tags s \<and> tombstones s1 = tombstones s \<and> registry_events s1 = registry_events s"
    using steps(1) by (auto simp: claim_package_def package_record_def row_at_None split: option.splits if_splits)
  then have pk: "packages s1 = packages s \<or> (packages s1 = packages s @ [p] \<and> pk_name p \<notin> pk_name ` set (packages s))"
    using p by (metis (no_types, lifting) imageI rotate1.simps(2) set_ConsD set_rotate1)
  note e = enqueue_event_Inr[OF steps(6), unfolded catalog_def prod.inject]
  show thesis
    using steps(5) e c p pk steps(3,4,7)
    by (intro staged[of p]) (auto simp: insert_stage_def bind_result_Inr_iff insert_row_Inr row_at_None)
qed

lemma publish_stage_Inr:
  assumes "publish_stage now stage s = Inr s'"
  shows "(sr_name stage, sr_version stage) \<notin> (\<lambda>v. (vr_name v, vr_version v)) ` set (versions s)"
    "versions s' = versions s @ [\<lparr>vr_name = sr_name stage, vr_version = sr_version stage, vr_status = ''active'', vr_release = sr_release stage,
        vr_published_at = now, vr_download_count = 0\<rparr>]"
    "dist_tags s' = upsert_row (\<lambda>r. (dt_name r, dt_tag r)) (\<lambda>r. r\<lparr>dt_version := sr_version stage\<rparr>)
        \<lparr>dt_name = sr_name stage, dt_tag = sr_tag stage, dt_version = sr_version stage\<rparr> (dist_tags s)"
    "packages s' = packages s" "stages s' = stages s" "tombstones s' = tombstones s" "registry_events s' = registry_events s"
  using assms by (auto simp: publish_stage_def bind_result_Inr_iff insert_row_Inr)

lemma decide_stage_cases:
  assumes "decide_stage now stage approve reason k e s = Inr (b, s')"
  obtains (undecided) "\<not> b" "s' = s"
  | (rejected) g where b "\<not> approve" "g \<in> set (stages s)" "sr_id g = sr_id stage" "sr_status g = ''staged''"
      "catalog s' = catalog (set_stage_status (sr_id stage) ''rejected'' reason s)" "registry_events s' = registry_events s"
  | (approved) g s1 where b approve "g \<in> set (stages s)" "sr_id g = sr_id stage" "sr_status g = ''staged''"
      "publish_stage now stage (set_stage_status (sr_id stage) ''approved'' reason s) = Inr s1"
      "catalog s' = catalog s1" "registry_events s' = registry_events s"
proof (cases "map_option sr_status (row_at sr_id (sr_id stage) (stages s)) = Some ''staged''")
  case False
  then show thesis using assms undecided by (simp add: decide_stage_def)
next
  case True
  then obtain g where g: "g \<in> set (stages s)" "sr_id g = sr_id stage" "sr_status g = ''staged''" using row_at_Some by fastforce
  show thesis
  proof (cases approve)
    case True
    then obtain s1 where "publish_stage now stage (set_stage_status (sr_id stage) ''approved'' reason s) = Inr s1" "enqueue_event now k e s1 = Inr s'" b
      using assms \<open>map_option _ _ = _\<close> by (auto simp: decide_stage_def bind_result_Inr_iff)
    then show thesis using approved[OF _ True g] enqueue_event_Inr publish_stage_Inr(7)[of now stage] by (fastforce simp: set_stage_status_def)
  next
    case False
    then have "enqueue_event now k e (set_stage_status (sr_id stage) ''rejected'' reason s) = Inr s'" b
      using assms \<open>map_option _ _ = _\<close> by (auto simp: decide_stage_def bind_result_Inr_iff)
    then show thesis using rejected[OF _ False g] enqueue_event_Inr[of now k e] by (fastforce simp: set_stage_status_def)
  qed
qed

lemma revoke_version_cases:
  assumes "revoke_version parse now t k e s = Inr (b, s')"
  obtains (unknown) "\<not> b" "s' = s"
  | (revoked) v where b "v \<in> set (versions s)" "vr_name v = tb_name t" "vr_version v = tb_version t"
      "packages s' = packages s" "stages s' = stages s" "registry_events s' = registry_events s"
      "versions s' = update_rows (\<lambda>r. (vr_name r, vr_version r) = (tb_name t, tb_version t)) (\<lambda>r. r\<lparr>vr_status := tb_status t\<rparr>) (versions s)"
      "tombstones s' = upsert_row (\<lambda>r. (tb_name r, tb_version r)) (\<lambda>_. t) t (tombstones s)"
      "dist_tags s' = move_tags (tb_name t) (tb_version t)
         (rollback_version parse (active_versions (tb_name t) (set_version_status (tb_name t) (tb_version t) (tb_status t) s))) (dist_tags s)"
proof (cases "version_record (tb_name t) (tb_version t) s")
  case None
  then show thesis using assms unknown by (simp add: revoke_version_def)
next
  case (Some v)
  then have v: "v \<in> set (versions s)" "vr_name v = tb_name t" "vr_version v = tb_version t"
    using row_at_Some[of _ _ "versions s" v] by (auto simp: version_record_def dest: row_at_Some)
  show thesis
    using assms Some v by (intro revoked[of v])
      (auto simp: revoke_version_def Let_def bind_result_Inr_iff set_version_status_def catalog_def dest!: enqueue_event_Inr)
qed

section \<open>The rollback target\<close>

lemma fold_better: "\<exists>c. fold better_version cs (Some b) = Some c \<and> c \<in> insert b (set cs) \<and> fst b \<le> fst c \<and> (\<forall>d\<in>set cs. fst d \<le> fst c)"
proof (induction cs arbitrary: b)
  case (Cons a cs)
  obtain b' where b': "better_version a (Some b) = Some b'" "b' \<in> {a, b}" "fst a \<le> fst b'" "fst b \<le> fst b'"
    by (cases "fst b \<le> fst a") (auto simp: better_version_def)
  obtain c where c: "fold better_version cs (Some b') = Some c" "c \<in> insert b' (set cs)" "fst b' \<le> fst c" "\<forall>d\<in>set cs. fst d \<le> fst c"
    using Cons.IH by blast
  have "fst a \<le> fst c" "fst b \<le> fst c" using b' c(3) by order+
  then show ?case using b' c by (intro exI[of _ c]) auto
qed simp

lemma max_by_version_cases: "max_by_version cs = (if cs = [] then None else max_by_version cs)"
    "cs \<noteq> [] \<Longrightarrow> \<exists>c. max_by_version cs = Some c \<and> c \<in> set cs \<and> (\<forall>d\<in>set cs. fst d \<le> fst c)"
proof -
  show "max_by_version cs = (if cs = [] then None else max_by_version cs)" by (simp add: max_by_version_def)
  show "\<exists>c. max_by_version cs = Some c \<and> c \<in> set cs \<and> (\<forall>d\<in>set cs. fst d \<le> fst c)" if ne: "cs \<noteq> []"
  proof -
    obtain a cs' where "cs = a # cs'" using ne by (cases cs) auto
    then show ?thesis using fold_better[of cs' a] by (auto simp: max_by_version_def better_version_def[of a None])
  qed
qed

lemma max_by_version_None: "max_by_version cs = None \<longleftrightarrow> cs = []"
  using max_by_version_cases by (metis option.distinct(1))

lemma max_by_version_Some: "max_by_version cs = Some c \<Longrightarrow> c \<in> set cs \<and> (\<forall>d\<in>set cs. fst d \<le> fst c)"
  using max_by_version_cases by (metis option.distinct(1) option.inject)

lemma rollback_Some:
  assumes "rollback_version parse active = Some v"
  shows "v \<in> set active \<and> (\<exists>p. parse v = Some p \<and> (\<forall>w\<in>set active. \<forall>q. parse w = Some q \<longrightarrow> q \<le> p))"
proof -
  let ?cs = "List.map_filter (\<lambda>value. map_option (\<lambda>parsed. (parsed, value)) (parse value)) active"
  obtain p where "max_by_version ?cs = Some (p, v)" using assms by (auto simp: rollback_version_def)
  then have m: "(p, v) \<in> set ?cs" "\<forall>d\<in>set ?cs. fst d \<le> p" using max_by_version_Some by fastforce+
  have c: "(q, w) \<in> set ?cs \<longleftrightarrow> w \<in> set active \<and> parse w = Some q" for q w
    by (auto simp: map_filter_def image_iff)
  show ?thesis using m c by force
qed

lemma rollback_None: "rollback_version parse active = None \<longleftrightarrow> (\<forall>w\<in>set active. parse w = None)"
  by (auto simp: rollback_version_def max_by_version_None map_filter_def filter_empty_conv)

section \<open>Every transaction keeps the invariant\<close>

lemma key_unique: "distinct (map key rows) \<Longrightarrow> a \<in> set rows \<Longrightarrow> b \<in> set rows \<Longrightarrow> key a = key b \<Longrightarrow> a = b"
  by (auto simp: distinct_map inj_on_def)

lemma good_catalog: "catalog s' = catalog s \<Longrightarrow> registry_good (s, seen) \<Longrightarrow> registry_good (s', seen)"
  by (simp add: catalog_def registry_good_def keys_ok_def owned_def reviewed_def tags_active_def tombstones_ok_def)

lemma good_parts:
  assumes "registry_good (s, seen)"
  shows "distinct (map pk_name (packages s))" "distinct (map sr_id (stages s))" "distinct (map (\<lambda>g. (sr_name g, sr_version g)) (stages s))"
    "distinct (map (\<lambda>v. (vr_name v, vr_version v)) (versions s))" "distinct (map (\<lambda>t. (dt_name t, dt_tag t)) (dist_tags s))"
    "distinct (map (\<lambda>t. (tb_name t, tb_version t)) (tombstones s))" "owned s" "reviewed s" "tags_active s" "tombstones_ok s"
    "\<And>r. r \<in> seen \<Longrightarrow> \<exists>g\<in>set (stages s). same_stage r g"
  using assms unfolding registry_good_def keys_ok_def fst_conv snd_conv by simp_all

lemma good_insert: "registry_good (s, insert r seen) \<longleftrightarrow> registry_good (s, seen) \<and> (\<exists>g\<in>set (stages s). same_stage r g)"
  unfolding registry_good_def fst_conv snd_conv ball_simps by blast

lemma good_read:
  assumes "read_stage i s = Some stage" "registry_good (s, seen)"
  shows "registry_good (s, insert stage seen)"
proof -
  obtain g where "row_at sr_id i (stages s) = Some g" "stage = stage_record.truncate g" using assms(1) by (auto simp: read_stage_def)
  then have "g \<in> set (stages s)" "same_stage stage g" using row_at_Some by fastforce+
  then show ?thesis using assms(2) unfolding good_insert by blast
qed

lemma good_create:
  assumes "registry_good (s, seen)" "create_stage now stage k e m s = Inr (b, s')" "sr_status stage = ''staged''"
  shows "registry_good (s', seen)"
  using assms(2)
proof (cases rule: create_stage_cases)
  case refused then show ?thesis using assms(1) by simp
next
  case (staged p)
  note g = good_parts[OF assms(1)]
  let ?g = "stage_record.extend stage \<lparr>sr_decision_reason = None\<rparr>"
  have sub: "set (packages s) \<subseteq> set (packages s')" using staged(6) by auto
  have "keys_ok s'" using staged g(1-6) unfolding keys_ok_def by (auto simp: image_iff)
  moreover have "owned s'"
    using g(7) sub staged(2-5,7) unfolding owned_def by auto
  moreover have "reviewed s'"
    using g(8) staged(7,10) assms(3) unfolding reviewed_def published_of_def by auto
  moreover have "tags_active s'" "tombstones_ok s'" using g(9,10) staged(10-12) by (simp_all add: tags_active_def tombstones_ok_def)
  moreover have "\<forall>r\<in>seen. \<exists>g\<in>set (stages s'). same_stage r g" using g(11) staged(7) by auto
  ultimately show ?thesis by (simp add: registry_good_def)
qed

lemma set_status_stage:
  "h \<in> set (stages (set_stage_status i status reason s)) \<longleftrightarrow>
     (\<exists>g\<in>set (stages s). h = (if sr_id g = i then g\<lparr>sr_status := status, sr_decision_reason := reason\<rparr> else g))"
proof -
  have "stages (set_stage_status i status reason s) = map (\<lambda>g. if sr_id g = i then g\<lparr>sr_status := status, sr_decision_reason := reason\<rparr> else g) (stages s)"
    by (simp add: set_stage_status_def update_rows_def)
  then show ?thesis by (simp only: set_map image_iff)
qed

lemma set_status_keys:
  "map sr_id (stages (set_stage_status i status reason s)) = map sr_id (stages s)"
  "map (\<lambda>g. (sr_name g, sr_version g)) (stages (set_stage_status i status reason s)) = map (\<lambda>g. (sr_name g, sr_version g)) (stages s)"
  by (simp_all add: set_stage_status_def map_update_rows)

lemma set_status_fields [simp]:
  "packages (set_stage_status i status reason s) = packages s" "versions (set_stage_status i status reason s) = versions s"
  "dist_tags (set_stage_status i status reason s) = dist_tags s" "tombstones (set_stage_status i status reason s) = tombstones s"
  "registry_events (set_stage_status i status reason s) = registry_events s"
  by (simp_all add: set_stage_status_def)

text \<open>The stages after a decision: only the decided one, which was staged, has another status.\<close>

lemma decided_stages:
  fixes reason :: "string option"
  assumes "registry_good (s, seen)" "g \<in> set (stages s)" "sr_id g = i" "sr_status g = ''staged''" "status \<noteq> ''staged''"
  defines "s' \<equiv> set_stage_status i status reason s"
  shows "owned s'" "\<And>h. h \<in> set (stages s) \<Longrightarrow> sr_status h \<noteq> ''staged'' \<Longrightarrow> h \<in> set (stages s')"
    "\<And>h. h \<in> set (stages s') \<Longrightarrow> h \<in> set (stages s) \<and> sr_id h \<noteq> i \<or> h = g\<lparr>sr_status := status, sr_decision_reason := reason\<rparr>"
    "\<And>r. r \<in> seen \<Longrightarrow> \<exists>h\<in>set (stages s'). same_stage r h"
    "g\<lparr>sr_status := status, sr_decision_reason := reason\<rparr> \<in> set (stages s')"
proof -
  note gp = good_parts[OF assms(1)]
  have unique: "h = g" if "h \<in> set (stages s)" "sr_id h = i" for h
    using key_unique[OF gp(2)] that assms(2,3) by blast
  show "owned s'" using gp(7) unfolding owned_def s'_def by (auto simp: set_status_stage)
  show "h \<in> set (stages s')" if "h \<in> set (stages s)" "sr_status h \<noteq> ''staged''" for h
    using that unique[OF that(1)] assms(4) unfolding s'_def set_status_stage by (cases "sr_id h = i") auto
  show "h \<in> set (stages s) \<and> sr_id h \<noteq> i \<or> h = g\<lparr>sr_status := status, sr_decision_reason := reason\<rparr>" if "h \<in> set (stages s')" for h
    using that unique unfolding s'_def set_status_stage by (auto split: if_splits)
  show "\<exists>h\<in>set (stages s'). same_stage r h" if "r \<in> seen" for r
  proof -
    obtain h where "h \<in> set (stages s)" "same_stage r h" using gp(11)[OF \<open>r \<in> seen\<close>] by blast
    moreover have "(if sr_id h = i then h\<lparr>sr_status := status, sr_decision_reason := reason\<rparr> else h) \<in> set (stages s')"
      using \<open>h \<in> set (stages s)\<close> unfolding s'_def set_status_stage by blast
    ultimately show ?thesis by (intro bexI) (auto simp: same_stage_def)
  qed
  show "g\<lparr>sr_status := status, sr_decision_reason := reason\<rparr> \<in> set (stages s')"
    using assms(2,3) unfolding s'_def set_status_stage by (intro bexI[of _ g]) simp_all
qed

lemma good_rejected:
  assumes "registry_good (s, seen)" "g \<in> set (stages s)" "sr_id g = i" "sr_status g = ''staged''"
  shows "registry_good (set_stage_status i ''rejected'' reason s, seen)"
proof -
  note gp = good_parts[OF assms(1)]
  note d = decided_stages[OF assms, where status = "''rejected''" and reason = reason, simplified]
  have "keys_ok (set_stage_status i ''rejected'' reason s)" using gp(1-6) by (simp add: keys_ok_def set_status_keys)
  moreover have "reviewed (set_stage_status i ''rejected'' reason s)"
  proof -
    have "\<exists>h\<in>set (stages (set_stage_status i ''rejected'' reason s)). published_of v h" if v: "v \<in> set (versions s)" for v
    proof -
      obtain h where h: "h \<in> set (stages s)" "published_of v h" using gp(8) v unfolding reviewed_def by blast
      then have "sr_status h \<noteq> ''staged''" by (simp add: published_of_def)
      then show ?thesis using d(2) h by blast
    qed
    moreover have "\<exists>v\<in>set (versions s). published_of v h" if h: "h \<in> set (stages (set_stage_status i ''rejected'' reason s))" "sr_status h = ''approved''" for h
    proof -
      have "h \<in> set (stages s)" using d(3)[OF h(1)] h(2) by auto
      then show ?thesis using gp(8) h(2) unfolding reviewed_def by blast
    qed
    ultimately show ?thesis using gp(8) unfolding reviewed_def by simp
  qed
  moreover have "tags_active (set_stage_status i ''rejected'' reason s)" "tombstones_ok (set_stage_status i ''rejected'' reason s)"
    using gp(9,10) by (simp_all add: tags_active_def tombstones_ok_def)
  ultimately show ?thesis using d(1,4) by (simp add: registry_good_def)
qed

lemma good_approved:
  assumes "registry_good (s, seen)" "g \<in> set (stages s)" "sr_id g = sr_id stage" "sr_status g = ''staged''"
    and "stage \<in> seen" "\<not> denied (sr_release stage)" "publish_stage now stage (set_stage_status (sr_id stage) ''approved'' reason s) = Inr s'"
  shows "registry_good (s', seen)"
proof -
  note gp = good_parts[OF assms(1)]
  note d = decided_stages[OF assms(1-4), where status = "''approved''" and reason = reason, simplified]
  note p = publish_stage_Inr[OF assms(7), unfolded set_status_fields]
  let ?v = "\<lparr>vr_name = sr_name stage, vr_version = sr_version stage, vr_status = ''active'', vr_release = sr_release stage, vr_published_at = now, vr_download_count = 0\<rparr>"
  let ?g = "g\<lparr>sr_status := ''approved'', sr_decision_reason := reason\<rparr>"
  obtain h where "h \<in> set (stages s)" "same_stage stage h" using gp(11)[OF assms(5)] by blast
  moreover then have "h = g" using key_unique[OF gp(2)] assms(2,3) by (auto simp: same_stage_def)
  ultimately have same: "sr_name g = sr_name stage" "sr_version g = sr_version stage" "sr_release g = sr_release stage" by (simp_all add: same_stage_def)
  have g': "?g \<in> set (stages s')" "published_of ?v ?g" using d(5) p(5) same by (simp_all add: published_of_def)
  have "keys_ok s'"
    unfolding keys_ok_def p(2-6) using gp(1-6) p(1) by (auto simp: set_status_keys map_upsert_row image_iff)
  moreover have "owned s'" using d(1) p(4,5) by (simp add: owned_def)
  moreover have "reviewed s'"
  proof -
    have "\<exists>h\<in>set (stages s'). published_of v h" if v: "v \<in> set (versions s)" for v
    proof -
      obtain h where h: "h \<in> set (stages s)" "published_of v h" using gp(8) v unfolding reviewed_def by blast
      then have "sr_status h \<noteq> ''staged''" by (simp add: published_of_def)
      then show ?thesis using d(2) h p(5) by auto
    qed
    moreover have "\<exists>v\<in>set (versions s'). published_of v h" if h: "h \<in> set (stages s')" "sr_status h = ''approved''" for h
    proof (cases "h = ?g")
      case True then show ?thesis using g'(2) p(2) by auto
    next
      case False
      then have "h \<in> set (stages s)" using d(3) h(1) p(5) by auto
      then show ?thesis using gp(8) h(2) p(2) unfolding reviewed_def by auto
    qed
    ultimately show ?thesis using gp(8) g' assms(6) p(2) unfolding reviewed_def by auto
  qed
  moreover have "tags_active s'"
    unfolding tags_active_def
  proof
    fix t assume "t \<in> set (dist_tags s')"
    then have "dt_name t = sr_name stage \<and> dt_version t = sr_version stage \<or> t \<in> set (dist_tags s)"
      unfolding p(3) by (auto dest!: set_upsert_row)
    then show "\<exists>v\<in>set (versions s'). vr_name v = dt_name t \<and> vr_version v = dt_version t \<and> vr_status v = ''active''"
      using gp(9) unfolding tags_active_def p(2) by auto
  qed
  moreover have "tombstones_ok s'" using gp(10) unfolding tombstones_ok_def p(2,6) by auto
  moreover have "\<forall>r\<in>seen. \<exists>h\<in>set (stages s'). same_stage r h" using d(4) p(5) by simp
  ultimately show ?thesis by (simp add: registry_good_def)
qed

lemma good_versions:
  assumes "registry_good (s, seen)" "versions s' = map f (versions s)" "packages s' = packages s" "stages s' = stages s"
    and "\<And>v. vr_name (f v) = vr_name v \<and> vr_version (f v) = vr_version v \<and> vr_release (f v) = vr_release v"
    and "distinct (map (\<lambda>t. (dt_name t, dt_tag t)) (dist_tags s'))" "distinct (map (\<lambda>t. (tb_name t, tb_version t)) (tombstones s'))"
    and "tags_active s'" "tombstones_ok s'"
  shows "registry_good (s', seen)"
proof -
  note gp = good_parts[OF assms(1)]
  have pub: "published_of (f v) g = published_of v g" for v g using assms(5) by (simp add: published_of_def)
  have "map (\<lambda>v. (vr_name v, vr_version v)) (versions s') = map (\<lambda>v. (vr_name v, vr_version v)) (versions s)" using assms(5) by (simp add: assms(2))
  then have "keys_ok s'" using gp(1-4) assms(6,7) unfolding keys_ok_def assms(3,4) by metis
  moreover have "owned s'" using gp(7) unfolding owned_def assms(3,4) .
  moreover have "reviewed s'" using gp(8) assms(5) unfolding reviewed_def assms(2,4) set_map by (simp add: pub)
  ultimately show ?thesis using gp(11) assms(8,9) unfolding registry_good_def by (simp add: assms(4))
qed

lemma good_download:
  assumes "registry_good (s, seen)" shows "registry_good (record_download name version s, seen)"
proof (rule good_versions[OF assms])
  note gp = good_parts[OF assms]
  let ?f = "\<lambda>r. if (vr_name r, vr_version r) = (name, version) then r\<lparr>vr_download_count := vr_download_count r + 1\<rparr> else r"
  show v: "versions (record_download name version s) = map ?f (versions s)" by (simp add: record_download_def update_rows_def)
  have f: "vr_name (?f v) = vr_name v" "vr_version (?f v) = vr_version v" "vr_status (?f v) = vr_status v" "vr_release (?f v) = vr_release v" for v by simp_all
  then show "vr_name (?f v) = vr_name v \<and> vr_version (?f v) = vr_version v \<and> vr_release (?f v) = vr_release v" for v by simp
  have tables: "dist_tags (record_download name version s) = dist_tags s" "tombstones (record_download name version s) = tombstones s"
    by (simp_all add: record_download_def)
  show "tags_active (record_download name version s)" using gp(9) unfolding tags_active_def v tables set_map bex_simps f .
  show "tombstones_ok (record_download name version s)" using gp(10) unfolding tombstones_ok_def v tables set_map bex_simps ball_simps f .
  show "distinct (map (\<lambda>t. (dt_name t, dt_tag t)) (dist_tags (record_download name version s)))"
    "distinct (map (\<lambda>t. (tb_name t, tb_version t)) (tombstones (record_download name version s)))" using gp(5,6) by (simp_all add: tables)
qed (simp_all add: record_download_def)

lemma moved_tags:
  assumes "r \<in> set (move_tags name version target rows)"
  shows "(\<exists>r'\<in>set rows. dt_name r' = dt_name r \<and> dt_tag r' = dt_tag r)
    \<and> (r \<in> set rows \<and> (dt_name r, dt_version r) \<noteq> (name, version) \<or> dt_name r = name \<and> target = Some (dt_version r))"
  using assms by (auto simp: move_tags_def update_rows_def split: option.splits)

lemma moved_tags_keys: "distinct (map (\<lambda>t. (dt_name t, dt_tag t)) rows) \<Longrightarrow> distinct (map (\<lambda>t. (dt_name t, dt_tag t)) (move_tags name version target rows))"
  by (auto simp: move_tags_def map_update_rows distinct_map_filter split: option.split)

lemma good_revoked:
  assumes good: "registry_good (s, seen)" and "v \<in> set (versions s)" "vr_name v = tb_name t" "vr_version v = tb_version t"
    and status: "tb_status t \<in> {''revoked'', ''quarantined''}"
    and tables: "packages s' = packages s" "stages s' = stages s"
      "versions s' = update_rows (\<lambda>r. (vr_name r, vr_version r) = (tb_name t, tb_version t)) (\<lambda>r. r\<lparr>vr_status := tb_status t\<rparr>) (versions s)"
      "tombstones s' = upsert_row (\<lambda>r. (tb_name r, tb_version r)) (\<lambda>_. t) t (tombstones s)"
      "dist_tags s' = move_tags (tb_name t) (tb_version t)
         (rollback_version parse (active_versions (tb_name t) (set_version_status (tb_name t) (tb_version t) (tb_status t) s))) (dist_tags s)"
  shows "registry_good (s', seen)"
proof (rule good_versions[OF good _ tables(1,2)])
  note gp = good_parts[OF good]
  let ?hit = "\<lambda>r. (vr_name r, vr_version r) = (tb_name t, tb_version t)"
  let ?f = "\<lambda>r. if ?hit r then r\<lparr>vr_status := tb_status t\<rparr> else r"
  show v: "versions s' = map ?f (versions s)" using tables(3) by (simp add: update_rows_def)
  show "vr_name (?f v) = vr_name v \<and> vr_version (?f v) = vr_version v \<and> vr_release (?f v) = vr_release v" for v by simp
  show "distinct (map (\<lambda>t. (dt_name t, dt_tag t)) (dist_tags s'))" using gp(5) moved_tags_keys tables(5) by simp
  show "distinct (map (\<lambda>t. (tb_name t, tb_version t)) (tombstones s'))" using gp(6) unfolding tables(4) by (auto simp: map_upsert_row)
  show "tags_active s'"
    unfolding tags_active_def
  proof
    fix d assume "d \<in> set (dist_tags s')"
    from moved_tags[OF this[unfolded tables(5)]]
    consider (kept) "d \<in> set (dist_tags s)" "(dt_name d, dt_version d) \<noteq> (tb_name t, tb_version t)"
      | (moved) "dt_name d = tb_name t"
          "dt_version d \<in> set (active_versions (tb_name t) (set_version_status (tb_name t) (tb_version t) (tb_status t) s))"
      using rollback_Some by fastforce
    then show "\<exists>v\<in>set (versions s'). vr_name v = dt_name d \<and> vr_version v = dt_version d \<and> vr_status v = ''active''"
    proof cases
      case kept
      then obtain v where "v \<in> set (versions s)" "vr_name v = dt_name d" "vr_version v = dt_version d" "vr_status v = ''active''"
        using gp(9) unfolding tags_active_def by blast
      moreover from calculation kept(2) have "v = ?f v" by auto
      then have "v \<in> ?f ` set (versions s)" using \<open>v \<in> set (versions s)\<close> by (rule image_eqI)
      ultimately show ?thesis unfolding v set_map by blast
    next
      case moved
      have "versions (set_version_status (tb_name t) (tb_version t) (tb_status t) s) = versions s'" by (simp add: set_version_status_def tables(3))
      then show ?thesis using moved by (auto simp: active_versions_def)
    qed
  qed
  show "tombstones_ok s'"
    unfolding tombstones_ok_def
  proof (intro conjI ballI impI)
    fix w assume w: "w \<in> set (versions s')" "vr_status w \<noteq> ''active''"
    then obtain u where u: "u \<in> set (versions s)" "w = ?f u" unfolding v set_map by blast
    have key: "row_at (\<lambda>r. (tb_name r, tb_version r)) k (tombstones s') = (if k = (tb_name t, tb_version t) then Some t else row_at (\<lambda>r. (tb_name r, tb_version r)) k (tombstones s))" for k
      unfolding tables(4) by (subst row_at_upsert) (auto split: option.split)
    show "vr_status w \<in> {''revoked'', ''quarantined''}" using u w(2) gp(10) status unfolding tombstones_ok_def by (auto split: if_splits)
    show "\<exists>tb\<in>set (tombstones s'). tb_name tb = vr_name w \<and> tb_version tb = vr_version w \<and> tb_status tb = vr_status w"
    proof (cases "?hit u")
      case True
      then have "vr_name w = tb_name t" "vr_version w = tb_version t" "vr_status w = tb_status t" using u(2) by simp_all
      moreover have "t \<in> set (tombstones s')" using row_at_Some[of _ _ "tombstones s'" t] key[of "(tb_name t, tb_version t)"] by fastforce
      ultimately show ?thesis by auto
    next
      case False
      then have "w = u" using u(2) by (simp only: if_False)
      then obtain tb where tb: "tb \<in> set (tombstones s)" "tb_name tb = vr_name w" "tb_version tb = vr_version w" "tb_status tb = vr_status w"
        using gp(10) u(1) w(2) unfolding tombstones_ok_def by blast
      have "row_at (\<lambda>r. (tb_name r, tb_version r)) (tb_name tb, tb_version tb) (tombstones s') = Some tb"
        unfolding key using row_at_distinct[OF gp(6) tb(1)] False \<open>w = u\<close> tb(2,3) by auto
      from conjunct1[OF row_at_Some[OF this]] show ?thesis using tb(2-4) by blast
    qed
  next
    fix tb assume "tb \<in> set (tombstones s')"
    then consider "tb = t" | "tb \<in> set (tombstones s)" "(tb_name tb, tb_version tb) \<noteq> (tb_name t, tb_version t)"
      unfolding tables(4) by (auto dest!: set_upsert_row)
    then show "\<exists>w\<in>set (versions s'). vr_name w = tb_name tb \<and> vr_version w = tb_version tb \<and> vr_status w = tb_status tb"
    proof cases
      case 1
      then show ?thesis using assms(2-4) unfolding v set_map by (intro bexI[of _ "?f v"]) auto
    next
      case 2
      then obtain w where w: "w \<in> set (versions s)" "vr_name w = tb_name tb" "vr_version w = tb_version tb" "vr_status w = tb_status tb"
        using gp(10) unfolding tombstones_ok_def by blast
      then have "w = ?f w" using 2(2) by auto
      then have "w \<in> ?f ` set (versions s)" using w(1) by (rule image_eqI)
      then show ?thesis using w unfolding v set_map by blast
    qed
  qed
qed

lemma quiet_fields:
  "catalog (s\<lparr>organizations := x\<rparr>) = catalog s" "catalog (s\<lparr>tokens := y\<rparr>) = catalog s" "catalog (s\<lparr>package_roles := z\<rparr>) = catalog s"
  "catalog (s\<lparr>registry_events := a\<rparr>) = catalog s" "catalog (s\<lparr>registry_outbox := b\<rparr>) = catalog s" "catalog (s\<lparr>invitations := c\<rparr>) = catalog s"
  "catalog (s\<lparr>organization_members := d\<rparr>) = catalog s" "catalog (s\<lparr>rate_limits := e\<rparr>) = catalog s" "catalog (s\<lparr>billing_events := f\<rparr>) = catalog s"
  by (simp_all add: catalog_def)

text \<open>The steps that leave packages, stages, versions, tags and tombstones alone; only one of them adds to the log.\<close>

lemma step_kinds:
  assumes "registry_step env parse a b"
  obtains (quiet) "catalog (fst b) = catalog (fst a)" "snd b = snd a" "registry_events (fst b) = registry_events (fst a)"
  | (append) now k e where "append_event_keyed env now k e (fst a) = Inr (fst b)" "snd b = snd a"
  | (read) i stage where "read_stage i (fst a) = Some stage" "b = (fst a, insert stage (snd a))"
  | (create) now stage k e m r where "sr_status stage = ''staged''" "create_stage now stage k e m (fst a) = Inr (r, fst b)" "snd b = snd a"
  | (decide) now stage approve reason k e r where "stage \<in> snd a" "\<not> (approve \<and> denied (sr_release stage))"
      "decide_stage now stage approve reason k e (fst a) = Inr (r, fst b)" "snd b = snd a"
  | (revoke) now t k e r where "tb_status t \<in> {''revoked'', ''quarantined''}" "revoke_version parse now t k e (fst a) = Inr (r, fst b)" "snd b = snd a"
  | (download) name version where "b = (record_download name version (fst a), snd a)"
  using assms
proof cases
  case (step_read i s stage seen) then show thesis using read by simp
next
  case (step_create stage now event_key event m s r s' seen) then show thesis using create by simp
next
  case (step_decide stage seen approve now reason event_key event s r s') then show thesis using decide by simp
next
  case (step_revoke t now event_key event s r s' seen) then show thesis using revoke by simp
next
  case (step_download s seen name version) then show thesis using download by simp
next
  case (step_append now event_key event s s' seen) then show thesis using append by simp
next
  case (step_bootstrap now organization hash role s u s' seen)
  then show thesis by (intro quiet) (auto simp: bootstrap_token_def Let_def quiet_fields)
next
  case (step_token hash organization role expires_at kind s u s' seen)
  then show thesis by (intro quiet) (auto simp: insert_token_def bind_result_Inr_iff quiet_fields)
next
  case (step_grant name owner_org principal_org role s u s' seen)
  then show thesis by (intro quiet) (auto simp: grant_package_role_def Let_def bind_result_Inr_iff quiet_fields)
next
  case (step_delivered s i seen now)
  then show thesis by (intro quiet) (simp_all add: mark_outbox_delivered_def quiet_fields)
next
  case (step_retry s seen now i)
  then show thesis by (intro quiet) (simp_all add: retry_outbox_def quiet_fields)
next
  case (step_invite token_hash organization email role expires_at s u s' seen)
  then show thesis by (intro quiet) (auto simp: create_invitation_def bind_result_Inr_iff quiet_fields)
next
  case (step_uninvite now token_hash organization s r s' seen)
  then show thesis by (intro quiet) (auto simp: revoke_invitation_def Let_def quiet_fields)
next
  case (step_accept now token_hash subject email s r s' seen)
  then show thesis by (intro quiet) (auto simp: accept_invitation_def Let_def quiet_fields split: option.splits if_splits)
next
  case (step_limit now subject_hash bucket maximum window_seconds s r s' seen)
  then show thesis by (intro quiet) (auto simp: consume_rate_limit_def Let_def quiet_fields)
next
  case (step_prune cutoff s n s' seen)
  then show thesis by (intro quiet) (auto simp: prune_rate_limits_before_def quiet_fields)
next
  case (step_billing now event_id event_type payload s r s' seen)
  then show thesis by (intro quiet) (auto simp: record_billing_event_def quiet_fields split: if_splits)
qed

lemma append_event_catalog: "append_event_keyed env now k e s = Inr s' \<Longrightarrow> catalog s' = catalog s"
  by (erule append_event_cases) (simp_all add: quiet_fields)

lemma good_step:
  assumes "registry_good a" "registry_step env parse a b"
  shows "registry_good b"
proof -
  have a: "registry_good (fst a, snd a)" using assms(1) by simp
  have b: "registry_good b" if "registry_good (fst b, snd a)" "snd b = snd a" using that by (metis prod.collapse)
  show ?thesis
    using assms(2)
  proof (cases rule: step_kinds)
    case quiet then show ?thesis using b good_catalog[OF _ a] by simp
  next
    case append then show ?thesis using b good_catalog[OF append_event_catalog[OF append(1)] a] by simp
  next
    case read then show ?thesis using good_read[OF _ a] by simp
  next
    case create then show ?thesis using b good_create[OF a] by simp
  next
    case download then show ?thesis using good_download[OF a] by simp
  next
    case (decide now stage approve reason k e r)
    from decide(3) have "registry_good (fst b, snd a)"
    proof (cases rule: decide_stage_cases)
      case undecided then show ?thesis using a by simp
    next
      case (rejected g) then show ?thesis using good_catalog good_rejected[OF a rejected(3-5)] by blast
    next
      case (approved g s1)
      then have "registry_good (s1, snd a)" using good_approved[OF a approved(3-5) decide(1) _ approved(6)] decide(2) by blast
      then show ?thesis using good_catalog approved(7) by blast
    qed
    then show ?thesis using b decide(4) by blast
  next
    case (revoke now t k e r)
    from revoke(2) have "registry_good (fst b, snd a)"
    proof (cases rule: revoke_version_cases)
      case unknown then show ?thesis using a by simp
    next
      case (revoked v) show ?thesis by (rule good_revoked[OF a revoked(2-4) revoke(1) revoked(5,6,8-10)])
    qed
    then show ?thesis using b revoke(3) by blast
  qed
qed

section \<open>What later states keep\<close>

lemma stage_kept: "g \<in> set ss \<Longrightarrow> set ss \<subseteq> set ss' \<Longrightarrow>
    \<exists>g'\<in>set ss'. same_stage (stage_record.truncate g) g' \<and> (sr_status g \<noteq> ''staged'' \<longrightarrow> g' = g)"
  using same_stage_truncate by (intro bexI[of _ g]) auto

lemma later_tables:
  assumes "set (packages s) \<subseteq> set (packages s')"
    and "\<And>g. g \<in> set (stages s) \<Longrightarrow> \<exists>g'\<in>set (stages s'). same_stage (stage_record.truncate g) g' \<and> (sr_status g \<noteq> ''staged'' \<longrightarrow> g' = g)"
    and "\<And>v. v \<in> set (versions s) \<Longrightarrow> \<exists>v'\<in>set (versions s'). vr_name v' = vr_name v \<and> vr_version v' = vr_version v
           \<and> vr_release v' = vr_release v \<and> vr_published_at v' = vr_published_at v \<and> vr_download_count v \<le> vr_download_count v'
           \<and> (vr_status v \<noteq> ''active'' \<longrightarrow> vr_status v' \<noteq> ''active'')"
    and "registry_events s' = registry_events s @ es" "seen \<subseteq> seen'"
  shows "registry_later (s, seen) (s', seen')"
  using assms unfolding registry_later_def fst_conv snd_conv by blast

lemma later_refl: "registry_later a a"
  unfolding registry_later_def by (intro conjI ballI stage_kept order_refl) auto

lemma later_trans:
  assumes "registry_later a b" "registry_later b c" shows "registry_later a c"
proof -
  obtain s seen s' seen' s'' seen'' where abc: "a = (s, seen)" "b = (s', seen')" "c = (s'', seen'')" by (metis surj_pair)
  note ab = assms(1)[unfolded abc registry_later_def fst_conv snd_conv] and bc = assms(2)[unfolded abc registry_later_def fst_conv snd_conv]
  obtain es es' where es: "registry_events s' = registry_events s @ es" "registry_events s'' = registry_events s' @ es'" using ab bc by blast
  show ?thesis
    unfolding abc
  proof (rule later_tables)
    show "set (packages s) \<subseteq> set (packages s'')" "seen \<subseteq> seen''" using ab bc by blast+
    show "registry_events s'' = registry_events s @ (es @ es')" by (simp add: es)
    show "\<exists>g'\<in>set (stages s''). same_stage (stage_record.truncate g) g' \<and> (sr_status g \<noteq> ''staged'' \<longrightarrow> g' = g)" if g: "g \<in> set (stages s)" for g
    proof -
      obtain h where h: "h \<in> set (stages s')" "same_stage (stage_record.truncate g) h" "sr_status g \<noteq> ''staged'' \<longrightarrow> h = g" using ab g by blast
      obtain k where "k \<in> set (stages s'')" "same_stage (stage_record.truncate h) k" "sr_status h \<noteq> ''staged'' \<longrightarrow> k = h" using bc h(1) by blast
      then show ?thesis using h by (intro bexI[of _ k]) (auto simp: same_stage_def)
    qed
    show "\<exists>v'\<in>set (versions s''). vr_name v' = vr_name v \<and> vr_version v' = vr_version v
         \<and> vr_release v' = vr_release v \<and> vr_published_at v' = vr_published_at v \<and> vr_download_count v \<le> vr_download_count v'
         \<and> (vr_status v \<noteq> ''active'' \<longrightarrow> vr_status v' \<noteq> ''active'')" if v: "v \<in> set (versions s)" for v
    proof -
      obtain w where w: "w \<in> set (versions s')" "vr_name w = vr_name v \<and> vr_version w = vr_version v
         \<and> vr_release w = vr_release v \<and> vr_published_at w = vr_published_at v \<and> vr_download_count v \<le> vr_download_count w
         \<and> (vr_status v \<noteq> ''active'' \<longrightarrow> vr_status w \<noteq> ''active'')" using ab v by blast
      obtain x where "x \<in> set (versions s'')" "vr_name x = vr_name w \<and> vr_version x = vr_version w
         \<and> vr_release x = vr_release w \<and> vr_published_at x = vr_published_at w \<and> vr_download_count w \<le> vr_download_count x
         \<and> (vr_status w \<noteq> ''active'' \<longrightarrow> vr_status x \<noteq> ''active'')" using bc w(1) by blast
      then show ?thesis using w(2) by (intro bexI[of _ x]) auto
    qed
  qed
qed

text \<open>The tables of a state that has the stages and versions of an earlier one.\<close>

lemma later_same:
  assumes "packages s' = packages s" "stages s' = stages s" "versions s' = versions s" "registry_events s' = registry_events s @ es" "seen \<subseteq> seen'"
  shows "registry_later (s, seen) (s', seen')"
  using assms by (intro later_tables stage_kept) auto

lemma later_decided:
  assumes "registry_good (s, seen)" "g \<in> set (stages s)" "sr_id g = i" "sr_status g = ''staged''" "status \<noteq> ''staged''"
    and "stages s' = stages (set_stage_status i status reason s)" "packages s' = packages s" "set (versions s) \<subseteq> set (versions s')"
    and "registry_events s' = registry_events s"
  shows "registry_later (s, seen) (s', seen)"
proof (rule later_tables)
  note d = decided_stages[OF assms(1-5), where reason = reason]
  show "\<exists>g'\<in>set (stages s'). same_stage (stage_record.truncate h) g' \<and> (sr_status h \<noteq> ''staged'' \<longrightarrow> g' = h)" if h: "h \<in> set (stages s)" for h
  proof (cases "sr_status h = ''staged''")
    case True
    have "(if sr_id h = i then h\<lparr>sr_status := status, sr_decision_reason := reason\<rparr> else h) \<in> set (stages s')"
      using h unfolding assms(6) set_status_stage by blast
    then show ?thesis using True by (intro bexI) (auto simp: same_stage_def)
  next
    case False
    then have "h \<in> set (stages s')" using d(2) h assms(6) by simp
    then show ?thesis using same_stage_truncate by blast
  qed
  show "registry_events s' = registry_events s @ []" using assms(9) by simp
qed (use assms(7,8) in auto)

lemma later_versions:
  assumes "packages s' = packages s" "stages s' = stages s" "versions s' = map f (versions s)" "registry_events s' = registry_events s"
    and "\<And>v. v \<in> set (versions s) \<Longrightarrow> vr_name (f v) = vr_name v \<and> vr_version (f v) = vr_version v \<and> vr_release (f v) = vr_release v
      \<and> vr_published_at (f v) = vr_published_at v \<and> vr_download_count v \<le> vr_download_count (f v) \<and> (vr_status v \<noteq> ''active'' \<longrightarrow> vr_status (f v) \<noteq> ''active'')"
  shows "registry_later (s, seen) (s', seen)"
proof (rule later_tables)
  show "\<exists>v'\<in>set (versions s'). vr_name v' = vr_name v \<and> vr_version v' = vr_version v
         \<and> vr_release v' = vr_release v \<and> vr_published_at v' = vr_published_at v \<and> vr_download_count v \<le> vr_download_count v'
         \<and> (vr_status v \<noteq> ''active'' \<longrightarrow> vr_status v' \<noteq> ''active'')" if v: "v \<in> set (versions s)" for v
    using assms(5)[OF v] v by (intro bexI[of _ "f v"]) (simp_all add: assms(3))
  show "registry_events s' = registry_events s @ []" using assms(4) by simp
qed (use assms(1,2) stage_kept in auto)

lemma later_step:
  assumes "registry_good a" "registry_step env parse a b"
  shows "registry_later a b"
proof -
  have good: "registry_good (fst a, snd a)" using assms(1) by simp
  have b: "registry_later a b" if "registry_later (fst a, snd a) (fst b, snd a)" "snd b = snd a" using that by (metis prod.collapse)
  show ?thesis
    using assms(2)
  proof (cases rule: step_kinds)
    case quiet
    then show ?thesis using later_same[of "fst b" "fst a" "[]" "snd a" "snd a"] b by (simp add: catalog_def)
  next
    case (append now k e)
    have "\<exists>es. registry_events (fst b) = registry_events (fst a) @ es" using append(1) by (auto elim!: append_event_cases)
    then show ?thesis using later_same[of "fst b" "fst a" _ "snd a" "snd a"] append_event_catalog[OF append(1)] append(2) b by (auto simp: catalog_def)
  next
    case (read i stage)
    then show ?thesis using later_same[of "fst a" "fst a" "[]" "snd a" "insert stage (snd a)"] by auto
  next
    case (create now stage k e m r)
    from create(2) have "registry_later (fst a, snd a) (fst b, snd a)"
    proof (cases rule: create_stage_cases)
      case refused then show ?thesis using later_refl by simp
    next
      case (staged p)
      show ?thesis using staged by (intro later_tables[where es = "[]"] stage_kept) auto
    qed
    then show ?thesis using b create(3) by blast
  next
    case (decide now stage approve reason k e r)
    from decide(3) have "registry_later (fst a, snd a) (fst b, snd a)"
    proof (cases rule: decide_stage_cases)
      case undecided then show ?thesis using later_refl by simp
    next
      case (rejected g)
      then show ?thesis by (intro later_decided[OF good rejected(3-5), where status = "''rejected''" and reason = reason]) (simp_all add: catalog_def)
    next
      case (approved g s1)
      note p = publish_stage_Inr[OF approved(6)]
      show ?thesis using approved(7,8) p by (intro later_decided[OF good approved(3-5), where status = "''approved''" and reason = reason]) (auto simp: catalog_def)
    qed
    then show ?thesis using b decide(4) by blast
  next
    case (revoke now t k e r)
    from revoke(2) have "registry_later (fst a, snd a) (fst b, snd a)"
    proof (cases rule: revoke_version_cases)
      case unknown then show ?thesis using later_refl by simp
    next
      case (revoked v)
      then show ?thesis using revoke(1) by (intro later_versions[OF _ _ revoked(8)[unfolded update_rows_def]]) auto
    qed
    then show ?thesis using b revoke(3) by blast
  next
    case (download name version)
    then show ?thesis using b
      by (intro b later_versions[where f = "\<lambda>r. if (vr_name r, vr_version r) = (name, version) then r\<lparr>vr_download_count := vr_download_count r + 1\<rparr> else r"])
        (auto simp: record_download_def update_rows_def)
  qed
qed

lemma good_start: "registry_good (empty_control, {})"
  by (simp add: registry_good_def empty_control_def keys_ok_def owned_def reviewed_def tags_active_def tombstones_ok_def)

interpretation registry: guarded_system "registry_step env parse" "(empty_control, {})" registry_good registry_later
  by unfold_locales (rule good_start, erule (1) good_step, rule later_refl, erule (1) later_trans, erule (1) later_step)

section \<open>The log and the outbox\<close>

definition log_good :: "'k registry_env \<Rightarrow> control \<times> stage_record set \<Rightarrow> bool" where
  "log_good env sys \<longleftrightarrow> log_valid env (fst sys) \<and> distinct (map ob_event_key (registry_outbox (fst sys)))
     \<and> (\<forall>r\<in>set (registry_outbox (fst sys)). ob_delivered_at r \<noteq> None \<longrightarrow> ob_event_key r \<in> ev_key ` set (registry_events (fst sys)))"

text \<open>Events are only added to the log, and a queued event stays queued with its key and its content.\<close>

definition log_later :: "control \<times> stage_record set \<Rightarrow> control \<times> stage_record set \<Rightarrow> bool" where
  "log_later a b \<longleftrightarrow> (\<exists>es. registry_events (fst b) = registry_events (fst a) @ es)
     \<and> (\<forall>r\<in>set (registry_outbox (fst a)). \<exists>r'\<in>set (registry_outbox (fst b)). ob_event_key r' = ob_event_key r \<and> ob_event r' = ob_event r)"

lemma log_later_same: "registry_events (fst b) = registry_events (fst a) \<Longrightarrow> set (registry_outbox (fst a)) \<subseteq> set (registry_outbox (fst b)) \<Longrightarrow> log_later a b"
  unfolding log_later_def by auto

lemma log_later_update:
  assumes "registry_events (fst b) = registry_events (fst a)" "registry_outbox (fst b) = update_rows P f (registry_outbox (fst a))"
    and f: "\<And>r. ob_event_key (f r) = ob_event_key r \<and> ob_event (f r) = ob_event r"
  shows "log_later a b"
  unfolding log_later_def
proof (intro conjI ballI)
  show "\<exists>es. registry_events (fst b) = registry_events (fst a) @ es" using assms(1) by simp
  show "\<exists>r'\<in>set (registry_outbox (fst b)). ob_event_key r' = ob_event_key r \<and> ob_event r' = ob_event r" if "r \<in> set (registry_outbox (fst a))" for r
    using that f unfolding assms(2) set_update_rows by (intro bexI[of _ "if P r then f r else r"]) auto
qed

lemma log_later_trans: "log_later a b \<Longrightarrow> log_later b c \<Longrightarrow> log_later a c"
  unfolding log_later_def by (metis append_assoc)

lemma enqueue_event_row: "enqueue_event now k e s = Inr s' \<Longrightarrow>
    \<exists>r. registry_outbox s' = registry_outbox s @ [r] \<and> ob_event_key r = k \<and> ob_event r = e \<and> k \<notin> ob_event_key ` set (registry_outbox s) \<and> ob_delivered_at r = None"
  by (auto simp: enqueue_event_def bind_result_Inr_iff insert_row_Inr)

text \<open>What a step does to the log and the outbox.\<close>

lemma log_step_kinds:
  assumes "registry_step env parse a b"
  obtains (same) "registry_events (fst b) = registry_events (fst a)" "registry_outbox (fst b) = registry_outbox (fst a)"
  | (append) now k e where "append_event_keyed env now k e (fst a) = Inr (fst b)"
  | (queued) r where "registry_events (fst b) = registry_events (fst a)" "registry_outbox (fst b) = registry_outbox (fst a) @ [r]"
      "ob_event_key r \<notin> ob_event_key ` set (registry_outbox (fst a))" "ob_delivered_at r = None"
  | (delivered) now i where "\<forall>r\<in>set (registry_outbox (fst a)). ob_id r = i \<longrightarrow> ob_event_key r \<in> ev_key ` set (registry_events (fst a))"
      "fst b = mark_outbox_delivered now i (fst a)"
  | (retried) now i where "fst b = retry_outbox now i (fst a)"
  using assms
proof cases
  have queue: thesis if "enqueue_event now k e s1 = Inr (fst b)" "registry_events s1 = registry_events (fst a)" "registry_outbox s1 = registry_outbox (fst a)" for now k e s1
    using enqueue_event_row[OF that(1)] enqueue_event_Inr[OF that(1)] that(2,3) queued by metis
  {
    case (step_create stage now event_key event m s r s' seen)
    show thesis
    proof (cases r)
      case True
      then show thesis using step_create queue same
        by (fastforce simp: create_stage_def bind_result_Inr_iff insert_stage_def claim_package_def split: if_splits option.splits)
    next
      case False
      then show thesis using step_create same by (auto simp: create_stage_def bind_result_Inr_iff split: if_splits)
    qed
  next
    case (step_decide stage seen approve now reason event_key event s r s')
    show thesis
    proof (cases r)
      case True
      then show thesis using step_decide queue
        by (fastforce simp: decide_stage_def bind_result_Inr_iff publish_stage_def set_stage_status_def split: if_splits)
    next
      case False
      then show thesis using step_decide same by (auto simp: decide_stage_def bind_result_Inr_iff split: if_splits)
    qed
  next
    case (step_revoke t now event_key event s r s' seen)
    show thesis
    proof (cases r)
      case True
      then show thesis using step_revoke queue by (fastforce simp: revoke_version_def Let_def bind_result_Inr_iff set_version_status_def split: if_splits)
    next
      case False
      then show thesis using step_revoke same by (auto simp: revoke_version_def Let_def bind_result_Inr_iff split: if_splits)
    qed
  next
    case (step_delivered s i seen now) then show thesis using delivered by simp
  next
    case (step_retry s seen now i) then show thesis using retried by simp
  next
    case (step_append now event_key event s s' seen) then show thesis using append by simp
  next
    case (step_read i s stage seen) then show thesis using same by simp
  next
    case (step_download s seen name version) then show thesis using same by (simp add: record_download_def)
  next
    case (step_bootstrap now organization hash role s u s' seen) then show thesis using same by (auto simp: bootstrap_token_def Let_def)
  next
    case (step_token hash organization role expires_at kind s u s' seen) then show thesis using same by (auto simp: insert_token_def bind_result_Inr_iff)
  next
    case (step_grant name owner_org principal_org role s u s' seen) then show thesis using same by (auto simp: grant_package_role_def Let_def bind_result_Inr_iff)
  next
    case (step_invite token_hash organization email role expires_at s u s' seen) then show thesis using same by (auto simp: create_invitation_def bind_result_Inr_iff)
  next
    case (step_uninvite now token_hash organization s r s' seen) then show thesis using same by (auto simp: revoke_invitation_def Let_def)
  next
    case (step_accept now token_hash subject email s r s' seen)
    then show thesis using same by (auto simp: accept_invitation_def Let_def split: option.splits if_splits)
  next
    case (step_limit now subject_hash bucket maximum window_seconds s r s' seen) then show thesis using same by (auto simp: consume_rate_limit_def Let_def)
  next
    case (step_prune cutoff s n s' seen) then show thesis using same by (auto simp: prune_rate_limits_before_def)
  next
    case (step_billing now event_id event_type payload s r s' seen) then show thesis using same by (auto simp: record_billing_event_def split: if_splits)
  }
qed

lemma log_good_step:
  assumes "log_good env a" "registry_step env parse a b" shows "log_good env b"
  using assms(2)
proof (cases rule: log_step_kinds)
  case same then show ?thesis using assms(1) by (simp add: log_good_def log_valid_def event_hashes_def)
next
  case (append now k e)
  then have "log_valid env (fst b)" using append_event_valid assms(1) by (auto simp: log_good_def)
  moreover have "registry_outbox (fst b) = registry_outbox (fst a)" "set (registry_events (fst a)) \<subseteq> set (registry_events (fst b))"
    using append by (auto elim!: append_event_cases)
  ultimately show ?thesis using assms(1) unfolding log_good_def by (metis image_mono subsetD)
next
  case (queued r) then show ?thesis using assms(1) by (auto simp: log_good_def log_valid_def event_hashes_def)
next
  case (delivered now i)
  then have "registry_events (fst b) = registry_events (fst a)" by (simp add: mark_outbox_delivered_def)
  then show ?thesis using assms(1) delivered
    by (auto simp: log_good_def log_valid_def event_hashes_def mark_outbox_delivered_def map_update_rows set_update_rows split: if_splits)
next
  case (retried now i)
  then show ?thesis using assms(1)
    by (auto simp: log_good_def log_valid_def event_hashes_def retry_outbox_def map_update_rows set_update_rows split: if_splits)
qed

lemma log_later_step: "registry_step env parse a b \<Longrightarrow> log_later a b"
proof (erule log_step_kinds)
  show "registry_events (fst b) = registry_events (fst a) \<Longrightarrow> registry_outbox (fst b) = registry_outbox (fst a) \<Longrightarrow> log_later a b"
    by (simp add: log_later_same)
  show "append_event_keyed env now k e (fst a) = Inr (fst b) \<Longrightarrow> log_later a b" for now k e
    by (erule append_event_cases) (auto simp: log_later_def)
  show "registry_events (fst b) = registry_events (fst a) \<Longrightarrow> registry_outbox (fst b) = registry_outbox (fst a) @ [r] \<Longrightarrow> log_later a b" for r
    by (rule log_later_same) auto
  show "fst b = mark_outbox_delivered now i (fst a) \<Longrightarrow> log_later a b" for now i
    by (rule log_later_update[where P = "\<lambda>r. ob_id r = i" and f = "\<lambda>r. r\<lparr>ob_delivered_at := Some now\<rparr>"]) (simp_all add: mark_outbox_delivered_def)
  show "fst b = retry_outbox now i (fst a) \<Longrightarrow> log_later a b" for now i
    by (rule log_later_update[where P = "\<lambda>r. ob_id r = i" and f = "\<lambda>r. r\<lparr>ob_attempts := ob_attempts r + 1, ob_available_at := now + 5\<rparr>"])
      (simp_all add: retry_outbox_def)
qed

lemma log_good_start: "log_good env (empty_control, {})"
  by (simp add: log_good_def log_valid_def event_hashes_def empty_control_def)

interpretation event_log: guarded_system "registry_step env parse" "(empty_control, {})" "log_good env" log_later
  by unfold_locales (rule log_good_start, erule (1) log_good_step, simp add: log_later_same, erule (1) log_later_trans, rule log_later_step)

end
