(* ===== verification/Registry_Safety.thy ===== *)
theory Registry_Safety
  imports Registry_Invariant
begin

text \<open>
  The registry's promises, over every interleaving of the transactions of its requests: a published release never changes, only reviewed
  releases are published, tags lead to installable versions unless revocations of one package overlap, and the event log only grows.
\<close>

section \<open>Looking rows up\<close>

lemma version_record_iff: "keys_ok s \<Longrightarrow> version_record name version s = Some v \<longleftrightarrow> v \<in> set (versions s) \<and> vr_name v = name \<and> vr_version v = version"
proof -
  assume "keys_ok s"
  then have "distinct (map (\<lambda>v. (vr_name v, vr_version v)) (versions s))" by (simp add: keys_ok_def)
  note row_at_distinct[OF this]
  then show ?thesis unfolding version_record_def using row_at_Some[of "\<lambda>v. (vr_name v, vr_version v)" "(name, version)" "versions s" v] by auto
qed

lemma package_record_iff: "keys_ok s \<Longrightarrow> package_record name s = Some p \<longleftrightarrow> p \<in> set (packages s) \<and> pk_name p = name"
proof -
  assume "keys_ok s"
  then have "distinct (map pk_name (packages s))" by (simp add: keys_ok_def)
  note row_at_distinct[OF this]
  then show ?thesis unfolding package_record_def using row_at_Some[of pk_name name "packages s" p] by auto
qed

lemma tombstone_record_iff: "keys_ok s \<Longrightarrow> tombstone_record name version s = Some t \<longleftrightarrow> t \<in> set (tombstones s) \<and> tb_name t = name \<and> tb_version t = version"
proof -
  assume "keys_ok s"
  then have "distinct (map (\<lambda>t. (tb_name t, tb_version t)) (tombstones s))" by (simp add: keys_ok_def)
  note row_at_distinct[OF this]
  then show ?thesis unfolding tombstone_record_def using row_at_Some[of "\<lambda>t. (tb_name t, tb_version t)" "(name, version)" "tombstones s" t] by auto
qed

lemma good_keys: "registry_good sys \<Longrightarrow> keys_ok (fst sys)"
  by (simp add: registry_good_def)

section \<open>A sample run\<close>

definition sample_env :: "unit registry_env" where
  "sample_env = \<lparr>rg_crypto = \<lparr>ed_public = (\<lambda>_. []), ed_sign = (\<lambda>_ m. m), ed_point = (\<lambda>_. True), ed_check = (\<lambda>_ _ _. True), b64_encode = id, b64_decode = Some\<rparr>,
     rg_signing_key = (), rg_sha256 = id, rg_quote = id\<rparr>"

definition sample_release :: release where
  "sample_release = \<lparr>rl_organization = ''acme'', rl_digest = ''d'', rl_private = False, rl_manifest = JNull, rl_publisher_assessment = JNull,
     rl_assessment = JNull, rl_server_evidence = JNull, rl_sbom = JNull, rl_provenance = JNull\<rparr>"

definition sample_stage :: stage_record where
  "sample_stage = \<lparr>sr_id = ''i'', sr_name = ''p'', sr_version = ''1'', sr_tag = ''latest'', sr_status = ''staged'', sr_release = sample_release, sr_created_at = 0\<rparr>"

definition sample_version :: "string \<Rightarrow> version_row" where
  "sample_version status = \<lparr>vr_name = ''p'', vr_version = ''1'', vr_status = status, vr_release = sample_release, vr_published_at = 0, vr_download_count = 0\<rparr>"

definition sample_tombstone :: tombstone_row where
  "sample_tombstone = \<lparr>tb_name = ''p'', tb_version = ''1'', tb_status = ''revoked'', tb_reason = [], tb_actor_org = ''acme'', tb_created_at = 0, tb_signature = [],
     tb_public_key = []\<rparr>"

definition sample_row :: "nat \<Rightarrow> string \<Rightarrow> outbox_row" where
  "sample_row i k = \<lparr>ob_id = i, ob_event_key = k, ob_event = JNull, ob_attempts = 0, ob_available_at = 0, ob_created_at = 0, ob_delivered_at = None\<rparr>"

definition sample_staged :: control where
  "sample_staged = empty_control\<lparr>organizations := [(''acme'', 0)],
     tokens := [\<lparr>tk_hash = ''h'', tk_organization = ''acme'', tk_role = ''admin'', tk_expires_at = None, tk_kind = ''bootstrap''\<rparr>],
     packages := [\<lparr>pk_name = ''p'', pk_organization = ''acme'', pk_private = False, pk_created_at = 0\<rparr>],
     stages := [stage_record.extend sample_stage \<lparr>sr_decision_reason = None\<rparr>], registry_outbox := [sample_row 1 ''a''], outbox_serial := 2\<rparr>"

definition sample_published :: control where
  "sample_published = sample_staged\<lparr>stages := [stage_record.extend (sample_stage\<lparr>sr_status := ''approved''\<rparr>) \<lparr>sr_decision_reason = None\<rparr>],
     versions := [sample_version ''active''], dist_tags := [\<lparr>dt_name = ''p'', dt_tag = ''latest'', dt_version = ''1''\<rparr>],
     registry_outbox := [sample_row 1 ''a'', sample_row 2 ''b''], outbox_serial := 3\<rparr>"

definition sample_revoked :: control where
  "sample_revoked = sample_published\<lparr>versions := [sample_version ''revoked''], dist_tags := [], tombstones := [sample_tombstone],
     registry_outbox := [sample_row 1 ''a'', sample_row 2 ''b'', sample_row 3 ''c''], outbox_serial := 4\<rparr>"

lemmas sample_tables = sample_staged_def sample_published_def sample_revoked_def empty_control_def sample_stage_def sample_release_def sample_version_def sample_tombstone_def
  sample_row_def stage_record.defs row_at_def insert_row_def update_rows_def upsert_row_def has_organization_def

abbreviation sample_parse :: "string \<Rightarrow> nat option" where "sample_parse \<equiv> \<lambda>v. Some (length v)"

lemma sample_run_staged: "(registry_step sample_env sample_parse)\<^sup>*\<^sup>* (empty_control, {}) (sample_staged, {sample_stage})"
proof -
  let ?s1 = "empty_control\<lparr>organizations := [(''acme'', 0)],
     tokens := [\<lparr>tk_hash = ''h'', tk_organization = ''acme'', tk_role = ''admin'', tk_expires_at = None, tk_kind = ''bootstrap''\<rparr>]\<rparr>"
  have "bootstrap_token 0 ''acme'' ''h'' ''admin'' empty_control = Inr ((), ?s1)"
    by (simp add: bootstrap_token_def sample_tables)
  moreover have "create_stage 0 sample_stage ''a'' JNull 100 ?s1 = Inr (True, sample_staged)"
    by (simp add: create_stage_def pending_stages_def claim_package_def package_record_def insert_stage_def enqueue_event_def sample_tables)
  moreover have "read_stage ''i'' sample_staged = Some sample_stage"
    by (simp add: read_stage_def sample_tables)
  moreover have "sr_status sample_stage = ''staged''" by (simp add: sample_stage_def)
  ultimately show ?thesis
    by (meson rtranclp.rtrancl_into_rtrancl rtranclp.rtrancl_refl step_bootstrap step_create step_read)
qed

lemma sample_run_published: "(registry_step sample_env sample_parse)\<^sup>*\<^sup>* (empty_control, {}) (sample_published, {sample_stage})"
proof -
  have "decide_stage 0 sample_stage True None ''b'' JNull sample_staged = Inr (True, sample_published)"
    by (simp add: decide_stage_def publish_stage_def set_stage_status_def enqueue_event_def sample_tables)
  moreover have "\<not> denied (sr_release sample_stage)" by (simp add: denied_def sample_stage_def sample_release_def json_get_def)
  ultimately have "registry_step sample_env sample_parse (sample_staged, {sample_stage}) (sample_published, {sample_stage})"
    by (intro step_decide) auto
  with sample_run_staged show ?thesis by (rule rtranclp.rtrancl_into_rtrancl)
qed

lemma sample_run_revoked: "(registry_step sample_env sample_parse)\<^sup>*\<^sup>* (sample_published, {sample_stage}) (sample_revoked, {sample_stage})"
proof -
  have "revoke_version sample_parse 0 sample_tombstone ''c'' JNull sample_published = Inr (True, sample_revoked)"
    by (simp add: revoke_version_def version_record_def set_version_status_def Let_def rollback_version_def active_versions_def map_filter_simps
      max_by_version_def move_tags_def enqueue_event_def sample_tables)
  then have "registry_step sample_env sample_parse (sample_published, {sample_stage}) (sample_revoked, {sample_stage})"
    by (intro step_revoke) (auto simp: sample_tombstone_def)
  then show ?thesis by (rule r_into_rtranclp)
qed

section \<open>Published releases\<close>

text \<open>
  C3: A published release never changes. Whatever requests the registry serves in whatever interleaving, once a name and version is published it
  stays published with the same owner, digest, manifest, assessments and time of publication; its package keeps its owner and visibility; the downloads only grow,
  and a version that was revoked or quarantined is never active again.
\<close>

theorem releases_immutable:
  assumes "(registry_step env parse)\<^sup>*\<^sup>* (empty_control, {}) (s, seen)" "(registry_step env parse)\<^sup>*\<^sup>* (s, seen) (s', seen')"
    and "version_record name version s = Some v" "package_record name s = Some p"
  shows "\<exists>v'. version_record name version s' = Some v' \<and> vr_release v' = vr_release v \<and> vr_published_at v' = vr_published_at v
    \<and> vr_download_count v \<le> vr_download_count v' \<and> (vr_status v \<noteq> ''active'' \<longrightarrow> vr_status v' \<noteq> ''active'')
    \<and> package_record name s' = Some p"
proof -
  have good: "registry_good (s, seen)" by (rule registry.reachable_good[OF assms(1)])
  have good': "registry_good (s', seen')" by (rule registry.run_good[OF assms(2) good])
  have later: "registry_later (s, seen) (s', seen')" by (rule registry.run_later[OF assms(2) good])
  have v: "v \<in> set (versions s)" "vr_name v = name" "vr_version v = version" using assms(3) version_record_iff good_keys[OF good] by auto
  have p: "p \<in> set (packages s)" "pk_name p = name" using assms(4) package_record_iff good_keys[OF good] by auto
  obtain v' where v': "v' \<in> set (versions s')" "vr_name v' = vr_name v \<and> vr_version v' = vr_version v \<and> vr_release v' = vr_release v
      \<and> vr_published_at v' = vr_published_at v \<and> vr_download_count v \<le> vr_download_count v' \<and> (vr_status v \<noteq> ''active'' \<longrightarrow> vr_status v' \<noteq> ''active'')"
    using later v(1) unfolding registry_later_def fst_conv by blast
  have "p \<in> set (packages s')" using later p(1) unfolding registry_later_def fst_conv by blast
  then have "version_record name version s' = Some v'" "package_record name s' = Some p"
    using v' v(2,3) p(2) version_record_iff[OF good_keys[OF good', unfolded fst_conv]] package_record_iff[OF good_keys[OF good', unfolded fst_conv]] by simp_all
  then show ?thesis using v'(2) by simp
qed

theorem releases_immutable_witness:
  "\<exists>v'. version_record ''p'' ''1'' sample_revoked = Some v' \<and> vr_release v' = sample_release"
proof -
  have "version_record ''p'' ''1'' sample_published = Some (sample_version ''active'')" by (simp add: version_record_def sample_tables)
  moreover have "package_record ''p'' sample_published = Some \<lparr>pk_name = ''p'', pk_organization = ''acme'', pk_private = False, pk_created_at = 0\<rparr>"
    by (simp add: package_record_def sample_tables)
  moreover have "vr_release (sample_version ''active'') = sample_release" by (simp add: sample_version_def)
  ultimately show ?thesis using releases_immutable[OF sample_run_published sample_run_revoked] by metis
qed

text \<open>
  C4: Only reviewed releases are published. In every reachable state, a published version is exactly what one approved stage had under its name and version: same
  owner, digest, manifest and assessments; the server's assessment of it is not a denial; the package belongs to the organization that staged it, with its
  visibility; and every approved stage is published.
\<close>

theorem published_reviewed:
  assumes "(registry_step env parse)\<^sup>*\<^sup>* (empty_control, {}) (s, seen)"
  shows "(\<forall>v\<in>set (versions s). \<not> denied (vr_release v)
      \<and> (\<exists>!g. g \<in> set (stages s) \<and> sr_name g = vr_name v \<and> sr_version g = vr_version v \<and> sr_status g = ''approved'' \<and> sr_release g = vr_release v)
      \<and> (\<exists>p. package_record (vr_name v) s = Some p \<and> pk_organization p = rl_organization (vr_release v) \<and> pk_private p = rl_private (vr_release v)))
    \<and> (\<forall>g\<in>set (stages s). sr_status g = ''approved'' \<longrightarrow>
         (\<exists>v. version_record (sr_name g) (sr_version g) s = Some v \<and> vr_release v = sr_release g))"
proof -
  have good: "registry_good (s, seen)" by (rule registry.reachable_good[OF assms])
  note gp = good_parts[OF good] and keys = good_keys[OF good, unfolded fst_conv]
  have "\<not> denied (vr_release v)
      \<and> (\<exists>!g. g \<in> set (stages s) \<and> sr_name g = vr_name v \<and> sr_version g = vr_version v \<and> sr_status g = ''approved'' \<and> sr_release g = vr_release v)
      \<and> (\<exists>p. package_record (vr_name v) s = Some p \<and> pk_organization p = rl_organization (vr_release v) \<and> pk_private p = rl_private (vr_release v))"
    if v: "v \<in> set (versions s)" for v
  proof -
    obtain g where g: "g \<in> set (stages s)" "published_of v g" and d: "\<not> denied (vr_release v)" using gp(8) v unfolding reviewed_def by blast
    have only: "h = g" if "h \<in> set (stages s)" "sr_name h = vr_name v" "sr_version h = vr_version v" for h
      using key_unique[OF gp(3) that(1) g(1)] that(2,3) g(2) by (simp add: published_of_def)
    obtain p where p: "p \<in> set (packages s)" "pk_name p = sr_name g" "pk_organization p = rl_organization (sr_release g)" "pk_private p = rl_private (sr_release g)"
      using gp(7) g(1) unfolding owned_def by blast
    have same: "sr_name g = vr_name v" "sr_version g = vr_version v" "sr_release g = vr_release v" "sr_status g = ''approved''"
      using g(2) by (simp_all add: published_of_def)
    have "package_record (vr_name v) s = Some p" using package_record_iff[OF keys] p(1,2) same(1) by simp
    moreover have "\<exists>!g. g \<in> set (stages s) \<and> sr_name g = vr_name v \<and> sr_version g = vr_version v \<and> sr_status g = ''approved'' \<and> sr_release g = vr_release v"
    proof (rule ex1I[of _ g])
      show "g \<in> set (stages s) \<and> sr_name g = vr_name v \<and> sr_version g = vr_version v \<and> sr_status g = ''approved'' \<and> sr_release g = vr_release v"
        using g(1) same by (intro conjI)
    qed (elim conjE, rule only)
    ultimately show ?thesis using d p(3,4) same(3) by simp
  qed
  moreover have "\<exists>v. version_record (sr_name g) (sr_version g) s = Some v \<and> vr_release v = sr_release g"
    if "g \<in> set (stages s)" "sr_status g = ''approved''" for g
  proof -
    from that gp(8) obtain v where "v \<in> set (versions s)" "published_of v g" unfolding reviewed_def by blast
    then show ?thesis using version_record_iff[OF keys, of "sr_name g" "sr_version g" v] by (simp add: published_of_def)
  qed
  ultimately show ?thesis by blast
qed

theorem published_reviewed_witness: "\<not> denied (vr_release (sample_version ''active''))"
proof -
  have "sample_version ''active'' \<in> set (versions sample_published)" by (simp add: sample_published_def)
  then show ?thesis using published_reviewed[OF sample_run_published] by blast
qed

text \<open>
  C9: Tags lead to installable versions as long as no two revocations of one package overlap. The steps are whole transactions, one after another; then in every reachable state
  every distribution tag of a package names a version that is published and active, each tag once, and a version
  that is not active has a tombstone with its status. Revocations of two versions of one package that run at the same time are excluded:
  the code takes no lock against them, and \<open>overlapping_revocations_dangle\<close> shows that they can leave a tag on a revoked version.
\<close>

theorem tags_lead_to_active:
  assumes "(registry_step env parse)\<^sup>*\<^sup>* (empty_control, {}) (s, seen)"
  shows "(\<forall>(tag, version)\<in>set (package_tags name s). \<exists>v. version_record name version s = Some v \<and> vr_status v = ''active'')
    \<and> distinct (map fst (package_tags name s))
    \<and> (\<forall>version v. version_record name version s = Some v \<and> vr_status v \<noteq> ''active'' \<longrightarrow>
         (\<exists>t. tombstone_record name version s = Some t \<and> tb_status t = vr_status v))"
proof -
  have good: "registry_good (s, seen)" by (rule registry.reachable_good[OF assms])
  note gp = good_parts[OF good] and keys = good_keys[OF good, unfolded fst_conv]
  have "\<exists>v. version_record name version s = Some v \<and> vr_status v = ''active''" if "(tag, version) \<in> set (package_tags name s)" for tag version
  proof -
    from that obtain d where "d \<in> set (dist_tags s)" "dt_name d = name" "dt_version d = version" by (auto simp: package_tags_def)
    moreover from this gp(9) obtain v where "v \<in> set (versions s)" "vr_name v = dt_name d" "vr_version v = dt_version d" "vr_status v = ''active''"
      unfolding tags_active_def by blast
    ultimately show ?thesis using version_record_iff[OF keys, of name version v] by simp
  qed
  moreover have "distinct (map (\<lambda>t. (dt_name t, dt_tag t)) rows) \<Longrightarrow> distinct (map dt_tag (filter (\<lambda>r. dt_name r = name) rows))" for rows
    by (induction rows) (auto simp: image_iff)
  from this[OF gp(5)] have "distinct (map dt_tag (filter (\<lambda>r. dt_name r = name) (dist_tags s)))" .
  then have "distinct (map fst (package_tags name s))" by (simp add: package_tags_def comp_def)
  moreover have "\<exists>t. tombstone_record name version s = Some t \<and> tb_status t = vr_status v"
    if "version_record name version s = Some v" "vr_status v \<noteq> ''active''" for version v
  proof -
    have v: "v \<in> set (versions s)" "vr_name v = name" "vr_version v = version" using version_record_iff[OF keys, of name version v] that(1) by simp_all
    with that(2) gp(10) obtain t where "t \<in> set (tombstones s)" "tb_name t = vr_name v" "tb_version t = vr_version v" "tb_status t = vr_status v"
      unfolding tombstones_ok_def by blast
    then show ?thesis using v(2,3) tombstone_record_iff[OF keys, of name version t] by simp
  qed
  ultimately show ?thesis by blast
qed

theorem tags_lead_to_active_witness:
  "\<exists>v. version_record ''p'' ''1'' sample_published = Some v \<and> vr_status v = ''active''"
proof -
  have "(''latest'', ''1'') \<in> set (package_tags ''p'' sample_published)" by (simp add: package_tags_def sample_published_def)
  then show ?thesis using tags_lead_to_active[OF sample_run_published, of "''p''"] by blast
qed

section \<open>Overlapping revocations\<close>

text \<open>
  A revocation is several statements, and the database runs it at the level READ COMMITTED: each statement sees what was committed before it and what its own transaction has
  done. The first statements mark the version; a query reads the active versions; the last ones move the tags to the best of them.
\<close>

definition mark_revoked :: "tombstone_row \<Rightarrow> control \<Rightarrow> control" where
  "mark_revoked t s =
     (let s1 = set_version_status (tb_name t) (tb_version t) (tb_status t) s
      in s1\<lparr>tombstones := upsert_row (\<lambda>r. (tb_name r, tb_version r)) (\<lambda>_. t) t (tombstones s1)\<rparr>)"

definition retarget_tags :: "(string \<Rightarrow> 'v::linorder option) \<Rightarrow> tombstone_row \<Rightarrow> string list \<Rightarrow> control \<Rightarrow> control" where
  "retarget_tags parse t active s =
     s\<lparr>dist_tags := move_tags (tb_name t) (tb_version t) (rollback_version parse active) (dist_tags s)\<rparr>"

lemma revoke_version_statements:
  "revoke_version parse now t event_key event s =
     (if version_record (tb_name t) (tb_version t) s = None then Inr (False, s)
      else let s1 = mark_revoked t s
           in bind_result (enqueue_event now event_key event (retarget_tags parse t (active_versions (tb_name t) s1) s1)) (\<lambda>s3. Inr (True, s3)))"
  by (simp add: revoke_version_def mark_revoked_def retarget_tags_def active_versions_def set_version_status_def Let_def)

text \<open>
  Two revocations that both read before either commits: each sees only its own version marked. Here the tags of \<open>t\<close> move first.
\<close>

definition overlapping_revocations :: "(string \<Rightarrow> 'v::linorder option) \<Rightarrow> tombstone_row \<Rightarrow> tombstone_row \<Rightarrow> control \<Rightarrow> control" where
  "overlapping_revocations parse t u s =
     retarget_tags parse u (active_versions (tb_name u) (mark_revoked u s))
       (retarget_tags parse t (active_versions (tb_name t) (mark_revoked t s)) (mark_revoked u (mark_revoked t s)))"

definition sample_two :: control where
  "sample_two = sample_published\<lparr>versions := [sample_version ''active'', (sample_version ''active'')\<lparr>vr_version := ''22''\<rparr>],
     dist_tags := [\<lparr>dt_name = ''p'', dt_tag = ''latest'', dt_version = ''22''\<rparr>]\<rparr>"

lemma overlapping_revocations_dangle:
  "package_tags ''p'' (overlapping_revocations sample_parse (sample_tombstone\<lparr>tb_version := ''22''\<rparr>) sample_tombstone sample_two) = [(''latest'', ''22'')]"
  "package_tags ''p'' (overlapping_revocations sample_parse sample_tombstone (sample_tombstone\<lparr>tb_version := ''22''\<rparr>) sample_two) = [(''latest'', ''1'')]"
  "active_versions ''p'' (overlapping_revocations sample_parse (sample_tombstone\<lparr>tb_version := ''22''\<rparr>) sample_tombstone sample_two) = []"
  "active_versions ''p'' (overlapping_revocations sample_parse sample_tombstone (sample_tombstone\<lparr>tb_version := ''22''\<rparr>) sample_two) = []"
  by code_simp+

section \<open>Revocation\<close>

text \<open>
  C14: A revocation rolls its tags back to the best version that is left. The version gets the given status and a tombstone; every tag that named it names the highest
  active version with a valid number after it, and is gone when there is none; every other tag and version is as it was.
\<close>

theorem revocation_rolls_back:
  assumes "revoke_version parse now t event_key event s = Inr (True, s')" "tb_status t \<noteq> ''active''"
  shows "(\<forall>name version. version_record name version s' =
        map_option (\<lambda>v. if (name, version) = (tb_name t, tb_version t) then v\<lparr>vr_status := tb_status t\<rparr> else v) (version_record name version s))
    \<and> tombstone_record (tb_name t) (tb_version t) s' = Some t
    \<and> (\<forall>name. name \<noteq> tb_name t \<longrightarrow> package_tags name s' = package_tags name s)
    \<and> (case rollback_version parse (active_versions (tb_name t) s') of
         None \<Rightarrow> package_tags (tb_name t) s' = filter (\<lambda>(tag, version). version \<noteq> tb_version t) (package_tags (tb_name t) s)
           \<and> (\<forall>w\<in>set (active_versions (tb_name t) s'). parse w = None)
       | Some best \<Rightarrow> package_tags (tb_name t) s' = map (\<lambda>(tag, version). (tag, if version = tb_version t then best else version)) (package_tags (tb_name t) s)
           \<and> best \<in> set (active_versions (tb_name t) s') \<and> best \<noteq> tb_version t
           \<and> (\<forall>w\<in>set (active_versions (tb_name t) s'). \<forall>p q. parse w = Some q \<and> parse best = Some p \<longrightarrow> q \<le> p))"
  using assms(1)
proof (cases rule: revoke_version_cases)
  case (revoked v)
  have active: "active_versions (tb_name t) (set_version_status (tb_name t) (tb_version t) (tb_status t) s) = active_versions (tb_name t) s'"
    by (simp add: active_versions_def set_version_status_def revoked(8))
  have key: "dt_name r = tb_name t \<and> dt_version r = tb_version t \<longleftrightarrow> (dt_name r, dt_version r) = (tb_name t, tb_version t)" for r by simp
  have vs: "version_record name version s' =
      map_option (\<lambda>v. if (name, version) = (tb_name t, tb_version t) then v\<lparr>vr_status := tb_status t\<rparr> else v) (version_record name version s)" for name version
    unfolding version_record_def revoked(8)
    by (subst row_at_update, simp) (cases "row_at (\<lambda>v. (vr_name v, vr_version v)) (name, version) (versions s)", auto dest!: row_at_Some)
  have tomb: "tombstone_record (tb_name t) (tb_version t) s' = Some t"
    unfolding tombstone_record_def revoked(9) by (subst row_at_upsert) (auto split: option.split)
  have others: "package_tags name s' = package_tags name s" if "name \<noteq> tb_name t" for name
  proof -
    have "filter (\<lambda>r. dt_name r = name) (move_tags (tb_name t) (tb_version t) target rows) = filter (\<lambda>r. dt_name r = name) rows" for target rows
      using that by (induction rows) (auto simp: move_tags_def update_rows_def split: option.splits)
    then show ?thesis by (simp add: package_tags_def revoked(10))
  qed
  have none: "package_tags (tb_name t) s' = filter (\<lambda>(tag, version). version \<noteq> tb_version t) (package_tags (tb_name t) s)"
    if "rollback_version parse (active_versions (tb_name t) s') = None"
  proof -
    have "map (\<lambda>r. (dt_tag r, dt_version r)) (filter (\<lambda>r. dt_name r = tb_name t) (move_tags (tb_name t) (tb_version t) None rows)) =
        filter (\<lambda>(tag, version). version \<noteq> tb_version t) (map (\<lambda>r. (dt_tag r, dt_version r)) (filter (\<lambda>r. dt_name r = tb_name t) rows))" for rows
      by (induction rows) (auto simp: move_tags_def)
    then show ?thesis by (simp add: package_tags_def revoked(10) active that)
  qed
  have some: "package_tags (tb_name t) s' = map (\<lambda>(tag, version). (tag, if version = tb_version t then best else version)) (package_tags (tb_name t) s)"
    if "rollback_version parse (active_versions (tb_name t) s') = Some best" for best
  proof -
    have "map (\<lambda>r. (dt_tag r, dt_version r)) (filter (\<lambda>r. dt_name r = tb_name t) (move_tags (tb_name t) (tb_version t) (Some best) rows)) =
        map (\<lambda>(tag, version). (tag, if version = tb_version t then best else version)) (map (\<lambda>r. (dt_tag r, dt_version r)) (filter (\<lambda>r. dt_name r = tb_name t) rows))" for rows
      by (induction rows) (auto simp: move_tags_def update_rows_def)
    then show ?thesis by (simp add: package_tags_def revoked(10) active that)
  qed
  have inactive: "tb_version t \<notin> set (active_versions (tb_name t) s')"
    using assms(2) unfolding active_versions_def revoked(8) by (auto simp: set_update_rows)
  show ?thesis
    using vs tomb others none some rollback_Some[of parse "active_versions (tb_name t) s'"] rollback_None[of parse "active_versions (tb_name t) s'"] inactive
    by (auto split: option.split)
qed simp

theorem revocation_rolls_back_witness:
  "package_tags ''p'' sample_revoked = [] \<and> tombstone_record ''p'' ''1'' sample_revoked = Some sample_tombstone"
proof -
  have run: "revoke_version sample_parse 0 sample_tombstone ''c'' JNull sample_published = Inr (True, sample_revoked)"
    by (simp add: revoke_version_def version_record_def set_version_status_def Let_def rollback_version_def active_versions_def map_filter_simps
      max_by_version_def move_tags_def enqueue_event_def sample_tables)
  have "tb_status sample_tombstone \<noteq> ''active''" "tb_name sample_tombstone = ''p''" "tb_version sample_tombstone = ''1''" by (simp_all add: sample_tombstone_def)
  moreover have "rollback_version sample_parse (active_versions ''p'' sample_revoked) = None"
    by (simp add: rollback_version_def active_versions_def sample_tables max_by_version_def map_filter_simps)
  moreover have "package_tags ''p'' sample_published = [(''latest'', ''1'')]" by (simp add: package_tags_def sample_published_def)
  ultimately show ?thesis using revocation_rolls_back[OF run] by simp
qed

section \<open>The event log\<close>

text \<open>
  C10: The event log only grows, and announces each queued event once. In every reachable state the log is a chain, each event committing to the hash of the one before it and
  signed, with no key twice; a later state's log extends it, so earlier checkpoints stay prefixes; a queued event stays queued with its key and content,
  and one that is marked as delivered is in the log.
\<close>

theorem event_log_append_only:
  assumes "(registry_step env parse)\<^sup>*\<^sup>* (empty_control, {}) (s, seen)" "(registry_step env parse)\<^sup>*\<^sup>* (s, seen) (s', seen')"
  shows "chained (rg_sha256 env) ''GENESIS'' (registry_events s)
    \<and> distinct (map ev_key (registry_events s)) \<and> (\<forall>e\<in>set (registry_events s). ev_signature e = registry_sign env (ev_hash e))
    \<and> (\<exists>hashes. event_hashes s' = event_hashes s @ hashes)
    \<and> (\<forall>r\<in>set (registry_outbox s). \<exists>r'\<in>set (registry_outbox s'). ob_event_key r' = ob_event_key r \<and> ob_event r' = ob_event r)
    \<and> (\<forall>r\<in>set (registry_outbox s). ob_delivered_at r \<noteq> None \<longrightarrow> (\<exists>!e. e \<in> set (registry_events s) \<and> ev_key e = ob_event_key r))"
proof -
  have good: "log_good env (s, seen)" by (rule event_log.reachable_good[OF assms(1)])
  have later: "log_later (s, seen) (s', seen')" by (rule event_log.run_later[OF assms(2) good])
  have valid: "log_valid env s" using good by (simp add: log_good_def)
  have "\<exists>!e. e \<in> set (registry_events s) \<and> ev_key e = ob_event_key r" if "r \<in> set (registry_outbox s)" "ob_delivered_at r \<noteq> None" for r
  proof -
    have "ob_event_key r \<in> ev_key ` set (registry_events s)" using good that unfolding log_good_def by simp
    then obtain e where "e \<in> set (registry_events s)" "ev_key e = ob_event_key r" by (auto simp: image_iff)
    moreover have "distinct (map ev_key (registry_events s))" using valid by (simp add: log_valid_def)
    ultimately show ?thesis using key_unique by metis
  qed
  then show ?thesis using valid later by (auto simp: log_valid_def log_later_def event_hashes_def)
qed

lemma sample_run_logged: "(registry_step sample_env sample_parse)\<^sup>*\<^sup>* (sample_published, {sample_stage})
    (sample_published\<lparr>registry_events := [next_event sample_env 0 ''a'' JNull sample_published]\<rparr>, {sample_stage})"
proof -
  have "append_event_keyed sample_env 0 ''a'' JNull sample_published
      = Inr (sample_published\<lparr>registry_events := [next_event sample_env 0 ''a'' JNull sample_published]\<rparr>)"
    by (simp add: append_event_keyed_def row_at_def insert_row_def sample_tables)
  then show ?thesis by (intro r_into_rtranclp step_append)
qed

theorem event_log_append_only_witness:
  "chained id ''GENESIS'' [next_event sample_env 0 ''a'' JNull sample_published]"
  using event_log_append_only[OF rtranclp_trans[OF sample_run_published sample_run_logged] rtranclp.rtrancl_refl] by (simp add: sample_env_def)

end
