(* ===== verification/Registry_Api.thy ===== *)
theory Registry_Api
  imports Registry_Safety Registry_Assess
begin

text \<open>
  The registry's requests (\<open>crates/oath-registry/src/postgres_api.rs\<close>, with \<open>identity.rs\<close>, \<open>object_backend.rs\<close> and the error type of
  \<open>lib.rs\<close>): authentication, authorization, and every request that changes the tables. A request is a function on the service's state whose
  transactions stay committed when a later one fails. Parameters are the random token, the identity provider, the mailer, and the text of an Authorization
  header that is not visible ASCII being refused by the HTTP crate.
\<close>

section \<open>Requests\<close>

datatype api_error = Bad_request string | Unauthorized | Forbidden string | Conflict string | Too_many_requests string | Not_found string | Internal

record service =
  sv_control :: control
  sv_objects :: "(string \<times> string) list list"

type_synonym 'a request = "service \<Rightarrow> (api_error, 'a) result \<times> service"

definition answer :: "'a \<Rightarrow> 'a request" where
  "answer a s = (Inr a, s)"

definition refuse :: "api_error \<Rightarrow> 'a request" where
  "refuse e s = (Inl e, s)"

definition andthen :: "'a request \<Rightarrow> ('a \<Rightarrow> 'b request) \<Rightarrow> 'b request" where
  "andthen m f s = (case m s of (Inl e, t) \<Rightarrow> (Inl e, t) | (Inr a, t) \<Rightarrow> f a t)"

definition require :: "bool \<Rightarrow> api_error \<Rightarrow> unit request" where
  "require b e = (if b then answer () else refuse e)"

definition query :: "(control \<Rightarrow> 'a) \<Rightarrow> 'a request" where
  "query f s = (Inr (f (sv_control s)), s)"

definition found :: "'a option \<Rightarrow> api_error \<Rightarrow> 'a request" where
  "found x e = (case x of Some a \<Rightarrow> answer a | None \<Rightarrow> refuse e)"

definition transact :: "'a transaction \<Rightarrow> 'a request" where
  "transact tx s = (case tx (sv_control s) of Inl e \<Rightarrow> (Inl Internal, s) | Inr (a, c) \<Rightarrow> (Inr a, s\<lparr>sv_control := c\<rparr>))"

definition modify :: "(control \<Rightarrow> control) \<Rightarrow> unit request" where
  "modify f s = (Inr (), s\<lparr>sv_control := f (sv_control s)\<rparr>)"

definition log_event :: "'k registry_env \<Rightarrow> int \<Rightarrow> json \<Rightarrow> unit request" where
  "log_event env now event = transact (\<lambda>s. map_sum id (Pair ()) (append_event env now event s))"

definition drain :: "'k registry_env \<Rightarrow> int \<Rightarrow> unit request" where
  "drain env now = modify (\<lambda>s. fst (drain_outbox env now s))"

section \<open>Artifacts\<close>

definition put_one :: "string \<Rightarrow> string \<Rightarrow> (string \<times> string) list \<Rightarrow> (string \<times> string) list option" where
  "put_one digest bytes store =
     (case map_of store digest of None \<Rightarrow> Some ((digest, bytes) # store) | Some existing \<Rightarrow> if existing = bytes then Some store else None)"

fun put_all :: "string \<Rightarrow> string \<Rightarrow> (string \<times> string) list list \<Rightarrow> bool \<times> (string \<times> string) list list" where
  "put_all digest bytes [] = (True, [])"
| "put_all digest bytes (store # stores) =
     (case put_one digest bytes store of
        None \<Rightarrow> (False, store # stores)
      | Some store' \<Rightarrow> map_prod id ((#) store') (put_all digest bytes stores))"

definition put_immutable :: "string \<Rightarrow> string \<Rightarrow> unit request" where
  "put_immutable digest bytes s =
     (let r = put_all digest bytes (sv_objects s) in (if fst r then Inr () else Inl Internal, s\<lparr>sv_objects := snd r\<rparr>))"

text \<open>The first store that has the artifact; one found in a replica is put into the primary store.\<close>

definition get_object :: "string \<Rightarrow> string request" where
  "get_object digest s =
     (case sv_objects s of
        [] \<Rightarrow> (Inl Internal, s)
      | primary # replicas \<Rightarrow>
          (case map_of primary digest of
             Some bytes \<Rightarrow> (Inr bytes, s)
           | None \<Rightarrow>
               (case List.map_filter (\<lambda>r. map_of r digest) replicas of
                  [] \<Rightarrow> (Inl Internal, s)
                | bytes # _ \<Rightarrow>
                    (case put_one digest bytes primary of
                       None \<Rightarrow> (Inl Internal, s)
                     | Some primary' \<Rightarrow> (Inr bytes, s\<lparr>sv_objects := primary' # replicas\<rparr>)))))"

section \<open>Authentication\<close>

definition header_text :: "string \<Rightarrow> bool" where
  "header_text s \<longleftrightarrow> (\<forall>c\<in>set s. byte c = 9 \<or> (32 \<le> byte c \<and> byte c < 127))"

definition bearer_optional :: "string option \<Rightarrow> (api_error, string option) result" where
  "bearer_optional authorization =
     (case authorization of
        None \<Rightarrow> Inr None
      | Some value \<Rightarrow>
          if \<not> header_text value then Inl Unauthorized
          else case split_first (CHR '' '') value of
                 None \<Rightarrow> Inl Unauthorized
               | Some (scheme, token) \<Rightarrow>
                   if \<not> eq_ignore_ascii_case scheme ''bearer'' \<or> token = [] \<or> (\<exists>c\<in>set token. c = CHR '' '' \<or> byte c = 9)
                   then Inl Unauthorized else Inr (Some token))"

definition authenticate_optional :: "'k registry_env \<Rightarrow> int \<Rightarrow> string option \<Rightarrow> control \<Rightarrow> (api_error, principal option) result" where
  "authenticate_optional env now authorization s =
     bind_result (bearer_optional authorization) (\<lambda>token.
       case token of None \<Rightarrow> Inr None
       | Some t \<Rightarrow> (case token_principal now (rg_sha256 env t) s of None \<Rightarrow> Inl Unauthorized | Some p \<Rightarrow> Inr (Some p)))"

definition authenticate :: "'k registry_env \<Rightarrow> int \<Rightarrow> string option \<Rightarrow> control \<Rightarrow> (api_error, principal) result" where
  "authenticate env now authorization s =
     bind_result (bearer_optional authorization) (\<lambda>token.
     bind_result (ok_or token Unauthorized) (\<lambda>t. ok_or (token_principal now (rg_sha256 env t) s) Unauthorized))"

section \<open>Authorization\<close>

definition may_write :: "string \<Rightarrow> bool" where
  "may_write role \<longleftrightarrow> role = ''publisher'' \<or> role = ''admin''"

definition authorize_name :: "principal \<Rightarrow> string \<Rightarrow> bool \<Rightarrow> control \<Rightarrow> (api_error, string) result" where
  "authorize_name p name write_access s =
     (case package_record name s of
        Some package \<Rightarrow>
          if pk_organization package = pc_organization p
          then (if write_access \<and> \<not> may_write (pc_role p) then Inl (Forbidden ''publisher role required'') else Inr (pk_organization package))
          else (case package_role name (pc_organization p) s of
                  Some role \<Rightarrow> if \<not> write_access \<or> may_write role then Inr (pk_organization package)
                    else Inl (Forbidden ''package belongs to another organization'')
                | None \<Rightarrow> Inl (Forbidden ''package belongs to another organization''))
      | None \<Rightarrow>
          if \<not> write_access then Inl (Not_found ''package not found'')
          else if \<not> may_write (pc_role p) then Inl (Forbidden ''publisher role required'')
          else (case strip_prefix name ''@'' of
                  Some scoped \<Rightarrow> if hd (split_char (CHR ''/'') scoped) \<noteq> pc_organization p
                    then Inl (Forbidden ''package scope belongs to another organization'') else Inr (pc_organization p)
                | None \<Rightarrow> Inr (pc_organization p)))"

text \<open>A check that reads the tables and either refuses the request or goes on.\<close>

definition check :: "(control \<Rightarrow> (api_error, 'a) result) \<Rightarrow> 'a request" where
  "check f s = (f (sv_control s), s)"

section \<open>Configuration and the world outside\<close>

record identity_claims =
  ic_sub :: string
  ic_email :: "string option"
  ic_email_verified :: bool
  ic_amr :: "string list"
  ic_acr :: "string option"

definition split_any :: "char set \<Rightarrow> string \<Rightarrow> string list" where
  "split_any cs s = split_char (CHR '' '') (map (\<lambda>c. if c \<in> cs then CHR '' '' else c) s)"

definition has_step_up_authentication :: "identity_claims \<Rightarrow> bool" where
  "has_step_up_authentication claims \<longleftrightarrow>
     (\<exists>method\<in>set (ic_amr claims). lowercase method \<in> {''mfa'', ''otp'', ''hwk'', ''fido'', ''webauthn'', ''swk''})
     \<or> (case ic_acr claims of None \<Rightarrow> False
        | Some value \<Rightarrow> \<exists>component\<in>set (split_any {CHR '':'', CHR ''/'', CHR '' ''} value). eq_ignore_ascii_case component ''mfa'')"

record registry_config =
  cf_public_url :: string
  cf_require_step_up :: bool
  cf_requests_per_minute :: int
  cf_maximum_pending_stages :: int
  cf_mailer :: "(string \<Rightarrow> string \<Rightarrow> string \<Rightarrow> bool) option"
  cf_accept_url :: "string option"
  cf_oidc :: "(string \<Rightarrow> identity_claims option) option"

record ('k, 'v) outside =
  ow_env :: "'k registry_env"
  ow_parse :: "string \<Rightarrow> 'v option"
  ow_entries :: "string \<Rightarrow> archive_entry option list"
  ow_json :: "string \<Rightarrow> json option"
  ow_assess :: assess_lib
  ow_files :: ftree
  ow_temp :: "string list"

section \<open>Staging\<close>

record stage_request =
  rq_name :: string
  rq_version :: string
  rq_tag :: string
  rq_tarball_base64 :: string
  rq_assessment :: json
  rq_private :: bool

definition manifest_entry :: "(string \<Rightarrow> json option) \<Rightarrow> archive_entry option \<Rightarrow> nat \<times> json option \<Rightarrow> (api_error, nat \<times> json option) result" where
  "manifest_entry parse entry st =
     bind_result (ensure (fst st < MAX_ARCHIVE_ENTRIES) (Bad_request ''npm tarball has too many entries'')) (\<lambda>_.
     bind_result (ok_or entry (Bad_request ''invalid npm tarball entry'')) (\<lambda>e.
     if path_components (ae_path e) \<noteq> path_components ''package/package.json'' then Inr (fst st + 1, snd st)
     else bind_result (ensure (snd st = None) (Bad_request ''npm tarball contains multiple package manifests'')) (\<lambda>_.
          bind_result (ok_or (ae_body e) (Bad_request ''cannot read package manifest'')) (\<lambda>bytes.
          bind_result (ensure (length bytes \<le> 1024 * 1024) (Bad_request ''package manifest exceeds 1 MiB'')) (\<lambda>_.
          bind_result (ok_or (parse bytes) (Bad_request ''invalid package manifest'')) (\<lambda>v. Inr (fst st + 1, Some v)))))))"

definition manifest_from_tarball :: "(string \<Rightarrow> json option) \<Rightarrow> archive_entry option list \<Rightarrow> string \<Rightarrow> string \<Rightarrow> (api_error, json) result" where
  "manifest_from_tarball parse entries expected_name expected_version =
     bind_result (fold_result (manifest_entry parse) entries (0, None)) (\<lambda>st.
     bind_result (ok_or (snd st) (Bad_request ''npm tarball has no package.json'')) (\<lambda>manifest.
     bind_result (ok_or (as_object manifest) (Bad_request ''package manifest must be a JSON object'')) (\<lambda>object.
     bind_result (ensure (get_str object ''name'' = Some expected_name) (Bad_request ''package manifest name does not match stage request'')) (\<lambda>_.
     bind_result (ensure (get_str object ''version'' = Some expected_version) (Bad_request ''package manifest version does not match stage request'')) (\<lambda>_.
     Inr manifest)))))"

definition signed_verdict :: "'k registry_env \<Rightarrow> registry_verdict \<Rightarrow> json" where
  "signed_verdict env v = verdict_json (v\<lparr>rv_signature := Some (sign_json (rg_crypto env) (rg_quote env) (verdict_json v) (rg_signing_key env))\<rparr>)"

definition stage_of :: "'k registry_env \<Rightarrow> int \<Rightarrow> string \<Rightarrow> stage_request \<Rightarrow> string \<Rightarrow> json \<Rightarrow> assessment_bundle \<Rightarrow> stage_record" where
  "stage_of env now owner rq digest manifest b =
     \<lparr>sr_id = rg_sha256 env (owner @ '':'' @ rq_name rq @ '':'' @ rq_version rq @ '':'' @ digest @ '':'' @ decimal (nat now)),
      sr_name = rq_name rq, sr_version = rq_version rq, sr_tag = rq_tag rq, sr_status = ''staged'',
      sr_release = \<lparr>rl_organization = owner, rl_digest = digest, rl_private = rq_private rq, rl_manifest = manifest,
         rl_publisher_assessment = rq_assessment rq, rl_assessment = signed_verdict env (ab_verdict b), rl_server_evidence = ab_evidence b,
         rl_sbom = ab_sbom b, rl_provenance = ab_provenance b\<rparr>,
      sr_created_at = now\<rparr>"

definition stage_event :: "principal \<Rightarrow> stage_record \<Rightarrow> json" where
  "stage_event p stage = jobj [(''type'', JStr ''stage.created''), (''id'', JStr (sr_id stage)), (''organization'', JStr (rl_organization (sr_release stage))),
     (''actor_org'', JStr (pc_organization p)), (''name'', JStr (sr_name stage)), (''version'', JStr (sr_version stage)), (''digest'', JStr (rl_digest (sr_release stage)))]"

definition visibility_kept :: "stage_request \<Rightarrow> control \<Rightarrow> (api_error, unit) result" where
  "visibility_kept rq s =
     (case package_record (rq_name rq) s of
        Some package \<Rightarrow> ensure (pk_private package = rq_private rq) (Conflict ''package visibility cannot change between versions'')
      | None \<Rightarrow> Inr ())"

definition request_stage :: "('k, 'v::linorder) outside \<Rightarrow> registry_config \<Rightarrow> int \<Rightarrow> string option \<Rightarrow> stage_request \<Rightarrow> stage_record request" where
  "request_stage ow cf now authorization rq =
     andthen (check (authenticate (ow_env ow) now authorization)) (\<lambda>p.
     andthen (check (authorize_name p (rq_name rq) True)) (\<lambda>owner.
     andthen (check (visibility_kept rq)) (\<lambda>_.
     andthen (require (ow_parse ow (rq_version rq) \<noteq> None) (Bad_request ''invalid semantic version'')) (\<lambda>_.
     andthen (found (b64_decode (rg_crypto (ow_env ow)) (rq_tarball_base64 rq)) (Bad_request ''invalid tarball base64'')) (\<lambda>tarball.
     andthen (check (\<lambda>_. manifest_from_tarball (ow_json ow) (ow_entries ow tarball) (rq_name rq) (rq_version rq))) (\<lambda>manifest.
     andthen (check (\<lambda>_. case assess_tarball (ow_assess ow) (ow_files ow) (ow_temp ow) (ow_entries ow tarball) tarball manifest (rq_name rq) (rq_version rq)
                (pc_organization p) (cf_public_url cf) (nat now) of Inl e \<Rightarrow> Inl (Bad_request ''server assessment failed'') | Inr b \<Rightarrow> Inr b)) (\<lambda>b.
     let digest = rg_sha256 (ow_env ow) tarball; stage = stage_of (ow_env ow) now owner rq digest manifest b in
     andthen (put_immutable digest tarball) (\<lambda>_.
     andthen (transact (create_stage now stage (''stage.created:'' @ sr_id stage) (stage_event p stage) (cf_maximum_pending_stages cf))) (\<lambda>created.
     andthen (require created (Too_many_requests ''organization pending-stage quota reached'')) (\<lambda>_.
     andthen (drain (ow_env ow) now) (\<lambda>_. answer stage)))))))))))"

definition view_stage :: "'k registry_env \<Rightarrow> int \<Rightarrow> string option \<Rightarrow> string \<Rightarrow> stage_record request" where
  "view_stage env now authorization i =
     andthen (check (authenticate env now authorization)) (\<lambda>p.
     andthen (query (read_stage i)) (\<lambda>r.
     andthen (found r (Not_found ''stage not found'')) (\<lambda>stage.
     andthen (check (authorize_name p (sr_name stage) False)) (\<lambda>_. answer stage))))"

definition download_stage :: "'k registry_env \<Rightarrow> int \<Rightarrow> string option \<Rightarrow> string \<Rightarrow> string request" where
  "download_stage env now authorization i = andthen (view_stage env now authorization i) (\<lambda>stage. get_object (rl_digest (sr_release stage)))"

definition request_stages :: "'k registry_env \<Rightarrow> int \<Rightarrow> string option \<Rightarrow> stage_record list request" where
  "request_stages env now authorization =
     andthen (check (authenticate env now authorization)) (\<lambda>p. query (list_stages (pc_organization p)))"

section \<open>Decisions and revocations\<close>

definition decision_event :: "principal \<Rightarrow> stage_record \<Rightarrow> string \<Rightarrow> bool \<Rightarrow> string option \<Rightarrow> json" where
  "decision_event p stage i approve reason =
     jobj [(''type'', JStr (if approve then ''stage.approved'' else ''stage.rejected'')), (''id'', JStr i), (''organization'', JStr (pc_organization p)),
       (''name'', JStr (sr_name stage)), (''version'', JStr (sr_version stage)), (''reason'', jopt JStr reason)]"

definition decide :: "'k registry_env \<Rightarrow> registry_config \<Rightarrow> int \<Rightarrow> string option \<Rightarrow> string \<Rightarrow> bool \<Rightarrow> string option \<Rightarrow> stage_record request" where
  "decide env cf now authorization i approve reason =
     andthen (check (authenticate env now authorization)) (\<lambda>p.
     andthen (require (pc_role p = ''admin'') (Forbidden ''admin approval required'')) (\<lambda>_.
     andthen (require (\<not> (approve \<and> cf_require_step_up cf \<and> pc_kind p \<noteq> ''oidc-mfa''))
         (Forbidden ''approval requires a fresh OIDC identity with MFA or phishing-resistant authentication'')) (\<lambda>_.
     andthen (query (read_stage i)) (\<lambda>r.
     andthen (found r (Not_found ''stage not found'')) (\<lambda>stage.
     andthen (require (rl_organization (sr_release stage) = pc_organization p) (Forbidden ''only the owning organization may approve or reject a stage'')) (\<lambda>_.
     andthen (require (\<not> (approve \<and> denied (sr_release stage)))
         (Conflict ''server assessment denied this exact artifact; approval is not permitted'')) (\<lambda>_.
     andthen (transact (decide_stage now stage approve reason (''stage.'' @ (if approve then ''approved'' else ''rejected'') @ '':'' @ i)
         (decision_event p stage i approve reason))) (\<lambda>decided.
     andthen (require decided (Conflict ''stage has already been decided'')) (\<lambda>_.
     andthen (drain env now) (\<lambda>_.
     andthen (query (read_stage i)) (\<lambda>r. found r Internal)))))))))))"

definition tombstone_payload :: "string \<Rightarrow> string \<Rightarrow> string \<Rightarrow> string \<Rightarrow> string \<Rightarrow> int \<Rightarrow> json" where
  "tombstone_payload name version status reason actor_org created_at =
     jobj [(''name'', JStr name), (''version'', JStr version), (''status'', JStr status), (''reason'', JStr reason), (''actor_org'', JStr actor_org),
       (''created_at'', jnat (nat created_at))]"

definition signed_tombstone :: "'k registry_env \<Rightarrow> string \<Rightarrow> string \<Rightarrow> string \<Rightarrow> string \<Rightarrow> string \<Rightarrow> int \<Rightarrow> tombstone_row" where
  "signed_tombstone env name version status reason actor_org now =
     \<lparr>tb_name = name, tb_version = version, tb_status = status, tb_reason = reason, tb_actor_org = actor_org, tb_created_at = now,
      tb_signature = registry_sign env (canonical_json_bytes (rg_quote env) (tombstone_payload name version status reason actor_org now)),
      tb_public_key = b64_encode (rg_crypto env) (ed_public (rg_crypto env) (rg_signing_key env))\<rparr>"

definition tombstone_event :: "tombstone_row \<Rightarrow> json" where
  "tombstone_event t = jobj [(''type'', JStr ''version.revoked''),
     (''tombstone'', tombstone_payload (tb_name t) (tb_version t) (tb_status t) (tb_reason t) (tb_actor_org t) (tb_created_at t)),
     (''signature'', JStr (tb_signature t)), (''public_key'', JStr (tb_public_key t))]"

definition request_revoke :: "('k, 'v::linorder) outside \<Rightarrow> int \<Rightarrow> string option \<Rightarrow> string \<Rightarrow> string \<Rightarrow> string \<Rightarrow> bool \<Rightarrow> tombstone_row request" where
  "request_revoke ow now authorization name version reason quarantine =
     andthen (check (authenticate (ow_env ow) now authorization)) (\<lambda>p.
     andthen (check (authorize_name p name True)) (\<lambda>_.
     let status = (if quarantine then ''quarantined'' else ''revoked''); t = signed_tombstone (ow_env ow) name version status reason (pc_organization p) now in
     andthen (transact (revoke_version (ow_parse ow) now t (''version.'' @ status @ '':'' @ name @ ''@'' @ version) (tombstone_event t))) (\<lambda>revoked.
     andthen (require revoked (Not_found ''package version not found'')) (\<lambda>_.
     andthen (drain (ow_env ow) now) (\<lambda>_. answer t)))))"

definition download_version :: "'k registry_env \<Rightarrow> int \<Rightarrow> string option \<Rightarrow> string \<Rightarrow> string \<Rightarrow> string request" where
  "download_version env now authorization name version =
     andthen (query (version_record name version)) (\<lambda>r.
     andthen (found r (Not_found ''package version not found'')) (\<lambda>row.
     andthen (if rl_private (vr_release row)
              then andthen (check (authenticate env now authorization)) (\<lambda>p. andthen (check (authorize_name p name False)) (\<lambda>_. answer ()))
              else answer ()) (\<lambda>_.
     andthen (require (vr_status row = ''active'') (Forbidden (''package version is '' @ vr_status row))) (\<lambda>_.
     andthen (get_object (rl_digest (vr_release row))) (\<lambda>bytes.
     andthen (modify (record_download name version)) (\<lambda>_. answer bytes))))))"

end
