(* ===== verification/Registry_Access.thy ===== *)
theory Registry_Access
  imports Registry_Api
begin

text \<open>
  The other requests of the registry (\<open>crates/oath-registry/src/postgres_api.rs\<close> and \<open>billing.rs\<close>): tokens, package roles, invitations,
  the exchange of an identity for a token, billing events, the rate limit before every request, and the public reads of the event log and of the
  quarantines. Random tokens are arguments; a request reads the clock once.
\<close>

section \<open>Tokens and roles\<close>

definition valid_role :: "string \<Rightarrow> bool" where
  "valid_role role \<longleftrightarrow> role \<in> {''reader'', ''publisher'', ''admin''}"

definition token_event :: "principal \<Rightarrow> string \<Rightarrow> nat \<Rightarrow> json" where
  "token_event p role expires_at =
     jobj [(''type'', JStr ''token.issued''), (''organization'', JStr (pc_organization p)), (''role'', JStr role), (''expires_at'', jnat expires_at)]"

definition request_token :: "'k registry_env \<Rightarrow> int \<Rightarrow> string option \<Rightarrow> string \<Rightarrow> string \<Rightarrow> nat \<Rightarrow> string request" where
  "request_token env now authorization token role ttl_secs =
     andthen (check (authenticate env now authorization)) (\<lambda>p.
     andthen (require (pc_role p = ''admin'') (Forbidden ''admin role required'')) (\<lambda>_.
     andthen (require (valid_role role) (Bad_request ''invalid token role'')) (\<lambda>_.
     andthen (require (60 \<le> ttl_secs \<and> ttl_secs \<le> 86400) (Bad_request ''token ttl must be between 60 and 86400 seconds'')) (\<lambda>_.
     andthen (transact (insert_token (rg_sha256 env token) (pc_organization p) role (now + int ttl_secs) ''service'')) (\<lambda>_.
     andthen (log_event env now (token_event p role (nat now + ttl_secs))) (\<lambda>_. answer token))))))"

definition grant_event :: "principal \<Rightarrow> string \<Rightarrow> string \<Rightarrow> string \<Rightarrow> json" where
  "grant_event p name principal_org role = jobj [(''type'', JStr ''package.role_granted''), (''name'', JStr name), (''owner_org'', JStr (pc_organization p)),
     (''principal_org'', JStr principal_org), (''role'', JStr role)]"

definition request_grant :: "'k registry_env \<Rightarrow> int \<Rightarrow> string option \<Rightarrow> string \<Rightarrow> string \<Rightarrow> string \<Rightarrow> unit request" where
  "request_grant env now authorization name principal_org role =
     andthen (check (authenticate env now authorization)) (\<lambda>p.
     andthen (require (pc_role p = ''admin'') (Forbidden ''admin role required'')) (\<lambda>_.
     andthen (check (authorize_name p name True)) (\<lambda>owner.
     andthen (require (owner = pc_organization p) (Forbidden ''only the package-owning organization may grant roles'')) (\<lambda>_.
     andthen (require (valid_role role) (Bad_request ''invalid package role'')) (\<lambda>_.
     andthen (transact (grant_package_role name (pc_organization p) principal_org role)) (\<lambda>_.
     log_event env now (grant_event p name principal_org role)))))))"

section \<open>Invitations and identities\<close>

definition invitation_event :: "'k registry_env \<Rightarrow> principal \<Rightarrow> string \<Rightarrow> string \<Rightarrow> nat \<Rightarrow> json" where
  "invitation_event env p email role expires_at = jobj [(''type'', JStr ''invitation.created''), (''organization'', JStr (pc_organization p)),
     (''email_hash'', JStr (rg_sha256 env email)), (''role'', JStr role), (''expires_at'', jnat expires_at)]"

definition accept_url :: "string \<Rightarrow> string \<Rightarrow> string" where
  "accept_url base token = base @ (if CHR ''?'' \<in> set base then ''&'' else ''?'') @ ''invitation_token='' @ token"

definition request_invitation :: "'k registry_env \<Rightarrow> registry_config \<Rightarrow> int \<Rightarrow> string option \<Rightarrow> string \<Rightarrow> string \<Rightarrow> string \<Rightarrow> nat \<Rightarrow> string request" where
  "request_invitation env cf now authorization token email role ttl_secs =
     andthen (check (authenticate env now authorization)) (\<lambda>p.
     andthen (require (pc_role p = ''admin'') (Forbidden ''admin role required'')) (\<lambda>_.
     andthen (require (valid_role role) (Bad_request ''invalid invitation role'')) (\<lambda>_.
     andthen (require (300 \<le> ttl_secs \<and> ttl_secs \<le> 604800) (Bad_request ''invitation ttl must be between 300 and 604800 seconds'')) (\<lambda>_.
     andthen (found (cf_mailer cf) Internal) (\<lambda>send.
     andthen (found (cf_accept_url cf) Internal) (\<lambda>base.
     let token_hash = rg_sha256 env token in
     andthen (transact (create_invitation token_hash (pc_organization p) email role (now + int ttl_secs))) (\<lambda>_.
     if send email (pc_organization p) (accept_url base token)
     then andthen (log_event env now (invitation_event env p email role (nat now + ttl_secs))) (\<lambda>_. answer token_hash)
     else andthen (transact (revoke_invitation now token_hash (pc_organization p))) (\<lambda>_. refuse Internal))))))))"

definition revoked_event :: "principal \<Rightarrow> string \<Rightarrow> json" where
  "revoked_event p token_id = jobj [(''type'', JStr ''invitation.revoked''), (''organization'', JStr (pc_organization p)), (''token_id'', JStr token_id)]"

definition request_uninvite :: "'k registry_env \<Rightarrow> int \<Rightarrow> string option \<Rightarrow> string \<Rightarrow> unit request" where
  "request_uninvite env now authorization token_id =
     andthen (check (authenticate env now authorization)) (\<lambda>p.
     andthen (require (pc_role p = ''admin'') (Forbidden ''admin role required'')) (\<lambda>_.
     andthen (transact (revoke_invitation now token_id (pc_organization p))) (\<lambda>revoked.
     andthen (require revoked (Not_found ''active invitation not found'')) (\<lambda>_.
     log_event env now (revoked_event p token_id)))))"

definition issue_identity_token :: "'k registry_env \<Rightarrow> int \<Rightarrow> string \<Rightarrow> string \<Rightarrow> string \<Rightarrow> bool \<Rightarrow> string request" where
  "issue_identity_token env now token organization role step_up =
     andthen (transact (insert_token (rg_sha256 env token) organization role (now + 3600) (if step_up then ''oidc-mfa'' else ''oidc''))) (\<lambda>_. answer token)"

definition accepted_event :: "'k registry_env \<Rightarrow> invitation_row \<Rightarrow> identity_claims \<Rightarrow> string \<Rightarrow> json" where
  "accepted_event env invitation claims email = jobj [(''type'', JStr ''invitation.accepted''), (''organization'', JStr (iv_organization invitation)),
     (''subject_hash'', JStr (rg_sha256 env (ic_sub claims))), (''email_hash'', JStr (rg_sha256 env email)), (''role'', JStr (iv_role invitation))]"

definition request_accept :: "'k registry_env \<Rightarrow> registry_config \<Rightarrow> int \<Rightarrow> string \<Rightarrow> string \<Rightarrow> string \<Rightarrow> string request" where
  "request_accept env cf now token invitation_token id_token =
     andthen (found (cf_oidc cf) Internal) (\<lambda>verify.
     andthen (found (verify id_token) Unauthorized) (\<lambda>claims.
     andthen (require (ic_email_verified claims) (Forbidden ''OIDC email is not verified'')) (\<lambda>_.
     andthen (found (ic_email claims) (Forbidden ''OIDC identity has no email'')) (\<lambda>email.
     andthen (transact (accept_invitation now (rg_sha256 env invitation_token) (ic_sub claims) email)) (\<lambda>r.
     andthen (found r (Not_found ''active invitation not found'')) (\<lambda>invitation.
     andthen (issue_identity_token env now token (iv_organization invitation) (iv_role invitation) (has_step_up_authentication claims)) (\<lambda>_.
     andthen (log_event env now (accepted_event env invitation claims email)) (\<lambda>_. answer token))))))))"

definition sso_exchange :: "'k registry_env \<Rightarrow> registry_config \<Rightarrow> int \<Rightarrow> string \<Rightarrow> string \<Rightarrow> string request" where
  "sso_exchange env cf now token id_token =
     andthen (found (cf_oidc cf) Internal) (\<lambda>verify.
     andthen (found (verify id_token) Unauthorized) (\<lambda>claims.
     andthen (query (membership (ic_sub claims))) (\<lambda>r.
     andthen (found r (Forbidden ''identity is not an organization member'')) (\<lambda>(organization, role).
     issue_identity_token env now token organization role (has_step_up_authentication claims)))))"

section \<open>Billing events\<close>

record billing_lib =
  bi_secret :: string
  bi_hmac :: "string \<Rightarrow> string \<Rightarrow> string"
  bi_hex_decode :: "string \<Rightarrow> string option"
  bi_parse_u64 :: "string \<Rightarrow> nat option"

text \<open>The last \<open>t=\<close> of the header counts, even when it is not a number; every \<open>v1=\<close> is a candidate.\<close>

definition signature_timestamp :: "billing_lib \<Rightarrow> string \<Rightarrow> nat option" where
  "signature_timestamp lib header =
     fold (\<lambda>part t. case strip_prefix part ''t='' of Some v \<Rightarrow> bi_parse_u64 lib v | None \<Rightarrow> t) (split_char (CHR '','') header) None"

definition signature_candidates :: "string \<Rightarrow> string list" where
  "signature_candidates header = List.map_filter (\<lambda>part. strip_prefix part ''v1='') (split_char (CHR '','') header)"

definition verify_webhook :: "billing_lib \<Rightarrow> (string \<Rightarrow> json option) \<Rightarrow> string \<Rightarrow> string \<Rightarrow> nat \<Rightarrow> json option" where
  "verify_webhook lib parse header body now =
     Option.bind (signature_timestamp lib header) (\<lambda>timestamp.
       if \<not> (max now timestamp - min now timestamp \<le> 300) then None
       else if \<not> (\<exists>v\<in>set (signature_candidates header). bi_hex_decode lib v = Some (bi_hmac lib (bi_secret lib) (decimal timestamp @ ''.'' @ body))) then None
       else parse body)"

definition billing_webhook :: "(string \<Rightarrow> json option) \<Rightarrow> billing_lib option \<Rightarrow> int \<Rightarrow> string option \<Rightarrow> string \<Rightarrow> unit request" where
  "billing_webhook parse billing now signature body =
     andthen (found (Option.bind signature (\<lambda>v. if header_text v then Some v else None)) Unauthorized) (\<lambda>header.
     andthen (found billing Internal) (\<lambda>lib.
     andthen (found (verify_webhook lib parse header body (nat now)) Unauthorized) (\<lambda>event.
     andthen (found (Option.bind (json_get event ''id'') as_str) (Bad_request ''billing event has no id'')) (\<lambda>i.
     andthen (found (Option.bind (json_get event ''type'') as_str) (Bad_request ''billing event has no type'')) (\<lambda>event_type.
     andthen (transact (record_billing_event now i event_type event)) (\<lambda>_. answer ()))))))"

section \<open>The rate limit\<close>

definition rate_subject :: "'k registry_env \<Rightarrow> string option \<Rightarrow> string" where
  "rate_subject env authorization =
     (case authorization of Some value \<Rightarrow> if header_text value then rg_sha256 env value else ''anonymous'' | None \<Rightarrow> ''anonymous'')"

definition enforce_registry_rate_limit :: "'k registry_env \<Rightarrow> registry_config \<Rightarrow> int \<Rightarrow> string \<Rightarrow> string option \<Rightarrow> 'a request \<Rightarrow> 'a request" where
  "enforce_registry_rate_limit env cf now path authorization run =
     (if path \<in> {''/livez'', ''/readyz'', ''/health'', ''/metrics''} then run
      else andthen (transact (consume_rate_limit now (rate_subject env authorization) ''api-minute'' (cf_requests_per_minute cf) 60)) (\<lambda>allowed.
           andthen (require allowed (Too_many_requests ''registry request rate exceeded'')) (\<lambda>_. run)))"

definition prune_expired_rate_limits :: "int \<Rightarrow> nat request" where
  "prune_expired_rate_limits now = transact (prune_rate_limits_before (max 0 (now - 24 * 3600)))"

section \<open>Public reads\<close>

record transparency_checkpoint_v2 =
  tc_event_count :: nat
  tc_merkle_root :: string
  tc_latest_hash :: "string option"
  tc_public_key :: string
  tc_signature :: string

definition last_hash :: "string list \<Rightarrow> string option" where
  "last_hash hashes = (if hashes = [] then None else Some (last hashes))"

definition checkpoint_payload :: "'k registry_env \<Rightarrow> string list \<Rightarrow> json" where
  "checkpoint_payload env hashes = jobj [(''schema_version'', jnat 2), (''event_count'', jnat (length hashes)),
     (''merkle_root'', JStr (merkle_root (rg_sha256 env) hashes)), (''latest_hash'', jopt JStr (last_hash hashes))]"

definition registry_checkpoint :: "'k registry_env \<Rightarrow> transparency_checkpoint_v2 request" where
  "registry_checkpoint env =
     andthen (query event_hashes) (\<lambda>hashes. answer
       \<lparr>tc_event_count = length hashes, tc_merkle_root = merkle_root (rg_sha256 env) hashes, tc_latest_hash = last_hash hashes,
        tc_public_key = b64_encode (rg_crypto env) (ed_public (rg_crypto env) (rg_signing_key env)),
        tc_signature = registry_sign env (canonical_json_bytes (rg_quote env) (checkpoint_payload env hashes))\<rparr>)"

text \<open>The proof of an event: its leaf, the size and root of the log, and the path.\<close>

definition request_inclusion :: "'k registry_env \<Rightarrow> nat \<Rightarrow> (string \<times> nat \<times> string \<times> string list) request" where
  "request_inclusion env sequence =
     andthen (require (sequence \<noteq> 0) (Bad_request ''event sequence starts at 1'')) (\<lambda>_.
     andthen (query event_hashes) (\<lambda>hashes.
     andthen (found (if sequence - 1 < length hashes then Some (hashes ! (sequence - 1)) else None) (Not_found ''transparency event not found'')) (\<lambda>leaf.
     andthen (found (merkle_inclusion_proof (rg_sha256 env) hashes (sequence - 1)) Internal) (\<lambda>proof.
     answer (leaf, length hashes, merkle_root (rg_sha256 env) hashes, proof)))))"

definition request_consistency :: "'k registry_env \<Rightarrow> nat \<Rightarrow> (string \<times> string \<times> merkle_consistency_proof) request" where
  "request_consistency env from_size =
     andthen (query event_hashes) (\<lambda>hashes.
     andthen (require (from_size \<le> length hashes) (Bad_request ''from tree size exceeds current tree size'')) (\<lambda>_.
     andthen (found (make_consistency_proof (rg_sha256 env) hashes from_size) Internal) (\<lambda>proof.
     answer (merkle_root (rg_sha256 env) (take from_size hashes), merkle_root (rg_sha256 env) hashes, proof))))"

end
