(* ===== verification/Registry_Service.thy ===== *)
theory Registry_Service
  imports Registry_Access
begin

text \<open>
  The registry as its clients see it: the routes of \<open>router\<close> in \<open>crates/oath-registry/src/postgres_api.rs\<close>, each behind the
  rate limit. A call is everything a request brings along: the time, the Authorization header, the path and body, and the random token the
  service draws for it. Every call is a run of the transactions of \<open>Registry_Runs\<close>.
\<close>

section \<open>Routes\<close>

datatype call =
    Stage stage_request
  | View_stage string
  | Download_stage string
  | Stages
  | Decide string bool "string option"
  | Revoke string string string bool
  | Download string string
  | Issue_token string string nat
  | Grant string string string
  | Invite string string string nat
  | Uninvite string
  | Accept string string string
  | Exchange string string
  | Billing_event "string option" string

record arrival =
  av_now :: int
  av_path :: string
  av_authorization :: "string option"
  av_call :: call

definition done_with :: "'a request \<Rightarrow> unit request" where
  "done_with m = andthen m (\<lambda>_. answer ())"

fun route :: "('k, 'v::linorder) outside \<Rightarrow> registry_config \<Rightarrow> billing_lib option \<Rightarrow> int \<Rightarrow> string option \<Rightarrow> call \<Rightarrow> unit request" where
  "route ow cf billing now authorization (Stage rq) = done_with (request_stage ow cf now authorization rq)"
| "route ow cf billing now authorization (View_stage i) = done_with (view_stage (ow_env ow) now authorization i)"
| "route ow cf billing now authorization (Download_stage i) = done_with (download_stage (ow_env ow) now authorization i)"
| "route ow cf billing now authorization Stages = done_with (request_stages (ow_env ow) now authorization)"
| "route ow cf billing now authorization (Decide i approve reason) = done_with (decide (ow_env ow) cf now authorization i approve reason)"
| "route ow cf billing now authorization (Revoke name version reason quarantine) = done_with (request_revoke ow now authorization name version reason quarantine)"
| "route ow cf billing now authorization (Download name version) = done_with (download_version (ow_env ow) now authorization name version)"
| "route ow cf billing now authorization (Issue_token token role ttl_secs) = done_with (request_token (ow_env ow) now authorization token role ttl_secs)"
| "route ow cf billing now authorization (Grant name principal_org role) = done_with (request_grant (ow_env ow) now authorization name principal_org role)"
| "route ow cf billing now authorization (Invite token email role ttl_secs) = done_with (request_invitation (ow_env ow) cf now authorization token email role ttl_secs)"
| "route ow cf billing now authorization (Uninvite token_id) = done_with (request_uninvite (ow_env ow) now authorization token_id)"
| "route ow cf billing now authorization (Accept token invitation_token id_token) = done_with (request_accept (ow_env ow) cf now token invitation_token id_token)"
| "route ow cf billing now authorization (Exchange token id_token) = done_with (sso_exchange (ow_env ow) cf now token id_token)"
| "route ow cf billing now authorization (Billing_event signature body) = done_with (billing_webhook (ow_json ow) billing now signature body)"

definition serve :: "('k, 'v::linorder) outside \<Rightarrow> registry_config \<Rightarrow> billing_lib option \<Rightarrow> arrival \<Rightarrow> unit request" where
  "serve ow cf billing a =
     enforce_registry_rate_limit (ow_env ow) cf (av_now a) (av_path a) (av_authorization a) (route ow cf billing (av_now a) (av_authorization a) (av_call a))"

definition serve_all :: "('k, 'v::linorder) outside \<Rightarrow> registry_config \<Rightarrow> billing_lib option \<Rightarrow> arrival list \<Rightarrow> service \<Rightarrow> service" where
  "serve_all ow cf billing = fold (\<lambda>a s. snd (serve ow cf billing a s))"

section \<open>Requests that keep a relation\<close>

text \<open>
  A request keeps a transitive relation between the states before and after it when its parts do, whether it ends with an answer or an error.
\<close>

definition keeps :: "(service \<Rightarrow> service \<Rightarrow> bool) \<Rightarrow> 'a request \<Rightarrow> bool" where
  "keeps R m \<longleftrightarrow> (\<forall>s. R s (snd (m s)))"

named_theorems keeping

lemma keepsI: "(\<And>s. R s (snd (m s))) \<Longrightarrow> keeps R m"
  by (simp add: keeps_def)

locale progress =
  fixes R :: "service \<Rightarrow> service \<Rightarrow> bool"
  assumes refl: "R s s" and trans: "R s t \<Longrightarrow> R t u \<Longrightarrow> R s u"
begin

lemma keeps_andthen:
  assumes "keeps R m" "\<And>a. keeps R (f a)"
  shows "keeps R (andthen m f)"
proof (rule keepsI)
  fix s
  obtain x t where m: "m s = (x, t)" by (cases "m s")
  have "R s t" using assms(1) m unfolding keeps_def by (metis snd_conv)
  then show "R s (snd (andthen m f s))"
    using assms(2) trans unfolding andthen_def m keeps_def by (cases x) auto
qed

lemma keeps_if: "keeps R m \<Longrightarrow> keeps R n \<Longrightarrow> keeps R (if b then m else n)"
  by simp

lemma keeps_reads: "keeps R (answer a)" "keeps R (refuse e)" "keeps R (query f)" "keeps R (check g)"
  by (simp_all add: keeps_def answer_def refuse_def query_def check_def refl)

lemma keeps_found: "keeps R (found x e)" "keeps R (require b e)"
  by (simp_all add: found_def require_def keeps_reads split: option.split)

lemmas keeps_simple = keeps_reads keeps_found

lemma keeps_transact: "(\<And>s x c. tx (sv_control s) = Inr (x, c) \<Longrightarrow> R s (s\<lparr>sv_control := c\<rparr>)) \<Longrightarrow> keeps R (transact tx)"
  by (rule keepsI) (simp add: transact_def refl split: sum.split)

lemma keeps_modify: "(\<And>s. R s (s\<lparr>sv_control := f (sv_control s)\<rparr>)) \<Longrightarrow> keeps R (modify f)"
  by (rule keepsI) (simp add: modify_def)

end

section \<open>Requests are runs\<close>

definition outbox_ids :: "control \<Rightarrow> bool" where
  "outbox_ids s \<longleftrightarrow> distinct (map ob_id (registry_outbox s)) \<and> (\<forall>r\<in>set (registry_outbox s). ob_id r < outbox_serial s)"

lemma outbox_ids_same: "registry_outbox t = registry_outbox s \<Longrightarrow> outbox_serial t = outbox_serial s \<Longrightarrow> outbox_ids t = outbox_ids s"
  by (simp add: outbox_ids_def)

lemma outbox_ids_enqueue: "enqueue_event now k e s = Inr t \<Longrightarrow> outbox_ids s \<Longrightarrow> outbox_ids t"
  by (auto simp: enqueue_event_def bind_result_Inr_iff insert_row_Inr outbox_ids_def less_Suc_eq) (metis less_irrefl)

lemma outbox_ids_update:
  assumes "\<And>r. ob_id (f r) = ob_id r" "outbox_ids s"
  shows "outbox_ids (s\<lparr>registry_outbox := update_rows P f (registry_outbox s)\<rparr>)"
  using assms by (auto simp: outbox_ids_def map_update_rows set_update_rows)

lemma outbox_ids_append: "append_event_keyed env now k e s = Inr t \<Longrightarrow> outbox_ids s \<Longrightarrow> outbox_ids t"
  by (erule append_event_cases) (simp_all add: outbox_ids_def)

lemma outbox_ids_step:
  assumes "registry_step env parse a b" "outbox_ids (fst a)"
  shows "outbox_ids (fst b)"
  using assms(1)
proof cases
  case (step_create stage now event_key event m s r s' seen)
  have "outbox_ids s2" if "claim_package stage s = Inr s1" "insert_stage stage s1 = Inr s2" for s1 s2
    using that assms(2) step_create(1) by (auto simp: claim_package_def insert_stage_def bind_result_Inr_iff outbox_ids_def split: option.splits if_splits)
  then show ?thesis using step_create assms(2)
    by (auto simp: create_stage_def bind_result_Inr_iff split: if_splits dest: outbox_ids_enqueue)
next
  case (step_decide stage seen approve now reason event_key event s r s')
  have "outbox_ids s1" if "publish_stage now stage (set_stage_status (sr_id stage) ''approved'' reason s) = Inr s1" for s1
    using that assms(2) step_decide(1) by (auto simp: publish_stage_def set_stage_status_def bind_result_Inr_iff outbox_ids_def)
  moreover have "outbox_ids (set_stage_status (sr_id stage) ''rejected'' reason s)" using assms(2) step_decide(1) by (simp add: set_stage_status_def outbox_ids_def)
  ultimately show ?thesis using step_decide assms(2)
    by (cases approve) (auto simp: decide_stage_def bind_result_Inr_iff split: if_splits dest: outbox_ids_enqueue)
next
  case (step_revoke t now event_key event s r s' seen)
  then show ?thesis using assms(2)
    by (auto simp: revoke_version_def Let_def bind_result_Inr_iff set_version_status_def outbox_ids_def dest!: outbox_ids_enqueue split: if_splits)
next
  case (step_delivered s i seen now) then show ?thesis using assms(2) by (simp add: mark_outbox_delivered_def outbox_ids_update)
next
  case (step_retry s seen now i) then show ?thesis using assms(2) by (simp add: retry_outbox_def outbox_ids_update)
next
  case (step_append now event_key event s s' seen) then show ?thesis using assms(2) by (simp add: outbox_ids_append)
next
  case (step_read i s stage seen) then show ?thesis using assms(2) by simp
next
  case (step_download s seen name version) then show ?thesis using assms(2) by (simp add: record_download_def outbox_ids_def)
next
  case (step_bootstrap now organization hash role s u s' seen) then show ?thesis using assms(2) by (auto simp: bootstrap_token_def Let_def outbox_ids_def)
next
  case (step_token hash organization role expires_at kind s u s' seen) then show ?thesis using assms(2) by (auto simp: insert_token_def bind_result_Inr_iff outbox_ids_def)
next
  case (step_grant name owner_org principal_org role s u s' seen) then show ?thesis using assms(2) by (auto simp: grant_package_role_def Let_def bind_result_Inr_iff outbox_ids_def)
next
  case (step_invite token_hash organization email role expires_at s u s' seen) then show ?thesis using assms(2) by (auto simp: create_invitation_def bind_result_Inr_iff outbox_ids_def)
next
  case (step_uninvite now token_hash organization s r s' seen) then show ?thesis using assms(2) by (auto simp: revoke_invitation_def Let_def outbox_ids_def)
next
  case (step_accept now token_hash subject email s r s' seen)
  then show ?thesis using assms(2) by (auto simp: accept_invitation_def Let_def outbox_ids_def split: option.splits if_splits)
next
  case (step_limit now subject_hash bucket maximum window_seconds s r s' seen) then show ?thesis using assms(2) by (auto simp: consume_rate_limit_def Let_def outbox_ids_def)
next
  case (step_prune cutoff s n s' seen) then show ?thesis using assms(2) by (auto simp: prune_rate_limits_before_def outbox_ids_def)
next
  case (step_billing now event_id event_type payload s r s' seen) then show ?thesis using assms(2) by (auto simp: record_billing_event_def outbox_ids_def split: if_splits)
qed

lemma outbox_ids_run: "(registry_step env parse)\<^sup>*\<^sup>* a b \<Longrightarrow> outbox_ids (fst a) \<Longrightarrow> outbox_ids (fst b)"
  by (induction rule: rtranclp_induct) (auto intro: outbox_ids_step)

definition advances :: "'k registry_env \<Rightarrow> (string \<Rightarrow> 'v::linorder option) \<Rightarrow> service \<Rightarrow> service \<Rightarrow> bool" where
  "advances env parse s t \<longleftrightarrow> (\<forall>seen. outbox_ids (sv_control s) \<longrightarrow>
     (\<exists>seen'. (registry_step env parse)\<^sup>*\<^sup>* (sv_control s, seen) (sv_control t, seen')))"

lemma advances_same: "sv_control t = sv_control s \<Longrightarrow> advances env parse s t"
  by (auto simp: advances_def)

lemma advances_trans: "advances env parse s t \<Longrightarrow> advances env parse t u \<Longrightarrow> advances env parse s u"
  unfolding advances_def by (metis outbox_ids_run rtranclp_trans fst_conv)

lemma advances_step: "(\<And>seen. registry_step env parse (sv_control s, seen) (c, seen)) \<Longrightarrow> advances env parse s (s\<lparr>sv_control := c\<rparr>)"
  unfolding advances_def by (auto intro: r_into_rtranclp)

interpretation running: progress "advances env parse"
  by unfold_locales (rule advances_same, simp, erule (1) advances_trans)

lemma deliver_run:
  assumes "outbox_ids s" "\<forall>r\<in>set rs. \<exists>r'\<in>set (registry_outbox s). ob_id r' = ob_id r \<and> ob_event_key r' = ob_event_key r"
  shows "(registry_step env parse)\<^sup>*\<^sup>* (s, seen) (fst (fold (deliver_row env now) rs (s, n)), seen)"
  using assms
proof (induction rs arbitrary: s n)
  case (Cons r rs)
  obtain t m where t: "deliver_row env now r (s, n) = (t, m)" by (cases "deliver_row env now r (s, n)")
  have run: "(registry_step env parse)\<^sup>*\<^sup>* (s, seen) (t, seen)
      \<and> map (\<lambda>r. (ob_id r, ob_event_key r)) (registry_outbox t) = map (\<lambda>r. (ob_id r, ob_event_key r)) (registry_outbox s)"
  proof (cases "append_event_keyed env now (ob_event_key r) (ob_event r) s")
    case (Inl e)
    then have "t = retry_outbox now (ob_id r) s" using t by (simp add: deliver_row_def)
    then show ?thesis using r_into_rtranclp[of "registry_step env parse", OF step_retry] by (simp add: retry_outbox_def map_update_rows)
  next
    case (Inr u)
    then have tu: "t = mark_outbox_delivered now (ob_id r) u" using t by (simp add: deliver_row_def)
    have u: "registry_outbox u = registry_outbox s" "ob_event_key r \<in> ev_key ` set (registry_events u)"
      using Inr by (auto elim!: append_event_cases simp: next_event_def Let_def)
    obtain r' where r': "r' \<in> set (registry_outbox s)" "ob_id r' = ob_id r" "ob_event_key r' = ob_event_key r" using Cons.prems(2) by auto
    have "ob_event_key q = ob_event_key r" if "q \<in> set (registry_outbox u)" "ob_id q = ob_id r" for q
      using key_unique[of ob_id "registry_outbox s" q r'] Cons.prems(1) that u(1) r' by (simp add: outbox_ids_def)
    then have "\<forall>q\<in>set (registry_outbox u). ob_id q = ob_id r \<longrightarrow> ob_event_key q \<in> ev_key ` set (registry_events u)" using u(2) by simp
    from step_delivered[OF this] have "(registry_step env parse)\<^sup>*\<^sup>* (s, seen) (t, seen)"
      unfolding tu using step_append[OF Inr] by (meson rtranclp.rtrancl_into_rtrancl rtranclp.rtrancl_refl)
    moreover have "map (\<lambda>r. (ob_id r, ob_event_key r)) (registry_outbox t) = map (\<lambda>r. (ob_id r, ob_event_key r)) (registry_outbox s)"
      by (simp add: tu mark_outbox_delivered_def map_update_rows u(1))
    ultimately show ?thesis by blast
  qed
  then have ids: "outbox_ids t" using outbox_ids_run[of env parse "(s, seen)" "(t, seen)"] Cons.prems(1) by simp
  have "(\<lambda>r. (ob_id r, ob_event_key r)) ` set (registry_outbox t) = (\<lambda>r. (ob_id r, ob_event_key r)) ` set (registry_outbox s)"
    using run by (metis list.set_map)
  then have "\<exists>q'\<in>set (registry_outbox t). ob_id q' = ob_id q \<and> ob_event_key q' = ob_event_key q"
    if "\<exists>q'\<in>set (registry_outbox s). ob_id q' = ob_id q \<and> ob_event_key q' = ob_event_key q" for q :: outbox_row
    using that by (smt (verit) imageE image_eqI prod.inject)
  then have "\<forall>q\<in>set rs. \<exists>q'\<in>set (registry_outbox t). ob_id q' = ob_id q \<and> ob_event_key q' = ob_event_key q"
    using Cons.prems(2) by (intro ballI) auto
  from Cons.IH[OF ids this] run show ?case by (simp add: t) (meson rtranclp_trans)
qed simp

lemma drain_advances: "keeps (advances env parse) (drain env now)"
  unfolding drain_def
proof (rule running.keeps_modify)
  fix s :: service
  show "advances env parse s (s\<lparr>sv_control := fst (drain_outbox env now (sv_control s))\<rparr>)"
  proof (unfold advances_def, intro allI impI exI)
    fix seen assume ids: "outbox_ids (sv_control s)"
    have "\<forall>r\<in>set (pending_outbox now 100 (sv_control s)). r \<in> set (registry_outbox (sv_control s))"
      by (auto simp: pending_outbox_def dest: in_set_takeD)
    then have "\<forall>r\<in>set (pending_outbox now 100 (sv_control s)). \<exists>r'\<in>set (registry_outbox (sv_control s)). ob_id r' = ob_id r \<and> ob_event_key r' = ob_event_key r"
      by blast
    from deliver_run[OF ids this] show "(registry_step env parse)\<^sup>*\<^sup>* (sv_control s, seen) (sv_control (s\<lparr>sv_control := fst (drain_outbox env now (sv_control s))\<rparr>), seen)"
      by (simp add: drain_outbox_def)
  qed
qed

lemma log_event_advances: "keeps (advances env parse) (log_event env now event)"
  unfolding log_event_def append_event_def by (rule running.keeps_transact) (auto intro!: advances_step step_append simp: map_sum_def split: sum.splits)

lemma put_immutable_advances: "keeps (advances env parse) (put_immutable digest bytes)"
  by (rule keepsI) (simp add: put_immutable_def Let_def advances_same)

lemma get_object_advances: "keeps (advances env parse) (Registry_Api.get_object digest)"
  by (rule keepsI) (auto simp: Registry_Api.get_object_def intro!: advances_same split: list.split option.split)

lemmas transaction_steps = step_token step_grant step_create step_revoke step_invite step_uninvite step_accept step_limit step_prune step_billing

lemma transactions_advance:
  "keeps (advances env parse) (transact (insert_token hash organization role expires_at kind))"
  "keeps (advances env parse) (transact (grant_package_role name owner_org principal_org role))"
  "sr_status stage = ''staged'' \<Longrightarrow> keeps (advances env parse) (transact (create_stage now stage event_key event maximum))"
  "tb_status t \<in> {''revoked'', ''quarantined''} \<Longrightarrow> keeps (advances env parse) (transact (revoke_version parse now t event_key event))"
  "keeps (advances env parse) (transact (create_invitation token_hash organization email role expires_at))"
  "keeps (advances env parse) (transact (revoke_invitation now token_hash organization))"
  "keeps (advances env parse) (transact (accept_invitation now token_hash subject email))"
  "keeps (advances env parse) (transact (consume_rate_limit now subject bucket maximum window))"
  "keeps (advances env parse) (transact (prune_rate_limits_before cutoff))"
  "keeps (advances env parse) (transact (record_billing_event now event_id event_type payload))"
  by (rule running.keeps_transact, rule advances_step, erule transaction_steps transaction_steps[rotated], assumption?)+

lemma download_advances: "keeps (advances env parse) (modify (record_download name version))"
  by (rule running.keeps_modify) (auto intro: advances_step step_download)

end
