(* ===== verification/Registry_Requests.thy ===== *)
theory Registry_Requests
  imports Registry_Service
begin

text \<open>
  What the requests of the registry do to its tables: every request is a run of the transactions of \<open>Registry_Runs\<close>, so the invariants of
  \<open>Registry_Safety\<close> hold for the service, and only an authorized decision or revocation changes what is published.
\<close>

section \<open>Evaluating requests\<close>

lemma request_simps:
  "andthen (check f) g s = (case f (sv_control s) of Inl e \<Rightarrow> (Inl e, s) | Inr a \<Rightarrow> g a s)"
  "andthen (require b e) h s = (if b then h () s else (Inl e, s))"
  "andthen (query q) k s = k (q (sv_control s)) s"
  "andthen (found x e) l s = (case x of None \<Rightarrow> (Inl e, s) | Some a \<Rightarrow> l a s)"
  "andthen (transact tx) m s = (case tx (sv_control s) of Inl e \<Rightarrow> (Inl Internal, s) | Inr (a, c) \<Rightarrow> m a (s\<lparr>sv_control := c\<rparr>))"
  by (simp_all add: andthen_def check_def require_def query_def found_def transact_def answer_def refuse_def split: sum.split option.split prod.split)

lemma drain_simps: "andthen (drain env now) n s = n () (snd (drain env now s))" "snd (found x e s) = s"
  by (simp_all add: andthen_def drain_def modify_def found_def answer_def refuse_def split: option.split)

lemma done_state: "snd (done_with m s) = snd (m s)"
  by (simp add: done_with_def andthen_def answer_def split: prod.split sum.split)

section \<open>Runs\<close>

lemma keeps_case_prod: "(\<And>a b. keeps R (f a b)) \<Longrightarrow> keeps R (case x of (a, b) \<Rightarrow> f a b)"
  by (cases x) simp

lemmas request_parts = running.keeps_andthen running.keeps_if running.keeps_simple keeps_case_prod drain_advances log_event_advances
  put_immutable_advances get_object_advances download_advances transactions_advance

lemma request_stage_advances: "keeps (advances (ow_env ow) (ow_parse ow)) (request_stage ow cf now authorization rq)"
  unfolding request_stage_def Let_def by (intro request_parts) (simp add: stage_of_def)

lemma request_revoke_advances: "keeps (advances (ow_env ow) (ow_parse ow)) (request_revoke ow now authorization name version reason quarantine)"
  unfolding request_revoke_def Let_def by (intro request_parts) (simp add: signed_tombstone_def)

lemma reads_advance:
  "keeps (advances env parse) (view_stage env now authorization i)"
  "keeps (advances env parse) (download_stage env now authorization i)"
  "keeps (advances env parse) (request_stages env now authorization)"
  "keeps (advances env parse) (download_version env now authorization name version)"
  unfolding view_stage_def download_stage_def request_stages_def download_version_def by (intro request_parts)+

lemma access_advances:
  "keeps (advances env parse) (request_token env now authorization token role ttl_secs)"
  "keeps (advances env parse) (request_grant env now authorization name principal_org role)"
  "keeps (advances env parse) (request_invitation env cf now authorization token email role ttl_secs)"
  "keeps (advances env parse) (request_uninvite env now authorization token_id)"
  "keeps (advances env parse) (request_accept env cf now token invitation_token id_token)"
  "keeps (advances env parse) (sso_exchange env cf now token id_token)"
  "keeps (advances env parse) (billing_webhook json billing now signature body)"
  unfolding request_token_def request_grant_def request_invitation_def request_uninvite_def request_accept_def sso_exchange_def
    issue_identity_token_def billing_webhook_def Let_def
  by (intro request_parts)+

text \<open>A decision, case by case: it is refused and changes nothing, or its transaction is taken on the stage it read.\<close>

definition decision_key :: "bool \<Rightarrow> string \<Rightarrow> string" where
  "decision_key approve i = ''stage.'' @ (if approve then ''approved'' else ''rejected'') @ '':'' @ i"

lemma decide_state:
  assumes "authenticate env now authorization (sv_control s) = Inr p" "read_stage i (sv_control s) = Some stage"
  shows "snd (decide env cf now authorization i approve reason s) =
     (if pc_role p = ''admin'' \<and> \<not> (approve \<and> cf_require_step_up cf \<and> pc_kind p \<noteq> ''oidc-mfa'')
          \<and> rl_organization (sr_release stage) = pc_organization p \<and> \<not> (approve \<and> denied (sr_release stage))
      then case decide_stage now stage approve reason (decision_key approve i) (decision_event p stage i approve reason) (sv_control s) of
             Inl e \<Rightarrow> s
           | Inr (b, c) \<Rightarrow> if b then snd (drain env now (s\<lparr>sv_control := c\<rparr>)) else s\<lparr>sv_control := c\<rparr>
      else s)"
  using assms by (auto simp add: decide_def request_simps drain_simps decision_key_def split: sum.split)

lemma decide_cases:
  obtains (refused) "snd (decide env cf now authorization i approve reason s) = s"
  | (decided) p stage b c where "authenticate env now authorization (sv_control s) = Inr p" "pc_role p = ''admin''"
      "\<not> (approve \<and> cf_require_step_up cf \<and> pc_kind p \<noteq> ''oidc-mfa'')" "read_stage i (sv_control s) = Some stage"
      "rl_organization (sr_release stage) = pc_organization p" "\<not> (approve \<and> denied (sr_release stage))"
      "decide_stage now stage approve reason (decision_key approve i) (decision_event p stage i approve reason) (sv_control s) = Inr (b, c)"
      "snd (decide env cf now authorization i approve reason s) = (if b then snd (drain env now (s\<lparr>sv_control := c\<rparr>)) else s\<lparr>sv_control := c\<rparr>)"
proof (cases "authenticate env now authorization (sv_control s)")
  case (Inl e) then show thesis using refused by (simp add: decide_def request_simps)
next
  case (Inr p)
  note p = Inr
  show thesis
  proof (cases "read_stage i (sv_control s)")
    case None then show thesis using refused p by (simp add: decide_def request_simps)
  next
    case (Some stage)
    note d = decide_state[OF p Some, of cf approve reason]
    show thesis
    proof (cases "decide_stage now stage approve reason (decision_key approve i) (decision_event p stage i approve reason) (sv_control s)")
      case (Inl e) then show thesis using refused d by (simp split: if_splits)
    next
      case (Inr r)
      then obtain b c where r: "decide_stage now stage approve reason (decision_key approve i) (decision_event p stage i approve reason) (sv_control s) = Inr (b, c)"
        by (cases r) simp
      show thesis
      proof (cases "pc_role p = ''admin'' \<and> \<not> (approve \<and> cf_require_step_up cf \<and> pc_kind p \<noteq> ''oidc-mfa'')
          \<and> rl_organization (sr_release stage) = pc_organization p \<and> \<not> (approve \<and> denied (sr_release stage))")
        case False then show thesis by (intro refused) (simp only: d if_False)
      next
        case True then show thesis using decided[OF p _ _ Some _ _ r] d unfolding r by simp
      qed
    qed
  qed
qed

lemma decide_advances: "keeps (advances env parse) (decide env cf now authorization i approve reason)"
proof (rule keepsI)
  fix s :: service
  show "advances env parse s (snd (decide env cf now authorization i approve reason s))"
  proof (cases rule: decide_cases[of env cf now authorization i approve reason s])
    case refused then show ?thesis by (simp add: advances_same)
  next
    case (decided p stage b c)
    have "(registry_step env parse)\<^sup>*\<^sup>* (sv_control s, seen) (c, insert stage seen)" for seen
      using step_read[OF decided(4)] step_decide[of stage "insert stage seen", OF _ decided(6,7)]
      by (meson insertI1 rtranclp.rtrancl_into_rtrancl rtranclp.rtrancl_refl)
    then have "advances env parse s (s\<lparr>sv_control := c\<rparr>)" by (auto simp: advances_def)
    moreover from this have "advances env parse s (snd (drain env now (s\<lparr>sv_control := c\<rparr>)))"
      using drain_advances[of env parse now] by (rule_tac advances_trans) (auto simp: keeps_def)
    ultimately show ?thesis using decided(8) by simp
  qed
qed

lemma route_advances: "keeps (advances (ow_env ow) (ow_parse ow)) (route ow cf billing now authorization call)"
  by (cases call) (simp_all add: done_with_def running.keeps_andthen running.keeps_reads request_stage_advances request_revoke_advances reads_advance
    access_advances decide_advances)

lemma serve_advances: "keeps (advances (ow_env ow) (ow_parse ow)) (serve ow cf billing a)"
  unfolding serve_def enforce_registry_rate_limit_def by (intro request_parts route_advances)

lemma serve_all_advances: "advances (ow_env ow) (ow_parse ow) s (serve_all ow cf billing arrivals s)"
proof (induction arrivals arbitrary: s)
  case Nil then show ?case by (simp add: serve_all_def advances_same)
next
  case (Cons a arrivals)
  have "advances (ow_env ow) (ow_parse ow) s (snd (serve ow cf billing a s))" using serve_advances[of ow cf billing a] by (simp add: keeps_def)
  from advances_trans[OF this Cons.IH] show ?case by (simp add: serve_all_def)
qed

lemma served_run:
  assumes "(registry_step (ow_env ow) (ow_parse ow))\<^sup>*\<^sup>* (empty_control, {}) (sv_control s, seen)"
  shows "\<exists>seen'. (registry_step (ow_env ow) (ow_parse ow))\<^sup>*\<^sup>* (sv_control s, seen) (sv_control (serve_all ow cf billing arrivals s), seen')"
proof -
  have "outbox_ids (sv_control s)" using outbox_ids_run[OF assms] by (simp add: outbox_ids_def empty_control_def)
  then show ?thesis using serve_all_advances[of ow s cf billing arrivals] by (simp add: advances_def)
qed

lemma requests_good:
  assumes "(registry_step (ow_env ow) (ow_parse ow))\<^sup>*\<^sup>* (empty_control, {}) (sv_control s, seen)"
  shows "\<exists>seen'. (registry_step (ow_env ow) (ow_parse ow))\<^sup>*\<^sup>* (sv_control s, seen) (sv_control (serve_all ow cf billing arrivals s), seen')
    \<and> registry_good (sv_control (serve_all ow cf billing arrivals s), seen') \<and> log_good (ow_env ow) (sv_control (serve_all ow cf billing arrivals s), seen')"
  using served_run[OF assms] registry.run_good registry.reachable_good[OF assms] event_log.run_good event_log.reachable_good[OF assms] by metis

end
