(* ===== verification/Registry_Authority.thy ===== *)
theory Registry_Authority
  imports Registry_Requests
begin

text \<open>
  Who may change what is published. The shelf is what clients install from: every published version with its status and release, and the tags.
  Of all requests only a decision and a revocation change it, and only for the principals the service means to let do so.
\<close>

section \<open>The shelf\<close>

definition shelf :: "control \<Rightarrow> (string \<times> string \<times> string \<times> release) list \<times> tag_row list" where
  "shelf c = (map (\<lambda>v. (vr_name v, vr_version v, vr_status v, vr_release v)) (versions c), dist_tags c)"

definition same_shelf :: "service \<Rightarrow> service \<Rightarrow> bool" where
  "same_shelf s t \<longleftrightarrow> shelf (sv_control t) = shelf (sv_control s)"

interpretation shelved: progress same_shelf
  by unfold_locales (simp_all add: same_shelf_def)

lemma same_shelf_catalog: "catalog c = catalog (sv_control s) \<Longrightarrow> same_shelf s (s\<lparr>sv_control := c\<rparr>)"
  by (simp add: same_shelf_def shelf_def catalog_def)

lemma deliver_catalog: "catalog (fst (fold (deliver_row env now) rs st)) = catalog (fst st)"
proof (induction rs arbitrary: st)
  case (Cons r rs)
  have "catalog (fst (deliver_row env now r st)) = catalog (fst st)"
    by (auto simp: deliver_row_def mark_outbox_delivered_def retry_outbox_def quiet_fields split: sum.split dest: append_event_catalog)
  then show ?case using Cons.IH by simp
qed simp

lemma drain_catalog: "catalog (sv_control (snd (drain env now s))) = catalog (sv_control s)"
  by (simp add: drain_def modify_def drain_outbox_def deliver_catalog)

lemma drain_shelf: "keeps same_shelf (drain env now)"
  using drain_catalog[of env now] by (simp add: keeps_def same_shelf_def shelf_def catalog_def)

lemma log_event_shelf: "keeps same_shelf (log_event env now event)"
  unfolding log_event_def append_event_def
  by (rule shelved.keeps_transact) (auto intro!: same_shelf_catalog append_event_catalog simp: map_sum_def split: sum.splits)

lemma objects_shelf: "keeps same_shelf (put_immutable digest bytes)" "keeps same_shelf (Registry_Api.get_object digest)"
  by (rule keepsI; auto simp: put_immutable_def Let_def Registry_Api.get_object_def same_shelf_def split: list.split option.split)+

lemma quiet_transactions:
  "insert_token hash organization role expires_at kind c = Inr (u, c') \<Longrightarrow> catalog c' = catalog c"
  "grant_package_role name owner_org principal_org role c = Inr (u, c') \<Longrightarrow> catalog c' = catalog c"
  "Registry_Control.create_invitation token_hash organization email role expires_at c = Inr (u, c') \<Longrightarrow> catalog c' = catalog c"
  "Registry_Control.revoke_invitation now token_hash organization c = Inr (b, c') \<Longrightarrow> catalog c' = catalog c"
  "Registry_Control.accept_invitation now token_hash subject email c = Inr (r, c') \<Longrightarrow> catalog c' = catalog c"
  "consume_rate_limit now subject bucket maximum window c = Inr (b, c') \<Longrightarrow> catalog c' = catalog c"
  "record_billing_event now event_id event_type payload c = Inr (b, c') \<Longrightarrow> catalog c' = catalog c"
  by (auto simp: insert_token_def grant_package_role_def create_invitation_def revoke_invitation_def accept_invitation_def consume_rate_limit_def
      record_billing_event_def bind_result_Inr_iff Let_def quiet_fields split: option.splits if_splits)

lemma transactions_shelf:
  "keeps same_shelf (transact (insert_token hash organization role expires_at kind))"
  "keeps same_shelf (transact (grant_package_role name owner_org principal_org role))"
  "keeps same_shelf (transact (Registry_Control.create_invitation token_hash organization email role expires_at))"
  "keeps same_shelf (transact (Registry_Control.revoke_invitation now token_hash organization))"
  "keeps same_shelf (transact (Registry_Control.accept_invitation now token_hash subject email))"
  "keeps same_shelf (transact (consume_rate_limit now subject bucket maximum window))"
  "keeps same_shelf (transact (record_billing_event now event_id event_type payload))"
  by (rule shelved.keeps_transact, rule same_shelf_catalog, erule quiet_transactions)+

lemma create_stage_shelf: "keeps same_shelf (transact (create_stage now stage event_key event maximum))"
  by (rule shelved.keeps_transact) (erule create_stage_cases; simp add: same_shelf_def shelf_def)

lemma download_shelf: "keeps same_shelf (modify (record_download name version))"
  by (rule shelved.keeps_modify) (simp add: same_shelf_def shelf_def record_download_def update_rows_def)

lemmas shelf_parts = shelved.keeps_andthen shelved.keeps_if shelved.keeps_simple keeps_case_prod drain_shelf log_event_shelf objects_shelf transactions_shelf
  create_stage_shelf download_shelf

lemma requests_shelf:
  "keeps same_shelf (request_stage ow cf now authorization rq)"
  "keeps same_shelf (view_stage env now authorization i)"
  "keeps same_shelf (download_stage env now authorization i)"
  "keeps same_shelf (request_stages env now authorization)"
  "keeps same_shelf (download_version env now authorization name version)"
  "keeps same_shelf (request_token env now authorization token role ttl_secs)"
  "keeps same_shelf (request_grant env now authorization name principal_org role)"
  "keeps same_shelf (request_invitation env cf now authorization token email role ttl_secs)"
  "keeps same_shelf (request_uninvite env now authorization token_id)"
  "keeps same_shelf (request_accept env cf now token invitation_token id_token)"
  "keeps same_shelf (sso_exchange env cf now token id_token)"
  "keeps same_shelf (billing_webhook json billing now signature body)"
  unfolding request_stage_def view_stage_def download_stage_def request_stages_def download_version_def request_token_def request_grant_def
    request_invitation_def request_uninvite_def request_accept_def sso_exchange_def issue_identity_token_def billing_webhook_def Let_def
  by (intro shelf_parts)+

section \<open>Decisions and revocations\<close>

lemma decide_shelf:
  assumes "shelf (sv_control (snd (decide env cf now authorization i approve reason s))) \<noteq> shelf (sv_control s)"
  shows "\<exists>p stage. authenticate env now authorization (sv_control s) = Inr p \<and> approve \<and> pc_role p = ''admin''
     \<and> (cf_require_step_up cf \<longrightarrow> pc_kind p = ''oidc-mfa'') \<and> read_stage i (sv_control s) = Some stage \<and> sr_status stage = ''staged''
     \<and> rl_organization (sr_release stage) = pc_organization p \<and> \<not> denied (sr_release stage)
     \<and> shelf (sv_control (snd (decide env cf now authorization i approve reason s))) =
         (fst (shelf (sv_control s)) @ [(sr_name stage, sr_version stage, ''active'', sr_release stage)],
          upsert_row (\<lambda>r. (dt_name r, dt_tag r)) (\<lambda>r. r\<lparr>dt_version := sr_version stage\<rparr>)
            \<lparr>dt_name = sr_name stage, dt_tag = sr_tag stage, dt_version = sr_version stage\<rparr> (dist_tags (sv_control s)))"
proof (cases rule: decide_cases[of env cf now authorization i approve reason s])
  case refused then show ?thesis using assms by simp
next
  case (decided p stage b c)
  have shelf: "shelf (sv_control (snd (decide env cf now authorization i approve reason s))) = shelf c"
    using decided(8) drain_shelf[of env now] by (simp add: keeps_def same_shelf_def)
  from decided(7) show ?thesis
  proof (cases rule: decide_stage_cases)
    case undecided then show ?thesis using assms shelf by simp
  next
    case (rejected g)
    then show ?thesis using assms unfolding shelf by (simp add: shelf_def catalog_def)
  next
    case (approved g s1)
    obtain h where h: "row_at sr_id i (stages (sv_control s)) = Some h" "stage = stage_record.truncate h" using decided(4) by (auto simp: read_stage_def)
    have "sr_status stage = ''staged''"
      using decided(7) approved(1) h row_at_Some[OF h(1)] by (auto simp: decide_stage_def split: if_splits)
    moreover have "shelf c = (fst (shelf (sv_control s)) @ [(sr_name stage, sr_version stage, ''active'', sr_release stage)],
          upsert_row (\<lambda>r. (dt_name r, dt_tag r)) (\<lambda>r. r\<lparr>dt_version := sr_version stage\<rparr>)
            \<lparr>dt_name = sr_name stage, dt_tag = sr_tag stage, dt_version = sr_version stage\<rparr> (dist_tags (sv_control s)))"
      using publish_stage_Inr(2,3)[OF approved(6)] approved(7) by (simp add: shelf_def catalog_def)
    ultimately show ?thesis using decided approved(2) unfolding shelf by blast
  qed
qed

lemma revoke_shelf:
  assumes "shelf (sv_control (snd (request_revoke ow now authorization name version reason quarantine s))) \<noteq> shelf (sv_control s)"
  shows "\<exists>p owner. authenticate (ow_env ow) now authorization (sv_control s) = Inr p \<and> authorize_name p name True (sv_control s) = Inr owner
     \<and> fst (shelf (sv_control (snd (request_revoke ow now authorization name version reason quarantine s)))) =
         map (\<lambda>(n, v, st, r). (n, v, if (n, v) = (name, version) then if quarantine then ''quarantined'' else ''revoked'' else st, r)) (fst (shelf (sv_control s)))"
proof (cases "authenticate (ow_env ow) now authorization (sv_control s)")
  case (Inl e) then show ?thesis using assms by (simp add: request_revoke_def request_simps)
next
  case (Inr p)
  note 1 = Inr
  show ?thesis
  proof (cases "authorize_name p name True (sv_control s)")
    case (Inl e) then show ?thesis using assms 1 by (simp add: request_revoke_def request_simps)
  next
    case (Inr owner)
    let ?status = "if quarantine then ''quarantined'' else ''revoked''"
    let ?t = "signed_tombstone (ow_env ow) name version ?status reason (pc_organization p) now"
    let ?tx = "revoke_version (ow_parse ow) now ?t (''version.'' @ ?status @ '':'' @ name @ ''@'' @ version) (tombstone_event ?t) (sv_control s)"
    show ?thesis
    proof (cases ?tx)
      case (Inl e) then show ?thesis using assms 1 \<open>_ = Inr owner\<close> by (simp add: request_revoke_def request_simps Let_def)
    next
      case (Inr r)
      then obtain b c where r: "?tx = Inr (b, c)" by (cases r) simp
      have t: "snd (request_revoke ow now authorization name version reason quarantine s) =
          (if b then snd (drain (ow_env ow) now (s\<lparr>sv_control := c\<rparr>)) else s\<lparr>sv_control := c\<rparr>)"
        using 1 \<open>_ = Inr owner\<close> r by (simp add: request_revoke_def request_simps drain_simps Let_def answer_def)
      have shelf: "shelf (sv_control (snd (request_revoke ow now authorization name version reason quarantine s))) = shelf c"
        using t drain_shelf[of "ow_env ow" now] by (simp add: keeps_def same_shelf_def)
      from r show ?thesis
      proof (cases rule: revoke_version_cases)
        case unknown then show ?thesis using assms shelf by simp
      next
        case (revoked v)
        have "fst (shelf c) = map (\<lambda>(n, v, st, r). (n, v, if (n, v) = (name, version) then ?status else st, r)) (fst (shelf (sv_control s)))"
          unfolding shelf_def revoked(8) by (auto simp: update_rows_def signed_tombstone_def)
        then show ?thesis using 1 \<open>_ = Inr owner\<close> unfolding shelf by blast
      qed
    qed
  qed
qed

section \<open>All requests\<close>

lemma limited_reads:
  "authenticate env now authorization (c\<lparr>rate_limits := rows\<rparr>) = authenticate env now authorization c"
  "authorize_name p name w (c\<lparr>rate_limits := rows\<rparr>) = authorize_name p name w c"
  "read_stage i (c\<lparr>rate_limits := rows\<rparr>) = read_stage i c"
  "shelf (c\<lparr>rate_limits := rows\<rparr>) = shelf c" "dist_tags (c\<lparr>rate_limits := rows\<rparr>) = dist_tags c"
  by (simp_all add: authenticate_def token_principal_def authorize_name_def package_record_def package_role_def read_stage_def shelf_def split: option.split)

lemma serve_cases:
  obtains (limited) rows where "snd (serve ow cf billing a s) = s\<lparr>sv_control := sv_control s\<lparr>rate_limits := rows\<rparr>\<rparr>"
  | (routed) rows where "snd (serve ow cf billing a s) =
      snd (route ow cf billing (av_now a) (av_authorization a) (av_call a) (s\<lparr>sv_control := sv_control s\<lparr>rate_limits := rows\<rparr>\<rparr>))"
proof (cases "av_path a \<in> {''/livez'', ''/readyz'', ''/health'', ''/metrics''}")
  case True
  then have "snd (serve ow cf billing a s) = snd (route ow cf billing (av_now a) (av_authorization a) (av_call a) s)"
    unfolding serve_def enforce_registry_rate_limit_def by (simp only: if_True)
  then show thesis using routed[of "rate_limits (sv_control s)"] by simp
next
  case False
  obtain b rows where "consume_rate_limit (av_now a) (rate_subject (ow_env ow) (av_authorization a)) ''api-minute'' (cf_requests_per_minute cf) 60 (sv_control s)
      = Inr (b, sv_control s\<lparr>rate_limits := rows\<rparr>)" by (auto simp: consume_rate_limit_def Let_def)
  then show thesis using limited[of rows] routed[of rows] False
    unfolding serve_def enforce_registry_rate_limit_def by (cases b) (simp_all add: request_simps)
qed

text \<open>
  C2: Only authorized requests change what is published. If the versions, their status or the tags are different after a request, then its bearer token is valid and
  either it approves a stage that is still open and not denied, as an administrator of the organization that owns it, with an identity from a stepped-up login where the
  registry requires one, and exactly that stage's release and tag are added; or it revokes one version of a package its principal may write, and only that version's
  status changes.
\<close>

theorem publication_authorized:
  assumes "t = snd (serve ow cf billing a s)" "shelf (sv_control t) \<noteq> shelf (sv_control s)"
  shows "\<exists>p. authenticate (ow_env ow) (av_now a) (av_authorization a) (sv_control s) = Inr p \<and>
    ((\<exists>i reason stage. av_call a = Decide i True reason \<and> pc_role p = ''admin'' \<and> (cf_require_step_up cf \<longrightarrow> pc_kind p = ''oidc-mfa'')
        \<and> read_stage i (sv_control s) = Some stage \<and> sr_status stage = ''staged'' \<and> rl_organization (sr_release stage) = pc_organization p
        \<and> \<not> denied (sr_release stage)
        \<and> shelf (sv_control t) = (fst (shelf (sv_control s)) @ [(sr_name stage, sr_version stage, ''active'', sr_release stage)],
             upsert_row (\<lambda>r. (dt_name r, dt_tag r)) (\<lambda>r. r\<lparr>dt_version := sr_version stage\<rparr>)
               \<lparr>dt_name = sr_name stage, dt_tag = sr_tag stage, dt_version = sr_version stage\<rparr> (dist_tags (sv_control s))))
     \<or> (\<exists>name version reason quarantine owner. av_call a = Revoke name version reason quarantine \<and> authorize_name p name True (sv_control s) = Inr owner
        \<and> fst (shelf (sv_control t)) =
            map (\<lambda>(n, v, st, r). (n, v, if (n, v) = (name, version) then if quarantine then ''quarantined'' else ''revoked'' else st, r)) (fst (shelf (sv_control s)))))"
proof (cases rule: serve_cases[of ow cf billing a s])
  case (limited rows) then show ?thesis using assms by (simp add: limited_reads)
next
  case (routed rows)
  define s1 where "s1 = s\<lparr>sv_control := sv_control s\<lparr>rate_limits := rows\<rparr>\<rparr>"
  have t: "t = snd (route ow cf billing (av_now a) (av_authorization a) (av_call a) s1)" using assms(1) routed by (simp add: s1_def)
  have s1: "shelf (sv_control s1) = shelf (sv_control s)" "dist_tags (sv_control s1) = dist_tags (sv_control s)"
    "read_stage i (sv_control s1) = read_stage i (sv_control s)"
    "authenticate env now authorization (sv_control s1) = authenticate env now authorization (sv_control s)"
    "authorize_name p name w (sv_control s1) = authorize_name p name w (sv_control s)" for i env now authorization p name w
    by (simp_all add: s1_def limited_reads)
  have changed: "shelf (sv_control t) \<noteq> shelf (sv_control s1)" using assms(2) by (simp add: s1)
  note same = requests_shelf[unfolded keeps_def same_shelf_def, rule_format]
  show ?thesis
  proof (cases "av_call a")
    case (Decide i approve reason)
    then have t': "t = snd (decide (ow_env ow) cf (av_now a) (av_authorization a) i approve reason s1)" using t by (simp add: done_state)
    show ?thesis using decide_shelf[OF changed[unfolded t'], folded t'] Decide by (auto simp: s1)
  next
    case (Revoke name version reason quarantine)
    then have t': "t = snd (request_revoke ow (av_now a) (av_authorization a) name version reason quarantine s1)" using t by (simp add: done_state)
    show ?thesis using revoke_shelf[OF changed[unfolded t'], folded t'] Revoke by (auto simp: s1)
  qed (use changed t in \<open>simp_all add: done_state same\<close>)
qed

section \<open>A sample service\<close>

definition sample_outside :: "(unit, nat) outside" where
  "sample_outside = \<lparr>ow_env = sample_env, ow_parse = sample_parse, ow_entries = (\<lambda>_. []), ow_json = (\<lambda>_. None), ow_assess = sample_assess_lib, ow_files = Dir [], ow_temp = []\<rparr>"

definition sample_config :: registry_config where
  "sample_config = \<lparr>cf_public_url = [], cf_require_step_up = False, cf_requests_per_minute = 10, cf_maximum_pending_stages = 10, cf_mailer = None,
     cf_accept_url = None, cf_oidc = None\<rparr>"

definition sample_approval :: arrival where
  "sample_approval = \<lparr>av_now = 0, av_path = [], av_authorization = Some ''Bearer h'', av_call = Decide ''i'' True None\<rparr>"

definition sample_service :: service where
  "sample_service = \<lparr>sv_control = sample_staged, sv_objects = []\<rparr>"

lemma sample_admin: "authenticate sample_env 0 (Some ''Bearer h'') sample_staged = Inr \<lparr>pc_organization = ''acme'', pc_role = ''admin'', pc_kind = ''bootstrap''\<rparr>"
proof -
  have "bearer_optional (Some ''Bearer h'') = Inr (Some ''h'')" by code_simp
  then show ?thesis by (simp add: authenticate_def token_principal_def sample_env_def sample_tables)
qed

lemma sample_decision:
  obtains c where "decide_stage 0 sample_stage True None (decision_key True ''i'') event (sample_staged\<lparr>rate_limits := rows\<rparr>) = Inr (True, c)"
    "shelf c = ([(''p'', ''1'', ''active'', sample_release)], [\<lparr>dt_name = ''p'', dt_tag = ''latest'', dt_version = ''1''\<rparr>])"
proof
  show "decide_stage 0 sample_stage True None (decision_key True ''i'') event (sample_staged\<lparr>rate_limits := rows\<rparr>)
    = Inr (True, sample_published\<lparr>rate_limits := rows, registry_outbox := [sample_row 1 ''a'', (sample_row 2 (decision_key True ''i''))\<lparr>ob_event := event\<rparr>]\<rparr>)"
    by (simp add: decide_stage_def publish_stage_def set_stage_status_def enqueue_event_def sample_tables decision_key_def)
qed (simp add: shelf_def sample_published_def sample_version_def)

lemma sample_approved:
  "shelf (sv_control (snd (serve sample_outside sample_config None sample_approval sample_service))) =
     ([(''p'', ''1'', ''active'', sample_release)], [\<lparr>dt_name = ''p'', dt_tag = ''latest'', dt_version = ''1''\<rparr>])"
proof -
  obtain rows where limit: "consume_rate_limit 0 (rate_subject sample_env (Some ''Bearer h'')) ''api-minute'' 10 60 sample_staged = Inr (True, sample_staged\<lparr>rate_limits := rows\<rparr>)"
    by (simp add: consume_rate_limit_def Let_def row_at_upsert upsert_row_def sample_staged_def empty_control_def row_at_def)
  define s1 where "s1 = sample_service\<lparr>sv_control := sample_staged\<lparr>rate_limits := rows\<rparr>\<rparr>"
  have served: "snd (serve sample_outside sample_config None sample_approval sample_service) = snd (decide sample_env sample_config 0 (Some ''Bearer h'') ''i'' True None s1)"
    using limit by (simp add: serve_def enforce_registry_rate_limit_def sample_approval_def sample_outside_def sample_config_def request_simps sample_service_def
      done_state s1_def)
  have "authenticate sample_env 0 (Some ''Bearer h'') (sv_control s1) = Inr \<lparr>pc_organization = ''acme'', pc_role = ''admin'', pc_kind = ''bootstrap''\<rparr>"
    by (simp add: s1_def limited_reads sample_admin)
  moreover have "read_stage ''i'' (sv_control s1) = Some sample_stage" by (simp add: s1_def limited_reads read_stage_def sample_tables)
  moreover have "\<not> denied sample_release" "sr_release sample_stage = sample_release" "rl_organization sample_release = ''acme''"
    by (simp_all add: denied_def sample_stage_def sample_release_def json_get_def)
  moreover obtain c where "decide_stage 0 sample_stage True None (decision_key True ''i'')
      (decision_event \<lparr>pc_organization = ''acme'', pc_role = ''admin'', pc_kind = ''bootstrap''\<rparr> sample_stage ''i'' True None) (sv_control s1) = Inr (True, c)"
    "shelf c = ([(''p'', ''1'', ''active'', sample_release)], [\<lparr>dt_name = ''p'', dt_tag = ''latest'', dt_version = ''1''\<rparr>])"
    unfolding s1_def by (rule sample_decision) simp
  ultimately have "snd (decide sample_env sample_config 0 (Some ''Bearer h'') ''i'' True None s1) = snd (drain sample_env 0 (s1\<lparr>sv_control := c\<rparr>))"
    "shelf c = ([(''p'', ''1'', ''active'', sample_release)], [\<lparr>dt_name = ''p'', dt_tag = ''latest'', dt_version = ''1''\<rparr>])"
    by (simp_all add: decide_state sample_config_def)
  then show ?thesis using drain_shelf[of sample_env 0] unfolding served by (simp add: keeps_def same_shelf_def)
qed

theorem publication_authorized_witness:
  "\<exists>p. authenticate sample_env 0 (Some ''Bearer h'') sample_staged = Inr p \<and> pc_role p = ''admin'' \<and> pc_organization p = ''acme''"
proof -
  have "shelf (sv_control sample_service) = ([], [])" by (simp add: shelf_def sample_service_def sample_staged_def empty_control_def)
  then have "shelf (sv_control (snd (serve sample_outside sample_config None sample_approval sample_service))) \<noteq> shelf (sv_control sample_service)"
    by (simp add: sample_approved)
  moreover have "read_stage ''i'' sample_staged = Some sample_stage" by (simp add: read_stage_def sample_tables)
  moreover have "rl_organization (sr_release sample_stage) = ''acme''" by (simp add: sample_stage_def sample_release_def)
  ultimately show ?thesis using publication_authorized[OF refl, of sample_outside sample_config None sample_approval sample_service]
    by (auto simp: sample_outside_def sample_approval_def sample_service_def)
qed

text \<open>
  C12: The service refines the transaction system. Whatever sequence of requests is served, from any reachable state of the tables and with any outside world, the tables
  move by a run of the transactions whose invariants the other properties state, with the stages read on the way as the only decisions' subjects, so a request that
  fails half way leaves a state of that system too.
\<close>

theorem requests_refine_runs:
  assumes "(registry_step (ow_env ow) (ow_parse ow))\<^sup>*\<^sup>* (empty_control, {}) (sv_control s, seen)"
  shows "\<exists>seen'. (registry_step (ow_env ow) (ow_parse ow))\<^sup>*\<^sup>* (sv_control s, seen) (sv_control (serve_all ow cf billing arrivals s), seen')
    \<and> registry_good (sv_control (serve_all ow cf billing arrivals s), seen') \<and> log_good (ow_env ow) (sv_control (serve_all ow cf billing arrivals s), seen')"
  by (rule requests_good[OF assms])

theorem requests_refine_runs_witness:
  "\<exists>seen'. (registry_step sample_env sample_parse)\<^sup>*\<^sup>* (sample_staged, {sample_stage})
     (sv_control (serve_all sample_outside sample_config None [sample_approval] sample_service), seen')"
proof -
  have "(registry_step (ow_env sample_outside) (ow_parse sample_outside))\<^sup>*\<^sup>* (empty_control, {}) (sv_control sample_service, {sample_stage})"
    using sample_run_staged by (simp add: sample_outside_def sample_service_def)
  from requests_refine_runs[OF this, of sample_config None "[sample_approval]"] show ?thesis by (auto simp: sample_outside_def sample_service_def)
qed

end
