(* ===== verification/Registry_Downloads.thy ===== *)
theory Registry_Downloads
  imports Registry_Authority
begin

text \<open>
  From a stage to a download: the artifact of every stage is in every store under its digest, and it is the artifact that the service assessed. What a
  client can download is therefore exactly what was assessed and not denied, and what is published can be downloaded.
\<close>

section \<open>Stores\<close>

definition stores_grow :: "(string \<times> string) list list \<Rightarrow> (string \<times> string) list list \<Rightarrow> bool" where
  "stores_grow xs ys \<longleftrightarrow> list_all2 (\<lambda>a b. map_of a \<subseteq>\<^sub>m map_of b) xs ys"

lemma stores_refl: "stores_grow xs xs"
  by (simp add: stores_grow_def list_all2_refl)

lemma stores_trans: "stores_grow xs ys \<Longrightarrow> stores_grow ys zs \<Longrightarrow> stores_grow xs zs"
  unfolding stores_grow_def by (rule list_all2_trans) (rule map_le_trans)

lemma stores_keep: "stores_grow xs ys \<Longrightarrow> \<forall>a\<in>set xs. map_of a k = Some v \<Longrightarrow> \<forall>b\<in>set ys. map_of b k = Some v"
  unfolding stores_grow_def by (induction rule: list_all2_induct) (auto simp: map_le_def dom_def)

lemma put_one_grows: "put_one digest bytes store = Some store' \<Longrightarrow> map_of store \<subseteq>\<^sub>m map_of store' \<and> map_of store' digest = Some bytes"
  by (auto simp: put_one_def map_le_def split: option.splits if_splits)

lemma put_all_grows:
  "stores_grow stores (snd (put_all digest bytes stores)) \<and> (fst (put_all digest bytes stores) \<longrightarrow> (\<forall>a\<in>set (snd (put_all digest bytes stores)). map_of a digest = Some bytes))"
proof (induction stores)
  case (Cons store stores)
  then show ?case using put_one_grows[of digest bytes store] stores_refl[of stores]
    by (auto simp: stores_grow_def map_prod_def split: option.split prod.split)
qed (simp add: stores_grow_def)

section \<open>Assessed stages\<close>

definition assessed :: "('k, 'v::linorder) outside \<Rightarrow> registry_config \<Rightarrow> (string \<times> string) list list \<Rightarrow> string \<Rightarrow> string \<Rightarrow> release \<Rightarrow> bool" where
  "assessed ow cf stores name version r \<longleftrightarrow>
     (\<exists>tarball publisher now b. rl_digest r = rg_sha256 (ow_env ow) tarball \<and> (\<forall>store\<in>set stores. map_of store (rl_digest r) = Some tarball)
       \<and> manifest_from_tarball (ow_json ow) (ow_entries ow tarball) name version = Inr (rl_manifest r)
       \<and> assess_tarball (ow_assess ow) (ow_files ow) (ow_temp ow) (ow_entries ow tarball) tarball (rl_manifest r) name version publisher (cf_public_url cf) now = Inr b
       \<and> rl_assessment r = signed_verdict (ow_env ow) (ab_verdict b))"

definition all_assessed :: "('k, 'v::linorder) outside \<Rightarrow> registry_config \<Rightarrow> service \<Rightarrow> bool" where
  "all_assessed ow cf s \<longleftrightarrow> (\<forall>g\<in>set (stages (sv_control s)). assessed ow cf (sv_objects s) (sr_name g) (sr_version g) (sr_release g))"

definition stays_assessed :: "('k, 'v::linorder) outside \<Rightarrow> registry_config \<Rightarrow> service \<Rightarrow> service \<Rightarrow> bool" where
  "stays_assessed ow cf s t \<longleftrightarrow> stores_grow (sv_objects s) (sv_objects t) \<and> (all_assessed ow cf s \<longrightarrow> all_assessed ow cf t)"

interpretation assessing: progress "stays_assessed ow cf"
  by unfold_locales (auto simp: stays_assessed_def stores_refl elim: stores_trans)

lemma assessed_grows: "stores_grow xs ys \<Longrightarrow> assessed ow cf xs name version r \<Longrightarrow> assessed ow cf ys name version r"
  unfolding assessed_def using stores_keep[of xs ys] by metis

lemma stays_objects: "stores_grow (sv_objects s) objects \<Longrightarrow> stays_assessed ow cf s (s\<lparr>sv_objects := objects\<rparr>)"
  unfolding stays_assessed_def all_assessed_def using assessed_grows[of "sv_objects s" objects ow cf] by auto

lemma stays_stages:
  assumes "\<forall>h\<in>set (stages c). \<exists>g\<in>set (stages (sv_control s)). sr_name h = sr_name g \<and> sr_version h = sr_version g \<and> sr_release h = sr_release g"
  shows "stays_assessed ow cf s (s\<lparr>sv_control := c\<rparr>)"
  using assms by (fastforce simp: stays_assessed_def all_assessed_def stores_refl)

lemma stays_catalog: "catalog c = catalog (sv_control s) \<Longrightarrow> stays_assessed ow cf s (s\<lparr>sv_control := c\<rparr>)"
  by (rule stays_stages) (auto simp: catalog_def)

lemma drain_stays: "keeps (stays_assessed ow cf) (drain env now)"
  unfolding drain_def using drain_catalog[of env now] by (intro assessing.keeps_modify stays_catalog) (simp add: drain_def modify_def)

lemma log_event_stays: "keeps (stays_assessed ow cf) (log_event env now event)"
  unfolding log_event_def append_event_def
  by (rule assessing.keeps_transact) (auto intro!: stays_catalog append_event_catalog simp: map_sum_def split: sum.splits)

lemma put_immutable_stays: "keeps (stays_assessed ow cf) (put_immutable digest bytes)"
  by (rule keepsI) (simp add: put_immutable_def Let_def stays_objects put_all_grows)

lemma get_object_stays: "keeps (stays_assessed ow cf) (Registry_Api.get_object digest)"
proof (rule keepsI)
  fix s :: service
  have "stores_grow (primary # replicas) (primary' # replicas)" if "put_one digest bytes primary = Some primary'" for bytes primary primary' replicas
    using put_one_grows[OF that] stores_refl[of replicas] by (simp add: stores_grow_def)
  then show "stays_assessed ow cf s (snd (Registry_Api.get_object digest s))"
    by (auto simp: Registry_Api.get_object_def assessing.refl intro!: stays_objects split: list.split option.split)
qed

lemma transactions_stay:
  "keeps (stays_assessed ow cf) (transact (insert_token hash organization role expires_at kind))"
  "keeps (stays_assessed ow cf) (transact (grant_package_role name owner_org principal_org role))"
  "keeps (stays_assessed ow cf) (transact (Registry_Control.create_invitation token_hash organization email role expires_at))"
  "keeps (stays_assessed ow cf) (transact (Registry_Control.revoke_invitation now token_hash organization))"
  "keeps (stays_assessed ow cf) (transact (Registry_Control.accept_invitation now token_hash subject email))"
  "keeps (stays_assessed ow cf) (transact (consume_rate_limit now subject bucket maximum window))"
  "keeps (stays_assessed ow cf) (transact (record_billing_event now event_id event_type payload))"
  by (rule assessing.keeps_transact, rule stays_catalog, erule quiet_transactions)+

lemma revoke_stays: "keeps (stays_assessed ow cf) (transact (revoke_version parse now t event_key event))"
  by (rule assessing.keeps_transact, rule stays_stages, erule revoke_version_cases) auto

lemma download_stays: "keeps (stays_assessed ow cf) (modify (record_download name version))"
  by (rule assessing.keeps_modify, rule stays_stages) (auto simp: record_download_def)

lemma set_status_same:
  assumes "h \<in> set (stages (set_stage_status i status reason s))"
  shows "\<exists>g\<in>set (stages s). sr_name h = sr_name g \<and> sr_version h = sr_version g \<and> sr_release h = sr_release g"
  using assms unfolding set_status_stage by (elim bexE, intro bexI) (auto split: if_splits)

lemma decide_stage_stays: "keeps (stays_assessed ow cf) (transact (decide_stage now stage approve reason event_key event))"
proof (rule assessing.keeps_transact, rule stays_stages)
  fix s :: service and b c
  assume "decide_stage now stage approve reason event_key event (sv_control s) = Inr (b, c)"
  then show "\<forall>h\<in>set (stages c). \<exists>g\<in>set (stages (sv_control s)). sr_name h = sr_name g \<and> sr_version h = sr_version g \<and> sr_release h = sr_release g"
  proof (cases rule: decide_stage_cases)
    case (rejected g) then show ?thesis using set_status_same by (simp add: catalog_def)
  next
    case (approved g s1) then show ?thesis using publish_stage_Inr(5)[OF approved(6)] set_status_same by (simp add: catalog_def)
  qed auto
qed

lemmas assess_parts = assessing.keeps_andthen assessing.keeps_if assessing.keeps_simple keeps_case_prod drain_stays log_event_stays put_immutable_stays
  get_object_stays transactions_stay revoke_stays download_stays decide_stage_stays

lemma requests_stay:
  "keeps (stays_assessed ow cf) (view_stage env now authorization i)"
  "keeps (stays_assessed ow cf) (download_stage env now authorization i)"
  "keeps (stays_assessed ow cf) (request_stages env now authorization)"
  "keeps (stays_assessed ow cf) (decide env cf' now authorization i approve reason)"
  "keeps (stays_assessed ow cf) (request_revoke ow' now authorization name version why quarantine)"
  "keeps (stays_assessed ow cf) (download_version env now authorization name version)"
  "keeps (stays_assessed ow cf) (request_token env now authorization token role ttl_secs)"
  "keeps (stays_assessed ow cf) (request_grant env now authorization name principal_org role)"
  "keeps (stays_assessed ow cf) (request_invitation env cf' now authorization token email role ttl_secs)"
  "keeps (stays_assessed ow cf) (request_uninvite env now authorization token_id)"
  "keeps (stays_assessed ow cf) (request_accept env cf' now token invitation_token id_token)"
  "keeps (stays_assessed ow cf) (sso_exchange env cf' now token id_token)"
  "keeps (stays_assessed ow cf) (billing_webhook json billing now signature body)"
  unfolding view_stage_def download_stage_def request_stages_def decide_def request_revoke_def download_version_def request_token_def request_grant_def
    request_invitation_def request_uninvite_def request_accept_def sso_exchange_def issue_identity_token_def billing_webhook_def Let_def
  by (intro assess_parts)+

text \<open>Only an artifact that was assessed, and is in every store, is staged.\<close>

lemma create_stage_stays:
  assumes "create_stage now stage event_key event maximum (sv_control s) = Inr (b, c)"
    and "assessed ow cf (sv_objects s) (sr_name stage) (sr_version stage) (sr_release stage)"
  shows "stays_assessed ow cf s (s\<lparr>sv_control := c\<rparr>)"
  using assms(1)
proof (cases rule: create_stage_cases)
  case refused then show ?thesis by (simp add: assessing.refl)
next
  case (staged p) then show ?thesis using assms(2) by (auto simp: stays_assessed_def all_assessed_def stores_refl)
qed

lemma stage_of_assessed:
  fixes ow :: "('k, 'v::linorder) outside"
  assumes "\<forall>store\<in>set stores. map_of store (rg_sha256 (ow_env ow) tarball) = Some tarball"
    and "manifest_from_tarball (ow_json ow) (ow_entries ow tarball) (rq_name rq) (rq_version rq) = Inr manifest"
    and "assess_tarball (ow_assess ow) (ow_files ow) (ow_temp ow) (ow_entries ow tarball) tarball manifest (rq_name rq) (rq_version rq)
           publisher (cf_public_url cf) (nat now) = Inr b"
  shows "assessed ow cf stores (sr_name (stage_of (ow_env ow) now owner rq (rg_sha256 (ow_env ow) tarball) manifest b))
     (sr_version (stage_of (ow_env ow) now owner rq (rg_sha256 (ow_env ow) tarball) manifest b))
     (sr_release (stage_of (ow_env ow) now owner rq (rg_sha256 (ow_env ow) tarball) manifest b))"
  unfolding assessed_def using assms by (intro exI[of _ tarball] exI[of _ publisher] exI[of _ "nat now"] exI[of _ b]) (simp add: stage_of_def)

lemma request_stage_stays: "keeps (stays_assessed ow cf) (request_stage ow cf now authorization rq)"
proof (rule keepsI)
  fix s :: service
  let ?R = "stays_assessed ow cf"
  have stage: "?R s (snd (andthen (put_immutable digest tarball) (\<lambda>_. andthen (transact (create_stage now stage k e m)) (\<lambda>created.
        andthen (require created x) (\<lambda>_. andthen (drain (ow_env ow) now) (\<lambda>_. answer y)))) s))"
    if a: "\<And>stores. \<forall>store\<in>set stores. map_of store digest = Some tarball \<Longrightarrow> assessed ow cf stores (sr_name stage) (sr_version stage) (sr_release stage)"
    for digest tarball stage k e m x and y :: stage_record
  proof -
    let ?p = "put_all digest tarball (sv_objects s)" and ?s = "s\<lparr>sv_objects := snd (put_all digest tarball (sv_objects s))\<rparr>"
    have put: "?R s ?s" by (simp add: stays_objects put_all_grows)
    have tail: "keeps ?R (andthen (require created x) (\<lambda>_. andthen (drain (ow_env ow) now) (\<lambda>_. answer y)))" for created by (intro assess_parts)
    show ?thesis
    proof (cases "fst ?p")
      case False then show ?thesis using put by (simp add: andthen_def put_immutable_def Let_def)
    next
      case True
      then have stored: "assessed ow cf (sv_objects ?s) (sr_name stage) (sr_version stage) (sr_release stage)" using a put_all_grows[of "sv_objects s" digest tarball] by simp
      show ?thesis
      proof (cases "create_stage now stage k e m (sv_control ?s)")
        case (Inl e') then show ?thesis using True put by (simp add: andthen_def put_immutable_def Let_def transact_def)
      next
        case (Inr r)
        obtain b c where r: "r = (b, c)" by (cases r)
        have "?R s (?s\<lparr>sv_control := c\<rparr>)" using assessing.trans[OF put create_stage_stays[OF Inr[unfolded r] stored]] .
        then have "?R s (snd (andthen (require b x) (\<lambda>_. andthen (drain (ow_env ow) now) (\<lambda>_. answer y)) (?s\<lparr>sv_control := c\<rparr>)))"
          using tail[of b] assessing.trans unfolding keeps_def by blast
        then show ?thesis using True Inr r by (simp add: andthen_def[of "put_immutable _ _"] put_immutable_def Let_def request_simps(5))
      qed
    qed
  qed
  show "?R s (snd (request_stage ow cf now authorization rq s))"
    by (auto simp: request_stage_def request_simps(1-4) Let_def assessing.refl split: sum.split_asm sum.split option.split intro!: stage stage_of_assessed)
qed

lemma serve_stays: "keeps (stays_assessed ow cf) (serve ow cf billing a)"
proof -
  have "keeps (stays_assessed ow cf) (route ow cf billing now authorization call)" for now authorization call
    by (cases call) (simp_all add: done_with_def assessing.keeps_andthen assessing.keeps_reads request_stage_stays requests_stay)
  then show ?thesis unfolding serve_def enforce_registry_rate_limit_def by (intro assess_parts)
qed

lemma serve_all_stays: "stays_assessed ow cf s (serve_all ow cf billing arrivals s)"
proof (induction arrivals arbitrary: s)
  case Nil then show ?case by (simp add: serve_all_def assessing.refl)
next
  case (Cons a arrivals)
  have "stays_assessed ow cf s (snd (serve ow cf billing a s))" using serve_stays[of ow cf billing a] by (simp add: keeps_def)
  from assessing.trans[OF this Cons.IH] show ?case by (simp add: serve_all_def)
qed

section \<open>Downloads\<close>

text \<open>A service that was just set up: one administrator, empty tables, and empty stores, the primary one and its replicas.\<close>

definition fresh_service :: "int \<Rightarrow> string \<Rightarrow> string \<Rightarrow> string \<Rightarrow> nat \<Rightarrow> service \<Rightarrow> bool" where
  "fresh_service now organization hash role replicas s \<longleftrightarrow>
     bootstrap_token now organization hash role empty_control = Inr ((), sv_control s) \<and> sv_objects s = replicate (Suc replicas) []"

lemma fresh_served:
  assumes "fresh_service now organization hash role replicas s" and t_def: "t = serve_all ow cf billing arrivals s"
  shows "\<exists>seen. registry_good (sv_control t, seen)" "all_assessed ow cf t" "sv_objects t \<noteq> []"
proof -
  have boot: "bootstrap_token now organization hash role empty_control = Inr ((), sv_control s)" and objects: "sv_objects s = replicate (Suc replicas) []"
    using assms(1) by (simp_all add: fresh_service_def)
  have "(registry_step (ow_env ow) (ow_parse ow))\<^sup>*\<^sup>* (empty_control, {}) (sv_control s, {})" using step_bootstrap[OF boot] by (rule r_into_rtranclp)
  from requests_good[OF this] show "\<exists>seen. registry_good (sv_control t, seen)" unfolding t_def by blast
  have "stages (sv_control s) = []" using boot by (auto simp: bootstrap_token_def Let_def empty_control_def dest!: sym[of _ "sv_control s"])
  then show "all_assessed ow cf t" "sv_objects t \<noteq> []"
    using serve_all_stays[of ow cf s billing arrivals] objects unfolding t_def by (auto simp: stays_assessed_def all_assessed_def stores_grow_def)
qed

lemma version_assessed:
  assumes "registry_good (sv_control s, seen)" "all_assessed ow cf s" "version_record name version (sv_control s) = Some v"
  shows "assessed ow cf (sv_objects s) name version (vr_release v)" "\<not> denied (vr_release v)"
proof -
  have v: "v \<in> set (versions (sv_control s))" "vr_name v = name" "vr_version v = version"
    using assms(3) version_record_iff good_keys[OF assms(1)] by auto
  note r = good_parts(8)[OF assms(1), unfolded reviewed_def]
  obtain g where "g \<in> set (stages (sv_control s))" "published_of v g" using r v(1) by blast
  then show "assessed ow cf (sv_objects s) name version (vr_release v)" using assms(2) v unfolding all_assessed_def published_of_def by metis
  show "\<not> denied (vr_release v)" using r v(1) by blast
qed

definition may_read :: "'k registry_env \<Rightarrow> int \<Rightarrow> string option \<Rightarrow> string \<Rightarrow> version_row \<Rightarrow> control \<Rightarrow> bool" where
  "may_read env now authorization name v s \<longleftrightarrow>
     (rl_private (vr_release v) \<longrightarrow> (\<exists>p owner. authenticate env now authorization s = Inr p \<and> authorize_name p name False s = Inr owner))"

lemma download_answer:
  assumes "sv_objects s \<noteq> []" "assessed ow cf (sv_objects s) name version (vr_release v)" "version_record name version (sv_control s) = Some v"
  shows "(\<exists>bytes. fst (download_version env now authorization name version s) = Inr bytes) \<longleftrightarrow> vr_status v = ''active'' \<and> may_read env now authorization name v (sv_control s)"
    "fst (download_version env now authorization name version s) = Inr bytes \<Longrightarrow> \<forall>store\<in>set (sv_objects s). map_of store (rl_digest (vr_release v)) = Some bytes"
proof -
  obtain tarball where tarball: "\<forall>store\<in>set (sv_objects s). map_of store (rl_digest (vr_release v)) = Some tarball"
    using assms(2) unfolding assessed_def by blast
  then have object: "Registry_Api.get_object (rl_digest (vr_release v)) s = (Inr tarball, s)"
    using assms(1) by (cases "sv_objects s") (simp_all add: Registry_Api.get_object_def)
  let ?guard = "if rl_private (vr_release v)
      then andthen (check (authenticate env now authorization)) (\<lambda>p. andthen (check (authorize_name p name False)) (\<lambda>_. answer ())) else answer ()"
  have guard: "snd (?guard s) = s" "(fst (?guard s) = Inr ()) \<longleftrightarrow> may_read env now authorization name v (sv_control s)"
    by (auto simp: may_read_def request_simps answer_def split: sum.split)
  have "fst (download_version env now authorization name version s) =
      (case fst (?guard s) of Inl e \<Rightarrow> Inl e | Inr u \<Rightarrow> if vr_status v = ''active'' then Inr tarball else Inl (Forbidden (''package version is '' @ vr_status v)))"
    using guard(1) object assms(3)
    by (simp add: download_version_def request_simps andthen_def[of ?guard] andthen_def[of "Registry_Api.get_object _"] andthen_def[of "modify _"] modify_def answer_def
      split: sum.split prod.split)
  then show "(\<exists>bytes. fst (download_version env now authorization name version s) = Inr bytes) \<longleftrightarrow> vr_status v = ''active'' \<and> may_read env now authorization name v (sv_control s)"
    "fst (download_version env now authorization name version s) = Inr bytes \<Longrightarrow> \<forall>store\<in>set (sv_objects s). map_of store (rl_digest (vr_release v)) = Some bytes"
    using guard(2) tarball by (auto split: sum.splits if_splits)
qed

end
