(* ===== verification/Registry_Served.thy ===== *)
theory Registry_Served
  imports Registry_Downloads
begin

text \<open>
  What clients of the registry can rely on: a download is an artifact that was assessed and not denied, published artifacts stay downloadable, and
  every earlier checkpoint of the event log can be proved to be a prefix of every later one.
\<close>

section \<open>Denials\<close>

lemma denied_verdict: "rl_assessment r = signed_verdict env v \<Longrightarrow> denied r \<longleftrightarrow> rv_decision v = Deny"
  by (cases "rv_decision v") (simp_all add: denied_def signed_verdict_def verdict_json_def json_get_def)

lemma not_denied_clean:
  assumes "assess_tarball lib fs temp entries tarball manifest name version publisher registry now = Inr b" "rv_decision (ab_verdict b) \<noteq> Deny"
    and "unpack_archive lib temp entries fs = Inr st" "read_hooks (lib_json (al_scan lib)) (up_tree st) (temp @ [''package'']) = Inr hooks"
  shows "up_secrets st = [] \<and> (\<forall>w\<in>set (package_verdicts (al_scan lib) (scan_files (up_tree st) (temp @ [''package''])) hooks). fst w \<noteq> Verdict_block)"
  using assessment_facts[OF assms(1,3,4) refl] assms(2) by blast

section \<open>A sample life of a package\<close>

definition served_outside :: "(unit, nat) outside" where
  "served_outside = \<lparr>ow_env = sample_env, ow_parse = sample_parse,
     ow_entries = (\<lambda>_. [Some \<lparr>ae_path = ''package/package.json'', ae_kind = Entry_file, ae_size = 1, ae_body = Some ''x''\<rparr>]),
     ow_json = (\<lambda>_. Some (JObj [(''name'', JStr ''p''), (''version'', JStr ''1'')])), ow_assess = sample_assess_lib, ow_files = Dir [(''t'', Dir [])], ow_temp = [''t'']\<rparr>"

definition served_stage :: arrival where
  "served_stage = \<lparr>av_now = 0, av_path = [], av_authorization = Some ''Bearer h'', av_call = Stage \<lparr>rq_name = ''p'', rq_version = ''1'', rq_tag = ''latest'',
     rq_tarball_base64 = ''z'', rq_assessment = JNull, rq_private = False\<rparr>\<rparr>"

definition served_id :: string where
  "served_id = ''acme'' @ '':'' @ ''p'' @ '':'' @ ''1'' @ '':'' @ ''z'' @ '':'' @ decimal 0"

definition served_approval :: arrival where
  "served_approval = \<lparr>av_now = 0, av_path = [], av_authorization = Some ''Bearer h'', av_call = Decide served_id True None\<rparr>"

definition served_fresh :: service where
  "served_fresh = \<lparr>sv_control = empty_control\<lparr>organizations := [(''acme'', 0)],
     tokens := [\<lparr>tk_hash = ''h'', tk_organization = ''acme'', tk_role = ''admin'', tk_expires_at = None, tk_kind = ''bootstrap''\<rparr>]\<rparr>, sv_objects = [[], []]\<rparr>"

lemma served_fresh: "fresh_service 0 ''acme'' ''h'' ''admin'' 1 served_fresh"
  by (simp add: fresh_service_def served_fresh_def bootstrap_token_def Let_def has_organization_def empty_control_def upsert_row_def row_at_def numeral_2_eq_2)

lemma served_assessed:
  obtains b where "assess_tarball sample_assess_lib (Dir [(''t'', Dir [])]) [''t''] (ow_entries served_outside ''z'') ''z'' m ''p'' ''1'' ''acme'' [] 0 = Inr b"
    "rv_decision (ab_verdict b) \<noteq> Deny"
proof -
  have "in_package ''package/package.json''" "\<not> sensitive_path (lowercase ''package/package.json'')" "secret_marker ''x'' = None" by code_simp+
  moreover have "write_extracted [''t''] ''package/package.json'' ''x'' (Dir [(''t'', Dir [])]) = Some (Dir [(''t'', Dir [(''package'', Dir [(''package.json'', File ''x'')])])])"
    by code_simp
  ultimately obtain st where st: "unpack_archive sample_assess_lib [''t''] (ow_entries served_outside ''z'') (Dir [(''t'', Dir [])]) = Inr st" "up_secrets st = []"
      "up_tree st = Dir [(''t'', Dir [(''package'', Dir [(''package.json'', File ''x'')])])]"
    by (simp add: unpack_archive_def unpack_entry_def served_outside_def Let_def entry_secrets_def MAX_ARCHIVE_ENTRIES_def MAX_FILE_BYTES_def MAX_EXPANDED_BYTES_def)
  have "\<not> is_source_file ''package.json''" by code_simp
  then have files: "scan_files (up_tree st) ([''t''] @ [''package'']) = []"
    by (simp add: st(3) scan_files_def walk_dir_def real_path_def symlink_limit_def scanned_source_def entry_name_def map_filter_simps)
  have hooks: "read_hooks (lib_json (al_scan sample_assess_lib)) (up_tree st) ([''t''] @ [''package'']) = Inr []"
    unfolding st(3) by code_simp
  have "fst (verdict_of (install_behavior []) False) \<noteq> Verdict_block" by (simp add: verdict_cases dangerous_def install_behavior_def no_behavior_def)
  then have clean: "\<forall>v\<in>set (package_verdicts (al_scan sample_assess_lib) (scan_files (up_tree st) ([''t''] @ [''package''])) []). fst v \<noteq> Verdict_block"
    unfolding files by (simp add: package_verdicts_def)
  obtain r where "package_scan (al_scan sample_assess_lib) ''p'' ''1'' (up_tree st) ([''t''] @ [''package'']) = Inr r"
    using hooks by (simp add: package_scan_def Let_def)
  then obtain b where b: "assess_tarball sample_assess_lib (Dir [(''t'', Dir [])]) [''t''] (ow_entries served_outside ''z'') ''z'' m ''p'' ''1'' ''acme'' [] 0 = Inr b"
    using st(1) by (simp add: assess_tarball_def Let_def)
  show thesis using that[OF b] assessment_facts[OF b st(1) hooks refl] st(2) clean by blast
qed

lemma served_manifest: "manifest_from_tarball (ow_json served_outside) (ow_entries served_outside ''z'') ''p'' ''1'' = Inr (JObj [(''name'', JStr ''p''), (''version'', JStr ''1'')])"
  by (simp add: manifest_from_tarball_def manifest_entry_def served_outside_def MAX_ARCHIVE_ENTRIES_def get_str_def)

lemma deliver_tables:
  "tokens (fst (fold (deliver_row env now) rs st)) = tokens (fst st)"
  "organizations (fst (fold (deliver_row env now) rs st)) = organizations (fst st)"
  "rate_limits (fst (fold (deliver_row env now) rs st)) = rate_limits (fst st)"
  "map ob_event_key (registry_outbox (fst (fold (deliver_row env now) rs st))) = map ob_event_key (registry_outbox (fst st))"
proof (induction rs arbitrary: st)
  case (Cons r rs)
  have kept: "tokens s = tokens c" "organizations s = organizations c" "rate_limits s = rate_limits c" "registry_outbox s = registry_outbox c" if "append_event_keyed env now k e c = Inr s" for k e c s
    using that by (auto elim: append_event_cases)
  have one: "tokens (fst (deliver_row env now r st)) = tokens (fst st)" "organizations (fst (deliver_row env now r st)) = organizations (fst st)"
    "rate_limits (fst (deliver_row env now r st)) = rate_limits (fst st)"
    "map ob_event_key (registry_outbox (fst (deliver_row env now r st))) = map ob_event_key (registry_outbox (fst st))" for st
    by (auto simp: deliver_row_def mark_outbox_delivered_def retry_outbox_def map_update_rows split: sum.split dest: kept)
  {
    case 1 show ?case using Cons.IH(1) one(1) by simp
  next
    case 2 show ?case using Cons.IH(2) one(2) by simp
  next
    case 3 show ?case using Cons.IH(3) one(3) by simp
  next
    case 4 show ?case using Cons.IH(4) one(4) by simp
  }
qed simp_all

lemma drain_tables:
  "tokens (sv_control (snd (drain env now s))) = tokens (sv_control s)" "organizations (sv_control (snd (drain env now s))) = organizations (sv_control s)"
  "map ob_event_key (registry_outbox (sv_control (snd (drain env now s)))) = map ob_event_key (registry_outbox (sv_control s))"
  "sv_objects (snd (drain env now s)) = sv_objects s" "rate_limits (sv_control (snd (drain env now s))) = rate_limits (sv_control s)"
  by (simp_all add: drain_def modify_def drain_outbox_def deliver_tables)

definition served_release :: "assessment_bundle \<Rightarrow> release" where
  "served_release b = \<lparr>rl_organization = ''acme'', rl_digest = ''z'', rl_private = False, rl_manifest = JObj [(''name'', JStr ''p''), (''version'', JStr ''1'')],
     rl_publisher_assessment = JNull, rl_assessment = signed_verdict sample_env (ab_verdict b), rl_server_evidence = ab_evidence b, rl_sbom = ab_sbom b,
     rl_provenance = ab_provenance b\<rparr>"

definition served_record :: "assessment_bundle \<Rightarrow> stage_record" where
  "served_record b = \<lparr>sr_id = served_id, sr_name = ''p'', sr_version = ''1'', sr_tag = ''latest'', sr_status = ''staged'', sr_release = served_release b, sr_created_at = 0\<rparr>"

lemma served_record_fields [simp]:
  "sr_id (served_record b) = served_id" "sr_name (served_record b) = ''p''" "sr_version (served_record b) = ''1''" "sr_tag (served_record b) = ''latest''"
  "sr_status (served_record b) = ''staged''" "sr_release (served_record b) = served_release b" "rl_organization (served_release b) = ''acme''"
  "rl_private (served_release b) = False" "rl_assessment (served_release b) = signed_verdict sample_env (ab_verdict b)"
  by (simp_all add: served_record_def served_release_def)

lemma limited_first:
  "rate_limits c = [] \<Longrightarrow> consume_rate_limit 0 subject ''api-minute'' 10 60 c = Inr (True, c\<lparr>rate_limits :=
     [\<lparr>rt_subject_hash = subject, rt_bucket = ''api-minute'', rt_window_start = 0, rt_request_count = 1\<rparr>]\<rparr>)"
  "rate_limits c = [\<lparr>rt_subject_hash = subject, rt_bucket = ''api-minute'', rt_window_start = 0, rt_request_count = 1\<rparr>] \<Longrightarrow>
    consume_rate_limit 0 subject ''api-minute'' 10 60 c = Inr (True, c\<lparr>rate_limits :=
     [\<lparr>rt_subject_hash = subject, rt_bucket = ''api-minute'', rt_window_start = 0, rt_request_count = 2\<rparr>]\<rparr>)"
  by (simp_all add: consume_rate_limit_def Let_def upsert_row_def row_at_def window_start_def update_rows_def)

lemma served_admin: "tokens c = [\<lparr>tk_hash = ''h'', tk_organization = ''acme'', tk_role = ''admin'', tk_expires_at = None, tk_kind = ''bootstrap''\<rparr>] \<Longrightarrow>
    authenticate sample_env 0 (Some ''Bearer h'') c = Inr \<lparr>pc_organization = ''acme'', pc_role = ''admin'', pc_kind = ''bootstrap''\<rparr>"
proof -
  assume "tokens c = [\<lparr>tk_hash = ''h'', tk_organization = ''acme'', tk_role = ''admin'', tk_expires_at = None, tk_kind = ''bootstrap''\<rparr>]"
  moreover have "bearer_optional (Some ''Bearer h'') = Inr (Some ''h'')" by code_simp
  ultimately show ?thesis by (simp add: authenticate_def token_principal_def sample_env_def row_at_def)
qed

lemma sample_env_simps: "b64_decode (rg_crypto sample_env) = Some" "rg_sha256 sample_env = id"
  by (simp_all add: sample_env_def)

lemma put_all_sample: "andthen (put_immutable ''z'' ''z'') k (served_fresh\<lparr>sv_control := c\<rparr>) = k () \<lparr>sv_control = c, sv_objects = [[(''z'', ''z'')], [(''z'', ''z'')]]\<rparr>"
  by (simp add: andthen_def put_immutable_def Let_def put_one_def map_prod_def served_fresh_def)

lemma served_staged:
  obtains b s where "rv_decision (ab_verdict b) \<noteq> Deny" "s = snd (serve served_outside sample_config None served_stage served_fresh)"
    "stages (sv_control s) = [stage_record.extend (served_record b) \<lparr>sr_decision_reason = None\<rparr>]" "versions (sv_control s) = []" "dist_tags (sv_control s) = []"
    "tokens (sv_control s) = tokens (sv_control served_fresh)" "organizations (sv_control s) = [(''acme'', 0)]"
    "map ob_event_key (registry_outbox (sv_control s)) = [''stage.created:'' @ served_id]"
    "rate_limits (sv_control s) = [\<lparr>rt_subject_hash = rate_subject sample_env (Some ''Bearer h''), rt_bucket = ''api-minute'', rt_window_start = 0, rt_request_count = 1\<rparr>]"
proof -
  obtain b where b: "assess_tarball sample_assess_lib (Dir [(''t'', Dir [])]) [''t''] (ow_entries served_outside ''z'') ''z''
        (JObj [(''name'', JStr ''p''), (''version'', JStr ''1'')]) ''p'' ''1'' ''acme'' [] 0 = Inr b"
    "rv_decision (ab_verdict b) \<noteq> Deny" by (rule served_assessed)
  define rows where "rows = [\<lparr>rt_subject_hash = rate_subject sample_env (Some ''Bearer h''), rt_bucket = ''api-minute'', rt_window_start = 0, rt_request_count = 1\<rparr>]"
  have limit: "consume_rate_limit 0 (rate_subject sample_env (Some ''Bearer h'')) ''api-minute'' 10 60 (sv_control served_fresh)
      = Inr (True, (sv_control served_fresh)\<lparr>rate_limits := rows\<rparr>)"
    unfolding rows_def by (rule limited_first) (simp add: served_fresh_def empty_control_def)
  let ?c = "(sv_control served_fresh)\<lparr>rate_limits := rows\<rparr>"
  define p where "p = \<lparr>pc_organization = ''acme'', pc_role = ''admin'', pc_kind = ''bootstrap''\<rparr>"
  have auth: "authenticate sample_env 0 (Some ''Bearer h'') ?c = Inr p" unfolding p_def by (rule served_admin) (simp add: served_fresh_def)
  have name: "authorize_name p ''p'' True ?c = Inr ''acme''"
    by (simp add: authorize_name_def p_def package_record_def row_at_def served_fresh_def empty_control_def may_write_def strip_prefix_def starts_with_def)
  define rq where "rq = \<lparr>rq_name = ''p'', rq_version = ''1'', rq_tag = ''latest'', rq_tarball_base64 = ''z'', rq_assessment = JNull, rq_private = False\<rparr>"
  have rq: "rq_name rq = ''p''" "rq_version rq = ''1''" "rq_tarball_base64 rq = ''z''" and p: "pc_organization p = ''acme''" by (simp_all add: rq_def p_def)
  have kept: "visibility_kept rq ?c = Inr ()"
    by (simp add: visibility_kept_def rq_def package_record_def row_at_def served_fresh_def empty_control_def)
  have staged: "stage_of sample_env 0 ''acme'' rq ''z'' (JObj [(''name'', JStr ''p''), (''version'', JStr ''1'')]) b = served_record b"
    by (simp add: stage_of_def rq_def served_record_def served_release_def served_id_def sample_env_def)
  obtain c where c: "create_stage 0 (served_record b) (''stage.created:'' @ served_id) (stage_event p (served_record b)) 10 ?c = Inr (True, c)"
    "stages c = [stage_record.extend (served_record b) \<lparr>sr_decision_reason = None\<rparr>]" "versions c = []" "dist_tags c = []"
    "tokens c = tokens (sv_control served_fresh)" "organizations c = [(''acme'', 0)]" "map ob_event_key (registry_outbox c) = [''stage.created:'' @ served_id]"
    "rate_limits c = rows"
    by (simp add: create_stage_def pending_stages_def claim_package_def package_record_def insert_stage_def enqueue_event_def served_record_def served_release_def
        served_fresh_def empty_control_def stage_record.defs row_at_def insert_row_def has_organization_def)
  have served: "snd (serve served_outside sample_config None served_stage served_fresh) =
      snd (drain sample_env 0 \<lparr>sv_control = c, sv_objects = [[(''z'', ''z'')], [(''z'', ''z'')]]\<rparr>)"
    using limit auth name kept served_manifest b(1) c(1) staged rq p
    by (simp add: put_all_sample drain_simps answer_def serve_def enforce_registry_rate_limit_def served_stage_def sample_config_def request_simps done_state request_stage_def Let_def
        rq_def[symmetric] served_outside_def sample_env_simps p_def[symmetric])
  show thesis
    using drain_catalog[of sample_env 0 "\<lparr>sv_control = c, sv_objects = [[(''z'', ''z'')], [(''z'', ''z'')]]\<rparr>"] c
    by (intro that[OF b(2) refl]) (simp_all add: served drain_tables catalog_def rows_def)
qed

lemma served_approved:
  assumes "rv_decision (ab_verdict b) \<noteq> Deny" "stages c = [stage_record.extend (served_record b) \<lparr>sr_decision_reason = None\<rparr>]" "versions c = []"
    "tokens c = tokens (sv_control served_fresh)" "organizations c = [(''acme'', 0)]" "map ob_event_key (registry_outbox c) = [''stage.created:'' @ served_id]"
  shows "version_record ''p'' ''1'' (sv_control (snd (decide sample_env sample_config 0 (Some ''Bearer h'') served_id True None (s\<lparr>sv_control := c\<rparr>)))) =
     Some \<lparr>vr_name = ''p'', vr_version = ''1'', vr_status = ''active'', vr_release = served_release b, vr_published_at = 0, vr_download_count = 0\<rparr>"
proof -
  define p where "p = \<lparr>pc_organization = ''acme'', pc_role = ''admin'', pc_kind = ''bootstrap''\<rparr>"
  have auth: "authenticate sample_env 0 (Some ''Bearer h'') c = Inr p" unfolding p_def by (rule served_admin) (simp add: assms(4) served_fresh_def)
  have read: "read_stage served_id c = Some (served_record b)"
    by (simp add: read_stage_def assms(2) row_at_def stage_record.defs)
  have fresh: "\<forall>r\<in>set (registry_outbox c). ob_event_key r \<noteq> decision_key True served_id"
  proof -
    have "ob_event_key ` set (registry_outbox c) = {''stage.created:'' @ served_id}" by (metis assms(6) list.set(1) list.set(2) list.set_map)
    then have "decision_key True served_id \<notin> ob_event_key ` set (registry_outbox c)" by (simp add: decision_key_def)
    then show ?thesis by force
  qed
  have "\<not> denied (served_release b)" using denied_verdict[of "served_release b" sample_env "ab_verdict b"] assms(1) by simp
  moreover obtain c' where c': "decide_stage 0 (served_record b) True None (decision_key True served_id) (decision_event p (served_record b) served_id True None) c = Inr (True, c')"
    "versions c' = [\<lparr>vr_name = ''p'', vr_version = ''1'', vr_status = ''active'', vr_release = served_release b, vr_published_at = 0, vr_download_count = 0\<rparr>]"
    using fresh by (simp add: decide_stage_def publish_stage_def set_stage_status_def enqueue_event_def assms(2,3,5) row_at_def insert_row_def has_organization_def image_iff find_None_iff)
  ultimately have "snd (decide sample_env sample_config 0 (Some ''Bearer h'') served_id True None (s\<lparr>sv_control := c\<rparr>)) = snd (drain sample_env 0 (s\<lparr>sv_control := c'\<rparr>))"
    using auth read by (simp add: decide_state p_def sample_config_def)
  moreover have "versions (sv_control (snd (drain sample_env 0 (s\<lparr>sv_control := c'\<rparr>)))) = versions c'"
    using drain_catalog[of sample_env 0 "s\<lparr>sv_control := c'\<rparr>"] by (simp add: catalog_def)
  ultimately show ?thesis using c'(2) by (simp add: version_record_def row_at_def)
qed

definition served_package :: service where
  "served_package = serve_all served_outside sample_config None [served_stage, served_approval] served_fresh"

lemma served_version:
  obtains v where "version_record ''p'' ''1'' (sv_control served_package) = Some v" "vr_status v = ''active''" "\<not> rl_private (vr_release v)"
proof -
  obtain b s where d: "rv_decision (ab_verdict b) \<noteq> Deny" and s: "s = snd (serve served_outside sample_config None served_stage served_fresh)"
    and t: "stages (sv_control s) = [stage_record.extend (served_record b) \<lparr>sr_decision_reason = None\<rparr>]" "versions (sv_control s) = []" "dist_tags (sv_control s) = []"
      "tokens (sv_control s) = tokens (sv_control served_fresh)" "organizations (sv_control s) = [(''acme'', 0)]"
      "map ob_event_key (registry_outbox (sv_control s)) = [''stage.created:'' @ served_id]"
    and limit: "rate_limits (sv_control s) = [\<lparr>rt_subject_hash = rate_subject sample_env (Some ''Bearer h''), rt_bucket = ''api-minute'', rt_window_start = 0, rt_request_count = 1\<rparr>]"
    by (rule served_staged)
  define c where "c = (sv_control s)\<lparr>rate_limits :=
     [\<lparr>rt_subject_hash = rate_subject sample_env (Some ''Bearer h''), rt_bucket = ''api-minute'', rt_window_start = 0, rt_request_count = 2\<rparr>]\<rparr>"
  have "consume_rate_limit 0 (rate_subject sample_env (Some ''Bearer h'')) ''api-minute'' 10 60 (sv_control s) = Inr (True, c)"
    unfolding c_def by (rule limited_first(2)[OF limit])
  then have "served_package = snd (decide sample_env sample_config 0 (Some ''Bearer h'') served_id True None (s\<lparr>sv_control := c\<rparr>))"
    by (simp add: served_package_def serve_all_def s[symmetric]) (simp add: serve_def enforce_registry_rate_limit_def served_approval_def served_outside_def
      request_simps done_state, simp add: sample_config_def request_simps done_state)
  then show thesis using served_approved[OF d, of c s] t that by (simp add: c_def)
qed

section \<open>Downloads\<close>

text \<open>
  C1: A download is what was assessed. After any sequence of requests to a new service, the bytes that a download answers with are those of an active version under its
  digest, for a client that may read it; they carry the manifest of that name and version; and the assessment of exactly these bytes, whose signed verdict the version
  has, was not a denial: it found no secret, and no source file or install hook to block.
\<close>

theorem downloads_assessed:
  assumes "fresh_service t0 organization hash role replicas s0" "s = serve_all ow cf billing arrivals s0"
    and "fst (download_version (ow_env ow) now authorization name version s) = Inr bytes"
  shows "\<exists>v b publisher at. version_record name version (sv_control s) = Some v \<and> vr_status v = ''active''
    \<and> may_read (ow_env ow) now authorization name v (sv_control s)
    \<and> rl_digest (vr_release v) = rg_sha256 (ow_env ow) bytes
    \<and> manifest_from_tarball (ow_json ow) (ow_entries ow bytes) name version = Inr (rl_manifest (vr_release v))
    \<and> assess_tarball (ow_assess ow) (ow_files ow) (ow_temp ow) (ow_entries ow bytes) bytes (rl_manifest (vr_release v)) name version publisher (cf_public_url cf) at = Inr b
    \<and> rl_assessment (vr_release v) = signed_verdict (ow_env ow) (ab_verdict b) \<and> rv_decision (ab_verdict b) \<noteq> Deny
    \<and> (\<forall>st hooks. unpack_archive (ow_assess ow) (ow_temp ow) (ow_entries ow bytes) (ow_files ow) = Inr st
         \<and> read_hooks (lib_json (al_scan (ow_assess ow))) (up_tree st) (ow_temp ow @ [''package'']) = Inr hooks \<longrightarrow>
         up_secrets st = [] \<and> (\<forall>w\<in>set (package_verdicts (al_scan (ow_assess ow)) (scan_files (up_tree st) (ow_temp ow @ [''package''])) hooks). fst w \<noteq> Verdict_block))"
proof -
  obtain seen where good: "registry_good (sv_control s, seen)" using fresh_served(1)[OF assms(1,2)] by blast
  note all = fresh_served(2)[OF assms(1,2)] and stores = fresh_served(3)[OF assms(1,2)]
  obtain v where v: "version_record name version (sv_control s) = Some v"
    using assms(3) by (cases "version_record name version (sv_control s)") (auto simp: download_version_def request_simps)
  note release = version_assessed[OF good all v]
  have held: "\<forall>store\<in>set (sv_objects s). map_of store (rl_digest (vr_release v)) = Some bytes"
    by (rule download_answer(2)[OF stores release(1) v assms(3)])
  obtain tarball publisher at b where b: "rl_digest (vr_release v) = rg_sha256 (ow_env ow) tarball" "\<forall>store\<in>set (sv_objects s). map_of store (rl_digest (vr_release v)) = Some tarball"
    "manifest_from_tarball (ow_json ow) (ow_entries ow tarball) name version = Inr (rl_manifest (vr_release v))"
    "assess_tarball (ow_assess ow) (ow_files ow) (ow_temp ow) (ow_entries ow tarball) tarball (rl_manifest (vr_release v)) name version publisher (cf_public_url cf) at = Inr b"
    "rl_assessment (vr_release v) = signed_verdict (ow_env ow) (ab_verdict b)" using release(1) unfolding assessed_def by blast
  have same: "tarball = bytes" using stores b(2) held by (cases "sv_objects s") auto
  have "rv_decision (ab_verdict b) \<noteq> Deny" using denied_verdict[OF b(5)] release(2) by blast
  moreover have "vr_status v = ''active'' \<and> may_read (ow_env ow) now authorization name v (sv_control s)"
    using download_answer(1)[OF stores release(1) v] assms(3) by blast
  ultimately show ?thesis
    using v b(1,3-5) not_denied_clean[OF b(4)] unfolding same by (intro exI[of _ v] exI[of _ b] exI[of _ publisher] exI[of _ at]) simp
qed

lemma served_download: "\<exists>bytes. fst (download_version sample_env 0 None ''p'' ''1'' served_package) = Inr bytes"
proof -
  obtain v where v: "version_record ''p'' ''1'' (sv_control served_package) = Some v" "vr_status v = ''active''" "\<not> rl_private (vr_release v)"
    by (rule served_version)
  obtain seen where good: "registry_good (sv_control served_package, seen)" using fresh_served(1)[OF served_fresh served_package_def] by blast
  note all = fresh_served(2)[OF served_fresh served_package_def] and stores = fresh_served(3)[OF served_fresh served_package_def]
  show ?thesis using download_answer(1)[OF stores version_assessed(1)[OF good all v(1)] v(1)] v(2,3) by (simp add: may_read_def)
qed

theorem downloads_assessed_witness:
  "\<exists>bytes v. fst (download_version sample_env 0 None ''p'' ''1'' served_package) = Inr bytes \<and> version_record ''p'' ''1'' (sv_control served_package) = Some v
     \<and> rl_digest (vr_release v) = bytes"
proof -
  obtain bytes where b: "fst (download_version (ow_env served_outside) 0 None ''p'' ''1'' served_package) = Inr bytes"
    using served_download by (auto simp: served_outside_def)
  from downloads_assessed[OF served_fresh served_package_def b] b show ?thesis by (auto simp: served_outside_def sample_env_def)
qed

text \<open>
  C13: What is published can be downloaded. After any sequence of requests to a new service, a version that is recorded answers a download exactly when it is active and the
  client may read it, and every store then holds the bytes of the answer under the version's digest: no request, not even one that failed half way, loses or replaces an artifact.
\<close>

theorem published_downloadable:
  assumes "fresh_service t0 organization hash role replicas s0" "s = serve_all ow cf billing arrivals s0"
    and "version_record name version (sv_control s) = Some v"
  shows "(vr_status v = ''active'' \<and> may_read (ow_env ow) now authorization name v (sv_control s) \<longleftrightarrow>
      (\<exists>bytes. fst (download_version (ow_env ow) now authorization name version s) = Inr bytes))
    \<and> (\<exists>bytes. (\<forall>store\<in>set (sv_objects s). map_of store (rl_digest (vr_release v)) = Some bytes)
         \<and> fst (download_version (ow_env ow) now authorization name version s) \<in> range Inl \<union> {Inr bytes})"
proof -
  obtain seen where good: "registry_good (sv_control s, seen)" using fresh_served(1)[OF assms(1,2)] by blast
  note stores = fresh_served(3)[OF assms(1,2)] and release = version_assessed(1)[OF good fresh_served(2)[OF assms(1,2)] assms(3)]
  obtain bytes where bytes: "\<forall>store\<in>set (sv_objects s). map_of store (rl_digest (vr_release v)) = Some bytes" using release unfolding assessed_def by blast
  have "fst (download_version (ow_env ow) now authorization name version s) \<in> range Inl \<union> {Inr bytes}"
  proof (cases "fst (download_version (ow_env ow) now authorization name version s)")
    case (Inr x)
    have "x = bytes" using download_answer(2)[OF stores release assms(3) Inr] bytes stores by (cases "sv_objects s") auto
    then show ?thesis using Inr by simp
  qed simp
  then show ?thesis using bytes download_answer(1)[OF stores release assms(3)] by blast
qed

theorem published_downloadable_witness:
  "\<exists>v. version_record ''p'' ''1'' (sv_control served_package) = Some v \<and> (\<exists>bytes. fst (download_version sample_env 0 None ''p'' ''1'' served_package) = Inr bytes)"
proof -
  obtain v where v: "version_record ''p'' ''1'' (sv_control served_package) = Some v" "vr_status v = ''active''" "\<not> rl_private (vr_release v)"
    by (rule served_version)
  then show ?thesis
    using published_downloadable[OF served_fresh served_package_def v(1), of 0 None] by (auto simp: may_read_def served_outside_def)
qed

end
