(* ===== verification/Registry_Journal.thy ===== *)
theory Registry_Journal
  imports Registry_Served
begin

text \<open>
  The public event log over time: the checkpoints, inclusion proofs and consistency proofs that the service answers with.
\<close>

lemma grown_log:
  assumes "(registry_step (ow_env ow) (ow_parse ow))\<^sup>*\<^sup>* (empty_control, {}) (sv_control s, seen)" "t = serve_all ow cf billing arrivals s"
  shows "\<exists>hashes. event_hashes (sv_control t) = event_hashes (sv_control s) @ hashes"
proof -
  obtain seen' where run: "(registry_step (ow_env ow) (ow_parse ow))\<^sup>*\<^sup>* (sv_control s, seen) (sv_control t, seen')"
    using served_run[OF assms(1)] assms(2) by blast
  have "log_later (sv_control s, seen) (sv_control t, seen')"
    by (rule event_log.run_later[OF run event_log.reachable_good[OF assms(1)]])
  then show ?thesis by (auto simp: log_later_def event_hashes_def)
qed

text \<open>
  C11: Every earlier checkpoint can be proved to be a prefix of every later one. Whatever requests are served between two checkpoints, the service answers a request
  for a consistency proof from the size of the earlier one with the roots of both checkpoints and a proof that verifies, and a request for the proof of any event that
  the earlier checkpoint counts with the same event as before and a path that verifies against the later root. The bound says that the size of the log is a
  \<open>usize\<close>.
\<close>

theorem checkpoints_consistent:
  assumes "(registry_step (ow_env ow) (ow_parse ow))\<^sup>*\<^sup>* (empty_control, {}) (sv_control s, seen)" "t = serve_all ow cf billing arrivals s"
    and "registry_checkpoint (ow_env ow) s = (Inr c, s)" "registry_checkpoint (ow_env ow) t = (Inr c', t)" "tc_event_count c' < 2 ^ 64"
  shows "(\<exists>proof. request_consistency (ow_env ow) (tc_event_count c) t = (Inr (tc_merkle_root c, tc_merkle_root c', proof), t)
      \<and> verify_merkle_consistency (rg_sha256 (ow_env ow)) proof (tc_merkle_root c) (tc_merkle_root c'))
    \<and> (\<forall>sequence. 1 \<le> sequence \<and> sequence \<le> tc_event_count c \<longrightarrow> (\<exists>path.
        request_inclusion (ow_env ow) sequence t = (Inr (event_hashes (sv_control s) ! (sequence - 1), tc_event_count c', tc_merkle_root c', path), t)
      \<and> verify_merkle_inclusion (rg_sha256 (ow_env ow)) (event_hashes (sv_control s) ! (sequence - 1)) (sequence - 1) (tc_event_count c') path (tc_merkle_root c')))"
proof -
  let ?H = "rg_sha256 (ow_env ow)" and ?old = "event_hashes (sv_control s)" and ?new = "event_hashes (sv_control t)"
  have c: "tc_event_count c = length ?old" "tc_merkle_root c = merkle_root ?H ?old"
    "tc_event_count c' = length ?new" "tc_merkle_root c' = merkle_root ?H ?new"
    using assms(3,4) by (auto simp: registry_checkpoint_def request_simps answer_def)
  obtain hashes where new: "?new = ?old @ hashes" using grown_log[OF assms(1,2)] by blast
  obtain pf where "make_consistency_proof ?H ?new (length ?old) = Some pf"
    "verify_merkle_consistency ?H pf (merkle_root ?H (take (length ?old) ?new)) (merkle_root ?H ?new)"
    using consistency_proof_verifies[of "length ?old" ?new ?H] assms(5) new c by auto
  then have consistency: "request_consistency (ow_env ow) (tc_event_count c) t = (Inr (tc_merkle_root c, tc_merkle_root c', pf), t)
      \<and> verify_merkle_consistency ?H pf (tc_merkle_root c) (tc_merkle_root c')"
    using new by (simp add: request_consistency_def request_simps answer_def c)
  have "\<exists>path. request_inclusion (ow_env ow) sequence t = (Inr (?old ! (sequence - 1), tc_event_count c', tc_merkle_root c', path), t)
      \<and> verify_merkle_inclusion ?H (?old ! (sequence - 1)) (sequence - 1) (tc_event_count c') path (tc_merkle_root c')"
    if "1 \<le> sequence \<and> sequence \<le> tc_event_count c" for sequence
  proof -
    have less: "sequence - 1 < length ?new" "?new ! (sequence - 1) = ?old ! (sequence - 1)" using that new c by (auto simp: nth_append)
    then obtain path where "merkle_inclusion_proof ?H ?new (sequence - 1) = Some path"
      "verify_merkle_inclusion ?H (?new ! (sequence - 1)) (sequence - 1) (length ?new) path (merkle_root ?H ?new)"
      using inclusion_complete[of "sequence - 1" ?new ?H] by blast
    then show ?thesis using that less by (simp add: request_inclusion_def request_simps answer_def c)
  qed
  then show ?thesis using consistency by blast
qed

theorem checkpoints_consistent_witness:
  "\<exists>answer proof. fst (request_consistency sample_env 0 (serve_all sample_outside sample_config None [] sample_service)) = Inr answer
     \<and> snd (snd answer) = proof \<and> verify_merkle_consistency id proof (fst answer) (fst (snd answer))"
proof -
  let ?t = "serve_all sample_outside sample_config None [] sample_service"
  have "(registry_step (ow_env sample_outside) (ow_parse sample_outside))\<^sup>*\<^sup>* (empty_control, {}) (sv_control sample_service, {sample_stage})"
    using sample_run_staged by (simp add: sample_outside_def sample_service_def)
  moreover obtain c where c: "registry_checkpoint (ow_env sample_outside) sample_service = (Inr c, sample_service)" "tc_event_count c = 0"
    by (simp add: registry_checkpoint_def request_simps answer_def sample_service_def event_hashes_def sample_staged_def empty_control_def)
  moreover have "?t = sample_service" by (simp add: serve_all_def)
  ultimately show ?thesis
    using checkpoints_consistent[OF _ refl, of sample_outside sample_service "{sample_stage}" c sample_config None "[]" c]
    by (auto simp: sample_outside_def sample_env_def)
qed

end
