(* ===== verification/Spec2Isabelle.thy ===== *)
theory Spec2Isabelle
  imports
    Registry_Merkle_Security
    Core_Integrity
    Core_Policy
    Transparency
    Placement
    Lockfile
    Npm_Import
    Cas_Safety
    Git_Deps
    Resolver_Props
    Tarball
    Contract_Signatures
    Link_Result
    Link_Recovery
    Analyze_Scan
    Registry_Journal
begin

text \<open>
  Oath: a verification development.

  Oath is a package manager for the npm ecosystem that treats every package as untrusted. A project's
  dependencies are resolved against the registry (\<^verbatim>\<open>oath-fetch\<close>, \<^verbatim>\<open>oath-resolve\<close>) or imported from an npm
  lockfile, pinned in a lockfile of its own, fetched, checked and kept in a content store
  (\<^verbatim>\<open>oath-store\<close>), laid out by a placement plan, and every install is recorded in a hash-chained log
  (\<^verbatim>\<open>oath-transparency\<close>). The registry keeps a Merkle log of everything it published
  (\<^verbatim>\<open>oath-registry\<close>). Policy and integrity strings are shared by all of them (\<^verbatim>\<open>oath-core\<close>).

  \<^bold>\<open>How the code is rendered.\<close> A Rust struct is a record, an enum a datatype, a fallible function returns a sum
  with an error datatype of its own on the left. A \<^verbatim>\<open>HashMap\<close> is an association list in iteration order
  (\<open>hmap\<close>, distinct keys), a \<^verbatim>\<open>BTreeMap\<close> a sorted one; strings are lists of characters. The file system is a
  value of \<open>ftree\<close> that operations take and return; only the linker's calls follow symbolic links, and the claim on extraction assumes that its destination has none. Code outside the repository's Rust sources is a parameter:
  SHA-256 and BLAKE3, \<^verbatim>\<open>serde_json\<close>, the TOML reader, the semver library, the registry client, the git
  process, tar, and the bundled npm runtime. What a theorem needs of such a parameter is one of its hypotheses.

  \<^bold>\<open>Theories.\<close>
  \<^item> \<open>Prelude\<close>: results, folds that stop at the first error, string operations, hash maps and sorted maps.
  \<^item> \<open>Paths\<close>: \<^verbatim>\<open>std::path\<close> components, where a relative path leads, and percent escaping of a component; the
    locale \<open>safe_component\<close> is the contract of the escapers in the store and the git cache.
  \<^item> \<open>Json\<close>: \<^verbatim>\<open>serde_json::Value\<close> and its accessors. \<open>File_Tree\<close>: directories and files; the locale
    \<open>path_store\<close> has the laws of lookup after put and remove.
  \<^item> \<open>Core_Integrity\<close> and \<open>Core_Policy\<close> (\<^verbatim>\<open>oath-core/src/integrity.rs\<close>, \<^verbatim>\<open>permissions.rs\<close>, \<^verbatim>\<open>policy.rs\<close>):
    encodings lose nothing; the policy's decisions in terms of its layers.
  \<^item> \<open>Registry_Merkle\<close> and \<open>Registry_Merkle_Security\<close> (\<^verbatim>\<open>oath-registry/src/lib.rs\<close>): the log's roots, inclusion and
    consistency proofs. Completeness: honest proofs verify. Soundness: accepted proofs are about the log,
    up to a collision among the strings that were hashed.
  \<^item> \<open>Transparency\<close> (\<^verbatim>\<open>oath-transparency/src/lib.rs\<close>): append keeps the chain valid, a checkpoint commits to it.
  \<^item> \<open>Dep_Graph\<close>, \<open>Placement\<close>, \<open>Lockfile\<close>, \<open>Npm_Import\<close>, \<open>Git_Deps\<close> (\<^verbatim>\<open>oath-resolve/src\<close>: \<^verbatim>\<open>graph.rs\<close>,
    \<^verbatim>\<open>placement.rs\<close>, \<^verbatim>\<open>lockfile.rs\<close>, \<^verbatim>\<open>import.rs\<close>, \<^verbatim>\<open>git.rs\<close>): containment of planned locations and packed
    files, the lockfile's round trip through its JSON form and its determinism, Node's lookup rule, cache file names.
  \<^item> \<open>Version_Resolve\<close> (\<^verbatim>\<open>oath-fetch/src/resolve.rs\<close>, \<^verbatim>\<open>packument.rs\<close>): the locale \<open>version_choice\<close> is the contract
    of picking the highest version, interpreted on the code's choice.
  \<^item> \<open>Resolver\<close> and \<open>Resolver_Props\<close> (\<^verbatim>\<open>oath-resolve/src/resolver.rs\<close>): the level-by-level search, edge fix-up and
    peer pass; termination, soundness of the graph, exactness of the peer report.
  \<^item> \<open>Cas\<close> and \<open>Cas_Safety\<close> (\<^verbatim>\<open>oath-store/src/cas.rs\<close>): storing, verifying and removing entries, with other processes
    acting on the store between the steps.

  \<^item> \<open>Tarball\<close> (\<^verbatim>\<open>oath-fetch/src/tarball.rs\<close>): which digest of an integrity string decides, the limits, and that extraction
    writes exactly the listed files, below its destination.
  \<^item> \<open>Contracts\<close> and \<open>Contract_Signatures\<close> (\<^verbatim>\<open>oath-contracts/src/lib.rs\<close>): canonical JSON has one text per value, and a verified
    signature fixes every field of the signed record.
  \<^item> \<open>Link_Plan\<close> and \<open>Link_Transaction\<close> (\<^verbatim>\<open>oath-store/src/linker.rs\<close>): which version is hoisted, the names and relative
    links of the layout, and the calls of the transaction that replaces \<^verbatim>\<open>node_modules\<close>. Any of them may fail: \<open>fs_faults\<close> says which rename is refused and
    what a removal that stops has left, and is arbitrary in the theorems. The steps of a crash between any two calls are here, too.
  \<^item> \<open>Link_Fs\<close>, \<open>Link_All\<close>, \<open>Link_Build\<close>, \<open>Link_Layout\<close>, \<open>Link_Resolve\<close>, \<open>Link_Result\<close> (\<^verbatim>\<open>link_all\<close> in the same file): a
    file system whose paths lead through symbolic links, the construction of the stage phase by phase, that it stays inside the stage,
    that every package has its files and every dependency leads to the resolved version, and that linking again changes nothing.
  \<^item> \<open>Link_Recovery\<close>: the states of the program \<open>link_all\<close> between its calls are those of the steps of \<open>Link_Transaction\<close>; whatever runs and crashes came
    before, \<^verbatim>\<open>node_modules\<close> or its backup is complete, and a run that is not hindered finishes.
  \<^item> \<open>Analyze_Report\<close>, \<open>Analyze_Behavior\<close>, \<open>Analyze_Score\<close>, \<open>Analyze_Scan\<close> (\<^verbatim>\<open>oath-analyze/src\<close>: \<^verbatim>\<open>report.rs\<close>, \<^verbatim>\<open>patterns.rs\<close>, \<^verbatim>\<open>analyzer.rs\<close>,
    \<^verbatim>\<open>behavior.rs\<close>, \<^verbatim>\<open>score.rs\<close>, \<^verbatim>\<open>scanner.rs\<close>): the table of patterns and the scan for them, the verdict on a file's behaviour, the
    score with its arithmetic at the width of the code, and the scan of a package; what the visitors of the syntax tree find is a parameter.

  \<^item> \<open>Registry_Control\<close>, \<open>Registry_Log\<close> (\<^verbatim>\<open>oath-registry/src/control_plane.rs\<close> and the event log of \<^verbatim>\<open>postgres_api.rs\<close>): the tables as lists of
    rows with the constraints of the schema, and every transaction on them. A transaction commits or fails on a constraint,
    and is one step: what another request does comes before or after it. For the revocation of a version the code does not ensure this against another
    revocation of the same package; \<open>Registry_Safety\<close> shows what their overlap does to the tags, and its claims are about runs without such an overlap.
  \<^item> \<open>Registry_Runs\<close>, \<open>Registry_Invariant\<close>, \<open>Registry_Safety\<close>: the transactions of any number of requests in any order, as a step relation; the
    locale \<open>guarded_system\<close> (an invariant and an order of progress) is interpreted for the tables and for the event log.
  \<^item> \<open>Registry_Assess\<close> (\<^verbatim>\<open>assessment.rs\<close>): unpacking a tarball, scanning it and the verdict, with the evidence and the bill of materials.
  \<^item> \<open>Registry_Api\<close>, \<open>Registry_Access\<close>, \<open>Registry_Service\<close>, \<open>Registry_Requests\<close>, \<open>Registry_Authority\<close> (\<^verbatim>\<open>postgres_api.rs\<close>, \<^verbatim>\<open>identity.rs\<close>,
    \<^verbatim>\<open>object_backend.rs\<close>, \<^verbatim>\<open>billing.rs\<close>): the requests with their authentication and authorization, and the router; the locale \<open>progress\<close> lifts a
    relation that every part of a request keeps to the request. Every request is a run of the transactions; only authorized ones change what is published.
  \<^item> \<open>Registry_Downloads\<close>, \<open>Registry_Served\<close>, \<open>Registry_Journal\<close>: from a stage to a download, and proofs between checkpoints of different times. Here requests
    are served one after the other.

  \<^bold>\<open>Fuel.\<close> The search of the resolver takes one unit of fuel per level. Every level is one deeper than the one before, and
  a dependency beyond the depth limit is dropped, so three levels more than the limit are always enough; this is proved,
  for every registry. All other loops are total functions with a termination proof or structural recursion.

  \<^bold>\<open>Not modelled.\<close> Pure input and output: HTTP transport and its cache, progress output, the command line, mail and payment. Outages of the
  registry's database and object stores: a query or a put answers. The platform sandboxes call the operating system. The visitors of the static analyser
  walk the syntax tree of a JavaScript parser that is not part of the repository.
\<close>

end
